(* ===== verification/GoPrelude.thy ===== *)
theory GoPrelude
  imports Main "HOL-Library.Word" "HOL-Library.Char_ord" "HOL-Library.List_Lexorder"
    "HOL-Library.AList"
begin

text \<open>
  Shared vocabulary of the development: the Go integer types, the error values of the program
  (sentinels and what wraps them), results, times, and the generic facts on lists, association
  lists and options the components use. Two contracts that several components share are stated
  here as locales: \<open>codec\<close> (an encoder with a decoder) and \<open>step_system\<close> (a state machine with
  an invariant).

  A Go string or byte slice is a \<^typ>\<open>string\<close>: a \<^typ>\<open>char\<close> is one byte. A Go map whose keys are
  looked up and listed is an association list with distinct keys (the order in which Go ranges
  over it never matters to the code modelled here: what it lists is sorted afterwards).
\<close>

named_theorems go_defs \<open>definitions of small operations that proofs unfold\<close>
named_theorems err_simps \<open>facts on error values\<close>

type_synonym u32 = "32 word"
type_synonym u64 = "64 word"
type_synonym bytes = string

text \<open>
  Times are nanoseconds since the Unix epoch; Go's zero time is 1 January of the year 1. The
  location and the monotonic clock of a Go time have no counterpart. Durations are nanoseconds.
\<close>

type_synonym time = int
type_synonym duration = int

definition time_zero :: time where
  "time_zero = - (62135596800 * 1000000000)"

definition IsZero :: "time \<Rightarrow> bool" where
  "IsZero t \<longleftrightarrow> t = time_zero"

definition UnixMilli :: "time \<Rightarrow> int" where
  "UnixMilli t = t div 1000000"

definition fromUnixMilli :: "int \<Rightarrow> time" where
  "fromUnixMilli ms = ms * 1000000"

section \<open>Errors\<close>

text \<open>
  The sentinel errors of the program, by their Go names. An error value keeps the sentinels that
  \<open>errors.Is\<close> finds in it: \<open>Wrap ctx es\<close> is \<open>fmt.Errorf\<close> with one or more wrapping verbs, or
  \<open>errors.Join\<close>; \<open>Library\<close> names a sentinel of the library signalmeow, \<open>Opaque\<close> is an error of
  other code. The texts shown to a user are not modelled
  beyond the context they start with.
\<close>

datatype sentinel =
    ErrInvalidPoll | ErrInvalidPin | ErrInvalidStyle | ErrInvalidSticker | ErrInvalidStory
  | ErrInvalidSendRequest | ErrInvalidContent | ErrInvalidReceipt | ErrUnresolvable
  | ErrNotOnSignal | ErrNotConnected | ErrAlreadyConnected | ErrClosed | ErrNotLinked
  | ErrDeviceUnlinked | ErrConnectionFailed | ErrNotStorable | ErrPollVoteExhausted
  | ErrUnknownGroup | ErrNotAMember | ErrLastAdmin | ErrInvalidPromotion | ErrGroupChanged
  | ErrInvalidGroupTitle | ErrGroupPermission | ErrInvalidGroupMember | ErrInvalidGroupUpdate
  | ErrGroupUpdateUncertain | ErrInvalidGroupLinkUpdate | ErrGroupInvitationNotFound
  | ErrInvalidGroupChangeResponse | ErrGroupTerminated | ErrGroupLinkInactive
  | ErrInvalidGroupInviteLink | ErrGroupInvitationRequiresAcceptance
  | ErrInvalidRecipient | ErrRecipientNotAllowed | ErrInvalidQuote | ErrInvalidTarget
  | ErrInvalidEmoji | ErrBadTimestamp | ErrInvalidCursor | ErrUnknownEntry | ErrNotAMessage
  | ErrNoAttachment | ErrEmptyMessage | ErrNoRecipients | ErrSendFailed | ErrInvalidEdit
  | ErrNoResult | ErrContextDone | ErrOutsideAttachDir | ErrNotAFile | ErrAttachmentTooLarge
  | ErrAmbiguousGroup | ErrUnknownAttachment | ErrSyncFailed | ErrAttachmentNotFound
  | ErrAttachmentInvalid | ErrAmbiguousContact | ErrUnknownContact | ErrServiceUnavailable
  | ErrNotExist | ErrWouldBlock | ErrRegistryBusy | ErrRecoveryRequired | ErrImportUnsupported
  | ErrImportCollision | ErrAccountsVersion | ErrNothingToRecover | ErrEvidence | ErrImportState
  | ErrNotConfirmed | ErrNoElicitation | ErrConfirmMismatch | ErrNoAttachDir | ErrMessageRef
  | ErrNoChat | ErrInvalidChatTimerACI | Library string

datatype err = Sentinel sentinel | Opaque string | Wrap string "err list"

fun errors_Is :: "err \<Rightarrow> sentinel \<Rightarrow> bool" where
  "errors_Is (Sentinel s) t \<longleftrightarrow> s = t"
| "errors_Is (Opaque _) t \<longleftrightarrow> False"
| "errors_Is (Wrap _ es) t \<longleftrightarrow> list_ex (\<lambda>e. errors_Is e t) es"

type_synonym 'a res = "err + 'a"

text \<open>\<open>errors.Join\<close>: nil for no errors.\<close>

definition errors_Join :: "err list \<Rightarrow> err option" where
  "errors_Join es = (if es = [] then None else Some (Wrap '''' es))"

definition wrap_err :: "string \<Rightarrow> err option \<Rightarrow> err option" where
  "wrap_err ctx e = map_option (\<lambda>x. Wrap ctx [x]) e"

lemma errors_Join_None [simp]: "errors_Join es = None \<longleftrightarrow> es = []"
  by (simp add: errors_Join_def)

lemma errors_Join_Nil [simp]: "errors_Join [] = None"
  by (simp add: errors_Join_def)

lemma wrap_err_None [simp]: "wrap_err ctx e = None \<longleftrightarrow> e = None"
  by (simp add: wrap_err_def)

lemma errors_Is_Wrap1 [simp, err_simps]: "errors_Is (Wrap ctx [e]) t = errors_Is e t"
  by simp

lemma errors_Is_Join [err_simps]:
  "errors_Join es = Some e \<Longrightarrow> errors_Is e t \<longleftrightarrow> (\<exists>x\<in>set es. errors_Is x t)"
  by (auto simp: errors_Join_def list_ex_iff split: if_splits)

section \<open>Results\<close>

definition isOk :: "'a res \<Rightarrow> bool" where
  "isOk r = (case r of Inl _ \<Rightarrow> False | Inr _ \<Rightarrow> True)"

lemma isOk_simps [simp]: "\<not> isOk (Inl e)" "isOk (Inr x)"
  by (simp_all add: isOk_def)

lemma isOk_iff: "isOk r \<longleftrightarrow> (\<exists>x. r = Inr x)"
  by (cases r) auto

section \<open>Association lists as Go maps\<close>

lemma map_of_AList_update [simp]:
  "map_of (AList.update k v al) = (map_of al)(k \<mapsto> v)"
  by (rule ext) (simp add: update_conv')

lemma distinct_keys_update:
  "distinct (map fst al) \<Longrightarrow> distinct (map fst (AList.update k v al))"
  by (rule distinct_update)

lemma set_AList_update:
  "distinct (map fst al) \<Longrightarrow>
   set (AList.update k v al) = {(a, b). (a, b) \<in> set al \<and> a \<noteq> k} \<union> {(k, v)}"
proof (induction al)
  case Nil
  then show ?case by auto
next
  case (Cons p al)
  then show ?case by (cases p) (auto simp: image_iff)
qed

lemma ball_AList_update:
  assumes "\<forall>(a, b)\<in>set al. P a b" and "P k v"
  shows "\<forall>(a, b)\<in>set (AList.update k v al). P a b"
  using assms by (induction al) auto

section \<open>Lists\<close>

lemma take_sorted_wrt: "sorted_wrt r xs \<Longrightarrow> sorted_wrt r (take n xs)"
  by (rule sorted_wrt_take)

lemma filter_nth_split:
  "filter P xs = take n (filter P xs) @ drop n (filter P xs)"
  by simp

lemma strict_sorted_distinct: "sorted_wrt (<) (xs :: 'a::linorder list) \<Longrightarrow> distinct xs"
  by (simp add: strict_sorted_iff)

lemma sum_list_replicate0 [simp]: "sum_list (replicate n (0::nat)) = 0"
  by (induction n) auto

lemma sum_list_update_Suc:
  "i < length xs \<Longrightarrow> sum_list (xs[i := Suc (xs ! i)]) = Suc (sum_list (xs :: nat list))"
  by (induction xs arbitrary: i) (auto split: nat.splits)

section \<open>Codecs\<close>

text \<open>
  An encoder and a decoder where decoding an encoding gives the value back. A text is canonical
  when re-encoding what it decodes to reproduces it; the program accepts only canonical identifiers
  in several places and canonicalizes them in others.
\<close>

locale codec =
  fixes enc :: "'a \<Rightarrow> string"
    and dec :: "string \<Rightarrow> 'a option"
    and wf :: "'a \<Rightarrow> bool"
  assumes dec_enc: "wf x \<Longrightarrow> dec (enc x) = Some x"
    and dec_wf: "dec s = Some x \<Longrightarrow> wf x"
begin

lemma enc_inj:
  assumes "wf x" "wf y" "enc x = enc y"
  shows "x = y"
  using assms by (metis dec_enc option.inject)

lemma canonical_iff_encoding:
  "(\<exists>x. dec s = Some x \<and> enc x = s) \<longleftrightarrow> (\<exists>x. wf x \<and> s = enc x)"
  using dec_enc dec_wf by blast

lemma canonicalize_idem:
  assumes "dec s = Some x"
  shows "dec (enc x) = Some x"
  by (rule dec_enc [OF dec_wf [OF assms]])

end

section \<open>State machines\<close>

text \<open>
  A state machine given by a step function on states and events, with an invariant each step
  keeps: the invariant then holds after every run.
\<close>

locale step_system =
  fixes step :: "'e \<Rightarrow> 's \<Rightarrow> 's"
    and inv :: "'s \<Rightarrow> bool"
  assumes step_inv: "inv s \<Longrightarrow> inv (step e s)"
begin

lemma run_inv: "inv s \<Longrightarrow> inv (fold step es s)"
  by (induction es arbitrary: s) (auto intro: step_inv)

end

end
