(* ===== verification/GoText.thy ===== *)
theory GoText
  imports GoPrelude
begin

text \<open>
  What the program uses of Go's standard library on texts: UTF-8 decoding (packages utf8 and the
  range loop over a string), UTF-16 lengths, strings.TrimSpace and strings.EqualFold against an
  ASCII text, decimal integers (strconv), and the base64 and hex encodings. The decoders are
  written on bytes with the same acceptance rules as Go's; the codecs are interpreted as
  instances of the locale \<open>codec\<close>.
\<close>

section \<open>UTF-8\<close>

definition byte :: "char \<Rightarrow> nat" where
  "byte c = of_char c"

definition cont_in :: "nat \<Rightarrow> nat \<Rightarrow> char \<Rightarrow> bool" where
  "cont_in lo hi c \<longleftrightarrow> lo \<le> byte c \<and> byte c \<le> hi"

abbreviation runeError :: nat where
  "runeError \<equiv> 0xFFFD"

text \<open>The rune at the start of a non-empty text and its width; an invalid byte is the replacement
  character with width one.\<close>

definition decode2 :: "nat \<Rightarrow> string \<Rightarrow> nat \<times> nat" where
  "decode2 b0 s = (case s of
      b1 # _ \<Rightarrow> if cont_in 0x80 0xBF b1
                then ((b0 - 0xC0) * 64 + (byte b1 - 0x80), 2) else (runeError, 1)
    | [] \<Rightarrow> (runeError, 1))"

definition decode3 :: "nat \<Rightarrow> nat \<Rightarrow> nat \<Rightarrow> string \<Rightarrow> nat \<times> nat" where
  "decode3 lo hi b0 s = (case s of
      b1 # b2 # _ \<Rightarrow> if cont_in lo hi b1 \<and> cont_in 0x80 0xBF b2
                then ((b0 - 0xE0) * 4096 + (byte b1 - 0x80) * 64 + (byte b2 - 0x80), 3)
                else (runeError, 1)
    | _ \<Rightarrow> (runeError, 1))"

definition decode4 :: "nat \<Rightarrow> nat \<Rightarrow> nat \<Rightarrow> string \<Rightarrow> nat \<times> nat" where
  "decode4 lo hi b0 s = (case s of
      b1 # b2 # b3 # _ \<Rightarrow>
                if cont_in lo hi b1 \<and> cont_in 0x80 0xBF b2 \<and> cont_in 0x80 0xBF b3
                then ((b0 - 0xF0) * 262144 + (byte b1 - 0x80) * 4096
                      + (byte b2 - 0x80) * 64 + (byte b3 - 0x80), 4)
                else (runeError, 1)
    | _ \<Rightarrow> (runeError, 1))"

definition decode_rune :: "char \<Rightarrow> string \<Rightarrow> nat \<times> nat" where
  "decode_rune c s =
    (let b0 = byte c in
     if b0 < 0x80 then (b0, 1)
     else if b0 < 0xC2 then (runeError, 1)
     else if b0 < 0xE0 then decode2 b0 s
     else if b0 = 0xE0 then decode3 0xA0 0xBF b0 s
     else if b0 = 0xED then decode3 0x80 0x9F b0 s
     else if b0 < 0xF0 then decode3 0x80 0xBF b0 s
     else if b0 = 0xF0 then decode4 0x90 0xBF b0 s
     else if b0 = 0xF4 then decode4 0x80 0x8F b0 s
     else if b0 < 0xF4 then decode4 0x80 0xBF b0 s
     else (runeError, 1))"

text \<open>A text cut into its runes, each with its bytes.\<close>

fun segments :: "string \<Rightarrow> (nat \<times> string) list" where
  "segments [] = []"
| "segments (c # s) = (let (r, w) = decode_rune c s in
     (r, c # take (w - 1) s) # segments (drop (w - 1) s))"

definition runes :: "string \<Rightarrow> nat list" where
  "runes s = map fst (segments s)"

definition ValidString :: "string \<Rightarrow> bool" where
  "ValidString s \<longleftrightarrow> list_all (\<lambda>(r, bs). \<not> (r = runeError \<and> length bs = 1)) (segments s)"

definition RuneCountInString :: "string \<Rightarrow> nat" where
  "RuneCountInString s = length (segments s)"

section \<open>UTF-16\<close>

definition utf16_RuneLen :: "nat \<Rightarrow> int" where
  "utf16_RuneLen r =
    (if r < 0xD800 \<or> (0xE000 \<le> r \<and> r < 0x10000) then 1
     else if 0x10000 \<le> r \<and> r \<le> 0x10FFFF then 2 else -1)"

text \<open>The length of \<open>utf16.Encode\<close>'s result: a rune without an encoding becomes one replacement
  unit.\<close>

definition utf16_EncodeLen :: "nat list \<Rightarrow> nat" where
  "utf16_EncodeLen rs = sum_list (map (\<lambda>r. if utf16_RuneLen r = 2 then 2 else 1) rs)"

section \<open>White space\<close>

definition IsSpace :: "nat \<Rightarrow> bool" where
  "IsSpace r \<longleftrightarrow> (9 \<le> r \<and> r \<le> 13) \<or> r = 32 \<or> r = 0x85 \<or> r = 0xA0 \<or> r = 0x1680
     \<or> (0x2000 \<le> r \<and> r \<le> 0x200A) \<or> r = 0x2028 \<or> r = 0x2029 \<or> r = 0x202F \<or> r = 0x205F
     \<or> r = 0x3000"

definition TrimSpace :: "string \<Rightarrow> string" where
  "TrimSpace s = concat (map snd
     (rev (dropWhile (IsSpace \<circ> fst) (rev (dropWhile (IsSpace \<circ> fst) (segments s))))))"

section \<open>Case folding against ASCII\<close>

text \<open>
  \<open>strings.EqualFold\<close> with an ASCII second argument: the simple-folding orbit of an ASCII letter is
  its two cases, and for k and s also the Kelvin sign and the long s.
\<close>

definition ascii_lower :: "nat \<Rightarrow> nat" where
  "ascii_lower r = (if 65 \<le> r \<and> r \<le> 90 then r + 32 else r)"

definition fold_ascii :: "nat \<Rightarrow> nat" where
  "fold_ascii r = (if r = 0x212A then 107 else if r = 0x17F then 115 else ascii_lower r)"

definition EqualFoldASCII :: "string \<Rightarrow> string \<Rightarrow> bool" where
  "EqualFoldASCII s t \<longleftrightarrow> map fold_ascii (runes s) = map (ascii_lower \<circ> byte) t"

section \<open>Substrings\<close>

definition HasPrefix :: "string \<Rightarrow> string \<Rightarrow> bool" where
  "HasPrefix s p \<longleftrightarrow> take (length p) s = p"

definition TrimPrefix :: "string \<Rightarrow> string \<Rightarrow> string" where
  "TrimPrefix s p = (if HasPrefix s p then drop (length p) s else s)"

definition TrimRightChar :: "char \<Rightarrow> string \<Rightarrow> string" where
  "TrimRightChar c s = rev (dropWhile (\<lambda>x. x = c) (rev s))"

text \<open>The index of the last occurrence of a byte.\<close>

fun LastIndexByte :: "string \<Rightarrow> char \<Rightarrow> nat option" where
  "LastIndexByte [] c = None"
| "LastIndexByte (x # xs) c = (case LastIndexByte xs c of
     Some i \<Rightarrow> Some (Suc i)
   | None \<Rightarrow> if x = c then Some 0 else None)"

fun SplitByte :: "char \<Rightarrow> string \<Rightarrow> string list" where
  "SplitByte c [] = [[]]"
| "SplitByte c (x # xs) =
     (if x = c then [] # SplitByte c xs
      else case SplitByte c xs of [] \<Rightarrow> [[x]] | y # ys \<Rightarrow> (x # y) # ys)"

text \<open>
  \<open>strings.ToLower\<close> as far as its result can be ASCII: besides the ASCII capitals, only the dotted
  capital I and the Kelvin sign have an ASCII lower case. Every other rune keeps its bytes here;
  Go may change them, to bytes that are not ASCII either.
\<close>

definition ToLower :: "string \<Rightarrow> string" where
  "ToLower s = concat (map (\<lambda>(r, bs).
     if r = 0x130 then ''i'' else if r = 0x212A then ''k''
     else if r < 0x80 then [char_of (ascii_lower r)] else bs) (segments s))"

section \<open>Decimal integers\<close>

definition digit_val :: "char \<Rightarrow> nat option" where
  "digit_val c = (if 48 \<le> byte c \<and> byte c \<le> 57 then Some (byte c - 48) else None)"

fun digits_val :: "nat \<Rightarrow> string \<Rightarrow> nat option" where
  "digits_val acc [] = Some acc"
| "digits_val acc (c # cs) = (case digit_val c of
     None \<Rightarrow> None | Some d \<Rightarrow> digits_val (acc * 10 + d) cs)"

definition ParseUint :: "nat \<Rightarrow> string \<Rightarrow> nat option" where
  "ParseUint bits s = (if s = [] then None else case digits_val 0 s of
     None \<Rightarrow> None | Some n \<Rightarrow> if n < 2 ^ bits then Some n else None)"

text \<open>\<open>strconv.ParseInt\<close> in base 10 with 64 bits.\<close>

definition ParseInt64 :: "string \<Rightarrow> int option" where
  "ParseInt64 s =
    (let neg = (case s of c # _ \<Rightarrow> c = CHR ''-'' | [] \<Rightarrow> False);
         body = (case s of c # r \<Rightarrow> if c = CHR ''+'' \<or> c = CHR ''-'' then r else s | [] \<Rightarrow> [])
     in case ParseUint 64 body of
          None \<Rightarrow> None
        | Some n \<Rightarrow> if \<not> neg \<and> n \<ge> 2 ^ 63 then None
                    else if neg \<and> n > 2 ^ 63 then None
                    else Some (if neg then - int n else int n))"

fun FormatNat :: "nat \<Rightarrow> string" where
  "FormatNat n = (if n < 10 then [char_of (48 + n)]
                  else FormatNat (n div 10) @ [char_of (48 + n mod 10)])"

declare FormatNat.simps [simp del]

definition FormatInt :: "int \<Rightarrow> string" where
  "FormatInt i = (if i < 0 then CHR ''-'' # FormatNat (nat (- i)) else FormatNat (nat i))"

section \<open>Base64 and hex\<close>

definition b64_std :: string where
  "b64_std = ''ABCDEFGHIJKLMNOPQRSTUVWXYZabcdefghijklmnopqrstuvwxyz0123456789+/''"

definition b64_url :: string where
  "b64_url = ''ABCDEFGHIJKLMNOPQRSTUVWXYZabcdefghijklmnopqrstuvwxyz0123456789-_''"

definition b64_val :: "string \<Rightarrow> char \<Rightarrow> nat option" where
  "b64_val alphabet c = map_of (zip alphabet [0..<64]) c"

definition quantum3 :: "nat \<Rightarrow> nat \<Rightarrow> nat \<Rightarrow> nat \<Rightarrow> bytes" where
  "quantum3 a b c d = [char_of (a * 4 + b div 16),
     char_of ((b mod 16) * 16 + c div 4), char_of ((c mod 4) * 64 + d)]"

fun b64_encode :: "string \<Rightarrow> bool \<Rightarrow> bytes \<Rightarrow> string" where
  "b64_encode al pad [] = []"
| "b64_encode al pad [x] =
     [al ! (byte x div 4), al ! ((byte x mod 4) * 16)] @ (if pad then ''=='' else [])"
| "b64_encode al pad [x, y] =
     [al ! (byte x div 4), al ! ((byte x mod 4) * 16 + byte y div 16), al ! ((byte y mod 16) * 4)]
     @ (if pad then ''='' else [])"
| "b64_encode al pad (x # y # z # rest) =
     [al ! (byte x div 4), al ! ((byte x mod 4) * 16 + byte y div 16),
      al ! ((byte y mod 16) * 4 + byte z div 64), al ! (byte z mod 64)] @ b64_encode al pad rest"

definition b64_last2 :: "string \<Rightarrow> char \<Rightarrow> char \<Rightarrow> bytes option" where
  "b64_last2 al a b = (case (b64_val al a, b64_val al b) of
     (Some x, Some y) \<Rightarrow> Some (take 1 (quantum3 x y 0 0)) | _ \<Rightarrow> None)"

definition b64_last3 :: "string \<Rightarrow> char \<Rightarrow> char \<Rightarrow> char \<Rightarrow> bytes option" where
  "b64_last3 al a b c = (case (b64_val al a, b64_val al b, b64_val al c) of
     (Some x, Some y, Some z) \<Rightarrow> Some (take 2 (quantum3 x y z 0)) | _ \<Rightarrow> None)"

text \<open>
  Decoding after line breaks are dropped (Go skips CR and LF anywhere). With padding the last
  quantum is complete or padded; without padding it may have two or three characters. Go's
  decoders are not strict: unused trailing bits are ignored.
\<close>

fun b64_quanta :: "string \<Rightarrow> bool \<Rightarrow> string \<Rightarrow> bytes option" where
  "b64_quanta al pad [] = Some []"
| "b64_quanta al pad [a] = None"
| "b64_quanta al pad [a, b] = (if pad then None else b64_last2 al a b)"
| "b64_quanta al pad [a, b, c] = (if pad then None else b64_last3 al a b c)"
| "b64_quanta al pad (a # b # c # d # rest) =
     (if pad \<and> rest = [] \<and> c = CHR ''='' \<and> d = CHR ''='' then b64_last2 al a b
      else if pad \<and> rest = [] \<and> d = CHR ''='' then b64_last3 al a b c
      else case (b64_val al a, b64_val al b, b64_val al c, b64_val al d) of
        (Some x, Some y, Some z, Some w) \<Rightarrow>
           (case b64_quanta al pad rest of
              None \<Rightarrow> None | Some bs \<Rightarrow> Some (quantum3 x y z w @ bs))
      | _ \<Rightarrow> None)"

definition b64_decode :: "string \<Rightarrow> bool \<Rightarrow> string \<Rightarrow> bytes option" where
  "b64_decode al pad s = b64_quanta al pad (filter (\<lambda>c. byte c \<noteq> 10 \<and> byte c \<noteq> 13) s)"

definition StdEncode :: "bytes \<Rightarrow> string" where
  "StdEncode = b64_encode b64_std True"

definition StdDecode :: "string \<Rightarrow> bytes option" where
  "StdDecode = b64_decode b64_std True"

definition RawURLEncode :: "bytes \<Rightarrow> string" where
  "RawURLEncode = b64_encode b64_url False"

definition RawURLDecode :: "string \<Rightarrow> bytes option" where
  "RawURLDecode = b64_decode b64_url False"

definition hex_val :: "char \<Rightarrow> nat option" where
  "hex_val c = (let b = byte c in
     if 48 \<le> b \<and> b \<le> 57 then Some (b - 48)
     else if 97 \<le> b \<and> b \<le> 102 then Some (b - 87)
     else if 65 \<le> b \<and> b \<le> 70 then Some (b - 55) else None)"

fun HexDecode :: "string \<Rightarrow> bytes option" where
  "HexDecode [] = Some []"
| "HexDecode [a] = None"
| "HexDecode (a # b # rest) = (case (hex_val a, hex_val b, HexDecode rest) of
     (Some x, Some y, Some bs) \<Rightarrow> Some (char_of (x * 16 + y) # bs) | _ \<Rightarrow> None)"


section \<open>Facts on UTF-8 decoding\<close>

lemma byte_bound [simp]: "byte c < 256"
  by (simp add: byte_def of_char_def horner_sum_of_bool_2_less)

lemma byte_char_of [simp]: "n < 256 \<Longrightarrow> byte (char_of n) = n"
  by (simp add: byte_def)

lemma char_of_byte [simp]: "char_of (byte c) = c"
  by (simp add: byte_def)

lemma byte_inject [simp]: "byte c = byte d \<longleftrightarrow> c = d"
  by (metis char_of_byte)

lemmas decode_defs = decode_rune_def decode2_def decode3_def decode4_def Let_def

lemma decode_rune_ascii [simp]: "byte c < 0x80 \<Longrightarrow> decode_rune c s = (byte c, 1)"
  by (simp add: decode_rune_def)

lemma decode_rune_width:
  "decode_rune c s = (r, w) \<Longrightarrow> 1 \<le> w \<and> w \<le> 4 \<and> w - 1 \<le> length s"
  by (auto simp: decode_defs split: if_splits list.splits)

text \<open>Every decoded rune is a Unicode scalar value.\<close>

lemma decode2_range:
  "decode2 b0 s = (r, w) \<Longrightarrow> 0xC2 \<le> b0 \<Longrightarrow> b0 < 0xE0 \<Longrightarrow> r < 0x800 \<or> r = runeError"
  by (auto simp: decode2_def cont_in_def split: if_splits list.splits)

lemma decode3_range:
  assumes "decode3 lo hi b0 s = (r, w)" "0xE0 \<le> b0" "b0 < 0xF0" "0x80 \<le> lo" "hi \<le> 0xBF"
    "b0 = 0xED \<longrightarrow> hi \<le> 0x9F"
  shows "r < 0xD800 \<or> (0xE000 \<le> r \<and> r < 0x10000)"
proof -
  consider "b0 < 0xED" | "b0 = 0xED" | "0xED < b0" by linarith
  then show ?thesis
    by cases (use assms in \<open>auto simp: decode3_def cont_in_def split: if_splits list.splits\<close>)
qed

lemma decode4_range:
  assumes "decode4 lo hi b0 s = (r, w)" "0xF0 \<le> b0" "b0 \<le> 0xF4" "0x80 \<le> lo" "hi \<le> 0xBF"
    "b0 = 0xF0 \<longrightarrow> 0x90 \<le> lo" "b0 = 0xF4 \<longrightarrow> hi \<le> 0x8F"
  shows "r = runeError \<or> (0x10000 \<le> r \<and> r \<le> 0x10FFFF)"
proof -
  consider "b0 = 0xF0" | "b0 = 0xF1" | "b0 = 0xF2" | "b0 = 0xF3" | "b0 = 0xF4"
    using assms(2,3) by linarith
  then show ?thesis
    by cases (use assms in \<open>auto simp: decode4_def cont_in_def split: if_splits list.splits\<close>)
qed

definition scalar :: "nat \<Rightarrow> bool" where
  "scalar r \<longleftrightarrow> r < 0xD800 \<or> (0xE000 \<le> r \<and> r \<le> 0x10FFFF)"

lemma decode_rune_scalar:
  assumes "decode_rune c s = (r, w)"
  shows "scalar r"
proof -
  let ?b = "byte c"
  consider "?b < 0xC2" | "0xC2 \<le> ?b" "?b < 0xE0" | "0xE0 \<le> ?b" "?b < 0xF0"
    | "0xF0 \<le> ?b" "?b \<le> 0xF4" | "0xF4 < ?b"
    by linarith
  then show ?thesis
  proof cases
    case 1
    then show ?thesis using assms by (auto simp: decode_rune_def scalar_def Let_def split: if_splits)
  next
    case 2
    then have "decode2 ?b s = (r, w)" using assms by (simp add: decode_rune_def)
    then show ?thesis using decode2_range [OF _ 2] by (fastforce simp: scalar_def)
  next
    case 3
    then have "\<exists>lo hi. decode3 lo hi ?b s = (r, w) \<and> 0x80 \<le> lo \<and> hi \<le> 0xBF \<and> (?b = 0xED \<longrightarrow> hi \<le> 0x9F)"
      using assms by (fastforce simp: decode_rune_def Let_def split: if_splits)
    then show ?thesis using decode3_range [OF _ 3] by (fastforce simp: scalar_def)
  next
    case 4
    then have "\<exists>lo hi. decode4 lo hi ?b s = (r, w) \<and> 0x80 \<le> lo \<and> hi \<le> 0xBF
        \<and> (?b = 0xF0 \<longrightarrow> 0x90 \<le> lo) \<and> (?b = 0xF4 \<longrightarrow> hi \<le> 0x8F)"
      using assms by (fastforce simp: decode_rune_def Let_def split: if_splits)
    then show ?thesis using decode4_range [OF _ 4] by (fastforce simp: scalar_def)
  next
    case 5
    then show ?thesis using assms by (auto simp: decode_rune_def scalar_def Let_def split: if_splits)
  qed
qed

lemma segments_scalar: "(r, bs) \<in> set (segments s) \<Longrightarrow> scalar r"
proof (induction s rule: segments.induct)
  case (2 c s)
  then show ?case
    by (cases "decode_rune c s") (auto intro: decode_rune_scalar)
qed simp

lemma utf16_RuneLen_scalar: "scalar r \<Longrightarrow> utf16_RuneLen r = (if r < 0x10000 then 1 else 2)"
  by (auto simp: utf16_RuneLen_def scalar_def)

lemma segments_nonempty: "(r, bs) \<in> set (segments s) \<Longrightarrow> bs \<noteq> []"
  by (induction s rule: segments.induct) (auto split: prod.splits)

lemma segments_Nil_iff [simp]: "segments s = [] \<longleftrightarrow> s = []"
  by (cases s) (auto split: prod.splits)

lemma concat_segments [simp]: "concat (map snd (segments s)) = s"
proof (induction s rule: segments.induct)
  case (2 c s)
  obtain r w where rw: "decode_rune c s = (r, w)" by fastforce
  have "concat (map snd (segments (drop (w - 1) s))) = drop (w - 1) s"
    using 2 [OF refl, of r w] rw by simp
  then show ?case using rw by simp
qed simp

lemma segments_ascii [simp]: "byte c < 0x80 \<Longrightarrow> segments (c # s) = (byte c, [c]) # segments s"
  by simp

lemma segments_all_ascii:
  "\<forall>c\<in>set s. byte c < 0x80 \<Longrightarrow> segments s = map (\<lambda>c. (byte c, [c])) s"
  by (induction s) (auto simp del: segments.simps(2))

lemma runes_Nil [simp]: "runes [] = []"
  by (simp add: runes_def)

lemma runes_ascii [simp]: "byte c < 0x80 \<Longrightarrow> runes (c # s) = byte c # runes s"
  by (simp add: runes_def del: segments.simps(2))

lemma runes_all_ascii: "\<forall>c\<in>set s. byte c < 0x80 \<Longrightarrow> runes s = map byte s"
  by (simp add: runes_def segments_all_ascii)

text \<open>A byte that is no continuation byte starts a rune, whatever is before it.\<close>

definition RuneStart :: "char \<Rightarrow> bool" where
  "RuneStart c \<longleftrightarrow> byte c < 0x80 \<or> 0xC0 \<le> byte c"

lemma cont_not_RuneStart: "cont_in lo hi c \<Longrightarrow> 0x80 \<le> lo \<Longrightarrow> hi \<le> 0xBF \<Longrightarrow> \<not> RuneStart c"
  by (auto simp: cont_in_def RuneStart_def)

lemma decode_rune_append:
  assumes "b = [] \<or> RuneStart (hd b)"
  shows "decode_rune c (a @ b) = decode_rune c a"
proof -
  have nc: "\<not> cont_in lo hi x" if "b = x # y" "0x80 \<le> lo" "hi \<le> 0xBF" for lo hi x y
    using assms that cont_not_RuneStart by auto
  have d2: "decode2 b0 (a @ b) = decode2 b0 a" for b0
    using nc by (cases a) (auto simp: decode2_def split: list.splits)
  have d3: "decode3 lo hi b0 (a @ b) = decode3 lo hi b0 a" if "0x80 \<le> lo" "hi \<le> 0xBF" for lo hi b0
    using nc that
    by (cases a; cases "tl a") (auto simp: decode3_def split: list.splits)
  have d4: "decode4 lo hi b0 (a @ b) = decode4 lo hi b0 a" if "0x80 \<le> lo" "hi \<le> 0xBF" for lo hi b0
    using nc that
    by (cases a; cases "tl a"; cases "tl (tl a)") (auto simp: decode4_def split: list.splits)
  show ?thesis by (simp add: decode_rune_def Let_def d2 d3 d4)
qed

lemma segments_append:
  assumes "b = [] \<or> RuneStart (hd b)"
  shows "segments (a @ b) = segments a @ segments b"
proof (induction a rule: segments.induct)
  case (2 c s)
  obtain r w where rw: "decode_rune c s = (r, w)" by fastforce
  then have rw': "decode_rune c (s @ b) = (r, w)" using decode_rune_append [OF assms] by simp
  have w: "w - 1 \<le> length s" using decode_rune_width [OF rw] by simp
  have "segments (drop (w - 1) s @ b) = segments (drop (w - 1) s) @ segments b"
    using 2 [OF refl, of r w] rw by simp
  then show ?case using rw rw' w by simp
qed simp

lemma runes_append: "b = [] \<or> RuneStart (hd b) \<Longrightarrow> runes (a @ b) = runes a @ runes b"
  by (simp add: runes_def segments_append)

lemma ascii_RuneStart [simp]: "byte c < 0x80 \<Longrightarrow> RuneStart c"
  by (simp add: RuneStart_def)

section \<open>Facts on trimming\<close>

lemma segments_drop: "segments (concat (map snd (drop n (segments s)))) = drop n (segments s)"
proof (induction s arbitrary: n rule: segments.induct)
  case (2 c s)
  obtain r w where rw: "decode_rune c s = (r, w)" by fastforce
  show ?case
  proof (cases n)
    case 0
    then show ?thesis by (simp del: segments.simps(2))
  next
    case (Suc m)
    then show ?thesis using 2 [OF refl, of r w m] rw by simp
  qed
qed simp

lemma decode_rune_take:
  assumes "decode_rune c s = (r, w)"
  shows "decode_rune c (take (w - 1) s @ take k (drop (w - 1) s)) = (r, w)"
proof -
  let ?s = "take (w - 1) s @ take k (drop (w - 1) s)"
  have eq: "?s = take (w - 1 + k) s" by (simp add: take_add)
  have "decode_rune c (take (w - 1 + k) s) = (r, w)"
    using assms
    by (cases s; cases "tl s"; cases "tl (tl s)"; cases k; cases "k - 1"; cases "k - 2")
      (auto simp: decode_defs numeral_2_eq_2 numeral_3_eq_3 split: if_splits list.splits nat.splits)
  then show ?thesis using eq by simp
qed

lemma all_dropWhile: "(\<forall>x\<in>set (dropWhile P xs). P x) \<longleftrightarrow> (\<forall>x\<in>set xs. P x)"
  by (induction xs) auto

lemma concat_snd_Nil: "\<forall>x\<in>set e. snd x \<noteq> [] \<Longrightarrow> concat (map snd (rev e)) = [] \<longleftrightarrow> e = []"
  by (cases e rule: rev_cases) auto

lemma TrimSpace_blank_iff: "TrimSpace s = [] \<longleftrightarrow> (\<forall>r\<in>set (runes s). IsSpace r)"
proof -
  let ?d = "dropWhile (IsSpace \<circ> fst) (segments s)"
  let ?e = "dropWhile (IsSpace \<circ> fst) (rev ?d)"
  have "snd x \<noteq> []" if "x \<in> set ?e" for x
    using that by (metis prod.collapse segments_nonempty set_dropWhileD set_rev)
  then have "concat (map snd (rev ?e)) = [] \<longleftrightarrow> ?e = []"
    by (intro concat_snd_Nil) blast
  then have "TrimSpace s = [] \<longleftrightarrow> ?e = []" by (simp add: TrimSpace_def)
  also have "\<dots> \<longleftrightarrow> (\<forall>x\<in>set ?d. (IsSpace \<circ> fst) x)"
    by (simp add: dropWhile_eq_Nil_conv)
  also have "\<dots> \<longleftrightarrow> (\<forall>x\<in>set (segments s). (IsSpace \<circ> fst) x)"
    by (rule all_dropWhile)
  finally show ?thesis by (auto simp: runes_def)
qed

lemma TrimSpace_Nil [simp]: "TrimSpace [] = []"
  by (simp add: TrimSpace_def)

lemma TrimSpace_fixed:
  assumes "s = [] \<or> \<not> IsSpace (fst (hd (segments s))) \<and> \<not> IsSpace (fst (last (segments s)))"
  shows "TrimSpace s = s"
proof (cases "s = []")
  case False
  then have ne: "segments s \<noteq> []" by simp
  with assms False obtain x xs where seg: "segments s = x # xs" and "\<not> IsSpace (fst x)"
    by (metis list.collapse)
  then have "dropWhile (IsSpace \<circ> fst) (segments s) = segments s" by simp
  moreover have "dropWhile (IsSpace \<circ> fst) (rev (segments s)) = rev (segments s)"
    using assms False ne by (cases "rev (segments s)") (auto simp: hd_rev [symmetric])
  ultimately show ?thesis by (simp add: TrimSpace_def)
qed simp

text \<open>An ASCII text that neither starts nor ends with white space is left alone.\<close>

lemma TrimSpace_ascii:
  assumes "\<forall>c\<in>set s. byte c < 0x80" "s \<noteq> []" "\<not> IsSpace (byte (hd s))" "\<not> IsSpace (byte (last s))"
  shows "TrimSpace s = s"
  using assms by (intro TrimSpace_fixed) (simp add: segments_all_ascii hd_map last_map)

section \<open>Facts on decimal integers\<close>

lemma digit_val_char [simp]: "d < 10 \<Longrightarrow> digit_val (char_of (48 + d)) = Some d"
  by (simp add: digit_val_def)

lemma digits_val_append:
  "digits_val acc (xs @ ys) = (case digits_val acc xs of None \<Rightarrow> None | Some a \<Rightarrow> digits_val a ys)"
  by (induction xs arbitrary: acc) (auto split: option.splits)

lemma digits_val_Format: "digits_val 0 (FormatNat n) = Some n"
proof (induction n rule: FormatNat.induct)
  case (1 n)
  show ?case
  proof (cases "n < 10")
    case True
    then show ?thesis by (subst FormatNat.simps) simp
  next
    case False
    have "48 + n mod 10 < 256" by (simp add: order.strict_trans [of _ "58 :: nat"])
    then show ?thesis using 1 False by (subst FormatNat.simps) (simp add: digits_val_append)
  qed
qed

lemma FormatNat_ne [simp]: "FormatNat n \<noteq> []"
  by (subst FormatNat.simps) simp

lemma ParseUint_Format: "n < 2 ^ b \<Longrightarrow> ParseUint b (FormatNat n) = Some n"
  by (simp add: ParseUint_def digits_val_Format)

lemma FormatNat_digits: "c \<in> set (FormatNat n) \<Longrightarrow> 48 \<le> byte c \<and> byte c \<le> 57"
proof (induction n rule: FormatNat.induct)
  case (1 n)
  show ?case
  proof (cases "n < 10")
    case True
    with 1(2) show ?thesis by (subst (asm) FormatNat.simps) auto
  next
    case False
    have "n mod 10 < 10" by simp
    then have "byte (char_of (48 + n mod 10)) = 48 + n mod 10" by (intro byte_char_of) simp
    with 1 False show ?thesis by (subst (asm) FormatNat.simps) auto
  qed
qed

lemma ParseUint_bound: "ParseUint b s = Some n \<Longrightarrow> n < 2 ^ b"
  by (auto simp: ParseUint_def split: if_splits option.splits)

interpretation dec64: codec FormatNat "ParseUint 64" "\<lambda>n. n < 2 ^ 64"
  by unfold_locales (erule ParseUint_Format, erule ParseUint_bound)

lemma ParseInt64_Format:
  assumes "0 \<le> i" "i < 2 ^ 63"
  shows "ParseInt64 (FormatInt i) = Some i"
proof -
  obtain c r where fr: "FormatNat (nat i) = c # r"
    using FormatNat_ne list.exhaust by metis
  then have "48 \<le> byte c" using FormatNat_digits [of c "nat i"] by simp
  then have c: "c \<noteq> CHR ''+''" "c \<noteq> CHR ''-''" by (auto simp: byte_def)
  have "nat i < 2 ^ 63" using assms by (simp add: nat_less_iff)
  then have "nat i < 2 ^ 64" by simp
  then have "ParseUint 64 (c # r) = Some (nat i)" using ParseUint_Format fr by metis
  then show ?thesis using assms fr c \<open>nat i < 2 ^ 63\<close> by (simp add: ParseInt64_def FormatInt_def)
qed

section \<open>Facts on base64\<close>

lemma b64_val_nth:
  "distinct al \<Longrightarrow> length al = 64 \<Longrightarrow> i < 64 \<Longrightarrow> b64_val al (al ! i) = Some i"
  by (auto simp: b64_val_def map_of_zip_nth)

lemma b64_std_props [simp]: "distinct b64_std" "length b64_std = 64"
  by code_simp+

lemma b64_url_props [simp]: "distinct b64_url" "length b64_url = 64"
  by code_simp+

definition b64_alphabet :: "string \<Rightarrow> bool" where
  "b64_alphabet al \<longleftrightarrow> distinct al \<and> length al = 64
     \<and> (\<forall>c\<in>set al. c \<noteq> CHR ''='' \<and> byte c \<noteq> 10 \<and> byte c \<noteq> 13)"

lemma b64_alphabets: "b64_alphabet b64_std" "b64_alphabet b64_url"
  unfolding b64_alphabet_def by code_simp+

lemma alphabet_nth:
  assumes "b64_alphabet al" "i < 64"
  shows "b64_val al (al ! i) = Some i" "al ! i \<noteq> CHR ''=''" "byte (al ! i) \<noteq> 10" "byte (al ! i) \<noteq> 13"
  using assms b64_val_nth nth_mem unfolding b64_alphabet_def by metis+

lemma byte_div [simp]: "byte x div 4 < 64" "byte x div 16 < 16" "byte x div 64 < 4"
  using byte_bound [of x] by (simp_all add: less_mult_imp_div_less)

lemma byte_parts [simp]:
  "(byte x mod 4) * 16 + byte y div 16 < 64" "(byte x mod 4) * 16 < 64"
  "(byte y mod 16) * 4 + byte z div 64 < 64" "(byte y mod 16) * 4 < 64" "byte z mod 64 < 64"
proof -
  have m: "byte x mod 4 < 4" "byte y mod 16 < 16" "byte z mod 64 < 64" by simp_all
  show "(byte x mod 4) * 16 + byte y div 16 < 64" using m byte_div(2) [of y] by linarith
  show "(byte x mod 4) * 16 < 64" using m by linarith
  show "(byte y mod 16) * 4 + byte z div 64 < 64" using m byte_div(3) [of z] by linarith
  show "(byte y mod 16) * 4 < 64" using m by linarith
  show "byte z mod 64 < 64" using m by linarith
qed

lemma quantum3_bytes:
  "quantum3 (byte x div 4) ((byte x mod 4) * 16 + byte y div 16)
     ((byte y mod 16) * 4 + byte z div 64) (byte z mod 64) = [x, y, z]"
proof -
  have x: "byte x div 4 * 4 + ((byte x mod 4) * 16 + byte y div 16) div 16 = byte x"
    by (simp add: div_mult_mod_eq)
  have "((byte x mod 4) * 16 + byte y div 16) mod 16 = byte y div 16"
    "((byte y mod 16) * 4 + byte z div 64) div 4 = byte y mod 16"
    "((byte y mod 16) * 4 + byte z div 64) mod 4 = byte z div 64"
    by simp_all
  then have y: "((byte x mod 4) * 16 + byte y div 16) mod 16 * 16 +
      ((byte y mod 16) * 4 + byte z div 64) div 4 = byte y"
    and z: "((byte y mod 16) * 4 + byte z div 64) mod 4 * 64 + byte z mod 64 = byte z"
    by (simp_all only: div_mult_mod_eq)
  show ?thesis unfolding quantum3_def x y z by simp
qed

lemma byte_eq_sign: "byte (CHR ''='') = 61"
  by (simp add: byte_def)

lemma byte_zero: "byte (CHR 0x00) = 0"
  by (simp add: byte_def)

lemma quantum_last:
  "take 1 (quantum3 (byte x div 4) ((byte x mod 4) * 16) 0 0) = [x]"
  "take 2 (quantum3 (byte x div 4) ((byte x mod 4) * 16 + byte y div 16) ((byte y mod 16) * 4) 0)
     = [x, y]"
  using quantum3_bytes [of x "CHR 0x00" "CHR 0x00"] quantum3_bytes [of x y "CHR 0x00"]
  by (simp_all add: quantum3_def byte_zero)

lemma b64_quanta_encode: "b64_alphabet al \<Longrightarrow> b64_quanta al pad (b64_encode al pad bs) = Some bs"
proof (induction al pad bs rule: b64_encode.induct)
  case (2 al pad x)
  then show ?case
    using quantum_last(1) [of x] by (simp add: alphabet_nth b64_last2_def)
next
  case (3 al pad x y)
  then show ?case
    using quantum_last(2) [of x y] by (simp add: alphabet_nth b64_last3_def)
next
  case (4 al pad x y z rest)
  then show ?case
    using quantum3_bytes [of x y z] by (simp add: alphabet_nth)
qed simp

lemma b64_encode_no_newline:
  "b64_alphabet al \<Longrightarrow> c \<in> set (b64_encode al pad bs) \<Longrightarrow> byte c \<noteq> 10 \<and> byte c \<noteq> 13"
proof (induction al pad bs rule: b64_encode.induct)
  case (4 al pad x y z rest)
  then show ?case by (auto simp: alphabet_nth)
qed (auto simp: alphabet_nth byte_eq_sign split: if_splits)

lemma b64_decode_encode: "b64_alphabet al \<Longrightarrow> b64_decode al pad (b64_encode al pad bs) = Some bs"
  by (simp add: b64_decode_def b64_quanta_encode b64_encode_no_newline cong: filter_cong)

interpretation std64: codec StdEncode StdDecode "\<lambda>_. True"
  by unfold_locales (simp_all add: StdEncode_def StdDecode_def b64_decode_encode b64_alphabets)

interpretation raw64: codec RawURLEncode RawURLDecode "\<lambda>_. True"
  by unfold_locales (simp_all add: RawURLEncode_def RawURLDecode_def b64_decode_encode b64_alphabets)

end
