(* ===== verification/SignalTypes.thy ===== *)
theory SignalTypes
  imports GoText
begin

text \<open>
  The data model of internal/signal: recipients, chats, envelopes, the closed sum of incoming
  events (events.go, poll.go, pin.go, stories.go, identity.go), outgoing content and the request
  of one send (types.go). Embedded structs are a field of their own. A pointer that may be nil
  and is read as such by the code is an option; pointers to events are never nil here. Package
  github.com/google/uuid is not part of the repository: its parser and printer are the parameter
  \<open>uuid_lib\<close> of every definition that uses them, a UUID being its sixteen bytes.
\<close>

section \<open>The UUID package (parameter)\<close>

type_synonym uuid = bytes

record uuid_lib =
  uuid_Parse :: "string \<Rightarrow> uuid option"
  uuid_String :: "uuid \<Rightarrow> string"

definition uuid_Nil :: uuid where
  "uuid_Nil = replicate 16 (char_of (0::nat))"

text \<open>
  What is documented of the package and relied on: printing gives 36 bytes of hexadecimal digits
  and dashes that parse back to the same UUID, a parsed UUID has sixteen bytes, and the empty
  text is no UUID.
\<close>

definition uuid_text :: "char \<Rightarrow> bool" where
  "uuid_text c \<longleftrightarrow> c = CHR ''-'' \<or> (48 \<le> byte c \<and> byte c \<le> 57) \<or> (97 \<le> byte c \<and> byte c \<le> 102)"

definition uuid_laws :: "uuid_lib \<Rightarrow> bool" where
  "uuid_laws U \<longleftrightarrow>
     (\<forall>u. length u = 16 \<longrightarrow> uuid_Parse U (uuid_String U u) = Some u
        \<and> length (uuid_String U u) = 36 \<and> list_all uuid_text (uuid_String U u))
   \<and> (\<forall>s u. uuid_Parse U s = Some u \<longrightarrow> length u = 16)
   \<and> uuid_Parse U [] = None"

section \<open>Recipients and chats (types.go)\<close>

record Recipient =
  rACI :: string
  rPNI :: string
  rNumber :: string
  rUsername :: string

definition noRecipient :: Recipient where
  "noRecipient = \<lparr>rACI = [], rPNI = [], rNumber = [], rUsername = []\<rparr>"

definition aciRecipient :: "string \<Rightarrow> Recipient" where
  "aciRecipient aci = noRecipient\<lparr>rACI := aci\<rparr>"

definition pniRecipient :: "string \<Rightarrow> Recipient" where
  "pniRecipient pni = noRecipient\<lparr>rPNI := pni\<rparr>"

definition Recipient_String :: "Recipient \<Rightarrow> string" where
  "Recipient_String r =
    (if rACI r \<noteq> [] then rACI r
     else if rPNI r \<noteq> [] then ''PNI:'' @ rPNI r
     else if rNumber r \<noteq> [] then rNumber r
     else if rUsername r \<noteq> [] then CHR ''@'' # rUsername r
     else [])"

definition Recipient_IsZero :: "Recipient \<Rightarrow> bool" where
  "Recipient_IsZero r \<longleftrightarrow> r = noRecipient"

record Chat =
  cGroupID :: string
  cRecipient :: Recipient

definition noChat :: Chat where
  "noChat = \<lparr>cGroupID = [], cRecipient = noRecipient\<rparr>"

definition Chat_IsGroup :: "Chat \<Rightarrow> bool" where
  "Chat_IsGroup c \<longleftrightarrow> cGroupID c \<noteq> []"

definition Chat_Key :: "Chat \<Rightarrow> string" where
  "Chat_Key c = (if Chat_IsGroup c then ''group:'' @ cGroupID c else Recipient_String (cRecipient c))"

section \<open>Message parts\<close>

record RemoteAttachment =
  raCDNNumber :: u32
  raCDNID :: u64
  raCDNKey :: string
  raKey :: bytes
  raDigest :: bytes

record Attachment =
  aContentType :: string
  aFilename :: string
  aSize :: u32
  aCaption :: string
  aRemote :: RemoteAttachment

record Mention =
  mStart :: u32
  mLength :: u32
  mRecipient :: Recipient

record Quote =
  qAuthor :: Recipient
  qTimestamp :: u64
  qText :: string
  qMentions :: "Mention list"

record Sticker =
  stPackID :: string
  stPackKey :: bytes
  stStickerID :: u32
  stEmoji :: string
  stImage :: "Attachment option"

record Poll =
  pQuestion :: string
  pOptions :: "string list"
  pAllowMultiple :: bool

record StoryGradient =
  sgStartColor :: "u32 option"
  sgEndColor :: "u32 option"
  sgAngle :: "u32 option"
  sgColors :: "u32 list"
  sgPositions :: "u32 list" \<comment> \<open>float32 bit patterns\<close>

record StoryPreview =
  spURL :: string
  spTitle :: string
  spDescription :: string
  spDate :: u64
  spImage :: "Attachment option"

record StoryText =
  sxText :: string
  sxStyle :: string
  sxForegroundColor :: "u32 option"
  sxTextBackgroundColor :: "u32 option"
  sxBackgroundColor :: "u32 option"
  sxGradient :: "StoryGradient option"
  sxPreview :: "StoryPreview option"

section \<open>Events (events.go)\<close>

record Envelope =
  eSender :: Recipient
  eChat :: Chat
  eTimestamp :: u64
  eServerTimestamp :: u64
  eSync :: bool

record Message =
  msgEnv :: Envelope
  msgBody :: string
  msgMentions :: "Mention list"
  msgAttachments :: "Attachment list"
  msgSticker :: "Sticker option"
  msgPoll :: "Poll option"
  msgQuote :: "Quote option"
  msgViewOnce :: bool
  msgUnsupported :: "string list"

record Story =
  storyEnv :: Envelope
  storyAllowsReplies :: bool
  storyFile :: "Attachment option"
  storyText :: "StoryText option"
  storyMentions :: "Mention list"

record OutgoingPollVote =
  vTargetAuthor :: Recipient
  vTargetTimestamp :: u64
  vOptionIndexes :: "u32 list"
  vVoteCount :: u32

record OutgoingPollClose =
  clTargetTimestamp :: u64

record PollVote =
  pvEnv :: Envelope
  pvVote :: OutgoingPollVote

record PollClose =
  pcEnv :: Envelope
  pcClose :: OutgoingPollClose

record OutgoingPin =
  pinTargetAuthor :: Recipient
  pinTargetTimestamp :: u64
  pinDurationSeconds :: u32
  pinForever :: bool

record OutgoingUnpin =
  unpinTargetAuthor :: Recipient
  unpinTargetTimestamp :: u64

record Pin =
  pinEnv :: Envelope
  pinPin :: OutgoingPin

record Unpin =
  unpinEnv :: Envelope
  unpinUnpin :: OutgoingUnpin

record Edit =
  editEnv :: Envelope
  editTargetTimestamp :: u64
  editBody :: string
  editMentions :: "Mention list"

record Delete =
  delEnv :: Envelope
  delTargetTimestamp :: u64

record Reaction =
  reEnv :: Envelope
  reEmoji :: string
  reRemove :: bool
  reTargetAuthor :: Recipient
  reTargetTimestamp :: u64

record Typing =
  tyEnv :: Envelope
  tyStarted :: bool

datatype ReceiptType = ReceiptDelivery | ReceiptRead | ReceiptViewed

record Receipt =
  rtSender :: Recipient
  rtType :: ReceiptType
  rtTimestamps :: "u64 list"

record ReadMark =
  rmSender :: Recipient
  rmTimestamp :: u64

record ReadSync =
  rsTimestamp :: u64
  rsMessages :: "ReadMark list"

record Unsupported =
  unEnv :: Envelope
  unType :: string

record DecryptionFailure =
  dfSender :: Recipient
  dfTimestamp :: u64
  dfErr :: "err option"

record IdentityChanged =
  icRecipient :: Recipient
  icOldFingerprint :: string
  icNewFingerprint :: string
  icTime :: time

datatype ConnectionState =
    StateConnected | StateDisconnected | StateLoggedOut | StateError | StateFailed

record Connection =
  connState :: ConnectionState
  connErr :: "err option"

datatype Event =
    EvMessage Message | EvStory Story | EvPollVote PollVote | EvPollClose PollClose
  | EvPin Pin | EvUnpin Unpin | EvEdit Edit | EvDelete Delete | EvReaction Reaction
  | EvTyping Typing | EvReceipt Receipt | EvReadSync ReadSync | EvUnsupported Unsupported
  | EvDecryptionFailure DecryptionFailure | EvIdentityChanged IdentityChanged
  | EvQueueEmpty | EvConnection Connection

definition ReceiptType_String :: "ReceiptType \<Rightarrow> string" where
  "ReceiptType_String t = (case t of
     ReceiptDelivery \<Rightarrow> ''delivery'' | ReceiptRead \<Rightarrow> ''read'' | ReceiptViewed \<Rightarrow> ''viewed'')"

definition ConnectionState_String :: "ConnectionState \<Rightarrow> string" where
  "ConnectionState_String s = (case s of
     StateConnected \<Rightarrow> ''connected'' | StateDisconnected \<Rightarrow> ''disconnected''
   | StateLoggedOut \<Rightarrow> ''logged-out'' | StateError \<Rightarrow> ''error'' | StateFailed \<Rightarrow> ''failed'')"

section \<open>Outgoing content (types.go, styles.go, sticker.go, stories\_send.go)\<close>

record TextStyle =
  tsStart :: u32
  tsLength :: u32
  tsStyle :: string

record OutgoingReaction =
  orEmoji :: string
  orRemove :: bool
  orTargetAuthor :: Recipient
  orTargetTimestamp :: u64

record OutgoingAttachment =
  oaData :: bytes
  oaContentType :: string
  oaFilename :: string
  oaWidth :: u32
  oaHeight :: u32

record UploadedAttachment =
  uaID :: string
  uaContentType :: string
  uaFilename :: string
  uaSize :: u32

record StickerReference =
  srPackID :: string
  srPackKey :: bytes
  srStickerID :: u32

record StickerData =
  sdEmoji :: string
  sdImage :: OutgoingAttachment

record OutgoingSticker =
  osReference :: StickerReference
  osEmoji :: string
  osImage :: UploadedAttachment

record OutgoingStory =
  oyDistributionListID :: string
  oyText :: string
  oyFile :: "UploadedAttachment option"
  oyAllowsReplies :: bool

record SendRequest =
  sqRecipients :: "Recipient list"
  sqGroupID :: string
  sqBody :: string
  sqTimestamp :: u64
  sqEditTarget :: u64
  sqAttachments :: "UploadedAttachment list"
  sqSticker :: "OutgoingSticker option"
  sqStory :: "OutgoingStory option"
  sqPollCreate :: "Poll option"
  sqPollVote :: "OutgoingPollVote option"
  sqPollClose :: "OutgoingPollClose option"
  sqPin :: "OutgoingPin option"
  sqUnpin :: "OutgoingUnpin option"
  sqQuote :: "Quote option"
  sqMentions :: "Mention list"
  sqStyles :: "TextStyle list"
  sqReaction :: "OutgoingReaction option"
  sqDeleteTarget :: u64

definition noSendRequest :: SendRequest where
  "noSendRequest = \<lparr>sqRecipients = [], sqGroupID = [], sqBody = [], sqTimestamp = 0,
     sqEditTarget = 0, sqAttachments = [], sqSticker = None, sqStory = None, sqPollCreate = None,
     sqPollVote = None, sqPollClose = None, sqPin = None, sqUnpin = None, sqQuote = None,
     sqMentions = [], sqStyles = [], sqReaction = None, sqDeleteTarget = 0\<rparr>"

record RecipientResult =
  rrRecipient :: Recipient
  rrUnidentified :: bool
  rrErr :: "err option"

record ClientSendResult =
  csTimestamp :: u64
  csResults :: "RecipientResult list"
  csSyncErr :: "err option"

section \<open>Facts\<close>

lemma noRecipient_simps [simp]:
  "rACI noRecipient = []" "rPNI noRecipient = []" "rNumber noRecipient = []"
  "rUsername noRecipient = []"
  by (simp_all add: noRecipient_def)

lemma aciRecipient_simps [simp]:
  "rACI (aciRecipient a) = a" "rPNI (aciRecipient a) = []" "rNumber (aciRecipient a) = []"
  "rUsername (aciRecipient a) = []"
  by (simp_all add: aciRecipient_def)

lemma Chat_Key_group: "cGroupID c \<noteq> [] \<Longrightarrow> Chat_Key c = ''group:'' @ cGroupID c"
  by (simp add: Chat_Key_def Chat_IsGroup_def)

lemma Chat_Key_direct: "cGroupID c = [] \<Longrightarrow> rACI (cRecipient c) \<noteq> [] \<Longrightarrow> Chat_Key c = rACI (cRecipient c)"
  by (simp add: Chat_Key_def Chat_IsGroup_def Recipient_String_def)

lemma uuid_laws_parse: "uuid_laws U \<Longrightarrow> length u = 16 \<Longrightarrow> uuid_Parse U (uuid_String U u) = Some u"
  by (simp add: uuid_laws_def)

lemma uuid_laws_length: "uuid_laws U \<Longrightarrow> uuid_Parse U s = Some u \<Longrightarrow> length u = 16"
  unfolding uuid_laws_def by blast

lemma uuid_laws_Nil: "uuid_laws U \<Longrightarrow> uuid_Parse U [] = None"
  by (simp add: uuid_laws_def)

lemma uuid_laws_text:
  "uuid_laws U \<Longrightarrow> length u = 16 \<Longrightarrow>
   length (uuid_String U u) = 36 \<and> (\<forall>c\<in>set (uuid_String U u). uuid_text c)"
  unfolding uuid_laws_def by (simp add: list_all_iff)

text \<open>An instance of the package's documented behaviour: the textual form is the hexadecimal
  digits of the sixteen bytes in groups of 4, 2, 2, 2 and 6, and exactly these texts parse.\<close>

definition hex_digit :: "nat \<Rightarrow> char" where
  "hex_digit n = char_of (if n < 10 then 48 + n else 87 + n)"

definition hex_bytes :: "bytes \<Rightarrow> string" where
  "hex_bytes bs = concat (map (\<lambda>c. [hex_digit (byte c div 16), hex_digit (byte c mod 16)]) bs)"

definition plain_uuid_String :: "uuid \<Rightarrow> string" where
  "plain_uuid_String u = hex_bytes (take 4 u) @ ''-'' @ hex_bytes (take 2 (drop 4 u)) @ ''-''
     @ hex_bytes (take 2 (drop 6 u)) @ ''-'' @ hex_bytes (take 2 (drop 8 u)) @ ''-''
     @ hex_bytes (drop 10 u)"

definition plain_uuid_Parse :: "string \<Rightarrow> uuid option" where
  "plain_uuid_Parse s =
    (if length s = 36 \<and> s ! 8 = CHR ''-'' \<and> s ! 13 = CHR ''-'' \<and> s ! 18 = CHR ''-'' \<and> s ! 23 = CHR ''-''
     then HexDecode (take 8 s @ take 4 (drop 9 s) @ take 4 (drop 14 s) @ take 4 (drop 19 s) @ drop 24 s)
     else None)"

definition plain_uuid :: uuid_lib where
  "plain_uuid = \<lparr>uuid_Parse = plain_uuid_Parse, uuid_String = plain_uuid_String\<rparr>"

lemma hex_val_digit: "n < 16 \<Longrightarrow> hex_val (hex_digit n) = Some n"
  by (auto simp: hex_val_def hex_digit_def Let_def)

lemma HexDecode_hex_bytes: "HexDecode (hex_bytes bs) = Some bs"
proof (induction bs)
  case (Cons c bs)
  have "byte c div 16 < 16" "byte c mod 16 < 16" by simp_all
  moreover have "byte c div 16 * 16 + byte c mod 16 = byte c" by (rule div_mult_mod_eq)
  ultimately show ?case using Cons by (simp add: hex_bytes_def hex_val_digit)
qed (simp add: hex_bytes_def)

lemma HexDecode_length: "HexDecode s = Some bs \<Longrightarrow> length s = 2 * length bs"
proof (induction s arbitrary: bs rule: HexDecode.induct)
  case (3 a b rest)
  then show ?case by (auto split: option.splits)
qed auto

lemma length_hex_bytes [simp]: "length (hex_bytes bs) = 2 * length bs"
  by (induction bs) (auto simp: hex_bytes_def)

lemma hex_bytes_append: "hex_bytes (a @ b) = hex_bytes a @ hex_bytes b"
  by (simp add: hex_bytes_def)

lemma hex_bytes_text: "c \<in> set (hex_bytes bs) \<Longrightarrow> uuid_text c"
proof -
  have "uuid_text (hex_digit n)" if "n < 16" for n
    using that by (auto simp: uuid_text_def hex_digit_def)
  then show "c \<in> set (hex_bytes bs) \<Longrightarrow> uuid_text c"
    by (auto simp: hex_bytes_def)
qed

lemma plain_uuid_parts:
  assumes "length u = 16"
  obtains a b c d e where "u = a @ b @ c @ d @ e" "length a = 4" "length b = 2" "length c = 2"
    "length d = 2" "length e = 6"
proof
  have "u = take 4 u @ drop 4 u" by simp
  also have "drop 4 u = take 2 (drop 4 u) @ drop 6 u"
    using append_take_drop_id [of 2 "drop 4 u"] by simp
  also have "drop 6 u = take 2 (drop 6 u) @ drop 8 u"
    using append_take_drop_id [of 2 "drop 6 u"] by simp
  also have "drop 8 u = take 2 (drop 8 u) @ drop 10 u"
    using append_take_drop_id [of 2 "drop 8 u"] by simp
  finally show "u = take 4 u @ take 2 (drop 4 u) @ take 2 (drop 6 u) @ take 2 (drop 8 u) @ drop 10 u" .
qed (use assms in simp_all)

lemma plain_uuid_String_parts:
  assumes "length a = 4" "length b = 2" "length c = 2" "length d = 2"
  shows "plain_uuid_String (a @ b @ c @ d @ e) =
    hex_bytes a @ ''-'' @ hex_bytes b @ ''-'' @ hex_bytes c @ ''-'' @ hex_bytes d @ ''-'' @ hex_bytes e"
  using assms by (simp add: plain_uuid_String_def)

lemma plain_uuid_Parse_parts:
  assumes "length a = 8" "length b = 4" "length c = 4" "length d = 4" "length e = 12"
  shows "plain_uuid_Parse (a @ ''-'' @ b @ ''-'' @ c @ ''-'' @ d @ ''-'' @ e) =
    HexDecode (a @ b @ c @ d @ e)"
  using assms by (simp add: plain_uuid_Parse_def nth_append nth_Cons')

lemma plain_uuid_laws: "uuid_laws plain_uuid"
  unfolding uuid_laws_def
proof (intro conjI allI impI)
  fix u :: uuid
  assume "length u = 16"
  then obtain a b c d e where u: "u = a @ b @ c @ d @ e" and l: "length a = 4" "length b = 2"
    "length c = 2" "length d = 2" "length e = 6"
    by (rule plain_uuid_parts)
  have t: "uuid_String plain_uuid u = hex_bytes a @ ''-'' @ hex_bytes b @ ''-'' @ hex_bytes c
      @ ''-'' @ hex_bytes d @ ''-'' @ hex_bytes e"
    using l by (simp add: u plain_uuid_def plain_uuid_String_parts)
  have "plain_uuid_Parse (uuid_String plain_uuid u)
      = HexDecode (hex_bytes a @ hex_bytes b @ hex_bytes c @ hex_bytes d @ hex_bytes e)"
    unfolding t using l by (intro plain_uuid_Parse_parts) simp_all
  also have "\<dots> = Some u"
    by (simp add: u flip: hex_bytes_append) (rule HexDecode_hex_bytes)
  finally show "uuid_Parse plain_uuid (uuid_String plain_uuid u) = Some u"
    by (simp add: plain_uuid_def)
  show "length (uuid_String plain_uuid u) = 36"
    using l by (simp add: t)
  show "list_all uuid_text (uuid_String plain_uuid u)"
    by (auto simp: t list_all_iff intro: hex_bytes_text) (simp_all add: uuid_text_def)
next
  fix s u
  assume "uuid_Parse plain_uuid s = Some u"
  then show "length u = 16"
    by (auto simp: plain_uuid_def plain_uuid_Parse_def dest!: HexDecode_length split: if_splits)
qed (simp add: plain_uuid_def plain_uuid_Parse_def)

end
