(* ===== verification/InboxTable.thy ===== *)
theory InboxTable
  imports SignalTypes
begin

text \<open>
  The table of inbox records (internal/store inbox.go, upgrades/06-inbox.sql) and its operations.
  SQL is read as the language it is: a statement that fails has no effect and one that succeeds
  does what it says; a transaction whose body fails leaves the tables as they were. Whether the
  engine fails is an argument of each operation, \<open>Some msg\<close> for a failure: one per statement, by
  its position in the operation. AUTOINCREMENT is the counter \<open>ibSeq\<close> of the largest ID ever used.
\<close>

section \<open>SQL\<close>

type_synonym fault = "string option"

text \<open>A transaction (\<open>DoTxn\<close>): rolled back when it cannot begin or commit or its body fails.\<close>

definition DoTxn :: "fault \<Rightarrow> fault \<Rightarrow> ('s \<Rightarrow> 's \<times> 'a res) \<Rightarrow> 's \<Rightarrow> 's \<times> 'a res" where
  "DoTxn beginFault commitFault body s = (case beginFault of
     Some msg \<Rightarrow> (s, Inl (Opaque msg))
   | None \<Rightarrow> (case body s of
       (_, Inl e) \<Rightarrow> (s, Inl e)
     | (s', Inr a) \<Rightarrow> (case commitFault of
         Some msg \<Rightarrow> (s, Inl (Opaque msg))
       | None \<Rightarrow> (s', Inr a))))"

section \<open>Records (inbox.go)\<close>

record InboxRecord =
  irID :: int
  irReceivedAt :: time
  irTime :: time
  irChat :: string
  irSender :: string
  irTimestamp :: u64
  irUnread :: bool
  irEvent :: bytes

record InboxFilter =
  ifAfter :: int
  ifUntil :: int
  ifChat :: string
  ifSince :: time
  ifUnread :: bool
  ifLimit :: int
  ifNewest :: bool

record InboxMark =
  imSender :: string
  imTimestamp :: u64

record InboxChatRecord =
  icrChat :: string
  icrEntries :: nat
  icrUnread :: nat
  icrLast :: InboxRecord

text \<open>A row of gosignal\_inbox and the table; times are milliseconds since the epoch.\<close>

record inbox_row =
  rowID :: int
  rowReceived :: int
  rowTime :: int
  rowChat :: string
  rowSender :: string
  rowTimestamp :: int
  rowUnread :: bool
  rowEvent :: bytes

record gosignal_inbox =
  ibRows :: "inbox_row list"
  ibSeq :: int

definition noFilter :: InboxFilter where
  "noFilter = \<lparr>ifAfter = 0, ifUntil = 0, ifChat = [], ifSince = time_zero, ifUnread = False,
     ifLimit = 0, ifNewest = False\<rparr>"

definition timestampArg :: "u64 \<Rightarrow> int" where
  "timestampArg ts = min (uint ts) (2 ^ 63 - 1)"

definition scanInboxRecord :: "inbox_row \<Rightarrow> InboxRecord" where
  "scanInboxRecord row = \<lparr>irID = rowID row, irReceivedAt = fromUnixMilli (rowReceived row),
     irTime = fromUnixMilli (rowTime row), irChat = rowChat row, irSender = rowSender row,
     irTimestamp = word_of_int (max (rowTimestamp row) 0), irUnread = rowUnread row,
     irEvent = rowEvent row\<rparr>"

section \<open>Operations\<close>

definition AddInboxRecord :: "fault \<Rightarrow> InboxRecord \<Rightarrow> gosignal_inbox \<Rightarrow> gosignal_inbox \<times> int res" where
  "AddInboxRecord f rec t = (case f of
     Some msg \<Rightarrow> (t, Inl (Wrap ''write inbox entry'' [Opaque msg]))
   | None \<Rightarrow> let newID = ibSeq t + 1;
       row = \<lparr>rowID = newID, rowReceived = UnixMilli (irReceivedAt rec), rowTime = UnixMilli (irTime rec),
              rowChat = irChat rec, rowSender = irSender rec, rowTimestamp = timestampArg (irTimestamp rec),
              rowUnread = irUnread rec, rowEvent = irEvent rec\<rparr>
     in (\<lparr>ibRows = ibRows t @ [row], ibSeq = newID\<rparr>, Inr newID))"

text \<open>The conditions of \<open>where\<close>, each present only when its field is set.\<close>

definition inbox_where :: "InboxFilter \<Rightarrow> (inbox_row \<Rightarrow> bool) list" where
  "inbox_where f =
     (if ifAfter f > 0 then [\<lambda>r. rowID r > ifAfter f] else [])
   @ (if ifUntil f > 0 then [\<lambda>r. rowID r \<le> ifUntil f] else [])
   @ (if ifChat f \<noteq> [] then [\<lambda>r. rowChat r = ifChat f] else [])
   @ (if \<not> IsZero (ifSince f) then [\<lambda>r. rowTime r \<ge> UnixMilli (ifSince f)] else [])
   @ (if ifUnread f then [rowUnread] else [])"

definition InboxRecords :: "fault \<Rightarrow> InboxFilter \<Rightarrow> gosignal_inbox \<Rightarrow> InboxRecord list res" where
  "InboxRecords f filt t = (case f of
     Some msg \<Rightarrow> Inl (Wrap ''read inbox'' [Opaque msg])
   | None \<Rightarrow>
     let selected = filter (\<lambda>r. list_all (\<lambda>cond. cond r) (inbox_where filt)) (ibRows t);
         asc = sort_key rowID selected;
         ordered = (if ifNewest filt then rev asc else asc);
         limited = (if ifLimit filt > 0 then take (nat (ifLimit filt)) ordered else ordered);
         recs = map scanInboxRecord limited
     in Inr (if ifNewest filt then rev recs else recs))"

text \<open>One group of \<open>GROUP BY chat\<close>: the chat, COUNT, SUM(unread) and MAX(id).\<close>

definition chat_group :: "inbox_row list \<Rightarrow> string \<Rightarrow> string \<times> nat \<times> nat \<times> int" where
  "chat_group rows chat = (let rs = filter (\<lambda>r. rowChat r = chat) rows in
     (chat, length rs, length (filter rowUnread rs), fold max (map rowID rs) 0))"

definition scanInboxChat :: "string \<times> nat \<times> nat \<times> int \<Rightarrow> inbox_row \<Rightarrow> InboxChatRecord" where
  "scanInboxChat g lst = (case g of (chat, entries, unread, _) \<Rightarrow>
     \<lparr>icrChat = chat, icrEntries = entries, icrUnread = unread, icrLast = scanInboxRecord lst\<rparr>)"

definition InboxChats :: "fault \<Rightarrow> gosignal_inbox \<Rightarrow> InboxChatRecord list res" where
  "InboxChats f t = (case f of
     Some msg \<Rightarrow> Inl (Wrap ''read inbox chats'' [Opaque msg])
   | None \<Rightarrow>
     let rows = ibRows t;
         groups = map (chat_group rows) (remdups (filter (\<lambda>c. c \<noteq> []) (map rowChat rows)));
         joined = concat (map (\<lambda>g. map (Pair g) (filter (\<lambda>r. rowID r = snd (snd (snd g))) rows)) groups);
         ordered = sort_key (\<lambda>(g, r). - snd (snd (snd g))) joined
     in Inr (map (\<lambda>(g, r). scanInboxChat g r) ordered))"

definition mark_row :: "InboxMark \<Rightarrow> inbox_row \<Rightarrow> bool" where
  "mark_row mark r \<longleftrightarrow> rowUnread r \<and> rowSender r = imSender mark \<and> rowTimestamp r = timestampArg (imTimestamp mark)"

text \<open>The statements of the loop in the transaction; \<open>f i\<close> is the fault of statement \<open>i\<close>.\<close>

fun mark_loop :: "(nat \<Rightarrow> fault) \<Rightarrow> nat \<Rightarrow> InboxMark list \<Rightarrow> nat \<Rightarrow> gosignal_inbox \<Rightarrow> gosignal_inbox \<times> nat res" where
  "mark_loop f i [] marked t = (t, Inr marked)"
| "mark_loop f i (mark # marks) marked t = (case f i of
     Some msg \<Rightarrow> (t, Inl (Opaque msg))
   | None \<Rightarrow> mark_loop f (i + 1) marks (marked + length (filter (mark_row mark) (ibRows t)))
       (t\<lparr>ibRows := map (\<lambda>r. if mark_row mark r then r\<lparr>rowUnread := False\<rparr> else r) (ibRows t)\<rparr>))"

definition MarkInboxRead :: "(nat \<Rightarrow> fault) \<Rightarrow> InboxMark list \<Rightarrow> gosignal_inbox \<Rightarrow> gosignal_inbox \<times> nat res" where
  "MarkInboxRead f marks t =
    (case DoTxn (f 0) (f (length marks + 1)) (mark_loop f 1 marks 0) t of
       (t', Inl e) \<Rightarrow> (t', Inl (Wrap ''mark inbox entries read'' [e]))
     | (t', Inr marked) \<Rightarrow> (t', Inr marked))"

text \<open>\<open>SELECT id ... ORDER BY id DESC LIMIT 1 OFFSET keep\<close>: NULL when there is no such row.\<close>

definition id_at_offset :: "nat \<Rightarrow> inbox_row list \<Rightarrow> int option" where
  "id_at_offset keep rows = (case drop keep (rev (sort (map rowID rows))) of [] \<Rightarrow> None | x # _ \<Rightarrow> Some x)"

definition delete_rows :: "(inbox_row \<Rightarrow> bool) \<Rightarrow> gosignal_inbox \<Rightarrow> gosignal_inbox \<times> nat" where
  "delete_rows p t = (t\<lparr>ibRows := filter (\<lambda>r. \<not> p r) (ibRows t)\<rparr>, length (filter p (ibRows t)))"

definition PruneInbox :: "fault \<Rightarrow> fault \<Rightarrow> time \<Rightarrow> int \<Rightarrow> gosignal_inbox \<Rightarrow> gosignal_inbox \<times> nat res" where
  "PruneInbox f1 f2 before keep t =
    (let first = (if \<not> IsZero before
           then (case f1 of
               Some msg \<Rightarrow> (t, Inl (Wrap ''prune inbox'' [Opaque msg]))
             | None \<Rightarrow> (case delete_rows (\<lambda>r. rowReceived r < UnixMilli before) t of (t1, n) \<Rightarrow> (t1, Inr n)))
           else (t, Inr 0))
     in case first of
       (t1, Inl e) \<Rightarrow> (t1, Inl e)
     | (t1, Inr deleted) \<Rightarrow>
       if keep > 0
       then (case f2 of
           Some msg \<Rightarrow> (t1, Inl (Wrap ''prune inbox'' [Opaque msg]))
         | None \<Rightarrow> (case delete_rows (\<lambda>r. case id_at_offset (nat keep) (ibRows t1) of
                          None \<Rightarrow> False | Some i \<Rightarrow> rowID r \<le> i) t1 of
               (t2, n) \<Rightarrow> (t2, Inr (deleted + n))))
       else (t1, Inr deleted))"

section \<open>Invariant\<close>

text \<open>IDs are positive, strictly increasing in insertion order and never above the counter.\<close>

definition inbox_inv :: "gosignal_inbox \<Rightarrow> bool" where
  "inbox_inv t \<longleftrightarrow> sorted_wrt (<) (map rowID (ibRows t)) \<and> 0 \<le> ibSeq t
     \<and> (\<forall>r\<in>set (ibRows t). 0 < rowID r \<and> rowID r \<le> ibSeq t)"

datatype inbox_op =
    OpAdd fault InboxRecord
  | OpMark "nat \<Rightarrow> fault" "InboxMark list"
  | OpPrune fault fault time int

definition inbox_step :: "inbox_op \<Rightarrow> gosignal_inbox \<Rightarrow> gosignal_inbox" where
  "inbox_step opn t = (case opn of
     OpAdd f rec \<Rightarrow> fst (AddInboxRecord f rec t)
   | OpMark f marks \<Rightarrow> fst (MarkInboxRead f marks t)
   | OpPrune f1 f2 before keep \<Rightarrow> fst (PruneInbox f1 f2 before keep t))"

section \<open>Listing\<close>

definition matches :: "InboxFilter \<Rightarrow> inbox_row \<Rightarrow> bool" where
  "matches f r \<longleftrightarrow> (ifAfter f > 0 \<longrightarrow> rowID r > ifAfter f) \<and> (ifUntil f > 0 \<longrightarrow> rowID r \<le> ifUntil f)
     \<and> (ifChat f \<noteq> [] \<longrightarrow> rowChat r = ifChat f) \<and> (\<not> IsZero (ifSince f) \<longrightarrow> rowTime r \<ge> UnixMilli (ifSince f))
     \<and> (ifUnread f \<longrightarrow> rowUnread r)"

lemma inbox_where_matches: "list_all (\<lambda>cond. cond r) (inbox_where f) \<longleftrightarrow> matches f r"
  by (auto simp: inbox_where_def matches_def)

lemma inv_sorted: "inbox_inv t \<Longrightarrow> sorted_wrt (<) (map rowID (ibRows t))"
  by (simp add: inbox_inv_def)

lemma sorted_filter_rows:
  "sorted_wrt (<) (map rowID rows) \<Longrightarrow> sorted_wrt (<) (map rowID (filter p rows))"
  by (simp add: sorted_wrt_map sorted_wrt_filter)

lemma sort_rows_id: "sorted_wrt (<) (map rowID rows) \<Longrightarrow> sort_key rowID rows = rows"
  by (rule sort_key_id_if_sorted) (simp add: strict_sorted_imp_sorted)

lemma rev_take_rev: "rev (take n (rev xs)) = drop (length xs - n) xs"
  by (simp add: rev_take)

lemma InboxRecords_eq:
  assumes "inbox_inv t"
  shows "InboxRecords None filt t = Inr (map scanInboxRecord (let m = filter (matches filt) (ibRows t) in
     if ifLimit filt \<le> 0 then m
     else if ifNewest filt then drop (length m - nat (ifLimit filt)) m else take (nat (ifLimit filt)) m))"
proof -
  let ?m = "filter (matches filt) (ibRows t)"
  have "sort_key rowID ?m = ?m"
    by (intro sort_rows_id sorted_filter_rows inv_sorted [OF assms])
  then show ?thesis
    by (auto simp: InboxRecords_def inbox_where_matches Let_def rev_map rev_take_rev)
qed

lemma scan_id [simp]: "irID (scanInboxRecord r) = rowID r"
  by (simp add: scanInboxRecord_def)

lemma strict_sub:
  "sorted_wrt (<) (map rowID rows) \<Longrightarrow> sorted_wrt (<) (map rowID (take n rows))"
  "sorted_wrt (<) (map rowID rows) \<Longrightarrow> sorted_wrt (<) (map rowID (drop n rows))"
  by (simp_all add: take_map [symmetric] drop_map [symmetric] sorted_wrt_take sorted_wrt_drop)

section \<open>Adding\<close>

lemma AddInboxRecord_inv: "inbox_inv t \<Longrightarrow> inbox_inv (fst (AddInboxRecord f rec t))"
  by (fastforce simp: AddInboxRecord_def inbox_inv_def Let_def sorted_wrt_append split: option.splits)

lemma timestampArg_scan: "uint ts < 2 ^ 63 \<Longrightarrow> word_of_int (max (timestampArg ts) 0) = ts"
  by (simp add: timestampArg_def)

lemma filter_above_seq: "inbox_inv t \<Longrightarrow> filter (\<lambda>r. ibSeq t < rowID r) (ibRows t) = []"
  by (auto simp: inbox_inv_def filter_empty_conv)

section \<open>Marking\<close>

lemma mark_loop_ok:
  assumes "\<And>j. i \<le> j \<Longrightarrow> j < i + length marks \<Longrightarrow> f j = None"
  shows "mark_loop f i marks n t =
    (t\<lparr>ibRows := map (\<lambda>r. if \<exists>m\<in>set marks. mark_row m r then r\<lparr>rowUnread := False\<rparr> else r) (ibRows t)\<rparr>,
     Inr (n + length (filter (\<lambda>r. \<exists>m\<in>set marks. mark_row m r) (ibRows t))))"
  using assms
proof (induction marks arbitrary: i n t)
  case Nil
  then show ?case by (cases t) simp
next
  case (Cons m marks)
  have fi: "f i = None" using Cons.prems [of i] by simp
  let ?u = "\<lambda>r. if mark_row m r then r\<lparr>rowUnread := False\<rparr> else r"
  have un: "mark_row m' (?u r) \<longleftrightarrow> mark_row m' r \<and> \<not> mark_row m r" for m' r
    by (simp add: mark_row_def)
  have c: "length (filter (mark_row m) rows)
      + length (filter (\<lambda>r. \<exists>x\<in>set marks. mark_row x r \<and> \<not> mark_row m r) rows)
      = length (filter (\<lambda>r. mark_row m r \<or> (\<exists>x\<in>set marks. mark_row x r)) rows)" for rows
    by (induction rows) auto
  have IH: "mark_loop f (Suc i) marks n' t' =
      (t'\<lparr>ibRows := map (\<lambda>r. if \<exists>m\<in>set marks. mark_row m r then r\<lparr>rowUnread := False\<rparr> else r) (ibRows t')\<rparr>,
       Inr (n' + length (filter (\<lambda>r. \<exists>m\<in>set marks. mark_row m r) (ibRows t'))))" for n' t'
    using Cons.prems by (intro Cons.IH) auto
  show ?case
    using c [of "ibRows t"] by (simp add: fi IH filter_map o_def un)
qed

lemma mark_loop_fault:
  assumes "i \<le> j" "j < i + length marks" "f j = Some msg"
  shows "\<exists>e. snd (mark_loop f i marks n t) = Inl e"
  using assms
proof (induction marks arbitrary: i n t)
  case (Cons m marks)
  then show ?case by (cases "i = j") (auto split: option.splits)
qed simp

lemma mark_loop_rowIDs: "map rowID (ibRows (fst (mark_loop f i marks n t))) = map rowID (ibRows t)
    \<and> ibSeq (fst (mark_loop f i marks n t)) = ibSeq t"
proof (induction marks arbitrary: i n t)
  case (Cons m marks)
  have "map rowID (map (\<lambda>r. if mark_row m r then r\<lparr>rowUnread := False\<rparr> else r) rows) = map rowID rows" for rows
    by simp
  then show ?case using Cons by (simp split: option.splits)
qed simp

lemma inv_same_ids:
  assumes "inbox_inv t" "map rowID (ibRows t') = map rowID (ibRows t)" "ibSeq t' = ibSeq t"
  shows "inbox_inv t'"
proof -
  have eq: "rowID ` set (ibRows t') = rowID ` set (ibRows t)" using assms(2) by (metis list.set_map)
  have "\<forall>i\<in>rowID ` set (ibRows t). 0 < i \<and> i \<le> ibSeq t"
    using assms(1) by (simp add: inbox_inv_def)
  then have "\<forall>i\<in>rowID ` set (ibRows t'). 0 < i \<and> i \<le> ibSeq t" unfolding eq .
  then show ?thesis using assms by (simp add: inbox_inv_def)
qed

lemma MarkInboxRead_inv: "inbox_inv t \<Longrightarrow> inbox_inv (fst (MarkInboxRead f marks t))"
proof -
  assume inv: "inbox_inv t"
  obtain t' r where m: "mark_loop f (Suc 0) marks 0 t = (t', r)" by fastforce
  have "inbox_inv t'"
    using inv_same_ids [OF inv] mark_loop_rowIDs [of f "Suc 0" marks 0 t] m by simp
  then show ?thesis
    using inv by (simp add: MarkInboxRead_def DoTxn_def m split: option.split sum.split)
qed

section \<open>Pruning\<close>

lemma delete_rows_inv: "inbox_inv t \<Longrightarrow> inbox_inv (fst (delete_rows p t))"
  by (auto simp: delete_rows_def inbox_inv_def sorted_filter_rows)

lemma PruneInbox_inv: "inbox_inv t \<Longrightarrow> inbox_inv (fst (PruneInbox f1 f2 before keep t))"
  using delete_rows_inv [of t] delete_rows_inv
  by (auto simp: PruneInbox_def Let_def split: option.splits prod.splits sum.splits if_splits)
    (metis fst_conv)+

lemma drop_above:
  assumes "sorted_wrt (<) (map rowID rows)" "k < length rows" "k = length rows - Suc n" "n < length rows"
  shows "filter (\<lambda>r. \<not> rowID r \<le> rowID (rows ! k)) rows = drop (Suc k) rows"
proof -
  have s: "rows = take (Suc k) rows @ drop (Suc k) rows" by simp
  have lt: "rowID (rows ! i) < rowID (rows ! j)" if "i < j" "j < length rows" for i j
    using sorted_wrt_nth_less [OF assms(1), of i j] that by simp
  have "\<forall>r\<in>set (take (Suc k) rows). rowID r \<le> rowID (rows ! k)"
    using lt assms(2) by (auto simp: in_set_conv_nth) (metis less_SucE less_imp_le order_refl)
  moreover have "\<forall>r\<in>set (drop (Suc k) rows). \<not> rowID r \<le> rowID (rows ! k)"
    using lt assms(2) by (auto simp: in_set_conv_nth) (metis add_Suc less_add_Suc1 less_diff_conv add.commute not_le)
  ultimately show ?thesis
    by (subst s) (simp add: filter_append filter_False del: append_take_drop_id)
qed

lemma keep_newest:
  assumes "sorted_wrt (<) (map rowID rows)"
  shows "filter (\<lambda>r. \<not> (case id_at_offset k rows of None \<Rightarrow> False | Some i \<Rightarrow> rowID r \<le> i)) rows
     = drop (length rows - k) rows"
proof (cases "k < length rows")
  case True
  let ?j = "length rows - Suc k"
  have "sort (map rowID rows) = map rowID rows"
    using assms by (simp add: sort_key_id_if_sorted strict_sorted_imp_sorted)
  moreover have "drop k (rev (map rowID rows)) = rowID (rows ! ?j) # drop (Suc k) (rev (map rowID rows))"
    using True by (subst Cons_nth_drop_Suc [symmetric]) (simp_all add: rev_nth)
  ultimately have "id_at_offset k rows = Some (rowID (rows ! ?j))"
    by (simp add: id_at_offset_def)
  moreover have "Suc ?j = length rows - k" using True by simp
  ultimately show ?thesis using drop_above [OF assms, of ?j k] True by simp
next
  case False
  then show ?thesis by (simp add: id_at_offset_def)
qed

section \<open>The log a reader pages through\<close>

text \<open>
  What the readers of the inbox rely on: entries with positive, strictly increasing keys, and a
  listing that returns the first entries beyond a cursor. Reading page after page from the last key
  returned then gives every entry beyond the first cursor once, in order.
\<close>

fun read_pages :: "(int \<Rightarrow> 'e list) \<Rightarrow> ('e \<Rightarrow> int) \<Rightarrow> nat \<Rightarrow> int \<Rightarrow> 'e list" where
  "read_pages page key 0 cursor = []"
| "read_pages page key (Suc fuel) cursor = (case page cursor of
     [] \<Rightarrow> []
   | es \<Rightarrow> es @ read_pages page key fuel (key (last es)))"

locale paged_log =
  fixes inv :: "'s \<Rightarrow> bool"
    and entries :: "'s \<Rightarrow> 'e list"
    and key :: "'e \<Rightarrow> int"
    and page :: "'s \<Rightarrow> nat \<Rightarrow> int \<Rightarrow> 'e list"
  assumes keys_increase: "inv s \<Longrightarrow> sorted_wrt (<) (map key (entries s))"
    and keys_positive: "inv s \<Longrightarrow> e \<in> set (entries s) \<Longrightarrow> 0 < key e"
    and page_first: "inv s \<Longrightarrow> 0 \<le> c \<Longrightarrow> 0 < n \<Longrightarrow> page s n c = take n (filter (\<lambda>e. c < key e) (entries s))"
begin

lemma beyond_last:
  assumes "inv s" "take n (filter (\<lambda>e. c < key e) (entries s)) = es" "es \<noteq> []"
  shows "filter (\<lambda>e. key (last es) < key e) (entries s) = drop n (filter (\<lambda>e. c < key e) (entries s))"
proof -
  let ?f = "filter (\<lambda>e. c < key e) (entries s)"
  have split: "?f = es @ drop n ?f" using assms(2) by (metis append_take_drop_id)
  have "sorted_wrt (\<lambda>a b. key a < key b) ?f"
    using keys_increase [OF assms(1)] by (simp add: sorted_wrt_map sorted_wrt_filter)
  then have st: "sorted_wrt (\<lambda>a b. key a < key b) (es @ drop n ?f)" using split by simp
  have last_in: "last es \<in> set es" using assms(3) by simp
  have below: "\<forall>e\<in>set es. \<not> key (last es) < key e"
  proof
    fix e assume "e \<in> set es"
    moreover have "es = butlast es @ [last es]" using assms(3) by simp
    ultimately show "\<not> key (last es) < key e"
      using st by (metis (no_types, lifting) Un_iff less_imp_not_less list.set_intros(1) order_less_irrefl
          set_ConsD set_append sorted_wrt_append empty_iff list.set(1))
  qed
  have above: "\<forall>e\<in>set (drop n ?f). key (last es) < key e"
    using st last_in by (simp add: sorted_wrt_append)
  have "last es \<in> set ?f" using last_in assms(2) by (metis in_set_takeD)
  then have "c < key (last es)" by simp
  then have "filter (\<lambda>e. key (last es) < key e) (entries s) = filter (\<lambda>e. key (last es) < key e) ?f"
    by (auto simp: filter_filter intro!: filter_cong)
  also have "\<dots> = filter (\<lambda>e. key (last es) < key e) (es @ drop n ?f)" using split by simp
  also have "\<dots> = drop n ?f" using below above by (simp add: filter_append filter_empty_conv)
  finally show ?thesis .
qed

lemma pages_complete:
  assumes "inv s" "0 \<le> c" "0 < n" "length (filter (\<lambda>e. c < key e) (entries s)) < fuel"
  shows "read_pages (page s n) key fuel c = filter (\<lambda>e. c < key e) (entries s)"
  using assms(2,4)
proof (induction fuel arbitrary: c)
  case (Suc fuel)
  let ?f = "filter (\<lambda>e. c < key e) (entries s)"
  show ?case
  proof (cases "page s n c")
    case Nil
    then show ?thesis using page_first [OF assms(1) Suc.prems(1) assms(3)] assms(3) by simp
  next
    case (Cons e es)
    let ?es = "e # es"
    have p: "take n ?f = ?es" using page_first [OF assms(1) Suc.prems(1) assms(3)] Cons by simp
    have r: "filter (\<lambda>e. key (last ?es) < key e) (entries s) = drop n ?f"
      using beyond_last [OF assms(1) p] by simp
    have "last ?es \<in> set ?f" using p by (metis in_set_takeD last_in_set list.distinct(1))
    then have pos: "0 \<le> key (last ?es)" using Suc.prems(1) by simp
    have "0 < length ?f" using p by (metis length_greater_0_conv list.distinct(1) take_Nil)
    then have "length ?f - n < fuel" using Suc.prems(2) assms(3) by linarith
    then have "length (drop n ?f) < fuel" by simp
    then have "read_pages (page s n) key fuel (key (last ?es)) = drop n ?f"
      using Suc.IH [OF pos] r by simp
    then have "read_pages (page s n) key (Suc fuel) c = take n ?f @ drop n ?f"
      using Cons p by simp
    then show ?thesis by simp
  qed
qed simp

end

definition inbox_page :: "gosignal_inbox \<Rightarrow> nat \<Rightarrow> int \<Rightarrow> InboxRecord list" where
  "inbox_page t n c = (case InboxRecords None (noFilter\<lparr>ifAfter := c, ifLimit := int n\<rparr>) t of
     Inl _ \<Rightarrow> [] | Inr recs \<Rightarrow> recs)"

lemma matches_after: "0 \<le> c \<Longrightarrow> 0 < rowID r \<Longrightarrow> matches (noFilter\<lparr>ifAfter := c, ifLimit := n\<rparr>) r \<longleftrightarrow> c < rowID r"
  by (auto simp: matches_def noFilter_def IsZero_def)

interpretation inbox_log: paged_log inbox_inv "\<lambda>t. map scanInboxRecord (ibRows t)" irID inbox_page
proof
  show "sorted_wrt (<) (map irID (map scanInboxRecord (ibRows t)))" if "inbox_inv t" for t
    using inv_sorted [OF that] by (simp add: sorted_wrt_map)
  show "0 < irID e" if "inbox_inv t" "e \<in> set (map scanInboxRecord (ibRows t))" for t e
    using that by (auto simp: inbox_inv_def)
  show "inbox_page t n c = take n (filter (\<lambda>e. c < irID e) (map scanInboxRecord (ibRows t)))"
    if "inbox_inv t" "0 \<le> c" "0 < n" for t c n
  proof -
    have "filter (matches (noFilter\<lparr>ifAfter := c, ifLimit := int n\<rparr>)) (ibRows t) = filter (\<lambda>r. c < rowID r) (ibRows t)"
      using that(1,2) by (intro filter_cong) (auto simp: inbox_inv_def matches_after)
    then show ?thesis
      using that by (simp add: inbox_page_def InboxRecords_eq filter_map o_def take_map)
        (simp add: noFilter_def take_map)
  qed
qed

interpretation inbox_ops: step_system inbox_step inbox_inv
  by unfold_locales
    (simp add: inbox_step_def AddInboxRecord_inv MarkInboxRead_inv PruneInbox_inv split: inbox_op.split)

section \<open>Chats\<close>

lemma insort_key_map: "insort_key f (g x) (map g ys) = map g (insort_key (f \<circ> g) x ys)"
  by (induction ys) auto

lemma sort_key_map: "sort_key f (map g xs) = map g (sort_key (f \<circ> g) xs)"
  by (induction xs) (simp_all add: insort_key_map o_def)

lemma insort_key_same: "f x = g x \<Longrightarrow> (\<And>y. y \<in> set ys \<Longrightarrow> f y = g y) \<Longrightarrow> insort_key f x ys = insort_key g x ys"
  by (induction ys) auto

lemma sort_key_same: "(\<And>x. x \<in> set xs \<Longrightarrow> f x = g x) \<Longrightarrow> sort_key f xs = sort_key g xs"
  by (induction xs) (auto intro!: insort_key_same)

lemma fold_max_last:
  assumes "sorted_wrt (<) xs" "\<forall>x\<in>set xs. (b::int) < x"
  shows "fold max xs b = (if xs = [] then b else last xs)"
  using assms
proof (induction xs arbitrary: b)
  case (Cons x xs)
  have "fold max xs x = (if xs = [] then x else last xs)"
    using Cons.prems by (intro Cons.IH) auto
  moreover have "max x b = x" using Cons.prems(2) by simp
  ultimately show ?case by simp
qed simp

lemma filter_unique:
  assumes "distinct (map f xs)" "x \<in> set xs"
  shows "filter (\<lambda>y. f y = f x) xs = [x]"
  using assms by (induction xs) (auto simp: filter_empty_conv image_iff)

definition lastRow :: "inbox_row list \<Rightarrow> string \<Rightarrow> inbox_row" where
  "lastRow rows chat = last (filter (\<lambda>r. rowChat r = chat) rows)"

lemma lastRow_in: "chat \<in> rowChat ` set rows \<Longrightarrow> lastRow rows chat \<in> set rows \<and> rowChat (lastRow rows chat) = chat"
proof -
  assume "chat \<in> rowChat ` set rows"
  then have "filter (\<lambda>r. rowChat r = chat) rows \<noteq> []" by (auto simp: filter_empty_conv)
  then have "lastRow rows chat \<in> set (filter (\<lambda>r. rowChat r = chat) rows)"
    unfolding lastRow_def by (rule last_in_set)
  then show ?thesis by simp
qed

lemma chat_group_last:
  assumes "inbox_inv t" "chat \<in> rowChat ` set (ibRows t)"
  shows "snd (snd (snd (chat_group (ibRows t) chat))) = rowID (lastRow (ibRows t) chat)"
proof -
  let ?rs = "filter (\<lambda>r. rowChat r = chat) (ibRows t)"
  have ne: "?rs \<noteq> []" using assms(2) by (auto simp: filter_empty_conv)
  have "fold max (map rowID ?rs) 0 = last (map rowID ?rs)"
    using assms(1) ne by (subst fold_max_last) (auto simp: inbox_inv_def sorted_filter_rows)
  then show ?thesis using ne by (simp add: chat_group_def Let_def lastRow_def last_map)
qed

lemma InboxChats_eq:
  assumes "inbox_inv t"
  shows "InboxChats None t = Inr (map (\<lambda>c. scanInboxChat (chat_group (ibRows t) c) (lastRow (ibRows t) c))
     (sort_key (\<lambda>c. - rowID (lastRow (ibRows t) c)) (remdups (filter (\<lambda>c. c \<noteq> []) (map rowChat (ibRows t))))))"
proof -
  let ?rows = "ibRows t" and ?chats = "remdups (filter (\<lambda>c. c \<noteq> []) (map rowChat (ibRows t)))"
  let ?key = "\<lambda>g. snd (snd (snd g)) :: int"
  let ?j = "\<lambda>c. (chat_group ?rows c, lastRow ?rows c)"
  have d: "distinct (map rowID ?rows)" using assms by (simp add: inbox_inv_def strict_sorted_iff)
  have one: "map (Pair (chat_group ?rows c)) (filter (\<lambda>r. rowID r = ?key (chat_group ?rows c)) ?rows) = [?j c]"
    if "c \<in> set ?chats" for c
  proof -
    have c: "c \<in> rowChat ` set ?rows" using that by auto
    show ?thesis
      using filter_unique [OF d conjunct1 [OF lastRow_in [OF c]]] chat_group_last [OF assms c] by simp
  qed
  have "concat (map (\<lambda>g. map (Pair g) (filter (\<lambda>r. rowID r = ?key g) ?rows)) (map (chat_group ?rows) cs)) = map ?j cs"
    if "set cs \<subseteq> set ?chats" for cs
    using that by (induction cs) (simp_all add: one del: set_remdups set_filter)
  then have j: "concat (map (\<lambda>g. map (Pair g) (filter (\<lambda>r. rowID r = ?key g) ?rows)) (map (chat_group ?rows) ?chats)) = map ?j ?chats"
    by blast
  have "sort_key (\<lambda>(g, r). - ?key g) (map ?j ?chats)
      = map ?j (sort_key ((\<lambda>(g, r). - ?key g) \<circ> ?j) ?chats)"
    by (rule sort_key_map)
  also have "sort_key ((\<lambda>(g, r). - ?key g) \<circ> ?j) ?chats = sort_key (\<lambda>c. - rowID (lastRow ?rows c)) ?chats"
    by (intro sort_key_same) (simp add: chat_group_last [OF assms])
  finally have srt: "sort_key (\<lambda>(g, r). - ?key g) (map ?j ?chats)
      = map ?j (sort_key (\<lambda>c. - rowID (lastRow ?rows c)) ?chats)" .
  show ?thesis unfolding InboxChats_def Let_def option.case j srt by (simp add: o_def)
qed

text \<open>The IDs that a sequence of operations hands out.\<close>

fun added_ids :: "inbox_op list \<Rightarrow> gosignal_inbox \<Rightarrow> int list" where
  "added_ids [] t = []"
| "added_ids (opn # ops) t =
    (case opn of
       OpAdd f rec \<Rightarrow> (case snd (AddInboxRecord f rec t) of Inl _ \<Rightarrow> [] | Inr i \<Rightarrow> [i])
     | _ \<Rightarrow> []) @ added_ids ops (inbox_step opn t)"

lemma delete_rows_seq [simp]: "ibSeq (fst (delete_rows p t)) = ibSeq t"
  by (simp add: delete_rows_def)

lemma PruneInbox_seq: "ibSeq (fst (PruneInbox f1 f2 before keep t)) = ibSeq t"
  by (simp add: PruneInbox_def delete_rows_def Let_def split: option.split)

lemma MarkInboxRead_seq: "ibSeq (fst (MarkInboxRead f marks t)) = ibSeq t"
proof -
  obtain t' r where m: "mark_loop f (Suc 0) marks 0 t = (t', r)" by fastforce
  then have "ibSeq t' = ibSeq t" using mark_loop_rowIDs [of f "Suc 0" marks 0 t] by simp
  then show ?thesis by (simp add: MarkInboxRead_def DoTxn_def m split: option.split sum.split)
qed

lemma added_ids_increase: "sorted_wrt (<) (added_ids ops t) \<and> (\<forall>i\<in>set (added_ids ops t). ibSeq t < i)"
proof (induction ops arbitrary: t)
  case (Cons opn ops)
  note IH = Cons.IH [of "inbox_step opn t"]
  show ?case
  proof (cases opn)
    case (OpAdd f rec)
    then show ?thesis
      using IH by (cases f) (fastforce simp: inbox_step_def AddInboxRecord_def Let_def)+
  next
    case (OpMark f marks)
    then show ?thesis using IH by (simp add: inbox_step_def MarkInboxRead_seq)
  next
    case (OpPrune f1 f2 before keep)
    then show ?thesis using IH by (simp add: inbox_step_def PruneInbox_seq)
  qed
qed simp

text \<open>A table with two records, for the witnesses.\<close>

definition demoRow :: "int \<Rightarrow> inbox_row" where
  "demoRow i = \<lparr>rowID = i, rowReceived = 5, rowTime = 7, rowChat = ''c'', rowSender = ''s'',
     rowTimestamp = 9, rowUnread = True, rowEvent = ''e''\<rparr>"

definition demoTable :: gosignal_inbox where
  "demoTable = \<lparr>ibRows = [demoRow 1, demoRow 2], ibSeq = 3\<rparr>"

lemma demoTable_inv: "inbox_inv demoTable"
  by (simp add: inbox_inv_def demoTable_def demoRow_def)

lemma demo_simps [simp]:
  "rowID (demoRow i) = i" "rowUnread (demoRow i)" "rowReceived (demoRow i) = 5"
  "mark_row \<lparr>imSender = ''s'', imTimestamp = 9\<rparr> (demoRow i)" "ibRows demoTable = [demoRow 1, demoRow 2]"
  by (simp_all add: demoRow_def mark_row_def timestampArg_def demoTable_def)

section \<open>Properties\<close>

text \<open>C17: A new record gets an ID above every ID ever assigned, and listing from just below that ID gives
  the record back: with its ID, and its times cut to milliseconds (timestamps below 2^63). \<close>

theorem AddInboxRecord_roundtrip:
  assumes "inbox_inv t" "uint (irTimestamp rec) < 2 ^ 63" "AddInboxRecord None rec t = (t', Inr newID)"
  shows "inbox_inv t' \<and> newID = ibSeq t + 1 \<and> (\<forall>r\<in>set (ibRows t). rowID r < newID)
    \<and> InboxRecords None (noFilter\<lparr>ifAfter := newID - 1\<rparr>) t' =
        Inr [rec\<lparr>irID := newID, irReceivedAt := irReceivedAt rec - irReceivedAt rec mod 1000000,
                 irTime := irTime rec - irTime rec mod 1000000\<rparr>]"
proof -
  have t': "t' = fst (AddInboxRecord None rec t)" "newID = ibSeq t + 1"
    using assms(3) by (auto simp: AddInboxRecord_def Let_def)
  have inv: "inbox_inv t'" using AddInboxRecord_inv [OF assms(1)] t' by simp
  have "\<forall>r\<in>set (ibRows t'). 0 < rowID r" using inv by (simp add: inbox_inv_def)
  then have "filter (matches (noFilter\<lparr>ifAfter := newID - 1\<rparr>)) (ibRows t') = filter (\<lambda>r. ibSeq t < rowID r) (ibRows t')"
    using assms(1) t'(2) by (intro filter_cong) (auto simp: matches_def noFilter_def IsZero_def inbox_inv_def)
  also have "\<dots> = [last (ibRows t')]"
    using filter_above_seq [OF assms(1)] by (simp add: t' AddInboxRecord_def Let_def)
  finally have "InboxRecords None (noFilter\<lparr>ifAfter := newID - 1\<rparr>) t' = Inr [scanInboxRecord (last (ibRows t'))]"
    using InboxRecords_eq [OF inv] by (simp add: noFilter_def)
  moreover have "scanInboxRecord (last (ibRows t')) =
      rec\<lparr>irID := newID, irReceivedAt := irReceivedAt rec - irReceivedAt rec mod 1000000,
          irTime := irTime rec - irTime rec mod 1000000\<rparr>"
    using timestampArg_scan [OF assms(2)]
    by (simp add: t' AddInboxRecord_def Let_def scanInboxRecord_def fromUnixMilli_def UnixMilli_def
        minus_mod_eq_div_mult)
  ultimately show ?thesis
    using inv t'(2) assms(1) by (auto simp: inbox_inv_def)
qed

definition demoRecord :: InboxRecord where
  "demoRecord = \<lparr>irID = 0, irReceivedAt = 5000000, irTime = 7000001, irChat = ''c'', irSender = ''s'',
     irTimestamp = 9, irUnread = True, irEvent = ''e''\<rparr>"

theorem AddInboxRecord_roundtrip_witness:
  "InboxRecords None (noFilter\<lparr>ifAfter := 1 - 1\<rparr>) (fst (AddInboxRecord None demoRecord \<lparr>ibRows = [], ibSeq = 0\<rparr>))
   = Inr [demoRecord\<lparr>irID := 1, irReceivedAt := 5000000, irTime := 7000000\<rparr>]"
proof -
  let ?t = "\<lparr>ibRows = [], ibSeq = 0\<rparr>" and ?t' = "fst (AddInboxRecord None demoRecord \<lparr>ibRows = [], ibSeq = 0\<rparr>)"
  have "inbox_inv ?t" by (simp add: inbox_inv_def)
  moreover have "uint (irTimestamp demoRecord) < 2 ^ 63" by (simp add: demoRecord_def)
  moreover have "AddInboxRecord None demoRecord ?t = (?t', Inr 1)" by (simp add: AddInboxRecord_def Let_def)
  ultimately have "InboxRecords None (noFilter\<lparr>ifAfter := 1 - 1\<rparr>) ?t' =
      Inr [demoRecord\<lparr>irID := 1, irReceivedAt := irReceivedAt demoRecord - irReceivedAt demoRecord mod 1000000,
           irTime := irTime demoRecord - irTime demoRecord mod 1000000\<rparr>]"
    using AddInboxRecord_roundtrip by blast
  then show ?thesis by (simp add: demoRecord_def)
qed

text \<open>C18: Listing returns the records that match every set field of the filter, in strictly increasing
  order of ID: all of them without a limit, otherwise the first ones, or the last ones with \<open>Newest\<close>. \<close>

theorem InboxRecords_spec:
  assumes "inbox_inv t"
  shows "\<exists>rows. InboxRecords None filt t = Inr (map scanInboxRecord rows)
    \<and> sorted_wrt (<) (map rowID rows)
    \<and> (let m = filter (matches filt) (ibRows t) in
       if ifLimit filt \<le> 0 then rows = m
       else if ifNewest filt then rows = drop (length m - nat (ifLimit filt)) m
       else rows = take (nat (ifLimit filt)) m)"
proof -
  let ?m = "filter (matches filt) (ibRows t)"
  have m: "sorted_wrt (<) (map rowID ?m)" by (rule sorted_filter_rows [OF inv_sorted [OF assms]])
  then show ?thesis
    unfolding InboxRecords_eq [OF assms] Let_def
    using strict_sub [OF m] by (intro exI conjI) (rule refl, simp_all)
qed

theorem InboxRecords_spec_witness:
  "\<exists>rows. InboxRecords None (noFilter\<lparr>ifLimit := 5\<rparr>) demoTable = Inr (map scanInboxRecord rows) \<and> length rows = 2"
proof -
  let ?f = "noFilter\<lparr>ifLimit := 5\<rparr>"
  obtain rows where r: "InboxRecords None ?f demoTable = Inr (map scanInboxRecord rows)"
    and l: "let m = filter (matches ?f) (ibRows demoTable) in
       if ifLimit ?f \<le> 0 then rows = m
       else if ifNewest ?f then rows = drop (length m - nat (ifLimit ?f)) m
       else rows = take (nat (ifLimit ?f)) m"
    using InboxRecords_spec [OF demoTable_inv] by blast
  have "length rows = 2" using l by (simp add: noFilter_def matches_def IsZero_def Let_def)
  then show ?thesis using r by blast
qed

lemma MarkInboxRead_D:
  "MarkInboxRead f marks t = (t', r) \<Longrightarrow>
   (if \<forall>i\<le>length marks + 1. f i = None
    then r = Inr (length (filter (\<lambda>x. \<exists>m\<in>set marks. mark_row m x) (ibRows t)))
      \<and> t' = t\<lparr>ibRows := map (\<lambda>x. if \<exists>m\<in>set marks. mark_row m x then x\<lparr>rowUnread := False\<rparr> else x) (ibRows t)\<rparr>
    else t' = t \<and> (\<exists>e. r = Inl e))"
proof (cases "\<forall>i\<le>length marks + 1. f i = None")
  case True
  then have "mark_loop f (Suc 0) marks 0 t =
    (t\<lparr>ibRows := map (\<lambda>x. if \<exists>m\<in>set marks. mark_row m x then x\<lparr>rowUnread := False\<rparr> else x) (ibRows t)\<rparr>,
     Inr (length (filter (\<lambda>x. \<exists>m\<in>set marks. mark_row m x) (ibRows t))))"
    by (subst mark_loop_ok) auto
  then show "MarkInboxRead f marks t = (t', r) \<Longrightarrow> ?thesis"
    using True by (simp add: MarkInboxRead_def DoTxn_def)
next
  case False
  then obtain i where i: "i \<le> length marks + 1" "f i \<noteq> None" by blast
  obtain t1 r1 where m: "mark_loop f (Suc 0) marks 0 t = (t1, r1)" by fastforce
  have "f 0 \<noteq> None \<or> f (Suc (length marks)) \<noteq> None \<or> (\<exists>e. r1 = Inl e)"
  proof (cases "i = 0 \<or> i = Suc (length marks)")
    case False
    then show ?thesis
      using i mark_loop_fault [of "Suc 0" i marks f _ 0 t] m by (auto simp: not_None_eq)
  qed (use i in auto)
  then show "MarkInboxRead f marks t = (t', r) \<Longrightarrow> ?thesis"
    using False by (auto simp: MarkInboxRead_def DoTxn_def m split: option.splits sum.splits)
qed

text \<open>C19: Marking marks exactly the unread records of the messages named, once each however often a
  message is named, and returns their number; any failure leaves the table as it was. \<close>

theorem MarkInboxRead_spec:
  "MarkInboxRead f marks t = (t', r) \<Longrightarrow>
   (if \<forall>i\<le>length marks + 1. f i = None
    then r = Inr (length (filter (\<lambda>x. \<exists>m\<in>set marks. mark_row m x) (ibRows t)))
      \<and> t' = t\<lparr>ibRows := map (\<lambda>x. if \<exists>m\<in>set marks. mark_row m x then x\<lparr>rowUnread := False\<rparr> else x) (ibRows t)\<rparr>
    else t' = t \<and> (\<exists>e. r = Inl e))"
  by (rule MarkInboxRead_D)

theorem MarkInboxRead_spec_witness:
  "snd (MarkInboxRead (\<lambda>_. None) [\<lparr>imSender = ''s'', imTimestamp = 9\<rparr>, \<lparr>imSender = ''s'', imTimestamp = 9\<rparr>] demoTable) = Inr 2"
proof -
  obtain t' r where m: "MarkInboxRead (\<lambda>_. None) [\<lparr>imSender = ''s'', imTimestamp = 9\<rparr>, \<lparr>imSender = ''s'', imTimestamp = 9\<rparr>] demoTable = (t', r)"
    by fastforce
  show ?thesis using MarkInboxRead_spec [OF m] m by simp
qed

text \<open>C20: Pruning keeps exactly the newest \<open>keep\<close> (when positive) of the records received at or after
  \<open>before\<close> (when set), in order, and returns the number of records it removed. \<close>

theorem PruneInbox_spec:
  assumes "inbox_inv t" "PruneInbox None None before keep t = (t', r)"
  shows "(let kept = filter (\<lambda>x. IsZero before \<or> UnixMilli before \<le> rowReceived x) (ibRows t) in
      ibRows t' = (if keep > 0 then drop (length kept - nat keep) kept else kept))
    \<and> r = Inr (length (ibRows t) - length (ibRows t')) \<and> ibSeq t' = ibSeq t"
proof -
  let ?p = "\<lambda>x. IsZero before \<or> UnixMilli before \<le> rowReceived x"
  let ?kept = "filter ?p (ibRows t)"
  have s: "sorted_wrt (<) (map rowID ?kept)" by (rule sorted_filter_rows [OF inv_sorted [OF assms(1)]])
  define t1 where "t1 = t\<lparr>ibRows := ?kept\<rparr>"
  have n: "length (ibRows t) = length ?kept + length (filter (\<lambda>x. \<not> ?p x) (ibRows t))"
    by (rule sum_length_filter_compl [symmetric])
  have one: "(if \<not> IsZero before then (t\<lparr>ibRows := filter (\<lambda>x. \<not> rowReceived x < UnixMilli before) (ibRows t)\<rparr>,
       length (filter (\<lambda>x. rowReceived x < UnixMilli before) (ibRows t))) else (t, 0))
     = (t1, length (ibRows t) - length ?kept)"
    using n by (cases "IsZero before") (simp_all add: t1_def not_less not_le)
  let ?q = "\<lambda>x. case id_at_offset (nat keep) ?kept of None \<Rightarrow> False | Some i \<Rightarrow> rowID x \<le> i"
  have k: "filter (\<lambda>x. \<not> ?q x) ?kept = drop (length ?kept - nat keep) ?kept"
    by (rule keep_newest [OF s])
  have "length ?kept = length (filter ?q ?kept) + length (filter (\<lambda>x. \<not> ?q x) ?kept)"
    by (rule sum_length_filter_compl [symmetric])
  then have kn: "length (filter ?q ?kept) = length ?kept - length (drop (length ?kept - nat keep) ?kept)"
    using k by simp
  have "PruneInbox None None before keep t =
     (if keep > 0 then (t\<lparr>ibRows := drop (length ?kept - nat keep) ?kept\<rparr>,
         Inr (length (ibRows t) - length ?kept + length (filter ?q ?kept)))
      else (t1, Inr (length (ibRows t) - length ?kept)))"
    using one k by (cases "IsZero before") (auto simp: PruneInbox_def delete_rows_def Let_def t1_def)
  then show ?thesis
    using assms(2) kn n by (auto simp: t1_def Let_def split: if_splits)
qed

theorem PruneInbox_spec_witness: "snd (PruneInbox None None time_zero 1 demoTable) = Inr 1"
proof -
  obtain t' r where p: "PruneInbox None None time_zero 1 demoTable = (t', r)" by fastforce
  then show ?thesis using PruneInbox_spec [OF demoTable_inv p] by (simp add: IsZero_def)
qed

text \<open>C21: Whatever operations run, with whatever failures, IDs are never handed out twice: the IDs of the
  successful additions strictly increase and the table's invariant holds at the end. \<close>

theorem inbox_ids_fresh:
  "inbox_inv t \<Longrightarrow> sorted_wrt (<) (added_ids ops t) \<and> (\<forall>i\<in>set (added_ids ops t). ibSeq t < i)
     \<and> inbox_inv (fold inbox_step ops t)"
  using added_ids_increase [of ops t] inbox_ops.run_inv by blast

theorem inbox_ids_fresh_witness:
  "inbox_inv (fold inbox_step [OpAdd None demoRecord, OpPrune None None time_zero 1, OpAdd None demoRecord]
     \<lparr>ibRows = [], ibSeq = 0\<rparr>)"
  by (rule inbox_ids_fresh [THEN conjunct2, THEN conjunct2]) (simp add: inbox_inv_def)

text \<open>C22: The chats are listed once each, the one with the newest record first, each with the number of
  its records and unread records and its newest record; records without a chat are left out. \<close>

theorem InboxChats_spec:
  assumes "inbox_inv t"
  shows "\<exists>cs. InboxChats None t = Inr cs
    \<and> sorted_wrt (>) (map (\<lambda>c. irID (icrLast c)) cs)
    \<and> set (map icrChat cs) = rowChat ` set (ibRows t) - {[]}
    \<and> (\<forall>c\<in>set cs. let rs = filter (\<lambda>r. rowChat r = icrChat c) (ibRows t) in
         icrEntries c = length rs \<and> icrUnread c = length (filter rowUnread rs)
         \<and> icrLast c = scanInboxRecord (last rs))"
proof -
  let ?rows = "ibRows t"
  let ?key = "\<lambda>c. - rowID (lastRow ?rows c)"
  let ?chats = "remdups (filter (\<lambda>c. c \<noteq> []) (map rowChat ?rows))"
  let ?cs = "map (\<lambda>c. scanInboxChat (chat_group ?rows c) (lastRow ?rows c)) (sort_key ?key ?chats)"
  have inj: "inj_on ?key (set ?chats)"
  proof (rule inj_onI)
    fix a b assume ab: "a \<in> set ?chats" "b \<in> set ?chats" "?key a = ?key b"
    then have "lastRow ?rows a \<in> set ?rows" "lastRow ?rows b \<in> set ?rows"
      "rowChat (lastRow ?rows a) = a" "rowChat (lastRow ?rows b) = b"
      using lastRow_in [of _ ?rows] by auto
    moreover have "inj_on rowID (set ?rows)"
      using assms by (simp add: inbox_inv_def strict_sorted_iff distinct_map)
    ultimately show "a = b" using ab(3) by (metis inj_onD neg_equal_iff_equal)
  qed
  have "distinct (map ?key (sort_key ?key ?chats))"
    using inj by (simp add: distinct_map)
  then have "sorted_wrt (<) (map ?key (sort_key ?key ?chats))"
    by (simp add: strict_sorted_iff)
  then have "sorted_wrt (>) (map (\<lambda>c. irID (icrLast c)) ?cs)"
    by (simp add: sorted_wrt_map scanInboxChat_def chat_group_def Let_def)
  moreover have "set (map icrChat ?cs) = rowChat ` set ?rows - {[]}"
    by (auto simp: scanInboxChat_def chat_group_def Let_def)
  moreover have "\<forall>c\<in>set ?cs. let rs = filter (\<lambda>r. rowChat r = icrChat c) ?rows in
         icrEntries c = length rs \<and> icrUnread c = length (filter rowUnread rs)
         \<and> icrLast c = scanInboxRecord (last rs)"
    by (auto simp: scanInboxChat_def chat_group_def Let_def lastRow_def)
  ultimately show ?thesis using InboxChats_eq [OF assms] by blast
qed

theorem InboxChats_spec_witness:
  "\<exists>cs. InboxChats None demoTable = Inr cs \<and> (\<forall>c\<in>set cs. icrChat c = ''c'' \<longrightarrow> icrEntries c = 2)"
proof -
  from InboxChats_spec [OF demoTable_inv] obtain cs where "InboxChats None demoTable = Inr cs"
    "\<forall>c\<in>set cs. icrEntries c = length (filter (\<lambda>r. rowChat r = icrChat c) (ibRows demoTable))"
    by (auto simp: Let_def)
  then show ?thesis by (auto simp: demoRow_def)
qed

text \<open>C23: Reading the inbox page after page, each from the last ID returned, gives every record beyond the
  first cursor exactly once and in order, for every page size. \<close>

theorem inbox_paging_complete:
  assumes "inbox_inv t" "0 \<le> cursor" "0 < n" "length (ibRows t) < fuel"
  shows "read_pages (inbox_page t n) irID fuel cursor = map scanInboxRecord (filter (\<lambda>r. cursor < rowID r) (ibRows t))"
proof -
  have "length (filter (\<lambda>e. cursor < irID e) (map scanInboxRecord (ibRows t))) < fuel"
    using assms(4) by (metis le_less_trans length_filter_le length_map)
  from inbox_log.pages_complete [OF assms(1-3) this] show ?thesis
    by (simp add: filter_map o_def)
qed

theorem inbox_paging_complete_witness:
  "map irID (read_pages (inbox_page demoTable 1) irID 3 0) = [1, 2]"
  using inbox_paging_complete [OF demoTable_inv, of 0 1 3] by simp

end
