(* ===== verification/EventCodec.thy ===== *)
theory EventCodec
  imports SignalTypes
begin

text \<open>
  How events are stored (internal/signal inbox.go): \<open>marshalEvent\<close> tags an event with its type and
  its chat, \<open>unmarshalEvent\<close> gives it back, or an unsupported event for what cannot be decoded.
  The package encoding/json and the texts of errors are the parameter \<open>json_lib\<close>: a Go type to
  decode into, and values to encode. Its hypothesis is that decoding an encoded value into the
  value's own type gives the value back, for the values \<open>S\<close> of interest, also when the encoded value
  was embedded in a stored event as a \<open>json.RawMessage\<close>, whose bytes the encoder may compact. Nothing is
  assumed of bytes that the encoder did not produce.
\<close>

section \<open>Encoding package (parameter)\<close>

record storedFailure =
  sfSender :: Recipient
  sfTimestamp :: u64
  sfErr :: string

datatype payload = PEvent Event | PFailure storedFailure

record storedEvent =
  seType :: string
  seEvent :: bytes
  seChat :: Chat

text \<open>The Go types that \<open>decodeEvent\<close> decodes into.\<close>

datatype goType =
    TPin | TUnpin | TPollVote | TPollClose | TStory | TMessage | TEdit | TDelete | TReaction
  | TTyping | TReceipt | TReadSync | TUnsupported | TIdentityChanged | TFailure

record json_lib =
  jsonMarshal :: "payload \<Rightarrow> bytes res"
  jsonUnmarshal :: "goType \<Rightarrow> bytes \<Rightarrow> payload res"
  jsonMarshalStored :: "storedEvent \<Rightarrow> bytes res"
  jsonUnmarshalStored :: "bytes \<Rightarrow> storedEvent res"
  errorText :: "err \<Rightarrow> string"

section \<open>Storing events (inbox.go)\<close>

definition UnreadableEntry :: string where "UnreadableEntry = ''unreadableInboxEntry''"

definition errText :: "json_lib \<Rightarrow> err option \<Rightarrow> string" where
  "errText J e = (case e of None \<Rightarrow> [] | Some err \<Rightarrow> errorText J err)"

text \<open>The type switch of \<open>marshalEvent\<close>: the tag and what is encoded.\<close>

definition storedType :: "json_lib \<Rightarrow> Event \<Rightarrow> (string \<times> payload) option" where
  "storedType J evt = (case evt of
     EvPin _ \<Rightarrow> Some (''pin'', PEvent evt)
   | EvUnpin _ \<Rightarrow> Some (''unpin'', PEvent evt)
   | EvPollVote _ \<Rightarrow> Some (''pollVote'', PEvent evt)
   | EvPollClose _ \<Rightarrow> Some (''pollClose'', PEvent evt)
   | EvStory _ \<Rightarrow> Some (''story'', PEvent evt)
   | EvMessage _ \<Rightarrow> Some (''message'', PEvent evt)
   | EvEdit _ \<Rightarrow> Some (''edit'', PEvent evt)
   | EvDelete _ \<Rightarrow> Some (''delete'', PEvent evt)
   | EvReaction _ \<Rightarrow> Some (''reaction'', PEvent evt)
   | EvTyping _ \<Rightarrow> Some (''typing'', PEvent evt)
   | EvReceipt _ \<Rightarrow> Some (''receipt'', PEvent evt)
   | EvReadSync _ \<Rightarrow> Some (''readSync'', PEvent evt)
   | EvUnsupported _ \<Rightarrow> Some (''unsupported'', PEvent evt)
   | EvDecryptionFailure f \<Rightarrow> Some (''decryptionFailure'',
       PFailure \<lparr>sfSender = dfSender f, sfTimestamp = dfTimestamp f, sfErr = errText J (dfErr f)\<rparr>)
   | EvIdentityChanged _ \<Rightarrow> Some (''identityChanged'', PEvent evt)
   | EvQueueEmpty \<Rightarrow> None
   | EvConnection _ \<Rightarrow> None)"

definition marshalEvent :: "json_lib \<Rightarrow> Event \<Rightarrow> Chat \<Rightarrow> bytes res" where
  "marshalEvent J evt chat = (case storedType J evt of
     None \<Rightarrow> Inl (Wrap ''marshal'' [Sentinel ErrNotStorable])
   | Some (typ, pay) \<Rightarrow> (case jsonMarshal J pay of
       Inl e \<Rightarrow> Inl (Wrap (''encode '' @ typ) [e])
     | Inr raw \<Rightarrow> (case jsonMarshalStored J \<lparr>seType = typ, seEvent = raw, seChat = chat\<rparr> of
         Inl e \<Rightarrow> Inl (Wrap (''encode '' @ typ) [e])
       | Inr out \<Rightarrow> Inr out)))"

text \<open>The switch of \<open>decodeEvent\<close> on the stored type.\<close>

definition decodeType :: "string \<Rightarrow> goType option" where
  "decodeType typ =
    (if typ = ''pin'' then Some TPin
     else if typ = ''unpin'' then Some TUnpin
     else if typ = ''pollVote'' then Some TPollVote
     else if typ = ''pollClose'' then Some TPollClose
     else if typ = ''story'' then Some TStory
     else if typ = ''message'' then Some TMessage
     else if typ = ''edit'' then Some TEdit
     else if typ = ''delete'' then Some TDelete
     else if typ = ''reaction'' then Some TReaction
     else if typ = ''typing'' then Some TTyping
     else if typ = ''receipt'' then Some TReceipt
     else if typ = ''readSync'' then Some TReadSync
     else if typ = ''unsupported'' then Some TUnsupported
     else if typ = ''identityChanged'' then Some TIdentityChanged
     else if typ = ''decryptionFailure'' then Some TFailure
     else None)"

definition decodeEvent :: "json_lib \<Rightarrow> storedEvent \<Rightarrow> Event res" where
  "decodeEvent J stored = (case decodeType (seType stored) of
     None \<Rightarrow> Inl (Wrap ''stored type'' [Sentinel ErrNotStorable])
   | Some goType \<Rightarrow> (case jsonUnmarshal J goType (seEvent stored) of
       Inl e \<Rightarrow> Inl (Wrap (''decode '' @ seType stored) [e])
     | Inr (PEvent evt) \<Rightarrow> Inr evt
     | Inr (PFailure failure) \<Rightarrow> Inr (EvDecryptionFailure \<lparr>dfSender = sfSender failure,
         dfTimestamp = sfTimestamp failure,
         dfErr = (if sfErr failure \<noteq> [] then Some (Opaque (sfErr failure)) else None)\<rparr>)))"

definition unreadable :: Event where
  "unreadable = EvUnsupported \<lparr>unEnv = \<lparr>eSender = noRecipient, eChat = noChat, eTimestamp = 0,
     eServerTimestamp = 0, eSync = False\<rparr>, unType = UnreadableEntry\<rparr>"

definition unmarshalEvent :: "json_lib \<Rightarrow> bytes \<Rightarrow> Event \<times> Chat" where
  "unmarshalEvent J data = (case jsonUnmarshalStored J data of
     Inl _ \<Rightarrow> (unreadable, noChat)
   | Inr stored \<Rightarrow> (case decodeEvent J stored of
       Inl _ \<Rightarrow> (unreadable, seChat stored)
     | Inr evt \<Rightarrow> (evt, seChat stored)))"

section \<open>Hypotheses on the encoding\<close>

definition payloadType :: "payload \<Rightarrow> goType option" where
  "payloadType p = (case p of
     PFailure _ \<Rightarrow> Some TFailure
   | PEvent evt \<Rightarrow> (case evt of
       EvPin _ \<Rightarrow> Some TPin | EvUnpin _ \<Rightarrow> Some TUnpin | EvPollVote _ \<Rightarrow> Some TPollVote
     | EvPollClose _ \<Rightarrow> Some TPollClose | EvStory _ \<Rightarrow> Some TStory | EvMessage _ \<Rightarrow> Some TMessage
     | EvEdit _ \<Rightarrow> Some TEdit | EvDelete _ \<Rightarrow> Some TDelete | EvReaction _ \<Rightarrow> Some TReaction
     | EvTyping _ \<Rightarrow> Some TTyping | EvReceipt _ \<Rightarrow> Some TReceipt | EvReadSync _ \<Rightarrow> Some TReadSync
     | EvUnsupported _ \<Rightarrow> Some TUnsupported | EvIdentityChanged _ \<Rightarrow> Some TIdentityChanged
     | _ \<Rightarrow> None))"

text \<open>The payloads \<open>S\<close> are encoded and decode, into their own type, to the same value. The envelope
  around the encoding of such a payload, with one of its tags and a chat in \<open>C\<close>, is encoded and decodes
  to the same tag and chat and to bytes that still decode to the payload: \<open>json.RawMessage\<close> embeds
  them without white space, so that they need not be the same bytes.\<close>

definition json_roundtrip :: "json_lib \<Rightarrow> (payload \<Rightarrow> bool) \<Rightarrow> (Chat \<Rightarrow> bool) \<Rightarrow> bool" where
  "json_roundtrip J S C \<longleftrightarrow> (\<forall>p t. S p \<and> payloadType p = Some t \<longrightarrow>
     (\<exists>raw. jsonMarshal J p = Inr raw \<and> jsonUnmarshal J t raw = Inr p
       \<and> (\<forall>tag chat. decodeType tag = Some t \<and> C chat \<longrightarrow>
            (\<exists>out raw'. jsonMarshalStored J \<lparr>seType = tag, seEvent = raw, seChat = chat\<rparr> = Inr out
               \<and> jsonUnmarshalStored J out = Inr \<lparr>seType = tag, seEvent = raw', seChat = chat\<rparr>
               \<and> jsonUnmarshal J t raw' = Inr p))))"

text \<open>What is left of an event after it was stored: an error keeps only its text.\<close>

definition storedForm :: "json_lib \<Rightarrow> Event \<Rightarrow> Event" where
  "storedForm J evt = (case evt of
     EvDecryptionFailure f \<Rightarrow> EvDecryptionFailure (f\<lparr>dfErr :=
       (if errText J (dfErr f) \<noteq> [] then Some (Opaque (errText J (dfErr f))) else None)\<rparr>)
   | _ \<Rightarrow> evt)"

lemma decodeType_tags [simp]:
  "decodeType ''pin'' = Some TPin"
  "decodeType ''unpin'' = Some TUnpin"
  "decodeType ''pollVote'' = Some TPollVote"
  "decodeType ''pollClose'' = Some TPollClose"
  "decodeType ''story'' = Some TStory"
  "decodeType ''message'' = Some TMessage"
  "decodeType ''edit'' = Some TEdit"
  "decodeType ''delete'' = Some TDelete"
  "decodeType ''reaction'' = Some TReaction"
  "decodeType ''typing'' = Some TTyping"
  "decodeType ''receipt'' = Some TReceipt"
  "decodeType ''readSync'' = Some TReadSync"
  "decodeType ''unsupported'' = Some TUnsupported"
  "decodeType ''identityChanged'' = Some TIdentityChanged"
  "decodeType ''decryptionFailure'' = Some TFailure"
  by (simp_all add: decodeType_def)

lemma storedType_decode:
  assumes "storedType J evt = Some (typ, pay)"
  shows "\<exists>t. decodeType typ = Some t \<and> payloadType pay = Some t"
  using assms by (cases evt) (auto simp: storedType_def payloadType_def)

lemma storedType_form:
  assumes "storedType J evt = Some (typ, pay)"
  shows "(case pay of PEvent e \<Rightarrow> e | PFailure f \<Rightarrow> EvDecryptionFailure \<lparr>dfSender = sfSender f, dfTimestamp = sfTimestamp f,
         dfErr = (if sfErr f \<noteq> [] then Some (Opaque (sfErr f)) else None)\<rparr>) = storedForm J evt"
  using assms by (cases evt) (auto simp: storedType_def storedForm_def)

lemma marshal_roundtrip:
  assumes "json_roundtrip J S C" "C chat" "storedType J evt = Some (typ, pay)" "S pay"
  shows "\<exists>data. marshalEvent J evt chat = Inr data \<and> unmarshalEvent J data = (storedForm J evt, chat)"
proof -
  obtain t where t: "decodeType typ = Some t" "payloadType pay = Some t"
    using storedType_decode [OF assms(3)] by blast
  obtain raw out raw' where J: "jsonMarshal J pay = Inr raw"
    "jsonMarshalStored J \<lparr>seType = typ, seEvent = raw, seChat = chat\<rparr> = Inr out"
    "jsonUnmarshalStored J out = Inr \<lparr>seType = typ, seEvent = raw', seChat = chat\<rparr>"
    "jsonUnmarshal J t raw' = Inr pay"
    using assms(1,2,4) t unfolding json_roundtrip_def by meson
  have "decodeEvent J \<lparr>seType = typ, seEvent = raw', seChat = chat\<rparr> = Inr (storedForm J evt)"
    using t(1) J(4) storedType_form [OF assms(3)] by (auto simp: decodeEvent_def split: payload.splits)
  then show ?thesis
    using assms(3) J by (simp add: marshalEvent_def unmarshalEvent_def)
qed

section \<open>An instance of the hypotheses\<close>

text \<open>One encoding that keeps its values: a poll closure as its timestamps in decimal digits.\<close>

definition demoClose :: "nat \<Rightarrow> Event" where
  "demoClose n = EvPollClose \<lparr>pcEnv = \<lparr>eSender = noRecipient, eChat = noChat, eTimestamp = of_nat n,
     eServerTimestamp = 0, eSync = False\<rparr>, pcClose = \<lparr>clTargetTimestamp = of_nat n\<rparr>\<rparr>"

definition demoJSON :: json_lib where
  "demoJSON = \<lparr>jsonMarshal = (\<lambda>p. case p of
       PEvent (EvPollClose c) \<Rightarrow> Inr (FormatNat (unat (eTimestamp (pcEnv c)))) | _ \<Rightarrow> Inl (Opaque [])),
     jsonUnmarshal = (\<lambda>t s. case ParseUint 64 s of Some n \<Rightarrow> Inr (PEvent (demoClose n)) | None \<Rightarrow> Inl (Opaque [])),
     jsonMarshalStored = (\<lambda>s. Inr (replicate (length (seType s)) (CHR ''x'') @ CHR '':'' # seType s @ seEvent s)),
     jsonUnmarshalStored = (\<lambda>s. let n = length (takeWhile (\<lambda>c. c = CHR ''x'') s) in
       Inr \<lparr>seType = take n (drop (Suc n) s), seEvent = drop n (drop (Suc n) s), seChat = noChat\<rparr>),
     errorText = (\<lambda>_. [])\<rparr>"

section \<open>Properties\<close>

lemma demoJSON_ok: "json_roundtrip demoJSON (\<lambda>p. p = PEvent (demoClose 7)) (\<lambda>c. c = noChat)"
proof -
  have p: "ParseUint 64 (FormatNat 7) = Some 7" by (rule ParseUint_Format) simp
  have "takeWhile (\<lambda>c. c = CHR ''x'') (replicate n (CHR ''x'') @ CHR '':'' # r) = replicate n (CHR ''x'')" for n r
    by (induction n) simp_all
  with p show ?thesis
    by (simp add: json_roundtrip_def demoJSON_def demoClose_def Let_def)
qed

lemma storedType_None: "storedType J evt = None \<longleftrightarrow> evt = EvQueueEmpty \<or> (\<exists>c. evt = EvConnection c)"
  by (cases evt) (simp_all add: storedType_def)

text \<open>C24: An event is stored unless it is the end of the queue or a connection change (then the error is
  ErrNotStorable), and what was stored is given back with its chat, given that the encoding keeps the
  event's payload, alone and embedded in the stored event; only the error of a decryption failure is
  reduced to its text. \<close>

theorem marshalEvent_roundtrip:
  assumes "json_roundtrip J S C" "C chat" "\<And>typ pay. storedType J evt = Some (typ, pay) \<Longrightarrow> S pay"
  shows "if evt = EvQueueEmpty \<or> (\<exists>c. evt = EvConnection c)
     then \<exists>e. marshalEvent J evt chat = Inl e \<and> errors_Is e ErrNotStorable
     else \<exists>data. marshalEvent J evt chat = Inr data \<and> unmarshalEvent J data = (storedForm J evt, chat)"
proof (cases "storedType J evt")
  case None
  then show ?thesis using storedType_None [of J evt] by (simp add: marshalEvent_def)
next
  case (Some tp)
  obtain tag pay where tp: "tp = (tag, pay)" by fastforce
  then have "S pay" using assms(3) Some by blast
  then show ?thesis
    using marshal_roundtrip [OF assms(1,2)] Some tp storedType_None [of J evt] by auto
qed

theorem marshalEvent_roundtrip_witness:
  "\<exists>data. marshalEvent demoJSON (demoClose 7) noChat = Inr data \<and> unmarshalEvent demoJSON data = (demoClose 7, noChat)"
proof -
  let ?S = "\<lambda>p. p = PEvent (demoClose 7)" and ?C = "\<lambda>c. c = noChat"
  note demoJSON_ok
  moreover have "storedType demoJSON (demoClose 7) = Some (typ', pay) \<Longrightarrow> pay = PEvent (demoClose 7)" for typ' pay
    by (simp add: storedType_def demoClose_def)
  ultimately show ?thesis
    using marshalEvent_roundtrip [of demoJSON ?S ?C noChat "demoClose 7"]
    by (simp add: demoClose_def storedForm_def)
qed

end
