(* ===== verification/SendChecks.thy ===== *)
theory SendChecks
  imports SignalTypes
begin

text \<open>
  The checks a request passes before it is sent (internal/signal send.go, styles.go, poll\_check.go,
  pin\_check.go, stories\_send.go and sticker.go). \<open>SendRequest_Check\<close> is the dispatch of
  \<open>SendRequest.Check\<close>; the facts say that accepted styles cover whole characters, that the
  standalone kinds of content exclude each other, and what an accepted poll, pin or story is.
\<close>

section \<open>Text styles (styles.go)\<close>

definition Style_valid :: "string \<Rightarrow> bool" where
  "Style_valid style \<longleftrightarrow> style = ''bold'' \<or> style = ''italic'' \<or> style = ''spoiler''
     \<or> style = ''strikethrough'' \<or> style = ''monospace''"

text \<open>The keys that the range loop over the body adds to the map of boundaries, after key 0.\<close>

fun style_boundaries :: "u64 \<Rightarrow> nat list \<Rightarrow> u64 list" where
  "style_boundaries units [] = []"
| "style_boundaries units (char # rest) =
     (let units' = units + word_of_int (utf16_RuneLen char)
      in units' # style_boundaries units' rest)"

fun check_style_list :: "u64 list \<Rightarrow> TextStyle list \<Rightarrow> err option" where
  "check_style_list boundaries [] = None"
| "check_style_list boundaries (style # styles) =
    (if \<not> Style_valid (tsStyle style) then Some (Wrap ''unsupported style'' [Sentinel ErrInvalidStyle])
     else let stop = ucast (tsStart style) + ucast (tsLength style) :: u64 in
       if tsLength style = 0 \<or> ucast (tsStart style) \<notin> set boundaries \<or> stop \<notin> set boundaries
       then Some (Wrap ''must cover complete characters within the body'' [Sentinel ErrInvalidStyle])
       else check_style_list boundaries styles)"

definition CheckTextStyles :: "string \<Rightarrow> TextStyle list \<Rightarrow> err option" where
  "CheckTextStyles body styles =
    (if styles = [] then None
     else if \<not> ValidString body
       then Some (Wrap ''body must be valid UTF-8'' [Sentinel ErrInvalidStyle])
     else check_style_list (0 # style_boundaries 0 (runes body)) styles)"

section \<open>Polls (poll\_check.go)\<close>

definition pollTextLimit :: nat where "pollTextLimit = 100"
definition pollIncomingQuestionLimit :: nat where "pollIncomingQuestionLimit = 200"
definition pollMaxOptions :: nat where "pollMaxOptions = 10"
definition pollMinOptions :: nat where "pollMinOptions = 2"
definition pollGroupIDSize :: nat where "pollGroupIDSize = 32"

definition pollText :: "string \<Rightarrow> nat \<Rightarrow> bool" where
  "pollText txt limit \<longleftrightarrow> ValidString txt \<and> TrimSpace txt \<noteq> [] \<and> utf16_EncodeLen (runes txt) \<le> limit"

fun check_poll_options :: "string list \<Rightarrow> err option" where
  "check_poll_options [] = None"
| "check_poll_options (opt # opts) =
    (if \<not> pollText opt pollTextLimit then Some (Sentinel ErrInvalidPoll) else check_poll_options opts)"

definition Poll_check :: "Poll \<Rightarrow> nat \<Rightarrow> err option" where
  "Poll_check p questionLimit =
    (if \<not> pollText (pQuestion p) questionLimit \<or> length (pOptions p) < pollMinOptions
        \<or> length (pOptions p) > pollMaxOptions
     then Some (Sentinel ErrInvalidPoll) else check_poll_options (pOptions p))"

definition Poll_Check :: "Poll \<Rightarrow> err option" where
  "Poll_Check p = Poll_check p pollTextLimit"

fun check_indexes :: "u32 list \<Rightarrow> u32 list \<Rightarrow> err option" where
  "check_indexes seen [] = None"
| "check_indexes seen (index # rest) =
    (if unat index \<ge> pollMaxOptions \<or> index \<in> set seen then Some (Sentinel ErrInvalidPoll)
     else check_indexes (index # seen) rest)"

definition PollVote_check :: "uuid_lib \<Rightarrow> OutgoingPollVote \<Rightarrow> err option" where
  "PollVote_check U v = (case uuid_Parse U (rACI (vTargetAuthor v)) of
     None \<Rightarrow> Some (Sentinel ErrInvalidPoll)
   | Some uid \<Rightarrow> if uid = uuid_Nil \<or> vTargetTimestamp v = 0 then Some (Sentinel ErrInvalidPoll)
                else check_indexes [] (vOptionIndexes v))"

definition PollVote_Check :: "uuid_lib \<Rightarrow> OutgoingPollVote \<Rightarrow> err option" where
  "PollVote_Check U v =
    (if vVoteCount v = 0 then Some (Sentinel ErrInvalidPoll) else PollVote_check U v)"

definition PollClose_Check :: "OutgoingPollClose \<Rightarrow> err option" where
  "PollClose_Check p = (if clTargetTimestamp p = 0 then Some (Sentinel ErrInvalidPoll) else None)"

definition hasContent :: "SendRequest \<Rightarrow> bool" where
  "hasContent req \<longleftrightarrow> sqBody req \<noteq> [] \<or> sqAttachments req \<noteq> [] \<or> sqQuote req \<noteq> None
     \<or> sqMentions req \<noteq> [] \<or> sqStyles req \<noteq> []"

definition hasPoll :: "SendRequest \<Rightarrow> bool" where
  "hasPoll req \<longleftrightarrow> sqPollCreate req \<noteq> None \<or> sqPollVote req \<noteq> None \<or> sqPollClose req \<noteq> None"

definition pollHasContent :: "SendRequest \<Rightarrow> bool" where
  "pollHasContent req \<longleftrightarrow> hasContent req \<or> sqSticker req \<noteq> None \<or> sqReaction req \<noteq> None
     \<or> sqDeleteTarget req \<noteq> 0 \<or> sqEditTarget req \<noteq> 0"

definition validPollGroup :: "string \<Rightarrow> bool" where
  "validPollGroup groupID = (case StdDecode groupID of
     None \<Rightarrow> False | Some raw \<Rightarrow> length raw = pollGroupIDSize \<and> StdEncode raw = groupID)"

definition validPollChat :: "uuid_lib \<Rightarrow> SendRequest \<Rightarrow> bool" where
  "validPollChat U req =
    (if sqGroupID req \<noteq> [] then sqRecipients req = [] \<and> validPollGroup (sqGroupID req)
     else case sqRecipients req of
       [r] \<Rightarrow> (case uuid_Parse U (rACI r) of
                None \<Rightarrow> False
              | Some uid \<Rightarrow> uid \<noteq> uuid_Nil \<and> uuid_String U uid = rACI r)
     | _ \<Rightarrow> False)"

definition present :: "'a option \<Rightarrow> nat" where
  "present x = (case x of None \<Rightarrow> 0 | Some _ \<Rightarrow> 1)"

definition checkPoll :: "uuid_lib \<Rightarrow> SendRequest \<Rightarrow> err option" where
  "checkPoll U req =
    (if \<not> validPollChat U req \<or> pollHasContent req then Some (Sentinel ErrInvalidPoll)
     else let count = present (sqPollCreate req) + present (sqPollVote req) + present (sqPollClose req) in
       if count \<noteq> 1 then Some (Sentinel ErrInvalidPoll)
       else case sqPollCreate req of
         Some p \<Rightarrow> Poll_Check p
       | None \<Rightarrow> (case sqPollVote req of
           Some v \<Rightarrow> PollVote_Check U v
         | None \<Rightarrow> (case sqPollClose req of
             Some c \<Rightarrow> PollClose_Check c
           | None \<Rightarrow> Some (Sentinel ErrInvalidPoll))))"

section \<open>Pins (pin\_check.go)\<close>

definition Unpin_Check :: "uuid_lib \<Rightarrow> OutgoingUnpin \<Rightarrow> err option" where
  "Unpin_Check U p = (case uuid_Parse U (rACI (unpinTargetAuthor p)) of
     None \<Rightarrow> Some (Sentinel ErrInvalidPin)
   | Some aci \<Rightarrow> if aci = uuid_Nil \<or> unpinTargetTimestamp p = 0 then Some (Sentinel ErrInvalidPin)
                else None)"

definition Pin_Check :: "uuid_lib \<Rightarrow> OutgoingPin \<Rightarrow> err option" where
  "Pin_Check U p =
    (if (pinDurationSeconds p > 0) = pinForever p then Some (Sentinel ErrInvalidPin)
     else Unpin_Check U \<lparr>unpinTargetAuthor = pinTargetAuthor p,
                          unpinTargetTimestamp = pinTargetTimestamp p\<rparr>)"

definition hasPin :: "SendRequest \<Rightarrow> bool" where
  "hasPin req \<longleftrightarrow> sqPin req \<noteq> None \<or> sqUnpin req \<noteq> None"

text \<open>The call on a nil unpin cannot happen: the dispatch calls this only when \<open>hasPin\<close>.\<close>

definition checkPin :: "uuid_lib \<Rightarrow> SendRequest \<Rightarrow> err option" where
  "checkPin U req =
    (if (sqPin req \<noteq> None \<and> sqUnpin req \<noteq> None) \<or> pollHasContent req \<or> hasPoll req
     then Some (Sentinel ErrInvalidPin)
     else case sqPin req of
       Some p \<Rightarrow> Pin_Check U p
     | None \<Rightarrow> (case sqUnpin req of Some u \<Rightarrow> Unpin_Check U u | None \<Rightarrow> Some (Sentinel ErrInvalidPin)))"

section \<open>Stickers (sticker.go)\<close>

definition StickerReference_Check :: "StickerReference \<Rightarrow> err option" where
  "StickerReference_Check ref =
    (if length (srPackID ref) \<noteq> 32 \<or> length (srPackKey ref) \<noteq> 32 \<or> ToLower (srPackID ref) \<noteq> srPackID ref
     then Some (Sentinel ErrInvalidSticker)
     else case HexDecode (srPackID ref) of None \<Rightarrow> Some (Sentinel ErrInvalidSticker) | Some _ \<Rightarrow> None)"

definition checkSticker :: "SendRequest \<Rightarrow> OutgoingSticker \<Rightarrow> err option" where
  "checkSticker req sticker =
    (if hasContent req \<or> sqReaction req \<noteq> None \<or> sqDeleteTarget req \<noteq> 0 \<or> sqEditTarget req \<noteq> 0
     then Some (Sentinel ErrInvalidSticker) else StickerReference_Check (osReference sticker))"

section \<open>Stories (stories\_send.go)\<close>

definition StoryMediaType :: "string \<Rightarrow> bool" where
  "StoryMediaType contentType \<longleftrightarrow> HasPrefix contentType ''image/'' \<or> HasPrefix contentType ''video/''"

definition storyRecipient :: "uuid_lib \<Rightarrow> Recipient \<Rightarrow> bool" where
  "storyRecipient U r = (case uuid_Parse U (rACI r) of
     None \<Rightarrow> False
   | Some aci \<Rightarrow> aci \<noteq> uuid_Nil \<and> uuid_String U aci = rACI r \<and> rPNI r = [])"

definition privateStoryAudience :: "uuid_lib \<Rightarrow> SendRequest \<Rightarrow> OutgoingStory \<Rightarrow> bool" where
  "privateStoryAudience U req story = (case uuid_Parse U (oyDistributionListID story) of
     None \<Rightarrow> False
   | Some uid \<Rightarrow> if uuid_String U uid \<noteq> oyDistributionListID story \<or> sqGroupID req \<noteq> []
                   \<or> sqRecipients req = [] then False
                else list_all (storyRecipient U) (sqRecipients req))"

definition storyAudience :: "uuid_lib \<Rightarrow> SendRequest \<Rightarrow> OutgoingStory \<Rightarrow> bool" where
  "storyAudience U req story =
    (if oyDistributionListID story \<noteq> [] then privateStoryAudience U req story
     else case StdDecode (sqGroupID req) of
       None \<Rightarrow> False
     | Some gid \<Rightarrow> length gid = 32 \<and> StdEncode gid = sqGroupID req \<and> sqRecipients req = [])"

definition storyOnly :: "SendRequest \<Rightarrow> bool" where
  "storyOnly req \<longleftrightarrow> \<not> hasContent req \<and> sqSticker req = None \<and> \<not> hasPoll req \<and> \<not> hasPin req
     \<and> sqReaction req = None \<and> sqDeleteTarget req = 0 \<and> sqEditTarget req = 0"

definition Story_check :: "OutgoingStory \<Rightarrow> err option" where
  "Story_check story = (case oyFile story of
     None \<Rightarrow> if TrimSpace (oyText story) = [] then Some (Sentinel ErrInvalidStory) else None
   | Some file \<Rightarrow> if oyText story \<noteq> [] \<or> uaID file = [] \<or> \<not> StoryMediaType (uaContentType file)
                 then Some (Sentinel ErrInvalidStory) else None)"

definition checkStory :: "uuid_lib \<Rightarrow> SendRequest \<Rightarrow> OutgoingStory \<Rightarrow> err option" where
  "checkStory U req story =
    (if \<not> storyAudience U req story \<or> \<not> storyOnly req then Some (Sentinel ErrInvalidStory)
     else Story_check story)"

section \<open>The dispatch (send.go)\<close>

definition checkEdit :: "SendRequest \<Rightarrow> err option" where
  "checkEdit req =
    (if sqReaction req \<noteq> None \<or> sqDeleteTarget req \<noteq> 0 \<or> TrimSpace (sqBody req) = []
     then Some (Wrap ''edit'' [Sentinel ErrInvalidContent])
     else if sqTimestamp req \<noteq> 0 \<and> sqEditTarget req \<ge> sqTimestamp req
     then Some (Wrap ''edit'' [Sentinel ErrInvalidContent])
     else None)"

definition checkReaction :: "SendRequest \<Rightarrow> OutgoingReaction \<Rightarrow> err option" where
  "checkReaction req reaction =
    (if hasContent req \<or> sqDeleteTarget req \<noteq> 0 then Some (Wrap ''reaction'' [Sentinel ErrInvalidContent])
     else if orEmoji reaction = [] then Some (Wrap ''reaction'' [Sentinel ErrInvalidContent])
     else if orTargetTimestamp reaction = 0 then Some (Wrap ''reaction'' [Sentinel ErrInvalidContent])
     else if rACI (orTargetAuthor reaction) = []
       then Some (Wrap ''reaction target author'' [Sentinel ErrUnresolvable])
     else None)"

definition SendRequest_Check :: "uuid_lib \<Rightarrow> SendRequest \<Rightarrow> err option" where
  "SendRequest_Check U req = (case sqStory req of
     Some story \<Rightarrow> checkStory U req story
   | None \<Rightarrow>
     if (sqGroupID req = []) = (sqRecipients req = []) then Some (Sentinel ErrInvalidSendRequest)
     else case CheckTextStyles (sqBody req) (sqStyles req) of
       Some e \<Rightarrow> Some e
     | None \<Rightarrow>
       if hasPin req then checkPin U req
       else if hasPoll req then checkPoll U req
       else case sqSticker req of
         Some sticker \<Rightarrow> checkSticker req sticker
       | None \<Rightarrow>
         if sqEditTarget req \<noteq> 0 then checkEdit req
         else case sqReaction req of
           Some reaction \<Rightarrow> checkReaction req reaction
         | None \<Rightarrow>
           if sqDeleteTarget req \<noteq> 0 \<and> hasContent req
           then Some (Wrap ''remote delete'' [Sentinel ErrInvalidContent]) else None)"

section \<open>Styles cover whole characters\<close>

lemma concat_take_segments: "\<exists>k. concat (map snd (take m (segments t))) = take k t"
proof -
  have "concat (map snd (take m (segments t))) @ concat (map snd (drop m (segments t))) = t"
    by (metis append_take_drop_id concat_append concat_segments map_append)
  then show ?thesis by (metis append_eq_conv_conj)
qed

lemma segments_take: "segments (concat (map snd (take n (segments s)))) = take n (segments s)"
proof (induction s arbitrary: n rule: segments.induct)
  case (2 c s)
  obtain r w where rw: "decode_rune c s = (r, w)" by fastforce
  show ?case
  proof (cases n)
    case (Suc m)
    obtain k where k: "concat (map snd (take m (segments (drop (w - 1) s)))) = take k (drop (w - 1) s)"
      using concat_take_segments by blast
    have w: "w - 1 \<le> length s" using decode_rune_width [OF rw] by simp
    have "segments (c # take (w - 1) s @ take k (drop (w - 1) s))
        = (r, c # take (w - 1) s) # segments (take k (drop (w - 1) s))"
      using decode_rune_take [OF rw, of k] w by simp
    then show ?thesis using 2 [OF refl, of r w m] rw Suc k by simp
  qed simp
qed simp

text \<open>The number of UTF-16 code units of a text.\<close>

definition utf16_len :: "string \<Rightarrow> nat" where
  "utf16_len s = utf16_EncodeLen (runes s)"

lemma utf16_EncodeLen_append [simp]:
  "utf16_EncodeLen (a @ b) = utf16_EncodeLen a + utf16_EncodeLen b"
  by (simp add: utf16_EncodeLen_def)

lemma utf16_EncodeLen_Cons [simp]:
  "utf16_EncodeLen (r # b) = (if utf16_RuneLen r = 2 then 2 else 1) + utf16_EncodeLen b"
  by (simp add: utf16_EncodeLen_def)

lemma utf16_EncodeLen_Nil [simp]: "utf16_EncodeLen [] = 0"
  by (simp add: utf16_EncodeLen_def)

lemma utf16_EncodeLen_0 [simp]: "utf16_EncodeLen rs = 0 \<longleftrightarrow> rs = []"
  by (cases rs) auto

lemma utf16_len_bound: "utf16_len s \<le> length s * 2"
proof -
  have "length (segments s) \<le> length s"
  proof (induction s rule: segments.induct)
    case (2 c s)
    then show ?case by (cases "decode_rune c s") (fastforce intro: le_trans)
  qed simp
  moreover have "utf16_EncodeLen rs \<le> length rs * 2" for rs
    by (induction rs) auto
  ultimately show ?thesis
    unfolding utf16_len_def runes_def by (metis length_map mult_le_mono1 order_trans)
qed

lemma style_boundaries_offsets:
  assumes "\<forall>r\<in>set rs. scalar r"
  shows "set (units # style_boundaries units rs)
       = (\<lambda>n. units + of_nat (utf16_EncodeLen (take n rs))) ` {..length rs}"
  using assms
proof (induction rs arbitrary: units)
  case (Cons r rs)
  let ?l = "if utf16_RuneLen r = 2 then 2 else 1 :: nat"
  have l: "word_of_int (utf16_RuneLen r) = (of_nat ?l :: u64)"
    using Cons.prems by (simp add: utf16_RuneLen_scalar)
  have "set (units # style_boundaries units (r # rs))
      = {units} \<union> (\<lambda>n. (units + of_nat ?l) + of_nat (utf16_EncodeLen (take n rs))) ` {..length rs}"
    using Cons.IH [of "units + of_nat ?l"] Cons.prems by (simp add: l Let_def)
  also have "\<dots> = (\<lambda>n. units + of_nat (utf16_EncodeLen (take n (r # rs)))) ` {..length (r # rs)}"
  proof -
    have "{..length (r # rs)} = insert 0 (Suc ` {..length rs})"
      by (simp add: lessThan_Suc_atMost [symmetric] lessThan_Suc_eq_insert_0 del: lessThan_Suc image_Suc_atMost)
    then show ?thesis by (simp add: image_image add.assoc del: image_Suc_atMost)
  qed
  finally show ?case .
qed simp

lemma ValidString_append:
  assumes "ValidString b"
  shows "segments (a @ b) = segments a @ segments b"
proof (rule segments_append, cases b)
  case (Cons c t)
  show "b = [] \<or> RuneStart (hd b)"
  proof (rule ccontr)
    assume "\<not> (b = [] \<or> RuneStart (hd b))"
    then have "decode_rune c t = (runeError, 1)"
      by (auto simp: Cons RuneStart_def decode_rune_def)
    then show False using assms by (simp add: Cons ValidString_def)
  qed
qed simp

text \<open>What an accepted style range is: a non-empty run of complete characters of the body.\<close>

definition covers_characters :: "string \<Rightarrow> nat \<Rightarrow> nat \<Rightarrow> bool" where
  "covers_characters body start len \<longleftrightarrow>
     (\<exists>pre mid post. body = pre @ mid @ post \<and> mid \<noteq> [] \<and> ValidString pre \<and> ValidString mid
        \<and> ValidString post \<and> utf16_len pre = start \<and> utf16_len mid = len)"

lemma ValidString_parts:
  assumes "ValidString s"
  shows "ValidString (concat (map snd (take n (segments s))))"
    "ValidString (concat (map snd (drop n (segments s))))"
  using assms unfolding ValidString_def segments_take segments_drop
  by (auto simp: list_all_iff dest: in_set_takeD in_set_dropD)

lemma take_EncodeLen_mono:
  "utf16_EncodeLen (take i rs) < utf16_EncodeLen (take j rs) \<Longrightarrow> i < j"
  by (metis add_leD1 le_iff_add linorder_not_le not_less_iff_gr_or_eq take_add utf16_EncodeLen_append)

lemma runes_take: "runes (concat (map snd (take n (segments s)))) = take n (runes s)"
  by (simp add: runes_def segments_take take_map)

lemma runes_drop: "runes (concat (map snd (drop n (segments s)))) = drop n (runes s)"
  by (simp add: runes_def segments_drop drop_map)

lemma offsets_cover:
  assumes v: "ValidString body" and l: "0 < len"
  shows "(\<exists>i. utf16_EncodeLen (take i (runes body)) = start)
      \<and> (\<exists>j. utf16_EncodeLen (take j (runes body)) = start + len)
      \<longleftrightarrow> covers_characters body start len"
proof
  assume "(\<exists>i. utf16_EncodeLen (take i (runes body)) = start)
      \<and> (\<exists>j. utf16_EncodeLen (take j (runes body)) = start + len)"
  then obtain i j where i: "utf16_EncodeLen (take i (runes body)) = start"
    and j: "utf16_EncodeLen (take j (runes body)) = start + len" by blast
  then have "i < j" using l take_EncodeLen_mono [of i "runes body" j] by simp
  then obtain k where k: "j = i + k" using less_imp_add_positive by blast
  let ?tail = "concat (map snd (drop i (segments body)))"
  let ?pre = "concat (map snd (take i (segments body)))"
  let ?mid = "concat (map snd (take k (segments ?tail)))"
  let ?post = "concat (map snd (drop k (segments ?tail)))"
  have "body = ?pre @ ?tail" by (metis append_take_drop_id concat_append concat_segments map_append)
  moreover have "?tail = ?mid @ ?post"
    by (metis append_take_drop_id concat_append concat_segments map_append)
  moreover have "utf16_len ?pre = start" by (simp add: utf16_len_def runes_take i)
  moreover have mid: "utf16_len ?mid = len"
    using i j by (simp add: utf16_len_def runes_take runes_drop k take_add)
  moreover have "?mid \<noteq> []"
    using l mid by (metis less_numeral_extra(3) utf16_EncodeLen_0 utf16_len_def runes_Nil)
  ultimately show "covers_characters body start len"
    unfolding covers_characters_def using ValidString_parts v by metis
next
  assume "covers_characters body start len"
  then obtain pre mid post where b: "body = pre @ mid @ post" and
    vs: "ValidString pre" "ValidString mid" "ValidString post" and
    u: "utf16_len pre = start" "utf16_len mid = len"
    unfolding covers_characters_def by blast
  have "ValidString (mid @ post)"
    using vs ValidString_append [of post mid] by (simp add: ValidString_def)
  then have r: "runes body = runes pre @ runes mid @ runes post"
    using vs by (simp add: b runes_def ValidString_append)
  have "utf16_EncodeLen (take (length (runes pre)) (runes body)) = start"
    using u by (simp add: r utf16_len_def)
  moreover have "utf16_EncodeLen (take (length (runes pre) + length (runes mid)) (runes body)) = start + len"
    using u by (simp add: r utf16_len_def)
  ultimately show "(\<exists>i. utf16_EncodeLen (take i (runes body)) = start)
      \<and> (\<exists>j. utf16_EncodeLen (take j (runes body)) = start + len)" by blast
qed

lemma boundary_iff:
  assumes "length body < 2 ^ 63" "m < 2 ^ 64"
  shows "(of_nat m :: u64) \<in> set (0 # style_boundaries 0 (runes body))
     \<longleftrightarrow> (\<exists>i. utf16_EncodeLen (take i (runes body)) = m)" (is "?l \<longleftrightarrow> ?r")
proof -
  have sc: "\<forall>r\<in>set (runes body). scalar r"
    by (auto simp: runes_def dest: segments_scalar)
  have eq: "(of_nat m :: u64) = of_nat (utf16_EncodeLen (take i (runes body)))
      \<longleftrightarrow> utf16_EncodeLen (take i (runes body)) = m" for i
  proof -
    have "utf16_EncodeLen (take i (runes body)) \<le> utf16_len body"
      unfolding utf16_len_def by (metis append_take_drop_id le_add1 utf16_EncodeLen_append)
    then have "utf16_EncodeLen (take i (runes body)) < 2 ^ 64"
      using utf16_len_bound [of body] assms(1) by simp
    then show ?thesis using assms(2) by (auto simp: word_of_nat_eq_iff take_bit_nat_eq_self)
  qed
  have "?l \<longleftrightarrow> (\<exists>i\<le>length (runes body). utf16_EncodeLen (take i (runes body)) = m)"
    unfolding style_boundaries_offsets [OF sc] image_iff by (simp add: eq Bex_def)
  also have "\<dots> \<longleftrightarrow> ?r"
    by (metis nat_le_linear order_refl take_all_iff)
  finally show ?thesis .
qed

lemma check_style_list_Cons:
  "check_style_list bs (st # styles) = None \<longleftrightarrow> Style_valid (tsStyle st)
     \<and> (tsLength st \<noteq> 0 \<and> ucast (tsStart st) \<in> set bs \<and> ucast (tsStart st) + ucast (tsLength st) \<in> set bs)
     \<and> check_style_list bs styles = None"
  by (auto simp: Let_def)

lemma check_style_list_iff:
  assumes "length body < 2 ^ 63" "ValidString body"
  shows "check_style_list (0 # style_boundaries 0 (runes body)) styles = None \<longleftrightarrow>
    (\<forall>st\<in>set styles. Style_valid (tsStyle st)
       \<and> covers_characters body (unat (tsStart st)) (unat (tsLength st)))"
proof (induction styles)
  case (Cons st styles)
  let ?b = "set (0 # style_boundaries 0 (runes body))"
  have st: "(ucast (tsStart st) :: u64) = of_nat (unat (tsStart st))" by simp
  have sp: "(ucast (tsStart st) + ucast (tsLength st) :: u64)
      = of_nat (unat (tsStart st) + unat (tsLength st))" by simp
  have b: "unat (tsStart st) < 2 ^ 32" "unat (tsLength st) < 2 ^ 32"
    using unsigned_less [of "tsStart st"] unsigned_less [of "tsLength st"] by simp_all
  have c: "tsLength st \<noteq> 0 \<and> ucast (tsStart st) \<in> ?b \<and> ucast (tsStart st) + ucast (tsLength st) \<in> ?b
     \<longleftrightarrow> covers_characters body (unat (tsStart st)) (unat (tsLength st))"
  proof (cases "tsLength st = 0")
    case True
    have "utf16_len mid = 0 \<Longrightarrow> mid = []" for mid
      by (simp add: utf16_len_def runes_def)
    then show ?thesis using True by (auto simp: covers_characters_def)
  next
    case False
    then have l: "0 < unat (tsLength st)" by (simp add: unat_gt_0)
    have "ucast (tsStart st) \<in> ?b \<longleftrightarrow> (\<exists>i. utf16_EncodeLen (take i (runes body)) = unat (tsStart st))"
      using b boundary_iff [OF assms(1), of "unat (tsStart st)"] unfolding st by simp
    moreover have "ucast (tsStart st) + ucast (tsLength st) \<in> ?b
        \<longleftrightarrow> (\<exists>i. utf16_EncodeLen (take i (runes body)) = unat (tsStart st) + unat (tsLength st))"
      unfolding sp using b by (intro boundary_iff [OF assms(1)]) simp
    ultimately show ?thesis
      using False offsets_cover [OF assms(2) l, of "unat (tsStart st)"] by (simp only: simp_thms)
  qed
  with Cons show ?case by (simp only: check_style_list_Cons) simp
qed simp

section \<open>Accepted polls\<close>

lemma check_poll_options_iff:
  "check_poll_options opts = None \<longleftrightarrow> (\<forall>opt\<in>set opts. pollText opt pollTextLimit)"
  by (induction opts) auto

lemma check_indexes_iff:
  "check_indexes seen idx = None \<longleftrightarrow>
     (\<forall>i\<in>set idx. unat i < pollMaxOptions) \<and> distinct idx \<and> set idx \<inter> set seen = {}"
  by (induction idx arbitrary: seen) auto

lemma pollText_iff:
  "pollText t n \<longleftrightarrow> ValidString t \<and> (\<exists>r\<in>set (runes t). \<not> IsSpace r) \<and> utf16_len t \<le> n"
  by (auto simp: pollText_def TrimSpace_blank_iff utf16_len_def)

lemma validPollGroup_iff:
  "validPollGroup gid \<longleftrightarrow> (\<exists>raw. length raw = 32 \<and> gid = StdEncode raw)"
  using std64.dec_enc by (fastforce simp: validPollGroup_def pollGroupIDSize_def split: option.splits)

text \<open>A canonical account identifier: the printed form of a UUID that is not nil.\<close>

definition canonical_aci :: "uuid_lib \<Rightarrow> string \<Rightarrow> bool" where
  "canonical_aci U s \<longleftrightarrow> (\<exists>u. length u = 16 \<and> u \<noteq> uuid_Nil \<and> s = uuid_String U u)"

lemma canonical_aci_iff:
  assumes "uuid_laws U"
  shows "canonical_aci U s \<longleftrightarrow> (\<exists>u. uuid_Parse U s = Some u \<and> u \<noteq> uuid_Nil \<and> uuid_String U u = s)"
  unfolding canonical_aci_def using uuid_laws_parse [OF assms] uuid_laws_length [OF assms] by metis

definition author_ok :: "uuid_lib \<Rightarrow> string \<Rightarrow> bool" where
  "author_ok U s \<longleftrightarrow> (\<exists>u. uuid_Parse U s = Some u \<and> u \<noteq> uuid_Nil)"

lemma PollVote_check_iff:
  "PollVote_check U v = None \<longleftrightarrow> author_ok U (rACI (vTargetAuthor v)) \<and> vTargetTimestamp v \<noteq> 0
     \<and> (\<forall>i\<in>set (vOptionIndexes v). unat i < 10) \<and> distinct (vOptionIndexes v)"
  by (auto simp: PollVote_check_def author_ok_def check_indexes_iff pollMaxOptions_def split: option.splits)

lemma Poll_check_iff:
  "Poll_check p n = None \<longleftrightarrow> pollText (pQuestion p) n \<and> 2 \<le> length (pOptions p)
     \<and> length (pOptions p) \<le> 10 \<and> (\<forall>opt\<in>set (pOptions p). pollText opt 100)"
  by (auto simp: Poll_check_def check_poll_options_iff pollMinOptions_def pollMaxOptions_def pollTextLimit_def)

lemma Unpin_Check_iff:
  "Unpin_Check U p = None \<longleftrightarrow> author_ok U (rACI (unpinTargetAuthor p)) \<and> unpinTargetTimestamp p \<noteq> 0"
  by (auto simp: Unpin_Check_def author_ok_def split: option.splits)

lemma Pin_Check_iff:
  "Pin_Check U p = None \<longleftrightarrow> (pinForever p \<longleftrightarrow> pinDurationSeconds p = 0)
     \<and> author_ok U (rACI (pinTargetAuthor p)) \<and> pinTargetTimestamp p \<noteq> 0"
  by (auto simp: Pin_Check_def Unpin_Check_iff word_gt_0)

lemma StdEncode_Nil_iff [simp]: "StdEncode raw = [] \<longleftrightarrow> raw = []"
  unfolding StdEncode_def by (cases "(b64_std, True, raw)" rule: b64_encode.cases) auto

lemma validPollChat_iff:
  assumes "uuid_laws U"
  shows "validPollChat U req \<longleftrightarrow>
    (\<exists>raw. length raw = 32 \<and> sqGroupID req = StdEncode raw \<and> sqRecipients req = [])
    \<or> (\<exists>r. sqGroupID req = [] \<and> sqRecipients req = [r] \<and> canonical_aci U (rACI r))"
proof (cases "sqGroupID req = []")
  case True
  then show ?thesis
    by (fastforce simp: validPollChat_def canonical_aci_iff [OF assms] split: list.splits option.splits)
next
  case False
  then show ?thesis by (auto simp: validPollChat_def validPollGroup_iff)
qed

section \<open>Kinds of content\<close>

text \<open>Which of the standalone kinds of content a request has.\<close>

datatype kind = KStory | KPin | KUnpin | KPollCreate | KPollVote | KPollClose | KSticker | KEdit
  | KReaction | KDelete

definition kinds :: "SendRequest \<Rightarrow> kind set" where
  "kinds req = {k. case k of
      KStory \<Rightarrow> sqStory req \<noteq> None | KPin \<Rightarrow> sqPin req \<noteq> None | KUnpin \<Rightarrow> sqUnpin req \<noteq> None
    | KPollCreate \<Rightarrow> sqPollCreate req \<noteq> None | KPollVote \<Rightarrow> sqPollVote req \<noteq> None
    | KPollClose \<Rightarrow> sqPollClose req \<noteq> None | KSticker \<Rightarrow> sqSticker req \<noteq> None
    | KEdit \<Rightarrow> sqEditTarget req \<noteq> 0 | KReaction \<Rightarrow> sqReaction req \<noteq> None
    | KDelete \<Rightarrow> sqDeleteTarget req \<noteq> 0}"

lemmas content_defs = hasContent_def pollHasContent_def hasPoll_def hasPin_def storyOnly_def

lemma kinds_iff:
  "KStory \<in> kinds req \<longleftrightarrow> sqStory req \<noteq> None" "KPin \<in> kinds req \<longleftrightarrow> sqPin req \<noteq> None"
  "KUnpin \<in> kinds req \<longleftrightarrow> sqUnpin req \<noteq> None" "KPollCreate \<in> kinds req \<longleftrightarrow> sqPollCreate req \<noteq> None"
  "KPollVote \<in> kinds req \<longleftrightarrow> sqPollVote req \<noteq> None" "KPollClose \<in> kinds req \<longleftrightarrow> sqPollClose req \<noteq> None"
  "KSticker \<in> kinds req \<longleftrightarrow> sqSticker req \<noteq> None" "KEdit \<in> kinds req \<longleftrightarrow> sqEditTarget req \<noteq> 0"
  "KReaction \<in> kinds req \<longleftrightarrow> sqReaction req \<noteq> None" "KDelete \<in> kinds req \<longleftrightarrow> sqDeleteTarget req \<noteq> 0"
  by (simp_all add: kinds_def)

lemma kinds_eqI: "(\<And>k. k \<in> kinds req \<Longrightarrow> k = k') \<Longrightarrow> kinds req \<subseteq> {k'}"
  by blast

lemma kinds_single:
  assumes "\<And>k. k \<noteq> k' \<Longrightarrow> k \<notin> kinds req"
  shows "kinds req \<subseteq> {k'}"
  using assms by blast

lemma checkPoll_kinds:
  assumes "checkPoll U req = None" "sqStory req = None" "\<not> hasPin req"
  shows "\<exists>k. kinds req \<subseteq> {k}" "\<not> hasContent req"
proof -
  have n: "\<not> pollHasContent req"
    and c: "present (sqPollCreate req) + present (sqPollVote req) + present (sqPollClose req) = 1"
    using assms(1) by (auto simp: checkPoll_def Let_def split: if_splits)
  from n show "\<not> hasContent req" by (simp add: pollHasContent_def)
  have others: "k \<in> kinds req \<Longrightarrow> k \<in> {KPollCreate, KPollVote, KPollClose}" for k
    using n assms(2,3) by (cases k) (auto simp: kinds_iff pollHasContent_def hasPin_def)
  consider "sqPollVote req = None" "sqPollClose req = None"
    | "sqPollCreate req = None" "sqPollClose req = None" | "sqPollCreate req = None" "sqPollVote req = None"
    using c by (auto simp: present_def split: option.splits)
  then show "\<exists>k. kinds req \<subseteq> {k}"
    using others by cases (metis kinds_eqI kinds_iff empty_iff insert_iff)+
qed

lemma checkPin_kinds:
  assumes "checkPin U req = None" "sqStory req = None"
  shows "\<exists>k. kinds req \<subseteq> {k}" "\<not> hasContent req"
proof -
  have n: "\<not> pollHasContent req" "\<not> hasPoll req" "sqPin req = None \<or> sqUnpin req = None"
    using assms(1) by (auto simp: checkPin_def split: if_splits)
  from n show "\<not> hasContent req" by (simp add: pollHasContent_def)
  have "k \<in> kinds req \<Longrightarrow> k \<in> {KPin, KUnpin}" for k
    using n assms(2) by (cases k) (auto simp: kinds_iff content_defs)
  then show "\<exists>k. kinds req \<subseteq> {k}"
    using n(3) by (metis kinds_eqI kinds_iff empty_iff insert_iff)
qed

lemma checkStory_kinds:
  assumes "checkStory U req story = None"
  shows "kinds req \<subseteq> {KStory}" "\<not> hasContent req"
proof -
  have o: "storyOnly req" using assms by (auto simp: checkStory_def split: if_splits)
  then show "\<not> hasContent req" by (simp add: storyOnly_def)
  have "k \<in> kinds req \<Longrightarrow> k = KStory" for k
    using o by (cases k) (auto simp: kinds_iff content_defs)
  then show "kinds req \<subseteq> {KStory}" by blast
qed

text \<open>What is left when a request has no story, pin or poll.\<close>

definition plainCheck :: "SendRequest \<Rightarrow> err option" where
  "plainCheck req = (case sqSticker req of
     Some sticker \<Rightarrow> checkSticker req sticker
   | None \<Rightarrow>
     if sqEditTarget req \<noteq> 0 then checkEdit req
     else case sqReaction req of
       Some reaction \<Rightarrow> checkReaction req reaction
     | None \<Rightarrow>
       if sqDeleteTarget req \<noteq> 0 \<and> hasContent req
       then Some (Wrap ''remote delete'' [Sentinel ErrInvalidContent]) else None)"

lemma plainCheck_kinds:
  assumes "plainCheck req = None" "sqStory req = None" "\<not> hasPin req" "\<not> hasPoll req"
  shows "\<exists>k. kinds req \<subseteq> {k} \<and> (hasContent req \<longrightarrow> kinds req \<subseteq> {KEdit})"
proof -
  have four: "k \<in> kinds req \<Longrightarrow> k \<in> {KSticker, KEdit, KReaction, KDelete}" for k
    using assms(2-) by (cases k) (auto simp: kinds_iff content_defs)
  consider (sticker) "KSticker \<in> kinds req" | (edit) "KSticker \<notin> kinds req" "KEdit \<in> kinds req"
    | (reaction) "KSticker \<notin> kinds req" "KEdit \<notin> kinds req" "KReaction \<in> kinds req"
    | (rest) "KSticker \<notin> kinds req" "KEdit \<notin> kinds req" "KReaction \<notin> kinds req"
    by blast
  then show ?thesis
  proof cases
    case sticker
    then have "\<not> hasContent req \<and> KEdit \<notin> kinds req \<and> KReaction \<notin> kinds req \<and> KDelete \<notin> kinds req"
      using assms(1) by (auto simp: plainCheck_def checkSticker_def kinds_iff split: if_splits)
    then show ?thesis using four by blast
  next
    case edit
    then have "KReaction \<notin> kinds req \<and> KDelete \<notin> kinds req"
      using assms(1) by (auto simp: plainCheck_def checkEdit_def kinds_iff split: if_splits)
    then show ?thesis using four edit by blast
  next
    case reaction
    then have "\<not> hasContent req \<and> KDelete \<notin> kinds req"
      using assms(1) by (auto simp: plainCheck_def checkReaction_def kinds_iff split: if_splits)
    then show ?thesis using four reaction by blast
  next
    case rest
    then have "hasContent req \<longrightarrow> KDelete \<notin> kinds req"
      using assms(1) by (auto simp: plainCheck_def kinds_iff split: if_splits)
    then show ?thesis using four rest by blast
  qed
qed

lemma SendRequest_Check_alt:
  "SendRequest_Check U req = (case sqStory req of
     Some story \<Rightarrow> checkStory U req story
   | None \<Rightarrow>
     if (sqGroupID req = []) = (sqRecipients req = []) then Some (Sentinel ErrInvalidSendRequest)
     else case CheckTextStyles (sqBody req) (sqStyles req) of
       Some e \<Rightarrow> Some e
     | None \<Rightarrow> if hasPin req then checkPin U req else if hasPoll req then checkPoll U req
              else plainCheck req)"
  unfolding SendRequest_Check_def plainCheck_def by (rule refl)

section \<open>Properties\<close>

text \<open>C13: The style check accepts exactly the ranges that cover whole characters: every style has a
  known name, and the body splits into valid UTF-8 texts before, inside and after the range whose
  UTF-16 lengths are the start and the (positive) length of the range. The bound on the body is
  that of a Go length. \<close>

theorem CheckTextStyles_iff:
  assumes "length body < 2 ^ 63"
  shows "CheckTextStyles body styles = None \<longleftrightarrow> styles = [] \<or> ValidString body \<and>
    (\<forall>st\<in>set styles. Style_valid (tsStyle st)
       \<and> covers_characters body (unat (tsStart st)) (unat (tsLength st)))"
  by (cases "ValidString body")
    (simp_all add: CheckTextStyles_def check_style_list_iff [OF assms] del: check_style_list.simps)

theorem CheckTextStyles_iff_witness:
  "CheckTextStyles [CHR ''h'', CHR 0xC3, CHR 0xA9] [\<lparr>tsStart = 1, tsLength = 1, tsStyle = ''bold''\<rparr>] = None
   \<and> covers_characters [CHR ''h'', CHR 0xC3, CHR 0xA9] 1 1"
proof -
  have "CheckTextStyles [CHR ''h'', CHR 0xC3, CHR 0xA9] [\<lparr>tsStart = 1, tsLength = 1, tsStyle = ''bold''\<rparr>] = None"
    by (simp add: CheckTextStyles_def ValidString_def runes_def decode_defs cont_in_def byte_def
        Style_valid_def utf16_RuneLen_def)
  then show ?thesis
    using CheckTextStyles_iff [of "[CHR ''h'', CHR 0xC3, CHR 0xA9]" "[\<lparr>tsStart = 1, tsLength = 1, tsStyle = ''bold''\<rparr>]"]
    by simp
qed

text \<open>C14: An accepted request has at most one kind of standalone content (story, pin, unpin, poll
  creation, vote or closure, sticker, edit, reaction, remote delete), and text, attachments, quote,
  mentions or styles come with no such content other than an edit. A request without a story has
  either a group or recipients, never both. \<close>

theorem Check_standalone:
  assumes "SendRequest_Check U req = None"
  shows "(\<exists>k. kinds req \<subseteq> {k}) \<and> (hasContent req \<longrightarrow> kinds req \<subseteq> {KEdit})
    \<and> (sqStory req = None \<longrightarrow> (sqGroupID req = [] \<longleftrightarrow> sqRecipients req \<noteq> []))"
proof (cases "sqStory req")
  case None
  then have t: "(sqGroupID req = []) = (sqRecipients req \<noteq> [])"
    using assms by (auto simp: SendRequest_Check_alt split: if_splits)
  consider "hasPin req" "checkPin U req = None" | "\<not> hasPin req" "hasPoll req" "checkPoll U req = None"
    | "\<not> hasPin req" "\<not> hasPoll req" "plainCheck req = None"
    using assms None by (auto simp: SendRequest_Check_alt split: if_splits option.splits)
  then show ?thesis
    using t None plainCheck_kinds checkPin_kinds checkPoll_kinds by cases blast+
next
  case (Some story)
  then show ?thesis
    using assms checkStory_kinds [of U req story] by (auto simp: SendRequest_Check_alt)
qed

theorem Check_standalone_witness:
  "SendRequest_Check plain_uuid (noSendRequest\<lparr>sqGroupID := ''g'', sqBody := ''x''\<rparr>) = None
   \<and> (\<exists>k. kinds (noSendRequest\<lparr>sqGroupID := ''g'', sqBody := ''x''\<rparr>) \<subseteq> {k})"
proof -
  have "SendRequest_Check plain_uuid (noSendRequest\<lparr>sqGroupID := ''g'', sqBody := ''x''\<rparr>) = None"
    by (simp add: SendRequest_Check_def noSendRequest_def CheckTextStyles_def content_defs)
  then show ?thesis using Check_standalone by blast
qed

text \<open>C15: A poll operation is accepted exactly when it addresses one canonical 32-byte group or one
  canonical ACI, has no other content, and is one of: a creation with a question and two to ten
  answers, each not blank and at most 100 UTF-16 units; a vote with a positive counter on a poll with
  an author and a timestamp, with distinct answers below ten; a closure with a timestamp. \<close>

theorem Check_poll_iff:
  assumes "uuid_laws U" "sqStory req = None" "\<not> hasPin req" "hasPoll req"
  shows "SendRequest_Check U req = None \<longleftrightarrow>
    ((\<exists>raw. length raw = 32 \<and> sqGroupID req = StdEncode raw \<and> sqRecipients req = [])
     \<or> (\<exists>r. sqGroupID req = [] \<and> sqRecipients req = [r] \<and> canonical_aci U (rACI r)))
    \<and> \<not> pollHasContent req
    \<and> ((\<exists>p. sqPollCreate req = Some p \<and> sqPollVote req = None \<and> sqPollClose req = None
          \<and> pollText (pQuestion p) 100 \<and> 2 \<le> length (pOptions p) \<and> length (pOptions p) \<le> 10
          \<and> (\<forall>opt\<in>set (pOptions p). pollText opt 100))
     \<or> (\<exists>v. sqPollCreate req = None \<and> sqPollVote req = Some v \<and> sqPollClose req = None
          \<and> vVoteCount v \<noteq> 0 \<and> vTargetTimestamp v \<noteq> 0 \<and> author_ok U (rACI (vTargetAuthor v))
          \<and> distinct (vOptionIndexes v) \<and> (\<forall>i\<in>set (vOptionIndexes v). unat i < 10))
     \<or> (\<exists>c. sqPollCreate req = None \<and> sqPollVote req = None \<and> sqPollClose req = Some c
          \<and> clTargetTimestamp c \<noteq> 0))"
    (is "_ \<longleftrightarrow> ?chat \<and> _ \<and> ?payload")
proof -
  have chat: "validPollChat U req \<Longrightarrow> (sqGroupID req = []) \<noteq> (sqRecipients req = [])"
    by (auto simp: validPollChat_def split: if_splits list.splits)
  have styles: "\<not> pollHasContent req \<Longrightarrow> CheckTextStyles (sqBody req) (sqStyles req) = None"
    by (simp add: content_defs CheckTextStyles_def)
  have "checkPoll U req = None \<longleftrightarrow> validPollChat U req \<and> \<not> pollHasContent req \<and> ?payload"
    by (auto simp: checkPoll_def present_def Poll_Check_def Poll_check_iff PollVote_Check_def
        PollVote_check_iff PollClose_Check_def pollTextLimit_def split: option.splits)
  moreover have "SendRequest_Check U req = None \<longleftrightarrow> checkPoll U req = None"
    using assms(2-4) calculation chat styles
    by (auto simp: SendRequest_Check_alt split: option.splits)
  ultimately show ?thesis by (simp only: validPollChat_iff [OF assms(1)])
qed

lemma pollText_simple:
  assumes "\<forall>c\<in>set t. 32 < byte c \<and> byte c < 0x80" "t \<noteq> []" "length t \<le> n"
  shows "pollText t n"
proof -
  have a: "\<forall>c\<in>set t. byte c < 0x80" using assms(1) by blast
  have "utf16_EncodeLen (map byte s) = length s" if "\<forall>c\<in>set s. byte c < 0x80" for s
    using that by (induction s) (auto simp: utf16_RuneLen_def)
  then have "utf16_len t = length t" by (simp add: utf16_len_def runes_all_ascii a)
  moreover have "ValidString t"
    using a by (auto simp: ValidString_def segments_all_ascii list_all_iff)
  moreover have "\<exists>r\<in>set (runes t). \<not> IsSpace r"
    using assms(1,2) a by (cases t) (auto simp: IsSpace_def runes_all_ascii)
  ultimately show ?thesis using assms(3) by (simp add: pollText_iff)
qed

theorem Check_poll_iff_witness:
  "SendRequest_Check plain_uuid (noSendRequest\<lparr>sqGroupID := StdEncode (replicate 32 (CHR ''k'')),
     sqPollCreate := Some \<lparr>pQuestion = ''Lunch?'', pOptions = [''yes'', ''no''], pAllowMultiple = False\<rparr>\<rparr>) = None"
proof -
  have "length (replicate 32 (CHR ''k'')) = 32" by simp
  moreover have "pollText ''Lunch?'' 100" "pollText ''yes'' 100" "pollText ''no'' 100"
    by (auto intro!: pollText_simple simp: byte_def)
  ultimately show ?thesis
    by (subst Check_poll_iff [OF plain_uuid_laws])
      (auto simp: noSendRequest_def content_defs intro!: exI [of _ "replicate 32 (CHR ''k'')"])
qed

text \<open>A story is accepted exactly when it comes alone, goes either to one canonical 32-byte group
  or to a private list (a canonical UUID) with at least one recipient, each a canonical ACI without a
  PNI, and has either text that is not blank or one uploaded image or video without text. \<close>

theorem Check_story_iff:
  assumes "uuid_laws U" "sqStory req = Some story"
  shows "SendRequest_Check U req = None \<longleftrightarrow>
    (if oyDistributionListID story = []
     then sqRecipients req = [] \<and> (\<exists>raw. length raw = 32 \<and> sqGroupID req = StdEncode raw)
     else sqGroupID req = [] \<and> sqRecipients req \<noteq> []
        \<and> (\<exists>u. length u = 16 \<and> oyDistributionListID story = uuid_String U u)
        \<and> (\<forall>r\<in>set (sqRecipients req). canonical_aci U (rACI r) \<and> rPNI r = []))
    \<and> kinds req = {KStory} \<and> \<not> hasContent req
    \<and> (case oyFile story of
         None \<Rightarrow> \<exists>r\<in>set (runes (oyText story)). \<not> IsSpace r
       | Some f \<Rightarrow> oyText story = [] \<and> uaID f \<noteq> [] \<and> StoryMediaType (uaContentType f))"
proof -
  have only: "storyOnly req \<longleftrightarrow> kinds req = {KStory} \<and> \<not> hasContent req"
  proof
    assume "storyOnly req"
    then have "k \<in> kinds req \<longleftrightarrow> k = KStory" for k
      using assms(2) by (cases k) (auto simp: kinds_iff content_defs)
    then show "kinds req = {KStory} \<and> \<not> hasContent req"
      using \<open>storyOnly req\<close> by (auto simp: storyOnly_def)
  next
    assume "kinds req = {KStory} \<and> \<not> hasContent req"
    then show "storyOnly req"
      using kinds_iff [of req] by (simp add: storyOnly_def hasPoll_def hasPin_def)
  qed
  have rec: "storyRecipient U r \<longleftrightarrow> canonical_aci U (rACI r) \<and> rPNI r = []" for r
    by (auto simp: storyRecipient_def canonical_aci_iff [OF assms(1)] split: option.splits)
  have dl: "(\<exists>u. uuid_Parse U s = Some u \<and> uuid_String U u = s) \<longleftrightarrow> (\<exists>u. length u = 16 \<and> s = uuid_String U u)" for s
    using uuid_laws_parse [OF assms(1)] uuid_laws_length [OF assms(1)] by metis
  have grp: "(\<exists>u. StdDecode s = Some u \<and> length u = 32 \<and> StdEncode u = s) \<longleftrightarrow> (\<exists>u. length u = 32 \<and> s = StdEncode u)" for s
    using std64.dec_enc by metis
  have "storyAudience U req story \<longleftrightarrow>
      (if oyDistributionListID story = []
       then sqRecipients req = [] \<and> (\<exists>u. StdDecode (sqGroupID req) = Some u \<and> length u = 32 \<and> StdEncode u = sqGroupID req)
       else sqGroupID req = [] \<and> sqRecipients req \<noteq> []
          \<and> (\<exists>u. uuid_Parse U (oyDistributionListID story) = Some u \<and> uuid_String U u = oyDistributionListID story)
          \<and> (\<forall>r\<in>set (sqRecipients req). canonical_aci U (rACI r) \<and> rPNI r = []))"
    by (auto simp: storyAudience_def privateStoryAudience_def list_all_iff rec split: option.splits)
  moreover have "Story_check story = None \<longleftrightarrow> (case oyFile story of
         None \<Rightarrow> \<exists>r\<in>set (runes (oyText story)). \<not> IsSpace r
       | Some f \<Rightarrow> oyText story = [] \<and> uaID f \<noteq> [] \<and> StoryMediaType (uaContentType f))"
    by (auto simp: Story_check_def TrimSpace_blank_iff split: option.splits)
  moreover have "SendRequest_Check U req = None \<longleftrightarrow>
      storyAudience U req story \<and> storyOnly req \<and> Story_check story = None"
    by (auto simp: SendRequest_Check_alt assms(2) checkStory_def)
  ultimately show ?thesis
    unfolding dl grp only by (simp only: conj_assoc)
qed

theorem Check_story_iff_witness:
  "SendRequest_Check plain_uuid (noSendRequest\<lparr>sqGroupID := StdEncode (replicate 32 (CHR ''k'')),
     sqStory := Some \<lparr>oyDistributionListID = [], oyText = ''hello'', oyFile = None, oyAllowsReplies = True\<rparr>\<rparr>) = None"
proof -
  let ?s = "\<lparr>oyDistributionListID = [], oyText = ''hello'', oyFile = None, oyAllowsReplies = True\<rparr>"
  let ?req = "noSendRequest\<lparr>sqGroupID := StdEncode (replicate 32 (CHR ''k'')), sqStory := Some ?s\<rparr>"
  have "k \<in> kinds ?req \<longleftrightarrow> k = KStory" for k
    by (cases k) (simp_all add: kinds_iff noSendRequest_def)
  then have k: "kinds ?req = {KStory}" by blast
  have t: "\<exists>r\<in>set (runes ''hello''). \<not> IsSpace r"
    using pollText_simple [of "''hello''" 5] by (simp add: pollText_iff byte_def)
  have r: "sqRecipients ?req = []" "\<exists>raw. length raw = 32 \<and> sqGroupID ?req = StdEncode raw" "\<not> hasContent ?req"
    by (auto simp: noSendRequest_def hasContent_def intro!: exI [of _ "replicate 32 (CHR ''k'')"])
  show ?thesis
    using Check_story_iff [OF plain_uuid_laws, of ?req ?s] k t r by simp
qed

end
