(* ===== verification/PollReducer.thy ===== *)
theory PollReducer
  imports SendChecks
begin

text \<open>
  Polls as they are observed (internal/signal poll\_state.go, poll\_projection.go, poll\_counters.go and
  poll\_reduce.go): the identity of a poll, the evidence an event is for it, and the reduction of the
  retained observations to a state with its votes and tally. The map of votes is an association
  list by voter; the reduction is \<^const>\<open>None\<close> where Go would panic on an index out of range, which
  is shown never to happen.
\<close>

section \<open>Identity of a poll (poll\_projection.go, poll\_counters.go)\<close>

record PollReference =
  prChat :: Chat
  prAuthor :: Recipient
  prTimestamp :: u64

record PollVoteCounterRequest =
  pqChat :: Chat
  pqAuthor :: Recipient
  pqTimestamp :: u64
  pqExplicit :: u32

definition CounterRequest_Check :: "uuid_lib \<Rightarrow> PollVoteCounterRequest \<Rightarrow> err option" where
  "CounterRequest_Check U req = (case uuid_Parse U (rACI (pqAuthor req)) of
     None \<Rightarrow> Some (Sentinel ErrInvalidPoll)
   | Some uid \<Rightarrow>
     if uid = uuid_Nil \<or> uuid_String U uid \<noteq> rACI (pqAuthor req) then Some (Sentinel ErrInvalidPoll)
     else let vote = \<lparr>vTargetAuthor = pqAuthor req, vTargetTimestamp = pqTimestamp req,
                     vOptionIndexes = [], vVoteCount = 1\<rparr>;
              send = noSendRequest\<lparr>sqPollVote := Some vote, sqGroupID := cGroupID (pqChat req)\<rparr>;
              send' = (if \<not> Chat_IsGroup (pqChat req)
                       then send\<lparr>sqRecipients := [cRecipient (pqChat req)]\<rparr> else send)
          in SendRequest_Check U send')"

definition PollReference_Check :: "uuid_lib \<Rightarrow> PollReference \<Rightarrow> err option" where
  "PollReference_Check U ref = CounterRequest_Check U
     \<lparr>pqChat = prChat ref, pqAuthor = prAuthor ref, pqTimestamp = prTimestamp ref, pqExplicit = 0\<rparr>"

definition OwnPollVoteCounter :: "uuid_lib \<Rightarrow> Event \<Rightarrow> string \<Rightarrow> PollVoteCounterRequest option" where
  "OwnPollVoteCounter U evt ownACI = (case evt of
     EvPollVote vote \<Rightarrow>
       if \<not> eSync (pvEnv vote) \<or> rACI (eSender (pvEnv vote)) \<noteq> ownACI
          \<or> PollVote_Check U (pvVote vote) \<noteq> None then None
       else let req = \<lparr>pqChat = eChat (pvEnv vote), pqAuthor = vTargetAuthor (pvVote vote),
                       pqTimestamp = vTargetTimestamp (pvVote vote),
                       pqExplicit = vVoteCount (pvVote vote)\<rparr>
            in if CounterRequest_Check U req = None then Some req else None
   | _ \<Rightarrow> None)"

section \<open>Observed state (poll\_state.go)\<close>

record PollStateVote =
  svVoter :: Recipient
  svOptionIndexes :: "u32 list"
  svVoteCount :: u32
  svTimestamp :: u64

record PollState =
  psSource :: string
  psObservations :: nat
  psChat :: Chat
  psAuthor :: Recipient
  psTimestamp :: u64
  psCreation :: "Poll option"
  psVotes :: "PollStateVote list"
  psTally :: "nat list"
  psClosureObserved :: bool
  psClosedAt :: u64
  psDeleted :: bool
  psCompleteness :: string
  psScanned :: nat
  psFirstEntryID :: int
  psLastEntryID :: int
  psTruncated :: bool
  psIgnoredInvalid :: nat
  psConflicts :: nat

type_synonym votes = "(string \<times> PollStateVote) list"

section \<open>Reduction (poll\_reduce.go)\<close>

definition maxReceivedPollQuestion :: nat where "maxReceivedPollQuestion = 200"
definition maxReceivedPollOption :: nat where "maxReceivedPollOption = 100"

definition pollEnvelope :: "Event \<Rightarrow> Envelope option" where
  "pollEnvelope event = (case event of
     EvMessage evt \<Rightarrow> Some (msgEnv evt)
   | EvPollVote evt \<Rightarrow> Some (pvEnv evt)
   | EvPollClose evt \<Rightarrow> Some (pcEnv evt)
   | EvDelete evt \<Rightarrow> Some (delEnv evt)
   | _ \<Rightarrow> None)"

definition validPollText :: "string \<Rightarrow> nat \<Rightarrow> bool" where
  "validPollText s limit \<longleftrightarrow> ValidString s \<and> TrimSpace s \<noteq> [] \<and> utf16_EncodeLen (runes s) \<le> limit"

definition validReceivedPoll :: "Poll \<Rightarrow> bool" where
  "validReceivedPoll p =
    (if length (pOptions p) < 2 \<or> length (pOptions p) > 10
        \<or> \<not> validPollText (pQuestion p) maxReceivedPollQuestion then False
     else list_all (\<lambda>opt. validPollText opt maxReceivedPollOption) (pOptions p))"

definition validObservedVote :: "uuid_lib \<Rightarrow> PollVote \<Rightarrow> Poll option \<Rightarrow> bool" where
  "validObservedVote U vote p = (case uuid_Parse U (rACI (eSender (pvEnv vote))) of
     None \<Rightarrow> False
   | Some voter \<Rightarrow>
     if uuid_String U voter \<noteq> rACI (eSender (pvEnv vote)) then False
     else if PollVote_Check U ((pvVote vote)\<lparr>vVoteCount := 1\<rparr>) \<noteq> None then False
     else case p of
       None \<Rightarrow> True
     | Some poll \<Rightarrow>
       if \<not> pAllowMultiple poll \<and> length (vOptionIndexes (pvVote vote)) > 1 then False
       else list_all (\<lambda>index. unat index < length (pOptions poll)) (vOptionIndexes (pvVote vote)))"

definition samePollSelection :: "u32 list \<Rightarrow> u32 list \<Rightarrow> bool" where
  "samePollSelection a b \<longleftrightarrow> sort a = sort b"

definition samePollCreation :: "Poll \<Rightarrow> Poll \<Rightarrow> bool" where
  "samePollCreation first second \<longleftrightarrow> pQuestion first = pQuestion second
     \<and> pAllowMultiple first = pAllowMultiple second \<and> pOptions first = pOptions second"

definition observeCreation :: "Event \<Rightarrow> PollState \<Rightarrow> PollState" where
  "observeCreation event state = (case event of
     EvMessage msg \<Rightarrow> (case msgPoll msg of
         None \<Rightarrow> state
       | Some poll \<Rightarrow>
         if Chat_Key (eChat (msgEnv msg)) \<noteq> Chat_Key (psChat state) then state
         else if rACI (eSender (msgEnv msg)) \<noteq> rACI (psAuthor state)
           \<or> eTimestamp (msgEnv msg) \<noteq> psTimestamp state then state
         else if \<not> validReceivedPoll poll then state\<lparr>psIgnoredInvalid := psIgnoredInvalid state + 1\<rparr>
         else (case psCreation state of
           Some creation \<Rightarrow>
             if \<not> samePollCreation creation poll then state\<lparr>psConflicts := psConflicts state + 1\<rparr> else state
         | None \<Rightarrow> state\<lparr>psCreation := Some poll\<rparr>))
   | _ \<Rightarrow> state)"

definition pollControlMatches :: "Event \<Rightarrow> PollState \<Rightarrow> bool" where
  "pollControlMatches event state = (case event of
     EvDelete evt \<Rightarrow> delTargetTimestamp evt = psTimestamp state
       \<and> rACI (eSender (delEnv evt)) = rACI (psAuthor state)
   | EvPollClose evt \<Rightarrow> clTargetTimestamp (pcClose evt) = psTimestamp state
   | EvPollVote evt \<Rightarrow> vTargetTimestamp (pvVote evt) = psTimestamp state
       \<and> rACI (vTargetAuthor (pvVote evt)) = rACI (psAuthor state)
   | _ \<Rightarrow> False)"

definition observeClose :: "PollClose \<Rightarrow> PollState \<Rightarrow> PollState" where
  "observeClose evt state =
    (if clTargetTimestamp (pcClose evt) \<noteq> psTimestamp state then state
     else if rACI (eSender (pcEnv evt)) \<noteq> rACI (psAuthor state)
       then state\<lparr>psIgnoredInvalid := psIgnoredInvalid state + 1\<rparr>
     else if \<not> psDeleted state \<and> \<not> psClosureObserved state
       then state\<lparr>psClosureObserved := True, psClosedAt := eTimestamp (pcEnv evt)\<rparr>
     else state)"

definition acceptVote :: "PollVote \<Rightarrow> votes \<Rightarrow> PollState \<Rightarrow> PollState \<times> bool" where
  "acceptVote evt votes state = (case map_of votes (rACI (eSender (pvEnv evt))) of
     None \<Rightarrow> (state, True)
   | Some prev \<Rightarrow>
     if vVoteCount (pvVote evt) \<noteq> svVoteCount prev
       then (state, vVoteCount (pvVote evt) > svVoteCount prev)
     else let state' = (if \<not> samePollSelection (vOptionIndexes (pvVote evt)) (svOptionIndexes prev)
                        then state\<lparr>psConflicts := psConflicts state + 1\<rparr> else state)
          in (state', eSync (pvEnv evt) \<and> eTimestamp (pvEnv evt) > svTimestamp prev))"

definition observeVote :: "uuid_lib \<Rightarrow> PollVote \<Rightarrow> PollState \<times> votes \<Rightarrow> PollState \<times> votes" where
  "observeVote U evt sv = (let (state, votes) = sv in
     if psDeleted state \<or> psClosureObserved state then (state, votes)
     else if vTargetTimestamp (pvVote evt) \<noteq> psTimestamp state
       \<or> rACI (vTargetAuthor (pvVote evt)) \<noteq> rACI (psAuthor state) then (state, votes)
     else if \<not> validObservedVote U evt (psCreation state)
       then (state\<lparr>psIgnoredInvalid := psIgnoredInvalid state + 1\<rparr>, votes)
     else let (state', ok) = acceptVote evt votes state in
       if \<not> ok then (state', votes)
       else (state', AList.update (rACI (eSender (pvEnv evt)))
              \<lparr>svVoter = eSender (pvEnv evt), svOptionIndexes = vOptionIndexes (pvVote evt),
               svVoteCount = vVoteCount (pvVote evt), svTimestamp = eTimestamp (pvEnv evt)\<rparr> votes))"

definition observeControl :: "uuid_lib \<Rightarrow> Event \<Rightarrow> PollState \<times> votes \<Rightarrow> PollState \<times> votes" where
  "observeControl U event sv = (let (state, votes) = sv in
     case pollEnvelope event of
       None \<Rightarrow> sv
     | Some env \<Rightarrow>
       if Chat_Key (eChat env) \<noteq> Chat_Key (psChat state) then sv
       else if eTimestamp env = 0 \<and> pollControlMatches event state
         then (state\<lparr>psIgnoredInvalid := psIgnoredInvalid state + 1\<rparr>, votes)
       else case event of
         EvDelete evt \<Rightarrow>
           if delTargetTimestamp evt = psTimestamp state
              \<and> rACI (eSender (delEnv evt)) = rACI (psAuthor state)
           then (state\<lparr>psDeleted := True\<rparr>, votes) else sv
       | EvPollClose evt \<Rightarrow> (observeClose evt state, votes)
       | EvPollVote evt \<Rightarrow> observeVote U evt sv
       | _ \<Rightarrow> sv)"

text \<open>Counting: an index beyond the tally is Go's panic, here \<^const>\<open>None\<close>.\<close>

fun tallyIndexes :: "nat list \<Rightarrow> u32 list \<Rightarrow> nat list option" where
  "tallyIndexes tally [] = Some tally"
| "tallyIndexes tally (index # rest) =
     (if unat index < length tally
      then tallyIndexes (tally[unat index := tally ! unat index + 1]) rest else None)"

fun tallyVotes :: "nat list \<Rightarrow> PollStateVote list \<Rightarrow> nat list option" where
  "tallyVotes tally [] = Some tally"
| "tallyVotes tally (vote # rest) = (case tallyIndexes tally (svOptionIndexes vote) of
     None \<Rightarrow> None | Some tally' \<Rightarrow> tallyVotes tally' rest)"

definition finalizeVotes :: "PollState \<times> votes \<Rightarrow> PollState option" where
  "finalizeVotes sv = (let (state, votes) = sv;
       state' = state\<lparr>psVotes := sort_key (\<lambda>v. rACI (svVoter v)) (psVotes state @ map snd votes)\<rparr>
     in case psCreation state' of
          None \<Rightarrow> Some state'
        | Some creation \<Rightarrow>
          if psDeleted state' then Some state'
          else (case tallyVotes (replicate (length (pOptions creation)) 0) (psVotes state') of
                  None \<Rightarrow> None | Some tally \<Rightarrow> Some (state'\<lparr>psTally := tally\<rparr>)))"

definition initialPollState :: "PollReference \<Rightarrow> PollState" where
  "initialPollState ref = \<lparr>psSource = [], psObservations = 0, psChat = prChat ref,
     psAuthor = prAuthor ref, psTimestamp = prTimestamp ref, psCreation = None, psVotes = [],
     psTally = [], psClosureObserved = False, psClosedAt = 0, psDeleted = False,
     psCompleteness = ''unknown'', psScanned = 0, psFirstEntryID = 0, psLastEntryID = 0,
     psTruncated = False, psIgnoredInvalid = 0, psConflicts = 0\<rparr>"

definition ReducePoll :: "uuid_lib \<Rightarrow> PollReference \<Rightarrow> Event list \<Rightarrow> PollState option" where
  "ReducePoll U ref events =
    (let state = fold observeCreation events (initialPollState ref)
     in finalizeVotes (fold (observeControl U) events (state, [])))"

section \<open>Evidence (poll\_projection.go)\<close>

text \<open>
  The text that \<open>fmt.Sprintf\<close> with two quoting verbs gives for a question and its options is the
  argument \<open>fmt_q\<close>: it depends on the tables of printable Unicode characters.
\<close>

definition noEnvelope :: Envelope where
  "noEnvelope = \<lparr>eSender = noRecipient, eChat = noChat, eTimestamp = 0, eServerTimestamp = 0, eSync = False\<rparr>"

definition noMessage :: Message where
  "noMessage = \<lparr>msgEnv = noEnvelope, msgBody = [], msgMentions = [], msgAttachments = [],
     msgSticker = None, msgPoll = None, msgQuote = None, msgViewOnce = False, msgUnsupported = []\<rparr>"

definition evidencePoll :: "(string \<Rightarrow> string list \<Rightarrow> string) \<Rightarrow> Poll \<Rightarrow> Poll" where
  "evidencePoll fmt_q poll =
    (if \<not> ValidString (pQuestion poll) \<or> list_ex (\<lambda>opt. \<not> ValidString opt) (pOptions poll)
     then poll\<lparr>pQuestion := replicate (maxReceivedPollQuestion + 1) (CHR '' '')
                            @ fmt_q (pQuestion poll) (pOptions poll)\<rparr>
     else poll)"

definition evidenceChat :: "Envelope \<Rightarrow> Chat" where
  "evidenceChat env =
    (let chat = noChat\<lparr>cGroupID := cGroupID (eChat env)\<rparr>
     in if \<not> Chat_IsGroup chat then chat\<lparr>cRecipient := aciRecipient (rACI (cRecipient (eChat env)))\<rparr>
        else chat)"

definition PollEvidence ::
  "uuid_lib \<Rightarrow> (string \<Rightarrow> string list \<Rightarrow> string) \<Rightarrow> Event \<Rightarrow> (PollReference \<times> Event) option" where
  "PollEvidence U fmt_q event =
    (let finish = (\<lambda>env author timestamp copyEvent.
       let chat = evidenceChat env;
           ref = \<lparr>prChat = chat, prAuthor = aciRecipient (rACI author), prTimestamp = timestamp\<rparr>;
           normalized = noEnvelope\<lparr>eChat := chat, eSender := aciRecipient (rACI (eSender env)),
                                   eTimestamp := eTimestamp env, eSync := eSync env\<rparr>
       in if PollReference_Check U ref \<noteq> None then None else Some (ref, copyEvent normalized))
     in case event of
       EvMessage evt \<Rightarrow> (case msgPoll evt of
           None \<Rightarrow> None
         | Some poll \<Rightarrow> finish (msgEnv evt) (eSender (msgEnv evt)) (eTimestamp (msgEnv evt))
             (\<lambda>env. EvMessage (noMessage\<lparr>msgEnv := env, msgPoll := Some (evidencePoll fmt_q poll)\<rparr>)))
     | EvPollVote evt \<Rightarrow> finish (pvEnv evt) (vTargetAuthor (pvVote evt)) (vTargetTimestamp (pvVote evt))
         (\<lambda>env. EvPollVote \<lparr>pvEnv = env, pvVote = (pvVote evt)\<lparr>
             vTargetAuthor := aciRecipient (rACI (vTargetAuthor (pvVote evt))),
             vOptionIndexes := sort (vOptionIndexes (pvVote evt))\<rparr>\<rparr>)
     | EvPollClose evt \<Rightarrow> finish (pcEnv evt) (eSender (pcEnv evt)) (clTargetTimestamp (pcClose evt))
         (\<lambda>env. EvPollClose \<lparr>pcEnv = env, pcClose = pcClose evt\<rparr>)
     | EvDelete evt \<Rightarrow> finish (delEnv evt) (eSender (delEnv evt)) (delTargetTimestamp evt)
         (\<lambda>env. EvDelete \<lparr>delEnv = env, delTargetTimestamp = delTargetTimestamp evt\<rparr>)
     | _ \<Rightarrow> None)"

section \<open>What an event means for a poll\<close>

text \<open>
  For the identity and creation in a state: the event is a counted vote, a closure by the author,
  or a deletion by the author. Observations without a timestamp count for nothing.
\<close>

definition in_poll_chat :: "PollState \<Rightarrow> Envelope \<Rightarrow> bool" where
  "in_poll_chat st env \<longleftrightarrow> Chat_Key (eChat env) = Chat_Key (psChat st) \<and> eTimestamp env \<noteq> 0"

definition deletes :: "PollState \<Rightarrow> Event \<Rightarrow> bool" where
  "deletes st e \<longleftrightarrow> (\<exists>d. e = EvDelete d \<and> in_poll_chat st (delEnv d)
     \<and> delTargetTimestamp d = psTimestamp st \<and> rACI (eSender (delEnv d)) = rACI (psAuthor st))"

definition closes :: "PollState \<Rightarrow> Event \<Rightarrow> bool" where
  "closes st e \<longleftrightarrow> (\<exists>c. e = EvPollClose c \<and> in_poll_chat st (pcEnv c)
     \<and> clTargetTimestamp (pcClose c) = psTimestamp st \<and> rACI (eSender (pcEnv c)) = rACI (psAuthor st))"

definition counts :: "uuid_lib \<Rightarrow> PollState \<Rightarrow> Event \<Rightarrow> bool" where
  "counts U st e \<longleftrightarrow> (\<exists>v. e = EvPollVote v \<and> in_poll_chat st (pvEnv v)
     \<and> vTargetTimestamp (pvVote v) = psTimestamp st \<and> rACI (vTargetAuthor (pvVote v)) = rACI (psAuthor st)
     \<and> validObservedVote U v (psCreation st))"

abbreviation stops :: "PollState \<Rightarrow> Event \<Rightarrow> bool" where
  "stops st e \<equiv> deletes st e \<or> closes st e"

text \<open>The part of a state that is not a counter of ignored or conflicting observations.\<close>

definition core :: "PollState \<Rightarrow> PollState" where
  "core st = st\<lparr>psIgnoredInvalid := 0, psConflicts := 0\<rparr>"

lemma core_simps [simp]:
  "psChat (core s) = psChat s" "psAuthor (core s) = psAuthor s" "psTimestamp (core s) = psTimestamp s"
  "psCreation (core s) = psCreation s" "psVotes (core s) = psVotes s" "psTally (core s) = psTally s"
  "psClosureObserved (core s) = psClosureObserved s" "psClosedAt (core s) = psClosedAt s"
  "psDeleted (core s) = psDeleted s" "psCompleteness (core s) = psCompleteness s"
  "core (s\<lparr>psIgnoredInvalid := n\<rparr>) = core s" "core (s\<lparr>psConflicts := n\<rparr>) = core s" "core (core s) = core s"
  "core (s\<lparr>psDeleted := b\<rparr>) = (core s)\<lparr>psDeleted := b\<rparr>"
  "core (s\<lparr>psVotes := vs\<rparr>) = (core s)\<lparr>psVotes := vs\<rparr>"
  "core (s\<lparr>psTally := t\<rparr>) = (core s)\<lparr>psTally := t\<rparr>"
  "core (s\<lparr>psCreation := c\<rparr>) = (core s)\<lparr>psCreation := c\<rparr>"
  "core (s\<lparr>psClosureObserved := b, psClosedAt := t'\<rparr>) = (core s)\<lparr>psClosureObserved := b, psClosedAt := t'\<rparr>"
  by (simp_all add: core_def)

lemma core_eqD:
  assumes "core s = core t"
  shows "psChat s = psChat t" "psAuthor s = psAuthor t" "psTimestamp s = psTimestamp t"
    "psCreation s = psCreation t" "psVotes s = psVotes t" "psTally s = psTally t"
    "psClosureObserved s = psClosureObserved t" "psClosedAt s = psClosedAt t" "psDeleted s = psDeleted t"
  using assms by (metis core_simps)+

text \<open>Whether a vote replaces the one retained for its voter.\<close>

definition supersedes :: "PollVote \<Rightarrow> PollStateVote \<Rightarrow> bool" where
  "supersedes evt prev \<longleftrightarrow> vVoteCount (pvVote evt) > svVoteCount prev
     \<or> vVoteCount (pvVote evt) = svVoteCount prev \<and> eSync (pvEnv evt) \<and> eTimestamp (pvEnv evt) > svTimestamp prev"

definition retained :: "PollVote \<Rightarrow> PollStateVote" where
  "retained evt = \<lparr>svVoter = eSender (pvEnv evt), svOptionIndexes = vOptionIndexes (pvVote evt),
     svVoteCount = vVoteCount (pvVote evt), svTimestamp = eTimestamp (pvEnv evt)\<rparr>"

abbreviation voterOf :: "PollVote \<Rightarrow> string" where
  "voterOf evt \<equiv> rACI (eSender (pvEnv evt))"

definition addVote :: "PollVote \<Rightarrow> votes \<Rightarrow> votes" where
  "addVote evt votes = (case map_of votes (voterOf evt) of
     None \<Rightarrow> AList.update (voterOf evt) (retained evt) votes
   | Some prev \<Rightarrow> if supersedes evt prev then AList.update (voterOf evt) (retained evt) votes else votes)"

lemma acceptVote_core: "core (fst (acceptVote evt votes st)) = core st"
  by (auto simp: acceptVote_def Let_def split: option.splits)

lemma acceptVote_snd:
  "snd (acceptVote evt votes st) \<longleftrightarrow> (\<forall>prev. map_of votes (voterOf evt) = Some prev \<longrightarrow> supersedes evt prev)"
  by (auto simp: acceptVote_def supersedes_def Let_def split: option.splits)

lemma observeVote_effect:
  assumes "vTargetTimestamp (pvVote evt) = psTimestamp st" "rACI (vTargetAuthor (pvVote evt)) = rACI (psAuthor st)"
  shows "core (fst (observeVote U evt (st, votes))) = core st"
    and "snd (observeVote U evt (st, votes)) =
      (if psDeleted st \<or> psClosureObserved st \<or> \<not> validObservedVote U evt (psCreation st) then votes
       else addVote evt votes)"
proof -
  obtain st' ok where a: "acceptVote evt votes st = (st', ok)" by fastforce
  have c: "core st' = core st" using acceptVote_core [of evt votes st] a by simp
  have k: "ok \<longleftrightarrow> (\<forall>prev. map_of votes (voterOf evt) = Some prev \<longrightarrow> supersedes evt prev)"
    using acceptVote_snd [of evt votes st] a by simp
  show "core (fst (observeVote U evt (st, votes))) = core st"
    using c by (simp add: observeVote_def a)
  show "snd (observeVote U evt (st, votes)) =
      (if psDeleted st \<or> psClosureObserved st \<or> \<not> validObservedVote U evt (psCreation st) then votes
       else addVote evt votes)"
    using k assms by (auto simp: observeVote_def a addVote_def retained_def split: option.splits)
qed

lemma observeVote_other:
  assumes "vTargetTimestamp (pvVote evt) \<noteq> psTimestamp st \<or> rACI (vTargetAuthor (pvVote evt)) \<noteq> rACI (psAuthor st)"
  shows "observeVote U evt (st, votes) = (st, votes)"
  using assms by (auto simp: observeVote_def)

text \<open>The effect of one observation, in terms of what the event means.\<close>

definition closedAtOf :: "Event \<Rightarrow> u64" where
  "closedAtOf e = (case e of EvPollClose c \<Rightarrow> eTimestamp (pcEnv c) | _ \<Rightarrow> 0)"

definition voteOf :: "Event \<Rightarrow> PollVote" where
  "voteOf e = (case e of EvPollVote v \<Rightarrow> v | _ \<Rightarrow> \<lparr>pvEnv = noEnvelope, pvVote =
     \<lparr>vTargetAuthor = noRecipient, vTargetTimestamp = 0, vOptionIndexes = [], vVoteCount = 0\<rparr>\<rparr>)"

definition effect :: "uuid_lib \<Rightarrow> Event \<Rightarrow> PollState \<times> votes \<Rightarrow> PollState \<times> votes" where
  "effect U e sv = (let (st, votes) = sv in
     (if deletes st e then st\<lparr>psDeleted := True\<rparr>
      else if closes st e \<and> \<not> psDeleted st \<and> \<not> psClosureObserved st
      then st\<lparr>psClosureObserved := True, psClosedAt := closedAtOf e\<rparr> else st,
      if counts U st e \<and> \<not> psDeleted st \<and> \<not> psClosureObserved st then addVote (voteOf e) votes else votes))"

lemmas meaning_defs = deletes_def closes_def counts_def in_poll_chat_def

lemma observeControl_effect:
  "core (fst (observeControl U e (st, votes))) = core (fst (effect U e (st, votes)))
   \<and> snd (observeControl U e (st, votes)) = snd (effect U e (st, votes))"
proof (cases e)
  case (EvPollVote v)
  show ?thesis
  proof (cases "vTargetTimestamp (pvVote v) = psTimestamp st \<and> rACI (vTargetAuthor (pvVote v)) = rACI (psAuthor st)")
    case True
    then show ?thesis
      using EvPollVote observeVote_effect [of v st U votes]
      by (auto simp: observeControl_def effect_def meaning_defs pollEnvelope_def pollControlMatches_def voteOf_def)
  next
    case False
    then show ?thesis
      using EvPollVote observeVote_other [of v st U votes]
      by (auto simp: observeControl_def effect_def meaning_defs pollEnvelope_def pollControlMatches_def)
  qed
next
  case (EvPollClose c)
  then show ?thesis
    by (auto simp: observeControl_def effect_def meaning_defs pollEnvelope_def pollControlMatches_def
        observeClose_def closedAtOf_def)
next
  case (EvDelete d)
  then show ?thesis
    by (auto simp: observeControl_def effect_def meaning_defs pollEnvelope_def pollControlMatches_def)
qed (auto simp: observeControl_def effect_def meaning_defs pollEnvelope_def pollControlMatches_def split: option.splits)

section \<open>Runs\<close>

definition identity :: "PollState \<Rightarrow> string \<times> string \<times> u64 \<times> Poll option" where
  "identity st = (Chat_Key (psChat st), rACI (psAuthor st), psTimestamp st, psCreation st)"

lemma meaning_cong:
  assumes "identity s = identity t"
  shows "deletes s e \<longleftrightarrow> deletes t e" "closes s e \<longleftrightarrow> closes t e" "counts U s e \<longleftrightarrow> counts U t e"
  using assms by (simp_all add: identity_def meaning_defs)

lemma identity_core: "core s = core t \<Longrightarrow> identity s = identity t"
  using core_eqD [of s t] by (simp add: identity_def)

lemma effect_identity [simp]: "identity (fst (effect U e (st, votes))) = identity st"
  by (simp add: effect_def identity_def)

lemma effect_core:
  assumes "core s = core t"
  shows "core (fst (effect U e (s, v))) = core (fst (effect U e (t, v)))
    \<and> snd (effect U e (s, v)) = snd (effect U e (t, v))"
  using meaning_cong [OF identity_core [OF assms]] core_eqD [OF assms] assms
  by (simp add: effect_def)

lemma control_run:
  "core s = core t \<Longrightarrow> core (fst (fold (observeControl U) es (s, v))) = core (fst (fold (effect U) es (t, v)))
   \<and> snd (fold (observeControl U) es (s, v)) = snd (fold (effect U) es (t, v))"
proof (induction es arbitrary: s t v)
  case (Cons e es)
  obtain s1 v1 where 1: "observeControl U e (s, v) = (s1, v1)" by fastforce
  obtain t1 w1 where 2: "effect U e (t, v) = (t1, w1)" by fastforce
  have "core s1 = core t1 \<and> v1 = w1"
    using observeControl_effect [of U e s v] effect_core [OF Cons.prems, of U e v] 1 2 by simp
  then show ?case using Cons.IH [of s1 t1 v1] 1 2 by simp
qed simp

text \<open>The votes that count: valid ones on this poll, before the author closes or deletes it.\<close>

definition counted :: "uuid_lib \<Rightarrow> PollState \<Rightarrow> Event list \<Rightarrow> PollVote list" where
  "counted U st es = map voteOf (filter (counts U st) (takeWhile (\<lambda>e. \<not> stops st e) es))"

lemma counted_snoc:
  "counted U st (es @ [e]) =
    (if (\<exists>x\<in>set es. stops st x) \<or> \<not> counts U st e then counted U st es else counted U st es @ [voteOf e])"
proof (cases "\<exists>x\<in>set es. stops st x")
  case True
  then have "takeWhile (\<lambda>e. \<not> stops st e) (es @ [e]) = takeWhile (\<lambda>e. \<not> stops st e) es"
    by (metis (mono_tags, lifting) takeWhile_append1)
  then show ?thesis using True by (simp add: counted_def)
next
  case False
  have "counts U st e \<Longrightarrow> \<not> stops st e" by (auto simp: meaning_defs)
  moreover have all: "takeWhile (\<lambda>e. \<not> stops st e) es = es"
    using False by (simp add: takeWhile_eq_all_conv)
  moreover have "takeWhile (\<lambda>e. \<not> stops st e) (es @ [e]) = es @ (if stops st e then [] else [e])"
    using False by (simp add: takeWhile_append2)
  ultimately show ?thesis using False unfolding counted_def all by auto
qed

lemma effect_run:
  assumes "\<not> psDeleted st" "\<not> psClosureObserved st" "fold (effect U) es (st, []) = (st', votes)"
  shows "identity st' = identity st \<and> (psDeleted st' \<longleftrightarrow> (\<exists>e\<in>set es. deletes st e))
     \<and> (psDeleted st' \<or> psClosureObserved st' \<longleftrightarrow> (\<exists>e\<in>set es. stops st e))
     \<and> votes = fold addVote (counted U st es) []"
  using assms(3)
proof (induction es arbitrary: st' votes rule: rev_induct)
  case Nil
  then show ?case using assms(1,2) by (simp add: counted_def)
next
  case (snoc e es)
  obtain s v where f: "fold (effect U) es (st, []) = (s, v)" by fastforce
  note IH = snoc.IH [OF f]
  have step: "effect U e (s, v) = (st', votes)" using snoc.prems f by simp
  have i: "identity s = identity st" using IH by blast
  note m = meaning_cong [OF i]
  have ident: "identity st' = identity st"
    using effect_identity [of U e s v] step i by simp
  have vs: "votes = fold addVote (counted U st (es @ [e])) []"
    using step IH m by (auto simp: effect_def counted_snoc)
  have "psDeleted st' \<longleftrightarrow> psDeleted s \<or> deletes st e"
    using step m by (auto simp: effect_def split: if_splits)
  moreover have "psDeleted st' \<or> psClosureObserved st' \<longleftrightarrow> psDeleted s \<or> psClosureObserved s \<or> stops st e"
    using step m by (auto simp: effect_def split: if_splits)
  ultimately show ?case using ident vs IH by auto
qed

section \<open>One vote per voter\<close>

lemma addVote_keys: "distinct (map fst votes) \<Longrightarrow> distinct (map fst (addVote w votes))"
  by (auto simp: addVote_def distinct_keys_update split: option.splits)

lemma map_of_addVote:
  "map_of (addVote w votes) = (if \<forall>prev. map_of votes (voterOf w) = Some prev \<longrightarrow> supersedes w prev
     then (map_of votes)(voterOf w \<mapsto> retained w) else map_of votes)"
  by (auto simp: addVote_def split: option.splits)

lemma votes_distinct: "distinct (map fst (fold addVote ws []))"
  by (induction ws rule: rev_induct) (auto intro: addVote_keys)

lemma votes_from:
  "map_of (fold addVote ws []) k = Some v \<Longrightarrow> \<exists>w\<in>set ws. voterOf w = k \<and> v = retained w"
  by (induction ws arbitrary: v rule: rev_induct) (fastforce simp: map_of_addVote split: if_splits)+

lemma supersedes_trans:
  "\<not> supersedes w prev \<Longrightarrow> supersedes w' prev \<Longrightarrow> \<not> supersedes w (retained w')"
  by (auto simp: supersedes_def retained_def)

lemma supersedes_self: "\<not> supersedes w (retained w)"
  by (simp add: supersedes_def retained_def)

lemma votes_latest:
  "w \<in> set ws \<Longrightarrow> \<exists>v. map_of (fold addVote ws []) (voterOf w) = Some v \<and> \<not> supersedes w v"
proof (induction ws rule: rev_induct)
  case (snoc x ws)
  show ?case
  proof (cases "w \<in> set ws")
    case True
    then obtain v where "map_of (fold addVote ws []) (voterOf w) = Some v" "\<not> supersedes w v"
      using snoc.IH by blast
    then show ?thesis using supersedes_trans by (auto simp: map_of_addVote)
  next
    case False
    then have "w = x" using snoc.prems by simp
    then show ?thesis using supersedes_self by (auto simp: map_of_addVote)
  qed
qed simp

lemma votes_standing:
  assumes "map_of (fold addVote ws []) k = Some v" "w \<in> set ws" "voterOf w = k"
  shows "\<not> supersedes w v"
  using votes_latest [OF assms(2)] assms(1,3) by auto

section \<open>Counting\<close>

definition selects :: "nat \<Rightarrow> PollStateVote \<Rightarrow> bool" where
  "selects i v \<longleftrightarrow> i \<in> unat ` set (svOptionIndexes v)"

lemma tallyIndexes_spec:
  assumes "\<forall>x\<in>set idx. unat x < length tally" "distinct idx"
  shows "\<exists>t. tallyIndexes tally idx = Some t \<and> length t = length tally
     \<and> (\<forall>i<length tally. t ! i = tally ! i + (if i \<in> unat ` set idx then 1 else 0))"
  using assms
proof (induction idx arbitrary: tally)
  case (Cons x idx)
  have "unat x \<notin> unat ` set idx" using Cons.prems(2) by (auto dest: unsigned_word_eqI)
  then show ?case
    using Cons.IH [of "tally[unat x := tally ! unat x + 1]"] Cons.prems
    by (auto simp: nth_list_update)
qed simp

lemma tallyVotes_spec:
  assumes "\<forall>v\<in>set vs. distinct (svOptionIndexes v) \<and> (\<forall>x\<in>set (svOptionIndexes v). unat x < length tally)"
  shows "\<exists>t. tallyVotes tally vs = Some t \<and> length t = length tally
     \<and> (\<forall>i<length tally. t ! i = tally ! i + length (filter (selects i) vs))"
  using assms
proof (induction vs arbitrary: tally)
  case (Cons v vs)
  obtain t where t: "tallyIndexes tally (svOptionIndexes v) = Some t" "length t = length tally"
    "\<forall>i<length tally. t ! i = tally ! i + (if i \<in> unat ` set (svOptionIndexes v) then 1 else 0)"
    using tallyIndexes_spec [of "svOptionIndexes v" tally] Cons.prems by auto
  obtain t' where "tallyVotes t vs = Some t'" "length t' = length t"
    "\<forall>i<length t. t' ! i = t ! i + length (filter (selects i) vs)"
    using Cons.IH [of t] Cons.prems t(2) by auto
  then show ?case using t by (auto simp: selects_def [of _ v])
qed simp

section \<open>The reduction\<close>

text \<open>The creation an event is for a poll, and the first one observed.\<close>

definition creates :: "PollReference \<Rightarrow> Event \<Rightarrow> Poll option" where
  "creates ref e = (case e of
     EvMessage msg \<Rightarrow> (case msgPoll msg of
         None \<Rightarrow> None
       | Some poll \<Rightarrow> if Chat_Key (eChat (msgEnv msg)) = Chat_Key (prChat ref)
           \<and> rACI (eSender (msgEnv msg)) = rACI (prAuthor ref) \<and> eTimestamp (msgEnv msg) = prTimestamp ref
           \<and> validReceivedPoll poll then Some poll else None)
   | _ \<Rightarrow> None)"

definition firstCreation :: "PollReference \<Rightarrow> Event list \<Rightarrow> Poll option" where
  "firstCreation ref es = (case List.map_filter (creates ref) es of [] \<Rightarrow> None | p # _ \<Rightarrow> Some p)"

definition createdState :: "PollReference \<Rightarrow> Event list \<Rightarrow> PollState" where
  "createdState ref es = (initialPollState ref)\<lparr>psCreation := firstCreation ref es\<rparr>"

lemma initial_simps [simp]:
  "psChat (initialPollState ref) = prChat ref" "psAuthor (initialPollState ref) = prAuthor ref"
  "psTimestamp (initialPollState ref) = prTimestamp ref" "psCreation (initialPollState ref) = None"
  "psVotes (initialPollState ref) = []" "psTally (initialPollState ref) = []"
  "\<not> psClosureObserved (initialPollState ref)" "\<not> psDeleted (initialPollState ref)"
  "core (initialPollState ref) = initialPollState ref"
  by (simp_all add: initialPollState_def core_def)

lemma firstCreation_snoc:
  "firstCreation ref (es @ [e]) = (case firstCreation ref es of None \<Rightarrow> creates ref e | Some p \<Rightarrow> Some p)"
  by (auto simp: firstCreation_def List.map_filter_def split: list.splits option.splits)

lemma observeCreation_core:
  assumes "psChat st = prChat ref" "psAuthor st = prAuthor ref" "psTimestamp st = prTimestamp ref"
  shows "core (observeCreation e st) =
    (case psCreation st of None \<Rightarrow> (core st)\<lparr>psCreation := creates ref e\<rparr> | Some p \<Rightarrow> core st)"
proof -
  have "psCreation st = None \<Longrightarrow> (core st)\<lparr>psCreation := None\<rparr> = core st"
    by (metis PollState.surjective PollState.update_convs(6) core_simps(4))
  then show ?thesis
    using assms by (auto simp: observeCreation_def creates_def split: Event.splits option.splits)
qed

lemma creation_run: "core (fold observeCreation es (initialPollState ref)) = createdState ref es"
proof (induction es rule: rev_induct)
  case Nil
  show ?case by (simp add: createdState_def firstCreation_def List.map_filter_def initialPollState_def core_def)
next
  case (snoc e es)
  let ?s = "fold observeCreation es (initialPollState ref)"
  have s: "psChat ?s = prChat ref" "psAuthor ?s = prAuthor ref" "psTimestamp ?s = prTimestamp ref"
    "psCreation ?s = firstCreation ref es"
    using arg_cong [OF snoc.IH, of psChat] arg_cong [OF snoc.IH, of psAuthor]
      arg_cong [OF snoc.IH, of psTimestamp] arg_cong [OF snoc.IH, of psCreation]
    by (simp_all add: createdState_def)
  show ?case
    using observeCreation_core [OF s(1-3), of e] snoc.IH s(4)
    by (simp add: createdState_def firstCreation_snoc split: option.splits)
qed

lemma effect_frame:
  "psVotes (fst (effect U e (st, v))) = psVotes st \<and> psTally (fst (effect U e (st, v))) = psTally st"
  by (simp add: effect_def)

lemma effect_run_frame:
  "psVotes (fst (fold (effect U) es (st, v))) = psVotes st \<and> psTally (fst (fold (effect U) es (st, v))) = psTally st"
proof (induction es arbitrary: st v)
  case (Cons e es)
  obtain s w where "effect U e (st, v) = (s, w)" by fastforce
  then show ?case using Cons.IH [of s w] effect_frame [of U e st v] by simp
qed simp

lemma validObservedVote_D:
  assumes "validObservedVote U w c"
  shows "distinct (vOptionIndexes (pvVote w))"
    and "\<exists>u. uuid_Parse U (voterOf w) = Some u \<and> uuid_String U u = voterOf w"
    and "c = Some p \<Longrightarrow> (\<forall>x\<in>set (vOptionIndexes (pvVote w)). unat x < length (pOptions p))
           \<and> (pAllowMultiple p \<or> length (vOptionIndexes (pvVote w)) \<le> 1)"
  using assms
  by (auto simp: validObservedVote_def PollVote_Check_def PollVote_check_iff list_all_iff
      split: option.splits if_splits)

lemma counted_valid: "w \<in> set (counted U st es) \<Longrightarrow> validObservedVote U w (psCreation st)"
  by (auto simp: counted_def counts_def voteOf_def)

definition sortedVotes :: "votes \<Rightarrow> PollStateVote list" where
  "sortedVotes votes = sort_key (\<lambda>v. rACI (svVoter v)) (map snd votes)"

definition tallyOf :: "PollState \<Rightarrow> nat list" where
  "tallyOf st = (case psCreation st of
     None \<Rightarrow> []
   | Some p \<Rightarrow> if psDeleted st then []
       else map (\<lambda>i. length (filter (selects i) (psVotes st))) [0..<length (pOptions p)])"

lemma tallyOf_psTally [simp]: "tallyOf (st\<lparr>psTally := t\<rparr>) = tallyOf st"
  by (simp add: tallyOf_def split: option.split)

lemma counted_cong: "identity s = identity t \<Longrightarrow> counted U s es = counted U t es"
  using meaning_cong [of s t] by (simp add: counted_def cong: filter_cong)

lemma retained_votes_wf:
  assumes "v \<in> set (map snd (fold addVote (counted U st es) []))"
  shows "\<exists>w\<in>set (counted U st es). v = retained w"
proof -
  obtain k where "(k, v) \<in> set (fold addVote (counted U st es) [])" using assms by auto
  then have "map_of (fold addVote (counted U st es) []) k = Some v"
    using votes_distinct by simp
  then show ?thesis using votes_from by blast
qed

lemma finalize_spec:
  assumes "psVotes st = []" "psTally st = []" "votes = fold addVote (counted U st es) []"
  shows "finalizeVotes (st, votes) =
     Some (let st' = st\<lparr>psVotes := sortedVotes votes\<rparr> in st'\<lparr>psTally := tallyOf st'\<rparr>)"
proof (cases "psCreation st = None \<or> psDeleted st")
  case True
  have "st\<lparr>psVotes := vs, psTally := []\<rparr> = st\<lparr>psVotes := vs\<rparr>" for vs
    using assms(2) by (cases st) simp
  then show ?thesis
    using True assms(1) by (auto simp: finalizeVotes_def tallyOf_def sortedVotes_def Let_def split: option.splits)
next
  case False
  then obtain p where p: "psCreation st = Some p" and d: "\<not> psDeleted st" by auto
  let ?vs = "sortedVotes votes" and ?n = "length (pOptions p)"
  have "distinct (svOptionIndexes v) \<and> (\<forall>x\<in>set (svOptionIndexes v). unat x < ?n)" if "v \<in> set ?vs" for v
  proof -
    have "v \<in> set (map snd (fold addVote (counted U st es) []))"
      using that assms(3) by (simp add: sortedVotes_def)
    then obtain w where w: "w \<in> set (counted U st es)" "v = retained w"
      using retained_votes_wf by blast
    show ?thesis
      using validObservedVote_D [OF counted_valid [OF w(1)]] p by (simp add: w(2) retained_def)
  qed
  then obtain t where t: "tallyVotes (replicate ?n 0) ?vs = Some t" "length t = ?n"
    "\<forall>i<?n. t ! i = length (filter (selects i) ?vs)"
    using tallyVotes_spec [of ?vs "replicate ?n 0"] by auto
  then have "t = map (\<lambda>i. length (filter (selects i) ?vs)) [0..<?n]"
    by (intro nth_equalityI) simp_all
  then show ?thesis
    using t p d assms(1) by (simp add: finalizeVotes_def tallyOf_def sortedVotes_def Let_def)
qed

lemma ReducePoll_spec:
  "\<exists>st. ReducePoll U ref es = Some st
     \<and> identity st = (Chat_Key (prChat ref), rACI (prAuthor ref), prTimestamp ref, firstCreation ref es)
     \<and> (psDeleted st \<longleftrightarrow> (\<exists>e\<in>set es. deletes st e))
     \<and> (psDeleted st \<or> psClosureObserved st \<longleftrightarrow> (\<exists>e\<in>set es. stops st e))
     \<and> psVotes st = sortedVotes (fold addVote (counted U st es) [])
     \<and> psTally st = tallyOf st
     \<and> core st = (let c = fst (fold (effect U) es (createdState ref es, []));
                      c' = (core c)\<lparr>psVotes := psVotes st\<rparr> in c'\<lparr>psTally := tallyOf st\<rparr>)"
proof -
  let ?b = "createdState ref es"
  obtain c votes where c: "fold (effect U) es (?b, []) = (c, votes)" by fastforce
  obtain s v where s: "fold (observeControl U) es (fold observeCreation es (initialPollState ref), []) = (s, v)"
    by fastforce
  have b: "core (fold observeCreation es (initialPollState ref)) = core ?b"
    using creation_run [of es ref] by (metis core_simps(13))
  have sc: "core s = core c" "v = votes"
    using control_run [OF b, of U es "[]"] c s by simp_all
  have bi: "\<not> psDeleted ?b" "\<not> psClosureObserved ?b" "psVotes ?b = []" "psTally ?b = []"
    "identity ?b = (Chat_Key (prChat ref), rACI (prAuthor ref), prTimestamp ref, firstCreation ref es)"
    by (simp_all add: createdState_def identity_def)
  note run = effect_run [OF bi(1,2) c]
  have si: "identity s = identity ?b" using run identity_core [OF sc(1)] by simp
  have fr: "psVotes s = []" "psTally s = []"
    using effect_run_frame [of U es ?b "[]"] c bi(3,4) core_eqD [OF sc(1)] by simp_all
  have vs: "v = fold addVote (counted U s es) []"
    using run sc(2) counted_cong [OF si] by simp
  let ?st = "let st' = s\<lparr>psVotes := sortedVotes v\<rparr> in st'\<lparr>psTally := tallyOf st'\<rparr>"
  have ti: "identity ?st = identity s" by (simp add: identity_def Let_def)
  have r: "ReducePoll U ref es = Some ?st"
    using finalize_spec [OF fr vs] s by (simp add: ReducePoll_def)
  have m: "deletes ?st e \<longleftrightarrow> deletes ?b e" "closes ?st e \<longleftrightarrow> closes ?b e" for e
    using meaning_cong [of ?st ?b] ti si by auto
  have "counted U ?st es = counted U s es" by (rule counted_cong [OF ti])
  moreover have "tallyOf ?st = tallyOf (s\<lparr>psVotes := sortedVotes v\<rparr>)"
    by (simp add: Let_def)
  moreover have "psDeleted ?st = psDeleted c" "psClosureObserved ?st = psClosureObserved c"
    using core_eqD [OF sc(1)] by (simp_all add: Let_def)
  moreover have "core ?st = (let c' = (core c)\<lparr>psVotes := psVotes ?st\<rparr> in c'\<lparr>psTally := tallyOf ?st\<rparr>)"
    using sc(1) by (simp add: Let_def)
  moreover have "(\<exists>e\<in>set es. deletes ?b e) \<or> psClosureObserved c \<longleftrightarrow> (\<exists>e\<in>set es. stops ?b e)"
    using run by blast
  ultimately show ?thesis
    using r run si ti vs bi(5) m c by (intro exI [of _ ?st]) (simp add: Let_def)
qed

lemma ReducePoll_D:
  assumes "ReducePoll U ref es = Some st"
  shows "identity st = (Chat_Key (prChat ref), rACI (prAuthor ref), prTimestamp ref, firstCreation ref es)"
    and "psDeleted st \<longleftrightarrow> (\<exists>e\<in>set es. deletes st e)"
    and "psDeleted st \<or> psClosureObserved st \<longleftrightarrow> (\<exists>e\<in>set es. stops st e)"
    and "psVotes st = sortedVotes (fold addVote (counted U st es) [])"
    and "psTally st = tallyOf st"
    and "core st = (let c = fst (fold (effect U) es (createdState ref es, []));
                      c' = (core c)\<lparr>psVotes := psVotes st\<rparr> in c'\<lparr>psTally := tallyOf st\<rparr>)"
  using ReducePoll_spec [of U ref es, unfolded assms option.inject simp_thms] by - (elim conjE, assumption)+

lemma set_sortedVotes [simp]: "set (sortedVotes votes) = snd ` set votes"
  by (simp add: sortedVotes_def)

lemma retained_voter [simp]: "svVoter (retained w) = eSender (pvEnv w)" "svVoteCount (retained w) = vVoteCount (pvVote w)"
  by (simp_all add: retained_def)

lemma addVotes_keys:
  assumes "(k, v) \<in> set (fold addVote ws [])"
  shows "rACI (svVoter v) = k" "\<exists>w\<in>set ws. v = retained w"
proof -
  have "map_of (fold addVote ws []) k = Some v" using assms votes_distinct by simp
  from votes_from [OF this] show "rACI (svVoter v) = k" "\<exists>w\<in>set ws. v = retained w" by auto
qed

lemma sortedVotes_strict:
  "sorted_wrt (<) (map (\<lambda>v. rACI (svVoter v)) (sortedVotes (fold addVote ws [])))"
proof -
  let ?f = "\<lambda>v. rACI (svVoter v)" and ?a = "fold addVote ws []"
  have "map (?f \<circ> snd) ?a = map fst ?a"
    using addVotes_keys(1) by (intro map_cong) auto
  then have "distinct (map ?f (map snd ?a))" using votes_distinct [of ws] by (simp only: map_map)
  then have "distinct (map ?f (sortedVotes ?a))"
    unfolding sortedVotes_def by (metis distinct_map distinct_sort set_sort)
  then show ?thesis by (simp add: strict_sorted_iff sortedVotes_def)
qed

section \<open>Redelivery\<close>

lemma addVote_again:
  assumes "w \<in> set ws"
  shows "addVote w (fold addVote ws []) = fold addVote ws []"
  using votes_latest [OF assms] by (auto simp: addVote_def)

lemma firstCreation_again: "e \<in> set es \<Longrightarrow> firstCreation ref (es @ [e]) = firstCreation ref es"
  by (auto simp: firstCreation_snoc firstCreation_def List.map_filter_def filter_empty_conv
      split: option.splits list.splits)

lemma counted_mem:
  assumes "\<forall>x\<in>set es. \<not> stops st x" "counts U st e" "e \<in> set es"
  shows "voteOf e \<in> set (counted U st es)"
proof -
  have "takeWhile (\<lambda>e. \<not> stops st e) es = es" using assms(1) by (simp only: takeWhile_eq_all_conv)
  then show ?thesis using assms(2,3) unfolding counted_def by (simp only: set_map set_filter) blast
qed

lemma effect_again:
  assumes "e \<in> set es" "fold (effect U) es (createdState ref es, []) = (c, votes)"
  shows "effect U e (c, votes) = (c, votes)"
proof -
  let ?b = "createdState ref es"
  have "\<not> psDeleted ?b" "\<not> psClosureObserved ?b" by (simp_all add: createdState_def)
  note run = effect_run [OF this assms(2)]
  have i: "identity c = identity ?b" using run by blast
  have d: "psDeleted c \<longleftrightarrow> (\<exists>x\<in>set es. deletes c x)"
    and stp: "psDeleted c \<or> psClosureObserved c \<longleftrightarrow> (\<exists>x\<in>set es. stops c x)"
    and vs: "votes = fold addVote (counted U c es) []"
    unfolding meaning_cong [OF i] counted_cong [OF i] using run by blast+
  have "c\<lparr>psDeleted := True\<rparr> = c" if "psDeleted c" using that by (cases c) simp
  moreover have "deletes c e \<Longrightarrow> psDeleted c" using d assms(1) by blast
  moreover have "closes c e \<Longrightarrow> psDeleted c \<or> psClosureObserved c" using stp assms(1) by blast
  moreover have "addVote (voteOf e) votes = votes"
    if "counts U c e" "\<not> psDeleted c" "\<not> psClosureObserved c"
  proof -
    have "\<forall>x\<in>set es. \<not> stops c x" using that stp by blast
    then have "voteOf e \<in> set (counted U c es)" using that assms(1) counted_mem by blast
    then show ?thesis unfolding vs by (rule addVote_again)
  qed
  ultimately show ?thesis by (auto simp: effect_def)
qed

text \<open>A small poll for the witnesses: created in a group, with two votes of one voter.\<close>

definition demoACI :: "nat \<Rightarrow> string" where
  "demoACI n = plain_uuid_String (replicate 16 (char_of n))"

definition demoEnv :: "nat \<Rightarrow> u64 \<Rightarrow> Envelope" where
  "demoEnv n ts = \<lparr>eSender = aciRecipient (demoACI n), eChat = noChat\<lparr>cGroupID := ''g''\<rparr>,
     eTimestamp = ts, eServerTimestamp = ts, eSync = False\<rparr>"

definition demoRef :: PollReference where
  "demoRef = \<lparr>prChat = noChat\<lparr>cGroupID := ''g''\<rparr>, prAuthor = aciRecipient (demoACI 1), prTimestamp = 5\<rparr>"

definition demoPoll :: Poll where
  "demoPoll = \<lparr>pQuestion = ''Lunch?'', pOptions = [''yes'', ''no''], pAllowMultiple = False\<rparr>"

definition demoVote :: "u32 \<Rightarrow> u32 \<Rightarrow> PollVote" where
  "demoVote opt count = \<lparr>pvEnv = demoEnv 2 7, pvVote = \<lparr>vTargetAuthor = aciRecipient (demoACI 1),
     vTargetTimestamp = 5, vOptionIndexes = [opt], vVoteCount = count\<rparr>\<rparr>"

definition demoEvents :: "Event list" where
  "demoEvents = [EvMessage (noMessage\<lparr>msgEnv := demoEnv 1 5, msgPoll := Some demoPoll\<rparr>),
     EvPollVote (demoVote 0 1), EvPollVote (demoVote 1 2)]"

lemma demo_created: "firstCreation demoRef demoEvents = Some demoPoll"
proof -
  have "pollText ''Lunch?'' 200" "pollText ''yes'' 100" "pollText ''no'' 100"
    by (auto intro!: pollText_simple simp: byte_def)
  then have "validReceivedPoll demoPoll"
    by (simp add: validReceivedPoll_def validPollText_def pollText_def demoPoll_def
        maxReceivedPollQuestion_def maxReceivedPollOption_def)
  then have "creates demoRef (hd demoEvents) = Some demoPoll"
    by (simp add: creates_def demoEvents_def demoRef_def demoEnv_def)
  then show ?thesis by (simp add: firstCreation_def List.map_filter_def demoEvents_def)
qed

lemma demo_state:
  obtains st where "ReducePoll U demoRef demoEvents = Some st" "psCreation st = Some demoPoll" "\<not> psDeleted st"
proof -
  obtain st where st: "ReducePoll U demoRef demoEvents = Some st" using ReducePoll_spec by blast
  moreover have "psCreation st = Some demoPoll"
    using ReducePoll_D(1) [OF st] by (simp add: identity_def demo_created)
  moreover have "\<not> psDeleted st"
    using ReducePoll_D(2) [OF st] by (simp add: demoEvents_def deletes_def)
  ultimately show ?thesis using that by blast
qed

lemma demoACI_parse: "uuid_Parse plain_uuid (demoACI n) = Some (replicate 16 (char_of n))"
  using uuid_laws_parse [OF plain_uuid_laws] by (simp add: demoACI_def plain_uuid_def)

lemma demo_counted:
  assumes "ReducePoll plain_uuid demoRef demoEvents = Some st"
  shows "counted plain_uuid st demoEvents = [demoVote 0 1, demoVote 1 2]"
proof -
  have st: "Chat_Key (psChat st) = Chat_Key (prChat demoRef)" "rACI (psAuthor st) = demoACI 1" "psTimestamp st = 5"
    "psCreation st = Some demoPoll"
    using ReducePoll_D(1) [OF assms, unfolded demo_created] by (simp_all add: identity_def demoRef_def aciRecipient_def)
  have aci: "uuid_String plain_uuid (replicate 16 (char_of n)) = demoACI n" for n
    by (simp add: demoACI_def plain_uuid_def)
  have nil: "replicate 16 (char_of (1::nat)) \<noteq> uuid_Nil" by (simp add: uuid_Nil_def)
  have "validObservedVote plain_uuid (demoVote k c) (Some demoPoll)" if "k = 0 \<or> k = 1" for k c
    using that nil by (auto simp: validObservedVote_def demoVote_def demoEnv_def aciRecipient_def demoACI_parse aci
      PollVote_Check_def PollVote_check_def demoPoll_def pollMaxOptions_def)
  then show ?thesis
    by (simp add: counted_def demoEvents_def meaning_defs st demoRef_def demoVote_def demoEnv_def voteOf_def aciRecipient_def)
qed

section \<open>Properties\<close>

text \<open>Reducing never panics: every retained index is within the tally, whatever the observations
  are, in whatever order they were delivered. \<close>

lemma ReducePoll_total: "\<exists>st. ReducePoll U ref events = Some st"
  using ReducePoll_spec by blast

text \<open>The tally counts the retained selections.\<close>

lemma reduced_tally:
  assumes "ReducePoll U ref events = Some st" "psCreation st = Some p" "\<not> psDeleted st"
  shows "psTally st = map (\<lambda>i. length (filter (\<lambda>v. i \<in> unat ` set (svOptionIndexes v)) (psVotes st)))
           [0..<length (pOptions p)]
    \<and> sorted_wrt (<) (map (\<lambda>v. rACI (svVoter v)) (psVotes st))
    \<and> (\<forall>v\<in>set (psVotes st). (\<forall>i\<in>set (svOptionIndexes v). unat i < length (pOptions p))
         \<and> (pAllowMultiple p \<or> length (svOptionIndexes v) \<le> 1))"
proof (intro conjI ballI)
  note D = ReducePoll_D [OF assms(1)]
  show "psTally st = map (\<lambda>i. length (filter (\<lambda>v. i \<in> unat ` set (svOptionIndexes v)) (psVotes st))) [0..<length (pOptions p)]"
    using D(5) assms(2,3) by (simp add: tallyOf_def selects_def [abs_def])
  show "sorted_wrt (<) (map (\<lambda>v. rACI (svVoter v)) (psVotes st))"
    unfolding D(4) by (rule sortedVotes_strict)
  fix v assume "v \<in> set (psVotes st)"
  then obtain w where w: "w \<in> set (counted U st events)" "v = retained w"
    unfolding D(4) using addVotes_keys(2) by fastforce
  note V = validObservedVote_D(3) [OF counted_valid [OF w(1)] assms(2)]
  show "i \<in> set (svOptionIndexes v) \<Longrightarrow> unat i < length (pOptions p)" for i
    using V w(2) by (simp add: retained_def)
  show "pAllowMultiple p \<or> length (svOptionIndexes v) \<le> 1"
    using V w(2) by (simp add: retained_def)
qed

text \<open>C7: Reducing never panics (every retained index is within the tally), whatever the observations
  are, in whatever order they were delivered. The tally of a known poll that is not deleted has one
  count per answer, and each count is the number of voters whose retained selection has that answer;
  votes are in strictly increasing order of their voter's ACI (one per voter), and with a
  single-choice poll no voter has more than one answer. \<close>

theorem ReducePoll_tally:
  "\<exists>st. ReducePoll U ref events = Some st
    \<and> (\<forall>p. psCreation st = Some p \<and> \<not> psDeleted st \<longrightarrow>
        psTally st = map (\<lambda>i. length (filter (\<lambda>v. i \<in> unat ` set (svOptionIndexes v)) (psVotes st))) [0..<length (pOptions p)]
        \<and> sorted_wrt (<) (map (\<lambda>v. rACI (svVoter v)) (psVotes st))
        \<and> (\<forall>v\<in>set (psVotes st). (\<forall>i\<in>set (svOptionIndexes v). unat i < length (pOptions p))
             \<and> (pAllowMultiple p \<or> length (svOptionIndexes v) \<le> 1)))"
  using ReducePoll_total reduced_tally by metis

theorem ReducePoll_tally_witness:
  "\<exists>st. ReducePoll plain_uuid demoRef demoEvents = Some st \<and> length (psTally st) = 2"
proof -
  obtain st where st: "ReducePoll plain_uuid demoRef demoEvents = Some st" "psCreation st = Some demoPoll" "\<not> psDeleted st"
    by (rule demo_state)
  then show ?thesis using ReducePoll_tally [of plain_uuid demoRef demoEvents] by (auto simp: demoPoll_def)
qed

text \<open>C6: The retained votes are the latest ones. Every voter with a counted vote (valid, on this poll,
  before the author closes or deletes it) has exactly one retained vote, and no two retained votes
  have one voter. Every retained vote is one of its voter's counted votes, and no counted vote of that
  voter supersedes it: none has a larger counter, and none with the same counter is a newer sync.
  The poll is deleted exactly when its author deleted it. \<close>

theorem ReducePoll_latest:
  assumes "ReducePoll U ref events = Some st"
  shows "(\<forall>w\<in>set (counted U st events). \<exists>!v. v \<in> set (psVotes st) \<and> rACI (svVoter v) = voterOf w)
    \<and> distinct (map (\<lambda>v. rACI (svVoter v)) (psVotes st))
    \<and> (\<forall>v\<in>set (psVotes st).
          (\<exists>w\<in>set (counted U st events). v = retained w)
        \<and> (\<forall>w\<in>set (counted U st events). voterOf w = rACI (svVoter v) \<longrightarrow>
              \<not> supersedes w v \<and> vVoteCount (pvVote w) \<le> svVoteCount v))
    \<and> (psDeleted st \<longleftrightarrow> (\<exists>e\<in>set events. deletes st e))"
proof (intro conjI ballI impI)
  note D = ReducePoll_D [OF assms]
  let ?ws = "counted U st events"
  show del: "psDeleted st \<longleftrightarrow> (\<exists>e\<in>set events. deletes st e)" by (rule D(2))
  show one: "distinct (map (\<lambda>v. rACI (svVoter v)) (psVotes st))"
    using sortedVotes_strict [of ?ws] by (simp add: D(4) strict_sorted_iff)
  show "\<exists>!v. v \<in> set (psVotes st) \<and> rACI (svVoter v) = voterOf w" if w: "w \<in> set ?ws" for w
  proof (rule ex_ex1I)
    obtain v where "map_of (fold addVote ?ws []) (voterOf w) = Some v" using votes_latest [OF w] by blast
    then have "(voterOf w, v) \<in> set (fold addVote ?ws [])" by (rule map_of_SomeD)
    then show "\<exists>v. v \<in> set (psVotes st) \<and> rACI (svVoter v) = voterOf w"
      unfolding D(4) using addVotes_keys(1) by fastforce
  qed (use one in \<open>auto simp: distinct_map inj_on_def\<close>)
  fix v assume "v \<in> set (psVotes st)"
  then obtain k where k: "(k, v) \<in> set (fold addVote ?ws [])" unfolding D(4) by auto
  then show "\<exists>w\<in>set ?ws. v = retained w" by (rule addVotes_keys(2))
  from k have m: "map_of (fold addVote ?ws []) (rACI (svVoter v)) = Some v"
    using addVotes_keys(1) [OF k] votes_distinct by simp
  fix w assume "w \<in> set ?ws" "voterOf w = rACI (svVoter v)"
  then show "\<not> supersedes w v" by (rule votes_standing [OF m])
  then show "vVoteCount (pvVote w) \<le> svVoteCount v" by (simp add: supersedes_def linorder_not_less)
qed

text \<open>Of a voter's two votes the one with the larger counter is kept. \<close>

theorem ReducePoll_latest_witness:
  "\<exists>st. ReducePoll plain_uuid demoRef demoEvents = Some st \<and> map svVoteCount (psVotes st) = [2]
     \<and> map svOptionIndexes (psVotes st) = [[1]]"
proof -
  obtain st where st: "ReducePoll plain_uuid demoRef demoEvents = Some st" using demo_state by blast
  note L = ReducePoll_latest [OF st, unfolded demo_counted [OF st]]
  have voter: "voterOf (demoVote k c) = demoACI 2" for k c by (simp add: demoVote_def demoEnv_def aciRecipient_def)
  have "v = retained (demoVote 1 2)" if v: "v \<in> set (psVotes st)" for v
  proof -
    have two: "v = retained (demoVote 0 1) \<or> v = retained (demoVote 1 2)" using L v by auto
    then have "rACI (svVoter v) = demoACI 2" using voter by auto
    then have "svVoteCount v \<noteq> 1" using L v voter by (auto simp: demoVote_def word_le_def)
    then show ?thesis using two by (auto simp: retained_def demoVote_def)
  qed
  moreover have "\<exists>v. v \<in> set (psVotes st)" using L by auto
  moreover have "distinct (psVotes st)" using L distinct_map by blast
  ultimately have "set (psVotes st) = {retained (demoVote 1 2)}" "distinct (psVotes st)" by blast+
  moreover from this have "length (psVotes st) = 1" using distinct_card by fastforce
  ultimately have "psVotes st = [retained (demoVote 1 2)]" by (auto simp: length_Suc_conv)
  then show ?thesis using st by (auto simp: retained_def demoVote_def)
qed

text \<open>C16: Delivering an observation again changes nothing but the counters of ignored and conflicting
  observations: creation, votes, tally, closure and deletion stay. \<close>

theorem ReducePoll_redelivery:
  assumes "event \<in> set events"
  shows "map_option core (ReducePoll U ref (events @ [event])) = map_option core (ReducePoll U ref events)"
proof -
  obtain c votes where c: "fold (effect U) events (createdState ref events, []) = (c, votes)" by fastforce
  have b: "createdState ref (events @ [event]) = createdState ref events"
    using firstCreation_again [OF assms] by (simp add: createdState_def)
  have c': "fold (effect U) (events @ [event]) (createdState ref (events @ [event]), []) = (c, votes)"
    using c effect_again [OF assms c] by (simp add: b)
  obtain s where s: "ReducePoll U ref events = Some s" using ReducePoll_spec by blast
  obtain t where t: "ReducePoll U ref (events @ [event]) = Some t" using ReducePoll_spec by blast
  note S = ReducePoll_D [OF s] and T = ReducePoll_D [OF t]
  have i: "identity t = identity s" using S(1) T(1) firstCreation_again [OF assms] by simp
  have "counted U t (events @ [event]) = counted U s (events @ [event])" by (rule counted_cong [OF i])
  moreover have "fold addVote (counted U s (events @ [event])) [] = fold addVote (counted U s events) []"
  proof (cases "(\<exists>x\<in>set events. stops s x) \<or> \<not> counts U s event")
    case False
    then have "voteOf event \<in> set (counted U s events)"
      using assms counted_mem by blast
    then show ?thesis using addVote_again False by (simp add: counted_snoc)
  qed (simp add: counted_snoc)
  ultimately have v: "psVotes t = psVotes s" using S(4) T(4) by simp
  have "psDeleted t \<longleftrightarrow> psDeleted s"
    using S(2) T(2) meaning_cong [OF i] assms by auto
  then have "tallyOf t = tallyOf s" using v i by (simp add: tallyOf_def identity_def split: option.split)
  then have "core t = core s" using S(6) T(6) v c c' by (simp add: Let_def)
  then show ?thesis using s t by simp
qed

theorem ReducePoll_redelivery_witness:
  "map_option core (ReducePoll plain_uuid demoRef (demoEvents @ [EvPollVote (demoVote 0 1)]))
   = map_option core (ReducePoll plain_uuid demoRef demoEvents)"
proof -
  have "EvPollVote (demoVote 0 1) \<in> set demoEvents" by (simp add: demoEvents_def)
  then show ?thesis by (rule ReducePoll_redelivery)
qed

end
