(* ===== verification/PollTables.thy ===== *)
theory PollTables
  imports InboxTable EventCodec PollReducer
begin

text \<open>
  The durable poll tables (internal/store poll\_projections.go, poll\_counters.go, Meta and SetMeta of
  store.go, upgrades 09 and 10) and the client code that fills them (internal/signal
  meow\_poll\_projection.go, meow\_poll\_counters.go). Tables are association lists by primary key, the
  evidence a list in the order of its IDs. An operation runs on the database with the number of
  statements executed so far; \<open>F n\<close> says whether statement \<open>n\<close> fails. The
  encodings and SHA-256 are arguments.
\<close>

section \<open>Database\<close>

record PollKey =
  pkChat :: string
  pkAuthor :: string
  pkTimestamp :: u64

record PollObservation =
  obKey :: PollKey
  obHash :: string
  obEvent :: bytes

type_synonym poll_pk = "string \<times> string \<times> string"

record evidence_row =
  evKey :: poll_pk
  evHash :: string
  evEvent :: bytes

record polldb =
  dbInbox :: gosignal_inbox
  dbMeta :: "(string \<times> string) list"
  dbEvidence :: "evidence_row list"
  dbProjections :: "(poll_pk \<times> bytes) list"
  dbCounters :: "(poll_pk \<times> nat) list"

type_synonym dbstate = "polldb \<times> nat"
type_synonym 'a dbop = "dbstate \<Rightarrow> dbstate \<times> 'a res"

definition poll_pk :: "string \<Rightarrow> string \<Rightarrow> u64 \<Rightarrow> poll_pk" where
  "poll_pk chat author timestamp = (chat, author, FormatNat (unat timestamp))"

definition keyPK :: "PollKey \<Rightarrow> poll_pk" where
  "keyPK key = poll_pk (pkChat key) (pkAuthor key) (pkTimestamp key)"

text \<open>One statement, and sequencing that stops at the first error.\<close>

definition sql :: "(nat \<Rightarrow> fault) \<Rightarrow> string \<Rightarrow> (polldb \<Rightarrow> polldb \<times> 'a) \<Rightarrow> 'a dbop" where
  "sql F ctx stmt s = (case s of (db, n) \<Rightarrow> (case F n of
     Some msg \<Rightarrow> ((db, Suc n), Inl (Wrap ctx [Opaque msg]))
   | None \<Rightarrow> (case stmt db of (db', a) \<Rightarrow> ((db', Suc n), Inr a))))"

definition bind_op :: "'a dbop \<Rightarrow> ('a \<Rightarrow> 'b dbop) \<Rightarrow> 'b dbop" where
  "bind_op m k s = (case m s of (s', Inl e) \<Rightarrow> (s', Inl e) | (s', Inr a) \<Rightarrow> k a s')"

definition return_op :: "'a \<Rightarrow> 'a dbop" where
  "return_op a s = (s, Inr a)"

definition fail_op :: "err \<Rightarrow> 'a dbop" where
  "fail_op e s = (s, Inl e)"

section \<open>Meta data (store.go)\<close>

definition Meta :: "(nat \<Rightarrow> fault) \<Rightarrow> string \<Rightarrow> string option dbop" where
  "Meta F key = sql F ''read meta'' (\<lambda>db. (db, map_of (dbMeta db) key))"

definition SetMeta :: "(nat \<Rightarrow> fault) \<Rightarrow> string \<Rightarrow> string \<Rightarrow> unit dbop" where
  "SetMeta F key val = sql F ''write meta'' (\<lambda>db. (db\<lparr>dbMeta := AList.update key val (dbMeta db)\<rparr>, ()))"

section \<open>Projections (poll\_projections.go)\<close>

definition addPollEvidence :: "(nat \<Rightarrow> fault) \<Rightarrow> PollObservation \<Rightarrow> PollKey list \<Rightarrow> PollKey list dbop" where
  "addPollEvidence F obs changed =
    bind_op (sql F ''write poll evidence'' (\<lambda>db.
        if \<exists>r\<in>set (dbEvidence db). evKey r = keyPK (obKey obs) \<and> evHash r = obHash obs then (db, 0::nat)
        else (db\<lparr>dbEvidence := dbEvidence db @
                   [\<lparr>evKey = keyPK (obKey obs), evHash = obHash obs, evEvent = obEvent obs\<rparr>]\<rparr>, 1)))
      (\<lambda>count. return_op (if count > 0 then List.insert (obKey obs) changed else changed))"

definition reducePoll :: "(nat \<Rightarrow> fault) \<Rightarrow> (PollKey \<Rightarrow> bytes list \<Rightarrow> bytes res) \<Rightarrow> PollKey \<Rightarrow> unit dbop" where
  "reducePoll F reduce key =
    bind_op (sql F ''read poll evidence'' (\<lambda>db.
        (db, map evEvent (filter (\<lambda>r. evKey r = keyPK key) (dbEvidence db)))))
      (\<lambda>events. case reduce key events of
         Inl e \<Rightarrow> fail_op (Wrap ''reduce poll evidence'' [e])
       | Inr state \<Rightarrow> sql F ''write poll projection'' (\<lambda>db.
           (db\<lparr>dbProjections := AList.update (keyPK key) state (dbProjections db)\<rparr>, ())))"

fun reduceChanged :: "(nat \<Rightarrow> fault) \<Rightarrow> (PollKey \<Rightarrow> bytes list \<Rightarrow> bytes res) \<Rightarrow> PollKey list \<Rightarrow> unit dbop" where
  "reduceChanged F reduce [] = return_op ()"
| "reduceChanged F reduce (key # keys) = bind_op (reducePoll F reduce key) (\<lambda>_. reduceChanged F reduce keys)"

definition pollSeedBatchSize :: int where "pollSeedBatchSize = 1000"

text \<open>The loop over one batch; it returns the keys changed and the last ID.\<close>

fun seedRecords :: "(nat \<Rightarrow> fault) \<Rightarrow> (InboxRecord \<Rightarrow> PollObservation option res) \<Rightarrow> InboxRecord list
    \<Rightarrow> int \<Rightarrow> PollKey list \<Rightarrow> (int \<times> PollKey list) dbop" where
  "seedRecords F seed [] after changed = return_op (after, changed)"
| "seedRecords F seed (rec # recs) after changed = (case seed rec of
     Inl e \<Rightarrow> fail_op (Wrap ''decode poll seed'' [e])
   | Inr None \<Rightarrow> seedRecords F seed recs (irID rec) changed
   | Inr (Some obs) \<Rightarrow> bind_op (addPollEvidence F obs changed)
       (\<lambda>changed'. seedRecords F seed recs (irID rec) changed'))"

definition batchFilter :: "int \<Rightarrow> InboxFilter" where
  "batchFilter after = noFilter\<lparr>ifAfter := after, ifLimit := pollSeedBatchSize\<rparr>"

text \<open>The unbounded loop, on fuel; \<open>ProjectPolls\<close> gives it enough for every batch (shown below).\<close>

fun seedPolls :: "nat \<Rightarrow> (nat \<Rightarrow> fault) \<Rightarrow> (InboxRecord \<Rightarrow> PollObservation option res) \<Rightarrow> int
    \<Rightarrow> PollKey list \<Rightarrow> PollKey list dbop" where
  "seedPolls 0 F seed after changed = fail_op (Opaque ''out of fuel'')"
| "seedPolls (Suc fuel) F seed after changed =
    bind_op (\<lambda>(db, n). ((db, Suc n), InboxRecords (F n) (batchFilter after) (dbInbox db)))
      (\<lambda>records. if records = [] then return_op changed
        else bind_op (seedRecords F seed records after changed)
          (\<lambda>(after', changed'). seedPolls fuel F seed after' changed'))"

definition seededKey :: string where "seededKey = ''poll-projections-seeded''"

definition projectBody :: "(nat \<Rightarrow> fault) \<Rightarrow> (InboxRecord \<Rightarrow> PollObservation option res)
    \<Rightarrow> (PollKey \<Rightarrow> bytes list \<Rightarrow> bytes res) \<Rightarrow> PollObservation option \<Rightarrow> unit dbop" where
  "projectBody F seed reduce next =
    bind_op (Meta F seededKey) (\<lambda>ready.
    bind_op (if ready = None
             then (\<lambda>(db, n). bind_op (seedPolls (length (ibRows (dbInbox db)) + 2) F seed 0 [])
                     (\<lambda>changed. bind_op (SetMeta F seededKey ''1'') (\<lambda>_. return_op changed)) (db, n))
             else return_op []) (\<lambda>changed.
    bind_op (case next of None \<Rightarrow> return_op changed | Some obs \<Rightarrow> addPollEvidence F obs changed) (\<lambda>changed'.
    reduceChanged F reduce changed')))"

definition ProjectPolls :: "(nat \<Rightarrow> fault) \<Rightarrow> fault \<Rightarrow> fault \<Rightarrow> (InboxRecord \<Rightarrow> PollObservation option res)
    \<Rightarrow> (PollKey \<Rightarrow> bytes list \<Rightarrow> bytes res) \<Rightarrow> PollObservation option \<Rightarrow> polldb \<Rightarrow> polldb \<times> err option" where
  "ProjectPolls F beginFault commitFault seed reduce next db =
    (case DoTxn beginFault commitFault
        (\<lambda>db. case projectBody F seed reduce next (db, 0) of ((db', _), r) \<Rightarrow> (db', r)) db of
       (db', Inl e) \<Rightarrow> (db', Some (Wrap ''project polls'' [e]))
     | (db', Inr _) \<Rightarrow> (db', None))"

definition PollProjectionRecord :: "fault \<Rightarrow> PollKey \<Rightarrow> polldb \<Rightarrow> bytes option res" where
  "PollProjectionRecord f key db = (case f of
     Some msg \<Rightarrow> Inl (Wrap ''read poll projection'' [Opaque msg])
   | None \<Rightarrow> Inr (map_of (dbProjections db) (keyPK key)))"

section \<open>Counters (poll\_counters.go)\<close>

text \<open>
  The two statements of \<open>ReservePollVote\<close>: both insert a missing row; on conflict an explicit value
  raises the counter to at least that value, an automatic one adds one while the counter is below
  2^32 - 1 and otherwise returns no row.
\<close>

definition ReservePollVote :: "fault \<Rightarrow> string \<Rightarrow> string \<Rightarrow> u64 \<Rightarrow> u32 \<Rightarrow> polldb \<Rightarrow> polldb \<times> u32 res" where
  "ReservePollVote f chat author timestamp explicit db = (case f of
     Some msg \<Rightarrow> (db, Inl (Wrap ''reserve poll vote counter'' [Opaque msg]))
   | None \<Rightarrow>
     let key = poll_pk chat author timestamp;
         initial = (if explicit = 0 then 1 else explicit);
         returned = (case map_of (dbCounters db) key of
             None \<Rightarrow> Some (unat initial)
           | Some counter \<Rightarrow>
             if explicit = 0 then (if counter < 4294967295 then Some (counter + 1) else None)
             else Some (max counter (unat initial)))
     in case returned of
          None \<Rightarrow> (db, Inl (Sentinel ErrPollVoteExhausted))
        | Some count \<Rightarrow>
          (db\<lparr>dbCounters := AList.update key count (dbCounters db)\<rparr>,
           Inr (if explicit \<noteq> 0 then explicit else of_nat count)))"

section \<open>The client's part (meow\_poll\_projection.go, meow\_poll\_counters.go)\<close>

text \<open>What the client uses besides the event encoding: JSON for states, SHA-256 and quoting.\<close>

record client_lib =
  clJSON :: json_lib
  marshalState :: "PollState \<Rightarrow> bytes res"
  unmarshalState :: "bytes \<Rightarrow> PollState res"
  sha256hex :: "bytes \<Rightarrow> string"
  fmt_q :: "string \<Rightarrow> string list \<Rightarrow> string"

definition pollStoreKey :: "PollReference \<Rightarrow> PollKey" where
  "pollStoreKey ref = \<lparr>pkChat = Chat_Key (prChat ref), pkAuthor = rACI (prAuthor ref), pkTimestamp = prTimestamp ref\<rparr>"

definition pollObservation :: "uuid_lib \<Rightarrow> client_lib \<Rightarrow> Event \<Rightarrow> PollObservation option res" where
  "pollObservation U J event = (case PollEvidence U (fmt_q J) event of
     None \<Rightarrow> Inr None
   | Some (ref, evidence) \<Rightarrow> (case marshalEvent (clJSON J) evidence (prChat ref) of
       Inl e \<Rightarrow> Inl e
     | Inr encoded \<Rightarrow> Inr (Some \<lparr>obKey = pollStoreKey ref, obHash = sha256hex J encoded, obEvent = encoded\<rparr>)))"

definition pollSeed :: "uuid_lib \<Rightarrow> client_lib \<Rightarrow> InboxRecord \<Rightarrow> PollObservation option res" where
  "pollSeed U J rec = pollObservation U J (fst (unmarshalEvent (clJSON J) (irEvent rec)))"

definition keyReference :: "PollKey \<Rightarrow> PollReference" where
  "keyReference key = \<lparr>prChat = (if HasPrefix (pkChat key) ''group:''
       then noChat\<lparr>cGroupID := TrimPrefix (pkChat key) ''group:''\<rparr>
       else noChat\<lparr>cRecipient := aciRecipient (pkChat key)\<rparr>),
     prAuthor = aciRecipient (pkAuthor key), prTimestamp = pkTimestamp key\<rparr>"

definition isUnreadable :: "Event \<Rightarrow> bool" where
  "isUnreadable e = (case e of EvUnsupported u \<Rightarrow> unType u = UnreadableEntry | _ \<Rightarrow> False)"

fun decodeEvidence :: "client_lib \<Rightarrow> bytes list \<Rightarrow> Event list res" where
  "decodeEvidence J [] = Inr []"
| "decodeEvidence J (data # rest) = (let event = fst (unmarshalEvent (clJSON J) data) in
     if isUnreadable event then Inl (Wrap ''unreadable poll evidence'' [Sentinel ErrNotStorable])
     else case decodeEvidence J rest of Inl e \<Rightarrow> Inl e | Inr es \<Rightarrow> Inr (event # es))"

text \<open>A panic in the reduction would be the last case; it cannot happen (\<open>ReducePoll_spec\<close>).\<close>

definition pollReduce :: "uuid_lib \<Rightarrow> client_lib \<Rightarrow> PollKey \<Rightarrow> bytes list \<Rightarrow> bytes res" where
  "pollReduce U J key encoded = (case decodeEvidence J encoded of
     Inl e \<Rightarrow> Inl e
   | Inr events \<Rightarrow> (case ReducePoll U (keyReference key) events of
       Some state \<Rightarrow> (case marshalState J (state\<lparr>psSource := ''durable'', psObservations := length events\<rparr>) of
           Inl e \<Rightarrow> Inl (Wrap ''encode poll projection'' [e])
         | Inr data \<Rightarrow> Inr data)
     | None \<Rightarrow> Inl (Opaque ''panic'')))"

definition PollProjection :: "uuid_lib \<Rightarrow> client_lib \<Rightarrow> (nat \<Rightarrow> fault) \<Rightarrow> fault \<Rightarrow> fault \<Rightarrow> fault
    \<Rightarrow> PollReference \<Rightarrow> polldb \<Rightarrow> polldb \<times> PollState res" where
  "PollProjection U J F beginFault commitFault readFault ref db =
    (case PollReference_Check U ref of
       Some e \<Rightarrow> (db, Inl e)
     | None \<Rightarrow> (case ReducePoll U ref [] of
         None \<Rightarrow> (db, Inl (Opaque ''panic''))
       | Some blank \<Rightarrow>
         (case ProjectPolls F beginFault commitFault (pollSeed U J) (pollReduce U J) None db of
            (db', Some e) \<Rightarrow> (db', Inl (Wrap ''poll projection'' [e]))
          | (db', None) \<Rightarrow> (db', (case PollProjectionRecord readFault (pollStoreKey ref) db' of
              Inl e \<Rightarrow> Inl (Wrap ''poll projection'' [e])
            | Inr encoded \<Rightarrow> (case encoded of
                None \<Rightarrow> Inr (blank\<lparr>psSource := ''durable''\<rparr>)
              | Some data \<Rightarrow> if data = [] then Inr (blank\<lparr>psSource := ''durable''\<rparr>)
                  else (case unmarshalState J data of
                    Inl e \<Rightarrow> Inl (Wrap ''poll projection'' [Wrap ''decode poll projection'' [e]])
                  | Inr state \<Rightarrow> Inr state)))))))"

definition learnPollProjection :: "uuid_lib \<Rightarrow> client_lib \<Rightarrow> (nat \<Rightarrow> fault) \<Rightarrow> fault \<Rightarrow> fault
    \<Rightarrow> Event \<Rightarrow> polldb \<Rightarrow> polldb \<times> err option" where
  "learnPollProjection U J F beginFault commitFault event db = (case pollObservation U J event of
     Inl e \<Rightarrow> (db, Some e)
   | Inr None \<Rightarrow> (db, None)
   | Inr (Some obs) \<Rightarrow> ProjectPolls F beginFault commitFault (pollSeed U J) (pollReduce U J) (Some obs) db)"

definition client_ReservePollVote :: "uuid_lib \<Rightarrow> fault \<Rightarrow> PollVoteCounterRequest \<Rightarrow> polldb \<Rightarrow> polldb \<times> u32 res" where
  "client_ReservePollVote U f req db = (case CounterRequest_Check U req of
     Some e \<Rightarrow> (db, Inl e)
   | None \<Rightarrow> (case ReservePollVote f (Chat_Key (pqChat req)) (rACI (pqAuthor req)) (pqTimestamp req) (pqExplicit req) db of
       (db', Inl e) \<Rightarrow> (db', Inl (if errors_Is e ErrPollVoteExhausted then Sentinel ErrPollVoteExhausted
                                 else Wrap ''poll vote counter'' [e]))
     | (db', Inr count) \<Rightarrow> (db', Inr count)))"

definition learnPollVoteCounter :: "uuid_lib \<Rightarrow> string \<Rightarrow> fault \<Rightarrow> Event \<Rightarrow> polldb \<Rightarrow> polldb \<times> err option" where
  "learnPollVoteCounter U ownACI f evt db = (case OwnPollVoteCounter U evt ownACI of
     None \<Rightarrow> (db, None)
   | Some req \<Rightarrow> (case client_ReservePollVote U f req db of
       (db', Inl e) \<Rightarrow> (db', Some e) | (db', Inr _) \<Rightarrow> (db', None)))"

definition learnPollState :: "uuid_lib \<Rightarrow> client_lib \<Rightarrow> string \<Rightarrow> fault \<Rightarrow> (nat \<Rightarrow> fault) \<Rightarrow> fault \<Rightarrow> fault
    \<Rightarrow> Event \<Rightarrow> polldb \<Rightarrow> polldb \<times> err option" where
  "learnPollState U J ownACI f F beginFault commitFault event db =
    (case learnPollVoteCounter U ownACI f event db of
       (db', Some e) \<Rightarrow> (db', Some e)
     | (db', None) \<Rightarrow> learnPollProjection U J F beginFault commitFault event db')"

section \<open>Sequencing\<close>

lemma bind_op_ok: "bind_op m k s = (s'', Inr b) \<longleftrightarrow> (\<exists>s' a. m s = (s', Inr a) \<and> k a s' = (s'', Inr b))"
  by (auto simp: bind_op_def split: prod.splits sum.splits)

lemma return_op_ok [simp]: "return_op a s = (s', Inr b) \<longleftrightarrow> s' = s \<and> b = a"
  by (auto simp: return_op_def)

lemma fail_op_ok [simp]: "\<not> (fail_op e s = (s', Inr b))"
  by (simp add: fail_op_def)

lemma sql_ok: "sql F ctx stmt (db, n) = (s', Inr a) \<longleftrightarrow>
    F n = None \<and> (\<exists>db'. stmt db = (db', a) \<and> s' = (db', Suc n))"
  by (auto simp: sql_def split: option.splits prod.splits)

text \<open>What every step of a projection keeps: the inbox, the meta data other than the mark, counters,
  and the evidence so far.\<close>

definition extends :: "polldb \<Rightarrow> polldb \<Rightarrow> bool" where
  "extends db db' \<longleftrightarrow> dbInbox db' = dbInbox db \<and> dbCounters db' = dbCounters db
     \<and> (\<exists>new. dbEvidence db' = dbEvidence db @ new)"

lemma extends_refl [simp]: "extends db db"
  by (simp add: extends_def)

lemma extends_trans: "extends a b \<Longrightarrow> extends b c \<Longrightarrow> extends a c"
  by (auto simp: extends_def)

section \<open>Evidence\<close>

definition evidence_of :: "polldb \<Rightarrow> poll_pk \<Rightarrow> bytes list" where
  "evidence_of db k = map evEvent (filter (\<lambda>r. evKey r = k) (dbEvidence db))"

definition recorded :: "polldb \<Rightarrow> PollObservation \<Rightarrow> bool" where
  "recorded db obs \<longleftrightarrow> (\<exists>r\<in>set (dbEvidence db). evKey r = keyPK (obKey obs) \<and> evHash r = obHash obs)"

text \<open>No two rows of a poll have the same hash (the UNIQUE constraint).\<close>

definition evidence_unique :: "polldb \<Rightarrow> bool" where
  "evidence_unique db \<longleftrightarrow> distinct (map (\<lambda>r. (evKey r, evHash r)) (dbEvidence db))"

text \<open>Every projection is the reduction of its evidence, except for the keys that changed.\<close>

definition proj_ok :: "(PollKey \<Rightarrow> bytes list \<Rightarrow> bytes res) \<Rightarrow> PollKey \<Rightarrow> bytes option \<Rightarrow> bytes list \<Rightarrow> bool" where
  "proj_ok reduce key view es \<longleftrightarrow> (case view of
     None \<Rightarrow> es = [] | Some state \<Rightarrow> reduce key es = Inr state)"

definition projected :: "(PollKey \<Rightarrow> bytes list \<Rightarrow> bytes res) \<Rightarrow> PollKey list \<Rightarrow> polldb \<Rightarrow> bool" where
  "projected reduce changed db \<longleftrightarrow> (\<forall>key. key \<notin> set changed \<longrightarrow>
     proj_ok reduce key (map_of (dbProjections db) (keyPK key)) (evidence_of db (keyPK key)))"

lemma keyPK_inject [simp]: "keyPK a = keyPK b \<longleftrightarrow> a = b"
proof
  assume eq: "keyPK a = keyPK b"
  have "unat (pkTimestamp a) < 2 ^ 64" "unat (pkTimestamp b) < 2 ^ 64"
    using unsigned_less [of "pkTimestamp a"] unsigned_less [of "pkTimestamp b"] by simp_all
  then have "unat (pkTimestamp a) = unat (pkTimestamp b)"
    using eq dec64.enc_inj by (simp add: keyPK_def poll_pk_def)
  then show "a = b"
    using eq by (cases a; cases b) (auto simp: keyPK_def poll_pk_def dest: unsigned_word_eqI)
qed simp

lemma addPollEvidence_ok:
  assumes "addPollEvidence F obs changed (db, n) = ((db', n'), Inr changed')"
  shows "extends db db' \<and> recorded db' obs \<and> dbMeta db' = dbMeta db \<and> dbProjections db' = dbProjections db
     \<and> (evidence_unique db \<longrightarrow> evidence_unique db') \<and> set changed \<subseteq> set changed'
     \<and> (\<forall>reduce. projected reduce changed db \<longrightarrow> projected reduce changed' db')
     \<and> (if recorded db obs then db' = db \<and> changed' = changed
        else dbEvidence db' = dbEvidence db @ [\<lparr>evKey = keyPK (obKey obs), evHash = obHash obs, evEvent = obEvent obs\<rparr>]
          \<and> changed' = List.insert (obKey obs) changed)"
proof (cases "recorded db obs")
  case True
  then show ?thesis using assms
    by (auto simp: addPollEvidence_def bind_op_ok sql_ok recorded_def)
next
  case False
  let ?row = "\<lparr>evKey = keyPK (obKey obs), evHash = obHash obs, evEvent = obEvent obs\<rparr>"
  have db': "db' = db\<lparr>dbEvidence := dbEvidence db @ [?row]\<rparr>" "changed' = List.insert (obKey obs) changed"
    using assms False by (auto simp: addPollEvidence_def bind_op_ok sql_ok recorded_def split: if_splits)
  have "projected reduce changed' db'" if "projected reduce changed db" for reduce
    unfolding projected_def
  proof (intro allI impI)
    fix key assume k: "key \<notin> set changed'"
    then have ev: "evidence_of db' (keyPK key) = evidence_of db (keyPK key)"
      by (auto simp: db' evidence_of_def)
    have pr: "dbProjections db' = dbProjections db" by (simp add: db')
    have "key \<notin> set changed" using k by (simp add: db')
    then show "proj_ok reduce key (map_of (dbProjections db') (keyPK key)) (evidence_of db' (keyPK key))"
      unfolding ev pr using that by (simp add: projected_def)
  qed
  then show ?thesis
    using False by (auto simp: db' extends_def recorded_def evidence_unique_def)
qed

lemma recorded_extends: "recorded db obs \<Longrightarrow> extends db db' \<Longrightarrow> recorded db' obs"
  by (auto simp: recorded_def extends_def)

section \<open>Seeding\<close>

definition seeded :: "(InboxRecord \<Rightarrow> PollObservation option res) \<Rightarrow> InboxRecord list \<Rightarrow> polldb \<Rightarrow> bool" where
  "seeded seed recs db \<longleftrightarrow> (\<forall>rec\<in>set recs. \<forall>obs. seed rec = Inr (Some obs) \<longrightarrow> recorded db obs)"

text \<open>What a run of evidence-adding steps establishes.\<close>

definition added :: "polldb \<Rightarrow> PollKey list \<Rightarrow> polldb \<Rightarrow> PollKey list \<Rightarrow> bool" where
  "added db changed db' changed' \<longleftrightarrow> extends db db' \<and> dbMeta db' = dbMeta db
     \<and> (evidence_unique db \<longrightarrow> evidence_unique db')
     \<and> (\<forall>reduce. projected reduce changed db \<longrightarrow> projected reduce changed' db')"

lemma added_refl [simp]: "added db changed db changed"
  by (simp add: added_def)

lemma added_trans: "added a ca b cb \<Longrightarrow> added b cb c cc \<Longrightarrow> added a ca c cc"
  by (auto simp: added_def intro: extends_trans)

lemma addPollEvidence_added:
  "addPollEvidence F obs changed (db, n) = ((db', n'), Inr changed') \<Longrightarrow> added db changed db' changed' \<and> recorded db' obs"
  using addPollEvidence_ok by (fastforce simp: added_def)

lemma seedRecords_ok:
  assumes "seedRecords F seed recs after changed (db, n) = ((db', n'), Inr (after', changed'))"
  shows "added db changed db' changed' \<and> seeded seed recs db' \<and> after' = (if recs = [] then after else irID (last recs))"
  using assms
proof (induction recs arbitrary: after changed db n)
  case (Cons rec recs)
  show ?case
  proof (cases "seed rec")
    case (Inr found)
    show ?thesis
    proof (cases found)
      case None
      then show ?thesis using Cons Inr by (fastforce simp: seeded_def)
    next
      case (Some obs)
      then obtain db1 n1 c1 where a: "addPollEvidence F obs changed (db, n) = ((db1, n1), Inr c1)"
        and r: "seedRecords F seed recs (irID rec) c1 (db1, n1) = ((db', n'), Inr (after', changed'))"
        using Cons.prems Inr by (auto simp: bind_op_ok)
      note A = addPollEvidence_added [OF a] and R = Cons.IH [OF r]
      have "recorded db' obs" using A R recorded_extends by (auto simp: added_def)
      then show ?thesis
        using A R added_trans Inr Some by (auto simp: seeded_def)
    qed
  qed (use Cons.prems in simp)
qed (simp add: seeded_def)

abbreviation inboxRecords :: "polldb \<Rightarrow> InboxRecord list" where
  "inboxRecords db \<equiv> map scanInboxRecord (ibRows (dbInbox db))"

abbreviation beyond :: "int \<Rightarrow> polldb \<Rightarrow> InboxRecord list" where
  "beyond after db \<equiv> filter (\<lambda>e. after < irID e) (inboxRecords db)"

lemma batch_ok:
  assumes "inbox_inv (dbInbox db)" "0 \<le> after"
  shows "InboxRecords f (batchFilter after) (dbInbox db) = Inr recs \<longleftrightarrow> f = None \<and> recs = take 1000 (beyond after db)"
proof -
  have page: "inbox_page (dbInbox db) 1000 after = take 1000 (beyond after db)"
    using inbox_log.page_first [OF assms, of 1000] by simp
  obtain r where "InboxRecords None (batchFilter after) (dbInbox db) = Inr r"
    using InboxRecords_eq [OF assms(1)] by blast
  then have "InboxRecords None (batchFilter after) (dbInbox db) = Inr (take 1000 (beyond after db))"
    using page by (simp add: inbox_page_def batchFilter_def pollSeedBatchSize_def)
  then show ?thesis by (cases f) (auto simp: InboxRecords_def)
qed

lemma beyond_batch:
  assumes "inbox_inv (dbInbox db)" "take 1000 (beyond after db) \<noteq> []"
  shows "beyond (irID (last (take 1000 (beyond after db)))) db = drop 1000 (beyond after db)"
  by (rule inbox_log.beyond_last [OF assms(1) refl assms(2)])

lemma extends_inbox: "extends db db' \<Longrightarrow> dbInbox db' = dbInbox db"
  by (simp add: extends_def)

lemma seeded_extends: "seeded seed recs db \<Longrightarrow> extends db db' \<Longrightarrow> seeded seed recs db'"
  by (auto simp: seeded_def intro: recorded_extends)

lemma last_batch_pos:
  assumes "0 \<le> after" "take 1000 (beyond after db) \<noteq> []"
  shows "0 \<le> irID (last (take 1000 (beyond after db)))"
proof -
  have "last (take 1000 (beyond after db)) \<in> set (beyond after db)"
    using last_in_set [OF assms(2)] by (rule in_set_takeD)
  then show ?thesis using assms(1) by auto
qed

lemma seedPolls_ok:
  assumes "inbox_inv (dbInbox db)" "0 \<le> after"
    "seedPolls fuel F seed after changed (db, n) = ((db', n'), Inr changed')"
  shows "added db changed db' changed' \<and> seeded seed (beyond after db) db'"
  using assms
proof (induction fuel arbitrary: after changed db n)
  case (Suc fuel)
  let ?b = "take 1000 (beyond after db)"
  show ?case
  proof (cases "?b = []")
    case True
    then have "beyond after db = []" by (cases "beyond after db") simp_all
    then have "db' = db \<and> changed' = changed \<and> beyond after db = []"
      using Suc.prems by (auto simp: bind_op_ok batch_ok)
    then show ?thesis by (simp add: seeded_def)
  next
    case False
    obtain db1 n1 after1 c1 where
      s: "seedRecords F seed ?b after changed (db, Suc n) = ((db1, n1), Inr (after1, c1))"
      and r: "seedPolls fuel F seed after1 c1 (db1, n1) = ((db', n'), Inr changed')"
      using Suc.prems False by (auto simp: bind_op_ok batch_ok)
    note S = seedRecords_ok [OF s]
    have in1: "dbInbox db1 = dbInbox db" using S extends_inbox by (simp add: added_def)
    have a1: "after1 = irID (last ?b)" using S False by simp
    note R = Suc.IH [of db1 after1 c1 n1, unfolded in1, OF Suc.prems(1) _ r]
    have "0 \<le> after1" unfolding a1 by (rule last_batch_pos [OF Suc.prems(2) False])
    then have R': "added db1 c1 db' changed'" "seeded seed (drop 1000 (beyond after db)) db'"
      using R beyond_batch [OF Suc.prems(1) False] a1 by simp_all
    have "seeded seed ?b db'" using S R'(1) seeded_extends by (auto simp: added_def)
    then have "seeded seed (?b @ drop 1000 (beyond after db)) db'"
      using R'(2) unfolding seeded_def set_append by blast
    then have "seeded seed (beyond after db) db'" by simp
    then show ?thesis using S R'(1) added_trans by blast
  qed
qed simp

text \<open>Without faults and decoding errors the loop ends: each batch goes beyond the last.\<close>

lemma addPollEvidence_success:
  assumes "\<And>n. F n = None"
  shows "\<exists>s' c. addPollEvidence F obs changed s = (s', Inr c)"
proof -
  obtain db n where "s = (db, n)" by fastforce
  then show ?thesis
    using assms by (auto simp: addPollEvidence_def bind_op_def sql_def return_op_def)
qed

lemma seedRecords_success:
  assumes "\<And>n. F n = None" "\<And>rec. \<exists>ob. seed rec = Inr ob"
  shows "\<exists>s' r. seedRecords F seed recs after changed s = (s', Inr r)"
proof (induction recs arbitrary: after changed s)
  case (Cons rec recs)
  obtain ob where ob: "seed rec = Inr ob" using assms(2) by blast
  show ?case
  proof (cases ob)
    case (Some obs)
    obtain s1 c1 where "addPollEvidence F obs changed s = (s1, Inr c1)"
      using addPollEvidence_success [of F obs changed s] assms(1) by blast
    then show ?thesis using Cons.IH [of "irID rec" c1 s1] ob Some by (simp add: bind_op_def)
  qed (use Cons ob in simp)
qed (simp add: return_op_def)

lemma seedPolls_success:
  assumes "\<And>n. F n = None" "\<And>rec. \<exists>ob. seed rec = Inr ob"
    "inbox_inv (dbInbox db)" "0 \<le> after" "length (beyond after db) < fuel"
  shows "\<exists>s' c. seedPolls fuel F seed after changed (db, n) = (s', Inr c)"
  using assms(3-5)
proof (induction fuel arbitrary: after changed db n)
  case (Suc fuel)
  let ?b = "take 1000 (beyond after db)"
  have b: "InboxRecords (F n) (batchFilter after) (dbInbox db) = Inr ?b"
    using batch_ok [OF Suc.prems(1,2)] assms(1) by simp
  show ?case
  proof (cases "?b = []")
    case True
    then show ?thesis using b by (simp add: bind_op_def return_op_def)
  next
    case False
    obtain s1 r1 where "seedRecords F seed ?b after changed (db, Suc n) = (s1, Inr r1)"
      using seedRecords_success [of F seed ?b after changed "(db, Suc n)"] assms(1,2) by blast
    moreover obtain db1 n1 where "s1 = (db1, n1)" by fastforce
    moreover obtain after1 c1 where "r1 = (after1, c1)" by fastforce
    ultimately have s: "seedRecords F seed ?b after changed (db, Suc n) = ((db1, n1), Inr (after1, c1))" by simp
    note S = seedRecords_ok [OF s]
    have in1: "dbInbox db1 = dbInbox db" using S extends_inbox by (simp add: added_def)
    have a1: "after1 = irID (last ?b)" using S False by simp
    have p: "0 \<le> after1" unfolding a1 by (rule last_batch_pos [OF Suc.prems(2) False])
    have "length (beyond after1 db1) = length (drop 1000 (beyond after db))"
      unfolding in1 a1 beyond_batch [OF Suc.prems(1) False] ..
    then have "length (beyond after1 db1) = length (beyond after db) - 1000" by (simp only: length_drop)
    moreover have "0 < length (beyond after db)" using False by (cases "beyond after db") simp_all
    ultimately have "length (beyond after1 db1) < fuel" using Suc.prems(3) by linarith
    then obtain s' c where "seedPolls fuel F seed after1 c1 (db1, n1) = (s', Inr c)"
      using Suc.IH [of db1 after1 c1 n1] in1 Suc.prems(1) p by auto
    then show ?thesis using b False s by (simp add: bind_op_def)
  qed
qed simp

section \<open>Reducing what changed\<close>

lemma projected_cons:
  assumes "projected reduce (key # keys) db" "reduce key (evidence_of db (keyPK key)) = Inr state"
  shows "projected reduce keys (db\<lparr>dbProjections := AList.update (keyPK key) state (dbProjections db)\<rparr>)"
proof -
  have "evidence_of (db\<lparr>dbProjections := p\<rparr>) k = evidence_of db k" for p k
    by (simp add: evidence_of_def)
  then show ?thesis using assms by (auto simp: projected_def proj_ok_def [of _ key])
qed

lemma reduceChanged_ok:
  assumes "reduceChanged F reduce keys (db, n) = ((db', n'), Inr u)"
  shows "extends db db' \<and> dbEvidence db' = dbEvidence db \<and> dbMeta db' = dbMeta db
     \<and> (projected reduce keys db \<longrightarrow> projected reduce [] db')"
  using assms
proof (induction keys arbitrary: db n)
  case (Cons key keys)
  then obtain state where st: "reduce key (evidence_of db (keyPK key)) = Inr state"
    and r: "reduceChanged F reduce keys (db\<lparr>dbProjections := AList.update (keyPK key) state (dbProjections db)\<rparr>, Suc (Suc n))
        = ((db', n'), Inr u)"
    by (auto simp: bind_op_ok sql_ok reducePoll_def evidence_of_def split: sum.splits)
  show ?case using Cons.IH [OF r] projected_cons [of reduce key keys db state] st by (auto simp: extends_def)
qed simp

lemma reduceChanged_success:
  assumes "\<And>n. F n = None" "\<And>key es. \<exists>st. reduce key es = Inr st"
  shows "\<exists>s'. reduceChanged F reduce keys (db, n) = (s', Inr ())"
proof (induction keys arbitrary: db n)
  case (Cons key keys)
  obtain state where "reduce key (map evEvent (filter (\<lambda>r. evKey r = keyPK key) (dbEvidence db))) = Inr state"
    using assms(2) by blast
  then show ?case
    using Cons assms(1) by (simp add: bind_op_def sql_def reducePoll_def)
qed (simp add: return_op_def)

section \<open>One projection run\<close>

text \<open>The invariant of the poll tables under a reduction.\<close>

definition poll_inv :: "(PollKey \<Rightarrow> bytes list \<Rightarrow> bytes res) \<Rightarrow> polldb \<Rightarrow> bool" where
  "poll_inv reduce db \<longleftrightarrow> inbox_inv (dbInbox db) \<and> evidence_unique db \<and> projected reduce [] db"

lemma added_inv:
  assumes "poll_inv reduce db" "added db [] db' changed'"
  shows "inbox_inv (dbInbox db') \<and> evidence_unique db' \<and> projected reduce changed' db'"
  using assms extends_inbox by (auto simp: poll_inv_def added_def)

lemma projectBody_ok:
  assumes "poll_inv reduce db" "projectBody F seed reduce next (db, n) = ((db', n'), Inr u)"
  shows "poll_inv reduce db' \<and> extends db db' \<and> map_of (dbMeta db') seededKey \<noteq> None
     \<and> (\<forall>obs. next = Some obs \<longrightarrow> recorded db' obs)
     \<and> (map_of (dbMeta db) seededKey = None \<longrightarrow> seeded seed (inboxRecords db) db')"
proof -
  define ready where "ready = map_of (dbMeta db) seededKey"
  obtain db1 changed db2 n2 where a: "added db [] db1 changed"
    and sd: "ready = None \<longrightarrow> seeded seed (inboxRecords db) db1"
    and e2: "extends db1 db2" "dbEvidence db2 = dbEvidence db1" "dbProjections db2 = dbProjections db1"
      "map_of (dbMeta db2) seededKey \<noteq> None"
    and rest: "bind_op (case next of None \<Rightarrow> return_op changed | Some obs \<Rightarrow> addPollEvidence F obs changed)
               (reduceChanged F reduce) (db2, n2) = ((db', n'), Inr u)"
  proof (cases ready)
    case None
    then obtain db1 n1 changed where sp: "seedPolls (length (ibRows (dbInbox db)) + 2) F seed 0 [] (db, Suc n) = ((db1, n1), Inr changed)"
      and rest: "bind_op (case next of None \<Rightarrow> return_op changed | Some obs \<Rightarrow> addPollEvidence F obs changed)
               (reduceChanged F reduce) (db1\<lparr>dbMeta := AList.update seededKey ''1'' (dbMeta db1)\<rparr>, Suc n1) = ((db', n'), Inr u)"
      using assms(2) unfolding projectBody_def bind_op_ok Meta_def SetMeta_def sql_ok ready_def
      by (auto simp: bind_op_ok sql_ok)
    have inv: "inbox_inv (dbInbox db)" using assms(1) by (simp add: poll_inv_def)
    have "\<forall>e\<in>set (inboxRecords db). 0 < irID e" using inv by (auto simp: inbox_inv_def)
    then have b0: "beyond 0 db = inboxRecords db" by (intro filter_True) auto
    have "added db [] db1 changed \<and> seeded seed (beyond 0 db) db1"
      by (rule seedPolls_ok [OF inv order_refl sp])
    then have A: "added db [] db1 changed" "seeded seed (inboxRecords db) db1" unfolding b0 by blast+
    show thesis
      by (rule that [OF A(1) impI [OF A(2)] _ _ _ _ rest]) (simp_all add: extends_def)
  next
    case (Some v)
    then have "bind_op (case next of None \<Rightarrow> return_op [] | Some obs \<Rightarrow> addPollEvidence F obs [])
               (reduceChanged F reduce) (db, Suc n) = ((db', n'), Inr u)"
      using assms(2) unfolding projectBody_def bind_op_ok Meta_def sql_ok ready_def
      by (auto simp: bind_op_ok)
    then show thesis
      using Some by (intro that [of db "[]" db "Suc n"]) (simp_all add: ready_def)
  qed
  obtain db3 n3 c3 where
    nx: "(case next of None \<Rightarrow> return_op changed | Some obs \<Rightarrow> addPollEvidence F obs changed) (db2, n2) = ((db3, n3), Inr c3)"
    and rc: "reduceChanged F reduce c3 (db3, n3) = ((db', n'), Inr u)"
    using rest unfolding bind_op_ok by (metis surj_pair)
  have ev: "evidence_of db2 = evidence_of db1" by (simp add: evidence_of_def e2 fun_eq_iff)
  have "added db2 changed db3 c3 \<and> (\<forall>obs. next = Some obs \<longrightarrow> recorded db3 obs)"
    using nx addPollEvidence_added by (cases "next") auto
  moreover have "inbox_inv (dbInbox db2) \<and> evidence_unique db2 \<and> projected reduce changed db2"
    using added_inv [OF assms(1) a] e2 extends_inbox [OF e2(1)] by (simp add: evidence_unique_def projected_def ev)
  ultimately have 3: "inbox_inv (dbInbox db3)" "evidence_unique db3" "projected reduce c3 db3" "extends db2 db3"
    "dbMeta db3 = dbMeta db2" "\<forall>obs. next = Some obs \<longrightarrow> recorded db3 obs"
    using extends_inbox by (auto simp: added_def)
  note R = reduceChanged_ok [OF rc]
  have "poll_inv reduce db'"
    using R 3 extends_inbox by (auto simp: poll_inv_def evidence_unique_def)
  moreover have "extends db db'" "extends db1 db'"
    using a e2(1) 3(4) R extends_trans unfolding added_def by blast+
  moreover have "map_of (dbMeta db') seededKey \<noteq> None" using R 3(5) e2(4) by simp
  moreover have "\<forall>obs. next = Some obs \<longrightarrow> recorded db' obs" using 3(6) R recorded_extends by blast
  ultimately show ?thesis using sd seeded_extends by (auto simp: ready_def)
qed

section \<open>Counters\<close>

definition counter_level :: "polldb \<Rightarrow> poll_pk \<Rightarrow> nat" where
  "counter_level db k = (case map_of (dbCounters db) k of None \<Rightarrow> 0 | Some c \<Rightarrow> c)"

text \<open>The CHECK constraint of the table.\<close>

definition counters_inv :: "polldb \<Rightarrow> bool" where
  "counters_inv db \<longleftrightarrow> (\<forall>(k, c)\<in>set (dbCounters db). 1 \<le> c \<and> c \<le> 4294967295)"

lemma counters_inv_level: "counters_inv db \<Longrightarrow> counter_level db k \<le> 4294967295"
  unfolding counters_inv_def counter_level_def by (auto split: option.splits dest: map_of_SomeD)

lemma counters_inv_update:
  assumes "counters_inv db" "1 \<le> c" "c \<le> 4294967295"
  shows "counters_inv (db\<lparr>dbCounters := AList.update k c (dbCounters db)\<rparr>)"
  using ball_AList_update [of "dbCounters db" "\<lambda>_ c. 1 \<le> c \<and> c \<le> 4294967295" k c] assms
  by (simp add: counters_inv_def)

lemma counter_level_update:
  "counter_level (db\<lparr>dbCounters := AList.update k c (dbCounters db)\<rparr>) k' = (if k' = k then c else counter_level db k')"
  by (simp add: counter_level_def)

lemma u32_bound: "unat (x :: u32) \<le> 4294967295"
proof -
  have "unat x < 4294967296" using unsigned_less [of x, where ?'a = nat] by simp
  then show ?thesis by simp
qed

lemma u32_pos: "x \<noteq> 0 \<Longrightarrow> 1 \<le> unat (x :: u32)"
  by (simp add: Suc_le_eq unat_gt_0)

lemma ReservePollVote_cases:
  assumes "counters_inv db"
  shows "ReservePollVote f chat author ts explicit db =
    (case f of
       Some msg \<Rightarrow> (db, Inl (Wrap ''reserve poll vote counter'' [Opaque msg]))
     | None \<Rightarrow> let k = poll_pk chat author ts; l = counter_level db k in
         if explicit \<noteq> 0 then
           (db\<lparr>dbCounters := AList.update k (max l (unat explicit)) (dbCounters db)\<rparr>, Inr explicit)
         else if l < 4294967295 then
           (db\<lparr>dbCounters := AList.update k (l + 1) (dbCounters db)\<rparr>, Inr (of_nat (l + 1)))
         else (db, Inl (Sentinel ErrPollVoteExhausted)))"
  by (auto simp: ReservePollVote_def counter_level_def Let_def split: option.splits)

lemma ReservePollVote_inv:
  assumes "counters_inv db"
  shows "counters_inv (fst (ReservePollVote f chat author ts explicit db))"
proof -
  let ?l = "counter_level db (poll_pk chat author ts)"
  have "1 \<le> max ?l (unat explicit) \<and> max ?l (unat explicit) \<le> 4294967295" if "explicit \<noteq> 0"
    using counters_inv_level [OF assms] u32_bound u32_pos [OF that] by (simp add: max_def)
  then show ?thesis
    using assms counters_inv_update [OF assms, of "max ?l (unat explicit)"] counters_inv_update [OF assms, of "?l + 1"]
    by (simp add: ReservePollVote_cases [OF assms] Let_def split: option.split)
qed

text \<open>
  The contract the callers of a counter rely on: a level that never falls, and automatic values above
  the level before and at most the level after. Automatic values then strictly increase over any
  sequence of requests.
\<close>

fun reservations :: "('r \<Rightarrow> 's \<Rightarrow> 's \<times> nat option) \<Rightarrow> 'r list \<Rightarrow> 's \<Rightarrow> nat list" where
  "reservations reserve [] s = []"
| "reservations reserve (r # rs) s =
    (case snd (reserve r s) of None \<Rightarrow> [] | Some v \<Rightarrow> [v]) @ reservations reserve rs (fst (reserve r s))"

locale high_water =
  fixes inv :: "'s \<Rightarrow> bool"
    and level :: "'s \<Rightarrow> nat"
    and reserve :: "'r \<Rightarrow> 's \<Rightarrow> 's \<times> nat option"
  assumes reserve_inv: "inv s \<Longrightarrow> inv (fst (reserve r s))"
    and level_grows: "inv s \<Longrightarrow> level s \<le> level (fst (reserve r s))"
    and value_fresh: "inv s \<Longrightarrow> snd (reserve r s) = Some v \<Longrightarrow> level s < v \<and> v \<le> level (fst (reserve r s))"
begin

lemma reservations_increase:
  "inv s \<Longrightarrow> sorted_wrt (<) (reservations reserve rs s) \<and> (\<forall>v\<in>set (reservations reserve rs s). level s < v)"
proof (induction rs arbitrary: s)
  case (Cons r rs)
  let ?s = "fst (reserve r s)"
  have IH: "sorted_wrt (<) (reservations reserve rs ?s)" "\<forall>v\<in>set (reservations reserve rs ?s). level ?s < v"
    using Cons.IH [OF reserve_inv [OF Cons.prems]] by blast+
  show ?case
    using IH level_grows [OF Cons.prems, of r] value_fresh [OF Cons.prems, of r]
    by (cases "snd (reserve r s)") fastforce+
qed simp

end

record counter_request =
  crFault :: fault
  crChat :: string
  crAuthor :: string
  crTimestamp :: u64
  crExplicit :: u32

text \<open>A request as seen by one poll: the automatic value it hands out for that poll, if any.\<close>

definition reserve_for :: "poll_pk \<Rightarrow> counter_request \<Rightarrow> polldb \<Rightarrow> polldb \<times> nat option" where
  "reserve_for k r db =
    (case ReservePollVote (crFault r) (crChat r) (crAuthor r) (crTimestamp r) (crExplicit r) db of
       (db', Inl _) \<Rightarrow> (db', None)
     | (db', Inr v) \<Rightarrow> (db', if crExplicit r = 0 \<and> poll_pk (crChat r) (crAuthor r) (crTimestamp r) = k
                           then Some (unat v) else None))"

lemma unat_of_nat_u32: "n < 4294967296 \<Longrightarrow> unat (of_nat n :: u32) = n"
  by (simp add: unat_of_nat take_bit_nat_eq_self)

lemma unat_Suc_u32: "n < 4294967295 \<Longrightarrow> unat (1 + of_nat n :: u32) = Suc n"
  using unat_of_nat_u32 [of "Suc n"] by simp

interpretation vote_counter: high_water counters_inv "\<lambda>db. counter_level db k" "reserve_for k" for k
proof
  fix db r v
  assume inv: "counters_inv db"
  show "counters_inv (fst (reserve_for k r db))"
    using ReservePollVote_inv [OF inv, of "crFault r" "crChat r" "crAuthor r" "crTimestamp r" "crExplicit r"]
    by (auto simp: reserve_for_def split: prod.splits sum.splits)
  show "counter_level db k \<le> counter_level (fst (reserve_for k r db)) k"
    by (auto simp: reserve_for_def ReservePollVote_cases [OF inv] Let_def counter_level_update split: option.split)
  assume "snd (reserve_for k r db) = Some v"
  then show "counter_level db k < v \<and> v \<le> counter_level (fst (reserve_for k r db)) k"
    by (auto simp: reserve_for_def ReservePollVote_cases [OF inv] Let_def counter_level_update unat_Suc_u32
        split: option.splits if_splits)
qed

section \<open>Identity of a projection\<close>

lemma PollReference_Check_D:
  assumes "uuid_laws U" "PollReference_Check U ref = None"
  shows "canonical_aci U (rACI (prAuthor ref)) \<and> prTimestamp ref \<noteq> 0 \<and>
     (cGroupID (prChat ref) \<noteq> [] \<or> cGroupID (prChat ref) = [] \<and> canonical_aci U (rACI (cRecipient (prChat ref))))"
proof -
  obtain uid where uid: "uuid_Parse U (rACI (prAuthor ref)) = Some uid" "uid \<noteq> uuid_Nil" "uuid_String U uid = rACI (prAuthor ref)"
    using assms(2) by (auto simp: PollReference_Check_def CounterRequest_Check_def split: option.splits if_splits)
  define vote where "vote = \<lparr>vTargetAuthor = prAuthor ref, vTargetTimestamp = prTimestamp ref, vOptionIndexes = [], vVoteCount = 1\<rparr>"
  define send where "send = (if cGroupID (prChat ref) = []
     then noSendRequest\<lparr>sqPollVote := Some vote, sqGroupID := cGroupID (prChat ref), sqRecipients := [cRecipient (prChat ref)]\<rparr>
     else noSendRequest\<lparr>sqPollVote := Some vote, sqGroupID := cGroupID (prChat ref)\<rparr>)"
  have "SendRequest_Check U send = None"
    using assms(2) uid by (auto simp: PollReference_Check_def CounterRequest_Check_def send_def vote_def Let_def Chat_IsGroup_def split: if_splits)
  then have "checkPoll U send = None"
    by (auto simp: SendRequest_Check_alt send_def noSendRequest_def hasPin_def hasPoll_def split: if_splits option.splits)
  then have "validPollChat U send \<and> PollVote_check U vote = None"
    by (auto simp: checkPoll_def Let_def send_def noSendRequest_def present_def PollVote_Check_def vote_def split: if_splits)
  then show ?thesis
    using uid canonical_aci_iff [OF assms(1)]
    by (auto simp: validPollChat_iff [OF assms(1)] PollVote_check_iff send_def vote_def noSendRequest_def split: if_splits)
qed

lemma uuid_not_group:
  assumes "uuid_laws U" "canonical_aci U s"
  shows "\<not> HasPrefix s ''group:'' \<and> s \<noteq> []"
proof -
  obtain u where u: "length u = 16" "s = uuid_String U u" using assms(2) by (auto simp: canonical_aci_def)
  then have t: "length s = 36" "\<forall>c\<in>set s. uuid_text c" using uuid_laws_text [OF assms(1)] by auto
  then obtain c r where "s = c # r" by (cases s) auto
  moreover have "\<not> uuid_text (CHR ''g'')" by (simp add: uuid_text_def byte_def)
  ultimately show ?thesis using t(2) by (auto simp: HasPrefix_def)
qed

lemma keyReference_identity:
  assumes "uuid_laws U" "PollReference_Check U ref = None"
  shows "Chat_Key (prChat (keyReference (pollStoreKey ref))) = Chat_Key (prChat ref)"
    "rACI (prAuthor (keyReference (pollStoreKey ref))) = rACI (prAuthor ref)"
    "prTimestamp (keyReference (pollStoreKey ref)) = prTimestamp ref"
proof -
  note D = PollReference_Check_D [OF assms]
  show "Chat_Key (prChat (keyReference (pollStoreKey ref))) = Chat_Key (prChat ref)"
  proof (cases "cGroupID (prChat ref) = []")
    case True
    then have c: "canonical_aci U (rACI (cRecipient (prChat ref)))" using D by blast
    then have ck: "Chat_Key (prChat ref) = rACI (cRecipient (prChat ref))"
      using True uuid_not_group [OF assms(1) c] by (intro Chat_Key_direct) auto
    show ?thesis
      using uuid_not_group [OF assms(1) c]
      by (simp add: keyReference_def pollStoreKey_def ck Chat_Key_direct noChat_def)
  next
    case False
    then have "Chat_Key (prChat ref) = ''group:'' @ cGroupID (prChat ref)" by (rule Chat_Key_group)
    then show ?thesis
      using False by (simp add: keyReference_def pollStoreKey_def HasPrefix_def TrimPrefix_def Chat_Key_group noChat_def)
  qed
qed (simp_all add: keyReference_def pollStoreKey_def)

lemma PollReference_Check_direct:
  assumes "uuid_laws U" "canonical_aci U (rACI (prAuthor ref))" "prTimestamp ref \<noteq> 0"
    "cGroupID (prChat ref) = []" "canonical_aci U (rACI (cRecipient (prChat ref)))"
  shows "PollReference_Check U ref = None"
proof -
  obtain uid where uid: "uuid_Parse U (rACI (prAuthor ref)) = Some uid" "uid \<noteq> uuid_Nil" "uuid_String U uid = rACI (prAuthor ref)"
    using assms(2) canonical_aci_iff [OF assms(1)] by blast
  define vote where "vote = \<lparr>vTargetAuthor = prAuthor ref, vTargetTimestamp = prTimestamp ref, vOptionIndexes = [], vVoteCount = 1\<rparr>"
  define send where "send = noSendRequest\<lparr>sqPollVote := Some vote, sqGroupID := [], sqRecipients := [cRecipient (prChat ref)]\<rparr>"
  have "validPollChat U send"
    using assms(5) by (simp add: validPollChat_iff [OF assms(1)] send_def noSendRequest_def)
  moreover have "PollVote_Check U vote = None"
    using uid assms(3) by (simp add: PollVote_Check_def PollVote_check_iff vote_def author_ok_def)
  ultimately have "SendRequest_Check U send = None"
    by (simp add: SendRequest_Check_alt checkPoll_def send_def noSendRequest_def content_defs CheckTextStyles_def present_def)
  then show ?thesis
    using uid assms(4) by (simp add: PollReference_Check_def CounterRequest_Check_def Chat_IsGroup_def send_def vote_def)
qed

text \<open>The state that a reduction of evidence is stored as.\<close>

definition durableState :: "uuid_lib \<Rightarrow> PollReference \<Rightarrow> Event list \<Rightarrow> PollState \<Rightarrow> bool" where
  "durableState U ref es st \<longleftrightarrow> (\<exists>st0. ReducePoll U ref es = Some st0
     \<and> st = st0\<lparr>psSource := ''durable'', psObservations := length es\<rparr>)"

lemma pollReduce_ok:
  "pollReduce U J key encoded = Inr data \<Longrightarrow>
   \<exists>es st. decodeEvidence J encoded = Inr es \<and> durableState U (keyReference key) es st \<and> marshalState J st = Inr data"
  by (auto simp: pollReduce_def durableState_def split: sum.splits option.splits)

section \<open>Properties\<close>

text \<open>C8: A projection run keeps the invariant of the poll tables, in which every projection is the
  reduction of the poll's evidence in order; it is atomic (an error leaves the database as it was);
  and a successful run has recorded the new observation, has only added evidence, and, the first
  time, has recorded the evidence of every record in the inbox. \<close>

theorem ProjectPolls_invariant:
  assumes "poll_inv reduce db" "ProjectPolls F beginFault commitFault seed reduce next db = (db', e)"
  shows "poll_inv reduce db' \<and> (e \<noteq> None \<longrightarrow> db' = db)
    \<and> (e = None \<longrightarrow> extends db db' \<and> (\<forall>obs. next = Some obs \<longrightarrow> recorded db' obs)
        \<and> map_of (dbMeta db') seededKey \<noteq> None
        \<and> (map_of (dbMeta db) seededKey = None \<longrightarrow> seeded seed (inboxRecords db) db'))"
proof -
  obtain db1 n1 r1 where b: "projectBody F seed reduce next (db, 0) = ((db1, n1), r1)" by (metis surj_pair)
  show ?thesis
  proof (cases "\<exists>u. r1 = Inr u \<and> beginFault = None \<and> commitFault = None")
    case True
    then obtain u where "r1 = Inr u" "beginFault = None" "commitFault = None" by blast
    then have "db' = db1" "e = None" "projectBody F seed reduce next (db, 0) = ((db1, n1), Inr u)"
      using assms(2) b by (simp_all add: ProjectPolls_def DoTxn_def)
    then show ?thesis using projectBody_ok [OF assms(1)] by blast
  next
    case False
    then have "db' = db" "e \<noteq> None"
      using assms(2) b by (auto simp: ProjectPolls_def DoTxn_def split: option.splits sum.splits)
    then show ?thesis using assms(1) by auto
  qed
qed

definition demoDB :: polldb where
  "demoDB = \<lparr>dbInbox = demoTable, dbMeta = [], dbEvidence = [], dbProjections = [], dbCounters = []\<rparr>"

definition demoSeed :: "InboxRecord \<Rightarrow> PollObservation option res" where
  "demoSeed rec = Inr (Some \<lparr>obKey = \<lparr>pkChat = irChat rec, pkAuthor = irSender rec, pkTimestamp = irTimestamp rec\<rparr>,
     obHash = irEvent rec, obEvent = irEvent rec\<rparr>)"

definition demoReduce :: "PollKey \<Rightarrow> bytes list \<Rightarrow> bytes res" where
  "demoReduce key es = Inr (concat es)"

lemma demoDB_inv: "poll_inv demoReduce demoDB"
  using demoTable_inv
  by (simp add: poll_inv_def demoDB_def evidence_unique_def projected_def proj_ok_def evidence_of_def)

theorem ProjectPolls_invariant_witness:
  "poll_inv demoReduce (fst (ProjectPolls (\<lambda>_. None) None None demoSeed demoReduce None demoDB))"
proof -
  obtain db' e where p: "ProjectPolls (\<lambda>_. None) None None demoSeed demoReduce None demoDB = (db', e)" by fastforce
  show ?thesis using ProjectPolls_invariant [OF demoDB_inv p] p by simp
qed

text \<open>C25: A projection run ends: when no statement fails and every inbox record and every evidence can be
  decoded, it succeeds, whatever the number of batches the inbox is read in. \<close>

theorem ProjectPolls_ends:
  assumes "poll_inv reduce db" "\<And>rec. \<exists>ob. seed rec = Inr ob" "\<And>key es. \<exists>st. reduce key es = Inr st"
  shows "snd (ProjectPolls (\<lambda>_. None) None None seed reduce next db) = None"
proof -
  let ?F = "\<lambda>_. None"
  have inv: "inbox_inv (dbInbox db)" using assms(1) by (simp add: poll_inv_def)
  have "\<exists>s' c. seedPolls (length (ibRows (dbInbox db)) + 2) ?F seed 0 [] (db, Suc 0) = (s', Inr c)"
    using assms(2) inv by (intro seedPolls_success) (auto intro: le_less_trans [OF length_filter_le])
  then obtain dbs ns cs where sp: "seedPolls (length (ibRows (dbInbox db)) + 2) ?F seed 0 [] (db, Suc 0) = ((dbs, ns), Inr cs)"
    by (metis surj_pair)
  have tail: "\<exists>s'. bind_op (case next of None \<Rightarrow> return_op c | Some obs \<Rightarrow> addPollEvidence ?F obs c) (reduceChanged ?F reduce) (d, n)
      = (s', Inr ())" for c d n
  proof (cases "next")
    case None
    then show ?thesis using reduceChanged_success [of ?F reduce c d n] assms(3) by (simp add: bind_op_def return_op_def)
  next
    case (Some obs)
    obtain d1 n1 c1 where "addPollEvidence ?F obs c (d, n) = ((d1, n1), Inr c1)"
      using addPollEvidence_success [of ?F obs c "(d, n)"] by (metis surj_pair)
    then show ?thesis using reduceChanged_success [of ?F reduce c1 d1 n1] assms(3) Some by (simp add: bind_op_def)
  qed
  have "\<exists>s'. projectBody ?F seed reduce next (db, 0) = (s', Inr ())"
  proof (cases "map_of (dbMeta db) seededKey")
    case None
    then show ?thesis
      using sp tail [of cs "dbs\<lparr>dbMeta := AList.update seededKey ''1'' (dbMeta dbs)\<rparr>" "Suc ns"]
      by (simp add: projectBody_def bind_op_def Meta_def SetMeta_def sql_def return_op_def)
  next
    case (Some v)
    then show ?thesis
      using tail [of "[]" db "Suc 0"] by (simp add: projectBody_def bind_op_def Meta_def sql_def return_op_def)
  qed
  then obtain db1 n1 where "projectBody ?F seed reduce next (db, 0) = ((db1, n1), Inr ())" by (metis surj_pair)
  then show ?thesis by (simp add: ProjectPolls_def DoTxn_def)
qed

theorem ProjectPolls_ends_witness:
  "snd (ProjectPolls (\<lambda>_. None) None None demoSeed demoReduce None demoDB) = None"
  by (rule ProjectPolls_ends [OF demoDB_inv]) (simp_all add: demoSeed_def demoReduce_def)

text \<open>C9: A reservation raises the counter of its poll alone and never lowers it. An automatic value is one
  more than the level, which stays within 32 bits: at 2^32 - 1 the result is ErrPollVoteExhausted and
  nothing changes. An explicit value is returned unchanged. Over any sequence of requests the automatic
  values of a poll strictly increase. \<close>

theorem ReservePollVote_spec:
  assumes "counters_inv db" "ReservePollVote f chat author ts explicit db = (db', r)"
  shows "(case r of
      Inl e \<Rightarrow> db' = db \<and> (errors_Is e ErrPollVoteExhausted \<longleftrightarrow>
          f = None \<and> explicit = 0 \<and> counter_level db (poll_pk chat author ts) = 2 ^ 32 - 1)
    | Inr v \<Rightarrow> counter_level db' (poll_pk chat author ts) =
          (if explicit = 0 then counter_level db (poll_pk chat author ts) + 1
           else max (counter_level db (poll_pk chat author ts)) (unat explicit))
        \<and> (if explicit = 0 then unat v = counter_level db' (poll_pk chat author ts) else v = explicit))
    \<and> counters_inv db' \<and> (\<forall>k. k \<noteq> poll_pk chat author ts \<longrightarrow> counter_level db' k = counter_level db k)
    \<and> (\<forall>k rs. sorted_wrt (<) (reservations (reserve_for k) rs db))"
proof -
  let ?k = "poll_pk chat author ts"
  have l: "counter_level db ?k \<le> 4294967295" by (rule counters_inv_level [OF assms(1)])
  have e: "(4294967295::nat) = 2 ^ 32 - 1" by simp
  have "counters_inv db'" using ReservePollVote_inv [OF assms(1), of f chat author ts explicit] assms(2) by simp
  moreover have "sorted_wrt (<) (reservations (reserve_for k) rs db)" for k rs
    using vote_counter.reservations_increase [OF assms(1)] by blast
  moreover have "counter_level db' k = counter_level db k" if "k \<noteq> ?k" for k
    using assms(2) that
    by (auto simp: ReservePollVote_cases [OF assms(1)] Let_def counter_level_update split: option.splits if_splits)
  moreover have "case r of
      Inl e \<Rightarrow> db' = db \<and> (errors_Is e ErrPollVoteExhausted \<longleftrightarrow> f = None \<and> explicit = 0 \<and> counter_level db ?k = 2 ^ 32 - 1)
    | Inr v \<Rightarrow> counter_level db' ?k = (if explicit = 0 then counter_level db ?k + 1 else max (counter_level db ?k) (unat explicit))
        \<and> (if explicit = 0 then unat v = counter_level db' ?k else v = explicit)"
    using assms(2) l
    by (auto simp: ReservePollVote_cases [OF assms(1)] Let_def counter_level_update unat_Suc_u32 split: option.splits if_splits)
  ultimately show ?thesis by blast
qed

theorem ReservePollVote_spec_witness:
  "\<exists>db' v. ReservePollVote None ''c'' ''a'' 5 0 demoDB = (db', Inr v) \<and> unat v = 1"
proof -
  have inv: "counters_inv demoDB" by (simp add: counters_inv_def demoDB_def)
  obtain db' v where r: "ReservePollVote None ''c'' ''a'' 5 0 demoDB = (db', Inr v)"
    by (simp add: ReservePollVote_def demoDB_def Let_def)
  have "unat v = 1"
    using ReservePollVote_spec [OF inv r] by (simp add: counter_level_def demoDB_def)
  then show ?thesis using r by blast
qed

text \<open>C26: The projection shown for a poll is the reduction, for the poll's own identity, of the evidence
  stored for it, marked durable and with the number of observations it rests on. \<close>

theorem PollProjection_reduces:
  assumes "uuid_laws U" "poll_inv (pollReduce U J) db"
    "\<And>st data. marshalState J st = Inr data \<Longrightarrow> data \<noteq> [] \<and> unmarshalState J data = Inr st"
    "PollProjection U J F beginFault commitFault readFault ref db = (db', Inr st)"
  shows "\<exists>ref' es. Chat_Key (prChat ref') = Chat_Key (prChat ref) \<and> rACI (prAuthor ref') = rACI (prAuthor ref)
     \<and> prTimestamp ref' = prTimestamp ref
     \<and> decodeEvidence J (evidence_of db' (keyPK (pollStoreKey ref))) = Inr es \<and> durableState U ref' es st"
proof -
  obtain blank e where ck: "PollReference_Check U ref = None" and bl: "ReducePoll U ref [] = Some blank"
    and pp: "ProjectPolls F beginFault commitFault (pollSeed U J) (pollReduce U J) None db = (db', e)" and "e = None"
    using assms(4) by (auto simp: PollProjection_def split: option.splits prod.splits sum.splits if_splits)
  have "poll_inv (pollReduce U J) db'"
  proof -
    obtain db1 n1 r1 where b: "projectBody F (pollSeed U J) (pollReduce U J) None (db, 0) = ((db1, n1), r1)" by (metis surj_pair)
    then obtain u where "r1 = Inr u" "db' = db1"
      using pp \<open>e = None\<close> by (auto simp: ProjectPolls_def DoTxn_def split: option.splits sum.splits)
    then show ?thesis using projectBody_ok [OF assms(2)] b by blast
  qed
  then have pr: "proj_ok (pollReduce U J) (pollStoreKey ref) (map_of (dbProjections db') (keyPK (pollStoreKey ref)))
      (evidence_of db' (keyPK (pollStoreKey ref)))"
    by (simp add: poll_inv_def projected_def)
  show ?thesis
  proof (cases "map_of (dbProjections db') (keyPK (pollStoreKey ref))")
    case None
    then have "st = blank\<lparr>psSource := ''durable''\<rparr>"
      using assms(4) ck bl pp \<open>e = None\<close>
      by (auto simp: PollProjection_def PollProjectionRecord_def split: option.splits)
    moreover have "psObservations blank = 0"
      using bl by (auto simp: ReducePoll_def finalizeVotes_def initialPollState_def Let_def split: option.splits if_splits)
    then have "blank\<lparr>psSource := ''durable'', psObservations := 0\<rparr> = blank\<lparr>psSource := ''durable''\<rparr>" by (cases blank) simp
    ultimately have "durableState U ref [] st" using bl by (simp add: durableState_def)
    moreover have "decodeEvidence J (evidence_of db' (keyPK (pollStoreKey ref))) = Inr []"
      using pr None by (simp add: proj_ok_def)
    ultimately show ?thesis by blast
  next
    case (Some data)
    then obtain es st' where d: "decodeEvidence J (evidence_of db' (keyPK (pollStoreKey ref))) = Inr es"
      "durableState U (keyReference (pollStoreKey ref)) es st'" "marshalState J st' = Inr data"
      using pr pollReduce_ok by (fastforce simp: proj_ok_def)
    moreover have "st = st'"
      using assms(4) ck bl pp \<open>e = None\<close> Some assms(3) [OF d(3)]
      by (auto simp: PollProjection_def PollProjectionRecord_def split: option.splits)
    ultimately show ?thesis using keyReference_identity [OF assms(1) ck] by blast
  qed
qed

definition demoKey :: PollReference where
  "demoKey = \<lparr>prChat = noChat\<lparr>cRecipient := aciRecipient (demoACI 2)\<rparr>, prAuthor = aciRecipient (demoACI 1), prTimestamp = 7\<rparr>"

definition demoData :: bytes where
  "demoData = (case marshalEvent demoJSON (demoClose 7) noChat of Inr d \<Rightarrow> d | Inl _ \<Rightarrow> [])"

definition demoSt :: PollState where
  "demoSt = (case ReducePoll plain_uuid (keyReference (pollStoreKey demoKey)) [demoClose 7] of
     Some st \<Rightarrow> st\<lparr>psSource := ''durable'', psObservations := 1\<rparr> | None \<Rightarrow> initialPollState demoKey)"

definition demoLib :: client_lib where
  "demoLib = \<lparr>clJSON = demoJSON, marshalState = (\<lambda>st. if st = demoSt then Inr ''s'' else Inl (Opaque [])),
     unmarshalState = (\<lambda>d. Inr demoSt), sha256hex = (\<lambda>d. d), fmt_q = (\<lambda>q os. q)\<rparr>"

definition demoPollDB :: polldb where
  "demoPollDB = \<lparr>dbInbox = demoTable, dbMeta = [(seededKey, ''1'')],
     dbEvidence = [\<lparr>evKey = keyPK (pollStoreKey demoKey), evHash = ''h'', evEvent = demoData\<rparr>],
     dbProjections = [(keyPK (pollStoreKey demoKey), ''s'')], dbCounters = []\<rparr>"

lemma demoACI_canonical: "0 < n \<Longrightarrow> n < 256 \<Longrightarrow> canonical_aci plain_uuid (demoACI n)"
proof -
  assume n: "0 < n" "n < 256"
  have "char_of n \<noteq> char_of (0::nat)" using n by (metis byte_char_of less_numeral_extra(3) zero_less_numeral)
  then have "replicate 16 (char_of n) \<noteq> uuid_Nil" by (simp add: uuid_Nil_def)
  then show ?thesis
    unfolding canonical_aci_def by (intro exI [of _ "replicate 16 (char_of n)"]) (simp add: demoACI_def plain_uuid_def)
qed

lemma demoData_decodes: "unmarshalEvent demoJSON demoData = (demoClose 7, noChat)"
proof -
  have "storedType demoJSON (demoClose 7) = Some (''pollClose'', PEvent (demoClose 7))"
    by (simp add: storedType_def demoClose_def)
  then obtain data where "marshalEvent demoJSON (demoClose 7) noChat = Inr data"
    "unmarshalEvent demoJSON data = (storedForm demoJSON (demoClose 7), noChat)"
    using marshal_roundtrip [OF demoJSON_ok, of noChat] by blast
  then show ?thesis by (simp add: demoData_def storedForm_def demoClose_def)
qed

lemma demo_decoded: "decodeEvidence demoLib [demoData] = Inr [demoClose 7]"
  using demoData_decodes by (simp add: demoLib_def isUnreadable_def demoClose_def)

lemma demo_reduced: "pollReduce plain_uuid demoLib (pollStoreKey demoKey) [demoData] = Inr ''s''"
proof -
  obtain st where st: "ReducePoll plain_uuid (keyReference (pollStoreKey demoKey)) [demoClose 7] = Some st"
    using ReducePoll_spec by blast
  have "demoSt = st\<lparr>psSource := ''durable'', psObservations := Suc 0\<rparr>" using st by (simp add: demoSt_def)
  moreover have "marshalState demoLib demoSt = Inr ''s''" by (simp add: demoLib_def)
  ultimately show ?thesis unfolding pollReduce_def demo_decoded using st by simp
qed

lemma demoPollDB_inv: "poll_inv (pollReduce plain_uuid demoLib) demoPollDB"
  using demoTable_inv demo_reduced
  by (auto simp: poll_inv_def demoPollDB_def evidence_unique_def projected_def proj_ok_def evidence_of_def)

theorem PollProjection_reduces_witness:
  "\<exists>es. decodeEvidence demoLib (evidence_of demoPollDB (keyPK (pollStoreKey demoKey))) = Inr es
     \<and> (\<exists>ref'. Chat_Key (prChat ref') = Chat_Key (prChat demoKey) \<and> durableState plain_uuid ref' es demoSt)"
proof -
  have "PollReference_Check plain_uuid demoKey = None"
    using demoACI_canonical by (intro PollReference_Check_direct [OF plain_uuid_laws]) (simp_all add: demoKey_def noChat_def)
  moreover obtain blank where "ReducePoll plain_uuid demoKey [] = Some blank" using ReducePoll_spec by blast
  moreover have "ProjectPolls (\<lambda>_. None) None None (pollSeed plain_uuid demoLib) (pollReduce plain_uuid demoLib) None demoPollDB
      = (demoPollDB, None)"
    by (simp add: ProjectPolls_def DoTxn_def projectBody_def bind_op_def Meta_def sql_def return_op_def demoPollDB_def)
  ultimately have "PollProjection plain_uuid demoLib (\<lambda>_. None) None None None demoKey demoPollDB = (demoPollDB, Inr demoSt)"
    by (simp add: PollProjection_def PollProjectionRecord_def) (simp add: demoPollDB_def demoLib_def)
  moreover have "marshalState demoLib st = Inr data \<Longrightarrow> data \<noteq> [] \<and> unmarshalState demoLib data = Inr st" for st data
    by (auto simp: demoLib_def split: if_splits)
  ultimately show ?thesis
    using PollProjection_reduces [OF plain_uuid_laws demoPollDB_inv] by blast
qed

end
