(* ===== verification/GroupRules.thy ===== *)
theory GroupRules
  imports SendChecks "HOL-Library.Sublist"
begin

text \<open>
  The rules of groups in internal/signal: groups.go (memberships, renaming, leaving), groups\_add.go,
  groups\_remove.go, groups\_roles.go, groups\_bans.go, groups\_update.go, groups\_avatar.go,
  groups\_link.go, groups\_create.go and the invitation checks of groups\_accept.go. They are pure
  functions on the fetched state of a group, which the backend calls before it sends a change to
  the server. What a Go function returns as a new group is the group that the change asks for.

  The image decoders of Go's library, the protobuf encoding of an invite link and the random
  source are parameters. A Go map from strings to true is the list of its keys.
\<close>

section \<open>Groups (groups.go)\<close>

datatype GroupRole = GroupRoleUnknown | GroupRoleMember | GroupRoleAdmin

datatype Membership = MembershipNone | MembershipMember | MembershipPending | MembershipRequesting

record GroupMember =
  gmRecipient :: Recipient
  gmRole :: GroupRole
  gmJoinedAtRevision :: u32

record PendingMember =
  pmRecipient :: Recipient
  pmRole :: GroupRole
  pmAddedBy :: Recipient
  pmInvitedAt :: time

record RequestingMember =
  rqRecipient :: Recipient
  rqRequestedAt :: time

record BannedMember =
  bnRecipient :: Recipient
  bnBannedAt :: time

record Group =
  gAvatarPath :: string
  gID :: string
  gMasterKey :: string
  gTitle :: string
  gDescription :: string
  gRevision :: u32
  gTimer :: duration
  gAnnouncementsOnly :: bool
  gMembersCanEditAttributes :: bool
  gMembersCanAddMembers :: bool
  gMembers :: "GroupMember list"
  gPending :: "PendingMember list"
  gRequesting :: "RequestingMember list"
  gBanned :: "BannedMember list"
  gMembership :: Membership
  gRole :: GroupRole
  gLeftAt :: time
  gErr :: "err option"

definition GroupRole_String :: "GroupRole \<Rightarrow> string" where
  "GroupRole_String r = (case r of
     GroupRoleMember \<Rightarrow> ''member'' | GroupRoleAdmin \<Rightarrow> ''admin'' | GroupRoleUnknown \<Rightarrow> ''unknown'')"

definition Membership_String :: "Membership \<Rightarrow> string" where
  "Membership_String m = (case m of
     MembershipMember \<Rightarrow> ''member'' | MembershipPending \<Rightarrow> ''pending''
   | MembershipRequesting \<Rightarrow> ''requesting'' | MembershipNone \<Rightarrow> ''none'')"

definition ValidateGroupTitle :: "string \<Rightarrow> err option" where
  "ValidateGroupTitle title =
    (if \<not> ValidString title \<or> TrimSpace title = []
     then Some (Wrap ''provide a non-blank UTF-8 title'' [Sentinel ErrInvalidGroupTitle])
     else None)"

definition memberACI :: "GroupMember \<Rightarrow> string" where
  "memberACI m = rACI (gmRecipient m)"

definition MembershipOf :: "Group \<Rightarrow> string \<Rightarrow> Membership \<times> GroupRole" where
  "MembershipOf g aci =
    (if aci = [] then (MembershipNone, GroupRoleUnknown)
     else case find (\<lambda>m. memberACI m = aci) (gMembers g) of
       Some m \<Rightarrow> (MembershipMember, gmRole m)
     | None \<Rightarrow>
       (case find (\<lambda>p. rACI (pmRecipient p) = aci) (gPending g) of
          Some p \<Rightarrow> (MembershipPending, pmRole p)
        | None \<Rightarrow>
          (case find (\<lambda>r. rACI (rqRecipient r) = aci) (gRequesting g) of
             Some r \<Rightarrow> (MembershipRequesting, GroupRoleUnknown)
           | None \<Rightarrow> (MembershipNone, GroupRoleUnknown))))"

definition CheckRename :: "Group \<Rightarrow> string \<Rightarrow> string \<Rightarrow> err option" where
  "CheckRename g self title = (case ValidateGroupTitle title of
     Some e \<Rightarrow> Some e
   | None \<Rightarrow> (let (membership, role) = MembershipOf g self in
       if membership \<noteq> MembershipMember then Some (Sentinel ErrNotAMember)
       else if role \<noteq> GroupRoleAdmin \<and> \<not> gMembersCanEditAttributes g
       then Some (Wrap ''only administrators can rename this group'' [Sentinel ErrGroupPermission])
       else None))"

definition Admins :: "Group \<Rightarrow> nat" where
  "Admins g = length (filter (\<lambda>m. gmRole m = GroupRoleAdmin) (gMembers g))"

section \<open>Own identities (groups\_accept.go)\<close>

definition acceptIdentity :: "uuid_lib \<Rightarrow> string \<Rightarrow> uuid" where
  "acceptIdentity U value = (case uuid_Parse U value of None \<Rightarrow> uuid_Nil | Some u \<Rightarrow> u)"

definition acceptSelfMatches :: "uuid_lib \<Rightarrow> Recipient \<Rightarrow> Recipient \<Rightarrow> bool" where
  "acceptSelfMatches U recipient self =
    (if rACI recipient \<noteq> [] \<and> rPNI recipient = []
     then acceptIdentity U (rACI self) \<noteq> uuid_Nil
       \<and> acceptIdentity U (rACI recipient) = acceptIdentity U (rACI self)
     else if rPNI recipient \<noteq> [] \<and> rACI recipient = []
     then acceptIdentity U (rPNI self) \<noteq> uuid_Nil
       \<and> acceptIdentity U (rPNI recipient) = acceptIdentity U (rPNI self)
     else False)"

definition SelfMembership :: "uuid_lib \<Rightarrow> Group \<Rightarrow> Recipient \<Rightarrow> Membership \<times> GroupRole" where
  "SelfMembership U g self =
    (let ownACI = acceptIdentity U (rACI self) in
     if ownACI = uuid_Nil then (MembershipNone, GroupRoleUnknown)
     else let (membership, role) = MembershipOf (g\<lparr>gPending := []\<rparr>) (uuid_String U ownACI) in
       if membership = MembershipMember then (membership, role)
       else case find (\<lambda>p. acceptSelfMatches U (pmRecipient p) (aciRecipient (rACI self))) (gPending g) of
         Some p \<Rightarrow> (MembershipPending, pmRole p)
       | None \<Rightarrow>
         (case find (\<lambda>p. acceptSelfMatches U (pmRecipient p) (pniRecipient (rPNI self))) (gPending g) of
            Some p \<Rightarrow> (MembershipPending, pmRole p)
          | None \<Rightarrow> (membership, role)))"

section \<open>Leaving (groups.go)\<close>

text \<open>The loop of \<open>newAdmins\<close>; \<open>promoted\<close> holds the keys of the map.\<close>

fun newAdmins_loop :: "Group \<Rightarrow> string \<Rightarrow> Recipient list \<Rightarrow> string list \<Rightarrow> nat res" where
  "newAdmins_loop g self [] promoted = Inr (length promoted)"
| "newAdmins_loop g self (rcpt # promote) promoted =
    (case find (\<lambda>m. rACI rcpt \<noteq> [] \<and> memberACI m = rACI rcpt) (gMembers g) of
       None \<Rightarrow> Inl (Wrap ''is not another member of the group'' [Sentinel ErrInvalidPromotion])
     | Some m \<Rightarrow>
         if rACI rcpt = self
         then Inl (Wrap ''is not another member of the group'' [Sentinel ErrInvalidPromotion])
         else newAdmins_loop g self promote
           (if gmRole m \<noteq> GroupRoleAdmin then List.insert (rACI rcpt) promoted else promoted))"

definition newAdmins :: "Group \<Rightarrow> string \<Rightarrow> Recipient list \<Rightarrow> nat res" where
  "newAdmins g self promote = newAdmins_loop g self promote []"

definition checkLeave ::
  "Group \<Rightarrow> string \<Rightarrow> Recipient list \<Rightarrow> Membership \<Rightarrow> GroupRole \<Rightarrow> err option" where
  "checkLeave g self promote membership role =
    (let admin = (membership = MembershipMember \<and> role = GroupRoleAdmin) in
     if membership = MembershipNone then Some (Sentinel ErrNotAMember)
     else if promote \<noteq> [] \<and> \<not> admin
     then Some (Wrap ''only admins can promote members'' [Sentinel ErrInvalidPromotion])
     else if membership \<noteq> MembershipMember then None
     else case newAdmins g self promote of
       Inl e \<Rightarrow> Some e
     | Inr n \<Rightarrow> if admin \<and> Admins g + n = 1 \<and> length (gMembers g) > 1
                then Some (Sentinel ErrLastAdmin) else None)"

definition CheckLeave :: "Group \<Rightarrow> string \<Rightarrow> Recipient list \<Rightarrow> err option" where
  "CheckLeave g self promote =
    (let (membership, role) = MembershipOf g self in checkLeave g self promote membership role)"

text \<open>The group with our membership set, beside the error of the check.\<close>

definition PrepareLeave ::
  "uuid_lib \<Rightarrow> Group \<Rightarrow> Recipient \<Rightarrow> Recipient list \<Rightarrow> Group option \<times> err option" where
  "PrepareLeave U g self promote =
    (if acceptIdentity U (rACI self) = uuid_Nil then (None, Some (Sentinel ErrUnresolvable))
     else let (membership, role) = SelfMembership U g self;
              g' = g\<lparr>gMembership := membership, gRole := role\<rparr>
          in (Some g', checkLeave g' (rACI self) promote membership role))"

section \<open>Targets of membership changes (groups\_remove.go)\<close>

fun normalize_members_loop ::
  "uuid_lib \<Rightarrow> Recipient list \<Rightarrow> uuid list \<Rightarrow> Recipient list \<Rightarrow> Recipient list res" where
  "normalize_members_loop U [] seen out = Inr out"
| "normalize_members_loop U (member # members) seen out =
    (case uuid_Parse U (rACI member) of
       None \<Rightarrow> Inl (Wrap ''group member needs a nonzero ACI'' [Sentinel ErrUnresolvable])
     | Some aci \<Rightarrow>
         if aci = uuid_Nil
         then Inl (Wrap ''group member needs a nonzero ACI'' [Sentinel ErrUnresolvable])
         else if aci \<in> set seen then normalize_members_loop U members seen out
         else normalize_members_loop U members (aci # seen)
                (out @ [member\<lparr>rACI := uuid_String U aci\<rparr>]))"

definition normalizeGroupMembers :: "uuid_lib \<Rightarrow> Recipient list \<Rightarrow> Recipient list res" where
  "normalizeGroupMembers U members =
    (if members = [] then Inl (Wrap ''provide at least one member'' [Sentinel ErrInvalidGroupMember])
     else normalize_members_loop U members [] [])"

text \<open>One identity of a removal target: blank stays blank, a valid one becomes canonical.\<close>

definition canonicalIdentity :: "uuid_lib \<Rightarrow> string \<Rightarrow> string option" where
  "canonicalIdentity U value =
    (if value = [] then Some []
     else if acceptIdentity U value = uuid_Nil then None
     else Some (uuid_String U (acceptIdentity U value)))"

fun removal_members_loop ::
  "uuid_lib \<Rightarrow> Recipient list \<Rightarrow> string list \<Rightarrow> Recipient list \<Rightarrow> Recipient list res" where
  "removal_members_loop U [] seen out = Inr out"
| "removal_members_loop U (member # members) seen out =
    (if rACI member = [] \<and> rPNI member = []
     then Inl (Wrap ''group member needs a nonzero ACI or PNI'' [Sentinel ErrUnresolvable])
     else case canonicalIdentity U (rACI member) of
       None \<Rightarrow> Inl (Wrap ''invalid group member identity'' [Sentinel ErrUnresolvable])
     | Some aci \<Rightarrow>
       (case canonicalIdentity U (rPNI member) of
          None \<Rightarrow> Inl (Wrap ''invalid group member identity'' [Sentinel ErrUnresolvable])
        | Some pni \<Rightarrow>
            (let key = aci @ ''|'' @ pni in
             if key \<in> set seen then removal_members_loop U members seen out
             else removal_members_loop U members (key # seen)
                    (out @ [member\<lparr>rACI := aci, rPNI := pni\<rparr>]))))"

definition NormalizeGroupRemovalMembers :: "uuid_lib \<Rightarrow> Recipient list \<Rightarrow> Recipient list res" where
  "NormalizeGroupRemovalMembers U members =
    (if members = [] then Inl (Wrap ''provide at least one member'' [Sentinel ErrInvalidGroupMember])
     else removal_members_loop U members [] [])"

section \<open>Removing members (groups\_remove.go)\<close>

definition removalMembershipTargets :: "uuid_lib \<Rightarrow> Group \<Rightarrow> Recipient \<Rightarrow> Recipient list" where
  "removalMembershipTargets U g member =
    (if fst (MembershipOf (g\<lparr>gPending := []\<rparr>) (rACI member)) \<noteq> MembershipNone
     then [aciRecipient (rACI member)] else [])
    @ filter (\<lambda>r. acceptSelfMatches U r member) (map pmRecipient (gPending g))"

fun removal_targets_loop ::
  "uuid_lib \<Rightarrow> Group \<Rightarrow> Recipient \<Rightarrow> Recipient list \<Rightarrow> Recipient list \<Rightarrow> Recipient list res" where
  "removal_targets_loop U g self [] targets = Inr targets"
| "removal_targets_loop U g self (member # members) targets =
    (if acceptSelfMatches U (aciRecipient (rACI member)) self
        \<or> acceptSelfMatches U (pniRecipient (rPNI member)) self
     then Inl (Wrap ''use groups leave to remove yourself'' [Sentinel ErrInvalidGroupMember])
     else let matched = removalMembershipTargets U g member in
       if matched = []
       then Inl (Wrap ''is not a member, invited or requesting'' [Sentinel ErrInvalidGroupMember])
       else removal_targets_loop U g self members (targets @ matched))"

definition removalTargets ::
  "uuid_lib \<Rightarrow> Group \<Rightarrow> Recipient \<Rightarrow> Recipient list \<Rightarrow> Recipient list res" where
  "removalTargets U g self members = (case NormalizeGroupRemovalMembers U members of
     Inl e \<Rightarrow> Inl e
   | Inr members' \<Rightarrow> (let (membership, role) = MembershipOf g (rACI self) in
       if membership \<noteq> MembershipMember then Inl (Sentinel ErrNotAMember)
       else if role \<noteq> GroupRoleAdmin
       then Inl (Wrap ''only administrators can remove members'' [Sentinel ErrGroupPermission])
       else case removal_targets_loop U g self members' [] of
         Inl e \<Rightarrow> Inl e
       | Inr targets \<Rightarrow> NormalizeGroupRemovalMembers U targets))"

definition removalMatches :: "uuid_lib \<Rightarrow> Recipient \<Rightarrow> Recipient list \<Rightarrow> bool" where
  "removalMatches U recipient targets = list_ex (acceptSelfMatches U recipient) targets"

definition withRemovedTargets :: "uuid_lib \<Rightarrow> Group \<Rightarrow> Recipient list \<Rightarrow> Group" where
  "withRemovedTargets U g targets = g\<lparr>
     gMembers := filter (\<lambda>m. \<not> removalMatches U (aciRecipient (memberACI m)) targets) (gMembers g),
     gPending := filter (\<lambda>p. \<not> removalMatches U (pmRecipient p) targets) (gPending g),
     gRequesting := filter (\<lambda>r. \<not> removalMatches U (aciRecipient (rACI (rqRecipient r))) targets)
       (gRequesting g)\<rparr>"

definition WithRemovedMembersAs ::
  "uuid_lib \<Rightarrow> Group \<Rightarrow> Recipient \<Rightarrow> Recipient list \<Rightarrow> Group res" where
  "WithRemovedMembersAs U g self members = (case removalTargets U g self members of
     Inl e \<Rightarrow> Inl e
   | Inr targets \<Rightarrow> Inr (withRemovedTargets U g targets))"

definition WithRemovedMembers ::
  "uuid_lib \<Rightarrow> Group \<Rightarrow> string \<Rightarrow> Recipient list \<Rightarrow> Group res" where
  "WithRemovedMembers U g self members = WithRemovedMembersAs U g (aciRecipient self) members"

section \<open>Roles (groups\_roles.go)\<close>

definition NormalizeGroupRoleMembers ::
  "uuid_lib \<Rightarrow> Recipient list \<Rightarrow> GroupRole \<Rightarrow> Recipient list res" where
  "NormalizeGroupRoleMembers U members role =
    (if role \<noteq> GroupRoleAdmin \<and> role \<noteq> GroupRoleMember
     then Inl (Wrap ''role must be admin or member'' [Sentinel ErrInvalidGroupMember])
     else normalizeGroupMembers U members)"

fun role_targets_loop :: "Group \<Rightarrow> Recipient list \<Rightarrow> string list \<Rightarrow> string list res" where
  "role_targets_loop g [] targets = Inr targets"
| "role_targets_loop g (member # members) targets =
    (if fst (MembershipOf g (rACI member)) \<noteq> MembershipMember
     then Inl (Wrap ''is not a full member of the group'' [Sentinel ErrInvalidGroupMember])
     else role_targets_loop g members (rACI member # targets))"

definition memberRoleTargets :: "Group \<Rightarrow> string \<Rightarrow> Recipient list \<Rightarrow> string list res" where
  "memberRoleTargets g self members =
    (let (membership, ownRole) = MembershipOf g self in
     if membership \<noteq> MembershipMember then Inl (Sentinel ErrNotAMember)
     else if ownRole \<noteq> GroupRoleAdmin
     then Inl (Wrap ''only administrators can change member roles'' [Sentinel ErrGroupPermission])
     else role_targets_loop g members [])"

text \<open>Both changes below advance the revision by one when something changed, unless it is the
  largest one; then they set the caller's own membership.\<close>

definition errRevision :: err where
  "errRevision = Wrap ''group revision cannot be incremented'' [Sentinel ErrUnknownGroup]"

definition setOwn :: "string \<Rightarrow> Group \<Rightarrow> Group" where
  "setOwn self g = (let (membership, role) = MembershipOf g self in
     g\<lparr>gMembership := membership, gRole := role\<rparr>)"

definition changeRole :: "string list \<Rightarrow> GroupRole \<Rightarrow> GroupMember \<Rightarrow> GroupMember" where
  "changeRole targets role m =
    (if memberACI m \<in> set targets \<and> gmRole m \<noteq> role then m\<lparr>gmRole := role\<rparr> else m)"

definition WithMemberRole ::
  "uuid_lib \<Rightarrow> Group \<Rightarrow> string \<Rightarrow> Recipient list \<Rightarrow> GroupRole \<Rightarrow> Group res" where
  "WithMemberRole U g self members role = (case NormalizeGroupRoleMembers U members role of
     Inl e \<Rightarrow> Inl e
   | Inr members' \<Rightarrow> (case memberRoleTargets g self members' of
       Inl e \<Rightarrow> Inl e
     | Inr targets \<Rightarrow>
         (let next = g\<lparr>gMembers := map (changeRole targets role) (gMembers g)\<rparr>;
              changed = list_ex (\<lambda>m. memberACI m \<in> set targets \<and> gmRole m \<noteq> role) (gMembers g)
          in if Admins next = 0 then Inl (Sentinel ErrLastAdmin)
             else if changed \<and> gRevision g = - 1 then Inl errRevision
             else Inr (setOwn self
               (if changed then next\<lparr>gRevision := gRevision g + 1\<rparr> else next)))))"

section \<open>Bans (groups\_bans.go)\<close>

definition NormalizeGroupBanMembers :: "uuid_lib \<Rightarrow> Recipient list \<Rightarrow> Recipient list res" where
  "NormalizeGroupBanMembers U members = normalizeGroupMembers U members"

fun ban_targets_loop :: "string \<Rightarrow> Recipient list \<Rightarrow> string list \<Rightarrow> string list res" where
  "ban_targets_loop self [] targets = Inr targets"
| "ban_targets_loop self (member # members) targets =
    (if rACI member = self
     then Inl (Wrap ''cannot ban or unban yourself'' [Sentinel ErrInvalidGroupMember])
     else ban_targets_loop self members (rACI member # targets))"

definition banTargets :: "Group \<Rightarrow> string \<Rightarrow> Recipient list \<Rightarrow> string list res" where
  "banTargets g self members =
    (let (membership, role) = MembershipOf g self in
     if membership \<noteq> MembershipMember then Inl (Sentinel ErrNotAMember)
     else if role \<noteq> GroupRoleAdmin
     then Inl (Wrap ''only administrators can ban or unban users'' [Sentinel ErrGroupPermission])
     else ban_targets_loop self members [])"

definition bannedACI :: "Group \<Rightarrow> string \<Rightarrow> bool" where
  "bannedACI g aci = list_ex (\<lambda>b. rACI (bnRecipient b) \<noteq> [] \<and> rACI (bnRecipient b) = aci) (gBanned g)"

definition removeBannedTargets :: "string list \<Rightarrow> Group \<Rightarrow> Group" where
  "removeBannedTargets targets g = g\<lparr>
     gMembers := filter (\<lambda>m. memberACI m \<notin> set targets) (gMembers g),
     gPending := filter (\<lambda>p. \<not> (rACI (pmRecipient p) \<noteq> [] \<and> rACI (pmRecipient p) \<in> set targets)) (gPending g),
     gRequesting := filter (\<lambda>r. rACI (rqRecipient r) \<notin> set targets) (gRequesting g)\<rparr>"

definition banMembershipChanged :: "Group \<Rightarrow> Group \<Rightarrow> bool" where
  "banMembershipChanged g next \<longleftrightarrow>
     length (gMembers next) \<noteq> length (gMembers g) \<or> length (gPending next) \<noteq> length (gPending g)
   \<or> length (gRequesting next) \<noteq> length (gRequesting g) \<or> length (gBanned next) \<noteq> length (gBanned g)"

definition applyBan ::
  "Group \<Rightarrow> Recipient list \<Rightarrow> string list \<Rightarrow> bool \<Rightarrow> time \<Rightarrow> Group" where
  "applyBan g members targets banned bannedAt =
    (if banned
     then (removeBannedTargets targets g)\<lparr>gBanned := gBanned g
            @ map (\<lambda>member. \<lparr>bnRecipient = member, bnBannedAt = bannedAt\<rparr>)
                (filter (\<lambda>member. \<not> bannedACI g (rACI member)) members)\<rparr>
     else g\<lparr>gBanned := filter (\<lambda>b. \<not> (rACI (bnRecipient b) \<noteq> []
            \<and> rACI (bnRecipient b) \<in> set targets)) (gBanned g)\<rparr>)"

definition WithBannedMembers ::
  "uuid_lib \<Rightarrow> Group \<Rightarrow> string \<Rightarrow> Recipient list \<Rightarrow> bool \<Rightarrow> time \<Rightarrow> Group res" where
  "WithBannedMembers U g self members banned bannedAt = (case NormalizeGroupBanMembers U members of
     Inl e \<Rightarrow> Inl e
   | Inr members' \<Rightarrow> (case banTargets g self members' of
       Inl e \<Rightarrow> Inl e
     | Inr targets \<Rightarrow>
         (let next = applyBan g members' targets banned bannedAt;
              changed = banMembershipChanged g next
          in if changed \<and> gRevision g = - 1 then Inl errRevision
             else Inr (setOwn self
               (if changed then next\<lparr>gRevision := gRevision g + 1\<rparr> else next)))))"

section \<open>Adding members (groups\_add.go, groups\_create.go)\<close>

definition checkedBannedAddTargets :: "Group \<Rightarrow> Recipient list \<Rightarrow> Recipient list res" where
  "checkedBannedAddTargets g targets =
    (if list_ex (\<lambda>member. bannedACI g (rACI member)) targets
     then Inl (Wrap ''is banned from the group'' [Sentinel ErrInvalidGroupMember])
     else Inr targets)"

fun add_targets_loop ::
  "Group \<Rightarrow> GroupRole \<Rightarrow> Recipient list \<Rightarrow> Recipient list \<Rightarrow> Recipient list res" where
  "add_targets_loop g role [] targets = Inr targets"
| "add_targets_loop g role (member # members) targets =
    (case fst (MembershipOf g (rACI member)) of
       MembershipMember \<Rightarrow> add_targets_loop g role members targets
     | MembershipPending \<Rightarrow> add_targets_loop g role members targets
     | MembershipRequesting \<Rightarrow>
         if role \<noteq> GroupRoleAdmin
         then Inl (Wrap ''only administrators can approve join requests'' [Sentinel ErrGroupPermission])
         else add_targets_loop g role members (targets @ [member])
     | MembershipNone \<Rightarrow> add_targets_loop g role members (targets @ [member]))"

definition CheckAddMembers ::
  "uuid_lib \<Rightarrow> Group \<Rightarrow> string \<Rightarrow> Recipient list \<Rightarrow> Recipient list res" where
  "CheckAddMembers U g self members = (case normalizeGroupMembers U members of
     Inl e \<Rightarrow> Inl e
   | Inr members' \<Rightarrow> (let (membership, role) = MembershipOf g self in
       if membership \<noteq> MembershipMember then Inl (Sentinel ErrNotAMember)
       else if role \<noteq> GroupRoleAdmin \<and> \<not> gMembersCanAddMembers g
       then Inl (Wrap ''only administrators can add members to this group'' [Sentinel ErrGroupPermission])
       else case add_targets_loop g role members' [] of
         Inl e \<Rightarrow> Inl e
       | Inr targets \<Rightarrow> checkedBannedAddTargets g targets))"

record CreateGroupOptions =
  cgTitle :: string
  cgMembers :: "Recipient list"

fun check_create_members :: "uuid_lib \<Rightarrow> Recipient list \<Rightarrow> err option" where
  "check_create_members U [] = None"
| "check_create_members U (member # members) =
    (case uuid_Parse U (rACI member) of
       None \<Rightarrow> Some (Wrap ''group member needs a nonzero ACI'' [Sentinel ErrUnresolvable])
     | Some u \<Rightarrow> if u = uuid_Nil
         then Some (Wrap ''group member needs a nonzero ACI'' [Sentinel ErrUnresolvable])
         else check_create_members U members)"

definition CreateGroup_Check :: "uuid_lib \<Rightarrow> CreateGroupOptions \<Rightarrow> err option" where
  "CreateGroup_Check U opts = (case ValidateGroupTitle (cgTitle opts) of
     Some e \<Rightarrow> Some e | None \<Rightarrow> check_create_members U (cgMembers opts))"

text \<open>\<open>uuid.MustParse\<close> panics on a text that is no UUID: None.\<close>

fun unique_members_loop ::
  "uuid_lib \<Rightarrow> Recipient list \<Rightarrow> uuid list \<Rightarrow> Recipient list \<Rightarrow> Recipient list option" where
  "unique_members_loop U [] seen members = Some members"
| "unique_members_loop U (member # rest) seen members =
    (case uuid_Parse U (rACI member) of
       None \<Rightarrow> None
     | Some u \<Rightarrow>
         if u \<in> set seen then unique_members_loop U rest seen members
         else unique_members_loop U rest (u # seen) (members @ [member\<lparr>rACI := uuid_String U u\<rparr>]))"

definition UniqueMembers :: "uuid_lib \<Rightarrow> CreateGroupOptions \<Rightarrow> string \<Rightarrow> Recipient list option" where
  "UniqueMembers U opts self = (case uuid_Parse U self of
     None \<Rightarrow> None
   | Some own \<Rightarrow> unique_members_loop U (cgMembers opts) [own] [])"

section \<open>Settings (groups\_avatar.go, groups\_update.go)\<close>

text \<open>Go's image decoders: the dimensions and the format that a header announces, and whether the
  whole image decodes.\<close>

record image_lib =
  image_DecodeConfig :: "bytes \<Rightarrow> (int \<times> int \<times> string) option"
  image_Decode :: "bytes \<Rightarrow> bool"

definition MaxGroupAvatarSize :: nat where
  "MaxGroupAvatarSize = 2 * 2 ^ 20"

definition MaxGroupAvatarDimension :: int where
  "MaxGroupAvatarDimension = 2048"

record GroupAvatarUpdate =
  avData :: bytes
  avRemove :: bool

definition validAvatarConfig :: "int \<times> int \<times> string \<Rightarrow> bool" where
  "validAvatarConfig c = (case c of (width, height, format) \<Rightarrow>
     (format = ''png'' \<or> format = ''jpeg'') \<and> width > 0 \<and> height > 0
     \<and> width \<le> MaxGroupAvatarDimension \<and> height \<le> MaxGroupAvatarDimension)"

definition GroupAvatarUpdate_check :: "image_lib \<Rightarrow> GroupAvatarUpdate \<Rightarrow> err option" where
  "GroupAvatarUpdate_check I avatar =
    (if avRemove avatar \<and> avData avatar = [] then None
     else if avRemove avatar \<or> avData avatar = [] \<or> length (avData avatar) > MaxGroupAvatarSize
     then Some (Wrap ''provide PNG or JPEG avatar data within the size limit, or remove it''
       [Sentinel ErrInvalidGroupUpdate])
     else case image_DecodeConfig I (avData avatar) of
       None \<Rightarrow> Some (Wrap ''avatar must be a PNG or JPEG within the dimension limit''
         [Sentinel ErrInvalidGroupUpdate])
     | Some config \<Rightarrow>
         if \<not> validAvatarConfig config
         then Some (Wrap ''avatar must be a PNG or JPEG within the dimension limit''
           [Sentinel ErrInvalidGroupUpdate])
         else if \<not> image_Decode I (avData avatar)
         then Some (Wrap ''avatar image is incomplete or invalid'' [Sentinel ErrInvalidGroupUpdate])
         else None)"

record GroupUpdate =
  guAvatar :: "GroupAvatarUpdate option"
  guDescription :: "string option"
  guTimerSeconds :: "u32 option"
  guAnnouncementsOnly :: "bool option"
  guMembersCanEditAttributes :: "bool option"
  guMembersCanAddMembers :: "bool option"

definition attributeSettings :: "GroupUpdate \<Rightarrow> bool" where
  "attributeSettings u \<longleftrightarrow> guAvatar u \<noteq> None \<or> guDescription u \<noteq> None \<or> guTimerSeconds u \<noteq> None"

definition adminSettings :: "GroupUpdate \<Rightarrow> bool" where
  "adminSettings u \<longleftrightarrow> guAnnouncementsOnly u \<noteq> None \<or> guMembersCanEditAttributes u \<noteq> None
     \<or> guMembersCanAddMembers u \<noteq> None"

definition GroupUpdate_Check :: "image_lib \<Rightarrow> GroupUpdate \<Rightarrow> err option" where
  "GroupUpdate_Check I u =
    (if guAvatar u = None \<and> guDescription u = None \<and> guTimerSeconds u = None \<and> \<not> adminSettings u
     then Some (Wrap ''provide at least one setting'' [Sentinel ErrInvalidGroupUpdate])
     else if (case guDescription u of Some d \<Rightarrow> \<not> ValidString d | None \<Rightarrow> False)
     then Some (Wrap ''description must be valid UTF-8'' [Sentinel ErrInvalidGroupUpdate])
     else case guAvatar u of Some avatar \<Rightarrow> GroupAvatarUpdate_check I avatar | None \<Rightarrow> None)"

definition CheckUpdate :: "image_lib \<Rightarrow> Group \<Rightarrow> string \<Rightarrow> GroupUpdate \<Rightarrow> err option" where
  "CheckUpdate I g self u = (case GroupUpdate_Check I u of
     Some e \<Rightarrow> Some e
   | None \<Rightarrow> (let (membership, role) = MembershipOf g self in
       if membership \<noteq> MembershipMember then Some (Sentinel ErrNotAMember)
       else if adminSettings u \<and> role \<noteq> GroupRoleAdmin
       then Some (Wrap ''only administrators can change announcement mode or group permissions''
         [Sentinel ErrGroupPermission])
       else if attributeSettings u \<and> role \<noteq> GroupRoleAdmin \<and> \<not> gMembersCanEditAttributes g
       then Some (Wrap ''only administrators can edit group attributes'' [Sentinel ErrGroupPermission])
       else None))"

definition updatedSettings :: "Group \<Rightarrow> GroupUpdate \<Rightarrow> Group" where
  "updatedSettings g u = g\<lparr>
     gAvatarPath := (case guAvatar u of Some a \<Rightarrow> if avRemove a then [] else gAvatarPath g
                     | None \<Rightarrow> gAvatarPath g),
     gDescription := (case guDescription u of Some d \<Rightarrow> d | None \<Rightarrow> gDescription g),
     gTimer := (case guTimerSeconds u of Some s \<Rightarrow> uint s * 1000000000 | None \<Rightarrow> gTimer g),
     gAnnouncementsOnly := (case guAnnouncementsOnly u of Some b \<Rightarrow> b | None \<Rightarrow> gAnnouncementsOnly g),
     gMembersCanEditAttributes := (case guMembersCanEditAttributes u of
        Some b \<Rightarrow> b | None \<Rightarrow> gMembersCanEditAttributes g),
     gMembersCanAddMembers := (case guMembersCanAddMembers u of
        Some b \<Rightarrow> b | None \<Rightarrow> gMembersCanAddMembers g)\<rparr>"

definition sameSettings :: "Group \<Rightarrow> Group \<Rightarrow> bool" where
  "sameSettings g other \<longleftrightarrow> gAvatarPath g = gAvatarPath other \<and> gDescription g = gDescription other
     \<and> gTimer g = gTimer other \<and> gAnnouncementsOnly g = gAnnouncementsOnly other
     \<and> gMembersCanEditAttributes g = gMembersCanEditAttributes other
     \<and> gMembersCanAddMembers g = gMembersCanAddMembers other"

definition WithUpdate :: "image_lib \<Rightarrow> Group \<Rightarrow> string \<Rightarrow> GroupUpdate \<Rightarrow> Group res" where
  "WithUpdate I g self u = (case CheckUpdate I g self u of
     Some e \<Rightarrow> Inl e
   | None \<Rightarrow>
       (let next = updatedSettings g u;
            changed = (\<not> sameSettings next g
              \<or> (case guAvatar u of Some a \<Rightarrow> \<not> avRemove a | None \<Rightarrow> False))
        in if changed \<and> gRevision g = - 1 then Inl errRevision
           else Inr (if changed then next\<lparr>gRevision := gRevision next + 1\<rparr> else next)))"

section \<open>Invite links (groups\_link.go)\<close>

text \<open>A state is a Go string, since a server may report one the program does not know.\<close>

definition GroupLinkDisabled :: string where "GroupLinkDisabled = ''disabled''"
definition GroupLinkEnabled :: string where "GroupLinkEnabled = ''enabled''"
definition GroupLinkApproval :: string where "GroupLinkApproval = ''enabled-with-approval''"
definition GroupLinkUnknown :: string where "GroupLinkUnknown = ''unknown''"

record GroupLink =
  glID :: string
  glRevision :: u32
  glState :: string
  glURL :: string

record GroupLinkUpdate =
  luState :: "string option"
  luReset :: bool

definition GroupLinkUpdate_Check :: "GroupLinkUpdate \<Rightarrow> err option" where
  "GroupLinkUpdate_Check u =
    (if luState u = None \<and> \<not> luReset u
     then Some (Wrap ''provide a state or reset'' [Sentinel ErrInvalidGroupLinkUpdate])
     else if (case luState u of Some s \<Rightarrow> s \<noteq> GroupLinkDisabled \<and> s \<noteq> GroupLinkEnabled
                \<and> s \<noteq> GroupLinkApproval | None \<Rightarrow> False)
     then Some (Wrap ''state must be disabled, enabled or enabled-with-approval''
       [Sentinel ErrInvalidGroupLinkUpdate])
     else None)"

definition checkGroupLink :: "Group \<Rightarrow> string \<Rightarrow> bool \<Rightarrow> err option" where
  "checkGroupLink g self write =
    (let (membership, role) = MembershipOf g self in
     if membership \<noteq> MembershipMember then Some (Sentinel ErrNotAMember)
     else if write \<and> role \<noteq> GroupRoleAdmin
     then Some (Wrap ''only administrators can change group links'' [Sentinel ErrGroupPermission])
     else None)"

definition decodeGroupLinkSecret :: "string \<Rightarrow> nat \<Rightarrow> bytes res" where
  "decodeGroupLinkSecret value n = (case StdDecode value of
     None \<Rightarrow> Inl (Wrap ''invalid group link secret'' [Sentinel ErrUnknownGroup])
   | Some decoded \<Rightarrow> if length decoded = n then Inr decoded
       else Inl (Wrap ''invalid group link secret'' [Sentinel ErrUnknownGroup]))"

text \<open>\<open>enc\<close> is the protobuf encoding of an invite link's master key and password.\<close>

definition Group_Link ::
  "(bytes \<Rightarrow> bytes \<Rightarrow> bytes option) \<Rightarrow> Group \<Rightarrow> string \<Rightarrow> string \<Rightarrow> string \<Rightarrow> GroupLink res" where
  "Group_Link enc g self state password = (case checkGroupLink g self False of
     Some e \<Rightarrow> Inl e
   | None \<Rightarrow>
       (let link = \<lparr>glID = gID g, glRevision = gRevision g, glState = state, glURL = []\<rparr> in
        if state \<noteq> GroupLinkEnabled \<and> state \<noteq> GroupLinkApproval
        then Inr (if state \<noteq> GroupLinkDisabled then link\<lparr>glState := GroupLinkUnknown\<rparr> else link)
        else case decodeGroupLinkSecret (gMasterKey g) 32 of
          Inl e \<Rightarrow> Inl e
        | Inr key \<Rightarrow> (case decodeGroupLinkSecret password 16 of
            Inl e \<Rightarrow> Inl e
          | Inr secret \<Rightarrow> (case enc key secret of
              None \<Rightarrow> Inl (Wrap ''cannot encode invite link'' [Sentinel ErrUnknownGroup])
            | Some data \<Rightarrow> Inr (link\<lparr>glURL := ''https://signal.group/#'' @ RawURLEncode data\<rparr>)))))"

text \<open>\<open>random\<close> is what reading sixteen bytes from the random source gives, if it succeeds.\<close>

definition newGroupLinkPassword :: "bytes option \<Rightarrow> string res" where
  "newGroupLinkPassword random = (case random of
     None \<Rightarrow> Inl (Wrap ''generate group link password'' [Opaque ''rand''])
   | Some secret \<Rightarrow> Inr (StdEncode secret))"

definition updatedGroupLinkPassword ::
  "bytes option \<Rightarrow> string \<Rightarrow> string \<Rightarrow> bool \<Rightarrow> string res" where
  "updatedGroupLinkPassword random state password reset =
    (if reset \<or> ((state = GroupLinkEnabled \<or> state = GroupLinkApproval) \<and> password = [])
     then newGroupLinkPassword random else Inr password)"

definition WithLinkUpdate ::
  "(bytes \<Rightarrow> bytes \<Rightarrow> bytes option) \<Rightarrow> bytes option \<Rightarrow> Group \<Rightarrow> string \<Rightarrow> string \<Rightarrow> string
   \<Rightarrow> GroupLinkUpdate \<Rightarrow> (GroupLink \<times> string) res" where
  "WithLinkUpdate enc random g self state password u = (case GroupLinkUpdate_Check u of
     Some e \<Rightarrow> Inl e
   | None \<Rightarrow> (case checkGroupLink g self True of
       Some e \<Rightarrow> Inl e
     | None \<Rightarrow> (case decodeGroupLinkSecret (gMasterKey g) 32 of
         Inl e \<Rightarrow> Inl e
       | Inr _ \<Rightarrow>
         (let nextState = (case luState u of Some s \<Rightarrow> s | None \<Rightarrow> state) in
          case updatedGroupLinkPassword random nextState password (luReset u) of
            Inl e \<Rightarrow> Inl e
          | Inr nextPassword \<Rightarrow> (case Group_Link enc g self nextState nextPassword of
              Inl e \<Rightarrow> Inl e
            | Inr link \<Rightarrow>
                if nextState \<noteq> state \<or> nextPassword \<noteq> password
                then if gRevision g = - 1 then Inl errRevision
                     else Inr (link\<lparr>glRevision := glRevision link + 1\<rparr>, nextPassword)
                else Inr (link, nextPassword))))))"

section \<open>Accepting invitations (groups\_accept.go)\<close>

fun pending_accept_loop ::
  "uuid_lib \<Rightarrow> Recipient \<Rightarrow> PendingMember list \<Rightarrow> Recipient \<times> nat \<Rightarrow> Recipient \<times> nat
   \<Rightarrow> Recipient res" where
  "pending_accept_loop U self [] (aci, aciCount) (pni, pniCount) =
    (if aciCount > 1 \<or> pniCount > 1 then Inl (Sentinel ErrInvalidGroupChangeResponse)
     else if aciCount = 1 then Inr aci else Inr pni)"
| "pending_accept_loop U self (p # ps) (aci, aciCount) (pni, pniCount) =
    (if \<not> acceptSelfMatches U (pmRecipient p) self
     then pending_accept_loop U self ps (aci, aciCount) (pni, pniCount)
     else if pmRole p \<noteq> GroupRoleMember \<and> pmRole p \<noteq> GroupRoleAdmin
     then Inl (Sentinel ErrInvalidGroupChangeResponse)
     else if rACI (pmRecipient p) \<noteq> []
     then pending_accept_loop U self ps
       (aciRecipient (uuid_String U (acceptIdentity U (rACI self))), aciCount + 1) (pni, pniCount)
     else pending_accept_loop U self ps (aci, aciCount)
       (pniRecipient (uuid_String U (acceptIdentity U (rPNI self))), pniCount + 1))"

definition pendingAcceptInvitation :: "uuid_lib \<Rightarrow> Group \<Rightarrow> Recipient \<Rightarrow> Recipient res" where
  "pendingAcceptInvitation U g self =
     pending_accept_loop U self (gPending g) (noRecipient, 0) (noRecipient, 0)"

definition CheckAcceptInvitation :: "uuid_lib \<Rightarrow> Group \<Rightarrow> Recipient \<Rightarrow> (Recipient \<times> bool) res" where
  "CheckAcceptInvitation U g self =
    (let ownACI = acceptIdentity U (rACI self) in
     if ownACI = uuid_Nil then Inl (Sentinel ErrInvalidGroupChangeResponse)
     else if list_ex (\<lambda>m. acceptIdentity U (memberACI m) = ownACI) (gMembers g)
     then Inr (noRecipient, True)
     else case pendingAcceptInvitation U g self of
       Inl e \<Rightarrow> Inl e
     | Inr invited \<Rightarrow>
         if list_ex (\<lambda>b. acceptSelfMatches U (bnRecipient b) self) (gBanned g)
         then Inl (Sentinel ErrInvalidGroupChangeResponse)
         else if Recipient_IsZero invited then Inl (Sentinel ErrGroupInvitationNotFound)
         else if list_ex (\<lambda>r. acceptSelfMatches U (rqRecipient r) self) (gRequesting g)
         then Inl (Sentinel ErrInvalidGroupChangeResponse)
         else if gRevision g = - 1 then Inl (Sentinel ErrInvalidGroupChangeResponse)
         else Inr (invited, False))"

section \<open>Facts on normalized targets\<close>

text \<open>A target names a user when its ACI parses to a nonzero UUID; its canonical ACI is then the
  printed form of that UUID.\<close>

definition validACI :: "uuid_lib \<Rightarrow> Recipient \<Rightarrow> bool" where
  "validACI U r \<longleftrightarrow> acceptIdentity U (rACI r) \<noteq> uuid_Nil"

definition canonACI :: "uuid_lib \<Rightarrow> Recipient \<Rightarrow> string" where
  "canonACI U r = uuid_String U (acceptIdentity U (rACI r))"

lemma acceptIdentity_length:
  assumes "uuid_laws U" shows "length (acceptIdentity U s) = 16"
  using uuid_laws_length [OF assms]
  by (auto simp: acceptIdentity_def uuid_Nil_def split: option.splits)

lemma acceptIdentity_String:
  assumes "uuid_laws U" and "length u = 16" shows "acceptIdentity U (uuid_String U u) = u"
  by (simp add: acceptIdentity_def uuid_laws_parse [OF assms])

lemma acceptIdentity_Nil [simp]: "uuid_laws U \<Longrightarrow> acceptIdentity U [] = uuid_Nil"
  by (simp add: acceptIdentity_def uuid_laws_Nil)

lemma acceptIdentity_idem [simp]:
  "uuid_laws U \<Longrightarrow> acceptIdentity U (uuid_String U (acceptIdentity U s)) = acceptIdentity U s"
  by (simp add: acceptIdentity_String acceptIdentity_length)

lemma uuid_String_nonempty: "uuid_laws U \<Longrightarrow> length u = 16 \<Longrightarrow> uuid_String U u \<noteq> []"
  using uuid_laws_text [of U u] by fastforce

lemma canonACI_nonempty: "uuid_laws U \<Longrightarrow> canonACI U r \<noteq> []"
  by (simp add: canonACI_def uuid_String_nonempty acceptIdentity_length)

lemma canonACI_eq_iff:
  "uuid_laws U \<Longrightarrow> canonACI U a = canonACI U b \<longleftrightarrow> acceptIdentity U (rACI a) = acceptIdentity U (rACI b)"
  by (metis acceptIdentity_idem canonACI_def)

lemma acceptIdentity_Nil_iff:
  "acceptIdentity U s \<noteq> uuid_Nil \<longleftrightarrow> (\<exists>u. uuid_Parse U s = Some u \<and> u \<noteq> uuid_Nil)"
  by (auto simp: acceptIdentity_def split: option.splits)

text \<open>The closed form of both normalizing loops: the first target of each user, canonicalized.\<close>

fun firsts :: "('a \<Rightarrow> 'k) \<Rightarrow> 'a list \<Rightarrow> 'k list \<Rightarrow> 'a list" where
  "firsts k [] seen = []"
| "firsts k (x # xs) seen =
    (if k x \<in> set seen then firsts k xs seen else x # firsts k xs (k x # seen))"

lemma firsts_keys: "k ` set (firsts k xs seen) = k ` set xs - set seen"
proof (induction xs arbitrary: seen)
  case (Cons x xs)
  show ?case using Cons [of seen] Cons [of "k x # seen"] by auto
qed simp

lemma firsts_sub: "set (firsts k xs seen) \<subseteq> set xs"
proof (induction xs arbitrary: seen)
  case (Cons x xs)
  show ?case using Cons [of seen] Cons [of "k x # seen"] by auto
qed simp

lemma firsts_distinct: "distinct (map k (firsts k xs seen))"
proof (induction xs arbitrary: seen)
  case (Cons x xs)
  have "k x \<notin> k ` set (firsts k xs (k x # seen))" by (simp add: firsts_keys)
  then show ?case using Cons [of seen] Cons [of "k x # seen"] by simp
qed simp

definition canonMember :: "uuid_lib \<Rightarrow> Recipient \<Rightarrow> Recipient" where
  "canonMember U r = r\<lparr>rACI := canonACI U r\<rparr>"

lemma canonMember_ACI [simp]: "rACI (canonMember U r) = canonACI U r"
  by (simp add: canonMember_def)

lemma normalize_members_loop_iff:
  "normalize_members_loop U ms seen out =
    (if list_all (validACI U) ms
     then Inr (out @ map (canonMember U) (firsts (\<lambda>r. acceptIdentity U (rACI r)) ms seen))
     else Inl (Wrap ''group member needs a nonzero ACI'' [Sentinel ErrUnresolvable]))"
proof (induction ms arbitrary: seen out)
  case (Cons m ms)
  show ?case
  proof (cases "uuid_Parse U (rACI m)")
    case None
    then show ?thesis by (simp add: validACI_def acceptIdentity_def)
  next
    case (Some u)
    then have "acceptIdentity U (rACI m) = u" by (simp add: acceptIdentity_def)
    then show ?thesis using Some Cons
      by (simp add: validACI_def canonMember_def canonACI_def)
  qed
qed simp

lemma normalizeGroupMembers_iff:
  "normalizeGroupMembers U ms = Inr out \<longleftrightarrow>
     ms \<noteq> [] \<and> list_all (validACI U) ms
     \<and> out = map (canonMember U) (firsts (\<lambda>r. acceptIdentity U (rACI r)) ms [])"
  by (auto simp: normalizeGroupMembers_def normalize_members_loop_iff)

text \<open>Normalized targets are distinct canonical ACIs of exactly the users named.\<close>

lemma normalizeGroupMembers_D:
  assumes "uuid_laws U" and "normalizeGroupMembers U ms = Inr out"
  shows "rACI ` set out = canonACI U ` set ms"
    and "distinct (map rACI out)"
    and "ms \<noteq> []" and "\<forall>m\<in>set ms. validACI U m"
proof -
  let ?k = "\<lambda>r. acceptIdentity U (rACI r)"
  have out: "out = map (canonMember U) (firsts ?k ms [])" and v: "ms \<noteq> []" "list_all (validACI U) ms"
    using assms(2) by (simp_all add: normalizeGroupMembers_iff)
  have "rACI ` set out = uuid_String U ` ?k ` set (firsts ?k ms [])"
    by (auto simp: out canonACI_def image_iff)
  also have "\<dots> = canonACI U ` set ms"
    by (simp add: firsts_keys canonACI_def image_image)
  finally show "rACI ` set out = canonACI U ` set ms" .
  have "map rACI out = map (uuid_String U) (map ?k (firsts ?k ms []))"
    by (simp add: out canonACI_def)
  moreover have "inj_on (uuid_String U) (set (map ?k (firsts ?k ms [])))"
    by (rule inj_onI) (metis (no_types, lifting) acceptIdentity_idem assms(1) ex_map_conv)
  moreover have "distinct (map ?k (firsts ?k ms []))" by (rule firsts_distinct)
  ultimately show "distinct (map rACI out)"
    by (simp only: distinct_map [of "uuid_String U"])
  show "ms \<noteq> []" "\<forall>m\<in>set ms. validACI U m"
    using v by (simp_all add: list_all_iff)
qed

section \<open>Role changes\<close>

lemma role_targets_loop_iff:
  "role_targets_loop g ms ts =
    (if \<forall>m\<in>set ms. fst (MembershipOf g (rACI m)) = MembershipMember
     then Inr (rev (map rACI ms) @ ts)
     else Inl (Wrap ''is not a full member of the group'' [Sentinel ErrInvalidGroupMember]))"
  by (induction ms arbitrary: ts) auto

lemma MembershipOf_cong:
  "gMembers g = gMembers h \<Longrightarrow> gPending g = gPending h \<Longrightarrow> gRequesting g = gRequesting h
   \<Longrightarrow> MembershipOf g a = MembershipOf h a"
  by (simp add: MembershipOf_def split: option.split)

lemma MembershipOf_congruent [simp]:
  "MembershipOf (g\<lparr>gMembership := x\<rparr>) a = MembershipOf g a"
  "MembershipOf (g\<lparr>gRole := y\<rparr>) a = MembershipOf g a"
  "MembershipOf (g\<lparr>gRevision := z\<rparr>) a = MembershipOf g a"
  by (rule MembershipOf_cong; simp)+

lemma setOwn_simps [simp]:
  "gMembers (setOwn self g) = gMembers g" "gPending (setOwn self g) = gPending g"
  "gRequesting (setOwn self g) = gRequesting g" "gBanned (setOwn self g) = gBanned g"
  "gRevision (setOwn self g) = gRevision g" "gTitle (setOwn self g) = gTitle g"
  "MembershipOf (setOwn self g) a = MembershipOf g a" "Admins (setOwn self g) = Admins g"
  "(gMembership (setOwn self g), gRole (setOwn self g)) = MembershipOf g self"
  by (simp_all add: setOwn_def Admins_def split: prod.splits)

lemma Admins_revision [simp]: "Admins (g\<lparr>gRevision := r\<rparr>) = Admins g"
  by (simp add: Admins_def)

lemma Admins_pos_iff: "Admins g > 0 \<longleftrightarrow> (\<exists>m\<in>set (gMembers g). gmRole m = GroupRoleAdmin)"
  by (auto simp: Admins_def filter_empty_conv)

text \<open>The members with the role of the targets replaced.\<close>

definition withRole :: "string set \<Rightarrow> GroupRole \<Rightarrow> GroupMember list \<Rightarrow> GroupMember list" where
  "withRole acis role = map (\<lambda>m. if memberACI m \<in> acis then m\<lparr>gmRole := role\<rparr> else m)"

lemma changeRole_withRole: "map (changeRole ts role) ms = withRole (set ts) role ms"
  by (auto simp: changeRole_def withRole_def)

lemma withRole_same_iff:
  "withRole acis role ms = ms \<longleftrightarrow> \<not> list_ex (\<lambda>m. memberACI m \<in> acis \<and> gmRole m \<noteq> role) ms"
proof -
  have "m\<lparr>gmRole := role\<rparr> = m \<longleftrightarrow> gmRole m = role" for m :: GroupMember
    by (cases m) auto
  then show ?thesis
    by (induction ms) (auto simp: withRole_def)
qed

lemma unat_succ_u32: "(r :: u32) \<noteq> - 1 \<Longrightarrow> unat (r + 1) = unat r + 1"
  by (metis Suc_eq_plus1 add.commute add_eq_0_iff unatSuc)

definition roleAllowed :: "uuid_lib \<Rightarrow> Group \<Rightarrow> string \<Rightarrow> Recipient list \<Rightarrow> GroupRole \<Rightarrow> bool" where
  "roleAllowed U g self ms role \<longleftrightarrow> role \<noteq> GroupRoleUnknown \<and> ms \<noteq> [] \<and> (\<forall>m\<in>set ms. validACI U m)
     \<and> MembershipOf g self = (MembershipMember, GroupRoleAdmin)
     \<and> (\<forall>m\<in>set ms. fst (MembershipOf g (canonACI U m)) = MembershipMember)"

definition roleAfter :: "uuid_lib \<Rightarrow> Group \<Rightarrow> Recipient list \<Rightarrow> GroupRole \<Rightarrow> GroupMember list" where
  "roleAfter U g ms role = withRole (canonACI U ` set ms) role (gMembers g)"

text \<open>The two checks before a role change accept exactly the allowed changes and then give the
  canonical ACIs of the targets.\<close>

lemma role_checks:
  assumes "uuid_laws U"
  shows "(case NormalizeGroupRoleMembers U ms role of Inl e \<Rightarrow> Inl e | Inr ms' \<Rightarrow>
           (case memberRoleTargets g self ms' of Inl e \<Rightarrow> Inl e | Inr ts \<Rightarrow> f ts)) =
         (r :: Group res) \<Longrightarrow> isOk r \<Longrightarrow> roleAllowed U g self ms role \<and>
           (\<exists>ts. set ts = canonACI U ` set ms \<and> f ts = r)"
    and "roleAllowed U g self ms role \<Longrightarrow>
       \<exists>ms' ts. NormalizeGroupRoleMembers U ms role = Inr ms' \<and> memberRoleTargets g self ms' = Inr ts
         \<and> set ts = canonACI U ` set ms"
proof -
  have nm: "NormalizeGroupRoleMembers U ms role = Inr ms' \<longleftrightarrow>
      role \<noteq> GroupRoleUnknown \<and> normalizeGroupMembers U ms = Inr ms'" for ms'
    by (cases role) (auto simp: NormalizeGroupRoleMembers_def)
  have tg: "memberRoleTargets g self ms' = Inr ts \<longleftrightarrow>
      MembershipOf g self = (MembershipMember, GroupRoleAdmin)
      \<and> (\<forall>a\<in>rACI ` set ms'. fst (MembershipOf g a) = MembershipMember) \<and> ts = rev (map rACI ms')"
    for ms' ts
    by (auto simp: memberRoleTargets_def role_targets_loop_iff split: prod.splits if_splits)
  show "roleAllowed U g self ms role \<and> (\<exists>ts. set ts = canonACI U ` set ms \<and> f ts = r)"
    if eq: "(case NormalizeGroupRoleMembers U ms role of Inl e \<Rightarrow> Inl e | Inr ms' \<Rightarrow>
           (case memberRoleTargets g self ms' of Inl e \<Rightarrow> Inl e | Inr ts \<Rightarrow> f ts)) = r" and ok: "isOk r"
  proof -
    obtain ms' ts where "NormalizeGroupRoleMembers U ms role = Inr ms'"
      "memberRoleTargets g self ms' = Inr ts" "f ts = r"
      using eq ok by (auto split: sum.splits)
    then show ?thesis
      using normalizeGroupMembers_D [OF assms, of ms ms']
      by (intro conjI exI [of _ ts]) (auto simp: nm tg roleAllowed_def)
  qed
  assume a: "roleAllowed U g self ms role"
  then obtain ms' where ms': "normalizeGroupMembers U ms = Inr ms'"
    by (auto simp: roleAllowed_def normalizeGroupMembers_iff list_all_iff)
  moreover have "memberRoleTargets g self ms' = Inr (rev (map rACI ms'))"
    using a normalizeGroupMembers_D(1) [OF assms ms'] by (simp add: tg roleAllowed_def)
  ultimately show "\<exists>ms' ts. NormalizeGroupRoleMembers U ms role = Inr ms'
      \<and> memberRoleTargets g self ms' = Inr ts \<and> set ts = canonACI U ` set ms"
    using a normalizeGroupMembers_D(1) [OF assms ms'] nm by (auto simp: roleAllowed_def)
qed

lemma roleAfter_changed:
  "set ts = canonACI U ` set ms \<Longrightarrow>
   list_ex (\<lambda>m. memberACI m \<in> set ts \<and> gmRole m \<noteq> role) (gMembers g) \<longleftrightarrow> roleAfter U g ms role \<noteq> gMembers g"
  by (simp add: roleAfter_def withRole_same_iff)

lemma WithMemberRole_cases:
  assumes "uuid_laws U"
  shows "WithMemberRole U g self ms role = Inr n \<longleftrightarrow>
     roleAllowed U g self ms role
   \<and> (\<exists>m\<in>set (roleAfter U g ms role). gmRole m = GroupRoleAdmin)
   \<and> (roleAfter U g ms role \<noteq> gMembers g \<longrightarrow> gRevision g \<noteq> - 1)
   \<and> n = setOwn self (g\<lparr>gMembers := roleAfter U g ms role,
        gRevision := gRevision g + (if roleAfter U g ms role \<noteq> gMembers g then 1 else 0)\<rparr>)"
    (is "?L \<longleftrightarrow> ?R")
proof -
  let ?f = "\<lambda>targets.
         (let next = g\<lparr>gMembers := map (changeRole targets role) (gMembers g)\<rparr>;
              changed = list_ex (\<lambda>m. memberACI m \<in> set targets \<and> gmRole m \<noteq> role) (gMembers g)
          in if Admins next = 0 then Inl (Sentinel ErrLastAdmin)
             else if changed \<and> gRevision g = - 1 then Inl errRevision
             else Inr (setOwn self
               (if changed then next\<lparr>gRevision := gRevision g + 1\<rparr> else next)))"
  have f: "?f ts = Inr n \<longleftrightarrow> (\<exists>m\<in>set (roleAfter U g ms role). gmRole m = GroupRoleAdmin)
     \<and> (roleAfter U g ms role \<noteq> gMembers g \<longrightarrow> gRevision g \<noteq> - 1)
     \<and> n = setOwn self (g\<lparr>gMembers := roleAfter U g ms role,
        gRevision := gRevision g + (if roleAfter U g ms role \<noteq> gMembers g then 1 else 0)\<rparr>)"
    if ts: "set ts = canonACI U ` set ms" for ts
  proof -
    have r: "map (changeRole ts role) (gMembers g) = roleAfter U g ms role"
      by (simp add: changeRole_withRole roleAfter_def ts)
    have a: "Admins (g\<lparr>gMembers := l\<rparr>) = 0 \<longleftrightarrow> \<not> (\<exists>m\<in>set l. gmRole m = GroupRoleAdmin)" for l
      using Admins_pos_iff [of "g\<lparr>gMembers := l\<rparr>"] by auto
    show ?thesis
      unfolding Let_def r a roleAfter_changed [OF ts] by (auto split: if_splits)
  qed
  show ?thesis
  proof
    assume L: ?L
    then have "roleAllowed U g self ms role \<and> (\<exists>ts. set ts = canonACI U ` set ms \<and> ?f ts = Inr n)"
      by (intro role_checks(1) [OF assms]) (simp_all add: WithMemberRole_def)
    then show ?R using f by blast
  next
    assume R: ?R
    then obtain ms' ts where "NormalizeGroupRoleMembers U ms role = Inr ms'"
      "memberRoleTargets g self ms' = Inr ts" and ts: "set ts = canonACI U ` set ms"
      using role_checks(2) [OF assms] by blast
    then have "WithMemberRole U g self ms role = ?f ts" by (simp add: WithMemberRole_def)
    then show ?L using R f [OF ts] by simp
  qed
qed

text \<open>A concrete group: two administrators, a member, an invited user and a requesting one.\<close>

definition demoUser :: "nat \<Rightarrow> string" where
  "demoUser n = uuid_String plain_uuid (replicate 15 (CHR 0x01) @ [char_of n])"

definition demoMember :: "nat \<Rightarrow> GroupRole \<Rightarrow> GroupMember" where
  "demoMember n role = \<lparr>gmRecipient = aciRecipient (demoUser n), gmRole = role, gmJoinedAtRevision = 0\<rparr>"

definition demoGroup :: Group where
  "demoGroup = \<lparr>gAvatarPath = [], gID = ''id'', gMasterKey = [], gTitle = ''t'', gDescription = [],
     gRevision = 7, gTimer = 0, gAnnouncementsOnly = False, gMembersCanEditAttributes = False,
     gMembersCanAddMembers = False,
     gMembers = [demoMember 6 GroupRoleAdmin, demoMember 2 GroupRoleMember, demoMember 3 GroupRoleAdmin],
     gPending = [\<lparr>pmRecipient = aciRecipient (demoUser 4), pmRole = GroupRoleMember,
                  pmAddedBy = aciRecipient (demoUser 6), pmInvitedAt = 0\<rparr>],
     gRequesting = [\<lparr>rqRecipient = aciRecipient (demoUser 5), rqRequestedAt = 0\<rparr>],
     gBanned = [], gMembership = MembershipMember, gRole = GroupRoleAdmin, gLeftAt = 0, gErr = None\<rparr>"

lemma demoUser_identity: "acceptIdentity plain_uuid (demoUser n) = replicate 15 (CHR 0x01) @ [char_of n]"
  unfolding demoUser_def by (rule acceptIdentity_String [OF plain_uuid_laws]) simp

lemma demoUser_inject [simp]:
  assumes "n < 256" "k < 256" shows "demoUser n = demoUser k \<longleftrightarrow> n = k"
proof
  assume "demoUser n = demoUser k"
  then have "acceptIdentity plain_uuid (demoUser n) = acceptIdentity plain_uuid (demoUser k)" by simp
  then have "char_of n = (char_of k :: char)" by (simp only: demoUser_identity same_append_eq list.inject)
  then have "byte (char_of n) = byte (char_of k)" by (rule arg_cong)
  then show "n = k" using assms by (simp only: byte_char_of)
qed simp

lemma demoUser_valid [simp]: "validACI plain_uuid (aciRecipient (demoUser n))"
proof -
  have "hd (replicate 15 (CHR 0x01) @ [char_of n :: char]) \<noteq> hd uuid_Nil"
    by (simp add: hd_append uuid_Nil_def char_of_def)
  then show ?thesis unfolding validACI_def aciRecipient_simps demoUser_identity by (rule contrapos_nn) simp
qed

lemma demoUser_canon [simp]: "canonACI plain_uuid (aciRecipient (demoUser n)) = demoUser n"
  by (simp add: canonACI_def demoUser_identity) (simp add: demoUser_def)

lemma demoUser_nonempty [simp]: "demoUser n \<noteq> []"
  unfolding demoUser_def by (rule uuid_String_nonempty [OF plain_uuid_laws]) simp

lemma demoMember_simps [simp]:
  "memberACI (demoMember n role) = demoUser n" "gmRole (demoMember n role) = role"
  "gmRecipient (demoMember n role) = aciRecipient (demoUser n)"
  by (simp_all add: demoMember_def memberACI_def)

lemma demoGroup_simps [simp]:
  "gMembers demoGroup = [demoMember 6 GroupRoleAdmin, demoMember 2 GroupRoleMember, demoMember 3 GroupRoleAdmin]"
  "gRevision demoGroup = 7" "gBanned demoGroup = []"
  by (simp_all add: demoGroup_def)

lemma demoGroup_self [simp]: "MembershipOf demoGroup (demoUser 6) = (MembershipMember, GroupRoleAdmin)"
  "MembershipOf demoGroup (demoUser 2) = (MembershipMember, GroupRoleMember)"
  by (simp_all add: MembershipOf_def)

text \<open>C11: A role change succeeds exactly when the desired role is admin or member, the targets are
  a nonempty list of valid ACIs that are all full members, the caller is a full administrator, an
  administrator remains afterwards and the revision can advance if anything changes. The new group
  then has the desired role for exactly the targets and keeps every other member, has an
  administrator, its revision is one higher exactly when a role changed (and never wraps), and
  the invitations, requests and bans are as before.\<close>

theorem WithMemberRole_spec:
  assumes "uuid_laws U"
  shows "(isOk (WithMemberRole U g self ms role) \<longleftrightarrow>
      role \<noteq> GroupRoleUnknown \<and> ms \<noteq> [] \<and> (\<forall>m\<in>set ms. validACI U m)
      \<and> MembershipOf g self = (MembershipMember, GroupRoleAdmin)
      \<and> (\<forall>m\<in>set ms. fst (MembershipOf g (canonACI U m)) = MembershipMember)
      \<and> (\<exists>m\<in>set (withRole (canonACI U ` set ms) role (gMembers g)). gmRole m = GroupRoleAdmin)
      \<and> (withRole (canonACI U ` set ms) role (gMembers g) \<noteq> gMembers g \<longrightarrow> gRevision g \<noteq> - 1))
    \<and> (\<forall>n. WithMemberRole U g self ms role = Inr n \<longrightarrow>
        gMembers n = withRole (canonACI U ` set ms) role (gMembers g) \<and> Admins n > 0
        \<and> unat (gRevision n) = unat (gRevision g) + (if gMembers n \<noteq> gMembers g then 1 else 0)
        \<and> (gPending n, gRequesting n, gBanned n) = (gPending g, gRequesting g, gBanned g)
        \<and> (gMembership n, gRole n) = MembershipOf n self)"
proof (intro conjI allI impI)
  show "isOk (WithMemberRole U g self ms role) \<longleftrightarrow>
      role \<noteq> GroupRoleUnknown \<and> ms \<noteq> [] \<and> (\<forall>m\<in>set ms. validACI U m)
      \<and> MembershipOf g self = (MembershipMember, GroupRoleAdmin)
      \<and> (\<forall>m\<in>set ms. fst (MembershipOf g (canonACI U m)) = MembershipMember)
      \<and> (\<exists>m\<in>set (withRole (canonACI U ` set ms) role (gMembers g)). gmRole m = GroupRoleAdmin)
      \<and> (withRole (canonACI U ` set ms) role (gMembers g) \<noteq> gMembers g \<longrightarrow> gRevision g \<noteq> - 1)"
    unfolding isOk_iff WithMemberRole_cases [OF assms]
    by (simp add: roleAllowed_def roleAfter_def conj_assoc)
qed (auto simp: WithMemberRole_cases [OF assms] roleAfter_def Admins_pos_iff unat_succ_u32
       simp del: unat_plus_if' split: if_splits)

theorem WithMemberRole_spec_witness:
  "uuid_laws plain_uuid \<and> isOk (WithMemberRole plain_uuid demoGroup (demoUser 6)
     [aciRecipient (demoUser 2)] GroupRoleAdmin)"
  using WithMemberRole_spec [OF plain_uuid_laws, of demoGroup "demoUser 6"
      "[aciRecipient (demoUser 2)]" GroupRoleAdmin]
  by (simp add: plain_uuid_laws withRole_def)

section \<open>Bans\<close>

lemma find_filter_same: "(\<And>x. P x \<Longrightarrow> Q x) \<Longrightarrow> find P (filter Q xs) = find P xs"
  by (induction xs) auto

lemma find_None_filter: "(\<And>x. P x \<Longrightarrow> \<not> Q x) \<Longrightarrow> find P (filter Q xs) = None"
  by (auto simp: find_None_iff)

lemma length_filter_same_iff: "length (filter Q xs) = length xs \<longleftrightarrow> (\<forall>x\<in>set xs. Q x)"
proof (induction xs)
  case (Cons x xs)
  moreover have "length (filter Q xs) \<noteq> Suc (length xs)" using length_filter_le [of Q xs] by linarith
  ultimately show ?case by auto
qed simp

lemma MembershipOf_None_iff:
  "a \<noteq> [] \<Longrightarrow> fst (MembershipOf g a) = MembershipNone \<longleftrightarrow>
     a \<notin> memberACI ` set (gMembers g) \<and> a \<notin> (rACI \<circ> pmRecipient) ` set (gPending g)
   \<and> a \<notin> (rACI \<circ> rqRecipient) ` set (gRequesting g)"
  by (auto simp: MembershipOf_def find_None_iff find_Some_iff split: option.splits)

lemma MembershipOf_Nil [simp]: "MembershipOf g [] = (MembershipNone, GroupRoleUnknown)"
  by (simp add: MembershipOf_def)

lemma ban_targets_loop_iff:
  "ban_targets_loop self ms ts =
    (if self \<in> rACI ` set ms
     then Inl (Wrap ''cannot ban or unban yourself'' [Sentinel ErrInvalidGroupMember])
     else Inr (rev (map rACI ms) @ ts))"
  by (induction ms arbitrary: ts) auto

lemma banTargets_iff:
  "banTargets g self ms = Inr ts \<longleftrightarrow> MembershipOf g self = (MembershipMember, GroupRoleAdmin)
     \<and> self \<notin> rACI ` set ms \<and> ts = rev (map rACI ms)"
  by (auto simp: banTargets_def ban_targets_loop_iff split: prod.splits if_splits)

text \<open>What a ban or unban of a set of users does to memberships and to the list of bans.\<close>

lemma applyBan_MembershipOf:
  assumes "[] \<notin> set ts"
  shows "MembershipOf (applyBan g ms ts banned t) a =
    (if banned \<and> a \<in> set ts then (MembershipNone, GroupRoleUnknown) else MembershipOf g a)"
proof (cases banned)
  case True
  show ?thesis
  proof (cases "a \<in> set ts")
    case a: True
    then have "a \<noteq> []" using assms by auto
    have "find (\<lambda>m. memberACI m = a) (filter (\<lambda>m. memberACI m \<notin> set ts) (gMembers g)) = None"
      "find (\<lambda>p. rACI (pmRecipient p) = a)
         (filter (\<lambda>p. rACI (pmRecipient p) = [] \<or> rACI (pmRecipient p) \<notin> set ts) (gPending g)) = None"
      "find (\<lambda>r. rACI (rqRecipient r) = a)
         (filter (\<lambda>r. rACI (rqRecipient r) \<notin> set ts) (gRequesting g)) = None"
      using a \<open>a \<noteq> []\<close> by (auto intro!: find_None_filter)
    then show ?thesis using a True
      by (simp add: MembershipOf_def applyBan_def removeBannedTargets_def split: option.split)
  next
    case False
    have "find (\<lambda>m. memberACI m = a) (filter (\<lambda>m. memberACI m \<notin> set ts) (gMembers g))
        = find (\<lambda>m. memberACI m = a) (gMembers g)"
      "find (\<lambda>p. rACI (pmRecipient p) = a)
         (filter (\<lambda>p. rACI (pmRecipient p) = [] \<or> rACI (pmRecipient p) \<notin> set ts) (gPending g))
        = find (\<lambda>p. rACI (pmRecipient p) = a) (gPending g)"
      "find (\<lambda>r. rACI (rqRecipient r) = a) (filter (\<lambda>r. rACI (rqRecipient r) \<notin> set ts) (gRequesting g))
        = find (\<lambda>r. rACI (rqRecipient r) = a) (gRequesting g)"
      using False by (auto intro!: find_filter_same)
    then show ?thesis using True False
      by (simp add: MembershipOf_def applyBan_def removeBannedTargets_def split: option.split)
  qed
next
  case False
  then show ?thesis by (auto simp: applyBan_def intro: MembershipOf_cong)
qed

lemma applyBan_bannedACI:
  assumes "[] \<notin> set ts" and "rACI ` set ms = set ts"
  shows "bannedACI (applyBan g ms ts banned t) a \<longleftrightarrow>
    (if banned then bannedACI g a \<or> a \<in> set ts else bannedACI g a \<and> a \<notin> set ts)"
proof (cases banned)
  case True
  then have "bannedACI (applyBan g ms ts banned t) a \<longleftrightarrow>
      bannedACI g a \<or> (\<exists>m\<in>set ms. \<not> bannedACI g (rACI m) \<and> rACI m \<noteq> [] \<and> rACI m = a)"
    by (simp add: bannedACI_def applyBan_def list_ex_iff bex_Un conj_assoc) blast
  then show ?thesis using True assms(1) unfolding assms(2) [symmetric]
    by (metis (no_types, lifting) image_iff)
next
  case False
  then show ?thesis using assms(1) by (auto simp: bannedACI_def applyBan_def list_ex_iff)
qed

lemma applyBan_changed_iff:
  assumes "[] \<notin> set ts" and "rACI ` set ms = set ts"
  shows "banMembershipChanged g (applyBan g ms ts banned t) \<longleftrightarrow>
    (if banned then \<exists>a\<in>set ts. \<not> bannedACI g a \<or> fst (MembershipOf g a) \<noteq> MembershipNone
     else \<exists>a\<in>set ts. bannedACI g a)"
proof (cases banned)
  case True
  have "(\<exists>m\<in>set ms. \<not> bannedACI g (rACI m)) \<longleftrightarrow> (\<exists>a\<in>set ts. \<not> bannedACI g a)"
    using assms(2) by (metis (no_types, lifting) image_iff)
  moreover have "a \<in> set ts \<Longrightarrow> fst (MembershipOf g a) \<noteq> MembershipNone \<longleftrightarrow>
      (\<exists>m\<in>set (gMembers g). memberACI m = a) \<or> (\<exists>p\<in>set (gPending g). rACI (pmRecipient p) = a)
    \<or> (\<exists>r\<in>set (gRequesting g). rACI (rqRecipient r) = a)" for a
    using assms(1) MembershipOf_None_iff [of a g] by (cases "a = []") auto
  then have "(\<exists>a\<in>set ts. fst (MembershipOf g a) \<noteq> MembershipNone) \<longleftrightarrow>
      (\<exists>m\<in>set (gMembers g). memberACI m \<in> set ts)
    \<or> (\<exists>p\<in>set (gPending g). rACI (pmRecipient p) \<noteq> [] \<and> rACI (pmRecipient p) \<in> set ts)
    \<or> (\<exists>r\<in>set (gRequesting g). rACI (rqRecipient r) \<in> set ts)"
    using assms(1) by (metis (no_types, lifting))
  moreover have "banMembershipChanged g (applyBan g ms ts banned t) \<longleftrightarrow>
      (\<exists>m\<in>set ms. \<not> bannedACI g (rACI m)) \<or> (\<exists>m\<in>set (gMembers g). memberACI m \<in> set ts)
    \<or> (\<exists>p\<in>set (gPending g). rACI (pmRecipient p) \<noteq> [] \<and> rACI (pmRecipient p) \<in> set ts)
    \<or> (\<exists>r\<in>set (gRequesting g). rACI (rqRecipient r) \<in> set ts)"
    using True by (auto simp: banMembershipChanged_def applyBan_def removeBannedTargets_def
        length_filter_same_iff filter_empty_conv)
  ultimately show ?thesis using True by auto
next
  case False
  then show ?thesis using assms(1)
    by (auto simp: banMembershipChanged_def applyBan_def length_filter_same_iff bannedACI_def list_ex_iff)
qed

definition banAllowed :: "uuid_lib \<Rightarrow> Group \<Rightarrow> string \<Rightarrow> Recipient list \<Rightarrow> bool" where
  "banAllowed U g self ms \<longleftrightarrow> ms \<noteq> [] \<and> (\<forall>m\<in>set ms. validACI U m)
     \<and> MembershipOf g self = (MembershipMember, GroupRoleAdmin) \<and> self \<notin> canonACI U ` set ms"

text \<open>Whether a ban or unban of these users changes the group.\<close>

definition banChanges :: "Group \<Rightarrow> string set \<Rightarrow> bool \<Rightarrow> bool" where
  "banChanges g acis banned =
    (if banned then \<exists>a\<in>acis. \<not> bannedACI g a \<or> fst (MembershipOf g a) \<noteq> MembershipNone
     else \<exists>a\<in>acis. bannedACI g a)"

lemma WithBannedMembers_cases:
  assumes "uuid_laws U" and "WithBannedMembers U g self ms banned t = Inr n"
  obtains ms' ts where "rACI ` set ms' = set ts" and "set ts = canonACI U ` set ms" and "[] \<notin> set ts"
    and "banAllowed U g self ms" and "banChanges g (set ts) banned \<longrightarrow> gRevision g \<noteq> - 1"
    and "n = setOwn self ((applyBan g ms' ts banned t)\<lparr>gRevision :=
           gRevision g + (if banChanges g (set ts) banned then 1 else 0)\<rparr>)"
proof -
  obtain ms' ts where ms': "normalizeGroupMembers U ms = Inr ms'" and ts: "banTargets g self ms' = Inr ts"
    using assms(2) by (auto simp: WithBannedMembers_def NormalizeGroupBanMembers_def split: sum.splits)
  note D = normalizeGroupMembers_D [OF assms(1) ms']
  have set_ts: "rACI ` set ms' = set ts" using ts by (auto simp: banTargets_iff)
  have ne: "[] \<notin> set ts" unfolding set_ts [symmetric] D(1) using canonACI_nonempty [OF assms(1)] by (metis imageE)
  have rev: "gRevision (applyBan g ms' ts banned t) = gRevision g"
    by (simp add: applyBan_def removeBannedTargets_def)
  have same: "(applyBan g ms' ts banned t)\<lparr>gRevision := gRevision g\<rparr> = applyBan g ms' ts banned t"
    by (simp flip: rev)
  show thesis
  proof (rule that [OF set_ts _ ne])
    show "set ts = canonACI U ` set ms" using D(1) set_ts by simp
    show "banAllowed U g self ms" using D ts by (simp add: banAllowed_def banTargets_iff)
    show "banChanges g (set ts) banned \<longrightarrow> gRevision g \<noteq> - 1"
      using assms(2) ms' ts applyBan_changed_iff [OF ne set_ts, of g banned t]
      by (auto simp: WithBannedMembers_def NormalizeGroupBanMembers_def banChanges_def Let_def split: if_splits)
    show "n = setOwn self ((applyBan g ms' ts banned t)\<lparr>gRevision :=
           gRevision g + (if banChanges g (set ts) banned then 1 else 0)\<rparr>)"
      using assms(2) ms' ts applyBan_changed_iff [OF ne set_ts, of g banned t] same
      by (auto simp: WithBannedMembers_def NormalizeGroupBanMembers_def banChanges_def Let_def split: if_splits)
  qed
qed

lemma WithBannedMembers_ok:
  assumes "uuid_laws U" and "banAllowed U g self ms"
    and "banChanges g (canonACI U ` set ms) banned \<longrightarrow> gRevision g \<noteq> - 1"
  shows "isOk (WithBannedMembers U g self ms banned t)"
proof -
  obtain ms' where ms': "normalizeGroupMembers U ms = Inr ms'"
    using assms(2) by (auto simp: banAllowed_def normalizeGroupMembers_iff list_all_iff)
  note D = normalizeGroupMembers_D [OF assms(1) ms']
  have ts: "banTargets g self ms' = Inr (rev (map rACI ms'))"
    using assms(2) D(1) by (simp add: banTargets_iff banAllowed_def)
  have "[] \<notin> set (rev (map rACI ms'))" 
    using canonACI_nonempty [OF assms(1)] D(1) by (simp add: image_iff) metis
  from applyBan_changed_iff [OF this, of ms' g banned t]
  have "banMembershipChanged g (applyBan g ms' (rev (map rACI ms')) banned t) \<longleftrightarrow>
      banChanges g (canonACI U ` set ms) banned"
    by (simp add: banChanges_def D(1))
  then show ?thesis using assms(3) ms' ts
    by (simp add: WithBannedMembers_def NormalizeGroupBanMembers_def Let_def)
qed

lemma MembershipOf_admin:
  "MembershipOf g a = (MembershipMember, GroupRoleAdmin) \<Longrightarrow> Admins g > 0"
  by (auto simp: MembershipOf_def Admins_pos_iff find_Some_iff split: option.splits if_splits)

text \<open>C27: Banning or unbanning users succeeds exactly when valid users are named, the caller is a
  full administrator and not among them, and the revision can advance if anything changes. After
  a ban the users have no membership of any kind and are banned, after an unban they are not banned
  and no membership has changed; everybody else keeps membership, role and ban, so the caller stays
  an administrator. The revision is one higher exactly when there was something to change.\<close>

theorem WithBannedMembers_spec:
  assumes "uuid_laws U"
  shows "(isOk (WithBannedMembers U g self ms banned t) \<longleftrightarrow>
      ms \<noteq> [] \<and> (\<forall>m\<in>set ms. validACI U m) \<and> MembershipOf g self = (MembershipMember, GroupRoleAdmin)
      \<and> self \<notin> canonACI U ` set ms
      \<and> (banChanges g (canonACI U ` set ms) banned \<longrightarrow> gRevision g \<noteq> - 1))
    \<and> (\<forall>n. WithBannedMembers U g self ms banned t = Inr n \<longrightarrow>
        (\<forall>a. MembershipOf n a = (if banned \<and> a \<in> canonACI U ` set ms
               then (MembershipNone, GroupRoleUnknown) else MembershipOf g a))
        \<and> (\<forall>a. bannedACI n a \<longleftrightarrow> (if banned then bannedACI g a \<or> a \<in> canonACI U ` set ms
               else bannedACI g a \<and> a \<notin> canonACI U ` set ms))
        \<and> (gMembership n, gRole n) = (MembershipMember, GroupRoleAdmin) \<and> Admins n > 0
        \<and> unat (gRevision n) = unat (gRevision g)
            + (if banChanges g (canonACI U ` set ms) banned then 1 else 0))"
proof (intro conjI allI impI)
  show "isOk (WithBannedMembers U g self ms banned t) \<longleftrightarrow>
      ms \<noteq> [] \<and> (\<forall>m\<in>set ms. validACI U m) \<and> MembershipOf g self = (MembershipMember, GroupRoleAdmin)
      \<and> self \<notin> canonACI U ` set ms
      \<and> (banChanges g (canonACI U ` set ms) banned \<longrightarrow> gRevision g \<noteq> - 1)"
    using WithBannedMembers_ok [OF assms, of g self ms banned t]
    by (auto simp: isOk_iff banAllowed_def elim!: WithBannedMembers_cases [OF assms])
next
  fix n assume "WithBannedMembers U g self ms banned t = Inr n"
  then obtain ms' ts where set_ts: "rACI ` set ms' = set ts" and T: "set ts = canonACI U ` set ms"
    and ne: "[] \<notin> set ts" and ok: "banAllowed U g self ms"
    and r: "banChanges g (set ts) banned \<longrightarrow> gRevision g \<noteq> - 1"
    and n: "n = setOwn self ((applyBan g ms' ts banned t)\<lparr>gRevision :=
           gRevision g + (if banChanges g (set ts) banned then 1 else 0)\<rparr>)"
    by (rule WithBannedMembers_cases [OF assms])
  show M: "MembershipOf n a = (if banned \<and> a \<in> canonACI U ` set ms
               then (MembershipNone, GroupRoleUnknown) else MembershipOf g a)" for a
    by (simp add: n T [symmetric] applyBan_MembershipOf [OF ne])
  show "bannedACI n a \<longleftrightarrow> (if banned then bannedACI g a \<or> a \<in> canonACI U ` set ms
               else bannedACI g a \<and> a \<notin> canonACI U ` set ms)" for a
    using applyBan_bannedACI [OF ne set_ts, of g banned t a] by (simp add: n T bannedACI_def)
  have self: "MembershipOf n self = (MembershipMember, GroupRoleAdmin)"
    using ok M [of self] by (auto simp: banAllowed_def)
  show "(gMembership n, gRole n) = (MembershipMember, GroupRoleAdmin)"
    using self unfolding n setOwn_simps(7,9) .
  show "Admins n > 0" using self by (rule MembershipOf_admin)
  show "unat (gRevision n) = unat (gRevision g)
      + (if banChanges g (canonACI U ` set ms) banned then 1 else 0)"
    using r by (simp add: n T unat_succ_u32)
qed

theorem WithBannedMembers_spec_witness:
  "uuid_laws plain_uuid \<and> isOk (WithBannedMembers plain_uuid demoGroup (demoUser 6)
     [aciRecipient (demoUser 2), aciRecipient (demoUser 4)] True 0)"
  using WithBannedMembers_spec [OF plain_uuid_laws, of demoGroup "demoUser 6"
      "[aciRecipient (demoUser 2), aciRecipient (demoUser 4)]" True 0]
  by (simp add: plain_uuid_laws)

section \<open>Removals\<close>

definition canonOf :: "uuid_lib \<Rightarrow> string \<Rightarrow> string" where
  "canonOf U v = (if v = [] then [] else uuid_String U (acceptIdentity U v))"

definition validTarget :: "uuid_lib \<Rightarrow> Recipient \<Rightarrow> bool" where
  "validTarget U m \<longleftrightarrow> (rACI m \<noteq> [] \<or> rPNI m \<noteq> [])
     \<and> (rACI m \<noteq> [] \<longrightarrow> acceptIdentity U (rACI m) \<noteq> uuid_Nil)
     \<and> (rPNI m \<noteq> [] \<longrightarrow> acceptIdentity U (rPNI m) \<noteq> uuid_Nil)"

definition canonTarget :: "uuid_lib \<Rightarrow> Recipient \<Rightarrow> Recipient" where
  "canonTarget U m = m\<lparr>rACI := canonOf U (rACI m), rPNI := canonOf U (rPNI m)\<rparr>"

definition targetKey :: "uuid_lib \<Rightarrow> Recipient \<Rightarrow> string" where
  "targetKey U m = canonOf U (rACI m) @ ''|'' @ canonOf U (rPNI m)"

lemma canonicalIdentity_iff:
  "canonicalIdentity U v = (if v \<noteq> [] \<and> acceptIdentity U v = uuid_Nil then None else Some (canonOf U v))"
  by (simp add: canonicalIdentity_def canonOf_def)

lemma removal_members_loop_iff:
  "removal_members_loop U ms seen out = Inr out' \<longleftrightarrow>
     list_all (validTarget U) ms \<and> out' = out @ map (canonTarget U) (firsts (targetKey U) ms seen)"
proof (induction ms arbitrary: seen out)
  case (Cons m ms)
  then show ?case
    by (auto simp: validTarget_def canonicalIdentity_iff Let_def targetKey_def canonTarget_def)
qed auto

lemma NormalizeGroupRemovalMembers_iff:
  "NormalizeGroupRemovalMembers U ms = Inr out \<longleftrightarrow>
     ms \<noteq> [] \<and> list_all (validTarget U) ms \<and> out = map (canonTarget U) (firsts (targetKey U) ms [])"
  by (auto simp: NormalizeGroupRemovalMembers_def removal_members_loop_iff)

lemma acceptIdentity_canonOf [simp]: "uuid_laws U \<Longrightarrow> acceptIdentity U (canonOf U v) = acceptIdentity U v"
  by (simp add: canonOf_def)

lemma canonTarget_simps [simp]:
  "rACI (canonTarget U m) = canonOf U (rACI m)" "rPNI (canonTarget U m) = canonOf U (rPNI m)"
  by (simp_all add: canonTarget_def)

lemma canonTarget_matches [simp]:
  "uuid_laws U \<Longrightarrow> acceptSelfMatches U r (canonTarget U m) = acceptSelfMatches U r m"
  by (simp add: acceptSelfMatches_def)

lemma targetKey_inject:
  assumes "uuid_laws U" "targetKey U a = targetKey U b"
  shows "canonOf U (rACI a) = canonOf U (rACI b) \<and> canonOf U (rPNI a) = canonOf U (rPNI b)"
proof -
  have "CHR ''|'' \<notin> set (canonOf U v)" for v
  proof
    assume "CHR ''|'' \<in> set (canonOf U v)"
    then have "uuid_text (CHR ''|'')"
      using uuid_laws_text [OF assms(1) acceptIdentity_length [OF assms(1), of v]]
      by (auto simp: canonOf_def split: if_splits)
    then show False by (simp add: uuid_text_def byte_def)
  qed
  then show ?thesis using assms(2) by (auto simp: targetKey_def dest!: append_Cons_eq_iff [THEN iffD1, rotated 2])
qed

text \<open>Normalizing keeps exactly the users the targets match.\<close>

lemma removal_normalized_matches:
  assumes "uuid_laws U" "NormalizeGroupRemovalMembers U ms = Inr out"
  shows "(\<exists>t\<in>set out. acceptSelfMatches U r t) \<longleftrightarrow> (\<exists>t\<in>set ms. acceptSelfMatches U r t)"
proof -
  have out: "out = map (canonTarget U) (firsts (targetKey U) ms [])"
    using assms(2) by (simp add: NormalizeGroupRemovalMembers_iff)
  have "\<exists>t'\<in>set (firsts (targetKey U) ms []). acceptSelfMatches U r t'"
    if t: "t \<in> set ms" "acceptSelfMatches U r t" for t
  proof -
    have "targetKey U t \<in> targetKey U ` set (firsts (targetKey U) ms [])"
      using t(1) by (simp add: firsts_keys)
    then obtain t' where t': "t' \<in> set (firsts (targetKey U) ms [])" "targetKey U t = targetKey U t'" by auto
    have "acceptSelfMatches U r (canonTarget U t) = acceptSelfMatches U r (canonTarget U t')"
      using targetKey_inject [OF assms(1) t'(2)] by (simp add: acceptSelfMatches_def del: acceptIdentity_canonOf)
    then show ?thesis using t(2) t'(1) assms(1) by auto
  qed
  then show ?thesis
    using firsts_sub [of "targetKey U" ms "[]"] assms(1) by (auto simp: out)
qed

lemma removal_targets_loop_iff:
  "removal_targets_loop U g self ms ts = Inr ts' \<longleftrightarrow>
     (\<forall>m\<in>set ms. \<not> acceptSelfMatches U (aciRecipient (rACI m)) self
        \<and> \<not> acceptSelfMatches U (pniRecipient (rPNI m)) self \<and> removalMembershipTargets U g m \<noteq> [])
   \<and> ts' = ts @ concat (map (removalMembershipTargets U g) ms)"
  by (induction ms arbitrary: ts) (auto simp: Let_def)

lemma acceptSelfMatches_same:
  assumes "uuid_laws U" "acceptSelfMatches U p m"
  shows "acceptSelfMatches U r p \<Longrightarrow> acceptSelfMatches U r m"
  using assms by (auto simp: acceptSelfMatches_def split: if_splits)

lemma acceptSelfMatches_aci:
  "acceptSelfMatches U (aciRecipient a) m \<longleftrightarrow>
     a \<noteq> [] \<and> acceptIdentity U (rACI m) \<noteq> uuid_Nil \<and> acceptIdentity U a = acceptIdentity U (rACI m)"
  by (simp add: acceptSelfMatches_def)

lemma pniRecipient_simps [simp]:
  "rACI (pniRecipient a) = []" "rPNI (pniRecipient a) = a"
  by (simp_all add: pniRecipient_def)

lemma removalMembershipTargets_matches:
  assumes "uuid_laws U" and "\<exists>t\<in>set (removalMembershipTargets U g m). acceptSelfMatches U r t"
  shows "acceptSelfMatches U r m"
proof -
  have "acceptSelfMatches U r m" if "acceptSelfMatches U r (aciRecipient (rACI m))"
    using that assms(1) by (auto simp: acceptSelfMatches_def split: if_splits)
  then show ?thesis using assms(2) acceptSelfMatches_same [OF assms(1), of _ m r]
    by (auto simp: removalMembershipTargets_def split: if_splits)
qed

text \<open>Every removal target names somebody a removal looks for, and none of them is the caller.\<close>

lemma removalTargets_D:
  assumes "uuid_laws U" "removalTargets U g self ms = Inr ts"
  obtains ms' where "NormalizeGroupRemovalMembers U ms = Inr ms'"
    and "MembershipOf g (rACI self) = (MembershipMember, GroupRoleAdmin)"
    and "\<forall>m\<in>set ms'. \<not> acceptSelfMatches U (aciRecipient (rACI m)) self"
    and "\<forall>m\<in>set ms'. \<not> acceptSelfMatches U (pniRecipient (rPNI m)) self"
    and "\<forall>r. removalMatches U r ts \<longleftrightarrow> (\<exists>m\<in>set ms'. \<exists>t\<in>set (removalMembershipTargets U g m). acceptSelfMatches U r t)"
proof -
  obtain ms' ts' where ms': "NormalizeGroupRemovalMembers U ms = Inr ms'"
    and adm: "MembershipOf g (rACI self) = (MembershipMember, GroupRoleAdmin)"
    and loop: "removal_targets_loop U g self ms' [] = Inr ts'"
    and ts': "NormalizeGroupRemovalMembers U ts' = Inr ts"
    using assms(2) by (auto simp: removalTargets_def split: sum.splits prod.splits if_splits)
  have "removalMatches U r ts \<longleftrightarrow> (\<exists>m\<in>set ms'. \<exists>t\<in>set (removalMembershipTargets U g m). acceptSelfMatches U r t)" for r
    using removal_normalized_matches [OF assms(1) ts', of r] loop
    by (simp add: removalMatches_def list_ex_iff removal_targets_loop_iff)
  with ms' adm loop show thesis
    by (intro that) (auto simp: removal_targets_loop_iff)
qed

text \<open>The caller's entries are never removal targets.\<close>

lemma removal_spares_self:
  assumes "\<not> acceptSelfMatches U (aciRecipient (rACI m)) self" "uuid_laws U"
  shows "\<not> acceptSelfMatches U (aciRecipient (rACI self)) m"
  using assms by (auto simp: acceptSelfMatches_aci)

lemma removal_normalized_covers:
  assumes "uuid_laws U" "NormalizeGroupRemovalMembers U ms = Inr ms'" "t \<in> set ms"
  obtains m where "m \<in> set ms'" "rACI m = canonOf U (rACI t)" "rPNI m = canonOf U (rPNI t)"
proof -
  have "targetKey U t \<in> targetKey U ` set (firsts (targetKey U) ms [])"
    using assms(3) by (simp add: firsts_keys)
  then obtain t' where t': "t' \<in> set (firsts (targetKey U) ms [])" "targetKey U t = targetKey U t'" by auto
  show thesis
    using t'(1) targetKey_inject [OF assms(1) t'(2)] assms(2)
    by (intro that [of "canonTarget U t'"]) (simp_all add: NormalizeGroupRemovalMembers_iff)
qed

lemma acceptSelfMatches_refl: "acceptSelfMatches U r m \<Longrightarrow> acceptSelfMatches U r r"
  by (auto simp: acceptSelfMatches_def split: if_splits)

lemma acceptSelfMatches_canon:
  assumes "uuid_laws U" "rACI m = canonOf U (rACI t)" "rPNI m = canonOf U (rPNI t)"
  shows "acceptSelfMatches U r m = acceptSelfMatches U r t"
  using assms by (simp add: acceptSelfMatches_def)

lemma same_identity:
  assumes "uuid_laws U" "acceptSelfMatches U r self" "acceptSelfMatches U r m"
  shows "acceptSelfMatches U (aciRecipient (rACI m)) self \<or> acceptSelfMatches U (pniRecipient (rPNI m)) self"
  using assms by (auto simp: acceptSelfMatches_def split: if_splits)

text \<open>Who has a membership besides invitations under a removal target's ACI is one of the
  targets.\<close>

lemma removal_targets_full:
  assumes "uuid_laws U" "fst (MembershipOf (g\<lparr>gPending := []\<rparr>) (rACI m)) \<noteq> MembershipNone"
    and "acceptIdentity U (rACI m) \<noteq> uuid_Nil"
  shows "\<exists>t\<in>set (removalMembershipTargets U g m). acceptSelfMatches U (aciRecipient (rACI m)) t"
  using assms by (intro bexI [of _ "aciRecipient (rACI m)"])
    (auto simp: removalMembershipTargets_def acceptSelfMatches_aci)

lemma removed_MembershipOf:
  assumes "uuid_laws U" "removalMatches U (aciRecipient a) ts"
  shows "fst (MembershipOf ((withRemovedTargets U g ts)\<lparr>gPending := []\<rparr>) a) = MembershipNone"
proof (cases "a = []")
  case False
  then show ?thesis using assms by (auto simp: MembershipOf_None_iff withRemovedTargets_def)
qed (simp add: MembershipOf_def)

lemma spared_MembershipOf:
  assumes "\<not> removalMatches U (aciRecipient a) ts" "MembershipOf g a = (MembershipMember, role)"
  shows "MembershipOf (withRemovedTargets U g ts) a = (MembershipMember, role)"
proof -
  have "find (\<lambda>m. memberACI m = a)
      (filter (\<lambda>m. \<not> removalMatches U (aciRecipient (memberACI m)) ts) (gMembers g))
    = find (\<lambda>m. memberACI m = a) (gMembers g)"
    using assms(1) by (intro find_filter_same) auto
  then show ?thesis using assms(2)
    by (auto simp: MembershipOf_def withRemovedTargets_def split: option.splits if_splits)
qed

lemma removed_gone:
  assumes U: "uuid_laws U" and ts: "removalTargets U g self ms = Inr ts" and t: "t \<in> set ms"
  shows "fst (MembershipOf ((withRemovedTargets U g ts)\<lparr>gPending := []\<rparr>) (canonOf U (rACI t))) = MembershipNone"
    and "p \<in> set (gPending (withRemovedTargets U g ts)) \<Longrightarrow> \<not> acceptSelfMatches U (pmRecipient p) t"
proof -
  obtain ms' where ms': "NormalizeGroupRemovalMembers U ms = Inr ms'"
    and rm: "\<forall>r. removalMatches U r ts \<longleftrightarrow>
      (\<exists>m\<in>set ms'. \<exists>t\<in>set (removalMembershipTargets U g m). acceptSelfMatches U r t)"
    by (rule removalTargets_D [OF U ts])
  obtain m where m: "m \<in> set ms'" "rACI m = canonOf U (rACI t)" "rPNI m = canonOf U (rPNI t)"
    by (rule removal_normalized_covers [OF U ms' t])
  show "fst (MembershipOf ((withRemovedTargets U g ts)\<lparr>gPending := []\<rparr>) (canonOf U (rACI t))) = MembershipNone"
  proof (cases "fst (MembershipOf (g\<lparr>gPending := []\<rparr>) (rACI m)) = MembershipNone")
    case True
    then show ?thesis unfolding m(2) [symmetric]
      by (cases "rACI m = []") (auto simp: MembershipOf_None_iff withRemovedTargets_def)
  next
    case False
    then have "rACI t \<noteq> []" using m(2) by (auto simp: canonOf_def MembershipOf_def)
    then have "acceptIdentity U (rACI m) \<noteq> uuid_Nil" using ms' t m(2) U
      by (auto simp: NormalizeGroupRemovalMembers_iff list_all_iff validTarget_def)
    then have "removalMatches U (aciRecipient (rACI m)) ts"
      using removal_targets_full [OF U False] m(1) by (auto simp: rm)
    then show ?thesis unfolding m(2) [symmetric] by (rule removed_MembershipOf [OF U])
  qed
  show "\<not> acceptSelfMatches U (pmRecipient p) t" if p: "p \<in> set (gPending (withRemovedTargets U g ts))"
  proof
    assume "acceptSelfMatches U (pmRecipient p) t"
    then have pm: "acceptSelfMatches U (pmRecipient p) m"
      using acceptSelfMatches_canon [OF U m(2,3)] by simp
    then have "pmRecipient p \<in> set (removalMembershipTargets U g m)"
      using p by (auto simp: removalMembershipTargets_def withRemovedTargets_def)
    then have "removalMatches U (pmRecipient p) ts" using m(1) acceptSelfMatches_refl [OF pm] by (auto simp: rm)
    then show False using p by (simp add: withRemovedTargets_def)
  qed
qed

lemma removal_keeps_self:
  assumes "uuid_laws U" and "removalTargets U g self ms = Inr ts"
  shows "MembershipOf g (rACI self) = (MembershipMember, GroupRoleAdmin)"
    and "MembershipOf (withRemovedTargets U g ts) (rACI self) = (MembershipMember, GroupRoleAdmin)"
    and "acceptSelfMatches U r self \<Longrightarrow> \<not> removalMatches U r ts"
    and "removalMatches U r ts \<Longrightarrow> \<exists>t\<in>set ms. acceptSelfMatches U r t"
proof -
  obtain ms' where ms': "NormalizeGroupRemovalMembers U ms = Inr ms'"
    and adm: "MembershipOf g (rACI self) = (MembershipMember, GroupRoleAdmin)"
    and aci: "\<forall>m\<in>set ms'. \<not> acceptSelfMatches U (aciRecipient (rACI m)) self"
    and pni: "\<forall>m\<in>set ms'. \<not> acceptSelfMatches U (pniRecipient (rPNI m)) self"
    and rm: "\<forall>r. removalMatches U r ts \<longleftrightarrow>
      (\<exists>m\<in>set ms'. \<exists>t\<in>set (removalMembershipTargets U g m). acceptSelfMatches U r t)"
    by (rule removalTargets_D [OF assms])
  have matched: "\<exists>m\<in>set ms'. acceptSelfMatches U r m" if "removalMatches U r ts" for r
    using that removalMembershipTargets_matches [OF assms(1)] rm by meson
  show "removalMatches U r ts \<Longrightarrow> \<exists>t\<in>set ms. acceptSelfMatches U r t"
    using matched removal_normalized_matches [OF assms(1) ms', of r] by blast
  have "\<not> removalMatches U (aciRecipient (rACI self)) ts"
    using removal_spares_self [OF _ assms(1)] aci matched by blast
  then show "MembershipOf (withRemovedTargets U g ts) (rACI self) = (MembershipMember, GroupRoleAdmin)"
    using adm by (rule spared_MembershipOf)
  show "acceptSelfMatches U r self \<Longrightarrow> \<not> removalMatches U r ts"
    using matched [of r] aci pni same_identity [OF assms(1)] by blast
  show "MembershipOf g (rACI self) = (MembershipMember, GroupRoleAdmin)" by (rule adm)
qed

lemma WithRemovedMembersAs_iff:
  "WithRemovedMembersAs U g self ms = Inr n \<longleftrightarrow>
     (\<exists>ts. removalTargets U g self ms = Inr ts \<and> n = withRemovedTargets U g ts)"
  by (auto simp: WithRemovedMembersAs_def split: sum.splits)

text \<open>C28: When removing members succeeds, the caller was and still is a full administrator and
  keeps own invitations; none of the users named is a full or requesting member or has an
  invitation any more; everybody who was removed was named; what remains is in the same order, and
  nothing else of the group changed (the revision and the bans included).\<close>

theorem WithRemovedMembersAs_spec:
  assumes "uuid_laws U" and "WithRemovedMembersAs U g self ms = Inr n"
  shows "MembershipOf g (rACI self) = (MembershipMember, GroupRoleAdmin)
    \<and> MembershipOf n (rACI self) = (MembershipMember, GroupRoleAdmin) \<and> Admins n > 0
    \<and> (\<forall>p\<in>set (gPending g). acceptSelfMatches U (pmRecipient p) self \<longrightarrow> p \<in> set (gPending n))
    \<and> (\<forall>t\<in>set ms. fst (MembershipOf (n\<lparr>gPending := []\<rparr>) (canonOf U (rACI t))) = MembershipNone
        \<and> (\<forall>p\<in>set (gPending n). \<not> acceptSelfMatches U (pmRecipient p) t))
    \<and> (\<forall>m\<in>set (gMembers g) - set (gMembers n). \<exists>t\<in>set ms. acceptSelfMatches U (aciRecipient (memberACI m)) t)
    \<and> (\<forall>p\<in>set (gPending g) - set (gPending n). \<exists>t\<in>set ms. acceptSelfMatches U (pmRecipient p) t)
    \<and> (\<forall>r\<in>set (gRequesting g) - set (gRequesting n).
        \<exists>t\<in>set ms. acceptSelfMatches U (aciRecipient (rACI (rqRecipient r))) t)
    \<and> subseq (gMembers n) (gMembers g) \<and> subseq (gPending n) (gPending g)
    \<and> subseq (gRequesting n) (gRequesting g)
    \<and> n = g\<lparr>gMembers := gMembers n, gPending := gPending n, gRequesting := gRequesting n\<rparr>"
proof -
  obtain ts where ts: "removalTargets U g self ms = Inr ts" and n: "n = withRemovedTargets U g ts"
    using assms(2) by (auto simp: WithRemovedMembersAs_iff)
  note self = removal_keeps_self [OF assms(1) ts]
  show ?thesis
    using self removed_gone [OF assms(1) ts] MembershipOf_admin [OF self(2)]
    by (intro conjI) (auto simp: n withRemovedTargets_def)
qed

theorem WithRemovedMembersAs_spec_witness:
  "\<exists>n. WithRemovedMembersAs plain_uuid demoGroup (aciRecipient (demoUser 6)) [aciRecipient (demoUser 2)] = Inr n
     \<and> MembershipOf n (demoUser 6) = (MembershipMember, GroupRoleAdmin)"
proof -
  let ?r = "aciRecipient (demoUser 2)"
  have c: "canonTarget plain_uuid ?r = ?r"
    using demoUser_canon [of 2] by (simp add: canonTarget_def canonOf_def canonACI_def aciRecipient_def noRecipient_def)
  have v: "validTarget plain_uuid ?r" using demoUser_valid [of 2] by (simp add: validTarget_def validACI_def)
  have "removalMembershipTargets plain_uuid demoGroup ?r = [?r]"
    by (simp add: removalMembershipTargets_def MembershipOf_def acceptSelfMatches_aci demoUser_identity)
      (simp add: demoGroup_def acceptSelfMatches_aci demoUser_identity)
  moreover have "\<not> acceptSelfMatches plain_uuid ?r (aciRecipient (demoUser 6))"
    by (simp add: acceptSelfMatches_aci demoUser_identity)
  ultimately have "removal_targets_loop plain_uuid demoGroup (aciRecipient (demoUser 6)) [?r] [] = Inr [?r]"
    by (simp add: Let_def acceptSelfMatches_def)
  moreover have "NormalizeGroupRemovalMembers plain_uuid [?r] = Inr [?r]"
    using c v by (simp add: NormalizeGroupRemovalMembers_iff)
  ultimately have "WithRemovedMembersAs plain_uuid demoGroup (aciRecipient (demoUser 6)) [?r]
      = Inr (withRemovedTargets plain_uuid demoGroup [?r])"
    by (simp add: WithRemovedMembersAs_def removalTargets_def)
  from WithRemovedMembersAs_spec [OF plain_uuid_laws this] this show ?thesis by auto
qed

section \<open>Leaving\<close>

lemma List_insert_nonempty [simp]: "List.insert a xs \<noteq> []"
  by (simp add: List.insert_def) auto

lemma find_hd_filter: "filter P xs = e # r \<Longrightarrow> find P xs = Some e"
  by (induction xs) (auto split: if_splits)

lemma newAdmins_loop_ok:
  "isOk (newAdmins_loop g self ps acc) \<longleftrightarrow>
     (\<forall>r\<in>set ps. rACI r \<noteq> [] \<and> rACI r \<noteq> self \<and> (\<exists>m\<in>set (gMembers g). memberACI m = rACI r))"
  by (induction ps arbitrary: acc) (auto simp: find_None_iff find_Some_iff split: option.splits)

lemma newAdmins_loop_zero:
  "newAdmins_loop g self ps acc = Inr n \<Longrightarrow> n = 0 \<Longrightarrow>
     \<forall>r\<in>set ps. \<exists>m\<in>set (gMembers g). memberACI m = rACI r \<and> gmRole m = GroupRoleAdmin"
proof (induction ps arbitrary: acc)
  case (Cons p ps)
  obtain m where m: "find (\<lambda>m. rACI p \<noteq> [] \<and> memberACI m = rACI p) (gMembers g) = Some m"
    using Cons.prems by (auto split: option.splits)
  have ne: "newAdmins_loop g self qs xs = Inr k \<Longrightarrow> xs \<noteq> [] \<Longrightarrow> k \<noteq> 0" for qs xs k
  proof (induction qs arbitrary: xs)
    case (Cons q qs)
    show ?case
      using Cons.prems Cons.IH [of xs] Cons.IH [of "List.insert (rACI q) xs"]
      by (auto split: option.splits if_splits)
  qed auto
  have "gmRole m = GroupRoleAdmin"
    using Cons.prems m ne [of ps "List.insert (rACI p) acc" 0] by (auto split: if_splits)
  moreover have "m \<in> set (gMembers g)" "memberACI m = rACI p"
    using m by (auto simp: find_Some_iff)
  ultimately show ?case using Cons m by (auto split: if_splits)
qed simp

text \<open>The members of the group after a leave with promotions.\<close>

definition afterLeave :: "Group \<Rightarrow> string \<Rightarrow> Recipient list \<Rightarrow> GroupMember list" where
  "afterLeave g self promote = withRole (rACI ` set promote) GroupRoleAdmin
     (filter (\<lambda>m. memberACI m \<noteq> self) (gMembers g))"

lemma single_entry_counts:
  assumes "MembershipOf g self = (MembershipMember, GroupRoleAdmin)"
    and "length (filter (\<lambda>m. memberACI m = self) (gMembers g)) = 1"
  shows "Admins g = 1 + length (filter (\<lambda>m. gmRole m = GroupRoleAdmin)
           (filter (\<lambda>m. memberACI m \<noteq> self) (gMembers g)))"
    and "length (gMembers g) = 1 + length (filter (\<lambda>m. memberACI m \<noteq> self) (gMembers g))"
proof -
  let ?P = "\<lambda>m. memberACI m = self" and ?A = "\<lambda>m. gmRole m = GroupRoleAdmin"
  obtain e where e: "filter ?P (gMembers g) = [e]" using assms(2) by (auto simp: length_Suc_conv)
  have "find ?P (gMembers g) = Some e"
    using e by (rule find_hd_filter)
  then have "gmRole e = GroupRoleAdmin"
    using assms(1) by (auto simp: MembershipOf_def split: if_splits)
  then have "filter ?A (filter ?P (gMembers g)) = [e]" using e by simp
  then have "length (filter ?P (filter ?A (gMembers g))) = 1" by (simp add: conj_commute)
  then show "Admins g = 1 + length (filter ?A (filter (\<lambda>m. \<not> ?P m) (gMembers g)))"
    using sum_length_filter_compl [of ?P "filter ?A (gMembers g)"] by (simp add: Admins_def conj_commute)
  show "length (gMembers g) = 1 + length (filter (\<lambda>m. \<not> ?P m) (gMembers g))"
    using sum_length_filter_compl [of ?P "gMembers g"] e by simp
qed

definition promotable :: "Group \<Rightarrow> string \<Rightarrow> Recipient list \<Rightarrow> bool" where
  "promotable g self promote \<longleftrightarrow> (\<forall>r\<in>set promote. rACI r \<noteq> [] \<and> rACI r \<noteq> self
     \<and> (\<exists>m\<in>set (gMembers g). memberACI m = rACI r))"

text \<open>The count of \<open>checkLeave\<close> is one exactly when nobody is promoted and no other member is an
  administrator.\<close>

lemma leave_count:
  assumes "MembershipOf g self = (MembershipMember, GroupRoleAdmin)"
    and "length (filter (\<lambda>m. memberACI m = self) (gMembers g)) = 1"
    and "newAdmins_loop g self promote [] = Inr n" and "promotable g self promote"
  shows "Admins g + n = 1 \<longleftrightarrow> promote = []
    \<and> filter (\<lambda>m. gmRole m = GroupRoleAdmin) (filter (\<lambda>m. memberACI m \<noteq> self) (gMembers g)) = []"
proof (cases promote)
  case Nil
  then show ?thesis using assms(3) single_entry_counts(1) [OF assms(1,2)] by (auto simp del: filter_filter)
next
  case (Cons p ps)
  have "filter (\<lambda>m. gmRole m = GroupRoleAdmin) (filter (\<lambda>m. memberACI m \<noteq> self) (gMembers g)) \<noteq> []"
    if "n = 0"
  proof -
    have "\<exists>m\<in>set (gMembers g). memberACI m = rACI p \<and> gmRole m = GroupRoleAdmin"
      using newAdmins_loop_zero [OF assms(3) that] Cons by simp
    moreover have "rACI p \<noteq> self" using assms(4) Cons by (simp add: promotable_def)
    ultimately show ?thesis unfolding filter_filter filter_empty_conv by metis
  qed
  then show ?thesis using Cons single_entry_counts(1) [OF assms(1,2)] by (auto simp del: filter_filter)
qed

lemma afterLeave_admin:
  assumes "promotable g self promote"
  shows "afterLeave g self promote = [] \<or> (\<exists>m\<in>set (afterLeave g self promote). gmRole m = GroupRoleAdmin)
    \<longleftrightarrow> filter (\<lambda>m. memberACI m \<noteq> self) (gMembers g) = [] \<or> promote \<noteq> []
      \<or> filter (\<lambda>m. gmRole m = GroupRoleAdmin) (filter (\<lambda>m. memberACI m \<noteq> self) (gMembers g)) \<noteq> []"
proof (cases promote)
  case (Cons p ps)
  then obtain m where "m \<in> set (filter (\<lambda>m. memberACI m \<noteq> self) (gMembers g))" "memberACI m = rACI p"
    using assms by (auto simp: promotable_def)
  then have "m\<lparr>gmRole := GroupRoleAdmin\<rparr> \<in> set (afterLeave g self promote)"
    unfolding afterLeave_def withRole_def set_map by (intro image_eqI [of _ _ m]) (simp_all add: Cons)
  then have "\<exists>m\<in>set (afterLeave g self promote). gmRole m = GroupRoleAdmin" by (rule bexI [rotated]) simp
  then show ?thesis using Cons by auto
qed (auto simp: afterLeave_def withRole_def filter_empty_conv)

text \<open>C29: A full member listed once may leave exactly when only an administrator promotes, only
  other members are promoted, and an administrator who leaves members behind leaves an
  administrator among them, counting those promoted in the same change.\<close>

theorem CheckLeave_spec:
  assumes "MembershipOf g self = (MembershipMember, role)"
    and "length (filter (\<lambda>m. memberACI m = self) (gMembers g)) = 1"
  shows "CheckLeave g self promote = None \<longleftrightarrow>
     (promote \<noteq> [] \<longrightarrow> role = GroupRoleAdmin)
   \<and> (\<forall>r\<in>set promote. rACI r \<noteq> [] \<and> rACI r \<noteq> self \<and> (\<exists>m\<in>set (gMembers g). memberACI m = rACI r))
   \<and> (role = GroupRoleAdmin \<longrightarrow> afterLeave g self promote = []
        \<or> (\<exists>m\<in>set (afterLeave g self promote). gmRole m = GroupRoleAdmin))"
proof (cases "role = GroupRoleAdmin")
  case False
  then show ?thesis using assms(1)
    by (cases promote) (auto simp: CheckLeave_def checkLeave_def newAdmins_def)
next
  case True
  note adm = assms(1) [unfolded True]
  show ?thesis
  proof (cases "newAdmins_loop g self promote []")
    case (Inl e)
    then have "\<not> isOk (newAdmins_loop g self promote [])" by simp
    moreover have "CheckLeave g self promote \<noteq> None"
      using Inl adm by (simp add: CheckLeave_def checkLeave_def Let_def newAdmins_def)
    ultimately show ?thesis unfolding newAdmins_loop_ok by blast
  next
    case (Inr n)
    then have "isOk (newAdmins_loop g self promote [])" by simp
    then have ok: "promotable g self promote" by (simp only: newAdmins_loop_ok promotable_def)
    have "CheckLeave g self promote = None \<longleftrightarrow> \<not> (Admins g + n = 1 \<and> length (gMembers g) > 1)"
      using Inr adm by (simp add: CheckLeave_def checkLeave_def newAdmins_def)
    then show ?thesis
      unfolding leave_count [OF adm assms(2) Inr ok] afterLeave_admin [OF ok]
        single_entry_counts(2) [OF adm assms(2)]
      using ok True by (auto simp: promotable_def simp del: filter_filter)
  qed
qed

theorem CheckLeave_spec_witness:
  "CheckLeave demoGroup (demoUser 6) [aciRecipient (demoUser 2)] = None"
  using CheckLeave_spec [of demoGroup "demoUser 6" GroupRoleAdmin "[aciRecipient (demoUser 2)]"]
  by (simp add: afterLeave_def withRole_def)

section \<open>Sequences of changes\<close>

text \<open>
  The contract of a change to a group: while it has an administrator it keeps one, the revision
  never decreases and grows by at most one (so it never wraps). Whatever changes are tried in
  sequence, those refused leaving the group as it is, the group keeps an administrator.
\<close>

definition attempt :: "('a \<Rightarrow> Group \<Rightarrow> Group res) \<Rightarrow> 'a \<Rightarrow> Group \<Rightarrow> Group" where
  "attempt change a g = (case change a g of Inl _ \<Rightarrow> g | Inr n \<Rightarrow> n)"

locale admin_change =
  fixes change :: "'a \<Rightarrow> Group \<Rightarrow> Group res"
  assumes keeps_admin: "Admins g > 0 \<Longrightarrow> change a g = Inr n \<Longrightarrow> Admins n > 0"
    and revision_step: "change a g = Inr n \<Longrightarrow>
      unat (gRevision g) \<le> unat (gRevision n) \<and> unat (gRevision n) \<le> unat (gRevision g) + 1"
begin

lemma attempt_admin: "Admins g > 0 \<Longrightarrow> Admins (attempt change a g) > 0"
  by (auto simp: attempt_def split: sum.splits intro: keeps_admin)

lemma attempts_admin: "Admins g > 0 \<Longrightarrow> Admins (fold (attempt change) as g) > 0"
proof (induction as arbitrary: g)
  case (Cons a as)
  then show ?case using attempt_admin [of g a] by simp
qed simp

lemma attempts_revision:
  "unat (gRevision g) \<le> unat (gRevision (fold (attempt change) as g))
   \<and> unat (gRevision (fold (attempt change) as g)) \<le> unat (gRevision g) + length as"
proof (induction as arbitrary: g)
  case (Cons a as)
  have "unat (gRevision g) \<le> unat (gRevision (attempt change a g))
      \<and> unat (gRevision (attempt change a g)) \<le> unat (gRevision g) + 1"
    using revision_step [of a g] by (auto simp: attempt_def split: sum.splits)
  then show ?case using Cons [of "attempt change a g"] by simp
qed simp

end

datatype groupChange =
    ChangeRole string "Recipient list" GroupRole
  | ChangeBan string "Recipient list" bool time
  | ChangeRemove Recipient "Recipient list"
  | ChangeSettings string GroupUpdate

fun applyChange :: "uuid_lib \<Rightarrow> image_lib \<Rightarrow> groupChange \<Rightarrow> Group \<Rightarrow> Group res" where
  "applyChange U I (ChangeRole self ms role) g = WithMemberRole U g self ms role"
| "applyChange U I (ChangeBan self ms banned t) g = WithBannedMembers U g self ms banned t"
| "applyChange U I (ChangeRemove self ms) g = WithRemovedMembersAs U g self ms"
| "applyChange U I (ChangeSettings self u) g = WithUpdate I g self u"

lemma WithUpdate_cases:
  "WithUpdate I g self u = Inr n \<Longrightarrow> gMembers n = gMembers g \<and>
     (gRevision n = gRevision g \<or> gRevision g \<noteq> - 1 \<and> gRevision n = gRevision g + 1)"
  by (auto simp: WithUpdate_def updatedSettings_def Let_def split: option.splits if_splits)

lemma u32_steps:
  "(r' :: u32) = r \<or> r \<noteq> - 1 \<and> r' = r + 1 \<Longrightarrow> unat r \<le> unat r' \<and> unat r' \<le> unat r + 1"
  using unat_succ_u32 [of r] by auto

lemma applyChange_revision:
  assumes "uuid_laws U" "applyChange U I c g = Inr n"
  shows "gRevision n = gRevision g \<or> gRevision g \<noteq> - 1 \<and> gRevision n = gRevision g + 1"
proof (cases c)
  case (ChangeBan self ms banned t)
  then have "WithBannedMembers U g self ms banned t = Inr n" using assms(2) by simp
  then show ?thesis by (rule WithBannedMembers_cases [OF assms(1)]) (auto split: if_splits)
qed (use assms WithUpdate_cases in \<open>auto simp: WithMemberRole_cases WithRemovedMembersAs_iff
       withRemovedTargets_def split: if_splits\<close>)

lemma applyChange_admin:
  assumes "uuid_laws U" "Admins g > 0" "applyChange U I c g = Inr n"
  shows "Admins n > 0"
proof (cases c)
  case (ChangeBan self ms banned t)
  then have "WithBannedMembers U g self ms banned t = Inr n" using assms(3) by simp
  then have "MembershipOf n self = (MembershipMember, GroupRoleAdmin)"
    by (rule WithBannedMembers_cases [OF assms(1)])
      (auto simp: applyBan_MembershipOf banAllowed_def)
  then show ?thesis by (rule MembershipOf_admin)
next
  case (ChangeRemove self ms)
  then obtain ts where "removalTargets U g self ms = Inr ts" "n = withRemovedTargets U g ts"
    using assms(3) by (auto simp: WithRemovedMembersAs_iff)
  then show ?thesis using removal_keeps_self(2) [OF assms(1)] MembershipOf_admin by blast
next
  case (ChangeRole self ms role)
  then show ?thesis using assms by (auto simp: WithMemberRole_cases Admins_pos_iff)
next
  case (ChangeSettings self u)
  then show ?thesis using assms WithUpdate_cases [of I g self u n] by (simp add: Admins_def)
qed

locale uuid_package =
  fixes U :: uuid_lib
  assumes laws: "uuid_laws U"
begin

end

sublocale uuid_package \<subseteq> group_ops: admin_change "applyChange U I" for I
proof
  show "Admins n > 0" if "Admins g > 0" "applyChange U I a g = Inr n" for g a n
    using laws that by (rule applyChange_admin)
  show "unat (gRevision g) \<le> unat (gRevision n) \<and> unat (gRevision n) \<le> unat (gRevision g) + 1"
    if "applyChange U I a g = Inr n" for g a n
    by (rule u32_steps [OF applyChange_revision [OF laws that]])
qed

context uuid_package begin

lemma changes_admin: "Admins g > 0 \<Longrightarrow> Admins (fold (attempt (applyChange U I)) cs g) > 0"
  by (rule group_ops.attempts_admin)

lemma changes_revision:
  "unat (gRevision g) \<le> unat (gRevision (fold (attempt (applyChange U I)) cs g))
   \<and> unat (gRevision (fold (attempt (applyChange U I)) cs g)) \<le> unat (gRevision g) + length cs"
  by (rule group_ops.attempts_revision)

end

interpretation plain_package: uuid_package plain_uuid
  by unfold_locales (rule plain_uuid_laws)

text \<open>C12: Whatever role changes, bans, unbans, removals and settings changes are tried on a group
  that has an administrator, by whomever and in whatever order, it always has an administrator,
  and the revision never falls or wraps and advances at most once per change.\<close>

theorem group_changes_keep_admin:
  assumes "uuid_laws U" and "Admins g > 0"
  shows "let r = fold (attempt (applyChange U I)) cs g in
    Admins r > 0 \<and> unat (gRevision g) \<le> unat (gRevision r)
    \<and> unat (gRevision r) \<le> unat (gRevision g) + length cs"
  using uuid_package.changes_admin [OF uuid_package.intro [OF assms(1)] assms(2)]
    uuid_package.changes_revision [OF uuid_package.intro [OF assms(1)]]
  by (simp add: Let_def)

definition demoImages :: image_lib where
  "demoImages = \<lparr>image_DecodeConfig = \<lambda>_. None, image_Decode = \<lambda>_. False\<rparr>"

theorem group_changes_keep_admin_witness:
  "uuid_laws plain_uuid \<and> Admins demoGroup > 0 \<and>
   Admins (fold (attempt (applyChange plain_uuid demoImages))
     [ChangeRole (demoUser 6) [aciRecipient (demoUser 6), aciRecipient (demoUser 3)] GroupRoleMember]
     demoGroup) > 0"
proof -
  have a: "Admins demoGroup > 0" by (simp add: Admins_def)
  from group_changes_keep_admin [OF plain_uuid_laws this, of demoImages
      "[ChangeRole (demoUser 6) [aciRecipient (demoUser 6), aciRecipient (demoUser 3)] GroupRoleMember]"]
  show ?thesis using a plain_uuid_laws by (simp add: Let_def)
qed

end
