(* ===== verification/AppCore.thy ===== *)
theory AppCore
  imports PollReducer GroupRules
begin

text \<open>
  The application layer's frame (internal/app/app.go): an App on one open client. The client
  interface of internal/signal/client.go, the clock and the file system are a record of functions
  on a world state, a parameter of every use case; the theorems hold for every such client. A use
  case is a state transformer on the App that returns a value or an error. A Go panic ends a use
  case like an error does; it is the error \<open>Opaque ''panic''\<close>, which no client call returns.
  Cancellation of a context is a failure of the client call it interrupts.
\<close>

section \<open>Data of the application layer\<close>

record Account =
  accNumber :: string
  accACI :: string
  accPNI :: string
  accDeviceID :: int
  accDeviceName :: string
  accLinkedAt :: time
  accLastSync :: time
  accUnlinkedAt :: time

text \<open>Where a message goes (recipient.go).\<close>

record Target =
  tRecipient :: Recipient
  tGroupID :: string
  tSelf :: bool

text \<open>The chats that sending is restricted to (policy.go): \<open>alDone\<close> says that \<open>alResolved\<close> holds
  the entries resolved to users.\<close>

record Allowlist =
  alAll :: bool
  alEntries :: "Target list"
  alResolved :: "Target list"
  alDone :: bool

record InboxEntry =
  ieID :: int
  ieReceivedAt :: time
  ieTime :: time
  ieChat :: Chat
  ieEvent :: Event
  ieUnread :: bool

record InboxQuery =
  iqAfter :: int
  iqUntil :: int
  iqChat :: string
  iqSince :: time
  iqUnread :: bool
  iqLimit :: int
  iqNewest :: bool

record InboxChat =
  icChat :: Chat
  icEntries :: nat
  icUnread :: nat
  icLast :: InboxEntry

text \<open>The part of the client interface that the use cases call, with the clock.\<close>

record 'c Client =
  clNow :: "'c \<Rightarrow> time \<times> 'c"
  clAccount :: "'c \<Rightarrow> Account res \<times> 'c"
  clConnectSendOnly :: "'c \<Rightarrow> err option \<times> 'c"
  clResolve :: "Recipient list \<Rightarrow> 'c \<Rightarrow> Recipient list res \<times> 'c"
  clUpload :: "OutgoingAttachment list \<Rightarrow> 'c \<Rightarrow> UploadedAttachment list res \<times> 'c"
  clFetchSticker :: "StickerReference \<Rightarrow> 'c \<Rightarrow> StickerData res \<times> 'c"
  clSend :: "SendRequest \<Rightarrow> 'c \<Rightarrow> ClientSendResult res \<times> 'c"
  clSendReceipt :: "Recipient \<Rightarrow> ReceiptType \<Rightarrow> u64 list \<Rightarrow> 'c \<Rightarrow> err option \<times> 'c"
  clReservePollVote :: "PollVoteCounterRequest \<Rightarrow> 'c \<Rightarrow> u32 res \<times> 'c"
  clPollProjection :: "PollReference \<Rightarrow> 'c \<Rightarrow> PollState res \<times> 'c"
  clGroup :: "string \<Rightarrow> 'c \<Rightarrow> Group res \<times> 'c"
  clInboxAdd :: "InboxEntry \<Rightarrow> 'c \<Rightarrow> InboxEntry res \<times> 'c"
  clInboxList :: "InboxQuery \<Rightarrow> 'c \<Rightarrow> InboxEntry list res \<times> 'c"
  clInboxChats :: "'c \<Rightarrow> InboxChat list res \<times> 'c"
  clInboxMarkRead :: "ReadMark list \<Rightarrow> 'c \<Rightarrow> nat res \<times> 'c"
  clInboxPrune :: "time \<Rightarrow> nat \<Rightarrow> 'c \<Rightarrow> nat res \<times> 'c"

record 'c App =
  world :: 'c
  lastTimestamp :: u64
  allow :: "Allowlist option"

section \<open>Use cases as state transformers\<close>

type_synonym ('c, 'a) action = "'c App \<Rightarrow> 'a res \<times> 'c App"

definition ret :: "'a \<Rightarrow> ('c, 'a) action" where
  "ret x = (\<lambda>s. (Inr x, s))"

definition fail :: "err \<Rightarrow> ('c, 'a) action" where
  "fail e = (\<lambda>s. (Inl e, s))"

definition andThen :: "('c, 'a) action \<Rightarrow> ('a \<Rightarrow> ('c, 'b) action) \<Rightarrow> ('c, 'b) action" where
  "andThen m f = (\<lambda>s. case m s of (Inl e, s') \<Rightarrow> (Inl e, s') | (Inr x, s') \<Rightarrow> f x s')"

definition call :: "('c \<Rightarrow> 'a res \<times> 'c) \<Rightarrow> ('c, 'a) action" where
  "call f = (\<lambda>s. case f (world s) of (r, w) \<Rightarrow> (r, s\<lparr>world := w\<rparr>))"

definition callErr :: "('c \<Rightarrow> err option \<times> 'c) \<Rightarrow> ('c, unit) action" where
  "callErr f = (\<lambda>s. case f (world s) of
     (None, w) \<Rightarrow> (Inr (), s\<lparr>world := w\<rparr>) | (Some e, w) \<Rightarrow> (Inl e, s\<lparr>world := w\<rparr>))"

definition callNow :: "'c Client \<Rightarrow> ('c, time) action" where
  "callNow C = (\<lambda>s. case clNow C (world s) of (t, w) \<Rightarrow> (Inr t, s\<lparr>world := w\<rparr>))"

text \<open>\<open>fmt.Errorf\<close> around the error of an action.\<close>

definition wrapping :: "string \<Rightarrow> ('c, 'a) action \<Rightarrow> ('c, 'a) action" where
  "wrapping ctx m = (\<lambda>s. case m s of (Inl e, s') \<Rightarrow> (Inl (Wrap ctx [e]), s') | (Inr x, s') \<Rightarrow> (Inr x, s'))"

definition ofCheck :: "err option \<Rightarrow> ('c, unit) action" where
  "ofCheck e = (case e of None \<Rightarrow> ret () | Some x \<Rightarrow> fail x)"

definition ofRes :: "'a res \<Rightarrow> ('c, 'a) action" where
  "ofRes r = (\<lambda>s. (r, s))"

definition panic :: err where
  "panic = Opaque ''panic''"

definition connectSendOnly :: "'c Client \<Rightarrow> ('c, unit) action" where
  "connectSendOnly C = (\<lambda>s. case clConnectSendOnly C (world s) of
     (None, w) \<Rightarrow> (Inr (), s\<lparr>world := w\<rparr>)
   | (Some e, w) \<Rightarrow> (if errors_Is e ErrAlreadyConnected then Inr () else Inl e, s\<lparr>world := w\<rparr>))"

definition AccountShow :: "'c Client \<Rightarrow> ('c, Account) action" where
  "AccountShow C = wrapping ''account show'' (call (clAccount C))"

lemmas action_defs = ret_def fail_def andThen_def call_def callErr_def callNow_def wrapping_def
  ofCheck_def ofRes_def connectSendOnly_def

section \<open>Frames of actions\<close>

text \<open>\<open>frames W m\<close>: whether \<open>m\<close> succeeds or fails, it keeps \<open>W\<close> of the world and leaves the allowlist
  and the last timestamp alone.\<close>

definition frames :: "('c \<Rightarrow> bool) \<Rightarrow> ('c, 'a) action \<Rightarrow> bool" where
  "frames W m \<longleftrightarrow> (\<forall>s. W (world s) \<longrightarrow> W (world (snd (m s)))
     \<and> allow (snd (m s)) = allow s \<and> lastTimestamp (snd (m s)) = lastTimestamp s)"

named_theorems frame_intros \<open>rules for frames of actions\<close>

lemma framesD:
  assumes "frames W m" "W (world s)" "m s = (r, s')"
  shows "W (world s')" "allow s' = allow s" "lastTimestamp s' = lastTimestamp s"
  using assms unfolding frames_def by (metis snd_conv)+

lemma frames_ret [frame_intros]: "frames W (ret x)"
  by (simp add: frames_def ret_def)

lemma frames_fail [frame_intros]: "frames W (fail e)"
  by (simp add: frames_def fail_def)

lemma frames_andThen [frame_intros]:
  assumes "frames W m" "\<And>x. frames W (f x)"
  shows "frames W (andThen m f)"
proof -
  have "W (world (snd (andThen m f s))) \<and> allow (snd (andThen m f s)) = allow s
      \<and> lastTimestamp (snd (andThen m f s)) = lastTimestamp s" if w: "W (world s)" for s
  proof (cases "m s")
    case (Pair r s')
    note D = framesD [OF assms(1) w Pair]
    show ?thesis
    proof (cases r)
      case (Inr x)
      then show ?thesis using D Pair framesD [OF assms(2) D(1), of x "fst (f x s')" "snd (f x s')"]
        by (simp add: andThen_def)
    qed (use D Pair in \<open>simp add: andThen_def\<close>)
  qed
  then show ?thesis by (simp add: frames_def)
qed

lemma frames_wrapping [frame_intros]: "frames W m \<Longrightarrow> frames W (wrapping ctx m)"
  unfolding frames_def wrapping_def by (auto split: prod.splits sum.splits)

lemma frames_ofCheck [frame_intros]: "frames W (ofCheck e)"
  by (simp add: frames_def ofCheck_def ret_def fail_def split: option.splits)

lemma frames_ofRes [frame_intros]: "frames W (ofRes r)"
  by (simp add: frames_def ofRes_def)

lemma frames_call [frame_intros]: "(\<And>w. W w \<Longrightarrow> W (snd (f w))) \<Longrightarrow> frames W (call f)"
  unfolding frames_def call_def by (auto split: prod.splits) (metis snd_conv)

lemma frames_callErr: "(\<And>w. W w \<Longrightarrow> W (snd (f w))) \<Longrightarrow> frames W (callErr f)"
  unfolding frames_def callErr_def by (auto split: prod.splits option.splits) (metis snd_conv)+

text \<open>
  The contract of a client that keeps something of its world in every call but sending. The use
  cases are shown once to keep it until they send; an instance is a client with a log of what was
  sent, for which the calls before sending leave the log alone.
\<close>

locale world_inv =
  fixes C :: "'c Client" and W :: "'c \<Rightarrow> bool"
  assumes keep_Now: "W w \<Longrightarrow> W (snd (clNow C w))"
    and keep_Account: "W w \<Longrightarrow> W (snd (clAccount C w))"
    and keep_Connect: "W w \<Longrightarrow> W (snd (clConnectSendOnly C w))"
    and keep_Resolve: "W w \<Longrightarrow> W (snd (clResolve C rs w))"
    and keep_Upload: "W w \<Longrightarrow> W (snd (clUpload C atts w))"
    and keep_FetchSticker: "W w \<Longrightarrow> W (snd (clFetchSticker C ref w))"
    and keep_ReservePollVote: "W w \<Longrightarrow> W (snd (clReservePollVote C req w))"
    and keep_Group: "W w \<Longrightarrow> W (snd (clGroup C g w))"
begin

lemma frames_Now: "frames W (callNow C)"
  using keep_Now unfolding frames_def callNow_def by (auto split: prod.splits) (metis snd_conv)

lemma frames_connect: "frames W (connectSendOnly C)"
  using keep_Connect unfolding frames_def connectSendOnly_def
  by (auto split: prod.splits option.splits) (metis snd_conv)+

lemma frames_calls:
  "frames W (call (clAccount C))" "frames W (call (clResolve C rs))" "frames W (call (clUpload C atts))"
  "frames W (call (clFetchSticker C ref))" "frames W (call (clReservePollVote C req))"
  "frames W (call (clGroup C g))"
  by (rule frames_call; erule keep_Account keep_Resolve keep_Upload keep_FetchSticker
      keep_ReservePollVote keep_Group)+

end

section \<open>A client with a log\<close>

text \<open>The client with a record of the requests and receipts given to it, in order.\<close>

datatype sent = SentMessage SendRequest | SentReceipt Recipient ReceiptType "u64 list"

definition onFst :: "('c \<Rightarrow> 'a \<times> 'c) \<Rightarrow> 'c \<times> sent list \<Rightarrow> 'a \<times> 'c \<times> sent list" where
  "onFst f w = (case f (fst w) of (r, w') \<Rightarrow> (r, w', snd w))"

definition noting :: "sent \<Rightarrow> ('c \<Rightarrow> 'a \<times> 'c) \<Rightarrow> 'c \<times> sent list \<Rightarrow> 'a \<times> 'c \<times> sent list" where
  "noting x f w = (case f (fst w) of (r, w') \<Rightarrow> (r, w', snd w @ [x]))"

definition logging :: "'c Client \<Rightarrow> ('c \<times> sent list) Client" where
  "logging C = \<lparr>clNow = onFst (clNow C), clAccount = onFst (clAccount C),
     clConnectSendOnly = onFst (clConnectSendOnly C), clResolve = (\<lambda>rs. onFst (clResolve C rs)),
     clUpload = (\<lambda>a. onFst (clUpload C a)), clFetchSticker = (\<lambda>r. onFst (clFetchSticker C r)),
     clSend = (\<lambda>req. noting (SentMessage req) (clSend C req)),
     clSendReceipt = (\<lambda>r t ts. noting (SentReceipt r t ts) (clSendReceipt C r t ts)),
     clReservePollVote = (\<lambda>r. onFst (clReservePollVote C r)),
     clPollProjection = (\<lambda>r. onFst (clPollProjection C r)), clGroup = (\<lambda>g. onFst (clGroup C g)),
     clInboxAdd = (\<lambda>e. onFst (clInboxAdd C e)), clInboxList = (\<lambda>q. onFst (clInboxList C q)),
     clInboxChats = onFst (clInboxChats C), clInboxMarkRead = (\<lambda>m. onFst (clInboxMarkRead C m)),
     clInboxPrune = (\<lambda>t k. onFst (clInboxPrune C t k))\<rparr>"

lemma onFst_snd [simp]: "snd (snd (onFst f w)) = snd w"
  by (simp add: onFst_def split: prod.splits)

lemma noting_snd [simp]: "snd (snd (noting x f w)) = snd w @ [x]"
  by (simp add: noting_def split: prod.splits)

lemma fst_onFst [simp]: "fst (onFst f w) = fst (f (fst w))"
  by (simp add: onFst_def split: prod.splits)

interpretation log_inv: world_inv "logging C" "\<lambda>w. snd w = L" for C L
  by unfold_locales (simp_all add: logging_def)

end
