(* ===== verification/Recipients.thy ===== *)
theory Recipients
  imports AppCore
begin

text \<open>
  Who a message goes to: internal/app/recipient.go (the recipient arguments, their resolution to
  users, note-to-self and duplicates), decodeGroupKey of groups.go, and internal/app/policy.go (the
  allowlist).
\<close>

section \<open>Recipient arguments (recipient.go)\<close>

definition groupIDLen :: nat where "groupIDLen = 32"

definition noTarget :: Target where
  "noTarget = \<lparr>tRecipient = noRecipient, tGroupID = [], tSelf = False\<rparr>"

definition Target_IsGroup :: "Target \<Rightarrow> bool" where
  "Target_IsGroup t \<longleftrightarrow> tGroupID t \<noteq> []"

definition Target_String :: "Target \<Rightarrow> string" where
  "Target_String t =
    (if Target_IsGroup t then ''group:'' @ tGroupID t
     else if tSelf t then ''self''
     else if rUsername (tRecipient t) \<noteq> [] \<and> rACI (tRecipient t) = [] then CHR ''@'' # rUsername (tRecipient t)
     else Recipient_String (tRecipient t))"

text \<open>The regular expression of E.164 numbers: a plus, a digit from 1 to 9, one to fourteen digits.\<close>

definition isDigit :: "char \<Rightarrow> bool" where
  "isDigit c \<longleftrightarrow> 48 \<le> byte c \<and> byte c \<le> 57"

definition e164 :: "string \<Rightarrow> bool" where
  "e164 s = (case s of
     p # d # ds \<Rightarrow> p = CHR ''+'' \<and> isDigit d \<and> d \<noteq> CHR ''0'' \<and> list_all isDigit ds
       \<and> 1 \<le> length ds \<and> length ds \<le> 14
   | _ \<Rightarrow> False)"

text \<open>groups.go\<close>

definition decodeGroupKey :: "string \<Rightarrow> string option" where
  "decodeGroupKey arg =
    (case (case StdDecode arg of
             Some raw \<Rightarrow> Some raw
           | None \<Rightarrow> RawURLDecode (TrimRightChar (CHR ''='') arg)) of
       None \<Rightarrow> None
     | Some raw \<Rightarrow> if length raw \<noteq> groupIDLen then None else Some (StdEncode raw))"

definition invalidRecipient :: err where
  "invalidRecipient = Wrap ''invalid recipient'' [Sentinel ErrInvalidRecipient]"

definition parseGroup :: "string \<Rightarrow> Target res" where
  "parseGroup arg = (case decodeGroupKey (TrimPrefix arg ''group:'') of
     None \<Rightarrow> Inl invalidRecipient
   | Some key \<Rightarrow> Inr (noTarget\<lparr>tGroupID := key\<rparr>))"

definition parse_trimmed :: "uuid_lib \<Rightarrow> string \<Rightarrow> Target res" where
  "parse_trimmed U arg =
    (if EqualFoldASCII arg ''self'' then Inr (noTarget\<lparr>tSelf := True\<rparr>)
     else if HasPrefix arg ''group:'' then parseGroup arg
     else if HasPrefix arg ''@'' then
       (let name = drop 1 arg in
        if name = [] \<or> CHR '' '' \<in> set name \<or> CHR ''@'' \<in> set name then Inl invalidRecipient
        else Inr (noTarget\<lparr>tRecipient := noRecipient\<lparr>rUsername := name\<rparr>\<rparr>))
     else if HasPrefix arg ''+'' then
       (if \<not> e164 arg then Inl invalidRecipient
        else Inr (noTarget\<lparr>tRecipient := noRecipient\<lparr>rNumber := arg\<rparr>\<rparr>))
     else case uuid_Parse U arg of
       None \<Rightarrow> Inl invalidRecipient
     | Some aci \<Rightarrow> if length arg \<noteq> length (uuid_String U uuid_Nil) then Inl invalidRecipient
         else Inr (noTarget\<lparr>tRecipient := aciRecipient (uuid_String U aci)\<rparr>))"

definition ParseRecipient :: "uuid_lib \<Rightarrow> string \<Rightarrow> Target res" where
  "ParseRecipient U arg = parse_trimmed U (TrimSpace arg)"

section \<open>Resolution (recipient.go)\<close>

definition isOwn :: "Target \<Rightarrow> Account \<Rightarrow> bool" where
  "isOwn t own \<longleftrightarrow> tSelf t \<or> rACI (tRecipient t) = accACI own
     \<or> (rNumber (tRecipient t) \<noteq> [] \<and> rNumber (tRecipient t) = accNumber own)"

definition selfTarget :: "Account \<Rightarrow> Target" where
  "selfTarget own = \<lparr>tRecipient = noRecipient\<lparr>rACI := accACI own, rNumber := accNumber own\<rparr>,
     tGroupID = [], tSelf = True\<rparr>"

text \<open>The loop of \<open>markSelf\<close> from index \<open>i\<close>; \<open>own\<close> is the account once it was needed. It gives the
  targets from \<open>i\<close> on and the indices left to look up.\<close>

fun markSelf_loop ::
  "'c Client \<Rightarrow> nat \<Rightarrow> Account option \<Rightarrow> Target list \<Rightarrow> ('c, Target list \<times> nat list) action" where
  "markSelf_loop C i own [] = ret ([], [])"
| "markSelf_loop C i own (t # ts) =
    (if Target_IsGroup t
     then andThen (markSelf_loop C (Suc i) own ts) (\<lambda>(ts', pending). ret (t # ts', pending))
     else andThen (case own of Some acc \<Rightarrow> ret acc | None \<Rightarrow> call (clAccount C)) (\<lambda>acc.
       andThen (markSelf_loop C (Suc i) (Some acc) ts) (\<lambda>(ts', pending).
         if isOwn t acc then ret (selfTarget acc # ts', pending)
         else if rACI (tRecipient t) = [] then ret (t # ts', i # pending)
         else ret (t # ts', pending))))"

definition markSelf :: "'c Client \<Rightarrow> Target list \<Rightarrow> ('c, Target list \<times> nat list) action" where
  "markSelf C ts = markSelf_loop C 0 None ts"

text \<open>Filling in what was looked up; Go panics when the client returned too few recipients.\<close>

fun assign_resolved :: "Target list \<Rightarrow> nat list \<Rightarrow> Recipient list \<Rightarrow> Target list res" where
  "assign_resolved ts [] rs = Inr ts"
| "assign_resolved ts (i # pending) [] = Inl panic"
| "assign_resolved ts (i # pending) (r # rs) =
     assign_resolved (ts[i := (ts ! i)\<lparr>tRecipient := r\<rparr>]) pending rs"

definition resolveUsers :: "'c Client \<Rightarrow> Target list \<Rightarrow> ('c, Target list) action" where
  "resolveUsers C ts = andThen (markSelf C ts) (\<lambda>(ts', pending).
     if pending = [] then ret ts'
     else andThen (call (clResolve C (map (\<lambda>i. tRecipient (ts' ! i)) pending)))
       (\<lambda>resolved. ofRes (assign_resolved ts' pending resolved)))"

definition dedupeKey :: "Target \<Rightarrow> string" where
  "dedupeKey t = (if Target_IsGroup t then ''group:'' @ tGroupID t else rACI (tRecipient t))"

fun dedupe_loop :: "Target list \<Rightarrow> string list \<Rightarrow> Target list" where
  "dedupe_loop [] seen = []"
| "dedupe_loop (t # ts) seen =
    (if dedupeKey t \<in> set seen then dedupe_loop ts seen
     else t # dedupe_loop ts (dedupeKey t # seen))"

definition dedupe :: "Target list \<Rightarrow> Target list" where
  "dedupe ts = dedupe_loop ts []"

text \<open>The arguments that parse and the errors of those that don't.\<close>

fun parse_all :: "uuid_lib \<Rightarrow> string list \<Rightarrow> Target list \<times> err list" where
  "parse_all U [] = ([], [])"
| "parse_all U (arg # args) = (let (ts, es) = parse_all U args in
     case ParseRecipient U arg of Inl e \<Rightarrow> (ts, e # es) | Inr t \<Rightarrow> (t # ts, es))"

definition ResolveRecipients ::
  "uuid_lib \<Rightarrow> 'c Client \<Rightarrow> string list \<Rightarrow> ('c, Target list) action" where
  "ResolveRecipients U C args = (case parse_all U args of (ts, es) \<Rightarrow>
     (case errors_Join es of
        Some e \<Rightarrow> fail e
      | None \<Rightarrow> andThen (wrapping ''resolve recipients'' (resolveUsers C ts)) (\<lambda>ts'. ret (dedupe ts'))))"

section \<open>The allowlist (policy.go)\<close>

definition AllowAll :: string where "AllowAll = ''*''"

fun parse_allow_loop :: "uuid_lib \<Rightarrow> string list \<Rightarrow> Allowlist \<Rightarrow> err list \<Rightarrow> Allowlist \<times> err list" where
  "parse_allow_loop U [] l errs = (l, errs)"
| "parse_allow_loop U (arg # args) l errs =
    (if TrimSpace arg = AllowAll then parse_allow_loop U args (l\<lparr>alAll := True\<rparr>) errs
     else case ParseRecipient U arg of
       Inl e \<Rightarrow> parse_allow_loop U args l (errs @ [e])
     | Inr t \<Rightarrow> parse_allow_loop U args (l\<lparr>alEntries := alEntries l @ [t]\<rparr>) errs)"

definition emptyAllowlist :: Allowlist where
  "emptyAllowlist = \<lparr>alAll = False, alEntries = [], alResolved = [], alDone = False\<rparr>"

definition ParseAllowlist :: "uuid_lib \<Rightarrow> string list \<Rightarrow> Allowlist res" where
  "ParseAllowlist U args = (case parse_allow_loop U args emptyAllowlist [] of (l, errs) \<Rightarrow>
     (case errors_Join errs of Some e \<Rightarrow> Inl (Wrap ''allowlist'' [e]) | None \<Rightarrow> Inr l))"

definition Allowlist_Empty :: "Allowlist \<Rightarrow> bool" where
  "Allowlist_Empty l \<longleftrightarrow> \<not> alAll l \<and> alEntries l = []"

definition Allowlist_Len :: "Allowlist \<Rightarrow> nat" where
  "Allowlist_Len l = length (alEntries l)"

definition Missing :: "Allowlist \<Rightarrow> Allowlist \<Rightarrow> string list" where
  "Missing l other =
    (if alAll l then []
     else map Target_String (filter (\<lambda>e. \<not> list_ex (\<lambda>t. Target_String t = Target_String e) (alEntries l))
            (alEntries other))
          @ (if alAll other then [AllowAll] else []))"

definition sameTarget :: "Target \<Rightarrow> Target \<Rightarrow> bool" where
  "sameTarget a b =
    (if Target_IsGroup a \<or> Target_IsGroup b then tGroupID a = tGroupID b
     else if tSelf a \<or> tSelf b then tSelf a \<and> tSelf b
     else rACI (tRecipient a) \<noteq> [] \<and> rACI (tRecipient a) = rACI (tRecipient b))"

definition allows :: "Target list \<Rightarrow> Target \<Rightarrow> bool" where
  "allows entries t = list_ex (\<lambda>e. sameTarget e t) entries"

text \<open>Entries without a Signal account are left out; any other failure ends the resolution.\<close>

fun resolveEntries :: "'c Client \<Rightarrow> Target list \<Rightarrow> ('c, Target list) action" where
  "resolveEntries C [] = ret []"
| "resolveEntries C (entry # entries) = (\<lambda>s. case resolveUsers C [entry] s of
     (Inl e, s') \<Rightarrow>
       if errors_Is e ErrNotOnSignal then resolveEntries C entries s'
       else (Inl (Wrap ''resolve allowed recipient'' [e]), s')
   | (Inr ts, s') \<Rightarrow> andThen (resolveEntries C entries) (\<lambda>rest. ret (take 1 ts @ rest)) s')"

text \<open>The resolved entries, and the list with them remembered.\<close>

definition resolveList :: "'c Client \<Rightarrow> Allowlist \<Rightarrow> ('c, Target list \<times> Allowlist) action" where
  "resolveList C l =
    (if alDone l then ret (alResolved l, l)
     else andThen (resolveEntries C (alEntries l))
       (\<lambda>resolved. ret (resolved, l\<lparr>alResolved := resolved, alDone := True\<rparr>)))"

definition checkAllowed :: "'c Client \<Rightarrow> Target list \<Rightarrow> ('c, unit) action" where
  "checkAllowed C targets = (\<lambda>s. case allow s of
     None \<Rightarrow> (Inr (), s)
   | Some l \<Rightarrow> if alAll l then (Inr (), s)
       else andThen (resolveList C l) (\<lambda>(allowed, l') s'.
         (if list_all (allows allowed) targets then Inr ()
          else Inl (Wrap ''recipient not allowed'' [Sentinel ErrRecipientNotAllowed]),
          s'\<lparr>allow := Some l'\<rparr>)) s)"

definition CheckRecipients :: "uuid_lib \<Rightarrow> 'c Client \<Rightarrow> string list \<Rightarrow> ('c, unit) action" where
  "CheckRecipients U C args = andThen (ResolveRecipients U C args) (checkAllowed C)"

text \<open>The list that is asked about is the caller's own; it comes back with what was resolved.\<close>

definition ChatAllowed ::
  "'c Client \<Rightarrow> Allowlist option \<Rightarrow> Chat \<Rightarrow> ('c, bool \<times> Allowlist option) action" where
  "ChatAllowed C list chat = (case list of
     None \<Rightarrow> ret (False, None)
   | Some l \<Rightarrow>
       if Allowlist_Empty l then ret (False, list)
       else if alAll l then ret (True, list)
       else let target = \<lparr>tRecipient = cRecipient chat, tGroupID = cGroupID chat, tSelf = False\<rparr> in
         if \<not> Target_IsGroup target \<and> rACI (tRecipient target) = [] then ret (False, list)
         else andThen (resolveList C l) (\<lambda>(entries, l'). ret (allows entries target, Some l')))"

section \<open>The textual form of a target\<close>

lemma TrimSpace_idem: "TrimSpace (TrimSpace s) = TrimSpace s"
proof -
  let ?P = "IsSpace \<circ> fst"
  define D where "D = dropWhile ?P (segments s)"
  define M where "M = rev (dropWhile ?P (rev D))"
  have D: "D = drop (length (takeWhile ?P (segments s))) (segments s)"
    by (simp add: D_def dropWhile_eq_drop)
  have M: "M = take (length D - length (takeWhile ?P (rev D))) D"
    by (simp add: M_def dropWhile_eq_drop rev_drop)
  have "segments (concat (map snd D)) = D" unfolding D by (rule segments_drop)
  then have seg: "segments (TrimSpace s) = M"
    using segments_take [of "length D - length (takeWhile ?P (rev D))" "concat (map snd D)"]
    by (simp add: TrimSpace_def D_def [symmetric] M_def [symmetric] M)
  have "\<not> IsSpace (fst (hd M)) \<and> \<not> IsSpace (fst (last M))" if ne: "M \<noteq> []"
  proof
    from ne have "D \<noteq> []" by (auto simp: M_def)
    then have "\<not> ?P (hd D)" unfolding D_def by (rule hd_dropWhile)
    moreover have "hd M = hd D" using ne by (simp add: M)
    ultimately show "\<not> IsSpace (fst (hd M))" by simp
    have "dropWhile ?P (rev D) \<noteq> []" using ne by (simp only: M_def rev_is_Nil_conv not_False_eq_True)
    then have "\<not> ?P (hd (dropWhile ?P (rev D)))" by (rule hd_dropWhile)
    then show "\<not> IsSpace (fst (last M))" by (simp add: M_def last_rev)
  qed
  then show ?thesis using seg by (intro TrimSpace_fixed) auto
qed

lemma HasPrefix_Cons: "HasPrefix s [c] \<longleftrightarrow> (\<exists>r. s = c # r)"
  by (cases s) (auto simp: HasPrefix_def)

lemma EqualFold_ascii_length:
  assumes "\<forall>c\<in>set s. byte c < 0x80" "EqualFoldASCII s t"
  shows "length s = length t"
  using arg_cong [where f = length, OF assms(2) [unfolded EqualFoldASCII_def]] runes_all_ascii [OF assms(1)]
  by simp

lemma b64_std_ascii: "c \<in> set b64_std \<Longrightarrow> byte c < 0x80 \<and> \<not> IsSpace (byte c)"
  by (auto simp: b64_std_def byte_def IsSpace_def)

lemma b64_nth_ascii: "n < 64 \<Longrightarrow> byte (b64_std ! n) < 0x80 \<and> \<not> IsSpace (byte (b64_std ! n))"
  using b64_std_ascii nth_mem [of n b64_std] b64_std_props(2) by metis

lemma StdEncode_ascii: "c \<in> set (StdEncode bs) \<Longrightarrow> byte c < 0x80 \<and> \<not> IsSpace (byte c)"
proof -
  have e: "byte (CHR ''='') < 0x80 \<and> \<not> IsSpace (byte (CHR ''=''))"
    by (simp add: byte_eq_sign IsSpace_def)
  have "c \<in> set (b64_encode b64_std True bs) \<Longrightarrow> byte c < 0x80 \<and> \<not> IsSpace (byte c)"
    using e b64_nth_ascii
    by (induction b64_std True bs rule: b64_encode.induct) (auto simp del: byte_def)
  then show "c \<in> set (StdEncode bs) \<Longrightarrow> ?thesis" by (simp add: StdEncode_def)
qed

lemma StdEncode_nonempty: "bs \<noteq> [] \<Longrightarrow> StdEncode bs \<noteq> []"
  by (simp add: StdEncode_Nil_iff)

lemma decodeGroupKey_Some: "decodeGroupKey arg = Some k \<Longrightarrow> \<exists>raw. length raw = 32 \<and> k = StdEncode raw"
  by (auto simp: decodeGroupKey_def groupIDLen_def split: option.splits if_splits)

lemma StdDecode_Encode [simp]: "StdDecode (StdEncode bs) = Some bs"
  by (simp add: StdDecode_def StdEncode_def b64_decode_encode b64_alphabets)

lemma decodeGroupKey_StdEncode: "length raw = 32 \<Longrightarrow> decodeGroupKey (StdEncode raw) = Some (StdEncode raw)"
  by (simp add: decodeGroupKey_def groupIDLen_def)

text \<open>Each form of a parsed target, printed and parsed again.\<close>

lemma parse_self: "ParseRecipient U ''self'' = Inr (noTarget\<lparr>tSelf := True\<rparr>)"
proof -
  have a: "\<forall>c\<in>set ''self''. byte c < 0x80" by (simp add: byte_def)
  have "TrimSpace ''self'' = ''self''"
    using a by (intro TrimSpace_ascii) (simp_all add: byte_def IsSpace_def)
  moreover have "EqualFoldASCII ''self'' ''self''"
    by (simp add: EqualFoldASCII_def byte_def fold_ascii_def ascii_lower_def)
  ultimately show ?thesis by (simp add: ParseRecipient_def parse_trimmed_def)
qed

lemma parse_group_text:
  assumes "length raw = 32"
  shows "ParseRecipient U (''group:'' @ StdEncode raw) = Inr (noTarget\<lparr>tGroupID := StdEncode raw\<rparr>)"
proof -
  let ?s = "''group:'' @ StdEncode raw"
  have ne: "StdEncode raw \<noteq> []" using assms by (intro StdEncode_nonempty) auto
  have g: "byte c < 0x80 \<and> \<not> IsSpace (byte c)" if "c \<in> set ''group:''" for c
    using that by (auto simp: byte_def IsSpace_def)
  have all: "byte c < 0x80 \<and> \<not> IsSpace (byte c)" if "c \<in> set ?s" for c
    using that g [of c] StdEncode_ascii [of c raw] unfolding set_append by blast
  have "TrimSpace ?s = ?s"
    using all ne by (intro TrimSpace_ascii ballI) (auto dest: hd_in_set last_in_set)
  moreover have "\<not> EqualFoldASCII ?s ''self''"
    using EqualFold_ascii_length [of ?s "''self''"] all by auto
  moreover have "HasPrefix ?s ''group:''" by (simp add: HasPrefix_def)
  ultimately show ?thesis
    by (simp add: ParseRecipient_def parse_trimmed_def parseGroup_def TrimPrefix_def
        decodeGroupKey_StdEncode [OF assms])
qed

lemma uuid_text_ascii: "uuid_text c \<Longrightarrow> byte c < 0x80 \<and> \<not> IsSpace (byte c)"
  by (auto simp: uuid_text_def IsSpace_def byte_def)

lemma parse_aci_text:
  assumes U: "uuid_laws U" and u: "length u = 16"
  shows "ParseRecipient U (uuid_String U u) = Inr (noTarget\<lparr>tRecipient := aciRecipient (uuid_String U u)\<rparr>)"
proof -
  let ?s = "uuid_String U u"
  have len: "length ?s = 36" and hex: "\<forall>c\<in>set ?s. uuid_text c" using uuid_laws_text [OF U u] by auto
  have all: "byte c < 0x80 \<and> \<not> IsSpace (byte c)" if "c \<in> set ?s" for c
    using that hex uuid_text_ascii by blast
  have ne: "?s \<noteq> []" using len by auto
  obtain c r where s: "?s = c # r" using ne by (cases ?s) auto
  have c: "uuid_text c" using hex s by simp
  then have "c \<noteq> CHR ''g''" "c \<noteq> CHR ''@''" "c \<noteq> CHR ''+''"
    by (auto simp: uuid_text_def byte_def)
  then have p: "\<not> HasPrefix ?s ''group:''" "\<not> HasPrefix ?s ''@''" "\<not> HasPrefix ?s ''+''"
    by (simp_all add: s HasPrefix_def)
  have "TrimSpace ?s = ?s"
    using all ne by (intro TrimSpace_ascii ballI) (auto dest: hd_in_set last_in_set)
  moreover have "\<not> EqualFoldASCII ?s ''self''"
    using EqualFold_ascii_length [of ?s "''self''"] all len by auto
  moreover have "length (uuid_String U uuid_Nil) = 36"
    using uuid_laws_text [OF U, of uuid_Nil] by (simp add: uuid_Nil_def)
  ultimately show ?thesis using p len uuid_laws_parse [OF U u]
    by (simp add: ParseRecipient_def parse_trimmed_def)
qed

lemma parse_trimmed_shapes:
  assumes "parse_trimmed U arg = Inr t"
  shows "t = noTarget\<lparr>tSelf := True\<rparr> \<or> (\<exists>raw. length raw = 32 \<and> t = noTarget\<lparr>tGroupID := StdEncode raw\<rparr>)
    \<or> (arg = CHR ''@'' # drop 1 arg \<and> drop 1 arg \<noteq> [] \<and> t = noTarget\<lparr>tRecipient := noRecipient\<lparr>rUsername := drop 1 arg\<rparr>\<rparr>)
    \<or> (arg \<noteq> [] \<and> t = noTarget\<lparr>tRecipient := noRecipient\<lparr>rNumber := arg\<rparr>\<rparr>)
    \<or> (\<exists>u. uuid_Parse U arg = Some u \<and> t = noTarget\<lparr>tRecipient := aciRecipient (uuid_String U u)\<rparr>)"
  using assms decodeGroupKey_Some
  by (auto simp: parse_trimmed_def parseGroup_def Let_def HasPrefix_Cons e164_def
      split: if_splits option.splits)

text \<open>C30: A recipient argument that parses gives a target whose printed form parses to that same
  target: what the program prints for a chat can be given back to it, and printing is canonical.\<close>

theorem ParseRecipient_roundtrip:
  assumes "uuid_laws U" and "ParseRecipient U arg = Inr t"
  shows "ParseRecipient U (Target_String t) = Inr t"
proof -
  let ?a = "TrimSpace arg"
  have p: "parse_trimmed U ?a = Inr t" using assms(2) by (simp add: ParseRecipient_def)
  have same: "ParseRecipient U ?a = Inr t" using p by (simp add: ParseRecipient_def TrimSpace_idem)
  have noT: "tRecipient noTarget = noRecipient" "tGroupID noTarget = []" "\<not> tSelf noTarget"
    by (simp_all add: noTarget_def)
  note S = Target_String_def Target_IsGroup_def Recipient_String_def noT
  from parse_trimmed_shapes [OF p] consider
      (self) "t = noTarget\<lparr>tSelf := True\<rparr>"
    | (group) raw where "length raw = 32" "t = noTarget\<lparr>tGroupID := StdEncode raw\<rparr>"
    | (user) "?a = CHR ''@'' # drop 1 ?a" "drop 1 ?a \<noteq> []" "t = noTarget\<lparr>tRecipient := noRecipient\<lparr>rUsername := drop 1 ?a\<rparr>\<rparr>"
    | (number) "?a \<noteq> []" "t = noTarget\<lparr>tRecipient := noRecipient\<lparr>rNumber := ?a\<rparr>\<rparr>"
    | (aci) u where "uuid_Parse U ?a = Some u" "t = noTarget\<lparr>tRecipient := aciRecipient (uuid_String U u)\<rparr>"
    by blast
  then show ?thesis
  proof cases
    case self
    then show ?thesis using parse_self by (simp add: S)
  next
    case group
    moreover have "StdEncode raw \<noteq> []" using group(1) by (intro StdEncode_nonempty) auto
    ultimately show ?thesis using parse_group_text [OF group(1)] by (simp add: S)
  next
    case user
    then have "Target_String t = ?a" by (simp add: S)
    then show ?thesis using same by simp
  next
    case number
    then have "Target_String t = ?a" by (simp add: S)
    then show ?thesis using same by simp
  next
    case aci
    have u: "length u = 16" using aci(1) by (rule uuid_laws_length [OF assms(1)])
    then have "Target_String t = uuid_String U u"
      using aci(2) uuid_String_nonempty [OF assms(1) u] by (simp add: S)
    then show ?thesis using parse_aci_text [OF assms(1) u] aci(2) by simp
  qed
qed

theorem ParseRecipient_roundtrip_witness:
  "\<exists>t. ParseRecipient plain_uuid ''self'' = Inr t \<and> ParseRecipient plain_uuid (Target_String t) = Inr t"
  using ParseRecipient_roundtrip [OF plain_uuid_laws parse_self] parse_self by blast

section \<open>Resolution keeps the world's invariants\<close>

context world_inv begin

lemma frames_markSelf_loop: "frames W (markSelf_loop C i own ts)"
proof (induction ts arbitrary: i own)
  case (Cons t ts)
  show ?case
    by (auto intro!: frame_intros frames_calls Cons split: option.split)
qed (simp add: frame_intros)

lemma frames_markSelf: "frames W (markSelf C ts)"
  unfolding markSelf_def by (rule frames_markSelf_loop)

lemma frames_resolveUsers: "frames W (resolveUsers C ts)"
  unfolding resolveUsers_def by (auto intro!: frame_intros frames_calls frames_markSelf)

lemma frames_ResolveRecipients: "frames W (ResolveRecipients U C args)"
  unfolding ResolveRecipients_def
  by (auto intro!: frame_intros frames_resolveUsers split: option.split prod.split)

lemma frames_resolveEntries: "frames W (resolveEntries C es)"
proof (induction es)
  case (Cons e es)
  have "W (world (snd (resolveEntries C (e # es) s))) \<and> allow (snd (resolveEntries C (e # es) s)) = allow s
      \<and> lastTimestamp (snd (resolveEntries C (e # es) s)) = lastTimestamp s" if w: "W (world s)" for s
  proof (cases "resolveUsers C [e] s")
    case (Pair r s')
    note D = framesD [OF frames_resolveUsers w Pair]
    have rest: "frames W (andThen (resolveEntries C es) (\<lambda>rest. ret (take 1 ts @ rest)))" for ts
      using Cons by (intro frame_intros)
    show ?thesis
      using D Pair Cons [unfolded frames_def, rule_format, OF D(1)]
        rest [unfolded frames_def, rule_format, OF D(1)]
      by (auto split: sum.split)
  qed
  then show ?case by (simp add: frames_def)
qed (simp add: frame_intros)

lemma frames_resolveList: "frames W (resolveList C l)"
  unfolding resolveList_def by (auto intro!: frame_intros frames_resolveEntries)

text \<open>Checking the allowlist changes nothing but the remembered entries of the list.\<close>

lemma checkAllowed_world:
  assumes "W (world s)" "checkAllowed C ts s = (r, s')"
  shows "W (world s')" "lastTimestamp s' = lastTimestamp s"
proof -
  have "W (world s') \<and> lastTimestamp s' = lastTimestamp s"
  proof (cases "allow s")
    case (Some l)
    obtain q s1 where q: "resolveList C l s = (q, s1)" by fastforce
    show ?thesis
      using framesD [OF frames_resolveList assms(1) q] assms Some q
      by (auto simp: checkAllowed_def andThen_def split: if_splits sum.splits prod.splits)
  qed (use assms in \<open>simp add: checkAllowed_def\<close>)
  then show "W (world s')" "lastTimestamp s' = lastTimestamp s" by simp_all
qed

end

section \<open>Resolution against a directory\<close>

text \<open>
  What is documented of the client's lookups: the account is the selected one, and a successful
  lookup returns the recipients in the same order, each as the directory of users has it.
\<close>

locale directory =
  fixes C :: "'c Client" and own :: Account and dir :: "Recipient \<Rightarrow> Recipient"
  assumes Account_own: "fst (clAccount C w) = Inr acc \<Longrightarrow> acc = own"
    and Resolve_dir: "fst (clResolve C rs w) = Inr rs' \<Longrightarrow> rs' = map dir rs"

definition resolveTarget :: "Account \<Rightarrow> (Recipient \<Rightarrow> Recipient) \<Rightarrow> Target \<Rightarrow> Target" where
  "resolveTarget own dir t =
    (if Target_IsGroup t then t
     else if isOwn t own then selfTarget own
     else if rACI (tRecipient t) = [] then t\<lparr>tRecipient := dir (tRecipient t)\<rparr> else t)"

definition markTarget :: "Account \<Rightarrow> Target \<Rightarrow> Target" where
  "markTarget own t = (if \<not> Target_IsGroup t \<and> isOwn t own then selfTarget own else t)"

definition needsLookup :: "Account \<Rightarrow> Target \<Rightarrow> bool" where
  "needsLookup own t \<longleftrightarrow> \<not> Target_IsGroup t \<and> \<not> isOwn t own \<and> rACI (tRecipient t) = []"

definition lookups :: "Account \<Rightarrow> nat \<Rightarrow> Target list \<Rightarrow> nat list" where
  "lookups own i ts = map fst (filter (\<lambda>(_, t). needsLookup own t) (enumerate i ts))"

lemma lookups_simps [simp]:
  "lookups own i [] = []"
  "lookups own i (t # ts) = (if needsLookup own t then [i] else []) @ lookups own (Suc i) ts"
  by (simp_all add: lookups_def)

text \<open>Assigning the looked-up recipients to the pending targets, for a suffix of the targets.\<close>

lemma assign_resolved_lookups:
  "assign_resolved (ps @ map (markTarget own) ts) (lookups own (length ps) ts)
     (map (\<lambda>i. dir (tRecipient ((ps @ map (markTarget own) ts) ! i))) (lookups own (length ps) ts))
   = Inr (ps @ map (resolveTarget own dir) ts)"
proof (induction ts arbitrary: ps)
  case (Cons t ts)
  have r: "resolveTarget own dir t = (if needsLookup own t then t\<lparr>tRecipient := dir (tRecipient t)\<rparr> else markTarget own t)"
    by (simp add: resolveTarget_def needsLookup_def markTarget_def)
  have idx: "i \<noteq> length ps" if "i \<in> set (lookups own (Suc (length ps)) ts)" for i
    using that by (auto simp: lookups_def enumerate_eq_zip dest!: set_zip_leftD)
  have m: "markTarget own t = t" if "needsLookup own t" using that by (simp add: needsLookup_def markTarget_def)
  let ?x = "resolveTarget own dir t"
  have IH: "assign_resolved ((ps @ [?x]) @ map (markTarget own) ts) (lookups own (Suc (length ps)) ts)
     (map (\<lambda>i. dir (tRecipient (((ps @ [?x]) @ map (markTarget own) ts) ! i))) (lookups own (Suc (length ps)) ts))
   = Inr ((ps @ [?x]) @ map (resolveTarget own dir) ts)"
    using Cons [of "ps @ [?x]"] by simp
  have "map (\<lambda>i. dir (tRecipient ((ps @ markTarget own t # map (markTarget own) ts) ! i))) (lookups own (Suc (length ps)) ts)
      = map (\<lambda>i. dir (tRecipient ((ps @ ?x # map (markTarget own) ts) ! i))) (lookups own (Suc (length ps)) ts)"
    using idx by (intro map_cong refl) (auto simp: nth_append nth_Cons')
  then show ?case using IH m r by (cases "needsLookup own t") (simp_all del: map_eq_conv)
qed simp

context directory begin

lemma markSelf_loop_D:
  assumes "markSelf_loop C i acc ts s = (Inr (ts', pending), s')" "\<forall>a. acc = Some a \<longrightarrow> a = own"
  shows "ts' = map (markTarget own) ts \<and> pending = lookups own i ts"
  using assms
proof (induction ts arbitrary: i acc s ts' pending s')
  case (Cons t ts)
  show ?case
  proof (cases "Target_IsGroup t")
    case True
    then show ?thesis using Cons.prems Cons.IH [of "Suc i" acc s]
      by (auto simp: andThen_def ret_def markTarget_def needsLookup_def split: prod.splits sum.splits)
  next
    case False
    from Cons.prems(1) False obtain a s1 where a: "(case acc of Some a \<Rightarrow> ret a | None \<Rightarrow> call (clAccount C)) s = (Inr a, s1)"
      and rest: "andThen (markSelf_loop C (Suc i) (Some a) ts) (\<lambda>(ts', pending).
         if isOwn t a then ret (selfTarget a # ts', pending)
         else if rACI (tRecipient t) = [] then ret (t # ts', i # pending)
         else ret (t # ts', pending)) s1 = (Inr (ts', pending), s')"
      by (auto simp: andThen_def split: prod.splits sum.splits)
    have "a = own"
      using a Cons.prems(2) Account_own [of "world s" a]
      by (auto simp: call_def ret_def split: option.splits prod.splits)
    with rest False show ?thesis using Cons.IH [of "Suc i" "Some own" s1]
      by (auto simp: andThen_def ret_def markTarget_def needsLookup_def split: prod.splits sum.splits if_splits)
  qed
qed (simp add: ret_def)

lemma resolveUsers_map:
  assumes "resolveUsers C ts s = (Inr ts', s')"
  shows "ts' = map (resolveTarget own dir) ts"
proof -
  obtain ms pending s1 where m: "markSelf C ts s = (Inr (ms, pending), s1)"
    using assms by (auto simp: resolveUsers_def andThen_def split: prod.splits sum.splits)
  then have ms: "ms = map (markTarget own) ts" and p: "pending = lookups own 0 ts"
    using markSelf_loop_D [of 0 None ts s ms pending s1] by (simp_all add: markSelf_def)
  note all = assign_resolved_lookups [of "[]" own ts dir, simplified]
  show ?thesis
  proof (cases "pending = []")
    case True
    then show ?thesis using assms m all p ms by (simp add: resolveUsers_def andThen_def ret_def)
  next
    case False
    then obtain rs where "fst (clResolve C (map (\<lambda>i. tRecipient (ms ! i)) pending) (world s1)) = Inr rs"
      and as: "assign_resolved ms pending rs = Inr ts'"
      using assms m by (auto simp: resolveUsers_def andThen_def call_def ofRes_def split: prod.splits sum.splits if_splits)
    then have "rs = map (\<lambda>i. dir (tRecipient (ms ! i))) pending" using Resolve_dir by fastforce
    then show ?thesis using as all ms p by simp
  qed
qed

lemma resolveEntries_D:
  assumes "resolveEntries C es s = (Inr rs, s')"
  shows "set rs \<subseteq> resolveTarget own dir ` set es"
  using assms
proof (induction es arbitrary: s rs s')
  case (Cons e es)
  show ?case
  proof (cases "resolveUsers C [e] s")
    case (Pair q s1)
    show ?thesis
    proof (cases q)
      case (Inl x)
      then show ?thesis using Cons Pair by (auto split: if_splits dest!: Cons.IH)
    next
      case (Inr ts)
      then have "ts = [resolveTarget own dir e]" using resolveUsers_map Pair by fastforce
      then show ?thesis using Cons Pair Inr
        by (auto simp: andThen_def ret_def split: prod.splits sum.splits dest!: Cons.IH)
    qed
  qed
qed (simp add: ret_def)

end

lemma directory_logging: "directory C own dir \<Longrightarrow> directory (logging C) own dir"
  by (unfold directory_def) (auto simp: logging_def)

text \<open>A client whose calls all succeed: its clock stands still, and the directory knows everybody
  as one user.\<close>

definition demoAccount :: Account where
  "demoAccount = \<lparr>accNumber = ''+4912345'', accACI = demoUser 6, accPNI = [], accDeviceID = 2,
     accDeviceName = [], accLinkedAt = 0, accLastSync = 0, accUnlinkedAt = time_zero\<rparr>"

definition demoDir :: "Recipient \<Rightarrow> Recipient" where
  "demoDir r = r\<lparr>rACI := demoUser 2\<rparr>"

definition demoSent :: "SendRequest \<Rightarrow> ClientSendResult" where
  "demoSent req = \<lparr>csTimestamp = sqTimestamp req,
     csResults = map (\<lambda>r. \<lparr>rrRecipient = r, rrUnidentified = True, rrErr = None\<rparr>) (sqRecipients req),
     csSyncErr = None\<rparr>"

definition demoClient :: "unit Client" where
  "demoClient = \<lparr>clNow = (\<lambda>w. (1700000000000 * 1000000, w)), clAccount = (\<lambda>w. (Inr demoAccount, w)),
     clConnectSendOnly = (\<lambda>w. (None, w)), clResolve = (\<lambda>rs w. (Inr (map demoDir rs), w)),
     clUpload = (\<lambda>a w. (Inr [], w)), clFetchSticker = (\<lambda>r w. (Inl (Sentinel ErrClosed), w)),
     clSend = (\<lambda>req w. (Inr (demoSent req), w)), clSendReceipt = (\<lambda>r t ts w. (None, w)),
     clReservePollVote = (\<lambda>r w. (Inr 1, w)), clPollProjection = (\<lambda>r w. (Inl (Sentinel ErrClosed), w)),
     clGroup = (\<lambda>g w. (Inr demoGroup, w)), clInboxAdd = (\<lambda>e w. (Inr e, w)),
     clInboxList = (\<lambda>q w. (Inr [], w)), clInboxChats = (\<lambda>w. (Inr [], w)),
     clInboxMarkRead = (\<lambda>m w. (Inr (length m), w)), clInboxPrune = (\<lambda>t k w. (Inr 0, w))\<rparr>"

definition demoApp :: "unit App" where
  "demoApp = \<lparr>world = (), lastTimestamp = 0, allow = None\<rparr>"

interpretation demo_dir: directory demoClient demoAccount demoDir
  by unfold_locales (simp_all add: demoClient_def)

section \<open>Resolving recipient arguments\<close>

lemma dedupe_loop_firsts: "dedupe_loop ts seen = firsts dedupeKey ts seen"
  by (induction ts arbitrary: seen) auto

lemma firsts_subseq: "subseq (firsts k xs seen) xs"
  by (induction xs arbitrary: seen) auto

lemma parse_all_D:
  assumes "parse_all U args = (ps, [])"
  shows "list_all2 (\<lambda>a p. ParseRecipient U a = Inr p) args ps"
  using assms
proof (induction args arbitrary: ps)
  case (Cons a args)
  then show ?case by (cases "parse_all U args") (auto split: sum.splits)
qed simp

lemma ParseRecipient_error: "ParseRecipient U a = Inl e \<Longrightarrow> errors_Is e ErrInvalidRecipient"
  by (auto simp: ParseRecipient_def parse_trimmed_def parseGroup_def invalidRecipient_def Let_def
      split: if_splits option.splits)

lemma parse_all_errors:
  assumes "parse_all U args = (ps, es)"
  shows "(es \<noteq> [] \<longleftrightarrow> (\<exists>a\<in>set args. \<not> isOk (ParseRecipient U a)))
    \<and> (\<forall>e\<in>set es. errors_Is e ErrInvalidRecipient)"
  using assms
proof (induction args arbitrary: ps es)
  case (Cons a args)
  obtain ps' es' where p: "parse_all U args = (ps', es')" by fastforce
  show ?case using Cons.prems Cons.IH [OF p] ParseRecipient_error [of U a] p
    by (auto split: sum.splits)
qed simp

lemma resolveTarget_ACI:
  "accACI own \<noteq> [] \<Longrightarrow> (\<And>r. rACI (dir r) \<noteq> []) \<Longrightarrow> \<not> Target_IsGroup (resolveTarget own dir t)
   \<Longrightarrow> rACI (tRecipient (resolveTarget own dir t)) \<noteq> []"
  by (auto simp: resolveTarget_def selfTarget_def split: if_splits)

lemma ResolveRecipients_D:
  assumes "directory C own dir" "ResolveRecipients U C args s = (Inr ts, s')"
  obtains ps where "list_all2 (\<lambda>a p. ParseRecipient U a = Inr p) args ps"
    and "ts = dedupe (map (resolveTarget own dir) ps)"
proof -
  obtain ps es where p: "parse_all U args = (ps, es)" by fastforce
  then have es: "es = []" using assms(2)
    by (auto simp: ResolveRecipients_def errors_Join_def fail_def split: if_splits)
  then obtain ts' where "resolveUsers C ps s = (Inr ts', s')" "ts = dedupe ts'"
    using assms(2) p
    by (auto simp: ResolveRecipients_def andThen_def wrapping_def ret_def split: sum.splits prod.splits)
  then show thesis
    using that parse_all_D [of U args ps] directory.resolveUsers_map [OF assms(1)] p es by metis
qed

text \<open>C31: With any argument that does not parse, resolving recipients asks the client nothing and
  fails with the error for invalid recipients. When it succeeds, every argument parsed, and the
  targets are what the arguments resolve to in the directory, in their order, with our own number
  and ACI turned into note-to-self and only the first of those that name the same group or user;
  every user has an ACI when the directory and our account have one.\<close>

theorem ResolveRecipients_spec:
  assumes "directory C own dir"
  shows "((\<exists>a\<in>set args. \<not> isOk (ParseRecipient U a)) \<longrightarrow>
      (\<exists>e. ResolveRecipients U C args s = (Inl e, s) \<and> errors_Is e ErrInvalidRecipient))
    \<and> (\<forall>ts s'. ResolveRecipients U C args s = (Inr ts, s') \<longrightarrow>
      (\<exists>ps. list_all2 (\<lambda>a p. ParseRecipient U a = Inr p) args ps
         \<and> subseq ts (map (resolveTarget own dir) ps) \<and> distinct (map dedupeKey ts)
         \<and> dedupeKey ` set ts = dedupeKey ` resolveTarget own dir ` set ps
         \<and> ((\<forall>r. rACI (dir r) \<noteq> []) \<and> accACI own \<noteq> [] \<longrightarrow>
              (\<forall>t\<in>set ts. Target_IsGroup t \<or> rACI (tRecipient t) \<noteq> []))))"
proof (intro conjI impI allI)
  assume bad: "\<exists>a\<in>set args. \<not> isOk (ParseRecipient U a)"
  obtain ps es where p: "parse_all U args = (ps, es)" by fastforce
  then have "es \<noteq> []" "\<forall>e\<in>set es. errors_Is e ErrInvalidRecipient"
    using parse_all_errors [OF p] bad by auto
  then show "\<exists>e. ResolveRecipients U C args s = (Inl e, s) \<and> errors_Is e ErrInvalidRecipient"
    using p by (cases es) (auto simp: ResolveRecipients_def errors_Join_def fail_def list_ex_iff)
next
  fix ts s' assume "ResolveRecipients U C args s = (Inr ts, s')"
  then obtain ps where ps: "list_all2 (\<lambda>a p. ParseRecipient U a = Inr p) args ps"
    and ts: "ts = dedupe (map (resolveTarget own dir) ps)"
    by (rule ResolveRecipients_D [OF assms])
  have sub: "set ts \<subseteq> resolveTarget own dir ` set ps"
    using firsts_sub [of dedupeKey "map (resolveTarget own dir) ps" "[]"] by (simp add: ts dedupe_def dedupe_loop_firsts)
  then have "(\<forall>r. rACI (dir r) \<noteq> []) \<and> accACI own \<noteq> [] \<longrightarrow> (\<forall>t\<in>set ts. Target_IsGroup t \<or> rACI (tRecipient t) \<noteq> [])"
    using resolveTarget_ACI [of own dir] by blast
  then show "\<exists>ps. list_all2 (\<lambda>a p. ParseRecipient U a = Inr p) args ps
         \<and> subseq ts (map (resolveTarget own dir) ps) \<and> distinct (map dedupeKey ts)
         \<and> dedupeKey ` set ts = dedupeKey ` resolveTarget own dir ` set ps
         \<and> ((\<forall>r. rACI (dir r) \<noteq> []) \<and> accACI own \<noteq> [] \<longrightarrow>
              (\<forall>t\<in>set ts. Target_IsGroup t \<or> rACI (tRecipient t) \<noteq> []))"
    using ps firsts_subseq [of dedupeKey "map (resolveTarget own dir) ps" "[]"]
      firsts_distinct [of dedupeKey "map (resolveTarget own dir) ps" "[]"] firsts_keys [of dedupeKey "map (resolveTarget own dir) ps" "[]"]
    by (intro exI [of _ ps]) (simp add: ts dedupe_def dedupe_loop_firsts)
qed

theorem ResolveRecipients_spec_witness:
  "\<exists>ts. ResolveRecipients plain_uuid demoClient [''self'', ''self''] demoApp = (Inr ts, demoApp)
     \<and> distinct (map dedupeKey ts)"
proof -
  have r: "ResolveRecipients plain_uuid demoClient [''self'', ''self''] demoApp = (Inr [selfTarget demoAccount], demoApp)"
    by (simp add: ResolveRecipients_def parse_self resolveUsers_def markSelf_def action_defs noTarget_def
        Target_IsGroup_def isOwn_def demoClient_def demoApp_def dedupe_def)
  from ResolveRecipients_spec [OF demo_dir.directory_axioms, of "[''self'', ''self'']" plain_uuid demoApp] r
  show ?thesis by auto
qed

end
