(* ===== verification/Content.thy ===== *)
theory Content
  imports Recipients
begin

text \<open>
  The content of a message as the application layer reads it from a request: internal/app/content.go
  (message references, mentions, attachments, the resolution of quote authors and mentioned users),
  styles.go (style arguments) and checkEmoji of react.go. The file system, the MIME tables, the image
  decoders and the Unicode tables of letters and printable characters are parameters.
\<close>

section \<open>Message references (content.go)\<close>

definition parseTimestamp :: "string \<Rightarrow> u64 res" where
  "parseTimestamp arg = (case ParseUint 64 (TrimSpace arg) of
     None \<Rightarrow> Inl (Sentinel ErrBadTimestamp)
   | Some n \<Rightarrow> if n = 0 then Inl (Sentinel ErrBadTimestamp) else Inr (of_nat n))"

definition parseMessageRef :: "uuid_lib \<Rightarrow> string \<Rightarrow> sentinel \<Rightarrow> (Target \<times> u64) res" where
  "parseMessageRef U arg kind = (case LastIndexByte arg (CHR '':'') of
     None \<Rightarrow> Inl (Wrap ''want <author>:<timestamp>'' [Sentinel kind])
   | Some i \<Rightarrow> (case parseTimestamp (drop (i + 1) arg) of
       Inl e \<Rightarrow> Inl (Wrap '''' [Sentinel kind, e])
     | Inr timestamp \<Rightarrow> (case ParseRecipient U (take i arg) of
         Inl e \<Rightarrow> Inl (Wrap '''' [Sentinel kind, e])
       | Inr author \<Rightarrow>
           if Target_IsGroup author then Inl (Wrap ''the author must be a user'' [Sentinel kind])
           else Inr (author, timestamp))))"

definition ParseQuote :: "uuid_lib \<Rightarrow> string \<Rightarrow> (Target \<times> u64) res" where
  "ParseQuote U arg = parseMessageRef U arg ErrInvalidQuote"

text \<open>react.go\<close>

definition ParseTarget :: "uuid_lib \<Rightarrow> string \<Rightarrow> (Target \<times> u64) res" where
  "ParseTarget U arg = parseMessageRef U arg ErrInvalidTarget"

section \<open>Mentions (content.go)\<close>

record mention =
  mnStart :: u32
  mnTarget :: Target

definition mentionPlaceholder :: string where
  "mentionPlaceholder = [CHR 0xEF, CHR 0xBF, CHR 0xBC]"

definition utf16Len :: "string \<Rightarrow> int" where
  "utf16Len s = sum_list (map utf16_RuneLen (runes s))"

text \<open>The regular expression of a mention: an at sign, an opening brace, one or more characters other
  than braces and white space (tab, newline, form feed, carriage return, space), a closing brace.
  All of these are ASCII, so that matching bytes is matching characters. \<open>split_mentions\<close> gives the
  leftmost matches: the text before each and what is between the braces, and the text after the
  last.\<close>

definition mentionChar :: "char \<Rightarrow> bool" where
  "mentionChar c \<longleftrightarrow> c \<noteq> CHR ''{'' \<and> c \<noteq> CHR ''}'' \<and> byte c \<notin> {9, 10, 12, 13, 32}"

definition mention_at :: "string \<Rightarrow> (string \<times> string) option" where
  "mention_at s = (case s of
     a # b # r \<Rightarrow>
       if a = CHR ''@'' \<and> b = CHR ''{'' \<and> takeWhile mentionChar r \<noteq> []
       then (case dropWhile mentionChar r of
               c # rest \<Rightarrow> if c = CHR ''}'' then Some (takeWhile mentionChar r, rest) else None
             | [] \<Rightarrow> None)
       else None
   | _ \<Rightarrow> None)"

lemma mention_at_Some:
  assumes "mention_at s = Some (inner, rest)"
  shows "s = [CHR ''@'', CHR ''{''] @ inner @ CHR ''}'' # rest"
proof -
  obtain r where s: "s = CHR ''@'' # CHR ''{'' # r" and "dropWhile mentionChar r = CHR ''}'' # rest"
    and "inner = takeWhile mentionChar r"
    using assms by (auto simp: mention_at_def split: list.splits if_splits)
  then show ?thesis by (metis append_Cons append_Nil takeWhile_dropWhile_id)
qed

lemma mention_at_shorter: "mention_at s = Some (inner, rest) \<Longrightarrow> length rest < length s"
  by (drule mention_at_Some) simp

function split_mentions :: "string \<Rightarrow> (string \<times> string) list \<times> string" where
  "split_mentions s = (case mention_at s of
     Some (inner, rest) \<Rightarrow> (case split_mentions rest of (ms, tail) \<Rightarrow> (([], inner) # ms, tail))
   | None \<Rightarrow> (case s of
       [] \<Rightarrow> ([], [])
     | c # r \<Rightarrow> (case split_mentions r of
         ([], tail) \<Rightarrow> ([], c # tail)
       | ((before, inner) # ms, tail) \<Rightarrow> ((c # before, inner) # ms, tail))))"
  by auto
termination
  by (relation "measure length") (auto dest: mention_at_shorter)

declare split_mentions.simps [simp del]

text \<open>The loop over the matches: \<open>kept\<close> is the text since the end of the last mention, \<open>out\<close> the new
  body so far, \<open>units\<close> its length.\<close>

definition matchText :: "string \<Rightarrow> string" where
  "matchText inner = [CHR ''@'', CHR ''{''] @ inner @ ''}''"

fun mentions_loop ::
  "uuid_lib \<Rightarrow> (string \<times> string) list \<Rightarrow> string \<Rightarrow> string \<Rightarrow> string \<Rightarrow> int \<Rightarrow> mention list
   \<Rightarrow> string \<times> mention list" where
  "mentions_loop U [] tail kept out units ms = (out @ kept @ tail, ms)"
| "mentions_loop U ((before, inner) # rest) tail kept out units ms =
    (case ParseRecipient U inner of
       Inr target \<Rightarrow>
         if Target_IsGroup target
         then mentions_loop U rest tail (kept @ before @ matchText inner) out units ms
         else (let units' = units + utf16Len (kept @ before) in
           mentions_loop U rest tail [] (out @ kept @ before @ mentionPlaceholder) (units' + 1)
             (ms @ [\<lparr>mnStart = of_int units', mnTarget = target\<rparr>]))
     | Inl _ \<Rightarrow> mentions_loop U rest tail (kept @ before @ matchText inner) out units ms)"

definition parseMentions :: "uuid_lib \<Rightarrow> string \<Rightarrow> string \<times> mention list" where
  "parseMentions U body = (case split_mentions body of (matches, tail) \<Rightarrow>
     if matches = [] then (body, []) else mentions_loop U matches tail [] [] 0 [])"

section \<open>Styles (styles.go)\<close>

definition parseStyle :: "string \<Rightarrow> TextStyle res" where
  "parseStyle arg = (case SplitByte (CHR '':'') arg of
     [start, len, style] \<Rightarrow>
       (case (ParseUint 32 start, ParseUint 32 len) of
          (Some s, Some l) \<Rightarrow> Inr \<lparr>tsStart = of_nat s, tsLength = of_nat l, tsStyle = ToLower style\<rparr>
        | _ \<Rightarrow> Inl (Wrap ''offsets must be unsigned 32-bit integers'' [Sentinel ErrInvalidStyle]))
   | _ \<Rightarrow> Inl (Wrap ''want start:length:STYLE'' [Sentinel ErrInvalidStyle]))"

fun parse_style_list :: "string list \<Rightarrow> TextStyle list res" where
  "parse_style_list [] = Inr []"
| "parse_style_list (arg # args) = (case parseStyle arg of
     Inl e \<Rightarrow> Inl e
   | Inr st \<Rightarrow> (case parse_style_list args of Inl e \<Rightarrow> Inl e | Inr sts \<Rightarrow> Inr (st # sts)))"

definition parseStyles :: "uuid_lib \<Rightarrow> string \<Rightarrow> string list \<Rightarrow> TextStyle list res" where
  "parseStyles U body args =
    (if args = [] then Inr []
     else if TrimSpace body = []
     then Inl (Wrap ''styles need non-blank message text'' [Sentinel ErrInvalidStyle])
     else case parse_style_list args of
       Inl e \<Rightarrow> Inl e
     | Inr styles \<Rightarrow> (case CheckTextStyles (fst (parseMentions U body)) styles of
         Some e \<Rightarrow> Inl e | None \<Rightarrow> Inr styles))"

section \<open>Emoji (react.go)\<close>

record unicode_lib =
  unicode_IsLetter :: "nat \<Rightarrow> bool"
  unicode_IsPrint :: "nat \<Rightarrow> bool"

definition maxEmojiRunes :: nat where "maxEmojiRunes = 16"

definition emojiRune :: "unicode_lib \<Rightarrow> nat \<Rightarrow> bool" where
  "emojiRune T r \<longleftrightarrow> r = 0x200D \<or> (0xE0020 \<le> r \<and> r \<le> 0xE007F)
     \<or> \<not> (unicode_IsLetter T r \<or> IsSpace r \<or> \<not> unicode_IsPrint T r)"

definition checkEmoji :: "unicode_lib \<Rightarrow> string \<Rightarrow> err option" where
  "checkEmoji T emoji =
    (if emoji = [] then Some (Wrap ''it is empty'' [Sentinel ErrInvalidEmoji])
     else if RuneCountInString emoji > maxEmojiRunes
     then Some (Wrap ''want a single emoji'' [Sentinel ErrInvalidEmoji])
     else if \<not> list_all (emojiRune T) (runes emoji)
     then Some (Wrap ''want a single emoji'' [Sentinel ErrInvalidEmoji])
     else if \<not> list_ex (\<lambda>r. r > 127) (runes emoji)
     then Some (Wrap ''want a single emoji'' [Sentinel ErrInvalidEmoji])
     else None)"

section \<open>Attachments (content.go)\<close>

definition MaxAttachmentSize :: nat where "MaxAttachmentSize = 100 * 2 ^ 20"

text \<open>What the code uses of the file system and the libraries: a file is regular or not and has a
  size; reading gives its content. \<open>os.Root\<close> opens files below a directory only.\<close>

record file_lib =
  os_Stat :: "string \<Rightarrow> (bool \<times> nat) res"
  os_Read :: "string \<Rightarrow> bytes res"
  path_Abs :: "string \<Rightarrow> string res"
  path_IsAbs :: "string \<Rightarrow> bool"
  path_Rel :: "string \<Rightarrow> string \<Rightarrow> string option"
  path_IsLocal :: "string \<Rightarrow> bool"
  path_Join :: "string \<Rightarrow> string \<Rightarrow> string"
  path_Base :: "string \<Rightarrow> string"
  path_Ext :: "string \<Rightarrow> string"
  os_OpenRoot :: "string \<Rightarrow> err option"
  root_Stat :: "string \<Rightarrow> string \<Rightarrow> (bool \<times> nat) res"
  root_Read :: "string \<Rightarrow> string \<Rightarrow> bytes res"
  DetectContentType :: "bytes \<Rightarrow> string"
  TypeByExtension :: "string \<Rightarrow> string"
  ParseMediaType :: "string \<Rightarrow> string option"
  img_DecodeConfig :: "bytes \<Rightarrow> (int \<times> int) option"

text \<open>The interface \<open>fileOpener\<close> and its two implementations.\<close>

record fileOpener =
  fo_Stat :: "string \<Rightarrow> (bool \<times> nat) res"
  fo_Open :: "string \<Rightarrow> bytes res"

definition osFiles :: "file_lib \<Rightarrow> fileOpener" where
  "osFiles F = \<lparr>fo_Stat = os_Stat F, fo_Open = os_Read F\<rparr>"

definition outsideDir :: err where
  "outsideDir = Wrap ''outside the attachment directory'' [Sentinel ErrOutsideAttachDir]"

definition attachDir_local :: "file_lib \<Rightarrow> string \<Rightarrow> string \<Rightarrow> string res" where
  "attachDir_local F dir name =
    (case (if path_IsAbs F name then path_Rel F dir name else Some name) of
       None \<Rightarrow> Inl outsideDir
     | Some rel \<Rightarrow> if \<not> path_IsLocal F rel then Inl outsideDir else Inr rel)"

definition attachDir_Stat :: "file_lib \<Rightarrow> string \<Rightarrow> string \<Rightarrow> (bool \<times> nat) res" where
  "attachDir_Stat F dir name = (case attachDir_local F dir name of
     Inl e \<Rightarrow> Inl e
   | Inr rel \<Rightarrow> (case root_Stat F dir rel of
       Inr info \<Rightarrow> Inr info
     | Inl e \<Rightarrow> (case os_Stat F (path_Join F dir rel) of Inr _ \<Rightarrow> Inl outsideDir | Inl _ \<Rightarrow> Inl e)))"

definition attachDir_Open :: "file_lib \<Rightarrow> string \<Rightarrow> string \<Rightarrow> bytes res" where
  "attachDir_Open F dir name = (case attachDir_local F dir name of
     Inl e \<Rightarrow> Inl e | Inr rel \<Rightarrow> root_Read F dir rel)"

definition openAttachDir :: "file_lib \<Rightarrow> string \<Rightarrow> fileOpener res" where
  "openAttachDir F dir = (case path_Abs F dir of
     Inl e \<Rightarrow> Inl (Wrap ''attachment directory'' [e])
   | Inr root \<Rightarrow> (case os_OpenRoot F root of
       Some e \<Rightarrow> Inl (Wrap ''attachment directory'' [e])
     | None \<Rightarrow> Inr \<lparr>fo_Stat = attachDir_Stat F root, fo_Open = attachDir_Open F root\<rparr>))"

definition baseType :: "file_lib \<Rightarrow> string \<Rightarrow> string" where
  "baseType F ct = (case ParseMediaType F ct of None \<Rightarrow> [] | Some t \<Rightarrow> t)"

definition contentType :: "file_lib \<Rightarrow> string \<Rightarrow> bytes \<Rightarrow> string" where
  "contentType F path data =
    (let sniffed = baseType F (DetectContentType F data);
         byExt = baseType F (TypeByExtension F (path_Ext F path))
     in if sniffed \<in> {''application/octet-stream'', ''text/plain'', ''application/zip''} \<and> byExt \<noteq> []
        then byExt else sniffed)"

text \<open>Reading stops after one byte more than the limit.\<close>

definition readFile :: "fileOpener \<Rightarrow> string \<Rightarrow> bytes res" where
  "readFile files path = (case fo_Open files path of
     Inl e \<Rightarrow> Inl e
   | Inr content \<Rightarrow> (let data = take (MaxAttachmentSize + 1) content in
       if length data > MaxAttachmentSize then Inl (Sentinel ErrAttachmentTooLarge) else Inr data))"

definition loadAttachment :: "file_lib \<Rightarrow> fileOpener \<Rightarrow> string \<Rightarrow> OutgoingAttachment res" where
  "loadAttachment F files path = (case fo_Stat files path of
     Inl e \<Rightarrow> Inl (Wrap ''attachment'' [e])
   | Inr (regular, sz) \<Rightarrow>
       if \<not> regular then Inl (Wrap ''attachment'' [Sentinel ErrNotAFile])
       else if sz > MaxAttachmentSize then Inl (Wrap ''attachment'' [Sentinel ErrAttachmentTooLarge])
       else case readFile files path of
         Inl e \<Rightarrow> Inl (Wrap ''attachment'' [e])
       | Inr data \<Rightarrow>
           (let ct = contentType F path data;
                dims = (if HasPrefix ct ''image/'' then
                          (case img_DecodeConfig F data of
                             Some (w, h) \<Rightarrow> if w > 0 \<and> h > 0 then (of_int w, of_int h) else (0, 0)
                           | None \<Rightarrow> (0, 0))
                        else (0, 0))
            in Inr \<lparr>oaData = data, oaContentType = ct, oaFilename = path_Base F path,
                 oaWidth = fst dims, oaHeight = snd dims\<rparr>))"

fun load_all :: "file_lib \<Rightarrow> fileOpener \<Rightarrow> string list \<Rightarrow> OutgoingAttachment list \<times> err list" where
  "load_all F files [] = ([], [])"
| "load_all F files (path # paths) = (let (out, errs) = load_all F files paths in
     case loadAttachment F files path of Inl e \<Rightarrow> (out, e # errs) | Inr att \<Rightarrow> (att # out, errs))"

definition loadAttachments :: "file_lib \<Rightarrow> string \<Rightarrow> string list \<Rightarrow> OutgoingAttachment list res" where
  "loadAttachments F dir paths =
    (case (if dir \<noteq> [] \<and> paths \<noteq> [] then openAttachDir F dir else Inr (osFiles F)) of
       Inl e \<Rightarrow> Inl e
     | Inr files \<Rightarrow> (case load_all F files paths of (out, errs) \<Rightarrow>
         (case errors_Join errs of Some e \<Rightarrow> Inl e | None \<Rightarrow> Inr out)))"

section \<open>Facts on mentions\<close>

lemma split_mentions_concat:
  "split_mentions s = (ms, rest) \<Longrightarrow> s = concat (map (\<lambda>(b, i). b @ matchText i) ms) @ rest"
proof (induction s arbitrary: ms rest rule: split_mentions.induct)
  case (1 s)
  show ?case
  proof (cases "mention_at s")
    case (Some x)
    obtain inner rst where x: "x = (inner, rst)" by fastforce
    obtain ms' rest' where sp: "split_mentions rst = (ms', rest')" by fastforce
    show ?thesis
      using "1.prems" "1.IH"(2) [OF Some x [symmetric] sp] Some x sp mention_at_Some [of s inner rst]
      by (auto simp: split_mentions.simps [of s] matchText_def)
  next
    case None
    show ?thesis
    proof (cases s)
      case (Cons c r)
      obtain ms' rest' where sp: "split_mentions r = (ms', rest')" by fastforce
      have "r = concat (map (\<lambda>(b, i). b @ matchText i) ms') @ rest'"
        using "1.IH"(1) [OF None Cons sp] .
      moreover have "(ms, rest) = (case ms' of [] \<Rightarrow> ([], c # rest') | (b, i) # q \<Rightarrow> ((c # b, i) # q, rest'))"
        using "1.prems" None Cons sp by (auto simp: split_mentions.simps [of "c # r"] split: list.splits prod.splits)
      ultimately show ?thesis using Cons by (cases ms') auto
    qed (use "1.prems" None in \<open>simp add: split_mentions.simps [of "[]"]\<close>)
  qed
qed

lemma segments_placeholder: "segments (mentionPlaceholder @ p) = (0xFFFC, mentionPlaceholder) # segments p"
  by (simp add: mentionPlaceholder_def decode_defs byte_def cont_in_def)

text \<open>A text with a placeholder after each part.\<close>

definition enclosed :: "string list \<Rightarrow> string" where
  "enclosed ps = concat (map (\<lambda>p. p @ mentionPlaceholder) ps)"

definition enclosedLen :: "string list \<Rightarrow> int" where
  "enclosedLen ps = sum_list (map (\<lambda>p. utf16Len p + 1) ps)"

lemma utf16Len_placeholder: "utf16Len (q @ mentionPlaceholder @ p) = utf16Len q + 1 + utf16Len p"
proof -
  have "RuneStart (hd (mentionPlaceholder @ p))"
    by (simp add: mentionPlaceholder_def RuneStart_def byte_def)
  then show ?thesis
    by (simp add: utf16Len_def runes_def segments_append segments_placeholder utf16_RuneLen_def)
qed

lemma utf16Len_enclosed: "utf16Len (enclosed ps @ p) = enclosedLen ps + utf16Len p"
  by (induction ps) (simp_all add: enclosed_def enclosedLen_def utf16Len_placeholder)

lemma utf16Len_nonneg: "0 \<le> utf16Len s"
  using segments_scalar [of _ _ s] utf16_RuneLen_scalar
  by (fastforce simp: utf16Len_def runes_def intro!: sum_list_nonneg)

definition mentionsAt ::
  "uuid_lib \<Rightarrow> string list \<Rightarrow> string list \<Rightarrow> string list \<Rightarrow> mention list \<Rightarrow> bool" where
  "mentionsAt U ps parts inners ms \<longleftrightarrow> length parts = length ms \<and> length inners = length ms
     \<and> (\<forall>k<length ms. ParseRecipient U (inners ! k) = Inr (mnTarget (ms ! k)) \<and> \<not> Target_IsGroup (mnTarget (ms ! k))
          \<and> mnStart (ms ! k) = of_int (utf16Len (enclosed (ps @ take k parts) @ parts ! k)))"

lemma mentionsAt_Cons:
  assumes "ParseRecipient U i = Inr t" "\<not> Target_IsGroup t" "mentionsAt U (ps @ [p]) parts inners ms"
  shows "mentionsAt U ps (p # parts) (i # inners)
    (\<lparr>mnStart = of_int (enclosedLen ps + utf16Len p), mnTarget = t\<rparr> # ms)"
  using assms by (auto simp: mentionsAt_def nth_Cons less_Suc_eq_0_disj utf16Len_enclosed split: nat.splits)

lemma mentions_loop_D:
  assumes "mentions_loop U pieces rest kept (enclosed ps) (enclosedLen ps) ms = (b, ms')"
  obtains parts inners new rest' where "ms' = ms @ new" "mentionsAt U ps parts inners new"
    "b = enclosed (ps @ parts) @ rest'"
    "kept @ concat (map (\<lambda>(b, i). b @ matchText i) pieces) @ rest
       = concat (map2 (\<lambda>p i. p @ matchText i) parts inners) @ rest'"
proof -
  have "\<exists>parts inners new rest'. ms' = ms @ new \<and> mentionsAt U ps parts inners new
    \<and> b = enclosed (ps @ parts) @ rest'
    \<and> kept @ concat (map (\<lambda>(b, i). b @ matchText i) pieces) @ rest
       = concat (map2 (\<lambda>p i. p @ matchText i) parts inners) @ rest'"
    using assms
  proof (induction pieces arbitrary: kept ps ms)
    case Nil
    then show ?case
      by (intro exI [of _ "[]"] exI [of _ "kept @ rest"]) (auto simp: mentionsAt_def)
  next
    case (Cons x pieces)
    obtain before inner where x: "x = (before, inner)" by fastforce
    show ?case
    proof (cases "\<exists>t. ParseRecipient U inner = Inr t \<and> \<not> Target_IsGroup t")
      case False
      then have "mentions_loop U pieces rest (kept @ before @ matchText inner) (enclosed ps) (enclosedLen ps) ms = (b, ms')"
        using Cons.prems x by (auto split: sum.splits if_splits)
      from Cons.IH [OF this] show ?thesis by (simp add: x)
    next
      case True
      then obtain t where t: "ParseRecipient U inner = Inr t" "\<not> Target_IsGroup t" by blast
      let ?p = "kept @ before"
      let ?m = "\<lparr>mnStart = of_int (enclosedLen ps + utf16Len ?p), mnTarget = t\<rparr>"
      have "mentions_loop U pieces rest [] (enclosed (ps @ [?p])) (enclosedLen (ps @ [?p])) (ms @ [?m]) = (b, ms')"
        using Cons.prems t x by (simp add: Let_def enclosed_def enclosedLen_def add.assoc)
      from Cons.IH [OF this] obtain parts inners new rest' where
        "ms' = ms @ ?m # new" "mentionsAt U (ps @ [?p]) parts inners new" "b = enclosed (ps @ ?p # parts) @ rest'"
        "concat (map (\<lambda>(b, i). b @ matchText i) pieces) @ rest
           = concat (map2 (\<lambda>p i. p @ matchText i) parts inners) @ rest'"
        by auto
      then show ?thesis using mentionsAt_Cons [OF t, of ps ?p parts inners new]
        by (intro exI [of _ "?p # parts"] exI [of _ "inner # inners"] exI [of _ "?m # new"] exI [of _ rest'])
          (simp add: x)
    qed
  qed
  then show thesis using that by blast
qed

lemma enclosed_Nil [simp]: "enclosed [] = []" "enclosedLen [] = 0"
  by (simp_all add: enclosed_def enclosedLen_def)

text \<open>C32: The body is cut into parts with a mention after each: in the new body each mention became
  one U+FFFC and everything else stayed as it was; each mention names the user its text parses to,
  and starts at the number of UTF-16 code units before its placeholder, as long as the new body
  has less than \<open>2\<^sup>32\<close> of them. Without mentions the body is unchanged.\<close>

theorem parseMentions_spec:
  assumes "parseMentions U body = (b, ms)" and "utf16Len b < 2 ^ 32"
  shows "\<exists>parts inners rest. length parts = length ms \<and> length inners = length ms
    \<and> body = concat (map2 (\<lambda>p i. p @ [CHR ''@'', CHR ''{''] @ i @ ''}'') parts inners) @ rest
    \<and> b = concat (map (\<lambda>p. p @ mentionPlaceholder) parts) @ rest
    \<and> (\<forall>k<length ms. ParseRecipient U (inners ! k) = Inr (mnTarget (ms ! k)) \<and> \<not> Target_IsGroup (mnTarget (ms ! k))
         \<and> int (unat (mnStart (ms ! k)))
           = utf16Len (concat (map (\<lambda>p. p @ mentionPlaceholder) (take k parts)) @ parts ! k))"
proof -
  obtain matches rest0 where sp: "split_mentions body = (matches, rest0)" by fastforce
  have body: "body = concat (map (\<lambda>(b, i). b @ matchText i) matches) @ rest0"
    by (rule split_mentions_concat [OF sp])
  have "mentions_loop U matches rest0 [] (enclosed []) (enclosedLen []) [] = (b, ms)"
    using assms(1) sp body by (auto simp: parseMentions_def split: if_splits)
  then obtain parts inners rest where m: "mentionsAt U [] parts inners ms" and b: "b = enclosed parts @ rest"
    and eq: "body = concat (map2 (\<lambda>p i. p @ matchText i) parts inners) @ rest"
    by (rule mentions_loop_D) (auto simp: body)
  have start: "int (unat (of_int (utf16Len (enclosed (take k parts) @ parts ! k)) :: u32))
      = utf16Len (enclosed (take k parts) @ parts ! k)" if k: "k < length parts" for k
  proof -
    have "b = enclosed (take k parts) @ parts ! k @ mentionPlaceholder @ enclosed (drop (Suc k) parts) @ rest"
      unfolding b by (subst id_take_nth_drop [OF k]) (simp add: enclosed_def)
    then have "utf16Len b = utf16Len (enclosed (take k parts) @ parts ! k) + 1
        + utf16Len (enclosed (drop (Suc k) parts) @ rest)"
      using utf16Len_placeholder [of "enclosed (take k parts) @ parts ! k"] by simp
    then have "utf16Len (enclosed (take k parts) @ parts ! k) < 2 ^ 32"
      using assms(2) utf16Len_nonneg [of "enclosed (drop (Suc k) parts) @ rest"] by linarith
    then show ?thesis using utf16Len_nonneg [of "enclosed (take k parts) @ parts ! k"]
      by (simp add: unsigned_of_int take_bit_int_eq_self)
  qed
  show ?thesis
    using m b eq start unfolding mentionsAt_def matchText_def
    by (intro exI [of _ parts] exI [of _ inners] exI [of _ rest]) (simp add: enclosed_def)
qed

theorem parseMentions_spec_witness:
  "\<exists>b ms. parseMentions plain_uuid [CHR ''@'', CHR ''{'', CHR ''s'', CHR ''e'', CHR ''l'', CHR ''f'', CHR ''}''] = (b, ms)
     \<and> utf16Len b < 2 ^ 32 \<and> length ms = 1 \<and> (\<exists>parts rest. length parts = length ms
         \<and> b = concat (map (\<lambda>p. p @ mentionPlaceholder) parts) @ rest)"
proof -
  let ?s = "[CHR ''@'', CHR ''{'', CHR ''s'', CHR ''e'', CHR ''l'', CHR ''f'', CHR ''}'']"
  have "mention_at ?s = Some (''self'', [])"
    by (simp add: mention_at_def mentionChar_def byte_def)
  moreover have "split_mentions [] = ([], [])"
    by (simp add: split_mentions.simps [of "[]"] mention_at_def)
  ultimately have "split_mentions ?s = ([([], ''self'')], [])"
    by (simp add: split_mentions.simps [of ?s])
  then have p: "parseMentions plain_uuid ?s
      = (mentionPlaceholder, [\<lparr>mnStart = 0, mnTarget = noTarget\<lparr>tSelf := True\<rparr>\<rparr>])"
    by (simp add: parseMentions_def parse_self Target_IsGroup_def noTarget_def utf16Len_def)
  have u: "utf16Len mentionPlaceholder < 2 ^ 32"
    using utf16Len_placeholder [of "[]" "[]"] by (simp add: utf16Len_def)
  from parseMentions_spec [OF p u] show ?thesis using p u by auto
qed

end
