(* ===== verification/SendFlow.thy ===== *)
theory SendFlow
  imports Content
begin

text \<open>
  The use cases that send: internal/app/send.go (Send and the common path of all of them), react.go
  (React, Delete), polls.go (PollCreate, PollVote, PollClose), pins.go (Pin, Unpin), sticker.go and
  viewed\_receipts.go. A use case fails with an error, or returns its result together with the error
  that reports failed targets. What Go sets in the result of a use case that fails before sending
  is not modelled; no caller reads it.
\<close>

section \<open>Requests and results (send.go)\<close>

record AppSendRequest =
  asRecipients :: "string list"
  asBody :: string
  asStyles :: "string list"
  asAttachments :: "string list"
  asSticker :: "StickerReference option"
  asAttachDir :: string
  asQuote :: string
  asQuoteText :: string
  asEditTarget :: u64

record TargetResult =
  trTarget :: Target
  trUnidentified :: bool
  trMembers :: "RecipientResult list"
  trErr :: "err option"

record SendResult =
  srTimestamp :: u64
  srResults :: "TargetResult list"

definition FailedMembers :: "TargetResult \<Rightarrow> nat" where
  "FailedMembers r = length (filter (\<lambda>m. rrErr m \<noteq> None) (trMembers r))"

definition TargetResult_OK :: "TargetResult \<Rightarrow> bool" where
  "TargetResult_OK r \<longleftrightarrow> trErr r = None \<and> FailedMembers r = 0"

definition SendResult_Failed :: "SendResult \<Rightarrow> nat" where
  "SendResult_Failed r = length (filter (\<lambda>t. \<not> TargetResult_OK t) (srResults r))"

text \<open>The error of a result with failed targets keeps the cause that the device was unlinked.\<close>

definition SendResult_err :: "string \<Rightarrow> SendResult \<Rightarrow> err option" where
  "SendResult_err action r =
    (if SendResult_Failed r = 0 then None
     else let e = Wrap action [Sentinel ErrSendFailed] in
       case find (\<lambda>t. case trErr t of Some x \<Rightarrow> errors_Is x ErrDeviceUnlinked | None \<Rightarrow> False) (srResults r) of
         Some t \<Rightarrow> Some (Wrap '''' [e, the (trErr t)])
       | None \<Rightarrow> Some e)"

record content =
  cnPin :: "OutgoingPin option"
  cnUnpin :: "OutgoingUnpin option"
  cnPollCreate :: "Poll option"
  cnPollVote :: "OutgoingPollVote option"
  cnPollClose :: "OutgoingPollClose option"
  cnSticker :: "OutgoingSticker option"
  cnBody :: string
  cnQuote :: "Quote option"
  cnMentions :: "Mention list"
  cnStyles :: "TextStyle list"
  cnAttachments :: "UploadedAttachment list"
  cnReaction :: "OutgoingReaction option"
  cnDeleteTarget :: u64
  cnEditTarget :: u64

definition noContent :: content where
  "noContent = \<lparr>cnPin = None, cnUnpin = None, cnPollCreate = None, cnPollVote = None,
     cnPollClose = None, cnSticker = None, cnBody = [], cnQuote = None, cnMentions = [],
     cnStyles = [], cnAttachments = [], cnReaction = None, cnDeleteTarget = 0, cnEditTarget = 0\<rparr>"

definition content_request :: "content \<Rightarrow> u64 \<Rightarrow> SendRequest" where
  "content_request msg timestamp = noSendRequest\<lparr>sqPin := cnPin msg, sqUnpin := cnUnpin msg,
     sqPollCreate := cnPollCreate msg, sqPollVote := cnPollVote msg, sqPollClose := cnPollClose msg,
     sqBody := cnBody msg, sqSticker := cnSticker msg, sqTimestamp := timestamp,
     sqAttachments := cnAttachments msg, sqQuote := cnQuote msg, sqMentions := cnMentions msg,
     sqStyles := cnStyles msg, sqReaction := cnReaction msg, sqDeleteTarget := cnDeleteTarget msg,
     sqEditTarget := cnEditTarget msg\<rparr>"

section \<open>Checks before connecting (send.go, sticker.go)\<close>

definition checkStickerRequest :: "AppSendRequest \<Rightarrow> err option" where
  "checkStickerRequest req = (case asSticker req of
     None \<Rightarrow> None
   | Some ref \<Rightarrow>
       if asBody req \<noteq> [] \<or> asAttachments req \<noteq> [] \<or> asQuote req \<noteq> [] \<or> asQuoteText req \<noteq> []
          \<or> asEditTarget req \<noteq> 0 \<or> asStyles req \<noteq> []
       then Some (Sentinel ErrInvalidSticker) else StickerReference_Check ref)"

definition checkAppEdit :: "'c Client \<Rightarrow> AppSendRequest \<Rightarrow> ('c, unit) action" where
  "checkAppEdit C req =
    (if asEditTarget req = 0 then ret ()
     else andThen (callNow C) (\<lambda>t.
       if asEditTarget req \<ge> of_int (UnixMilli t) \<or> TrimSpace (asBody req) = []
       then fail (Wrap ''need a past message timestamp and non-blank replacement text'' [Sentinel ErrInvalidEdit])
       else ret ()))"

definition checkRecipients :: "uuid_lib \<Rightarrow> string list \<Rightarrow> err list" where
  "checkRecipients U args = (if args = [] then [Sentinel ErrNoRecipients] else snd (parse_all U args))"

definition checkRequest :: "uuid_lib \<Rightarrow> AppSendRequest \<Rightarrow> err option" where
  "checkRequest U req =
    (if asRecipients req = [] then Some (Sentinel ErrNoRecipients)
     else errors_Join (checkRecipients U (asRecipients req) @
       (if asQuote req \<noteq> [] then (case ParseQuote U (asQuote req) of Inl e \<Rightarrow> [e] | Inr _ \<Rightarrow> [])
        else if asQuoteText req \<noteq> []
        then [Wrap ''quote text without a quote'' [Sentinel ErrInvalidQuote]] else [])))"

definition prepare ::
  "uuid_lib \<Rightarrow> file_lib \<Rightarrow> AppSendRequest \<Rightarrow> (AppSendRequest \<times> OutgoingAttachment list) res" where
  "prepare U F req =
    (if asSticker req \<noteq> None
     then (case checkRequest U req of Some e \<Rightarrow> Inl e | None \<Rightarrow> Inr (req, []))
     else if TrimSpace (asBody req) = [] \<and> asAttachments req = [] then Inl (Sentinel ErrEmptyMessage)
     else let req' = (if TrimSpace (asBody req) = [] then req\<lparr>asBody := []\<rparr> else req) in
       case checkRequest U req' of
         Some e \<Rightarrow> Inl e
       | None \<Rightarrow> (case loadAttachments F (asAttachDir req') (asAttachments req') of
           Inl e \<Rightarrow> Inl e | Inr files \<Rightarrow> Inr (req', files)))"

section \<open>Building the content (content.go, sticker.go)\<close>

definition resolvedMentions :: "mention list \<Rightarrow> Target list \<Rightarrow> Mention list" where
  "resolvedMentions found targets =
     map2 (\<lambda>m t. \<lparr>mStart = mnStart m, mLength = 1, mRecipient = tRecipient t\<rparr>) found targets"

definition resolveContent :: "uuid_lib \<Rightarrow> 'c Client \<Rightarrow> AppSendRequest \<Rightarrow> ('c, content) action" where
  "resolveContent U C req =
    (let (body, found) = parseMentions U (asBody req);
         (quoteText, quoteMentions) = parseMentions U (asQuoteText req);
         out = noContent\<lparr>cnBody := body, cnEditTarget := asEditTarget req\<rparr>
     in andThen (ofRes (if asQuote req = [] then Inr None else
          (case ParseQuote U (asQuote req) of Inl e \<Rightarrow> Inl e | Inr q \<Rightarrow> Inr (Some q)))) (\<lambda>quote.
        let targets = map mnTarget found @ map mnTarget quoteMentions
              @ (case quote of None \<Rightarrow> [] | Some (author, _) \<Rightarrow> [author])
        in if targets = [] then ret out
           else andThen (wrapping ''resolve mentions and quote'' (resolveUsers C targets)) (\<lambda>targets'.
             ret (out\<lparr>cnMentions := resolvedMentions found targets',
                    cnQuote := (case quote of None \<Rightarrow> None | Some (_, timestamp) \<Rightarrow>
                      Some \<lparr>qAuthor = tRecipient (last targets'), qTimestamp = timestamp,
                        qText = quoteText,
                        qMentions = resolvedMentions quoteMentions (drop (length found) targets')\<rparr>)\<rparr>))))"

definition buildSticker :: "'c Client \<Rightarrow> StickerReference \<Rightarrow> ('c, content) action" where
  "buildSticker C ref =
     andThen (wrapping ''fetch sticker'' (call (clFetchSticker C ref))) (\<lambda>data.
     andThen (wrapping ''upload sticker'' (call (clUpload C [sdImage data]))) (\<lambda>uploaded.
       case uploaded of
         [u] \<Rightarrow> ret (noContent\<lparr>cnSticker := Some \<lparr>osReference = ref, osEmoji = sdEmoji data, osImage = u\<rparr>\<rparr>)
       | _ \<Rightarrow> fail (Wrap ''upload sticker'' [Sentinel ErrNoResult])))"

definition buildContent ::
  "uuid_lib \<Rightarrow> 'c Client \<Rightarrow> AppSendRequest \<Rightarrow> OutgoingAttachment list \<Rightarrow> TextStyle list \<Rightarrow> ('c, content) action" where
  "buildContent U C req files styles = (case asSticker req of
     Some ref \<Rightarrow> buildSticker C ref
   | None \<Rightarrow> andThen (resolveContent U C req) (\<lambda>out.
       let out' = out\<lparr>cnStyles := styles\<rparr> in
       if files = [] then ret out'
       else andThen (wrapping ''upload attachments'' (call (clUpload C files)))
         (\<lambda>uploaded. ret (out'\<lparr>cnAttachments := uploaded\<rparr>))))"

section \<open>The common path (send.go)\<close>

definition nextTimestamp :: "'c Client \<Rightarrow> ('c, u64) action" where
  "nextTimestamp C = andThen (callNow C) (\<lambda>t s.
     let ts = max (of_int (UnixMilli t)) (lastTimestamp s + 1) in (Inr ts, s\<lparr>lastTimestamp := ts\<rparr>))"

text \<open>What one request to all users gave, for the n-th user from \<open>n\<close> on.\<close>

fun user_results :: "ClientSendResult res \<Rightarrow> nat \<Rightarrow> TargetResult list \<Rightarrow> TargetResult list" where
  "user_results sent n [] = []"
| "user_results sent n (r # rs) =
    (if Target_IsGroup (trTarget r) then r # user_results sent n rs
     else (case sent of
        Inl e \<Rightarrow> r\<lparr>trErr := Some e\<rparr>
      | Inr res \<Rightarrow>
          if n < length (csResults res)
          then r\<lparr>trUnidentified := rrUnidentified (csResults res ! n), trErr := rrErr (csResults res ! n)\<rparr>
          else r\<lparr>trErr := Some (Sentinel ErrNoResult)\<rparr>) # user_results sent (Suc n) rs)"

definition sendToUsers :: "'c Client \<Rightarrow> content \<Rightarrow> SendResult \<Rightarrow> 'c App \<Rightarrow> SendResult \<times> 'c App" where
  "sendToUsers C msg res s =
    (let users = map (tRecipient \<circ> trTarget) (filter (\<lambda>r. \<not> Target_IsGroup (trTarget r)) (srResults res)) in
     if users = [] then (res, s)
     else case clSend C ((content_request msg (srTimestamp res))\<lparr>sqRecipients := users\<rparr>) (world s) of
       (sent, w) \<Rightarrow> (res\<lparr>srResults := user_results sent 0 (srResults res)\<rparr>, s\<lparr>world := w\<rparr>))"

fun group_loop :: "'c Client \<Rightarrow> SendRequest \<Rightarrow> TargetResult list \<Rightarrow> 'c \<Rightarrow> TargetResult list \<times> 'c" where
  "group_loop C req [] w = ([], w)"
| "group_loop C req (r # rs) w =
    (if \<not> Target_IsGroup (trTarget r)
     then (case group_loop C req rs w of (rs', w') \<Rightarrow> (r # rs', w'))
     else case clSend C (req\<lparr>sqGroupID := tGroupID (trTarget r)\<rparr>) w of
       (sent, w1) \<Rightarrow> (case group_loop C req rs w1 of (rs', w') \<Rightarrow>
         ((case sent of Inl e \<Rightarrow> r\<lparr>trErr := Some e\<rparr> | Inr x \<Rightarrow> r\<lparr>trMembers := csResults x\<rparr>) # rs', w')))"

definition sendToGroups :: "'c Client \<Rightarrow> content \<Rightarrow> SendResult \<Rightarrow> 'c App \<Rightarrow> SendResult \<times> 'c App" where
  "sendToGroups C msg res s = (case group_loop C (content_request msg (srTimestamp res)) (srResults res) (world s) of
     (rs, w) \<Rightarrow> (res\<lparr>srResults := rs\<rparr>, s\<lparr>world := w\<rparr>))"

definition newResult :: "u64 \<Rightarrow> Target list \<Rightarrow> SendResult" where
  "newResult ts targets = \<lparr>srTimestamp = ts,
     srResults = map (\<lambda>t. \<lparr>trTarget = t, trUnidentified = False, trMembers = [], trErr = None\<rparr>) targets\<rparr>"

definition dispatch :: "'c Client \<Rightarrow> string \<Rightarrow> content \<Rightarrow> Target list \<Rightarrow> u64 \<Rightarrow> ('c, SendResult \<times> err option) action" where
  "dispatch C action msg targets ts = (\<lambda>s.
     case sendToUsers C msg (newResult ts targets) s of (res, s1) \<Rightarrow>
     (case sendToGroups C msg res s1 of (res', s2) \<Rightarrow> (Inr (res', SendResult_err action res'), s2)))"

text \<open>\<open>build\<close> also gives what the use case adds to its result.\<close>

definition sendPreparedContent ::
  "uuid_lib \<Rightarrow> 'c Client \<Rightarrow> string \<Rightarrow> string list \<Rightarrow> (Target list \<Rightarrow> ('c, content \<times> 'x) action)
   \<Rightarrow> ('c, SendResult \<times> err option \<times> 'x) action" where
  "sendPreparedContent U C action recipients build =
     andThen (wrapping action (wrapping ''connect'' (connectSendOnly C))) (\<lambda>_.
     andThen (wrapping action (ResolveRecipients U C recipients)) (\<lambda>targets.
     andThen (wrapping action (checkAllowed C targets)) (\<lambda>_.
     andThen (wrapping action (build targets)) (\<lambda>(msg, x).
     andThen (nextTimestamp C) (\<lambda>ts.
     andThen (dispatch C action msg targets ts) (\<lambda>(res, e). ret (res, e, x)))))))"

definition sendContent ::
  "uuid_lib \<Rightarrow> 'c Client \<Rightarrow> string \<Rightarrow> string list \<Rightarrow> ('c, content \<times> 'x) action
   \<Rightarrow> ('c, SendResult \<times> err option \<times> 'x) action" where
  "sendContent U C action recipients build = sendPreparedContent U C action recipients (\<lambda>_. build)"

definition noExtra :: "('c, content) action \<Rightarrow> ('c, content \<times> unit) action" where
  "noExtra m = andThen m (\<lambda>c. ret (c, ()))"

definition Send :: "uuid_lib \<Rightarrow> file_lib \<Rightarrow> 'c Client \<Rightarrow> AppSendRequest \<Rightarrow> ('c, SendResult \<times> err option \<times> unit) action" where
  "Send U F C req =
     andThen (wrapping ''send'' (ofCheck (checkStickerRequest req))) (\<lambda>_.
     andThen (wrapping ''send'' (checkAppEdit C req)) (\<lambda>_.
     andThen (wrapping ''send'' (ofRes (parseStyles U (asBody req) (asStyles req)))) (\<lambda>styles.
     andThen (wrapping ''send'' (ofRes (prepare U F req))) (\<lambda>(req', files).
       sendContent U C ''send'' (asRecipients req') (noExtra (buildContent U C req' files styles))))))"

section \<open>Reactions and deletes (react.go)\<close>

record ReactRequest =
  rcRecipients :: "string list"
  rcTarget :: string
  rcEmoji :: string
  rcRemove :: bool

definition resolveAuthor :: "'c Client \<Rightarrow> Target \<Rightarrow> ('c, Target) action" where
  "resolveAuthor C author = andThen (wrapping ''resolve target author'' (resolveUsers C [author]))
     (\<lambda>authors. ret (hd authors))"

definition React ::
  "uuid_lib \<Rightarrow> unicode_lib \<Rightarrow> 'c Client \<Rightarrow> ReactRequest \<Rightarrow> ('c, SendResult \<times> err option \<times> Target) action" where
  "React U T C req =
    (let emoji = TrimSpace (rcEmoji req);
         target = ParseTarget U (rcTarget req);
         errs = checkRecipients U (rcRecipients req)
           @ (case target of Inl e \<Rightarrow> [e] | Inr _ \<Rightarrow> [])
           @ (case checkEmoji T emoji of Some e \<Rightarrow> [e] | None \<Rightarrow> [])
     in andThen (wrapping ''react'' (ofCheck (errors_Join errs))) (\<lambda>_.
        sendContent U C ''react'' (rcRecipients req)
          (andThen (ofRes target) (\<lambda>(author, timestamp).
           andThen (resolveAuthor C author) (\<lambda>author'.
             ret (noContent\<lparr>cnReaction := Some \<lparr>orEmoji = emoji, orRemove = rcRemove req,
                    orTargetAuthor = tRecipient author', orTargetTimestamp = timestamp\<rparr>\<rparr>, author'))))))"

record DeleteRequest =
  dqRecipients :: "string list"
  dqTarget :: u64

definition App_Delete :: "uuid_lib \<Rightarrow> 'c Client \<Rightarrow> DeleteRequest \<Rightarrow> ('c, SendResult \<times> err option \<times> unit) action" where
  "App_Delete U C req =
     andThen (wrapping ''delete'' (ofCheck (errors_Join (checkRecipients U (dqRecipients req)
       @ (if dqTarget req = 0 then [Wrap ''target'' [Sentinel ErrInvalidTarget, Sentinel ErrBadTimestamp]] else []))))) (\<lambda>_.
     sendContent U C ''delete'' (dqRecipients req)
       (ret (noContent\<lparr>cnDeleteTarget := dqTarget req\<rparr>, ())))"

section \<open>Polls (polls.go)\<close>

definition checkPollGroup :: "string \<Rightarrow> err option" where
  "checkPollGroup gid = (if decodeGroupKey gid = Some gid then None
     else Some (Wrap ''need a canonical group ID'' [Sentinel ErrInvalidRecipient]))"

definition pollRecipient :: "uuid_lib \<Rightarrow> string \<Rightarrow> string \<Rightarrow> string res" where
  "pollRecipient U groupID recipient =
    (if (groupID = []) = (recipient = [])
     then Inl (Wrap ''supply one group or direct recipient'' [Sentinel ErrInvalidPoll])
     else if groupID \<noteq> []
     then (case checkPollGroup groupID of Some e \<Rightarrow> Inl e | None \<Rightarrow> Inr (''group:'' @ groupID))
     else case ParseRecipient U recipient of
       Inl e \<Rightarrow> Inl e
     | Inr target \<Rightarrow>
         if Target_IsGroup target \<or> rACI (tRecipient target) = uuid_String U uuid_Nil
         then Inl (Wrap ''need a direct recipient'' [Sentinel ErrInvalidRecipient])
         else Inr recipient)"

record PollCreateRequest =
  pcrGroupID :: string
  pcrRecipient :: string
  pcrQuestion :: string
  pcrOptions :: "string list"
  pcrSingleChoice :: bool

record PollVoteRequest =
  pvrGroupID :: string
  pvrRecipient :: string
  pvrTarget :: string
  pvrOptionIndexes :: "u32 list"
  pvrVoteCount :: u32
  pvrClear :: bool

record PollCloseRequest =
  pclGroupID :: string
  pclRecipient :: string
  pclTarget :: u64

definition requestPoll :: "PollCreateRequest \<Rightarrow> Poll" where
  "requestPoll req = \<lparr>pQuestion = pcrQuestion req, pOptions = pcrOptions req,
     pAllowMultiple = (\<not> pcrSingleChoice req)\<rparr>"

definition PollCreate_Check :: "uuid_lib \<Rightarrow> PollCreateRequest \<Rightarrow> err option" where
  "PollCreate_Check U req = (case pollRecipient U (pcrGroupID req) (pcrRecipient req) of
     Inl e \<Rightarrow> Some e
   | Inr _ \<Rightarrow> wrap_err ''poll'' (Poll_Check (requestPoll req)))"

text \<open>The author of the target is resolved only after the chat was allowed; the check uses a
  stand-in.\<close>

definition someACI :: string where
  "someACI = ''00000000-0000-0000-0000-000000000001''"

definition PollVote_Check :: "uuid_lib \<Rightarrow> PollVoteRequest \<Rightarrow> err option" where
  "PollVote_Check U req = (case pollRecipient U (pvrGroupID req) (pvrRecipient req) of
     Inl e \<Rightarrow> Some e
   | Inr _ \<Rightarrow> (case ParseTarget U (pvrTarget req) of
       Inl e \<Rightarrow> Some e
     | Inr (author, timestamp) \<Rightarrow>
         if rACI (tRecipient author) = uuid_String U uuid_Nil
         then Some (Wrap ''target author must be a non-nil ACI'' [Sentinel ErrInvalidPoll])
         else if pvrClear req = (pvrOptionIndexes req \<noteq> [])
         then Some (Wrap ''select options or explicitly clear'' [Sentinel ErrInvalidPoll])
         else wrap_err ''poll vote'' (PollVote_check U \<lparr>vTargetAuthor = aciRecipient someACI,
                vTargetTimestamp = timestamp, vOptionIndexes = pvrOptionIndexes req,
                vVoteCount = max (pvrVoteCount req) 1\<rparr>)))"

definition PollCloseRequest_Check :: "uuid_lib \<Rightarrow> PollCloseRequest \<Rightarrow> err option" where
  "PollCloseRequest_Check U req = (case pollRecipient U (pclGroupID req) (pclRecipient req) of
     Inl e \<Rightarrow> Some e
   | Inr _ \<Rightarrow> wrap_err ''poll close'' (PollClose_Check \<lparr>clTargetTimestamp = pclTarget req\<rparr>))"

text \<open>The destination, which \<open>Check\<close> has found valid.\<close>

definition destination :: "uuid_lib \<Rightarrow> string \<Rightarrow> string \<Rightarrow> string" where
  "destination U groupID recipient = (case pollRecipient U groupID recipient of Inl _ \<Rightarrow> [] | Inr d \<Rightarrow> d)"

text \<open>The values added to the result are the target author and, for a vote, its counter.\<close>

definition PollCreate :: "uuid_lib \<Rightarrow> 'c Client \<Rightarrow> PollCreateRequest \<Rightarrow> ('c, SendResult \<times> err option \<times> Recipient) action" where
  "PollCreate U C req =
     andThen (wrapping ''poll create'' (ofCheck (PollCreate_Check U req))) (\<lambda>_.
     sendContent U C ''poll create'' [destination U (pcrGroupID req) (pcrRecipient req)]
       (andThen (wrapping ''own account'' (call (clAccount C))) (\<lambda>acc.
          ret (noContent\<lparr>cnPollCreate := Some (requestPoll req)\<rparr>, aciRecipient (accACI acc)))))"

definition App_PollVote :: "uuid_lib \<Rightarrow> 'c Client \<Rightarrow> PollVoteRequest \<Rightarrow> ('c, SendResult \<times> err option \<times> Recipient \<times> u32) action" where
  "App_PollVote U C req =
     andThen (wrapping ''poll vote'' (ofCheck (PollVote_Check U req))) (\<lambda>_.
     andThen (ofRes (ParseTarget U (pvrTarget req))) (\<lambda>(author, timestamp).
     sendPreparedContent U C ''poll vote'' [destination U (pvrGroupID req) (pvrRecipient req)] (\<lambda>targets.
       andThen (resolveAuthor C author) (\<lambda>author'.
         if targets = [] then fail panic
         else let chat = \<lparr>cGroupID = tGroupID (hd targets), cRecipient = tRecipient (hd targets)\<rparr> in
           andThen (wrapping ''reserve counter'' (call (clReservePollVote C
             \<lparr>pqChat = chat, pqAuthor = tRecipient author', pqTimestamp = timestamp, pqExplicit = pvrVoteCount req\<rparr>)))
           (\<lambda>count. ret (noContent\<lparr>cnPollVote := Some \<lparr>vTargetAuthor = tRecipient author',
              vTargetTimestamp = timestamp, vOptionIndexes = pvrOptionIndexes req, vVoteCount = count\<rparr>\<rparr>,
              tRecipient author', count))))))"

definition App_PollClose :: "uuid_lib \<Rightarrow> 'c Client \<Rightarrow> PollCloseRequest \<Rightarrow> ('c, SendResult \<times> err option \<times> Recipient) action" where
  "App_PollClose U C req =
     andThen (wrapping ''poll close'' (ofCheck (PollCloseRequest_Check U req))) (\<lambda>_.
     sendContent U C ''poll close'' [destination U (pclGroupID req) (pclRecipient req)]
       (andThen (wrapping ''own account'' (call (clAccount C))) (\<lambda>acc.
          ret (noContent\<lparr>cnPollClose := Some \<lparr>clTargetTimestamp = pclTarget req\<rparr>\<rparr>, aciRecipient (accACI acc)))))"

section \<open>Pins (pins.go)\<close>

record PinRequest =
  pnRecipients :: "string list"
  pnTarget :: string
  pnDurationSeconds :: u32
  pnForever :: bool

record UnpinRequest =
  upRecipients :: "string list"
  upTarget :: string

definition checkPinTarget :: "uuid_lib \<Rightarrow> string list \<Rightarrow> string \<Rightarrow> err option" where
  "checkPinTarget U recipients target = errors_Join (checkRecipients U recipients
     @ (case ParseTarget U target of
          Inl e \<Rightarrow> [e]
        | Inr (author, _) \<Rightarrow> if rACI (tRecipient author) = uuid_String U uuid_Nil
            then [Wrap ''target author must be a non-nil ACI'' [Sentinel ErrInvalidPin]] else []))"

definition PinRequest_Check :: "uuid_lib \<Rightarrow> PinRequest \<Rightarrow> err option" where
  "PinRequest_Check U req = (case checkPinTarget U (pnRecipients req) (pnTarget req) of
     Some e \<Rightarrow> Some e
   | None \<Rightarrow> wrap_err ''pin'' (Pin_Check U \<lparr>pinTargetAuthor = aciRecipient someACI, pinTargetTimestamp = 1,
       pinDurationSeconds = pnDurationSeconds req, pinForever = pnForever req\<rparr>))"

definition UnpinRequest_Check :: "uuid_lib \<Rightarrow> UnpinRequest \<Rightarrow> err option" where
  "UnpinRequest_Check U req = checkPinTarget U (upRecipients req) (upTarget req)"

definition checkPinGroup :: "'c Client \<Rightarrow> string \<Rightarrow> string \<Rightarrow> ('c, unit) action" where
  "checkPinGroup C groupID own = andThen (wrapping ''group'' (call (clGroup C groupID))) (\<lambda>group.
     let (membership, role) = MembershipOf group own in
     if membership \<noteq> MembershipMember then fail (Wrap ''group'' [Sentinel ErrNotAMember])
     else if role \<noteq> GroupRoleAdmin \<and> \<not> gMembersCanEditAttributes group
     then fail (Wrap ''pinning requires attribute-edit permission'' [Sentinel ErrGroupPermission])
     else ret ())"

fun pin_groups_loop ::
  "uuid_lib \<Rightarrow> 'c Client \<Rightarrow> string list \<Rightarrow> string list \<Rightarrow> Account option \<Rightarrow> ('c, unit) action" where
  "pin_groups_loop U C [] seen own = ret ()"
| "pin_groups_loop U C (arg # args) seen own = (case ParseRecipient U arg of
     Inl e \<Rightarrow> fail e
   | Inr target \<Rightarrow>
       if \<not> Target_IsGroup target \<or> tGroupID target \<in> set seen then pin_groups_loop U C args seen own
       else andThen (case own of Some acc \<Rightarrow> ret acc | None \<Rightarrow> wrapping ''own account'' (call (clAccount C))) (\<lambda>acc.
         andThen (checkPinGroup C (tGroupID target) (accACI acc)) (\<lambda>_.
           pin_groups_loop U C args (tGroupID target # seen) (Some acc))))"

definition checkPinGroups :: "uuid_lib \<Rightarrow> 'c Client \<Rightarrow> string list \<Rightarrow> ('c, unit) action" where
  "checkPinGroups U C recipients = pin_groups_loop U C recipients [] None"

definition resolvePinAuthor :: "'c Client \<Rightarrow> Target \<Rightarrow> ('c, Recipient) action" where
  "resolvePinAuthor C author =
     andThen (wrapping ''resolve target author'' (markSelf C [author])) (\<lambda>(authors, pending).
       if pending = [] then ret (tRecipient (hd authors))
       else andThen (wrapping ''resolve target author'' (call (clResolve C [tRecipient author]))) (\<lambda>resolved.
         case resolved of
           [r] \<Rightarrow> ret r
         | _ \<Rightarrow> fail (Wrap ''missing resolved target author'' [Sentinel ErrInvalidPin])))"

definition App_Pin :: "uuid_lib \<Rightarrow> 'c Client \<Rightarrow> PinRequest \<Rightarrow> ('c, SendResult \<times> err option \<times> Recipient) action" where
  "App_Pin U C req =
     andThen (wrapping ''pin'' (ofCheck (PinRequest_Check U req))) (\<lambda>_.
     andThen (ofRes (ParseTarget U (pnTarget req))) (\<lambda>(author, timestamp).
     sendContent U C ''pin'' (pnRecipients req)
       (andThen (checkPinGroups U C (pnRecipients req)) (\<lambda>_.
        andThen (resolvePinAuthor C author) (\<lambda>author'.
          let pin = \<lparr>pinTargetAuthor = author', pinTargetTimestamp = timestamp,
                     pinDurationSeconds = pnDurationSeconds req, pinForever = pnForever req\<rparr> in
          andThen (wrapping ''pin payload'' (ofCheck (Pin_Check U pin)))
            (\<lambda>_. ret (noContent\<lparr>cnPin := Some pin\<rparr>, author')))))))"

definition App_Unpin :: "uuid_lib \<Rightarrow> 'c Client \<Rightarrow> UnpinRequest \<Rightarrow> ('c, SendResult \<times> err option \<times> Recipient) action" where
  "App_Unpin U C req =
     andThen (wrapping ''unpin'' (ofCheck (UnpinRequest_Check U req))) (\<lambda>_.
     andThen (ofRes (ParseTarget U (upTarget req))) (\<lambda>(author, timestamp).
     sendContent U C ''unpin'' (upRecipients req)
       (andThen (checkPinGroups U C (upRecipients req)) (\<lambda>_.
        andThen (resolvePinAuthor C author) (\<lambda>author'.
          let unpin = \<lparr>unpinTargetAuthor = author', unpinTargetTimestamp = timestamp\<rparr> in
          andThen (wrapping ''unpin payload'' (ofCheck (Unpin_Check U unpin)))
            (\<lambda>_. ret (noContent\<lparr>cnUnpin := Some unpin\<rparr>, author')))))))"

section \<open>Viewed receipts (viewed\_receipts.go)\<close>

record ViewedReceiptRequest =
  vrSender :: string
  vrTimestamps :: "u64 list"

definition validateViewedReceipt :: "uuid_lib \<Rightarrow> ViewedReceiptRequest \<Rightarrow> (Target \<times> u64 list) res" where
  "validateViewedReceipt U req = (case ParseRecipient U (vrSender req) of
     Inl e \<Rightarrow> Inl e
   | Inr target \<Rightarrow>
       if Target_IsGroup target \<or> tSelf target
       then Inl (Wrap ''sender must be another user'' [Sentinel ErrInvalidRecipient])
       else if vrTimestamps req = [] \<or> 0 \<in> set (vrTimestamps req)
       then Inl (Wrap ''want nonzero message timestamps'' [Sentinel ErrInvalidReceipt])
       else Inr (target, firsts (\<lambda>t. t) (vrTimestamps req) []))"

definition rejectOwnViewedSender :: "'c Client \<Rightarrow> Target \<Rightarrow> ('c, unit) action" where
  "rejectOwnViewedSender C target = andThen (wrapping ''account'' (call (clAccount C))) (\<lambda>own.
     if isOwn target own then fail (Wrap ''sender must be another user'' [Sentinel ErrInvalidRecipient])
     else ret ())"

definition SendViewedReceipt :: "uuid_lib \<Rightarrow> 'c Client \<Rightarrow> ViewedReceiptRequest \<Rightarrow> ('c, Recipient \<times> u64 list) action" where
  "SendViewedReceipt U C req = wrapping ''send viewed receipt''
    (andThen (ofRes (validateViewedReceipt U req)) (\<lambda>(target, timestamps).
     andThen (rejectOwnViewedSender C target) (\<lambda>_.
     andThen (wrapping ''connect'' (connectSendOnly C)) (\<lambda>_.
     andThen (ResolveRecipients U C [vrSender req]) (\<lambda>targets.
     if targets = [] then fail panic
     else andThen (rejectOwnViewedSender C (hd targets)) (\<lambda>_.
     andThen (checkAllowed C targets) (\<lambda>_.
     andThen (callErr (clSendReceipt C (tRecipient (hd targets)) ReceiptViewed timestamps)) (\<lambda>_.
       ret (tRecipient (hd targets), timestamps)))))))))"

section \<open>What is sent\<close>

text \<open>The rules of an allowlist, without what it remembers of earlier lookups; and whether what it
  remembers are resolved entries of its own.\<close>

definition rules :: "Allowlist option \<Rightarrow> (bool \<times> Target list) option" where
  "rules al = map_option (\<lambda>l. (alAll l, alEntries l)) al"

definition allow_ok :: "Account \<Rightarrow> (Recipient \<Rightarrow> Recipient) \<Rightarrow> Allowlist option \<Rightarrow> bool" where
  "allow_ok own dir al = (case al of None \<Rightarrow> True
     | Some l \<Rightarrow> alDone l \<longrightarrow> set (alResolved l) \<subseteq> resolveTarget own dir ` set (alEntries l))"

definition permittedTarget ::
  "Account \<Rightarrow> (Recipient \<Rightarrow> Recipient) \<Rightarrow> (bool \<times> Target list) option \<Rightarrow> Target \<Rightarrow> bool" where
  "permittedTarget own dir R t = (case R of None \<Rightarrow> True
     | Some (all, es) \<Rightarrow> all \<or> (\<exists>e\<in>set es. sameTarget (resolveTarget own dir e) t))"

text \<open>A user may get something if an entry resolves to the user's ACI, or to note-to-self for our
  own account; a group if an entry names it.\<close>

definition permittedUser ::
  "Account \<Rightarrow> (Recipient \<Rightarrow> Recipient) \<Rightarrow> (bool \<times> Target list) option \<Rightarrow> Recipient \<Rightarrow> bool" where
  "permittedUser own dir R r = (case R of None \<Rightarrow> True
     | Some (all, es) \<Rightarrow> all \<or> (\<exists>e\<in>set es. \<not> Target_IsGroup e \<and>
         (if isOwn e own then r = tRecipient (selfTarget own)
          else rACI r \<noteq> [] \<and> rACI r = rACI (tRecipient (resolveTarget own dir e)))))"

definition permittedGroup :: "(bool \<times> Target list) option \<Rightarrow> string \<Rightarrow> bool" where
  "permittedGroup R g = (case R of None \<Rightarrow> True
     | Some (all, es) \<Rightarrow> all \<or> (\<exists>e\<in>set es. tGroupID e = g))"

definition permits ::
  "Account \<Rightarrow> (Recipient \<Rightarrow> Recipient) \<Rightarrow> (bool \<times> Target list) option \<Rightarrow> sent \<Rightarrow> bool" where
  "permits own dir R x = (case x of
     SentMessage q \<Rightarrow> if sqGroupID q \<noteq> [] then sqRecipients q = [] \<and> permittedGroup R (sqGroupID q)
       else \<forall>r\<in>set (sqRecipients q). permittedUser own dir R r
   | SentReceipt r _ _ \<Rightarrow> permittedUser own dir R r)"

lemma resolved_groups [simp]: "tGroupID (resolveTarget own dir e) = tGroupID e"
  by (simp add: resolveTarget_def selfTarget_def Target_IsGroup_def)

lemma resolved_IsGroup [simp]: "Target_IsGroup (resolveTarget own dir e) = Target_IsGroup e"
  by (simp add: Target_IsGroup_def)

lemma resolved_self:
  "\<not> Target_IsGroup e \<Longrightarrow> tSelf (resolveTarget own dir e) = isOwn e own"
  "\<not> Target_IsGroup e \<Longrightarrow> isOwn e own \<Longrightarrow> resolveTarget own dir e = selfTarget own"
  by (auto simp: resolveTarget_def selfTarget_def isOwn_def)

lemma permittedTarget_user:
  assumes "permittedTarget own dir R (resolveTarget own dir p)" "\<not> Target_IsGroup p"
  shows "permittedUser own dir R (tRecipient (resolveTarget own dir p))"
proof (cases R)
  case (Some x)
  obtain all es where x: "x = (all, es)" by fastforce
  show ?thesis
  proof (cases all)
    case False
    then obtain e where e: "e \<in> set es" "sameTarget (resolveTarget own dir e) (resolveTarget own dir p)"
      using assms(1) Some x by (auto simp: permittedTarget_def)
    then have g: "\<not> Target_IsGroup e" using assms(2)
      by (auto simp: sameTarget_def Target_IsGroup_def split: if_splits)
    have "if isOwn e own then tRecipient (resolveTarget own dir p) = tRecipient (selfTarget own)
        else rACI (tRecipient (resolveTarget own dir p)) \<noteq> []
          \<and> rACI (tRecipient (resolveTarget own dir p)) = rACI (tRecipient (resolveTarget own dir e))"
      using e(2) g assms(2) resolved_self [of e own dir] resolved_self [of p own dir]
      by (auto simp: sameTarget_def split: if_splits)
    then show ?thesis using Some x e(1) g unfolding permittedUser_def by auto
  qed (use Some x in \<open>simp add: permittedUser_def\<close>)
qed (simp add: permittedUser_def)

lemma permittedTarget_group:
  "permittedTarget own dir R (resolveTarget own dir p) \<Longrightarrow> Target_IsGroup p \<Longrightarrow> permittedGroup R (tGroupID p)"
  by (auto simp: permittedTarget_def permittedGroup_def sameTarget_def split: option.splits)

text \<open>\<open>sendsIf own dir P m\<close>: from an App whose allowlist is in order and whose rules satisfy \<open>P\<close>, all
  that \<open>m\<close> sends is permitted; the rules stay and the list stays in order.\<close>

definition sendsIf ::
  "Account \<Rightarrow> (Recipient \<Rightarrow> Recipient) \<Rightarrow> ((bool \<times> Target list) option \<Rightarrow> bool)
   \<Rightarrow> ('c \<times> sent list, 'a) action \<Rightarrow> bool" where
  "sendsIf own dir P m \<longleftrightarrow> (\<forall>s r s'. m s = (r, s') \<longrightarrow> allow_ok own dir (allow s) \<longrightarrow> P (rules (allow s)) \<longrightarrow>
     allow_ok own dir (allow s') \<and> rules (allow s') = rules (allow s)
     \<and> (\<exists>new. snd (world s') = snd (world s) @ new \<and> (\<forall>x\<in>set new. permits own dir (rules (allow s)) x)))"

lemma sendsIfD:
  assumes "sendsIf own dir P m" "m s = (r, s')" "allow_ok own dir (allow s)" "P (rules (allow s))"
  obtains new where "allow_ok own dir (allow s')" "rules (allow s') = rules (allow s)"
    "snd (world s') = snd (world s) @ new" "\<forall>x\<in>set new. permits own dir (rules (allow s)) x"
  using assms unfolding sendsIf_def by blast

lemma sendsIf_frames:
  assumes "\<And>L. frames (\<lambda>w. snd w = L) m" shows "sendsIf own dir P m"
  unfolding sendsIf_def
proof (intro allI impI)
  fix s r s' assume run: "m s = (r, s')" and ok: "allow_ok own dir (allow s)"
  have "snd (world s') = snd (world s)" "allow s' = allow s"
    using assms [of "snd (world s)"] run unfolding frames_def by (metis snd_conv)+
  then show "allow_ok own dir (allow s') \<and> rules (allow s') = rules (allow s)
     \<and> (\<exists>new. snd (world s') = snd (world s) @ new \<and> (\<forall>x\<in>set new. permits own dir (rules (allow s)) x))"
    using ok by simp
qed

lemma sendsIf_andThen:
  assumes m: "sendsIf own dir P m" and val: "\<And>s x s'. m s = (Inr x, s') \<Longrightarrow> Q x"
    and f: "\<And>x. Q x \<Longrightarrow> sendsIf own dir P (f x)"
  shows "sendsIf own dir P (andThen m f)"
  unfolding sendsIf_def
proof (intro allI impI)
  fix s r s'
  assume run: "andThen m f s = (r, s')" and ok: "allow_ok own dir (allow s)" and P: "P (rules (allow s))"
  obtain q s1 where q: "m s = (q, s1)" by fastforce
  obtain n1 where one: "allow_ok own dir (allow s1)" "rules (allow s1) = rules (allow s)"
    "snd (world s1) = snd (world s) @ n1" "\<forall>x\<in>set n1. permits own dir (rules (allow s)) x"
    by (rule sendsIfD [OF m q ok P])
  show "allow_ok own dir (allow s') \<and> rules (allow s') = rules (allow s)
     \<and> (\<exists>new. snd (world s') = snd (world s) @ new \<and> (\<forall>x\<in>set new. permits own dir (rules (allow s)) x))"
  proof (cases q)
    case (Inl e)
    then show ?thesis using run q one by (auto simp: andThen_def)
  next
    case (Inr x)
    then have "f x s1 = (r, s')" using run q by (simp add: andThen_def)
    moreover have "P (rules (allow s1))" using P one(2) by simp
    ultimately obtain n2 where "allow_ok own dir (allow s')" "rules (allow s') = rules (allow s1)"
      "snd (world s') = snd (world s1) @ n2" "\<forall>x\<in>set n2. permits own dir (rules (allow s1)) x"
      using sendsIfD [OF f [OF val] _ one(1)] q Inr by metis
    then show ?thesis using one by (intro conjI exI [of _ "n1 @ n2"]) auto
  qed
qed

lemma sendsIf_wrapping: "sendsIf own dir P m \<Longrightarrow> sendsIf own dir P (wrapping ctx m)"
  unfolding sendsIf_def wrapping_def by (fastforce split: prod.splits sum.splits)

lemma resolveList_D:
  assumes "directory C own dir" "resolveList C l s = (Inr (es, l'), s')"
    "alDone l \<longrightarrow> set (alResolved l) \<subseteq> resolveTarget own dir ` set (alEntries l)"
  shows "set es \<subseteq> resolveTarget own dir ` set (alEntries l)" "alAll l' = alAll l" "alEntries l' = alEntries l"
    "alDone l'" "alResolved l' = es"
proof -
  have "set es \<subseteq> resolveTarget own dir ` set (alEntries l) \<and> alAll l' = alAll l \<and> alEntries l' = alEntries l
      \<and> alDone l' \<and> alResolved l' = es"
  proof (cases "alDone l")
    case False
    then have "resolveEntries C (alEntries l) s = (Inr es, s')" "l' = l\<lparr>alResolved := es, alDone := True\<rparr>"
      using assms(2) by (auto simp: resolveList_def andThen_def ret_def split: prod.splits sum.splits)
    then show ?thesis using directory.resolveEntries_D [OF assms(1)] by simp
  qed (use assms in \<open>auto simp: resolveList_def ret_def\<close>)
  then show "set es \<subseteq> resolveTarget own dir ` set (alEntries l)" "alAll l' = alAll l" "alEntries l' = alEntries l"
    "alDone l'" "alResolved l' = es" by simp_all
qed

text \<open>Checking the allowlist sends nothing, keeps its rules, and succeeds only for permitted
  targets.\<close>

lemma checkAllowed_D:
  assumes D: "directory C own dir" and run: "checkAllowed (logging C) ts s = (r, s')"
    and ok: "allow_ok own dir (allow s)"
  shows "allow_ok own dir (allow s') \<and> rules (allow s') = rules (allow s) \<and> snd (world s') = snd (world s)
    \<and> (isOk r \<longrightarrow> (\<forall>t\<in>set ts. permittedTarget own dir (rules (allow s)) t))"
proof (cases "allow s")
  case (Some l)
  show ?thesis
  proof (cases "alAll l")
    case False
    obtain q s1 where q: "resolveList (logging C) l s = (q, s1)" by fastforce
    have log: "snd (world s1) = snd (world s)" "allow s1 = allow s"
      using framesD [OF log_inv.frames_resolveList refl q] by simp_all
    show ?thesis
    proof (cases q)
      case (Inl e)
      then show ?thesis using run Some False q log ok
        by (auto simp: checkAllowed_def andThen_def)
    next
      case (Inr x)
      obtain es l' where x: "x = (es, l')" by fastforce
      have L: "set es \<subseteq> resolveTarget own dir ` set (alEntries l)" "alAll l' = alAll l" "alEntries l' = alEntries l"
        "alDone l'" "alResolved l' = es"
        using resolveList_D [OF directory_logging [OF D], of l s es l' s1] q Inr x ok Some
        by (auto simp: allow_ok_def)
      have s': "s' = s1\<lparr>allow := Some l'\<rparr>" "isOk r \<longrightarrow> (\<forall>t\<in>set ts. allows es t)"
        using run Some False q Inr x by (auto simp: checkAllowed_def andThen_def list_all_iff split: if_splits)
      have "permittedTarget own dir (rules (allow s)) t" if "allows es t" for t
        using that L(1) Some by (auto simp: permittedTarget_def rules_def allows_def list_ex_iff)
      then show ?thesis using L s' log Some by (auto simp: allow_ok_def rules_def)
    qed
  qed (use run Some ok in \<open>auto simp: checkAllowed_def rules_def permittedTarget_def\<close>)
qed (use run ok in \<open>auto simp: checkAllowed_def rules_def permittedTarget_def\<close>)

lemma sendsIf_checked:
  assumes "directory C own dir"
    and m: "m = checkAllowed (logging C) ts \<or> m = wrapping a (checkAllowed (logging C) ts)"
    and k: "sendsIf own dir (\<lambda>R. P R \<and> (\<forall>t\<in>set ts. permittedTarget own dir R t)) k"
  shows "sendsIf own dir P (andThen m (\<lambda>_. k))"
  unfolding sendsIf_def
proof (intro allI impI)
  fix s r s'
  assume run: "andThen m (\<lambda>_. k) s = (r, s')"
    and ok: "allow_ok own dir (allow s)" and P: "P (rules (allow s))"
  obtain q s1 where q: "checkAllowed (logging C) ts s = (q, s1)" by fastforce
  note D = checkAllowed_D [OF assms(1) q ok]
  show "allow_ok own dir (allow s') \<and> rules (allow s') = rules (allow s)
     \<and> (\<exists>new. snd (world s') = snd (world s) @ new \<and> (\<forall>x\<in>set new. permits own dir (rules (allow s)) x))"
  proof (cases q)
    case (Inl e)
    then show ?thesis using run q D m by (auto simp: andThen_def wrapping_def)
  next
    case (Inr u)
    then have "k s1 = (r, s')" using run q m by (auto simp: andThen_def wrapping_def)
    moreover have "P (rules (allow s1)) \<and> (\<forall>t\<in>set ts. permittedTarget own dir (rules (allow s1)) t)"
      using D P Inr by simp
    ultimately obtain new where "allow_ok own dir (allow s')" "rules (allow s') = rules (allow s1)"
      "snd (world s') = snd (world s1) @ new" "\<forall>x\<in>set new. permits own dir (rules (allow s1)) x"
      using sendsIfD [OF k] D by metis
    then show ?thesis using D by auto
  qed
qed

section \<open>The messages of one dispatch\<close>

definition userTargets :: "Target list \<Rightarrow> Recipient list" where
  "userTargets ts = map tRecipient (filter (\<lambda>t. \<not> Target_IsGroup t) ts)"

text \<open>One request for all users, then one per group.\<close>

definition requestsFor :: "content \<Rightarrow> u64 \<Rightarrow> Target list \<Rightarrow> SendRequest list" where
  "requestsFor msg ts targets =
     (if userTargets targets = [] then [] else [(content_request msg ts)\<lparr>sqRecipients := userTargets targets\<rparr>])
     @ map (\<lambda>t. (content_request msg ts)\<lparr>sqGroupID := tGroupID t\<rparr>) (filter Target_IsGroup targets)"

lemma user_results_targets [simp]: "map trTarget (user_results sent n rs) = map trTarget rs"
  by (induction rs arbitrary: n) (auto split: sum.split)

lemma group_loop_D:
  "group_loop (logging C) req rs w = (rs', w') \<Longrightarrow>
   map trTarget rs' = map trTarget rs
   \<and> snd w' = snd w @ map (\<lambda>r. SentMessage (req\<lparr>sqGroupID := tGroupID (trTarget r)\<rparr>))
       (filter (\<lambda>r. Target_IsGroup (trTarget r)) rs)"
proof (induction rs arbitrary: w rs' w')
  case (Cons r rs)
  show ?case
  proof (cases "Target_IsGroup (trTarget r)")
    case True
    obtain sent w1 where c: "clSend (logging C) (req\<lparr>sqGroupID := tGroupID (trTarget r)\<rparr>) w = (sent, w1)" by (metis surj_pair)
    then have "snd w1 = snd w @ [SentMessage (req\<lparr>sqGroupID := tGroupID (trTarget r)\<rparr>)]"
      by (auto simp: logging_def noting_def split: prod.splits)
    then show ?thesis using Cons.prems Cons.IH [of w1] True c
      by (auto split: prod.splits sum.splits)
  next
    case False
    then obtain rs1 where "group_loop (logging C) req rs w = (rs1, w')" "rs' = r # rs1"
      using Cons.prems by (auto split: prod.splits)
    then show ?thesis using Cons.IH False by auto
  qed
qed simp

lemma newResult_targets: "map trTarget (srResults (newResult ts targets)) = targets"
  by (simp add: newResult_def comp_def)

lemma filter_map_targets:
  "map (\<lambda>r. f (trTarget r)) (filter (\<lambda>r. P (trTarget r)) rs) = map f (filter P (map trTarget rs))"
  by (induction rs) auto

lemma dispatch_D:
  assumes "dispatch (logging C) action msg targets ts s = (r, s')"
  obtains res where "r = Inr (res, SendResult_err action res)" "srTimestamp res = ts"
    "map trTarget (srResults res) = targets"
    "snd (world s') = snd (world s) @ map SentMessage (requestsFor msg ts targets)"
    "allow s' = allow s" "lastTimestamp s' = lastTimestamp s"
proof -
  obtain res1 s1 where u: "sendToUsers (logging C) msg (newResult ts targets) s = (res1, s1)" by fastforce
  obtain res2 s2 where g: "sendToGroups (logging C) msg res1 s1 = (res2, s2)" by fastforce
  have users: "map (tRecipient \<circ> trTarget) (filter (\<lambda>r. \<not> Target_IsGroup (trTarget r)) (srResults (newResult ts targets)))
      = userTargets targets"
    using filter_map_targets [of tRecipient "\<lambda>t. \<not> Target_IsGroup t" "srResults (newResult ts targets)"]
    by (simp add: userTargets_def newResult_targets comp_def)
  have U: "srTimestamp res1 = ts \<and> map trTarget (srResults res1) = targets \<and> allow s1 = allow s
      \<and> lastTimestamp s1 = lastTimestamp s \<and> snd (world s1) = snd (world s) @ map SentMessage
          (if userTargets targets = [] then [] else [(content_request msg ts)\<lparr>sqRecipients := userTargets targets\<rparr>])"
    using u newResult_targets [of ts targets] unfolding sendToUsers_def Let_def users
    by (auto simp: logging_def noting_def newResult_def split: prod.splits if_splits)
  obtain rs w where gl: "group_loop (logging C) (content_request msg (srTimestamp res1)) (srResults res1) (world s1) = (rs, w)"
    by (metis surj_pair)
  have "map (\<lambda>r. SentMessage (content_request msg ts\<lparr>sqGroupID := tGroupID (trTarget r)\<rparr>))
         (filter (\<lambda>r. Target_IsGroup (trTarget r)) (srResults res1))
      = map SentMessage (map (\<lambda>t. (content_request msg ts)\<lparr>sqGroupID := tGroupID t\<rparr>) (filter Target_IsGroup targets))"
    using filter_map_targets [of "\<lambda>t. SentMessage (content_request msg ts\<lparr>sqGroupID := tGroupID t\<rparr>)" Target_IsGroup "srResults res1"] U
    by (simp add: comp_def)
  then show thesis
    using that [of res2] assms u g U gl group_loop_D [OF gl]
    by (auto simp: dispatch_def sendToGroups_def requestsFor_def)
qed

lemma requestsFor_permits:
  assumes "set ts \<subseteq> range (resolveTarget own dir)" "\<forall>t\<in>set ts. permittedTarget own dir R t"
  shows "\<forall>q\<in>set (requestsFor msg t0 ts). permits own dir R (SentMessage q)"
proof -
  have "permittedUser own dir R r" if "r \<in> set (userTargets ts)" for r
    using that assms permittedTarget_user by (fastforce simp: userTargets_def)
  moreover have "permittedGroup R (tGroupID t)" if "t \<in> set ts" "Target_IsGroup t" for t
    using that assms permittedTarget_group by fastforce
  ultimately show ?thesis
    by (auto simp: requestsFor_def permits_def content_request_def noSendRequest_def Target_IsGroup_def)
qed

lemma sendsIf_dispatch:
  assumes "set ts \<subseteq> range (resolveTarget own dir)"
  shows "sendsIf own dir (\<lambda>R. P R \<and> (\<forall>t\<in>set ts. permittedTarget own dir R t)) (dispatch (logging C) action msg ts t0)"
  unfolding sendsIf_def
proof (intro allI impI)
  fix s r s'
  assume run: "dispatch (logging C) action msg ts t0 s = (r, s')" and ok: "allow_ok own dir (allow s)"
    and P: "P (rules (allow s)) \<and> (\<forall>t\<in>set ts. permittedTarget own dir (rules (allow s)) t)"
  then have "\<forall>q\<in>set (requestsFor msg t0 ts). permits own dir (rules (allow s)) (SentMessage q)"
    using requestsFor_permits [OF assms] by blast
  with ok show "allow_ok own dir (allow s') \<and> rules (allow s') = rules (allow s)
     \<and> (\<exists>new. snd (world s') = snd (world s) @ new \<and> (\<forall>x\<in>set new. permits own dir (rules (allow s)) x))"
    by (auto intro: dispatch_D [OF run])
qed

section \<open>Every use case keeps to the allowlist\<close>

lemma nextTimestamp_D:
  assumes "nextTimestamp (logging C) s = (r, s')"
  shows "r = Inr (lastTimestamp s') \<and> lastTimestamp s + 1 \<le> lastTimestamp s' \<and> allow s' = allow s
    \<and> snd (world s') = snd (world s)"
  using assms framesD [OF log_inv.frames_Now refl]
  by (auto simp: nextTimestamp_def andThen_def callNow_def logging_def onFst_def Let_def split: prod.splits)

lemma sendsIf_nextTimestamp: "sendsIf own dir P (nextTimestamp (logging C))"
  unfolding sendsIf_def using nextTimestamp_D by fastforce

lemma sendsIf_ret: "sendsIf own dir P (ret x)"
  by (simp add: sendsIf_def ret_def)

lemma sendsIf_fail: "sendsIf own dir P (fail e)"
  by (simp add: sendsIf_def fail_def)

lemma sendsIf_then:
  assumes "sendsIf own dir P m" "\<And>x. sendsIf own dir P (f x)"
  shows "sendsIf own dir P (andThen m f)"
  by (rule sendsIf_andThen [where Q = "\<lambda>_. True"]) (simp_all add: assms)

lemma ResolveRecipients_range:
  assumes "directory C own dir" "ResolveRecipients U (logging C) args s = (Inr ts, s')"
  shows "set ts \<subseteq> range (resolveTarget own dir)"
proof -
  obtain ps where "ts = dedupe (map (resolveTarget own dir) ps)"
    by (rule ResolveRecipients_D [OF directory_logging [OF assms(1)] assms(2)])
  then show ?thesis
    using firsts_sub [of dedupeKey "map (resolveTarget own dir) ps" "[]"]
    by (auto simp: dedupe_def dedupe_loop_firsts)
qed

lemma wrapping_Inr: "wrapping a m s = (Inr x, s') \<Longrightarrow> m s = (Inr x, s')"
  by (auto simp: wrapping_def split: prod.splits sum.splits)

lemma sendsIf_sendPreparedContent:
  assumes D: "directory C own dir" and b: "\<And>ts L. frames (\<lambda>w. snd w = L) (build ts)"
  shows "sendsIf own dir P (sendPreparedContent U (logging C) action recipients build)"
  unfolding sendPreparedContent_def
proof (rule sendsIf_then)
  show "sendsIf own dir P (wrapping action (wrapping ''connect'' (connectSendOnly (logging C))))"
    by (intro sendsIf_frames frame_intros log_inv.frames_connect)
next
  show "sendsIf own dir P (andThen (wrapping action (ResolveRecipients U (logging C) recipients)) (\<lambda>targets.
     andThen (wrapping action (checkAllowed (logging C) targets)) (\<lambda>_.
     andThen (wrapping action (build targets)) (\<lambda>(msg, x).
     andThen (nextTimestamp (logging C)) (\<lambda>ts.
     andThen (dispatch (logging C) action msg targets ts) (\<lambda>(res, e). ret (res, e, x)))))))"
  proof (rule sendsIf_andThen [where Q = "\<lambda>ts. set ts \<subseteq> range (resolveTarget own dir)"])
    show "sendsIf own dir P (wrapping action (ResolveRecipients U (logging C) recipients))"
      by (intro sendsIf_frames frame_intros log_inv.frames_ResolveRecipients)
  next
    fix targets assume "set targets \<subseteq> range (resolveTarget own dir)"
    then show "sendsIf own dir P (andThen (wrapping action (checkAllowed (logging C) targets)) (\<lambda>_.
     andThen (wrapping action (build targets)) (\<lambda>(msg, x).
     andThen (nextTimestamp (logging C)) (\<lambda>ts.
     andThen (dispatch (logging C) action msg targets ts) (\<lambda>(res, e). ret (res, e, x))))))"
      by (intro sendsIf_checked [OF D disjI2 [OF refl]] sendsIf_then [OF sendsIf_frames] frame_intros b)
        (auto intro!: sendsIf_then sendsIf_nextTimestamp sendsIf_dispatch sendsIf_ret split: prod.split)
  next
    show "\<And>s x s'. wrapping action (ResolveRecipients U (logging C) recipients) s = (Inr x, s') \<Longrightarrow>
      set x \<subseteq> range (resolveTarget own dir)"
      by (rule ResolveRecipients_range [OF D wrapping_Inr])
  qed
qed

text \<open>What the use cases build before they send only looks things up.\<close>

context world_inv
begin

lemma frames_resolveAuthor: "frames W (resolveAuthor C author)"
  unfolding resolveAuthor_def by (intro frame_intros frames_resolveUsers)

lemma frames_resolveContent: "frames W (resolveContent U C req)"
  unfolding resolveContent_def Let_def
  by (auto intro!: frame_intros frames_resolveUsers split: prod.split)

lemma frames_buildSticker: "frames W (buildSticker C ref)"
  unfolding buildSticker_def
  by (auto intro!: frame_intros frames_calls split: list.split)

lemma frames_buildContent: "frames W (buildContent U C req files styles)"
  unfolding buildContent_def Let_def
  by (auto intro!: frame_intros frames_calls frames_buildSticker frames_resolveContent split: option.split)

lemma frames_checkAppEdit: "frames W (checkAppEdit C req)"
  unfolding checkAppEdit_def by (auto intro!: frame_intros frames_Now)

lemma frames_checkPinGroup: "frames W (checkPinGroup C g own)"
  unfolding checkPinGroup_def Let_def by (auto intro!: frame_intros frames_calls split: prod.split)

lemma frames_pin_groups_loop: "frames W (pin_groups_loop U C args seen own)"
  by (induction args arbitrary: seen own)
    (auto intro!: frame_intros frames_calls frames_checkPinGroup split: sum.split option.split)

lemma frames_resolvePinAuthor: "frames W (resolvePinAuthor C author)"
  unfolding resolvePinAuthor_def
  by (auto intro!: frame_intros frames_calls frames_markSelf split: prod.split list.split)

lemma frames_rejectOwnViewedSender: "frames W (rejectOwnViewedSender C target)"
  unfolding rejectOwnViewedSender_def by (auto intro!: frame_intros frames_calls)

lemmas frames_builds = frames_resolveAuthor frames_resolveContent frames_buildContent frames_checkAppEdit
  frames_pin_groups_loop frames_resolvePinAuthor frames_rejectOwnViewedSender frames_calls

end

text \<open>A use case that sends, with its request.\<close>

datatype command =
    CmdSend AppSendRequest
  | CmdReact ReactRequest
  | CmdDelete DeleteRequest
  | CmdPollCreate PollCreateRequest
  | CmdPollVote PollVoteRequest
  | CmdPollClose PollCloseRequest
  | CmdPin PinRequest
  | CmdUnpin UnpinRequest
  | CmdViewed ViewedReceiptRequest

text \<open>Running one, for its error.\<close>

definition outcome :: "('c, 'a) action \<Rightarrow> ('a \<Rightarrow> err option) \<Rightarrow> 'c App \<Rightarrow> err option \<times> 'c App" where
  "outcome m e s = (case m s of (Inl x, s') \<Rightarrow> (Some x, s') | (Inr a, s') \<Rightarrow> (e a, s'))"

fun run_command ::
  "uuid_lib \<Rightarrow> file_lib \<Rightarrow> unicode_lib \<Rightarrow> 'c Client \<Rightarrow> command \<Rightarrow> 'c App \<Rightarrow> err option \<times> 'c App" where
  "run_command U F T C (CmdSend req) = outcome (Send U F C req) (\<lambda>(_, e, _). e)"
| "run_command U F T C (CmdReact req) = outcome (React U T C req) (\<lambda>(_, e, _). e)"
| "run_command U F T C (CmdDelete req) = outcome (App_Delete U C req) (\<lambda>(_, e, _). e)"
| "run_command U F T C (CmdPollCreate req) = outcome (PollCreate U C req) (\<lambda>(_, e, _). e)"
| "run_command U F T C (CmdPollVote req) = outcome (App_PollVote U C req) (\<lambda>(_, e, _). e)"
| "run_command U F T C (CmdPollClose req) = outcome (App_PollClose U C req) (\<lambda>(_, e, _). e)"
| "run_command U F T C (CmdPin req) = outcome (App_Pin U C req) (\<lambda>(_, e, _). e)"
| "run_command U F T C (CmdUnpin req) = outcome (App_Unpin U C req) (\<lambda>(_, e, _). e)"
| "run_command U F T C (CmdViewed req) = outcome (SendViewedReceipt U C req) (\<lambda>_. None)"

definition run_commands ::
  "uuid_lib \<Rightarrow> file_lib \<Rightarrow> unicode_lib \<Rightarrow> 'c Client \<Rightarrow> command list \<Rightarrow> 'c App \<Rightarrow> 'c App" where
  "run_commands U F T C cmds s = fold (\<lambda>c s. snd (run_command U F T C c s)) cmds s"

text \<open>The checks and lookups of the use cases before they send, and what they share after them.\<close>

lemma sendsIf_quiet:
  assumes "\<And>L. frames (\<lambda>w. snd w = L) m" "\<And>x. sendsIf own dir P (f x)"
  shows "sendsIf own dir P (andThen m f)"
  by (rule sendsIf_then [OF sendsIf_frames]) (use assms in auto)

lemmas sendsIf_check = sendsIf_quiet [OF frames_wrapping [OF frames_ofCheck]]
  sendsIf_quiet [OF frames_wrapping [OF frames_ofRes]] sendsIf_quiet [OF frames_ofRes]
  sendsIf_quiet [OF frames_wrapping [OF log_inv.frames_checkAppEdit]]

lemma sendsIf_use_cases:
  assumes "directory C own dir"
  shows "sendsIf own dir P (Send U F (logging C) sreq)" "sendsIf own dir P (React U T (logging C) rreq)"
    "sendsIf own dir P (App_Delete U (logging C) dreq)" "sendsIf own dir P (PollCreate U (logging C) creq)"
    "sendsIf own dir P (App_PollVote U (logging C) vreq)" "sendsIf own dir P (App_PollClose U (logging C) lreq)"
    "sendsIf own dir P (App_Pin U (logging C) preq)" "sendsIf own dir P (App_Unpin U (logging C) ureq)"
  unfolding Send_def React_def App_Delete_def PollCreate_def App_PollVote_def App_PollClose_def App_Pin_def
    App_Unpin_def sendContent_def noExtra_def Let_def checkPinGroups_def
  by (auto intro!: sendsIf_check sendsIf_sendPreparedContent [OF assms] frame_intros log_inv.frames_builds
      split: prod.split)

lemma sendsIf_SendReceipt:
  assumes "permittedUser own dir R r"
  shows "sendsIf own dir (\<lambda>S. S = R) (callErr (clSendReceipt (logging C) r t ts))"
  using assms unfolding sendsIf_def
  by (auto simp: callErr_def logging_def noting_def permits_def split: prod.splits option.splits)

lemma sendsIf_pre: "(\<And>R. P R \<Longrightarrow> sendsIf own dir (\<lambda>S. S = R) m) \<Longrightarrow> sendsIf own dir P m"
  unfolding sendsIf_def by blast

lemma sendsIf_viewed_targets:
  assumes D: "directory C own dir" and ts: "ts \<noteq> []" "\<forall>t\<in>set ts. \<exists>p. t = resolveTarget own dir p \<and> \<not> Target_IsGroup p"
  shows "sendsIf own dir P (andThen (checkAllowed (logging C) ts) (\<lambda>_.
     andThen (callErr (clSendReceipt (logging C) (tRecipient (hd ts)) ReceiptViewed stamps)) (\<lambda>_. ret x)))"
proof (rule sendsIf_checked [OF D disjI1 [OF refl]], rule sendsIf_pre, elim conjE)
  fix R assume "\<forall>t\<in>set ts. permittedTarget own dir R t"
  then have "permittedUser own dir R (tRecipient (hd ts))"
    using ts permittedTarget_user [of own dir R] by (metis list.set_sel(1))
  then show "sendsIf own dir (\<lambda>S. S = R)
     (andThen (callErr (clSendReceipt (logging C) (tRecipient (hd ts)) ReceiptViewed stamps)) (\<lambda>_. ret x))"
    by (intro sendsIf_then sendsIf_SendReceipt sendsIf_ret)
qed

lemma ResolveRecipients_users:
  assumes "directory C own dir" "ResolveRecipients U (logging C) [a] s = (Inr ts, s')"
    "ParseRecipient U a = Inr p" "\<not> Target_IsGroup p"
  shows "\<forall>t\<in>set ts. \<exists>p. t = resolveTarget own dir p \<and> \<not> Target_IsGroup p"
proof -
  obtain ps where "list_all2 (\<lambda>a p. ParseRecipient U a = Inr p) [a] ps" "ts = dedupe (map (resolveTarget own dir) ps)"
    by (rule ResolveRecipients_D [OF directory_logging [OF assms(1)] assms(2)])
  then have "ts = [resolveTarget own dir p]"
    using assms(3) by (auto simp: list_all2_Cons1 dedupe_def)
  then show ?thesis using assms(4) by auto
qed

lemma sendsIf_SendViewedReceipt:
  assumes D: "directory C own dir"
  shows "sendsIf own dir P (SendViewedReceipt U (logging C) req)"
  unfolding SendViewedReceipt_def
proof (rule sendsIf_wrapping, rule sendsIf_andThen [where Q = "\<lambda>(target, _). ParseRecipient U (vrSender req) = Inr target
    \<and> \<not> Target_IsGroup target"], goal_cases)
  case 1
  show ?case by (rule sendsIf_frames [OF frames_ofRes])
next
  case (2 s x s')
  then show ?case
    by (auto simp: validateViewedReceipt_def ofRes_def split: sum.splits if_splits)
next
  case (3 x)
  then obtain target stamps where x: "x = (target, stamps)" "ParseRecipient U (vrSender req) = Inr target"
    "\<not> Target_IsGroup target" by fastforce
  let ?Q = "\<lambda>ts. \<forall>t\<in>set ts. \<exists>p. t = resolveTarget own dir p \<and> \<not> Target_IsGroup p"
  have "sendsIf own dir P (andThen (ResolveRecipients U (logging C) [vrSender req]) (\<lambda>targets.
     if targets = [] then fail panic
     else andThen (rejectOwnViewedSender (logging C) (hd targets)) (\<lambda>_.
     andThen (checkAllowed (logging C) targets) (\<lambda>_.
     andThen (callErr (clSendReceipt (logging C) (tRecipient (hd targets)) ReceiptViewed stamps)) (\<lambda>_.
       ret (tRecipient (hd targets), stamps))))))"
  proof (rule sendsIf_andThen [where Q = ?Q])
    show "sendsIf own dir P (ResolveRecipients U (logging C) [vrSender req])"
      by (intro sendsIf_frames log_inv.frames_ResolveRecipients)
    show "?Q ts" if "ResolveRecipients U (logging C) [vrSender req] s = (Inr ts, s')" for s ts s'
      by (rule ResolveRecipients_users [OF D that x(2,3)])
  qed (auto intro!: sendsIf_quiet sendsIf_viewed_targets [OF D] sendsIf_fail log_inv.frames_builds)
  from sendsIf_quiet [OF log_inv.frames_rejectOwnViewedSender sendsIf_quiet [OF frames_wrapping [OF log_inv.frames_connect] this]]
  show ?case by (simp add: x)
qed

lemma sendsIf_run_command:
  fixes s :: "('c \<times> sent list) App"
  assumes "directory C own dir" "run_command U F T (logging C) cmd s = (r, s')" "allow_ok own dir (allow s)"
  obtains new where "allow_ok own dir (allow s')" "rules (allow s') = rules (allow s)"
    "snd (world s') = snd (world s) @ new" "\<forall>x\<in>set new. permits own dir (rules (allow s)) x"
proof -
  have "\<exists>new. allow_ok own dir (allow s') \<and> rules (allow s') = rules (allow s)
      \<and> snd (world s') = snd (world s) @ new \<and> (\<forall>x\<in>set new. permits own dir (rules (allow s)) x)"
    if m: "sendsIf own dir (\<lambda>_. True) m" and r: "outcome m e s = (r, s')" for m :: "('c \<times> sent list, 'x) action" and e
  proof -
    have "m s = (fst (m s), s')" using r by (auto simp: outcome_def split: prod.splits sum.splits)
    from sendsIfD [OF m this assms(3)] show ?thesis by metis
  qed
  note step = this
  show thesis
    using assms(2) step [OF sendsIf_SendViewedReceipt [OF assms(1)]] step [OF sendsIf_use_cases(1) [OF assms(1)]]
      step [OF sendsIf_use_cases(2) [OF assms(1)]] step [OF sendsIf_use_cases(3) [OF assms(1)]]
      step [OF sendsIf_use_cases(4) [OF assms(1)]] step [OF sendsIf_use_cases(5) [OF assms(1)]]
      step [OF sendsIf_use_cases(6) [OF assms(1)]] step [OF sendsIf_use_cases(7) [OF assms(1)]]
      step [OF sendsIf_use_cases(8) [OF assms(1)]] that
    by (cases cmd) (simp_all, blast+)
qed

section \<open>The results of a use case\<close>

lemma andThen_cases:
  assumes "andThen m f s = (r, s')"
  obtains (stop) e where "m s = (Inl e, s')" "r = Inl e"
  | (step) x s1 where "m s = (Inr x, s1)" "f x s1 = (r, s')"
  using assms by (auto simp: andThen_def split: prod.splits sum.splits)

lemma SendResult_err_spec:
  "SendResult_err action res = None \<longleftrightarrow> (\<forall>t\<in>set (srResults res). TargetResult_OK t)"
  "SendResult_err action res = Some x \<Longrightarrow> errors_Is x ErrSendFailed"
proof -
  have "SendResult_Failed res = 0 \<longleftrightarrow> (\<forall>t\<in>set (srResults res). TargetResult_OK t)"
    by (auto simp: SendResult_Failed_def filter_empty_conv)
  then show "SendResult_err action res = None \<longleftrightarrow> (\<forall>t\<in>set (srResults res). TargetResult_OK t)"
    by (auto simp: SendResult_err_def Let_def split: option.splits)
qed (auto simp: SendResult_err_def Let_def split: option.splits if_splits)

section \<open>What a Send sends\<close>

text \<open>What the users \<open>ts\<close> resolve to in one lookup from \<open>s\<close>: as many, in their order, and with a client that
  answers from a directory what the directory has of each.\<close>

definition resolvedAs :: "'c Client \<Rightarrow> Target list \<Rightarrow> 'c App \<Rightarrow> Target list \<Rightarrow> 'c App \<Rightarrow> bool" where
  "resolvedAs C ts s who s' \<longleftrightarrow> resolveUsers C ts s = (Inr who, s') \<and> length who = length ts
     \<and> (\<forall>own dir. directory C own dir \<longrightarrow> who = map (resolveTarget own dir) ts)"

text \<open>The mentions of a message: one per mention found in the text, at its offset, of the user it names.\<close>

definition mentionsAre :: "mention list \<Rightarrow> Target list \<Rightarrow> Mention list \<Rightarrow> bool" where
  "mentionsAre found who ms \<longleftrightarrow> length ms = length found \<and> (\<forall>i<length found.
     mStart (ms ! i) = mnStart (found ! i) \<and> mLength (ms ! i) = 1 \<and> mRecipient (ms ! i) = tRecipient (who ! i))"

definition quoteIs :: "uuid_lib \<Rightarrow> string \<Rightarrow> (Target \<times> u64) \<Rightarrow> Target \<Rightarrow> Target list \<Rightarrow> Quote \<Rightarrow> bool" where
  "quoteIs U text ref author who q \<longleftrightarrow> qAuthor q = tRecipient author \<and> qTimestamp q = snd ref
     \<and> qText q = fst (parseMentions U text) \<and> mentionsAre (snd (parseMentions U text)) who (qMentions q)"

text \<open>The text of a message: the body (nothing for a blank one) without the mention syntax, with its
  mentions, and the quoted message with its author, time, text and mentions; the mentioned users and
  the author are looked up together.\<close>

definition sendsText :: "uuid_lib \<Rightarrow> 'c Client \<Rightarrow> AppSendRequest \<Rightarrow> 'c App \<Rightarrow> content \<Rightarrow> 'c App \<Rightarrow> bool" where
  "sendsText U C req s msg s' \<longleftrightarrow>
    (let (body, found) = parseMentions U (if TrimSpace (asBody req) = [] then [] else asBody req);
         quoteMentions = snd (parseMentions U (asQuoteText req))
     in cnBody msg = body \<and>
       (if asQuote req = [] then asQuoteText req = [] \<and> cnQuote msg = None \<and>
          (\<exists>who. resolvedAs C (map mnTarget found) s who s' \<and> mentionsAre found who (cnMentions msg))
        else \<exists>ref who quoteWho author q. ParseQuote U (asQuote req) = Inr ref
          \<and> resolvedAs C (map mnTarget found @ map mnTarget quoteMentions @ [fst ref]) s (who @ quoteWho @ [author]) s'
          \<and> length who = length found \<and> mentionsAre found who (cnMentions msg)
          \<and> cnQuote msg = Some q \<and> quoteIs U (asQuoteText req) ref author quoteWho q))"

text \<open>The files named in the request, loaded and uploaded together, are the attachments.\<close>

definition attachesFiles :: "file_lib \<Rightarrow> 'c Client \<Rightarrow> AppSendRequest \<Rightarrow> 'c App \<Rightarrow> content \<Rightarrow> 'c App \<Rightarrow> bool" where
  "attachesFiles F C req s msg s' \<longleftrightarrow> (\<exists>files.
     loadAttachments F (asAttachDir req) (asAttachments req) = Inr files \<and> length files = length (asAttachments req)
     \<and> (if files = [] then cnAttachments msg = [] \<and> s' = s
        else call (clUpload C files) s = (Inr (cnAttachments msg), s')))"

text \<open>The sticker is what the client fetched for the reference, with its image as it was uploaded.\<close>

definition sendsSticker :: "'c Client \<Rightarrow> StickerReference \<Rightarrow> 'c App \<Rightarrow> content \<Rightarrow> 'c App \<Rightarrow> bool" where
  "sendsSticker C ref s msg s' \<longleftrightarrow> StickerReference_Check ref = None \<and> (\<exists>data image s1.
     call (clFetchSticker C ref) s = (Inr data, s1) \<and> call (clUpload C [sdImage data]) s1 = (Inr [image], s')
     \<and> msg = noContent\<lparr>cnSticker := Some \<lparr>osReference = ref, osEmoji = sdEmoji data, osImage = image\<rparr>\<rparr>)"

definition onlyText :: "content \<Rightarrow> bool" where
  "onlyText msg \<longleftrightarrow> cnPin msg = None \<and> cnUnpin msg = None \<and> cnPollCreate msg = None \<and> cnPollVote msg = None
     \<and> cnPollClose msg = None \<and> cnSticker msg = None \<and> cnReaction msg = None \<and> cnDeleteTarget msg = 0"

text \<open>The content of a Send, from the state before the lookups to the one after the uploads: the sticker
  alone, or the text with the parsed styles, the edited message and the files, and nothing else; never
  an empty text without a file.\<close>

definition sendsContent ::
  "uuid_lib \<Rightarrow> file_lib \<Rightarrow> 'c Client \<Rightarrow> AppSendRequest \<Rightarrow> 'c App \<Rightarrow> content \<Rightarrow> 'c App \<Rightarrow> bool" where
  "sendsContent U F C req s msg s' \<longleftrightarrow> (case asSticker req of
      Some ref \<Rightarrow> asBody req = [] \<and> asStyles req = [] \<and> asAttachments req = [] \<and> asQuote req = [] \<and> asQuoteText req = []
        \<and> asEditTarget req = 0 \<and> sendsSticker C ref s msg s'
    | None \<Rightarrow> cnEditTarget msg = asEditTarget req \<and> parseStyles U (asBody req) (asStyles req) = Inr (cnStyles msg)
        \<and> (TrimSpace (asBody req) = [] \<longrightarrow> asAttachments req \<noteq> [])
        \<and> (\<exists>s1. sendsText U C req s msg s1 \<and> attachesFiles F C req s1 msg s')
        \<and> onlyText msg)"

text \<open>The answers of the client to requests given to it one after the other.\<close>

fun deliver :: "'c Client \<Rightarrow> SendRequest list \<Rightarrow> 'c \<Rightarrow> ClientSendResult res list \<times> 'c" where
  "deliver C [] w = ([], w)"
| "deliver C (q # qs) w = (case clSend C q w of (a, w1) \<Rightarrow> (case deliver C qs w1 of (as, w2) \<Rightarrow> (a # as, w2)))"

text \<open>The entries of a result: the n-th user has what the answer to the request for all users says of the
  n-th of them, a group what the answer to its own request says.\<close>

definition userEntry :: "ClientSendResult res \<Rightarrow> nat \<Rightarrow> Target \<Rightarrow> TargetResult" where
  "userEntry answer n t = (case answer of
     Inl e \<Rightarrow> \<lparr>trTarget = t, trUnidentified = False, trMembers = [], trErr = Some e\<rparr>
   | Inr a \<Rightarrow> if n < length (csResults a)
       then \<lparr>trTarget = t, trUnidentified = rrUnidentified (csResults a ! n), trMembers = [], trErr = rrErr (csResults a ! n)\<rparr>
       else \<lparr>trTarget = t, trUnidentified = False, trMembers = [], trErr = Some (Sentinel ErrNoResult)\<rparr>)"

definition groupEntry :: "ClientSendResult res \<Rightarrow> Target \<Rightarrow> TargetResult" where
  "groupEntry answer t = \<lparr>trTarget = t, trUnidentified = False,
     trMembers = (case answer of Inl _ \<Rightarrow> [] | Inr a \<Rightarrow> csResults a),
     trErr = (case answer of Inl e \<Rightarrow> Some e | Inr _ \<Rightarrow> None)\<rparr>"

text \<open>Every entry follows from the answers, the one to the request for all users (if there are any) first.\<close>

definition reports :: "ClientSendResult res list \<Rightarrow> TargetResult list \<Rightarrow> bool" where
  "reports answers rs \<longleftrightarrow> (let targets = map trTarget rs;
       groups = (if userTargets targets = [] then answers else tl answers)
     in \<forall>i<length rs. rs ! i = (if Target_IsGroup (targets ! i)
        then groupEntry (groups ! length (filter Target_IsGroup (take i targets))) (targets ! i)
        else userEntry (hd answers) (length (userTargets (take i targets))) (targets ! i)))"

text \<open>The targets of the arguments: each argument parses and is looked up, of those that name the same
  group or user one is left, in the order of the arguments, and the allowlist accepts them all.\<close>

definition reaches :: "uuid_lib \<Rightarrow> 'c Client \<Rightarrow> string list \<Rightarrow> 'c App \<Rightarrow> Target list \<Rightarrow> 'c App \<Rightarrow> bool" where
  "reaches U C args s targets s' \<longleftrightarrow> args \<noteq> [] \<and> (\<exists>s1 ps who s2. connectSendOnly C s = (Inr (), s1)
     \<and> list_all2 (\<lambda>a p. ParseRecipient U a = Inr p) args ps \<and> resolvedAs C ps s1 who s2
     \<and> subseq targets who \<and> dedupeKey ` set targets = dedupeKey ` set who \<and> distinct (map dedupeKey targets)
     \<and> checkAllowed C targets s2 = (Inr (), s'))"

text \<open>An edit replaces an earlier message by a text that is not blank.\<close>

definition editsPast :: "'c Client \<Rightarrow> AppSendRequest \<Rightarrow> 'c App \<Rightarrow> 'c App \<Rightarrow> bool" where
  "editsPast C req s s' \<longleftrightarrow> (if asEditTarget req = 0 then s' = s
     else TrimSpace (asBody req) \<noteq> [] \<and> (\<exists>t. callNow C s = (Inr t, s') \<and> asEditTarget req < of_int (UnixMilli t)))"

text \<open>A request to the client has all of the content, and the timestamp.\<close>

definition carries :: "content \<Rightarrow> u64 \<Rightarrow> SendRequest \<Rightarrow> bool" where
  "carries msg ts q \<longleftrightarrow> sqTimestamp q = ts \<and> sqBody q = cnBody msg \<and> sqStyles q = cnStyles msg
     \<and> sqMentions q = cnMentions msg \<and> sqQuote q = cnQuote msg \<and> sqAttachments q = cnAttachments msg
     \<and> sqSticker q = cnSticker msg \<and> sqEditTarget q = cnEditTarget msg \<and> sqReaction q = cnReaction msg
     \<and> sqDeleteTarget q = cnDeleteTarget msg \<and> sqPin q = cnPin msg \<and> sqUnpin q = cnUnpin msg
     \<and> sqPollCreate q = cnPollCreate msg \<and> sqPollVote q = cnPollVote msg \<and> sqPollClose q = cnPollClose msg"

text \<open>A successful Send, from \<open>s\<close> to \<open>s'\<close>: the targets of the request's arguments, its content, a timestamp,
  and one request for all users and one per group, whose answers are the result.\<close>

definition sendsRequest ::
  "uuid_lib \<Rightarrow> file_lib \<Rightarrow> 'c Client \<Rightarrow> AppSendRequest \<Rightarrow> 'c App \<Rightarrow> SendResult \<Rightarrow> SendRequest list \<Rightarrow> 'c App \<Rightarrow> bool" where
  "sendsRequest U F C req s res requests s' \<longleftrightarrow> (\<exists>s0 s1 msg s2 t s3 answers.
     editsPast C req s s0
   \<and> reaches U C (asRecipients req) s0 (map trTarget (srResults res)) s1
   \<and> sendsContent U F C req s1 msg s2
   \<and> callNow C s2 = (Inr t, s3) \<and> srTimestamp res = max (of_int (UnixMilli t)) (lastTimestamp s + 1)
   \<and> requests = requestsFor msg (srTimestamp res) (map trTarget (srResults res))
   \<and> (\<forall>q\<in>set requests. carries msg (srTimestamp res) q)
   \<and> deliver C requests (world s3) = (answers, world s') \<and> reports answers (srResults res))"

section \<open>The content of a Send\<close>

lemma markSelf_loop_length:
  "markSelf_loop C i own ts s = (Inr (ts', p), s') \<Longrightarrow> length ts' = length ts"
proof (induction ts arbitrary: i own ts' p s s')
  case (Cons t ts)
  then show ?case
    by (auto simp: ret_def elim!: andThen_cases split: if_splits prod.splits option.splits)
qed (simp add: ret_def)

lemma assign_resolved_length: "assign_resolved ts p rs = Inr ts' \<Longrightarrow> length ts' = length ts"
  by (induction ts p rs rule: assign_resolved.induct) auto

lemma resolveUsers_length: "resolveUsers C ts s = (Inr who, s') \<Longrightarrow> length who = length ts"
  by (auto simp: resolveUsers_def markSelf_def ret_def ofRes_def elim!: andThen_cases
      dest!: markSelf_loop_length assign_resolved_length split: if_splits)

lemma resolvedAs_resolve: "resolveUsers C ts s = (Inr who, s') \<Longrightarrow> resolvedAs C ts s who s'"
  using directory.resolveUsers_map resolveUsers_length by (fastforce simp: resolvedAs_def)

lemma resolvedAs_none: "resolvedAs C [] s [] s"
  by (rule resolvedAs_resolve) (simp add: resolveUsers_def markSelf_def andThen_def ret_def)

lemma mentionsAre_resolved: "length found \<le> length who \<Longrightarrow> mentionsAre found who (resolvedMentions found who)"
  by (simp add: mentionsAre_def resolvedMentions_def)


lemma resolveContent_D:
  assumes "resolveContent U C req s = (Inr msg, s')" "asQuote req = [] \<Longrightarrow> asQuoteText req = []"
    "asBody req = (if TrimSpace (asBody req) = [] then [] else asBody req)"
  shows "sendsText U C req s msg s' \<and> cnEditTarget msg = asEditTarget req
    \<and> cnAttachments msg = [] \<and> onlyText msg"
proof -
  obtain body found where b: "parseMentions U (asBody req) = (body, found)" by fastforce
  obtain quoteText quoteMentions where q: "parseMentions U (asQuoteText req) = (quoteText, quoteMentions)" by fastforce
  note textD = sendsText_def assms(3) [symmetric] b q Let_def
  note resolve = assms(1) [unfolded resolveContent_def b q Let_def prod.case]
  show ?thesis
  proof (cases "asQuote req = []")
    case True
    then have qm: "quoteMentions = []" using assms(2) q by (simp add: parseMentions_def split_mentions.simps [of "[]"] mention_at_def)
    show ?thesis
    proof (cases "found = []")
      case f: True
      then have "msg = noContent\<lparr>cnBody := body, cnEditTarget := asEditTarget req\<rparr>" "s' = s"
        using resolve True qm by (simp_all add: ofRes_def andThen_def ret_def)
      then show ?thesis using f True assms(2) resolvedAs_none
        by (auto simp: textD noContent_def onlyText_def mentionsAre_def)
    next
      case f: False
      then obtain who where who: "resolveUsers C (map mnTarget found) s = (Inr who, s')"
        and "msg = noContent\<lparr>cnBody := body, cnEditTarget := asEditTarget req, cnMentions := resolvedMentions found who\<rparr>"
        using resolve True qm by (auto simp: ofRes_def ret_def noContent_def elim!: andThen_cases dest!: wrapping_Inr)
      moreover have "mentionsAre found who (resolvedMentions found who)"
        using resolveUsers_length [OF who] by (intro mentionsAre_resolved) simp
      ultimately show ?thesis using True assms(2) resolvedAs_resolve [OF who]
        by (auto simp: textD noContent_def onlyText_def)
    qed
  next
    case False
    then obtain ref where ref: "ParseQuote U (asQuote req) = Inr ref"
      using resolve by (cases "ParseQuote U (asQuote req)") (auto simp: ofRes_def andThen_def)
    let ?ts = "map mnTarget found @ map mnTarget quoteMentions @ [fst ref]"
    obtain all where all: "resolveUsers C ?ts s = (Inr all, s')"
      "msg = noContent\<lparr>cnBody := body, cnEditTarget := asEditTarget req, cnMentions := resolvedMentions found all,
         cnQuote := Some \<lparr>qAuthor = tRecipient (last all), qTimestamp = snd ref, qText = quoteText,
           qMentions = resolvedMentions quoteMentions (drop (length found) all)\<rparr>\<rparr>"
      using resolve False ref by (cases ref) (auto simp: ofRes_def ret_def elim!: andThen_cases dest!: wrapping_Inr)
    let ?who = "take (length found) all" and ?quoteWho = "butlast (drop (length found) all)"
    have len: "length all = length found + length quoteMentions + 1" using resolveUsers_length [OF all(1)] by simp
    then have ne: "drop (length found) all \<noteq> []" by simp
    then have "last (drop (length found) all) = last all" by simp
    then have split: "?who @ ?quoteWho @ [last all] = all"
      using append_butlast_last_id [OF ne] by simp
    have "resolvedAs C ?ts s (?who @ ?quoteWho @ [last all]) s'" unfolding split by (rule resolvedAs_resolve [OF all(1)])
    moreover have "mentionsAre found ?who (resolvedMentions found all)"
      using mentionsAre_resolved [of found all] len by (simp add: mentionsAre_def)
    moreover have "mentionsAre quoteMentions ?quoteWho (resolvedMentions quoteMentions (drop (length found) all))"
      using mentionsAre_resolved [of quoteMentions "drop (length found) all"] len by (simp add: mentionsAre_def nth_butlast)
    moreover have "length ?who = length found" using len by simp
    moreover have Q: "quoteIs U (asQuoteText req) ref (last all) ?quoteWho (the (cnQuote msg))" "cnQuote msg = Some (the (cnQuote msg))"
      using calculation all(2) q by (simp_all add: quoteIs_def)
    moreover have m: "cnMentions msg = resolvedMentions found all" "cnBody msg = body" "cnEditTarget msg = asEditTarget req"
      "cnAttachments msg = [] \<and> onlyText msg"
      using all(2) by (simp_all add: noContent_def onlyText_def)
    ultimately have "\<exists>ref who quoteWho author q. ParseQuote U (asQuote req) = Inr ref
        \<and> resolvedAs C (map mnTarget found @ map mnTarget quoteMentions @ [fst ref]) s (who @ quoteWho @ [author]) s'
        \<and> length who = length found \<and> mentionsAre found who (cnMentions msg)
        \<and> cnQuote msg = Some q \<and> quoteIs U (asQuoteText req) ref author quoteWho q"
      using ref by (intro exI [of _ ref] exI [of _ ?who] exI [of _ ?quoteWho] exI [of _ "last all"]
        exI [of _ "the (cnQuote msg)"] conjI) simp_all
    then show ?thesis using False m unfolding textD by simp
  qed
qed

lemma load_all_length: "load_all F files paths = (out, []) \<Longrightarrow> length out = length paths"
  by (induction paths arbitrary: out) (auto split: sum.splits prod.splits)

lemma loadAttachments_length: "loadAttachments F dir paths = Inr files \<Longrightarrow> length files = length paths"
  using load_all_length by (fastforce simp: loadAttachments_def errors_Join_def split: sum.splits prod.splits if_splits)

lemma prepare_D:
  assumes "prepare U F req = Inr (req', files)" "checkStickerRequest req = None"
  shows "asRecipients req' = asRecipients req \<and> asRecipients req \<noteq> []
    \<and> (case asSticker req of
         Some ref \<Rightarrow> req' = req \<and> files = []
       | None \<Rightarrow> req' = req\<lparr>asBody := if TrimSpace (asBody req) = [] then [] else asBody req\<rparr>
           \<and> (TrimSpace (asBody req) = [] \<longrightarrow> asAttachments req \<noteq> [])
           \<and> (asQuote req = [] \<longrightarrow> asQuoteText req = [])
           \<and> loadAttachments F (asAttachDir req) (asAttachments req) = Inr files)"
proof -
  have chk: "asRecipients q \<noteq> [] \<and> (asQuote q = [] \<longrightarrow> asQuoteText q = [])" if "checkRequest U q = None" for q
    using that by (auto simp: checkRequest_def errors_Join_def split: if_splits)
  from assms show ?thesis
    by (cases req) (auto simp: prepare_def Let_def dest: chk split: if_splits option.splits sum.splits)
qed

lemma buildContent_sends:
  assumes "prepare U F req = Inr (req', files)" "checkStickerRequest req = None"
    "parseStyles U (asBody req) (asStyles req) = Inr styles" "buildContent U C req' files styles s = (Inr msg, s')"
  shows "sendsContent U F C req s msg s'"
proof (cases "asSticker req")
  case None
  note P = prepare_D [OF assms(1,2), unfolded None option.case]
  let ?text = "if TrimSpace (asBody req) = [] then [] else asBody req"
  have req': "asSticker req' = None" "asBody req' = ?text" "asQuote req' = asQuote req" "asQuoteText req' = asQuoteText req"
    "asEditTarget req' = asEditTarget req" "(if TrimSpace ?text = [] then [] else ?text) = ?text"
    using P None by auto
  obtain c s1 where c: "resolveContent U C req' s = (Inr c, s1)"
    "(if files = [] then msg = c\<lparr>cnStyles := styles\<rparr> \<and> s' = s1
      else \<exists>up. call (clUpload C files) s1 = (Inr up, s') \<and> msg = c\<lparr>cnStyles := styles, cnAttachments := up\<rparr>)"
    using assms(4) req'(1) by (auto simp: buildContent_def Let_def ret_def elim!: andThen_cases dest!: wrapping_Inr split: if_splits)
  have R: "sendsText U C req' s c s1 \<and> cnEditTarget c = asEditTarget req'
    \<and> cnAttachments c = [] \<and> onlyText c"
    using P req' by (intro resolveContent_D [OF c(1)]) auto
  have f: "cnBody msg = cnBody c" "cnQuote msg = cnQuote c" "cnMentions msg = cnMentions c"
    "cnEditTarget msg = cnEditTarget c" "cnStyles msg = styles" "onlyText msg = onlyText c"
    using c(2) by (auto simp: onlyText_def split: if_splits)
  have "length files = length (asAttachments req)" using P loadAttachments_length by blast
  then have "attachesFiles F C req s1 msg s'" unfolding attachesFiles_def
    using P c(2) R by (auto split: if_splits)
  moreover have "sendsText U C req s msg s1" using R f req' by (simp only: sendsText_def)
  ultimately show ?thesis using None assms(3) P R f req'(5) by (auto simp: sendsContent_def)
next
  case (Some ref)
  then have req: "asBody req = [] \<and> asStyles req = [] \<and> asAttachments req = [] \<and> asQuote req = []
      \<and> asQuoteText req = [] \<and> asEditTarget req = 0 \<and> StickerReference_Check ref = None"
    using assms(2) by (auto simp: checkStickerRequest_def split: if_splits)
  have "buildSticker C ref s = (Inr msg, s')"
    using prepare_D [OF assms(1,2)] assms(4) Some by (auto simp: buildContent_def)
  then have "sendsSticker C ref s msg s'" using req
    by (auto simp: buildSticker_def sendsSticker_def ret_def fail_def elim!: andThen_cases dest!: wrapping_Inr split: list.splits)
  then show ?thesis using Some req by (simp add: sendsContent_def)
qed

section \<open>The answers to a dispatch\<close>

lemma userTargets_simps [simp]:
  "userTargets [] = []"
  "userTargets (t # ts) = (if Target_IsGroup t then [] else [tRecipient t]) @ userTargets ts"
  by (simp_all add: userTargets_def)

lemma deliver_append:
  "deliver C (qs @ rs) w = (case deliver C qs w of (as, w1) \<Rightarrow> (case deliver C rs w1 of (bs, w2) \<Rightarrow> (as @ bs, w2)))"
  by (induction qs arbitrary: w) (auto split: prod.splits)

abbreviation freshEntry :: "Target \<Rightarrow> TargetResult" where
  "freshEntry t \<equiv> \<lparr>trTarget = t, trUnidentified = False, trMembers = [], trErr = None\<rparr>"

lemma user_results_entries:
  assumes "i < length ts"
  shows "user_results sent n (map freshEntry ts) ! i =
    (if Target_IsGroup (ts ! i) then freshEntry (ts ! i) else userEntry sent (n + length (userTargets (take i ts))) (ts ! i))"
  using assms
proof (induction ts arbitrary: n i)
  case (Cons t ts)
  then show ?case by (cases i) (auto simp: userEntry_def split: sum.splits)
qed simp

definition withAnswer :: "ClientSendResult res \<Rightarrow> TargetResult \<Rightarrow> TargetResult" where
  "withAnswer a r = (case a of Inl e \<Rightarrow> r\<lparr>trErr := Some e\<rparr> | Inr x \<Rightarrow> r\<lparr>trMembers := csResults x\<rparr>)"

lemma withAnswer_fresh: "withAnswer a (freshEntry t) = groupEntry a t"
  by (simp add: withAnswer_def groupEntry_def split: sum.split)

lemma group_loop_entries:
  "group_loop C req rs w = (rs', w') \<Longrightarrow> \<exists>answers.
     deliver C (map (\<lambda>t. req\<lparr>sqGroupID := tGroupID t\<rparr>) (filter Target_IsGroup (map trTarget rs))) w = (answers, w')
   \<and> length rs' = length rs \<and> (\<forall>i<length rs. rs' ! i = (if Target_IsGroup (trTarget (rs ! i))
       then withAnswer (answers ! length (filter Target_IsGroup (take i (map trTarget rs)))) (rs ! i) else rs ! i))"
proof (induction rs arbitrary: w rs' w')
  case (Cons r rs)
  obtain sent w1 where c: "clSend C (req\<lparr>sqGroupID := tGroupID (trTarget r)\<rparr>) w = (sent, w1)" by fastforce
  let ?v = "if Target_IsGroup (trTarget r) then w1 else w"
  obtain rs1 where l: "group_loop C req rs ?v = (rs1, w')"
    "rs' = (if Target_IsGroup (trTarget r) then withAnswer sent r else r) # rs1"
    using Cons.prems c by (auto simp: withAnswer_def split: prod.splits if_splits)
  from Cons.IH [OF l(1)] obtain answers where IH:
    "deliver C (map (\<lambda>t. req\<lparr>sqGroupID := tGroupID t\<rparr>) (filter Target_IsGroup (map trTarget rs))) ?v = (answers, w')"
    "length rs1 = length rs" "\<forall>i<length rs. rs1 ! i = (if Target_IsGroup (trTarget (rs ! i))
       then withAnswer (answers ! length (filter Target_IsGroup (take i (map trTarget rs)))) (rs ! i) else rs ! i)" by blast
  then show ?case using l(2) c
    by (intro exI [of _ "if Target_IsGroup (trTarget r) then sent # answers else answers"])
      (auto simp: All_less_Suc2)
qed simp

lemma dispatch_reports:
  assumes "dispatch C action msg targets ts s = (r, s')"
  obtains res answers where "r = Inr (res, SendResult_err action res)" "srTimestamp res = ts"
    "map trTarget (srResults res) = targets"
    "deliver C (requestsFor msg ts targets) (world s) = (answers, world s')" "reports answers (srResults res)"
proof -
  let ?req = "content_request msg ts" and ?none = "userTargets targets = []"
  have users: "map (tRecipient \<circ> trTarget) (filter (\<lambda>r. \<not> Target_IsGroup (trTarget r)) (map freshEntry targets)) = userTargets targets"
    by (simp add: userTargets_def filter_map comp_def)
  obtain sent w where u: "clSend C (?req\<lparr>sqRecipients := userTargets targets\<rparr>) (world s) = (sent, w)" by fastforce
  define rs0 where "rs0 = (if ?none then map freshEntry targets else user_results sent 0 (map freshEntry targets))"
  let ?w = "if ?none then world s else w"
  obtain rs w' where g: "group_loop C ?req rs0 ?w = (rs, w')" by fastforce
  have run: "r = Inr (\<lparr>srTimestamp = ts, srResults = rs\<rparr>, SendResult_err action \<lparr>srTimestamp = ts, srResults = rs\<rparr>)" "world s' = w'"
    using assms u g users by (auto simp: rs0_def dispatch_def sendToUsers_def sendToGroups_def newResult_def Let_def split: if_splits)
  have t: "map trTarget rs0 = targets" by (simp add: rs0_def comp_def)
  obtain answers where A: "deliver C (map (\<lambda>t. ?req\<lparr>sqGroupID := tGroupID t\<rparr>) (filter Target_IsGroup targets)) ?w = (answers, w')"
    "length rs = length rs0" "\<forall>i<length rs0. rs ! i = (if Target_IsGroup (trTarget (rs0 ! i))
       then withAnswer (answers ! length (filter Target_IsGroup (take i targets))) (rs0 ! i) else rs0 ! i)"
    using group_loop_entries [OF g] unfolding t by blast
  have fresh: "rs0 ! i = (if Target_IsGroup (targets ! i) then freshEntry (targets ! i)
      else userEntry sent (length (userTargets (take i targets))) (targets ! i))" if "i < length targets" for i
    using that nth_mem [OF that] user_results_entries [OF that, of sent 0]
    by (auto simp: rs0_def userTargets_def filter_empty_conv)
  have len: "length rs0 = length targets" using t length_map by metis
  have entry: "rs ! i = (if Target_IsGroup (targets ! i)
      then groupEntry (answers ! length (filter Target_IsGroup (take i targets))) (targets ! i)
      else userEntry sent (length (userTargets (take i targets))) (targets ! i))" if i: "i < length targets" for i
  proof -
    have "trTarget (rs0 ! i) = targets ! i" using nth_map [of i rs0 trTarget] i len t by simp
    then show ?thesis using A(3) fresh [OF i] i len by (simp add: withAnswer_fresh)
  qed
  have targets: "map trTarget rs = targets"
    using entry A(2) len by (intro nth_equalityI) (simp_all add: groupEntry_def userEntry_def split: sum.split)
  show thesis
  proof (rule that)
    show "deliver C (requestsFor msg ts targets) (world s) = (if ?none then answers else sent # answers, world s')"
      using A(1) u run by (auto simp: requestsFor_def deliver_append)
    show "reports (if ?none then answers else sent # answers) (srResults \<lparr>srTimestamp = ts, srResults = rs\<rparr>)"
    proof -
      have "\<exists>t\<in>set targets. \<not> Target_IsGroup t" if "i < length targets" "\<not> Target_IsGroup (targets ! i)" for i
        using that nth_mem by blast
      then have "\<not> ?none" if "i < length targets" "\<not> Target_IsGroup (targets ! i)" for i
        using that by (auto simp: userTargets_def filter_empty_conv)
      then show ?thesis using entry A(2) len by (auto simp: reports_def targets Let_def)
    qed
  qed (use run targets in simp_all)
qed

section \<open>A Send from its request to its result\<close>

lemma deliver_log: "deliver (logging C) qs w = (as, w') \<Longrightarrow> snd w' = snd w @ map SentMessage qs"
proof (induction qs arbitrary: w as)
  case (Cons q qs)
  obtain a w1 where c: "clSend (logging C) q w = (a, w1)" by (metis surj_pair)
  moreover have "snd w1 = snd w @ [SentMessage q]" using c by (auto simp: logging_def noting_def split: prod.splits)
  ultimately show ?case using Cons by (auto split: prod.splits)
qed simp

lemma requestsFor_carry: "\<forall>q\<in>set (requestsFor msg ts targets). carries msg ts q"
  by (auto simp: requestsFor_def carries_def content_request_def)

lemma ResolveRecipients_resolves:
  assumes "ResolveRecipients U C args s = (Inr ts, s')"
  shows "\<exists>ps who. list_all2 (\<lambda>a p. ParseRecipient U a = Inr p) args ps \<and> resolvedAs C ps s who s'
    \<and> subseq ts who \<and> dedupeKey ` set ts = dedupeKey ` set who \<and> distinct (map dedupeKey ts)"
proof -
  obtain ps es where p: "parse_all U args = (ps, es)" by fastforce
  then have es: "es = []" using assms by (auto simp: ResolveRecipients_def errors_Join_def fail_def split: if_splits)
  then obtain who where who: "resolveUsers C ps s = (Inr who, s')" "ts = dedupe who"
    using assms p by (auto simp: ResolveRecipients_def ret_def elim!: andThen_cases dest!: wrapping_Inr split: option.splits)
  show ?thesis
    using parse_all_D p es resolvedAs_resolve [OF who(1)] firsts_subseq [of dedupeKey who "[]"]
      firsts_distinct [of dedupeKey who "[]"] firsts_keys [of dedupeKey who "[]"]
    by (intro exI [of _ ps] exI [of _ who]) (simp add: who(2) dedupe_def dedupe_loop_firsts)
qed

lemma sendPreparedContent_D:
  assumes "sendPreparedContent U C action recipients build s = (Inr (res, e, x), s')" "recipients \<noteq> []"
  obtains s1 msg s2 s3 where "reaches U C recipients s (map trTarget (srResults res)) s1"
    "build (map trTarget (srResults res)) s1 = (Inr (msg, x), s2)"
    "nextTimestamp C s2 = (Inr (srTimestamp res), s3)"
    "dispatch C action msg (map trTarget (srResults res)) (srTimestamp res) s3 = (Inr (res, e), s')"
proof -
  obtain s0 targets s0' s1 msg s2 ts s3 where S: "connectSendOnly C s = (Inr (), s0)"
    "ResolveRecipients U C recipients s0 = (Inr targets, s0')" "checkAllowed C targets s0' = (Inr (), s1)"
    "build targets s1 = (Inr (msg, x), s2)" "nextTimestamp C s2 = (Inr ts, s3)"
    "dispatch C action msg targets ts s3 = (Inr (res, e), s')"
    using assms(1) by (auto simp: sendPreparedContent_def ret_def elim!: andThen_cases dest!: wrapping_Inr)
  then have "srTimestamp res = ts" "map trTarget (srResults res) = targets"
    by (auto elim: dispatch_reports)
  moreover have "reaches U C recipients s targets s1"
    unfolding reaches_def using assms(2) S(1,3) ResolveRecipients_resolves [OF S(2)] by blast
  ultimately show thesis using that S(4-6) by simp
qed

lemma Send_D:
  assumes "Send U F C req s = (Inr (res, e, x), s')"
  obtains req' files styles s0 where "checkStickerRequest req = None" "editsPast C req s s0"
    "checkAppEdit C req s = (Inr (), s0)"
    "parseStyles U (asBody req) (asStyles req) = Inr styles" "prepare U F req = Inr (req', files)"
    "sendPreparedContent U C ''send'' (asRecipients req') (\<lambda>_. noExtra (buildContent U C req' files styles)) s0
       = (Inr (res, e, x), s')"
proof -
  obtain req' files styles s0 where S: "checkStickerRequest req = None" "checkAppEdit C req s = (Inr (), s0)"
    "parseStyles U (asBody req) (asStyles req) = Inr styles" "prepare U F req = Inr (req', files)"
    "sendPreparedContent U C ''send'' (asRecipients req') (\<lambda>_. noExtra (buildContent U C req' files styles)) s0
       = (Inr (res, e, x), s')"
    using assms by (auto simp: Send_def sendContent_def ofCheck_def ofRes_def ret_def fail_def
        elim!: andThen_cases dest!: wrapping_Inr split: option.splits)
  moreover have "editsPast C req s s0" using S(2)
    by (auto simp: checkAppEdit_def editsPast_def ret_def fail_def not_le elim!: andThen_cases split: if_splits)
  ultimately show thesis using that by blast
qed

lemma noExtra_D: "noExtra m s = (Inr (c, x), s') \<Longrightarrow> m s = (Inr c, s')"
  by (auto simp: noExtra_def ret_def elim!: andThen_cases)

lemma reaches_quiet:
  assumes "reaches U (logging C) args s ts s'"
  shows "snd (world s') = snd (world s) \<and> lastTimestamp s' = lastTimestamp s"
proof -
  obtain s1 ps who s2 where r: "connectSendOnly (logging C) s = (Inr (), s1)"
    "resolveUsers (logging C) ps s1 = (Inr who, s2)" "checkAllowed (logging C) ts s2 = (Inr (), s')"
    using assms by (auto simp: reaches_def resolvedAs_def)
  show ?thesis
    using framesD [OF log_inv.frames_connect refl r(1)] framesD [OF log_inv.frames_resolveUsers refl r(2)]
      log_inv.checkAllowed_world [OF refl r(3)] by simp
qed

lemma Send_sends:
  assumes "Send U F (logging C) req s = (Inr (res, e, x), s')"
  shows "\<exists>requests. sendsRequest U F (logging C) req s res requests s'
      \<and> snd (world s') = snd (world s) @ map SentMessage requests"
    and "distinct (map (dedupeKey \<circ> trTarget) (srResults res))" "lastTimestamp s' = srTimestamp res"
    "lastTimestamp s + 1 \<le> srTimestamp res" "e = SendResult_err ''send'' res"
proof -
  let ?ts = "map trTarget (srResults res)" and ?time = "srTimestamp res"
  obtain req' files styles s0 where S: "checkStickerRequest req = None" "editsPast (logging C) req s s0"
    "checkAppEdit (logging C) req s = (Inr (), s0)"
    "parseStyles U (asBody req) (asStyles req) = Inr styles" "prepare U F req = Inr (req', files)"
    "sendPreparedContent U (logging C) ''send'' (asRecipients req')
       (\<lambda>_. noExtra (buildContent U (logging C) req' files styles)) s0 = (Inr (res, e, x), s')"
    by (rule Send_D [OF assms])
  have args: "asRecipients req' = asRecipients req" "asRecipients req \<noteq> []" using prepare_D [OF S(5,1)] by auto
  obtain s1 msg s2 s3 where P: "reaches U (logging C) (asRecipients req) s0 ?ts s1"
    "buildContent U (logging C) req' files styles s1 = (Inr msg, s2)"
    "nextTimestamp (logging C) s2 = (Inr ?time, s3)"
    "dispatch (logging C) ''send'' msg ?ts ?time s3 = (Inr (res, e), s')"
    using sendPreparedContent_D [OF S(6)] args noExtra_D by metis
  have content: "sendsContent U F (logging C) req s1 msg s2" by (rule buildContent_sends [OF S(5,1,4) P(2)])
  obtain t where t: "callNow (logging C) s2 = (Inr t, s3\<lparr>lastTimestamp := lastTimestamp s2\<rparr>)"
    "?time = max (of_int (UnixMilli t)) (lastTimestamp s2 + 1)" "lastTimestamp s3 = ?time"
    using P(3) by (auto simp: nextTimestamp_def callNow_def Let_def elim!: andThen_cases split: prod.splits)
  obtain answers where A: "deliver (logging C) (requestsFor msg ?time ?ts) (world s3) = (answers, world s')"
    "reports answers (srResults res)" "e = SendResult_err ''send'' res"
    using P(4) by (auto elim: dispatch_reports)
  have same: "snd (world s2) = snd (world s) \<and> lastTimestamp s2 = lastTimestamp s"
    using framesD [OF log_inv.frames_checkAppEdit refl S(3)] reaches_quiet [OF P(1)]
      framesD [OF log_inv.frames_buildContent refl P(2)] by simp
  show "e = SendResult_err ''send'' res" by (rule A(3))
  show "distinct (map (dedupeKey \<circ> trTarget) (srResults res))" using P(1) by (auto simp: reaches_def)
  show "lastTimestamp s + 1 \<le> ?time" using t same by simp
  show "lastTimestamp s' = ?time" using dispatch_D [OF P(4)] t(3) by metis
  have "snd (world s3) = snd (world s2)" using nextTimestamp_D [OF P(3)] by simp
  then have "snd (world s') = snd (world s) @ map SentMessage (requestsFor msg ?time ?ts)"
    using deliver_log [OF A(1)] same by simp
  moreover have "sendsRequest U F (logging C) req s res (requestsFor msg ?time ?ts) s'"
    unfolding sendsRequest_def using S(2) P(1) content t same A requestsFor_carry
    by (intro exI conjI) (assumption | simp)+
  ultimately show "\<exists>requests. sendsRequest U F (logging C) req s res requests s'
      \<and> snd (world s') = snd (world s) @ map SentMessage requests" by blast
qed

text \<open>A use case that fails has sent nothing and used no timestamp.\<close>

definition fails_quietly :: "('c \<times> sent list) App \<Rightarrow> 'a res \<Rightarrow> ('c \<times> sent list) App \<Rightarrow> bool" where
  "fails_quietly s r s' \<longleftrightarrow> isOk r \<or> snd (world s') = snd (world s) \<and> lastTimestamp s' = lastTimestamp s"

lemma unsent_andThen:
  assumes "andThen m f s = (r, s')" "\<And>L. frames (\<lambda>w. snd w = L) m"
    "\<And>x s1. m s = (Inr x, s1) \<Longrightarrow> f x s1 = (r, s') \<Longrightarrow> fails_quietly s1 r s'"
  shows "fails_quietly s r s'"
  using assms(1)
proof (cases rule: andThen_cases)
  case (stop e)
  then show ?thesis using framesD [OF assms(2) refl stop(1)] by (simp add: fails_quietly_def)
next
  case (step x s1)
  then show ?thesis
    using assms(3) [OF step] framesD [OF assms(2) refl step(1)] by (simp add: fails_quietly_def)
qed

lemma unsent_checkAllowed:
  assumes "andThen (wrapping action (checkAllowed (logging C) ts)) f s = (r, s')"
    "\<And>x s1. f x s1 = (r, s') \<Longrightarrow> fails_quietly s1 r s'"
  shows "fails_quietly s r s'"
proof -
  obtain q s1 where q: "checkAllowed (logging C) ts s = (q, s1)" by (metis surj_pair)
  note W = log_inv.checkAllowed_world [OF refl q]
  show ?thesis
    using assms q W by (cases q) (auto simp: andThen_def wrapping_def fails_quietly_def)
qed

lemma unsent_dispatch:
  assumes "andThen (nextTimestamp (logging C)) (\<lambda>ts.
     andThen (dispatch (logging C) action msg targets ts) (\<lambda>(res, e). ret (res, e, x))) s = (r, s')"
  shows "fails_quietly s r s'"
  using assms
  by (auto simp: fails_quietly_def isOk_def nextTimestamp_def callNow_def dispatch_def ret_def andThen_def Let_def
      split: prod.splits sum.splits)

lemma unsent_sendPreparedContent:
  assumes "sendPreparedContent U (logging C) action recipients build s = (r, s')"
    "\<And>ts L. frames (\<lambda>w. snd w = L) (build ts)"
  shows "fails_quietly s r s'"
  using assms(1) unfolding sendPreparedContent_def
  apply -
  apply (erule unsent_andThen, intro frame_intros log_inv.frames_connect)
  apply (erule unsent_andThen, intro frame_intros log_inv.frames_ResolveRecipients)
  apply (erule unsent_checkAllowed)
  apply (erule unsent_andThen, intro frame_intros assms(2))
  apply (clarsimp simp: unsent_dispatch)
  done

lemma unsent_Send:
  assumes "Send U F (logging C) req s = (r, s')"
  shows "fails_quietly s r s'"
  using assms unfolding Send_def sendContent_def
  apply -
  apply (erule unsent_andThen, intro frame_intros)
  apply (erule unsent_andThen, intro frame_intros log_inv.frames_checkAppEdit)
  apply (erule unsent_andThen, intro frame_intros)
  apply (erule unsent_andThen, intro frame_intros)
  apply (clarsimp)
  apply (erule unsent_sendPreparedContent)
  apply (unfold noExtra_def, intro frame_intros log_inv.frames_buildContent)
  done

text \<open>C33: A Send that fails has sent nothing and used no timestamp. Otherwise it gave the client one
  message for all users and one per group, all with the same content and the same timestamp, the
  clock's or one more than the last one, which is later than that of any message before (short of the
  last 64-bit timestamp). The targets are what the arguments resolve to, in the order of the arguments
  and none twice, and the allowlist accepts them. The content is the requested sticker, or the body
  with its mentions taken out, resolved and at their offsets, the requested styles, the quote with its
  author and mentions resolved, the edited message, and what the upload of the named files gave. The
  result has one entry per target, in order, with what the client answered for it; it comes with no
  error when every target and every member of a group got the message, and else with the error for
  failed sends.\<close>

theorem Send_spec:
  assumes "Send U F (logging C) req s = (r, s')"
  shows "case r of
     Inl e \<Rightarrow> snd (world s') = snd (world s) \<and> lastTimestamp s' = lastTimestamp s
   | Inr (res, e, _) \<Rightarrow>
       (\<exists>requests. sendsRequest U F (logging C) req s res requests s'
          \<and> snd (world s') = snd (world s) @ map SentMessage requests)
       \<and> distinct (map (dedupeKey \<circ> trTarget) (srResults res)) \<and> lastTimestamp s' = srTimestamp res
       \<and> (lastTimestamp s \<noteq> - 1 \<longrightarrow> lastTimestamp s < srTimestamp res)
       \<and> (e = None \<longleftrightarrow> (\<forall>t\<in>set (srResults res). TargetResult_OK t))
       \<and> (\<forall>x. e = Some x \<longrightarrow> errors_Is x ErrSendFailed)"
proof (cases r)
  case (Inl e)
  then show ?thesis using unsent_Send [OF assms] by (simp add: fails_quietly_def)
next
  case (Inr p)
  obtain res e where p: "p = (res, e, ())" by (metis surj_pair unit.exhaust)
  have "a < b" if "a + 1 \<le> b" "a \<noteq> - 1" for a b :: u64
  proof -
    have "1 + a \<noteq> 0" using that(2) by (metis add.commute eq_neg_iff_add_eq_0)
    from unatSuc [OF this] that(1) show ?thesis by (simp add: word_less_nat_alt word_le_nat_alt add.commute)
  qed
  then show ?thesis using Send_sends [OF assms [unfolded Inr p]] SendResult_err_spec Inr p by auto
qed

text \<open>A file system without files, a message to ourselves, and an App on the demonstration client.\<close>

definition demoFiles :: file_lib where
  "demoFiles = \<lparr>os_Stat = (\<lambda>_. Inl (Opaque ''stat'')), os_Read = (\<lambda>_. Inl (Opaque ''read'')),
     path_Abs = Inr, path_IsAbs = (\<lambda>_. True), path_Rel = (\<lambda>_. Some), path_IsLocal = (\<lambda>_. True),
     path_Join = (@), path_Base = (\<lambda>p. p), path_Ext = (\<lambda>_. []), os_OpenRoot = (\<lambda>_. None),
     root_Stat = (\<lambda>_ _. Inl (Opaque ''stat'')), root_Read = (\<lambda>_ _. Inl (Opaque ''read'')),
     DetectContentType = (\<lambda>_. []), TypeByExtension = (\<lambda>_. []), ParseMediaType = Some,
     img_DecodeConfig = (\<lambda>_. None)\<rparr>"

definition demoRequest :: AppSendRequest where
  "demoRequest = \<lparr>asRecipients = [''self''], asBody = ''hi'', asStyles = [], asAttachments = [],
     asSticker = None, asAttachDir = [], asQuote = [], asQuoteText = [], asEditTarget = 0\<rparr>"

definition demoLogged :: "(unit \<times> sent list) App" where
  "demoLogged = \<lparr>world = ((), []), lastTimestamp = 0, allow = None\<rparr>"

lemma demo_parse: "parseMentions plain_uuid ''hi'' = (''hi'', [])" "TrimSpace ''hi'' = ''hi''"
proof -
  have "split_mentions ''hi'' = ([], ''hi'')"
    by (simp add: split_mentions.simps [of "''hi''"] split_mentions.simps [of "''i''"] split_mentions.simps [of "[]"]
        mention_at_def)
  then show "parseMentions plain_uuid ''hi'' = (''hi'', [])" by (simp add: parseMentions_def)
  show "TrimSpace ''hi'' = ''hi''" by (rule TrimSpace_ascii) (simp_all add: byte_def IsSpace_def)
qed

lemma demo_send:
  "\<exists>res s'. Send plain_uuid demoFiles (logging demoClient) demoRequest demoLogged = (Inr (res, None, ()), s')
     \<and> srTimestamp res = 1700000000000 \<and> length (snd (world s')) = 1"
proof -
  have t: "TrimSpace ''hi'' = ''hi''" by (rule demo_parse)
  have "parseMentions plain_uuid [] = ([], [])"
    by (simp add: parseMentions_def split_mentions.simps [of "[]"] mention_at_def)
  note p = this demo_parse(1)
  have st: "parseStyles plain_uuid ''hi'' [] = Inr []" by (simp add: parseStyles_def)
  have pr: "prepare plain_uuid demoFiles demoRequest = Inr (demoRequest, [])"
    by (simp add: prepare_def demoRequest_def t checkRequest_def checkRecipients_def parse_self errors_Join_def
        loadAttachments_def Let_def)
  have r: "ResolveRecipients plain_uuid (logging demoClient) [''self''] demoLogged = (Inr [selfTarget demoAccount], demoLogged)"
    by (simp add: ResolveRecipients_def parse_self resolveUsers_def markSelf_def action_defs noTarget_def
        Target_IsGroup_def isOwn_def demoClient_def demoLogged_def dedupe_def logging_def onFst_def errors_Join_def)
  have u: "max (word_of_int (UnixMilli 1700000000000000000)) 1 = (1700000000000 :: u64)"
    by (simp add: UnixMilli_def max_def word_le_def)
  have b: "buildContent plain_uuid (logging demoClient) demoRequest [] [] demoLogged
      = (Inr (noContent\<lparr>cnBody := ''hi''\<rparr>), demoLogged)"
    by (simp add: buildContent_def demoRequest_def resolveContent_def p Let_def action_defs noContent_def)
  have c: "connectSendOnly (logging demoClient) demoLogged = (Inr (), demoLogged)" "allow demoLogged = None"
    by (simp_all add: connectSendOnly_def logging_def onFst_def demoClient_def demoLogged_def)
  have q: "checkStickerRequest demoRequest = None" "asEditTarget demoRequest = 0" "asBody demoRequest = ''hi''"
    "asStyles demoRequest = []" "asRecipients demoRequest = [''self'']"
    by (simp_all add: demoRequest_def checkStickerRequest_def)
  have run: "Send plain_uuid demoFiles (logging demoClient) demoRequest demoLogged
      = andThen (nextTimestamp (logging demoClient)) (\<lambda>ts. andThen (dispatch (logging demoClient) ''send''
          (noContent\<lparr>cnBody := ''hi''\<rparr>) [selfTarget demoAccount] ts) (\<lambda>(res, e). ret (res, e, ()))) demoLogged"
    by (simp add: Send_def checkAppEdit_def q st pr sendContent_def sendPreparedContent_def checkAllowed_def noExtra_def
        b c r andThen_def wrapping_def ofCheck_def ofRes_def ret_def)
  show ?thesis unfolding run
    by (simp add: action_defs logging_def onFst_def noting_def demoClient_def demoLogged_def Let_def nextTimestamp_def
        dispatch_def sendToUsers_def newResult_def sendToGroups_def selfTarget_def Target_IsGroup_def demoSent_def
        SendResult_err_def SendResult_Failed_def TargetResult_OK_def FailedMembers_def) (rule u)
qed

text \<open>A note to self is sent once, with the text and the clock's time.\<close>

theorem Send_spec_witness:
  "\<exists>res s' q. Send plain_uuid demoFiles (logging demoClient) demoRequest demoLogged = (Inr (res, None, ()), s')
     \<and> srTimestamp res = 1700000000000 \<and> snd (world s') = [SentMessage q]
     \<and> sqBody q = ''hi'' \<and> sqAttachments q = [] \<and> sqTimestamp q = srTimestamp res
     \<and> (\<forall>t\<in>set (srResults res). TargetResult_OK t) \<and> lastTimestamp demoLogged < srTimestamp res"
proof -
  obtain res s' where r: "Send plain_uuid demoFiles (logging demoClient) demoRequest demoLogged = (Inr (res, None, ()), s')"
    "srTimestamp res = 1700000000000" "length (snd (world s')) = 1"
    using demo_send by blast
  note S = Send_spec [OF r(1), simplified]
  obtain requests where q: "sendsRequest plain_uuid demoFiles (logging demoClient) demoRequest demoLogged res requests s'"
    "snd (world s') = snd (world demoLogged) @ map SentMessage requests" using S by blast
  obtain q' where q': "requests = [q']" using q(2) r(3) by (auto simp: demoLogged_def length_Suc_conv)
  have "sqBody q' = ''hi'' \<and> sqAttachments q' = [] \<and> sqTimestamp q' = srTimestamp res"
    using q(1) unfolding q' sendsRequest_def sendsContent_def sendsText_def attachesFiles_def carries_def
    by (auto simp: demoRequest_def demo_parse)
  then show ?thesis using r S q(2) by (auto simp: demoLogged_def q')
qed

text \<open>C3: Whatever commands are run, and whether they fail or not: with an allowlist, everything
  that is given to the client to send goes to users and groups that an entry of the list stands for.
  A user is one that an entry resolves to in the directory by ACI, our own account only if an entry
  names it; a group is one that an entry names, and no group message has other recipients. The rules
  of the list never change.\<close>

theorem run_commands_allowed:
  assumes "directory C own dir" "allow_ok own dir (allow s)"
  shows "rules (allow (run_commands U F T (logging C) cmds s)) = rules (allow s)
    \<and> (\<exists>new. snd (world (run_commands U F T (logging C) cmds s)) = snd (world s) @ new
         \<and> (\<forall>x\<in>set new. permits own dir (rules (allow s)) x))"
  using assms(2)
proof (induction cmds arbitrary: s)
  case (Cons c cmds)
  obtain r s1 where run: "run_command U F T (logging C) c s = (r, s1)" by (metis surj_pair)
  from sendsIf_run_command [OF assms(1) run Cons.prems] obtain new where one: "allow_ok own dir (allow s1)"
    "rules (allow s1) = rules (allow s)" "snd (world s1) = snd (world s) @ new"
    "\<forall>x\<in>set new. permits own dir (rules (allow s)) x" .
  have "run_commands U F T (logging C) (c # cmds) s = run_commands U F T (logging C) cmds s1"
    by (simp add: run_commands_def run)
  moreover from Cons.IH [OF one(1)] obtain more where
    "rules (allow (run_commands U F T (logging C) cmds s1)) = rules (allow s1)"
    "snd (world (run_commands U F T (logging C) cmds s1)) = snd (world s1) @ more"
    "\<forall>x\<in>set more. permits own dir (rules (allow s1)) x" by blast
  ultimately show ?case using one by (auto intro!: exI [of _ "new @ more"])
qed (simp add: run_commands_def)

text \<open>With an allowlist of a single group, a note to self and a delete leave nothing but messages to
  that group.\<close>

theorem run_commands_allowed_witness:
  "\<exists>new. snd (world (run_commands plain_uuid demoFiles \<lparr>unicode_IsLetter = (\<lambda>_. False), unicode_IsPrint = (\<lambda>_. True)\<rparr>
      (logging demoClient) [CmdSend demoRequest, CmdDelete \<lparr>dqRecipients = [''self''], dqTarget = 5\<rparr>]
      (demoLogged\<lparr>allow := Some (emptyAllowlist\<lparr>alEntries := [noTarget\<lparr>tGroupID := ''g''\<rparr>]\<rparr>)\<rparr>))) = new
    \<and> (\<forall>x\<in>set new. \<exists>q. x = SentMessage q \<and> (sqGroupID q = ''g'' \<or> sqRecipients q = []))"
proof -
  let ?s = "demoLogged\<lparr>allow := Some (emptyAllowlist\<lparr>alEntries := [noTarget\<lparr>tGroupID := ''g''\<rparr>]\<rparr>)\<rparr>"
  have ok: "allow_ok demoAccount demoDir (allow ?s)" by (simp add: allow_ok_def emptyAllowlist_def)
  have p: "\<exists>q. x = SentMessage q \<and> (sqGroupID q = ''g'' \<or> sqRecipients q = [])"
    if "permits demoAccount demoDir (rules (allow ?s)) x" for x
    using that by (cases x) (auto simp: permits_def rules_def permittedUser_def permittedGroup_def emptyAllowlist_def
      noTarget_def Target_IsGroup_def split: if_splits)
  from run_commands_allowed [OF demo_dir.directory_axioms ok] p show ?thesis
    by (fastforce simp: demoLogged_def)
qed

end
