(* ===== verification/InboxClient.thy ===== *)
theory InboxClient
  imports PollTables AppCore
begin

text \<open>
  The client's inbox and poll operations on its store (internal/signal meow\_inbox.go, withStore and
  the poll operations of meow\_poll\_projection.go and meow\_poll\_counters.go): the world is the
  store's database with what may go wrong. The contract that the application layer relies on is the
  locale \<open>inbox_api\<close>: a table behind the client that listing leaves alone, and that the other
  operations change as the operations of InboxTable do, or not at all when they fail.
\<close>

section \<open>The world of a store-backed client\<close>

text \<open>\<open>swClosing\<close> is set by Close. Operation \<open>n\<close> on the store finds the selected device or fails
  with \<open>swDevice n\<close>; \<open>swFault n i\<close> is the fault of its statement \<open>i\<close>. Readings of the clock and
  receipts given to the network count as operations, too.\<close>

record store_world =
  swDB :: polldb
  swClosing :: bool
  swDevice :: "nat \<Rightarrow> err option"
  swFault :: "nat \<Rightarrow> nat \<Rightarrow> fault"
  swClock :: "nat \<Rightarrow> time"
  swNet :: "nat \<Rightarrow> Recipient \<Rightarrow> err option"
  swOps :: nat

definition openStore :: "store_world \<Rightarrow> err option" where
  "openStore w = (if swClosing w then Some (Sentinel ErrClosed) else swDevice w (swOps w))"

definition withStore ::
  "((nat \<Rightarrow> fault) \<Rightarrow> polldb \<Rightarrow> polldb \<times> 'a res) \<Rightarrow> store_world \<Rightarrow> 'a res \<times> store_world" where
  "withStore use w = (case openStore w of
     Some e \<Rightarrow> (Inl e, w\<lparr>swOps := Suc (swOps w)\<rparr>)
   | None \<Rightarrow> (case use (swFault w (swOps w)) (swDB w) of
       (db, r) \<Rightarrow> (r, w\<lparr>swDB := db, swOps := Suc (swOps w)\<rparr>)))"

text \<open>An operation on the inbox table.\<close>

definition onInbox :: "(gosignal_inbox \<Rightarrow> gosignal_inbox \<times> 'a) \<Rightarrow> polldb \<Rightarrow> polldb \<times> 'a" where
  "onInbox f db = (case f (dbInbox db) of (t, r) \<Rightarrow> (db\<lparr>dbInbox := t\<rparr>, r))"

section \<open>Entries and records (meow\_inbox.go)\<close>

definition inboxEntry :: "json_lib \<Rightarrow> InboxRecord \<Rightarrow> InboxEntry" where
  "inboxEntry J rec = (case unmarshalEvent J (irEvent rec) of (evt, chat) \<Rightarrow>
     \<lparr>ieID = irID rec, ieReceivedAt = irReceivedAt rec, ieTime = irTime rec, ieChat = chat,
      ieEvent = evt, ieUnread = irUnread rec\<rparr>)"

definition entryRecord :: "InboxEntry \<Rightarrow> bytes \<Rightarrow> InboxRecord" where
  "entryRecord entry event = \<lparr>irID = 0, irReceivedAt = ieReceivedAt entry, irTime = ieTime entry,
     irChat = Chat_Key (ieChat entry),
     irSender = (case ieEvent entry of EvMessage m \<Rightarrow> rACI (eSender (msgEnv m)) | _ \<Rightarrow> []),
     irTimestamp = (case ieEvent entry of EvMessage m \<Rightarrow> eTimestamp (msgEnv m) | _ \<Rightarrow> 0),
     irUnread = ieUnread entry, irEvent = event\<rparr>"

definition queryFilter :: "InboxQuery \<Rightarrow> InboxFilter" where
  "queryFilter q = \<lparr>ifAfter = iqAfter q, ifUntil = iqUntil q, ifChat = iqChat q, ifSince = iqSince q,
     ifUnread = iqUnread q, ifLimit = iqLimit q, ifNewest = iqNewest q\<rparr>"

definition storeMark :: "ReadMark \<Rightarrow> InboxMark" where
  "storeMark m = \<lparr>imSender = rACI (rmSender m), imTimestamp = rmTimestamp m\<rparr>"

section \<open>Operations (meow\_inbox.go)\<close>

definition meow_learnPollProjection :: "uuid_lib \<Rightarrow> client_lib \<Rightarrow> Event \<Rightarrow> store_world \<Rightarrow> unit res \<times> store_world" where
  "meow_learnPollProjection U J event w = (case pollObservation U J event of
     Inl e \<Rightarrow> (Inl e, w)
   | Inr None \<Rightarrow> (Inr (), w)
   | Inr (Some _) \<Rightarrow> withStore (\<lambda>F db. case learnPollProjection U J (\<lambda>n. F (n + 2)) (F 0) (F 1) event db of
       (db', None) \<Rightarrow> (db', Inr ()) | (db', Some e) \<Rightarrow> (db', Inl e)) w)"

definition meow_InboxAdd :: "uuid_lib \<Rightarrow> client_lib \<Rightarrow> InboxEntry \<Rightarrow> store_world \<Rightarrow> InboxEntry res \<times> store_world" where
  "meow_InboxAdd U J entry w = (case meow_learnPollProjection U J (ieEvent entry) w of
     (Inl e, w1) \<Rightarrow> (Inl e, w1)
   | (Inr _, w1) \<Rightarrow> (case marshalEvent (clJSON J) (ieEvent entry) (ieChat entry) of
       Inl e \<Rightarrow> (Inl e, w1)
     | Inr event \<Rightarrow> (case withStore (\<lambda>F. onInbox (AddInboxRecord (F 0) (entryRecord entry event))) w1 of
         (Inl e, w2) \<Rightarrow> (Inl e, w2)
       | (Inr newID, w2) \<Rightarrow> (Inr (entry\<lparr>ieID := newID\<rparr>), w2))))"

definition meow_InboxList :: "client_lib \<Rightarrow> InboxQuery \<Rightarrow> store_world \<Rightarrow> InboxEntry list res \<times> store_world" where
  "meow_InboxList J q w =
    (case withStore (\<lambda>F db. (db, InboxRecords (F 0) (queryFilter q) (dbInbox db))) w of
       (Inl e, w') \<Rightarrow> (Inl e, w') | (Inr recs, w') \<Rightarrow> (Inr (map (inboxEntry (clJSON J)) recs), w'))"

definition meow_InboxChats :: "client_lib \<Rightarrow> store_world \<Rightarrow> InboxChat list res \<times> store_world" where
  "meow_InboxChats J w = (case withStore (\<lambda>F db. (db, InboxChats (F 0) (dbInbox db))) w of
       (Inl e, w') \<Rightarrow> (Inl e, w')
     | (Inr recs, w') \<Rightarrow> (Inr (map (\<lambda>rec. let lst = inboxEntry (clJSON J) (icrLast rec) in
         \<lparr>icChat = ieChat lst, icEntries = icrEntries rec, icUnread = icrUnread rec, icLast = lst\<rparr>) recs), w'))"

definition meow_InboxMarkRead :: "ReadMark list \<Rightarrow> store_world \<Rightarrow> nat res \<times> store_world" where
  "meow_InboxMarkRead marks = withStore (\<lambda>F. onInbox (MarkInboxRead F (map storeMark marks)))"

definition meow_InboxPrune :: "time \<Rightarrow> nat \<Rightarrow> store_world \<Rightarrow> nat res \<times> store_world" where
  "meow_InboxPrune before keep = withStore (\<lambda>F. onInbox (PruneInbox (F 0) (F 1) before (int keep)))"

text \<open>meow\_poll\_projection.go, meow\_poll\_counters.go\<close>

definition meow_PollProjection :: "uuid_lib \<Rightarrow> client_lib \<Rightarrow> PollReference \<Rightarrow> store_world \<Rightarrow> PollState res \<times> store_world" where
  "meow_PollProjection U J ref w = (case PollReference_Check U ref of
     Some e \<Rightarrow> (Inl e, w)
   | None \<Rightarrow> (case openStore w of
       Some e \<Rightarrow> (Inl (Wrap ''poll projection'' [e]), w\<lparr>swOps := Suc (swOps w)\<rparr>)
     | None \<Rightarrow> withStore (\<lambda>F. PollProjection U J (\<lambda>n. F (n + 3)) (F 0) (F 1) (F 2) ref) w))"

definition meow_ReservePollVote :: "uuid_lib \<Rightarrow> PollVoteCounterRequest \<Rightarrow> store_world \<Rightarrow> u32 res \<times> store_world" where
  "meow_ReservePollVote U req w = (case CounterRequest_Check U req of
     Some e \<Rightarrow> (Inl e, w)
   | None \<Rightarrow> (case openStore w of
       Some e \<Rightarrow> (Inl (Wrap ''poll vote counter'' [e]), w\<lparr>swOps := Suc (swOps w)\<rparr>)
     | None \<Rightarrow> withStore (\<lambda>F. client_ReservePollVote U (F 0) req) w))"

text \<open>The clock, and the network, which accepts a receipt or not.\<close>

definition meow_Now :: "store_world \<Rightarrow> time \<times> store_world" where
  "meow_Now w = (swClock w (swOps w), w\<lparr>swOps := Suc (swOps w)\<rparr>)"

definition meow_SendReceipt :: "Recipient \<Rightarrow> ReceiptType \<Rightarrow> u64 list \<Rightarrow> store_world \<Rightarrow> err option \<times> store_world" where
  "meow_SendReceipt r kind timestamps w = (swNet w (swOps w) r, w\<lparr>swOps := Suc (swOps w)\<rparr>)"

text \<open>A client whose inbox and poll operations are these.\<close>

definition meowStore :: "uuid_lib \<Rightarrow> client_lib \<Rightarrow> store_world Client \<Rightarrow> store_world Client" where
  "meowStore U J C = C\<lparr>clNow := meow_Now, clSendReceipt := meow_SendReceipt, clInboxAdd := meow_InboxAdd U J, clInboxList := meow_InboxList J,
     clInboxChats := meow_InboxChats J, clInboxMarkRead := meow_InboxMarkRead,
     clInboxPrune := meow_InboxPrune, clPollProjection := meow_PollProjection U J,
     clReservePollVote := meow_ReservePollVote U\<rparr>"

section \<open>Projecting polls leaves the inbox alone\<close>

definition keepsInbox :: "'a dbop \<Rightarrow> bool" where
  "keepsInbox m \<longleftrightarrow> (\<forall>s. dbInbox (fst (fst (m s))) = dbInbox (fst s))"

named_theorems keeps_intros \<open>operations that leave the inbox alone\<close>

lemma keepsInbox_sql [keeps_intros]:
  assumes "\<And>db. dbInbox (fst (stmt db)) = dbInbox db" shows "keepsInbox (sql F ctx stmt)"
  unfolding keepsInbox_def
proof
  fix s :: dbstate
  obtain db n where s: "s = (db, n)" by (cases s)
  show "dbInbox (fst (fst (sql F ctx stmt s))) = dbInbox (fst s)"
    using assms [of db] by (cases "F n"; cases "stmt db") (simp_all add: s sql_def)
qed

lemma keepsInbox_bind [keeps_intros]:
  assumes "keepsInbox m" "\<And>a. keepsInbox (k a)" shows "keepsInbox (bind_op m k)"
  unfolding keepsInbox_def
proof
  fix s
  obtain s1 r where m: "m s = (s1, r)" by (cases "m s")
  then have "dbInbox (fst s1) = dbInbox (fst s)" using assms(1) unfolding keepsInbox_def by (metis fst_conv)
  then show "dbInbox (fst (fst (bind_op m k s))) = dbInbox (fst s)"
    using assms(2) by (cases r; cases s1) (simp_all add: bind_op_def m keepsInbox_def)
qed

lemma keepsInbox_return [keeps_intros]: "keepsInbox (return_op a)"
  by (simp add: keepsInbox_def return_op_def)

lemma keepsInbox_fail [keeps_intros]: "keepsInbox (fail_op e)"
  by (simp add: keepsInbox_def fail_op_def)

lemma keepsInbox_addPollEvidence [keeps_intros]: "keepsInbox (addPollEvidence F obs changed)"
  unfolding addPollEvidence_def by (intro keeps_intros) simp

lemma keepsInbox_reduceChanged [keeps_intros]: "keepsInbox (reduceChanged F reduce keys)"
  by (induction keys) (auto simp: reducePoll_def intro!: keeps_intros split: sum.split)

lemma keepsInbox_seedRecords [keeps_intros]: "keepsInbox (seedRecords F seed recs after changed)"
  by (induction recs arbitrary: after changed) (auto intro!: keeps_intros split: sum.split option.split)

lemma keepsInbox_seedPolls [keeps_intros]: "keepsInbox (seedPolls fuel F seed after changed)"
proof (induction fuel arbitrary: after changed)
  case (Suc fuel)
  have "keepsInbox (\<lambda>(db, n). ((db, Suc n), InboxRecords (F n) (batchFilter after) (dbInbox db)))"
    by (simp add: keepsInbox_def split: prod.split)
  then show ?case using Suc by (auto intro!: keeps_intros split: prod.split)
qed (simp add: keeps_intros)

lemma keepsInbox_projectBody: "keepsInbox (projectBody F seed reduce nxt)"
proof -
  have "keepsInbox (\<lambda>(db, n). bind_op (seedPolls (length (ibRows (dbInbox db)) + 2) F seed 0 [])
          (\<lambda>changed. bind_op (SetMeta F seededKey ''1'') (\<lambda>_. return_op changed)) (db, n))"
    (is "keepsInbox (\<lambda>(db, n). ?m db (db, n))")
  proof -
    have "keepsInbox (?m db)" for db unfolding SetMeta_def by (intro keeps_intros) simp
    then show ?thesis by (auto simp: keepsInbox_def)
  qed
  then show ?thesis unfolding projectBody_def
    by (auto simp: Meta_def intro!: keeps_intros split: option.split)
qed

lemma ProjectPolls_inbox: "dbInbox (fst (ProjectPolls F b c seed reduce nxt db)) = dbInbox db"
  using keepsInbox_projectBody [of F seed reduce nxt, unfolded keepsInbox_def, rule_format, of "(db, 0)"]
  by (auto simp: ProjectPolls_def DoTxn_def split: prod.splits option.splits sum.splits)

lemma learnPollProjection_inbox: "dbInbox (fst (learnPollProjection U J F b c event db)) = dbInbox db"
  by (auto simp: learnPollProjection_def ProjectPolls_inbox split: sum.split option.split)

section \<open>The contract of the inbox\<close>

text \<open>What the application layer relies on: the table behind the client.\<close>

locale inbox_api =
  fixes C :: "'c Client" and table :: "'c \<Rightarrow> gosignal_inbox" and entry :: "InboxRecord \<Rightarrow> InboxEntry"
    and encode :: "Event \<Rightarrow> Chat \<Rightarrow> bytes res"
  assumes entry_id: "ieID (entry rec) = irID rec"
    and list_keeps: "table (snd (clInboxList C q w)) = table w"
    and list_ok: "fst (clInboxList C q w) = Inr es \<Longrightarrow>
      \<exists>recs. InboxRecords None (queryFilter q) (table w) = Inr recs \<and> es = map entry recs"
    and mark_ok: "clInboxMarkRead C marks w = (Inr n, w') \<Longrightarrow>
      MarkInboxRead (\<lambda>_. None) (map storeMark marks) (table w) = (table w', Inr n)"
    and mark_fails: "clInboxMarkRead C marks w = (Inl e, w') \<Longrightarrow> table w' = table w"
    and add_ok: "clInboxAdd C x w = (Inr x', w') \<Longrightarrow> \<exists>event i. encode (ieEvent x) (ieChat x) = Inr event
      \<and> x' = x\<lparr>ieID := i\<rparr> \<and> AddInboxRecord None (entryRecord x event) (table w) = (table w', Inr i)"
    and add_fails: "clInboxAdd C x w = (Inl e, w') \<Longrightarrow> table w' = table w"
    and prune_keeps: "clInboxPrune C before keep w = (r, w') \<Longrightarrow>
      ibSeq (table w') = ibSeq (table w) \<and> (\<exists>p. ibRows (table w') = filter p (ibRows (table w)))"
    and now_keeps: "table (snd (clNow C w)) = table w"
    and receipt_keeps: "table (snd (clSendReceipt C peer kind ts w)) = table w"

lemma InboxRecords_ok: "InboxRecords f filt t = Inr recs \<Longrightarrow> InboxRecords None filt t = Inr recs"
  by (auto simp: InboxRecords_def split: option.splits)

lemma AddInboxRecord_ok:
  "AddInboxRecord f rec t = (t', Inr i) \<Longrightarrow> AddInboxRecord None rec t = (t', Inr i)"
  "AddInboxRecord f rec t = (t', Inl e) \<Longrightarrow> t' = t"
  by (auto simp: AddInboxRecord_def Let_def split: option.splits)

lemma MarkInboxRead_ok:
  assumes "MarkInboxRead f marks t = (t', r)"
  shows "(\<exists>n. r = Inr n \<and> MarkInboxRead (\<lambda>_. None) marks t = (t', Inr n)) \<or> t' = t \<and> (\<exists>e. r = Inl e)"
proof (cases "\<forall>i\<le>length marks + 1. f i = None")
  case True
  obtain t2 r2 where 2: "MarkInboxRead (\<lambda>_. None) marks t = (t2, r2)" by fastforce
  show ?thesis using MarkInboxRead_D [OF assms] MarkInboxRead_D [OF 2] True 2 by simp
qed (use MarkInboxRead_D [OF assms] in auto)

lemma PruneInbox_filter:
  "\<exists>p. ibRows (fst (PruneInbox f1 f2 before keep t)) = filter p (ibRows t)"
proof -
  have "\<exists>p. ibRows t = filter p (ibRows t)" by (rule exI [of _ "\<lambda>_. True"]) simp
  then show ?thesis
    by (auto simp: PruneInbox_def delete_rows_def Let_def split: option.split)
qed

definition storeTable :: "store_world \<Rightarrow> gosignal_inbox" where
  "storeTable w = dbInbox (swDB w)"

lemma withStore_table:
  assumes "withStore use w = (r, w')"
  shows "(\<exists>e. openStore w = Some e \<and> r = Inl e \<and> swDB w' = swDB w)
    \<or> openStore w = None \<and> use (swFault w (swOps w)) (swDB w) = (swDB w', r)"
  using assms by (auto simp: withStore_def split: option.splits prod.splits)

lemma meow_learn_table: "storeTable (snd (meow_learnPollProjection U J event w)) = storeTable w"
  using learnPollProjection_inbox [of U J]
  by (auto simp: meow_learnPollProjection_def withStore_def storeTable_def split: sum.split option.split prod.split)
    (metis fst_conv)+

interpretation meow_api: inbox_api "meowStore U J C" storeTable "inboxEntry (clJSON J)" "marshalEvent (clJSON J)" for U J C
proof (unfold_locales, goal_cases)
  case (1 rec)
  then show ?case by (simp add: inboxEntry_def split: prod.split)
next
  case (2 q w)
  then show ?case
    by (auto simp: meowStore_def meow_InboxList_def withStore_def storeTable_def split: option.split sum.split)
next
  case (3 q w es)
  then show ?case
    by (auto simp: meowStore_def meow_InboxList_def withStore_def storeTable_def InboxRecords_ok
        split: option.splits sum.splits)
next
  case (4 marks w n w')
  then show ?case
    using MarkInboxRead_ok [of "swFault w (swOps w)" "map storeMark marks" "storeTable w"]
    by (auto simp: meowStore_def meow_InboxMarkRead_def withStore_def onInbox_def storeTable_def
        split: option.splits prod.splits)
next
  case (5 marks w e w')
  then show ?case
    using MarkInboxRead_ok [of "swFault w (swOps w)" "map storeMark marks" "storeTable w"]
    by (auto simp: meowStore_def meow_InboxMarkRead_def withStore_def onInbox_def storeTable_def
        split: option.splits prod.splits)
next
  case (6 x w x' w')
  then show ?case
    using meow_learn_table [of U J "ieEvent x" w]
    by (auto simp: meowStore_def meow_InboxAdd_def withStore_def onInbox_def storeTable_def AddInboxRecord_ok(1)
        split: option.splits prod.splits sum.splits)
next
  case (7 x w e w')
  then show ?case
    using meow_learn_table [of U J "ieEvent x" w]
    by (auto simp: meowStore_def meow_InboxAdd_def withStore_def onInbox_def storeTable_def AddInboxRecord_ok(2)
        split: option.splits prod.splits sum.splits)
next
  case (8 before keep w r w')
  then show ?case
    using PruneInbox_filter [of "swFault w (swOps w) 0" "swFault w (swOps w) 1" before "int keep" "storeTable w"]
      PruneInbox_seq [of "swFault w (swOps w) 0" "swFault w (swOps w) 1" before "int keep" "storeTable w"]
    by (auto simp: meowStore_def meow_InboxPrune_def withStore_def onInbox_def storeTable_def
        split: option.splits prod.splits intro: exI [of _ "\<lambda>_. True"])
next
  case (9 w)
  then show ?case by (simp add: meowStore_def meow_Now_def storeTable_def)
next
  case (10 peer kind ts w)
  then show ?case by (simp add: meowStore_def meow_SendReceipt_def storeTable_def)
qed

end
