(* ===== verification/InboxService.thy ===== *)
theory InboxService
  imports InboxClient
begin

text \<open>
  The inbox of the application layer: internal/app/inbox.go (Run, List, Chats, MarkRead, Message,
  cursors, lost connections) and receipts.go (batches of read receipts). An inbox holds what Run has
  seen of the connection, how often it woke the waiting readers, and the entries it passed to the
  callback Added. Run takes its events from a list: the channel closes after them, or the context
  ends; between two events either may happen, so every cut of the list is a run.
\<close>

section \<open>Read receipts (receipts.go)\<close>

record pendingReceipt =
  peSender :: Recipient
  peTimestamps :: "u64 list"

definition incomingMessage :: "Event \<Rightarrow> Message option" where
  "incomingMessage evt = (case evt of
     EvMessage msg \<Rightarrow>
       if eSync (msgEnv msg) \<or> rACI (eSender (msgEnv msg)) = [] \<or> eTimestamp (msgEnv msg) = 0 then None
       else Some msg
   | _ \<Rightarrow> None)"

text \<open>The first batch of the sender gets the timestamp; a new sender gets a new batch at the end.\<close>

fun add_pending :: "Recipient \<Rightarrow> u64 \<Rightarrow> pendingReceipt list \<Rightarrow> pendingReceipt list" where
  "add_pending sender ts [] = [\<lparr>peSender = sender, peTimestamps = [ts]\<rparr>]"
| "add_pending sender ts (p # ps) =
    (if rACI (peSender p) = rACI sender
     then (if ts \<in> set (peTimestamps p) then p else p\<lparr>peTimestamps := peTimestamps p @ [ts]\<rparr>) # ps
     else p # add_pending sender ts ps)"

definition ReadReceipts_Add :: "Event \<Rightarrow> pendingReceipt list \<Rightarrow> bool \<times> pendingReceipt list" where
  "ReadReceipts_Add evt pending = (case incomingMessage evt of
     None \<Rightarrow> (False, pending)
   | Some msg \<Rightarrow> (True, add_pending (eSender (msgEnv msg)) (eTimestamp (msgEnv msg)) pending))"

definition receiptErr :: "err \<Rightarrow> err" where
  "receiptErr e = Wrap ''read receipt'' [e]"

fun flush_loop :: "'c Client \<Rightarrow> pendingReceipt list \<Rightarrow> 'c \<Rightarrow> err list \<times> 'c" where
  "flush_loop C [] w = ([], w)"
| "flush_loop C (p # ps) w = (case clSendReceipt C (peSender p) ReceiptRead (peTimestamps p) w of
     (e, w1) \<Rightarrow> (case flush_loop C ps w1 of
       (errs, w') \<Rightarrow> ((case e of None \<Rightarrow> errs | Some x \<Rightarrow> receiptErr x # errs), w')))"

text \<open>The queue after \<open>Flush\<close> is empty; the function gives its error.\<close>

definition ReadReceipts_Flush :: "'c Client \<Rightarrow> pendingReceipt list \<Rightarrow> 'c \<Rightarrow> err option \<times> 'c" where
  "ReadReceipts_Flush C pending w = (case flush_loop C pending w of (errs, w') \<Rightarrow> (errors_Join errs, w'))"

section \<open>Events in the inbox (inbox.go)\<close>

definition envelopeOf :: "Event \<Rightarrow> Envelope option" where
  "envelopeOf evt = (case evt of
     EvStory e \<Rightarrow> Some (storyEnv e) | EvMessage e \<Rightarrow> Some (msgEnv e) | EvPollVote e \<Rightarrow> Some (pvEnv e)
   | EvPollClose e \<Rightarrow> Some (pcEnv e) | EvPin e \<Rightarrow> Some (pinEnv e) | EvUnpin e \<Rightarrow> Some (unpinEnv e)
   | EvEdit e \<Rightarrow> Some (editEnv e) | EvDelete e \<Rightarrow> Some (delEnv e) | EvReaction e \<Rightarrow> Some (reEnv e)
   | EvTyping e \<Rightarrow> Some (tyEnv e) | EvUnsupported e \<Rightarrow> Some (unEnv e) | _ \<Rightarrow> None)"

definition eventChat :: "Event \<Rightarrow> Chat" where
  "eventChat evt = (case evt of
     EvDecryptionFailure f \<Rightarrow> noChat\<lparr>cRecipient := dfSender f\<rparr>
   | EvIdentityChanged c \<Rightarrow> noChat\<lparr>cRecipient := icRecipient c\<rparr>
   | _ \<Rightarrow> (case envelopeOf evt of Some env \<Rightarrow> eChat env | None \<Rightarrow> noChat))"

definition sentTime :: "u64 \<Rightarrow> time \<Rightarrow> time" where
  "sentTime sent received =
    (if sent = 0 \<or> uint sent > 2 ^ 63 - 1 then received else fromUnixMilli (uint sent))"

definition eventTime :: "Event \<Rightarrow> time \<Rightarrow> time" where
  "eventTime evt received = (case evt of
     EvDecryptionFailure f \<Rightarrow> sentTime (dfTimestamp f) received
   | EvIdentityChanged c \<Rightarrow> if \<not> IsZero (icTime c) then icTime c else received
   | _ \<Rightarrow> (case envelopeOf evt of Some env \<Rightarrow> sentTime (eTimestamp env) received | None \<Rightarrow> received))"

definition isIncoming :: "Event \<Rightarrow> bool" where
  "isIncoming evt \<longleftrightarrow> incomingMessage evt \<noteq> None"

definition LostConnection :: "Event \<Rightarrow> err option" where
  "LostConnection evt = (case evt of
     EvConnection conn \<Rightarrow> (case connState conn of
         StateLoggedOut \<Rightarrow> (case connErr conn of
             None \<Rightarrow> Some (Sentinel ErrDeviceUnlinked)
           | Some e \<Rightarrow> if errors_Is e ErrDeviceUnlinked then Some e
               else Some (Wrap '''' [Sentinel ErrDeviceUnlinked, e]))
       | StateFailed \<Rightarrow> (case connErr conn of None \<Rightarrow> Some (Sentinel ErrConnectionFailed) | Some e \<Rightarrow> Some e)
       | _ \<Rightarrow> None)
   | _ \<Rightarrow> None)"

section \<open>Receiving (inbox.go)\<close>

record InboxOptions =
  ioMaxAge :: int
  ioMaxCount :: int

text \<open>\<open>cxState\<close> is None before the first change of the connection.\<close>

record ConnectionStatus =
  cxState :: "ConnectionState option"
  cxSince :: time
  cxErr :: "err option"
  cxLastEvent :: time

text \<open>\<open>inChanges\<close> counts the times the channel of the waiting readers was closed and replaced.\<close>

record Inbox =
  inOpts :: InboxOptions
  inConn :: ConnectionStatus
  inChanges :: nat
  inAdded :: "InboxEntry list"

definition observe :: "'c Client \<Rightarrow> Event \<Rightarrow> Inbox \<Rightarrow> 'c \<Rightarrow> Inbox \<times> 'c" where
  "observe C evt i w = (case clNow C w of (now, w') \<Rightarrow>
     (i\<lparr>inConn := (case evt of
         EvConnection conn \<Rightarrow> \<lparr>cxState = Some (connState conn), cxSince = now, cxErr = connErr conn, cxLastEvent = now\<rparr>
       | _ \<Rightarrow> (inConn i)\<lparr>cxLastEvent := now\<rparr>)\<rparr>, w'))"

definition Inbox_prune :: "'c Client \<Rightarrow> Inbox \<Rightarrow> 'c \<Rightarrow> 'c" where
  "Inbox_prune C i w =
    (if ioMaxAge (inOpts i) \<le> 0 \<and> ioMaxCount (inOpts i) \<le> 0 then w
     else let (before, w1) = (if ioMaxAge (inOpts i) > 0
                then (case clNow C w of (now, w1) \<Rightarrow> (now - ioMaxAge (inOpts i), w1)) else (time_zero, w))
          in snd (clInboxPrune C before (nat (max (ioMaxCount (inOpts i)) 0)) w1))"

definition Inbox_store :: "'c Client \<Rightarrow> Event \<Rightarrow> Inbox \<Rightarrow> 'c \<Rightarrow> err option \<times> Inbox \<times> 'c" where
  "Inbox_store C evt i w = (case evt of
     EvReadSync sync \<Rightarrow> (None, i, snd (clInboxMarkRead C (rsMessages sync) w))
   | EvTyping _ \<Rightarrow> (None, i, w) | EvReceipt _ \<Rightarrow> (None, i, w)
   | EvConnection _ \<Rightarrow> (None, i, w) | EvQueueEmpty \<Rightarrow> (None, i, w)
   | _ \<Rightarrow> (case clNow C w of (now, w1) \<Rightarrow>
       (case clInboxAdd C \<lparr>ieID = 0, ieReceivedAt = now, ieTime = eventTime evt now, ieChat = eventChat evt,
                           ieEvent = evt, ieUnread = isIncoming evt\<rparr> w1 of
          (Inl e, w2) \<Rightarrow> (Some (Wrap ''inbox: store event'' [e]), i, w2)
        | (Inr entry, w2) \<Rightarrow> (None,
            i\<lparr>inChanges := Suc (inChanges i), inAdded := inAdded i @ [entry]\<rparr>, Inbox_prune C i w2))))"

fun run_loop :: "'c Client \<Rightarrow> err option \<Rightarrow> Event list \<Rightarrow> Inbox \<Rightarrow> 'c \<Rightarrow> err option \<times> Inbox \<times> 'c" where
  "run_loop C done [] i w = (map_option (\<lambda>e. Wrap ''inbox'' [e]) done, i, w)"
| "run_loop C done (evt # events) i w = (case observe C evt i w of (i1, w1) \<Rightarrow>
     (case LostConnection evt of
        Some e \<Rightarrow> (Some e, i1, w1)
      | None \<Rightarrow> (case Inbox_store C evt i1 w1 of
          (Some e, i2, w2) \<Rightarrow> (Some e, i2, w2)
        | (None, i2, w2) \<Rightarrow> run_loop C done events i2 w2)))"

definition Inbox_Run :: "'c Client \<Rightarrow> err option \<Rightarrow> Event list \<Rightarrow> Inbox \<Rightarrow> 'c \<Rightarrow> err option \<times> Inbox \<times> 'c" where
  "Inbox_Run C done events i w = run_loop C done events i (Inbox_prune C i w)"

section \<open>Reading (inbox.go)\<close>

definition DefaultMessagesLimit :: int where "DefaultMessagesLimit = 50"
definition MaxMessagesLimit :: int where "MaxMessagesLimit = 200"

definition FormatCursor :: "int \<Rightarrow> string" where
  "FormatCursor i = FormatInt i"

definition parseCursor :: "string \<Rightarrow> int res" where
  "parseCursor cursor =
    (if cursor = [] then Inr 0
     else case ParseInt64 cursor of
       Some i \<Rightarrow> if i < 0 then Inl (Wrap ''cursor'' [Sentinel ErrInvalidCursor]) else Inr i
     | None \<Rightarrow> Inl (Wrap ''cursor'' [Sentinel ErrInvalidCursor]))"

record MessagesRequest =
  mrChat :: string
  mrCursor :: string
  mrSince :: time
  mrLimit :: int

record MessagesPage =
  mpEntries :: "InboxEntry list"
  mpCursor :: string
  mpMore :: bool

definition allEntries :: InboxQuery where
  "allEntries = \<lparr>iqAfter = 0, iqUntil = 0, iqChat = [], iqSince = time_zero, iqUnread = False,
     iqLimit = 0, iqNewest = False\<rparr>"

definition latestCursor :: "'c Client \<Rightarrow> ('c, string) action" where
  "latestCursor C = andThen (wrapping ''inbox'' (call (clInboxList C (allEntries\<lparr>iqLimit := 1, iqNewest := True\<rparr>))))
     (\<lambda>latest. ret (case latest of [] \<Rightarrow> FormatCursor 0 | e # _ \<Rightarrow> FormatCursor (ieID e)))"

definition pageLimit :: "int \<Rightarrow> int" where
  "pageLimit limit = min (if limit \<le> 0 then DefaultMessagesLimit else limit) MaxMessagesLimit"

definition listQuery :: "MessagesRequest \<Rightarrow> int \<Rightarrow> InboxQuery" where
  "listQuery req after = (let limit = pageLimit (mrLimit req);
       query = allEntries\<lparr>iqAfter := after, iqChat := mrChat req, iqSince := mrSince req, iqLimit := limit + 1\<rparr>
     in if mrCursor req = [] \<and> IsZero (mrSince req) then query\<lparr>iqLimit := limit, iqNewest := True\<rparr> else query)"

definition Inbox_List :: "'c Client \<Rightarrow> MessagesRequest \<Rightarrow> ('c, MessagesPage) action" where
  "Inbox_List C req =
     andThen (ofRes (parseCursor (mrCursor req))) (\<lambda>after.
     andThen (wrapping ''inbox'' (call (clInboxList C (listQuery req after)))) (\<lambda>entries.
       let limit = nat (pageLimit (mrLimit req));
           es = (if length entries > limit then take limit entries else entries);
           more = (length entries > limit)
       in if es \<noteq> [] then ret \<lparr>mpEntries = es, mpCursor = FormatCursor (ieID (last es)), mpMore = more\<rparr>
          else if mrCursor req \<noteq> [] then ret \<lparr>mpEntries = es, mpCursor = mrCursor req, mpMore = more\<rparr>
          else andThen (latestCursor C) (\<lambda>cursor. ret \<lparr>mpEntries = es, mpCursor = cursor, mpMore = more\<rparr>)))"

definition Inbox_Chats :: "'c Client \<Rightarrow> ('c, InboxChat list) action" where
  "Inbox_Chats C = wrapping ''inbox'' (call (clInboxChats C))"

definition Inbox_Message :: "'c Client \<Rightarrow> string \<Rightarrow> ('c, Message) action" where
  "Inbox_Message C entryID = (case parseCursor entryID of
     Inl _ \<Rightarrow> fail (Wrap ''entry'' [Sentinel ErrUnknownEntry])
   | Inr i \<Rightarrow> if i = 0 then fail (Wrap ''entry'' [Sentinel ErrUnknownEntry])
       else andThen (wrapping ''inbox'' (call (clInboxList C (allEntries\<lparr>iqAfter := i - 1, iqUntil := i\<rparr>)))) (\<lambda>entries.
         case entries of
           [] \<Rightarrow> fail (Wrap ''entry'' [Sentinel ErrUnknownEntry])
         | e # _ \<Rightarrow> (case ieEvent e of EvMessage m \<Rightarrow> ret m | _ \<Rightarrow> fail (Wrap ''entry'' [Sentinel ErrNotAMessage]))))"

section \<open>Marking as read (inbox.go)\<close>

record MarkReadRequest =
  mkChat :: string
  mkCursor :: string

record MarkReadResult =
  mkMessages :: nat
  mkSenders :: nat

definition markReadEntries :: "'c Client \<Rightarrow> MarkReadRequest \<Rightarrow> ('c, InboxEntry list) action" where
  "markReadEntries C req = andThen (ofRes (parseCursor (mkCursor req))) (\<lambda>until.
     if mkCursor req \<noteq> [] \<and> until = 0 then ret []
     else wrapping ''inbox'' (call (clInboxList C (allEntries\<lparr>iqChat := mkChat req, iqUntil := until, iqUnread := True\<rparr>))))"

text \<open>The receipts of a batch: the senders reached, their marks, and the errors of the others.\<close>

fun receipts_loop :: "'c Client \<Rightarrow> pendingReceipt list \<Rightarrow> 'c \<Rightarrow> (nat \<times> ReadMark list \<times> err list) \<times> 'c" where
  "receipts_loop C [] w = ((0, [], []), w)"
| "receipts_loop C (p # ps) w = (case clSendReceipt C (peSender p) ReceiptRead (peTimestamps p) w of
     (e, w1) \<Rightarrow> (case receipts_loop C ps w1 of ((senders, marks, errs), w') \<Rightarrow>
       ((case e of
           None \<Rightarrow> (Suc senders, map (\<lambda>ts. \<lparr>rmSender = peSender p, rmTimestamp = ts\<rparr>) (peTimestamps p) @ marks, errs)
         | Some x \<Rightarrow> (senders, marks, receiptErr x # errs)), w')))"

definition batchOf :: "InboxEntry list \<Rightarrow> pendingReceipt list" where
  "batchOf entries = fold (\<lambda>e pending. snd (ReadReceipts_Add (ieEvent e) pending)) entries []"

definition Inbox_MarkRead :: "'c Client \<Rightarrow> MarkReadRequest \<Rightarrow> ('c, MarkReadResult \<times> err option) action" where
  "Inbox_MarkRead C req = andThen (markReadEntries C req) (\<lambda>entries.
     if entries = [] then ret (\<lparr>mkMessages = 0, mkSenders = 0\<rparr>, None)
     else (\<lambda>s. case receipts_loop C (batchOf entries) (world s) of
       ((senders, marks, errs), w1) \<Rightarrow>
         if marks = [] then (Inr (\<lparr>mkMessages = 0, mkSenders = senders\<rparr>, errors_Join errs), s\<lparr>world := w1\<rparr>)
         else (case clInboxMarkRead C marks w1 of
           (Inr n, w2) \<Rightarrow> (Inr (\<lparr>mkMessages = n, mkSenders = senders\<rparr>, errors_Join errs), s\<lparr>world := w2\<rparr>)
         | (Inl e, w2) \<Rightarrow> (Inr (\<lparr>mkMessages = 0, mkSenders = senders\<rparr>,
               errors_Join (errs @ [Wrap ''inbox'' [e]])), s\<lparr>world := w2\<rparr>))))"

section \<open>Reading page by page\<close>

lemma pageLimit_pos: "0 < pageLimit n"
  by (simp add: pageLimit_def DefaultMessagesLimit_def MaxMessagesLimit_def)

lemma ParseInt64_FormatInt:
  assumes "0 \<le> i" "i < 2 ^ 63" shows "ParseInt64 (FormatInt i) = Some i"
proof -
  have d: "c \<noteq> CHR ''-'' \<and> c \<noteq> CHR ''+''" if "c \<in> set (FormatNat (nat i))" for c
    using FormatNat_digits [OF that] by (auto simp: byte_def)
  obtain c cs where f: "FormatNat (nat i) = c # cs" by (meson FormatNat_ne neq_Nil_conv)
  have n: "nat i < 2 ^ 64" "nat i < 2 ^ 63" using assms by (simp_all add: nat_less_iff)
  show ?thesis
    using assms ParseUint_Format [OF n(1)] d [of c] f n(2)
    by (simp add: ParseInt64_def FormatInt_def HasPrefix_def Let_def)
qed

lemma parseCursor_Format [simp]:
  "0 \<le> i \<Longrightarrow> i < 2 ^ 63 \<Longrightarrow> parseCursor (FormatCursor i) = Inr i"
  "FormatCursor i \<noteq> []"
  by (simp_all add: parseCursor_def FormatCursor_def ParseInt64_FormatInt) (simp_all add: FormatInt_def)

text \<open>The rows that a request selects, beyond a cursor.\<close>

definition selects :: "MessagesRequest \<Rightarrow> inbox_row \<Rightarrow> bool" where
  "selects req r \<longleftrightarrow> (mrChat req \<noteq> [] \<longrightarrow> rowChat r = mrChat req)
     \<and> (\<not> IsZero (mrSince req) \<longrightarrow> UnixMilli (mrSince req) \<le> rowTime r)"

definition rowsAfter :: "MessagesRequest \<Rightarrow> int \<Rightarrow> gosignal_inbox \<Rightarrow> inbox_row list" where
  "rowsAfter req c t = filter (\<lambda>r. c < rowID r) (filter (selects req) (ibRows t))"

interpretation rows_log: paged_log inbox_inv "\<lambda>t. filter (selects req) (ibRows t)" rowID
  "\<lambda>t n c. take n (rowsAfter req c t)" for req
  by unfold_locales (auto simp: rowsAfter_def inbox_inv_def sorted_filter_rows)

text \<open>A reader that follows the cursors until no page follows; None is running out of fuel.\<close>

fun read_all :: "'c Client \<Rightarrow> nat \<Rightarrow> MessagesRequest \<Rightarrow> ('c, InboxEntry list option) action" where
  "read_all C 0 req = ret None"
| "read_all C (Suc fuel) req = andThen (Inbox_List C req) (\<lambda>p.
     if \<not> mpMore p then ret (Some (mpEntries p))
     else andThen (read_all C fuel (req\<lparr>mrCursor := mpCursor p\<rparr>)) (\<lambda>rest. ret (map_option ((@) (mpEntries p)) rest)))"

lemma matches_query:
  assumes "inbox_inv t" "0 \<le> c" "mrCursor req \<noteq> [] \<or> \<not> IsZero (mrSince req)"
  shows "filter (matches (queryFilter (listQuery req c))) (ibRows t) = rowsAfter req c t"
  unfolding rowsAfter_def filter_filter using assms
  by (intro filter_cong)
    (auto simp: matches_def queryFilter_def listQuery_def allEntries_def Let_def selects_def inbox_inv_def)

context inbox_api
begin

lemma latestCursor_table:
  assumes "latestCursor C s = (r, s')" shows "table (world s') = table (world s)"
  using assms list_keeps
  by (auto simp: latestCursor_def action_defs split: prod.splits sum.splits) (metis snd_conv)+

lemma List_D:
  assumes "inbox_inv (table (world s))" "parseCursor (mrCursor req) = Inr c" "0 \<le> c"
    "mrCursor req \<noteq> [] \<or> \<not> IsZero (mrSince req)" "Inbox_List C req s = (Inr p, s')"
  shows "mpEntries p = map (entry \<circ> scanInboxRecord) (take (nat (pageLimit (mrLimit req))) (rowsAfter req c (table (world s))))
    \<and> (mpMore p \<longleftrightarrow> nat (pageLimit (mrLimit req)) < length (rowsAfter req c (table (world s))))
    \<and> (mpEntries p \<noteq> [] \<longrightarrow> mpCursor p = FormatCursor (ieID (last (mpEntries p))))
    \<and> table (world s') = table (world s)"
proof -
  let ?n = "nat (pageLimit (mrLimit req))" and ?m = "rowsAfter req c (table (world s))" and ?q = "listQuery req c"
  obtain r w1 where l: "clInboxList C ?q (world s) = (r, w1)" by (metis surj_pair)
  obtain es where r: "r = Inr es"
    using assms(2,5) l by (cases r) (auto simp: Inbox_List_def action_defs)
  have t1: "table w1 = table (world s)" using list_keeps [of ?q "world s"] l by simp
  obtain recs where recs: "InboxRecords None (queryFilter ?q) (table (world s)) = Inr recs" "es = map entry recs"
    using list_ok [of ?q "world s" es] l r by auto
  have lim: "ifLimit (queryFilter ?q) = pageLimit (mrLimit req) + 1" "ifNewest (queryFilter ?q) = False"
    using assms(4) by (auto simp: queryFilter_def listQuery_def allEntries_def Let_def)
  have pos: "0 < pageLimit (mrLimit req) + 1" "nat (pageLimit (mrLimit req) + 1) = Suc ?n"
    using pageLimit_pos [of "mrLimit req"] by simp_all
  have "recs = map scanInboxRecord (take (Suc ?n) ?m)"
    using recs(1) pos by (simp add: InboxRecords_eq [OF assms(1)] matches_query [OF assms(1,3,4)] lim)
  then have es: "es = map (entry \<circ> scanInboxRecord) (take (Suc ?n) ?m)" using recs(2) by simp
  have len: "?n < length es \<longleftrightarrow> ?n < length ?m" by (simp add: es)
  have tk: "(if ?n < length ?m then take ?n es else es) = map (entry \<circ> scanInboxRecord) (take ?n ?m)"
    by (auto simp: es take_map min_def)
  let ?es = "map (entry \<circ> scanInboxRecord) (take ?n ?m)" and ?s1 = "s\<lparr>world := w1\<rparr>"
  have run: "(if ?es \<noteq> [] then ret \<lparr>mpEntries = ?es, mpCursor = FormatCursor (ieID (last ?es)), mpMore = ?n < length ?m\<rparr>
      else if mrCursor req \<noteq> [] then ret \<lparr>mpEntries = ?es, mpCursor = mrCursor req, mpMore = ?n < length ?m\<rparr>
      else andThen (latestCursor C) (\<lambda>cursor. ret \<lparr>mpEntries = ?es, mpCursor = cursor, mpMore = ?n < length ?m\<rparr>)) ?s1
      = (Inr p, s')"
    using assms(5) unfolding Inbox_List_def andThen_def ofRes_def wrapping_def call_def
    by (simp only: assms(2) l r len tk prod.case sum.case Let_def)
  have t: "table (world ?s1) = table (world s)" using t1 by simp
  consider "?es \<noteq> []" | "?es = []" "mrCursor req \<noteq> []" | "?es = []" "mrCursor req = []" by blast
  then show ?thesis
  proof cases
    case 3
    then obtain cur where "latestCursor C ?s1 = (Inr cur, s')" "p = \<lparr>mpEntries = ?es, mpCursor = cur, mpMore = ?n < length ?m\<rparr>"
      using run by (simp only: if_False not_True_eq_False) (auto simp: andThen_def ret_def split: prod.splits sum.splits)
    then show ?thesis using 3 t latestCursor_table by simp
  next
    case 1
    then have "p = \<lparr>mpEntries = ?es, mpCursor = FormatCursor (ieID (last ?es)), mpMore = ?n < length ?m\<rparr>" "s' = ?s1"
      using run by (simp_all only: if_True not_False_eq_True ret_def prod.inject sum.inject)
    then show ?thesis using t by simp
  next
    case 2
    then have "p = \<lparr>mpEntries = ?es, mpCursor = mrCursor req, mpMore = ?n < length ?m\<rparr>" "s' = ?s1"
      using run by (simp_all only: simp_thms if_True if_False not_True_eq_False not_False_eq_True ret_def prod.inject sum.inject)
    then show ?thesis using t 2 by simp
  qed
qed

lemma read_all_complete:
  assumes "inbox_inv (table (world s))" "ibSeq (table (world s)) < 2 ^ 63"
    "parseCursor (mrCursor req) = Inr c" "0 \<le> c" "mrCursor req \<noteq> [] \<or> \<not> IsZero (mrSince req)"
    "length (rowsAfter req c (table (world s))) < fuel" "read_all C fuel req s = (Inr x, s')"
  shows "x = Some (map (entry \<circ> scanInboxRecord) (rowsAfter req c (table (world s)))) \<and> table (world s') = table (world s)"
  using assms
proof (induction fuel arbitrary: req c s x s')
  case (Suc fuel)
  let ?n = "nat (pageLimit (mrLimit req))" and ?m = "rowsAfter req c (table (world s))"
  obtain p s1 where p: "Inbox_List C req s = (Inr p, s1)"
    using Suc.prems(7) by (auto simp: andThen_def split: prod.splits sum.splits)
  note D = List_D [OF Suc.prems(1,3,4,5) p]
  show ?case
  proof (cases "mpMore p")
    case True
    let ?es = "take ?n ?m" and ?req = "req\<lparr>mrCursor := mpCursor p\<rparr>"
    have n: "0 < ?n" "?n < length ?m" using D True pageLimit_pos [of "mrLimit req"] by simp_all
    then have ne: "?es \<noteq> []" by auto
    let ?c = "rowID (last ?es)"
    have "last ?es \<in> set ?m" using ne by (metis in_set_takeD last_in_set)
    then have c: "0 \<le> ?c" "?c < 2 ^ 63"
      using Suc.prems(1,2) by (auto simp: rowsAfter_def inbox_inv_def)
    have "mpCursor p = FormatCursor ?c"
      using D ne by (simp add: last_map entry_id)
    then have pc: "parseCursor (mrCursor ?req) = Inr ?c" "mrCursor ?req \<noteq> []" using c by simp_all
    have "rowsAfter ?req ?c (table (world s)) = drop ?n ?m"
      using rows_log.beyond_last [where req = req and c = c and n = ?n, OF Suc.prems(1) _ ne]
      by (simp add: rowsAfter_def selects_def cong: filter_cong)
    then have after: "rowsAfter ?req ?c (table (world s1)) = drop ?n ?m" using D by simp
    obtain y s2 where y: "read_all C fuel ?req s1 = (Inr y, s2)" "x = map_option ((@) (mpEntries p)) y" "s' = s2"
      using Suc.prems(7) p True by (auto simp: andThen_def ret_def split: prod.splits sum.splits)
    have "y = Some (map (entry \<circ> scanInboxRecord) (drop ?n ?m)) \<and> table (world s2) = table (world s1)"
      using Suc.IH [of s1 ?req ?c y s2] Suc.prems(1,2,6) D pc c after y(1) n by simp
    then show ?thesis using y D by (simp flip: map_append)
  qed (use Suc.prems(7) p D in \<open>auto simp: andThen_def ret_def\<close>)
qed simp

end

lemma parseCursor_nonneg: "parseCursor s = Inr c \<Longrightarrow> 0 \<le> c"
  by (auto simp: parseCursor_def split: if_splits option.splits)

context inbox_api
begin

text \<open>The cursor of a page that more pages follow.\<close>

lemma next_cursor:
  assumes "inbox_inv (table (world s))" "ibSeq (table (world s)) < 2 ^ 63" "parseCursor (mrCursor req) = Inr c"
    "mrCursor req \<noteq> [] \<or> \<not> IsZero (mrSince req)" "Inbox_List C req s = (Inr p, s')" "mpMore p"
  shows "\<exists>c'. parseCursor (mpCursor p) = Inr c' \<and> mpCursor p \<noteq> []"
proof -
  let ?n = "nat (pageLimit (mrLimit req))" and ?m = "rowsAfter req c (table (world s))"
  note D = List_D [OF assms(1,3) parseCursor_nonneg [OF assms(3)] assms(4,5)]
  then have ne: "take ?n ?m \<noteq> []" using assms(6) pageLimit_pos [of "mrLimit req"] by auto
  then have "last (take ?n ?m) \<in> set ?m" by (metis in_set_takeD last_in_set)
  then have "0 \<le> rowID (last (take ?n ?m))" "rowID (last (take ?n ?m)) < 2 ^ 63"
    using assms(1,2) by (auto simp: rowsAfter_def inbox_inv_def)
  then show ?thesis using D ne by (simp add: last_map entry_id)
qed

lemma List_returns:
  assumes "\<And>q w. G w \<Longrightarrow> \<exists>es w'. clInboxList C q w = (Inr es, w') \<and> G w'"
    "G (world s)" "parseCursor (mrCursor req) = Inr c"
  shows "\<exists>p s'. Inbox_List C req s = (Inr p, s') \<and> G (world s')"
proof -
  have latest: "\<exists>x s'. latestCursor C s1 = (Inr x, s') \<and> G (world s')" if "G (world s1)" for s1
  proof -
    obtain es w' where "clInboxList C (allEntries\<lparr>iqLimit := 1, iqNewest := True\<rparr>) (world s1) = (Inr es, w')" "G w'"
      using assms(1) \<open>G (world s1)\<close> by blast
    then show ?thesis by (simp add: latestCursor_def action_defs)
  qed
  obtain es w1 where l: "clInboxList C (listQuery req c) (world s) = (Inr es, w1)" "G w1"
    using assms(1,2) by blast
  have "G (world (s\<lparr>world := w1\<rparr>))" using l(2) by simp
  from latest [OF this] l assms(3) show ?thesis
    by (auto simp: Inbox_List_def action_defs Let_def)
qed

lemma read_all_returns:
  assumes live: "\<And>q w. G w \<Longrightarrow> \<exists>es w'. clInboxList C q w = (Inr es, w') \<and> G w'"
  shows "inbox_inv (table (world s)) \<Longrightarrow> ibSeq (table (world s)) < 2 ^ 63 \<Longrightarrow> parseCursor (mrCursor req) = Inr c \<Longrightarrow>
    mrCursor req \<noteq> [] \<or> \<not> IsZero (mrSince req) \<Longrightarrow> G (world s) \<Longrightarrow> \<exists>x s'. read_all C fuel req s = (Inr x, s')"
proof (induction fuel arbitrary: req c s)
  case (Suc fuel)
  obtain p s1 where p: "Inbox_List C req s = (Inr p, s1)" "G (world s1)"
    using List_returns [of G, OF live Suc.prems(5,3)] by blast
  note D = List_D [OF Suc.prems(1,3) parseCursor_nonneg [OF Suc.prems(3)] Suc.prems(4) p(1)]
  show ?case
  proof (cases "mpMore p")
    case True
    from next_cursor [OF Suc.prems(1-4) p(1) this] obtain c' where "parseCursor (mpCursor p) = Inr c'" "mpCursor p \<noteq> []" by blast
    then obtain x s2 where "read_all C fuel (req\<lparr>mrCursor := mpCursor p\<rparr>) s1 = (Inr x, s2)"
      using Suc.IH [of s1 "req\<lparr>mrCursor := mpCursor p\<rparr>" c'] Suc.prems(1,2) D p(2) by auto
    then show ?thesis using p True by (simp add: andThen_def ret_def)
  qed (use p in \<open>simp add: andThen_def ret_def\<close>)
qed (simp add: ret_def)

end

text \<open>A store in which nothing fails.\<close>

definition healthy :: "store_world \<Rightarrow> bool" where
  "healthy w \<longleftrightarrow> \<not> swClosing w \<and> (\<forall>n. swDevice w n = None) \<and> (\<forall>n i. swFault w n i = None)"

lemma healthy_list: "healthy w \<Longrightarrow> \<exists>es w'. clInboxList (meowStore U J C) q w = (Inr es, w') \<and> healthy w'"
  by (simp add: healthy_def meowStore_def meow_InboxList_def withStore_def openStore_def InboxRecords_def Let_def)

text \<open>A store with the two demonstration records.\<close>

definition demoStore :: store_world where
  "demoStore = \<lparr>swDB = demoDB, swClosing = False, swDevice = (\<lambda>_. None), swFault = (\<lambda>_ _. None),
     swClock = (\<lambda>_. 0), swNet = (\<lambda>_ _. None), swOps = 0\<rparr>"

definition demoBase :: "store_world Client" where
  "demoBase = \<lparr>clNow = meow_Now, clAccount = (\<lambda>w. (Inl (Sentinel ErrNotLinked), w)),
     clConnectSendOnly = (\<lambda>w. (None, w)), clResolve = (\<lambda>rs w. (Inr rs, w)), clUpload = (\<lambda>a w. (Inr [], w)),
     clFetchSticker = (\<lambda>r w. (Inl (Sentinel ErrClosed), w)), clSend = (\<lambda>q w. (Inl (Sentinel ErrClosed), w)),
     clSendReceipt = meow_SendReceipt, clReservePollVote = (\<lambda>r w. (Inr 1, w)),
     clPollProjection = (\<lambda>r w. (Inl (Sentinel ErrClosed), w)), clGroup = (\<lambda>g w. (Inl (Sentinel ErrUnknownGroup), w)),
     clInboxAdd = (\<lambda>e w. (Inr e, w)), clInboxList = (\<lambda>q w. (Inr [], w)), clInboxChats = (\<lambda>w. (Inr [], w)),
     clInboxMarkRead = (\<lambda>m w. (Inr 0, w)), clInboxPrune = (\<lambda>t k w. (Inr 0, w))\<rparr>"

definition storeApp :: "store_world \<Rightarrow> store_world App" where
  "storeApp w = \<lparr>world = w, lastTimestamp = 0, allow = None\<rparr>"

text \<open>C34: A reader that starts from a cursor or a time and follows the cursor of each page while there
  are more gets every entry that the request selects beyond the cursor, once and in order, whatever
  the page size; reading changes nothing. It needs no more pages than entries, and it fails only when
  the store does.\<close>

theorem List_pages_complete:
  assumes "inbox_inv (storeTable (world s))" "ibSeq (storeTable (world s)) < 2 ^ 63"
    "parseCursor (mrCursor req) = Inr c" "mrCursor req \<noteq> [] \<or> \<not> IsZero (mrSince req)"
    "length (rowsAfter req c (storeTable (world s))) < fuel"
  shows "(healthy (world s) \<longrightarrow> (\<exists>x s'. read_all (meowStore U J C) fuel req s = (Inr x, s')))
    \<and> (\<forall>x s'. read_all (meowStore U J C) fuel req s = (Inr x, s') \<longrightarrow>
        x = Some (map (inboxEntry (clJSON J) \<circ> scanInboxRecord) (rowsAfter req c (storeTable (world s))))
        \<and> storeTable (world s') = storeTable (world s))"
  using meow_api.read_all_complete [OF assms(1-3) parseCursor_nonneg [OF assms(3)] assms(4,5)]
    meow_api.read_all_returns [where G = healthy, OF healthy_list assms(1-4)] by blast

theorem List_pages_complete_witness:
  "\<exists>s'. read_all (meowStore plain_uuid demoLib demoBase) 3
      \<lparr>mrChat = [], mrCursor = FormatCursor 0, mrSince = time_zero, mrLimit = 1\<rparr> (storeApp demoStore)
    = (Inr (Some (map (inboxEntry (clJSON demoLib) \<circ> scanInboxRecord) [demoRow 1, demoRow 2])), s')"
proof -
  let ?r = "\<lparr>mrChat = [], mrCursor = FormatCursor 0, mrSince = time_zero, mrLimit = 1\<rparr>" and ?s = "storeApp demoStore"
  have t: "storeTable (world ?s) = demoTable" by (simp add: storeApp_def storeTable_def demoStore_def demoDB_def)
  have rows: "rowsAfter ?r 0 demoTable = [demoRow 1, demoRow 2]"
    by (simp add: rowsAfter_def selects_def IsZero_def)
  have p: "parseCursor (mrCursor ?r) = Inr 0" "mrCursor ?r \<noteq> []" by simp_all
  have h: "healthy (world ?s)" by (simp add: healthy_def storeApp_def demoStore_def)
  have seq: "ibSeq demoTable < 2 ^ 63" by (simp add: demoTable_def)
  show ?thesis
    using List_pages_complete [of ?s ?r 0 3 plain_uuid demoLib demoBase, unfolded t rows, OF demoTable_inv seq p(1) disjI1 [OF p(2)]] h
    by fastforce
qed

section \<open>Marking messages as read\<close>

text \<open>What became of each receipt of a batch.\<close>

fun outcomes :: "'c Client \<Rightarrow> pendingReceipt list \<Rightarrow> 'c \<Rightarrow> (pendingReceipt \<times> err option) list \<times> 'c" where
  "outcomes C [] w = ([], w)"
| "outcomes C (p # ps) w = (case clSendReceipt C (peSender p) ReceiptRead (peTimestamps p) w of
     (e, w1) \<Rightarrow> (case outcomes C ps w1 of (os, w') \<Rightarrow> ((p, e) # os, w')))"

lemma receipts_loop_outcomes:
  assumes "outcomes C ps w = (os, w')"
  shows "receipts_loop C ps w = ((length (filter (\<lambda>x. snd x = None) os),
      concat (map (\<lambda>x. map (\<lambda>ts. \<lparr>rmSender = peSender (fst x), rmTimestamp = ts\<rparr>) (peTimestamps (fst x)))
        (filter (\<lambda>x. snd x = None) os)),
      map (\<lambda>x. receiptErr (the (snd x))) (filter (\<lambda>x. snd x \<noteq> None) os)), w') \<and> map fst os = ps"
  using assms
proof (induction ps arbitrary: w os)
  case (Cons p ps)
  obtain e w1 where e: "clSendReceipt C (peSender p) ReceiptRead (peTimestamps p) w = (e, w1)" by (metis surj_pair)
  obtain os1 w2 where "outcomes C ps w1 = (os1, w2)" by (metis surj_pair)
  with Cons e show ?case by (cases e) auto
qed simp

definition pairs :: "pendingReceipt list \<Rightarrow> (string \<times> u64) set" where
  "pairs ps = (\<Union>p\<in>set ps. (\<lambda>t. (rACI (peSender p), t)) ` set (peTimestamps p))"

lemma pairs_add: "pairs (add_pending sender ts ps) = insert (rACI sender, ts) (pairs ps)"
  by (induction ps) (auto simp: pairs_def)

lemma add_pending_acis:
  "rACI ` peSender ` set (add_pending sender ts ps) = insert (rACI sender) (rACI ` peSender ` set ps)
   \<and> (distinct (map (rACI \<circ> peSender) ps) \<longrightarrow> distinct (map (rACI \<circ> peSender) (add_pending sender ts ps)))"
  by (induction ps) auto

lemma batch_invariant:
  "distinct (map (rACI \<circ> peSender) ps) \<Longrightarrow>
   (let b = fold (\<lambda>e pending. snd (ReadReceipts_Add (ieEvent e) pending)) es ps in
    distinct (map (rACI \<circ> peSender) b) \<and> pairs b = pairs ps \<union>
      {(rACI (eSender (msgEnv m)), eTimestamp (msgEnv m)) | e m. e \<in> set es \<and> incomingMessage (ieEvent e) = Some m})"
proof (induction es arbitrary: ps)
  case (Cons e es)
  show ?case
  proof (cases "incomingMessage (ieEvent e)")
    case (Some m)
    let ?ps = "add_pending (eSender (msgEnv m)) (eTimestamp (msgEnv m)) ps"
    have d: "distinct (map (rACI \<circ> peSender) ?ps)" using Cons.prems add_pending_acis by blast
    have "fold (\<lambda>e pending. snd (ReadReceipts_Add (ieEvent e) pending)) (e # es) ps
        = fold (\<lambda>e pending. snd (ReadReceipts_Add (ieEvent e) pending)) es ?ps"
      by (simp add: ReadReceipts_Add_def Some)
    then show ?thesis using Cons.IH [OF d] Some pairs_add [of "eSender (msgEnv m)" "eTimestamp (msgEnv m)" ps]
      by (auto simp: Let_def)
  qed (use Cons in \<open>auto simp: ReadReceipts_Add_def Let_def\<close>)
qed simp

lemma batchOf_spec:
  "distinct (map (rACI \<circ> peSender) (batchOf es))"
  "pairs (batchOf es) = {(rACI (eSender (msgEnv m)), eTimestamp (msgEnv m)) | e m. e \<in> set es \<and> incomingMessage (ieEvent e) = Some m}"
  using batch_invariant [of "[]" es] by (simp_all add: batchOf_def Let_def pairs_def)

text \<open>The rows that the receipts which were accepted speak of.\<close>

definition accepted :: "(pendingReceipt \<times> err option) list \<Rightarrow> inbox_row \<Rightarrow> bool" where
  "accepted os x \<longleftrightarrow> rowUnread x \<and> (\<exists>p. (p, None) \<in> set os \<and> rowSender x = rACI (peSender p)
     \<and> rowTimestamp x \<in> timestampArg ` set (peTimestamps p))"

lemma accepted_marks:
  "(\<exists>m\<in>set (map storeMark (concat (map (\<lambda>x. map (\<lambda>ts. \<lparr>rmSender = peSender (fst x), rmTimestamp = ts\<rparr>)
       (peTimestamps (fst x))) (filter (\<lambda>x. snd x = None) os)))). mark_row m r) \<longleftrightarrow> accepted os r"
proof -
  have "mark_row (storeMark \<lparr>rmSender = peSender p, rmTimestamp = t\<rparr>) r
      \<longleftrightarrow> rowUnread r \<and> rowSender r = rACI (peSender p) \<and> rowTimestamp r = timestampArg t" for p t
    by (auto simp: mark_row_def storeMark_def)
  then show ?thesis unfolding accepted_def by force
qed

lemma failed_sender_not_accepted:
  assumes "map fst os = batchOf es" "(p, Some e) \<in> set os" "rowSender x = rACI (peSender p)"
  shows "\<not> accepted os x"
proof
  assume "accepted os x"
  then obtain q where q: "(q, None) \<in> set os" "rACI (peSender q) = rACI (peSender p)"
    using assms(3) by (auto simp: accepted_def)
  have d: "distinct (map (\<lambda>y. rACI (peSender (fst y))) os)"
    using batchOf_spec(1) [of es] unfolding assms(1) [symmetric] by (simp add: comp_def)
  have "inj_on (\<lambda>y. rACI (peSender (fst y))) (set os)" using d by (simp add: distinct_map)
  from inj_onD [OF this _ q(1) assms(2)] q(2) show False by simp
qed

context inbox_api
begin

lemma outcomes_table: "table (snd (outcomes C ps w)) = table w"
proof (induction ps arbitrary: w)
  case (Cons p ps)
  obtain e w1 where e: "clSendReceipt C (peSender p) ReceiptRead (peTimestamps p) w = (e, w1)" by (metis surj_pair)
  then have "table w1 = table w" using receipt_keeps [of "peSender p" ReceiptRead "peTimestamps p" w] by simp
  with Cons [of w1] e show ?case by (simp split: prod.split) (metis snd_conv)
qed simp

lemma markReadEntries_table: "markReadEntries C req s = (r, s') \<Longrightarrow> table (world s') = table (world s)"
  using list_keeps
  by (auto simp: markReadEntries_def action_defs split: sum.splits prod.splits if_splits) (metis snd_conv)+

lemma MarkRead_D:
  assumes "Inbox_MarkRead C req s = (Inr (res, e), s')" "markReadEntries C req s = (Inr es, s1)"
    "outcomes C (batchOf es) (world s1) = (os, w1)"
  shows "mkSenders res = length (filter (\<lambda>x. snd x = None) os)
    \<and> ((\<exists>x\<in>set os. snd x \<noteq> None) \<longrightarrow> e \<noteq> None)
    \<and> (table (world s') = (table (world s))\<lparr>ibRows := map (\<lambda>x. if accepted os x then x\<lparr>rowUnread := False\<rparr> else x) (ibRows (table (world s)))\<rparr>
         \<and> mkMessages res = length (filter (accepted os) (ibRows (table (world s))))
         \<and> (e = None \<longleftrightarrow> (\<forall>x\<in>set os. snd x = None))
       \<or> table (world s') = table (world s) \<and> mkMessages res = 0 \<and> e \<noteq> None)"
proof -
  let ?t = "table (world s)"
  have t1: "table (world s1) = ?t" using markReadEntries_table [OF assms(2)] .
  note O = receipts_loop_outcomes [OF assms(3)]
  define marks where "marks = concat (map (\<lambda>x. map (\<lambda>ts. \<lparr>rmSender = peSender (fst x), rmTimestamp = ts\<rparr>) (peTimestamps (fst x)))
        (filter (\<lambda>x. snd x = None) os))"
  define errs where "errs = map (\<lambda>x. receiptErr (the (snd x))) (filter (\<lambda>x. snd x \<noteq> None) os)"
  define senders where "senders = length (filter (\<lambda>x. snd x = None) os)"
  have acc: "(\<exists>m\<in>set (map storeMark marks). mark_row m r) \<longleftrightarrow> accepted os r" for r
    unfolding marks_def by (rule accepted_marks)
  have loop: "receipts_loop C (batchOf es) (world s1) = ((senders, marks, errs), w1)"
    using O unfolding marks_def errs_def senders_def by blast
  have w1: "table w1 = ?t" using outcomes_table [of "batchOf es" "world s1"] assms(3) t1 by simp
  have errs0: "errs = [] \<longleftrightarrow> (\<forall>x\<in>set os. snd x = None)" by (auto simp: errs_def filter_empty_conv)
  have none: "\<not> accepted os x" if "marks = []" for x using acc [of x] that by simp
  have same: "map (\<lambda>x. if accepted os x then x\<lparr>rowUnread := False\<rparr> else x) rows = rows"
    "filter (accepted os) rows = []" if "marks = []" for rows
    using none [OF that] by (simp_all add: filter_empty_conv)
  show ?thesis
  proof (cases "es = []")
    case True
    then have "os = []" using O by (auto simp: batchOf_def)
    moreover have "res = \<lparr>mkMessages = 0, mkSenders = 0\<rparr>" "e = None" "s' = s1"
      using assms(1,2) True by (auto simp: Inbox_MarkRead_def andThen_def ret_def)
    ultimately show ?thesis using t1 by (simp add: accepted_def senders_def)
  next
    case False
    have run: "(if marks = [] then (Inr (\<lparr>mkMessages = 0, mkSenders = senders\<rparr>, errors_Join errs), s1\<lparr>world := w1\<rparr>)
         else (case clInboxMarkRead C marks w1 of
           (Inr n, w2) \<Rightarrow> (Inr (\<lparr>mkMessages = n, mkSenders = senders\<rparr>, errors_Join errs), s1\<lparr>world := w2\<rparr>)
         | (Inl x, w2) \<Rightarrow> (Inr (\<lparr>mkMessages = 0, mkSenders = senders\<rparr>,
               errors_Join (errs @ [Wrap ''inbox'' [x]])), s1\<lparr>world := w2\<rparr>)))
         = (Inr (res, e) :: (MarkReadResult \<times> err option) res, s')"
      using assms(1) unfolding Inbox_MarkRead_def andThen_def
      by (simp only: assms(2) prod.case sum.case False if_False loop)
    show ?thesis
    proof (cases "marks = []")
      case True
      then have "res = \<lparr>mkMessages = 0, mkSenders = senders\<rparr>" "e = errors_Join errs" "s' = s1\<lparr>world := w1\<rparr>"
        using run by (simp_all only: simp_thms if_True prod.inject sum.inject)
      then show ?thesis using w1 same [OF True] errs0 by (auto simp: errors_Join_def senders_def)
    next
      case False
      obtain r w2 where m: "clInboxMarkRead C marks w1 = (r, w2)" by (metis surj_pair)
      show ?thesis
      proof (cases r)
        case (Inl x)
        then have "table w2 = ?t" using mark_fails m w1 by metis
        then show ?thesis using run m Inl False by (auto simp: errors_Join_def senders_def)
      next
        case (Inr n)
        have "MarkInboxRead (\<lambda>_. None) (map storeMark marks) ?t = (table w2, Inr n)" using mark_ok m Inr w1 by metis
        from MarkInboxRead_D [OF this] have
          "n = length (filter (accepted os) (ibRows ?t))"
          "table w2 = ?t\<lparr>ibRows := map (\<lambda>x. if accepted os x then x\<lparr>rowUnread := False\<rparr> else x) (ibRows ?t)\<rparr>"
          by (simp_all only: acc simp_thms if_True sum.inject)
        moreover have "res = \<lparr>mkMessages = n, mkSenders = senders\<rparr>" "e = errors_Join errs" "s' = s1\<lparr>world := w2\<rparr>"
          using run m Inr False by (simp_all only: if_False prod.case sum.case prod.inject sum.inject)
        ultimately show ?thesis using errs0 by (auto simp: errors_Join_def senders_def)
      qed
    qed
  qed
qed

end

text \<open>C10: MarkRead sends one receipt per sender of a selected unread message, with the timestamps of all
  of the sender's selected messages. The messages of the senders whose receipt was accepted are
  marked as read and counted, and nothing else changes; a sender whose receipt failed keeps every
  message as it was, and the failure is reported. When the store cannot mark, nothing is marked and
  that is reported, too.\<close>

theorem MarkRead_spec:
  assumes "Inbox_MarkRead (meowStore U J C) req s = (Inr (res, e), s')"
    "markReadEntries (meowStore U J C) req s = (Inr es, s1)"
    "outcomes (meowStore U J C) (batchOf es) (world s1) = (os, w1)"
  shows "map fst os = batchOf es \<and> distinct (map (rACI \<circ> peSender) (batchOf es))
    \<and> pairs (batchOf es) = {(rACI (eSender (msgEnv m)), eTimestamp (msgEnv m)) | x m. x \<in> set es \<and> incomingMessage (ieEvent x) = Some m}
    \<and> mkSenders res = length (filter (\<lambda>x. snd x = None) os)
    \<and> (storeTable (world s') = (storeTable (world s))\<lparr>ibRows :=
           map (\<lambda>x. if accepted os x then x\<lparr>rowUnread := False\<rparr> else x) (ibRows (storeTable (world s)))\<rparr>
         \<and> mkMessages res = length (filter (accepted os) (ibRows (storeTable (world s))))
         \<and> (e = None \<longleftrightarrow> (\<forall>x\<in>set os. snd x = None))
       \<or> storeTable (world s') = storeTable (world s) \<and> mkMessages res = 0 \<and> e \<noteq> None)
    \<and> (\<forall>p x. (p, Some x) \<in> set os \<longrightarrow> e \<noteq> None
         \<and> filter (\<lambda>r. rowSender r = rACI (peSender p)) (ibRows (storeTable (world s')))
           = filter (\<lambda>r. rowSender r = rACI (peSender p)) (ibRows (storeTable (world s))))"
proof (intro conjI allI impI)
  note O = receipts_loop_outcomes [OF assms(3), THEN conjunct2]
  note M = meow_api.MarkRead_D [OF assms]
  show "map fst os = batchOf es" "distinct (map (rACI \<circ> peSender) (batchOf es))" by (rule O, rule batchOf_spec)
  show "pairs (batchOf es) = {(rACI (eSender (msgEnv m)), eTimestamp (msgEnv m)) | x m. x \<in> set es \<and> incomingMessage (ieEvent x) = Some m}"
    by (rule batchOf_spec)
  show "mkSenders res = length (filter (\<lambda>x. snd x = None) os)" using M by blast
  show "storeTable (world s') = (storeTable (world s))\<lparr>ibRows :=
           map (\<lambda>x. if accepted os x then x\<lparr>rowUnread := False\<rparr> else x) (ibRows (storeTable (world s)))\<rparr>
         \<and> mkMessages res = length (filter (accepted os) (ibRows (storeTable (world s))))
         \<and> (e = None \<longleftrightarrow> (\<forall>x\<in>set os. snd x = None))
       \<or> storeTable (world s') = storeTable (world s) \<and> mkMessages res = 0 \<and> e \<noteq> None" using M by blast
  fix p x assume p: "(p, Some x) \<in> set os"
  then show "e \<noteq> None" using M by force
  let ?u = "\<lambda>r. if accepted os r then r\<lparr>rowUnread := False\<rparr> else r"
  have keep: "filter (\<lambda>r. rowSender r = rACI (peSender p)) (map ?u rows) = filter (\<lambda>r. rowSender r = rACI (peSender p)) rows" for rows
    using failed_sender_not_accepted [OF O p] by (induction rows) auto
  have "ibRows (storeTable (world s')) = map ?u (ibRows (storeTable (world s))) \<or> ibRows (storeTable (world s')) = ibRows (storeTable (world s))"
    using M by auto
  then show "filter (\<lambda>r. rowSender r = rACI (peSender p)) (ibRows (storeTable (world s')))
      = filter (\<lambda>r. rowSender r = rACI (peSender p)) (ibRows (storeTable (world s)))"
    using keep by auto
qed

text \<open>An encoding that reads everything as one message.\<close>

definition demoMessage :: Message where
  "demoMessage = \<lparr>msgEnv = \<lparr>eSender = aciRecipient ''s'', eChat = noChat, eTimestamp = 9, eServerTimestamp = 0, eSync = False\<rparr>,
     msgBody = [], msgMentions = [], msgAttachments = [], msgSticker = None, msgPoll = None, msgQuote = None,
     msgViewOnce = False, msgUnsupported = []\<rparr>"

definition messageLib :: client_lib where
  "messageLib = demoLib\<lparr>clJSON := demoJSON\<lparr>jsonMarshal := (\<lambda>_. Inr ''m''), jsonMarshalStored := (\<lambda>_. Inr ''m''),
     jsonUnmarshalStored := (\<lambda>_. Inr \<lparr>seType = ''message'', seEvent = [], seChat = noChat\<rparr>),
     jsonUnmarshal := (\<lambda>_ _. Inr (PEvent (EvMessage demoMessage)))\<rparr>\<rparr>"

lemma messageLib_entry:
  "inboxEntry (clJSON messageLib) rec = \<lparr>ieID = irID rec, ieReceivedAt = irReceivedAt rec, ieTime = irTime rec,
     ieChat = noChat, ieEvent = EvMessage demoMessage, ieUnread = irUnread rec\<rparr>"
  by (simp add: inboxEntry_def unmarshalEvent_def decodeEvent_def messageLib_def)

lemma demo_batch:
  "markReadEntries (meowStore plain_uuid messageLib demoBase) \<lparr>mkChat = [], mkCursor = []\<rparr> (storeApp demoStore)
   = (Inr (map (inboxEntry (clJSON messageLib) \<circ> scanInboxRecord) [demoRow 1, demoRow 2]), storeApp (demoStore\<lparr>swOps := 1\<rparr>))"
  "batchOf (map (inboxEntry (clJSON messageLib) \<circ> scanInboxRecord) [demoRow 1, demoRow 2])
   = [\<lparr>peSender = aciRecipient ''s'', peTimestamps = [9]\<rparr>]"
proof -
  have "filter (matches (queryFilter (allEntries\<lparr>iqUnread := True\<rparr>))) (ibRows demoTable) = [demoRow 1, demoRow 2]"
    by (simp add: matches_def queryFilter_def allEntries_def IsZero_def)
  then have r: "InboxRecords None (queryFilter (allEntries\<lparr>iqUnread := True\<rparr>)) demoTable
      = Inr (map scanInboxRecord [demoRow 1, demoRow 2])"
    unfolding InboxRecords_eq [OF demoTable_inv] by (simp add: queryFilter_def allEntries_def)
  have "allEntries\<lparr>iqChat := [], iqUntil := 0, iqUnread := True\<rparr> = allEntries\<lparr>iqUnread := True\<rparr>"
    by (simp add: allEntries_def)
  then show "markReadEntries (meowStore plain_uuid messageLib demoBase) \<lparr>mkChat = [], mkCursor = []\<rparr> (storeApp demoStore)
   = (Inr (map (inboxEntry (clJSON messageLib) \<circ> scanInboxRecord) [demoRow 1, demoRow 2]), storeApp (demoStore\<lparr>swOps := 1\<rparr>))"
    using r by (simp add: markReadEntries_def action_defs parseCursor_def meowStore_def meow_InboxList_def withStore_def
        openStore_def storeApp_def demoStore_def demoDB_def)
  show "batchOf (map (inboxEntry (clJSON messageLib) \<circ> scanInboxRecord) [demoRow 1, demoRow 2])
   = [\<lparr>peSender = aciRecipient ''s'', peTimestamps = [9]\<rparr>]"
    by (simp add: batchOf_def messageLib_entry ReadReceipts_Add_def incomingMessage_def demoMessage_def)
qed

theorem MarkRead_spec_witness:
  "\<exists>res s'. Inbox_MarkRead (meowStore plain_uuid messageLib demoBase) \<lparr>mkChat = [], mkCursor = []\<rparr> (storeApp demoStore)
       = (Inr (res, None), s') \<and> mkSenders res = 1 \<and> mkMessages res = 2"
proof -
  let ?C = "meowStore plain_uuid messageLib demoBase" and ?r = "\<lparr>mkChat = [], mkCursor = []\<rparr>"
  let ?es = "map (inboxEntry (clJSON messageLib) \<circ> scanInboxRecord) [demoRow 1, demoRow 2]"
  obtain os w1 where o: "outcomes ?C (batchOf ?es) (world (storeApp (demoStore\<lparr>swOps := 1\<rparr>))) = (os, w1)" by (metis surj_pair)
  have os: "os = [(\<lparr>peSender = aciRecipient ''s'', peTimestamps = [9]\<rparr>, None)]"
    using o [unfolded demo_batch(2)] by (simp add: meowStore_def meow_SendReceipt_def storeApp_def demoStore_def split: prod.splits)
  have w1: "\<not> swClosing w1" "swDevice w1 n = None" "swFault w1 n i = None" for n i
    using o [unfolded demo_batch(2)] by (auto simp: meowStore_def meow_SendReceipt_def storeApp_def demoStore_def split: prod.splits)
  obtain n w2 where "clInboxMarkRead ?C [\<lparr>rmSender = aciRecipient ''s'', rmTimestamp = 9\<rparr>] w1 = (Inr n, w2)"
    using w1 by (auto simp: meowStore_def meow_InboxMarkRead_def withStore_def openStore_def onInbox_def MarkInboxRead_def
        DoTxn_def split: prod.splits)
  moreover have "receipts_loop ?C (batchOf ?es) (world (storeApp (demoStore\<lparr>swOps := 1\<rparr>)))
      = ((1, [\<lparr>rmSender = aciRecipient ''s'', rmTimestamp = 9\<rparr>], []), w1)"
    unfolding receipts_loop_outcomes [OF o, THEN conjunct1] os by simp
  moreover have "?es \<noteq> []" by simp
  ultimately obtain res s' where run: "Inbox_MarkRead ?C ?r (storeApp demoStore) = (Inr (res, None), s')"
    unfolding Inbox_MarkRead_def andThen_def demo_batch(1)
    by (simp only: prod.case sum.case if_False list.distinct simp_thms errors_Join_def) auto
  have acc: "filter (accepted os) [demoRow 1, demoRow 2] = [demoRow 1, demoRow 2]"
    by (simp add: accepted_def os timestampArg_def demoRow_def)
  have t: "ibRows (storeTable (world (storeApp demoStore))) = [demoRow 1, demoRow 2]"
    by (simp add: storeTable_def storeApp_def demoStore_def demoDB_def)
  from MarkRead_spec [OF run demo_batch(1) o] acc os t run show ?thesis by auto
qed

section \<open>The receive loop\<close>

definition storable :: "Event \<Rightarrow> bool" where
  "storable evt = (case evt of EvReadSync _ \<Rightarrow> False | EvTyping _ \<Rightarrow> False | EvReceipt _ \<Rightarrow> False
     | EvConnection _ \<Rightarrow> False | EvQueueEmpty \<Rightarrow> False | _ \<Rightarrow> True)"

definition ids :: "gosignal_inbox \<Rightarrow> int list" where
  "ids t = map rowID (ibRows t)"

definition pruning :: "Inbox \<Rightarrow> bool" where
  "pruning i \<longleftrightarrow> ioMaxAge (inOpts i) > 0 \<or> ioMaxCount (inOpts i) > 0"

text \<open>\<open>stored i t new i' t'\<close>: the inbox took the entries \<open>new\<close>, in this order, under the next IDs.\<close>

definition stored :: "Inbox \<Rightarrow> gosignal_inbox \<Rightarrow> InboxEntry list \<Rightarrow> Inbox \<Rightarrow> gosignal_inbox \<Rightarrow> bool" where
  "stored i t new i' t' \<longleftrightarrow> inOpts i' = inOpts i \<and> inAdded i' = inAdded i @ new \<and> inChanges i' = inChanges i + length new
     \<and> map ieID new = [ibSeq t + 1..ibSeq t'] \<and> ibSeq t' = ibSeq t + int (length new)
     \<and> subseq (ids t') (ids t @ map ieID new) \<and> (\<not> pruning i \<longrightarrow> ids t' = ids t @ map ieID new)
     \<and> (\<forall>e\<in>set new. ieUnread e = isIncoming (ieEvent e) \<and> ieChat e = eventChat (ieEvent e))"

lemma stored_nil: "stored i t [] i' t' \<longleftrightarrow> inOpts i' = inOpts i \<and> inAdded i' = inAdded i \<and> inChanges i' = inChanges i
    \<and> ibSeq t' = ibSeq t \<and> subseq (ids t') (ids t) \<and> (\<not> pruning i \<longrightarrow> ids t' = ids t)"
  by (auto simp: stored_def)

lemma upto_join: "(a :: int) \<le> b \<Longrightarrow> b \<le> c \<Longrightarrow> [a + 1..b] @ [b + 1..c] = [a + 1..c]"
  by (cases "a = b") (simp_all add: upto_split2 [of "a + 1" b c])

lemma stored_append:
  assumes "stored i t xs i1 t1" "stored i1 t1 ys i2 t2" shows "stored i t (xs @ ys) i2 t2"
proof -
  have p: "pruning i1 = pruning i" using assms(1) by (simp add: stored_def pruning_def)
  have "subseq (ids t2) ((ids t @ map ieID xs) @ map ieID ys)"
    using assms by (meson list_emb_append_mono stored_def subseq_order.order_refl subseq_order.order_trans)
  moreover have "map ieID (xs @ ys) = [ibSeq t + 1..ibSeq t2]"
    using assms upto_join [of "ibSeq t" "ibSeq t1" "ibSeq t2"] by (simp add: stored_def)
  ultimately show ?thesis using assms p by (auto simp: stored_def)
qed

lemma Inbox_prune_opts: "inOpts i' = inOpts i \<Longrightarrow> Inbox_prune C i' = Inbox_prune C i"
  by (simp add: fun_eq_iff Inbox_prune_def)

lemma AddInboxRecord_ids:
  "AddInboxRecord None rec t = (t', Inr k) \<Longrightarrow> k = ibSeq t + 1 \<and> ibSeq t' = k \<and> ids t' = ids t @ [k]"
  by (auto simp: AddInboxRecord_def Let_def ids_def)

context inbox_api
begin

lemma prune_stored: "stored i (table w) [] i (table (Inbox_prune C i w))"
proof (cases "pruning i")
  case True
  obtain before w1 where b: "(if ioMaxAge (inOpts i) > 0
      then (case clNow C w of (now, w1) \<Rightarrow> (now - ioMaxAge (inOpts i), w1)) else (time_zero, w)) = (before, w1)"
    by (metis surj_pair)
  have w1: "table w1 = table w" using b now_keeps [of w] by (auto split: if_splits prod.splits)
  let ?k = "nat (max (ioMaxCount (inOpts i)) 0)"
  obtain r w2 where p: "clInboxPrune C before ?k w1 = (r, w2)" by (metis surj_pair)
  have "Inbox_prune C i w = w2" using True b p by (auto simp: Inbox_prune_def pruning_def)
  moreover obtain q where "ibSeq (table w2) = ibSeq (table w)" "ibRows (table w2) = filter q (ibRows (table w))"
    using prune_keeps [OF p] w1 by auto
  ultimately show ?thesis using True by (simp add: stored_nil ids_def subseq_map)
qed (auto simp: stored_nil Inbox_prune_def pruning_def)

lemma mark_stored: "stored i (table w) [] i (table (snd (clInboxMarkRead C marks w)))"
proof -
  obtain r w' where m: "clInboxMarkRead C marks w = (r, w')" by (metis surj_pair)
  have "map rowID (map (\<lambda>x. if P x then x\<lparr>rowUnread := False\<rparr> else x) rows) = map rowID rows" for P rows by simp
  then have "ids (table w') = ids (table w) \<and> ibSeq (table w') = ibSeq (table w)"
    using mark_fails [of marks w] mark_ok [of marks w] MarkInboxRead_D [of "\<lambda>_. None" "map storeMark marks" "table w"] m
    by (cases r) (fastforce simp: ids_def)+
  then show ?thesis using m by (simp add: stored_nil)
qed

lemma store_D:
  assumes "Inbox_store C evt i w = (r, i', w')"
  shows "if storable evt
    then (case r of None \<Rightarrow> \<exists>e. ieEvent e = evt \<and> stored i (table w) [e] i' (table w')
       | Some x \<Rightarrow> (\<exists>e. x = Wrap ''inbox: store event'' [e]) \<and> stored i (table w) [] i' (table w'))
    else r = None \<and> stored i (table w) [] i' (table w')"
proof (cases "storable evt")
  case True
  obtain now w1 where n: "clNow C w = (now, w1)" by (metis surj_pair)
  have w1: "table w1 = table w" using now_keeps [of w] n by simp
  let ?x = "\<lparr>ieID = 0, ieReceivedAt = now, ieTime = eventTime evt now, ieChat = eventChat evt, ieEvent = evt,
    ieUnread = isIncoming evt\<rparr>"
  obtain q w2 where a: "clInboxAdd C ?x w1 = (q, w2)" by (metis surj_pair)
  have run: "(case q of Inl e \<Rightarrow> (Some (Wrap ''inbox: store event'' [e]), i, w2)
      | Inr x \<Rightarrow> (None, i\<lparr>inChanges := Suc (inChanges i), inAdded := inAdded i @ [x]\<rparr>, Inbox_prune C i w2)) = (r, i', w')"
    using assms True n a by (auto simp: Inbox_store_def storable_def split: Event.splits sum.splits)
  show ?thesis
  proof (cases q)
    case (Inl e)
    then show ?thesis using run a add_fails [of ?x w1 e w2] w1 True by (auto simp: stored_nil)
  next
    case (Inr x)
    then obtain event k where x: "x = ?x\<lparr>ieID := k\<rparr>" "AddInboxRecord None (entryRecord ?x event) (table w) = (table w2, Inr k)"
      using add_ok [of ?x w1 x w2] a w1 by auto
    let ?i = "i\<lparr>inChanges := Suc (inChanges i), inAdded := inAdded i @ [x]\<rparr>"
    have "stored i (table w) [x] ?i (table w2)"
      using AddInboxRecord_ids [OF x(2)] x(1) by (auto simp: stored_def)
    moreover have "stored ?i (table w2) [] ?i (table (Inbox_prune C i w2))"
      using prune_stored [of ?i w2] Inbox_prune_opts [of ?i i C] by simp
    ultimately have "stored i (table w) [x] ?i (table (Inbox_prune C i w2))" using stored_append by fastforce
    then show ?thesis using run Inr x(1) True by (auto intro!: exI [of _ x])
  qed
next
  case False
  then show ?thesis using assms mark_stored [of i w]
    by (auto simp: Inbox_store_def storable_def stored_nil split: Event.splits)
qed

lemma observe_stored: "observe C evt i w = (i1, w1) \<Longrightarrow> stored i (table w) [] i1 (table w1)"
  using now_keeps [of w] by (auto simp: observe_def stored_nil split: prod.splits)

end

context inbox_api
begin

lemma run_loop_D:
  assumes "run_loop C stop events i w = (r, i', w')"
  shows "\<exists>k new. k \<le> length events \<and> stored i (table w) new i' (table w')
    \<and> map ieEvent new = filter storable (take k events) \<and> (\<forall>e\<in>set (take k events). LostConnection e = None)
    \<and> (if k = length events then r = map_option (\<lambda>e. Wrap ''inbox'' [e]) stop
       else if LostConnection (events ! k) = None
       then storable (events ! k) \<and> (\<exists>e. r = Some (Wrap ''inbox: store event'' [e])) else r = LostConnection (events ! k))"
  using assms
proof (induction events arbitrary: i w)
  case Nil
  then show ?case by (auto simp: stored_nil)
next
  case (Cons evt events)
  obtain i1 w1 where o: "observe C evt i w = (i1, w1)" by (metis surj_pair)
  note S1 = observe_stored [OF o]
  show ?case
  proof (cases "LostConnection evt")
    case (Some e)
    then have "r = Some e" "i' = i1" "w' = w1" using Cons.prems o by auto
    then show ?thesis using S1 Some by (intro exI [of _ 0] exI [of _ "[]"]) auto
  next
    case None
    obtain q i2 w2 where st: "Inbox_store C evt i1 w1 = (q, i2, w2)" by (metis surj_pair)
    note D = store_D [OF st]
    show ?thesis
    proof (cases q)
      case (Some e)
      then have "r = Some e" "i' = i2" "w' = w2" using Cons.prems o None st by auto
      moreover have "stored i (table w) [] i2 (table w2)" "storable evt" "\<exists>x. e = Wrap ''inbox: store event'' [x]"
        using D Some stored_append [OF S1] by (auto split: if_splits)
      ultimately show ?thesis using None by (intro exI [of _ 0] exI [of _ "[]"]) auto
    next
      case q: None
      then have run: "run_loop C stop events i2 w2 = (r, i', w')" using Cons.prems o None st by simp
      obtain one where one: "stored i (table w) one i2 (table w2)" "map ieEvent one = (if storable evt then [evt] else [])"
        using D q stored_append [OF S1] by (fastforce split: if_splits)
      obtain k new where K: "k \<le> length events" "stored i2 (table w2) new i' (table w')"
        "map ieEvent new = filter storable (take k events)" "\<forall>e\<in>set (take k events). LostConnection e = None"
        "if k = length events then r = map_option (\<lambda>e. Wrap ''inbox'' [e]) stop
         else if LostConnection (events ! k) = None
         then storable (events ! k) \<and> (\<exists>e. r = Some (Wrap ''inbox: store event'' [e])) else r = LostConnection (events ! k)"
        using Cons.IH [OF run] by blast
      show ?thesis
        using K None one stored_append [OF one(1) K(2)]
        by (intro exI [of _ "Suc k"] exI [of _ "one @ new"]) auto
    qed
  qed
qed

end

lemma LostConnection_unlinked:
  "LostConnection (EvConnection conn) = Some e \<Longrightarrow> connState conn = StateLoggedOut \<Longrightarrow> errors_Is e ErrDeviceUnlinked"
  by (auto simp: LostConnection_def split: option.splits if_splits)

text \<open>C35: Run handles the events in order up to the first that reports a connection lost for good, which it
  returns, or that the store cannot take, or to the end. Exactly the messages, edits, deletes,
  reactions, poll and pin events, stories, unsupported content, decryption failures and identity
  changes among them become entries, in order, under the next IDs, each once, in the chat it
  belongs to and unread exactly if it is a message of somebody else; each entry wakes the readers
  and is passed to the callback. Without limits no entry is ever removed. A device that was logged
  out is reported as unlinked.\<close>

theorem Run_spec:
  assumes "Inbox_Run (meowStore U J C) stop events i w = (r, i', w')"
  shows "\<exists>k new. k \<le> length events \<and> stored i (storeTable w) new i' (storeTable w')
    \<and> map ieEvent new = filter storable (take k events) \<and> (\<forall>e\<in>set (take k events). LostConnection e = None)
    \<and> (if k = length events then r = map_option (\<lambda>e. Wrap ''inbox'' [e]) stop
       else if LostConnection (events ! k) = None
       then storable (events ! k) \<and> (\<exists>e. r = Some (Wrap ''inbox: store event'' [e]))
       else r = LostConnection (events ! k)
         \<and> (\<forall>conn. events ! k = EvConnection conn \<and> connState conn = StateLoggedOut \<longrightarrow> (\<exists>e. r = Some e \<and> errors_Is e ErrDeviceUnlinked)))"
proof -
  let ?C = "meowStore U J C"
  from meow_api.run_loop_D [OF assms [unfolded Inbox_Run_def]] obtain k new where K: "k \<le> length events"
    "stored i (storeTable (Inbox_prune ?C i w)) new i' (storeTable w')"
    "map ieEvent new = filter storable (take k events)" "\<forall>e\<in>set (take k events). LostConnection e = None"
    "if k = length events then r = map_option (\<lambda>e. Wrap ''inbox'' [e]) stop
     else if LostConnection (events ! k) = None
     then storable (events ! k) \<and> (\<exists>e. r = Some (Wrap ''inbox: store event'' [e])) else r = LostConnection (events ! k)"
    by blast
  have "stored i (storeTable w) new i' (storeTable w')"
    using stored_append [OF meow_api.prune_stored K(2)] by simp
  moreover have "\<exists>e. r = Some e \<and> errors_Is e ErrDeviceUnlinked"
    if "events ! k = EvConnection conn" "connState conn = StateLoggedOut" "LostConnection (events ! k) \<noteq> None" "k \<noteq> length events" for conn
    using that K(5) LostConnection_unlinked [of conn] by auto
  ultimately show ?thesis using K by (intro exI [of _ k] exI [of _ new]) auto
qed

text \<open>A logged-out device ends the loop before the message that follows.\<close>

theorem Run_spec_witness:
  "\<exists>r i' w'. Inbox_Run (meowStore plain_uuid messageLib demoBase) None
      [EvQueueEmpty, EvConnection \<lparr>connState = StateLoggedOut, connErr = None\<rparr>, EvMessage demoMessage]
      \<lparr>inOpts = \<lparr>ioMaxAge = 0, ioMaxCount = 0\<rparr>, inConn = \<lparr>cxState = None, cxSince = 0, cxErr = None, cxLastEvent = 0\<rparr>,
       inChanges = 0, inAdded = []\<rparr> demoStore = (Some (Sentinel ErrDeviceUnlinked), i', w')
    \<and> inAdded i' = [] \<and> ids (storeTable w') = [1, 2]"
proof -
  let ?i = "\<lparr>inOpts = \<lparr>ioMaxAge = 0, ioMaxCount = 0\<rparr>, inConn = \<lparr>cxState = None, cxSince = 0, cxErr = None, cxLastEvent = 0\<rparr>,
       inChanges = 0, inAdded = []\<rparr>"
  let ?lost = "EvConnection \<lparr>connState = StateLoggedOut, connErr = None\<rparr>"
  let ?es = "[EvQueueEmpty, ?lost, EvMessage demoMessage]"
  let ?C = "meowStore plain_uuid messageLib demoBase"
  obtain r i' w' where run: "Inbox_Run ?C None ?es ?i demoStore = (r, i', w')" by (metis surj_pair)
  have lost: "LostConnection ?lost = Some (Sentinel ErrDeviceUnlinked)" "LostConnection EvQueueEmpty = None"
    "LostConnection (EvMessage demoMessage) = None"
    by (simp_all add: LostConnection_def)
  have r: "r = Some (Sentinel ErrDeviceUnlinked)"
    using run by (auto simp: Inbox_Run_def observe_def lost Inbox_store_def split: prod.splits)
  from Run_spec [OF run] obtain k new where K: "k \<le> length ?es" "stored ?i (storeTable demoStore) new i' (storeTable w')"
    "map ieEvent new = filter storable (take k ?es)" "\<forall>e\<in>set (take k ?es). LostConnection e = None"
    by blast
  have "k < 2"
  proof (rule ccontr)
    assume "\<not> k < 2"
    then have "?lost \<in> set (take k ?es)" using K(1) by (cases "k = 2") (auto simp: numeral_eq_Suc le_Suc_eq)
    then show False using K(4) lost(1) by fastforce
  qed
  then have "new = []" using K(3) by (cases "k = 0") (auto simp: storable_def less_2_cases_iff)
  then have "inAdded i' = []" "ids (storeTable w') = ids demoTable"
    using K(2) by (simp_all add: stored_nil pruning_def storeTable_def demoStore_def demoDB_def)
  then show ?thesis using run r by (auto simp: ids_def)
qed

end
