(* ===== verification/Snapshots.thy ===== *)
theory Snapshots
  imports InboxService SendFlow "HOL-Library.Product_Lexorder"
begin

text \<open>
  Offline views of the inbox: internal/app/poll\_show.go (PollShow) and pin\_list.go (PinList). Both
  take a bounded snapshot of a chat's newest entries and reduce it. What the calls of \<open>ctx.Err()\<close>
  return is the argument \<open>ctx\<close>, by their number.
\<close>

section \<open>Snapshots\<close>

definition DefaultScanLimit :: int where "DefaultScanLimit = 1000"
definition MaxScanLimit :: int where "MaxScanLimit = 10000"

text \<open>The part that \<open>boundPollSnapshot\<close> and \<open>boundSnapshot\<close> share: the entries kept in order of ID, and
  whether some were left out.\<close>

definition bounded :: "InboxEntry list \<Rightarrow> int \<Rightarrow> InboxEntry list \<times> bool" where
  "bounded entries limit = (let es = sort_key ieID entries; n = nat limit in
     if length es > n then (drop (length es - n) es, True) else (es, False))"

definition firstID :: "InboxEntry list \<Rightarrow> int" where
  "firstID es = (case es of [] \<Rightarrow> 0 | e # _ \<Rightarrow> ieID e)"

definition lastID :: "InboxEntry list \<Rightarrow> int" where
  "lastID es = (if es = [] then 0 else ieID (last es))"

text \<open>The loop over the entries, which checks the context before each: \<open>ctx n\<close> is the result of the
  next check.\<close>

fun checked_loop :: "(nat \<Rightarrow> err option) \<Rightarrow> nat \<Rightarrow> ('e \<Rightarrow> 'a \<Rightarrow> 'a) \<Rightarrow> 'e list \<Rightarrow> 'a \<Rightarrow> 'a res" where
  "checked_loop ctx n f [] a = Inr a"
| "checked_loop ctx n f (e # es) a = (case ctx n of
     Some x \<Rightarrow> Inl x | None \<Rightarrow> checked_loop ctx (Suc n) f es (f e a))"

section \<open>Polls (polls.go, poll\_show.go)\<close>

record PollShowRequest =
  pshDurable :: bool
  pshGroupID :: string
  pshRecipient :: string
  pshTarget :: string
  pshScanLimit :: int

definition PollShow_checkChat :: "uuid_lib \<Rightarrow> PollShowRequest \<Rightarrow> err option" where
  "PollShow_checkChat U req = (case pollRecipient U (pshGroupID req) (pshRecipient req) of
     Inl e \<Rightarrow> Some e
   | Inr _ \<Rightarrow> if pshRecipient req \<noteq> []
       then (case ParseRecipient U (pshRecipient req) of
           Inl _ \<Rightarrow> Some (Wrap ''show requires a canonical chat ACI'' [Sentinel ErrInvalidRecipient])
         | Inr chat \<Rightarrow> if rACI (tRecipient chat) = [] \<or> rACI (tRecipient chat) \<noteq> pshRecipient req
             then Some (Wrap ''show requires a canonical chat ACI'' [Sentinel ErrInvalidRecipient]) else None)
       else None)"

definition checkScan :: "PollShowRequest \<Rightarrow> err option" where
  "checkScan req =
    (if pshDurable req \<and> pshScanLimit req \<noteq> 0
     then Some (Wrap ''durable view cannot use an inbox scan limit'' [Sentinel ErrInvalidPoll])
     else if pshScanLimit req < 0 \<or> pshScanLimit req > MaxScanLimit
     then Some (Wrap ''scan limit'' [Sentinel ErrInvalidPoll]) else None)"

definition PollShowRequest_Check :: "uuid_lib \<Rightarrow> PollShowRequest \<Rightarrow> err option" where
  "PollShowRequest_Check U req = (case PollShow_checkChat U req of
     Some e \<Rightarrow> Some e
   | None \<Rightarrow> (case ParseTarget U (pshTarget req) of
       Inl e \<Rightarrow> Some e
     | Inr (author, timestamp) \<Rightarrow>
         if tSelf author \<or> rACI (tRecipient author) = [] \<or> rACI (tRecipient author) = uuid_String U uuid_Nil
            \<or> pshTarget req \<noteq> rACI (tRecipient author) @ '':'' @ FormatNat (unat timestamp)
         then Some (Wrap ''show requires canonical ACI:timestamp'' [Sentinel ErrInvalidTarget])
         else checkScan req))"

definition showReference :: "PollShowRequest \<Rightarrow> Target \<Rightarrow> u64 \<Rightarrow> PollReference" where
  "showReference req author timestamp = \<lparr>prChat = (if pshRecipient req \<noteq> []
       then noChat\<lparr>cRecipient := aciRecipient (pshRecipient req)\<rparr> else noChat\<lparr>cGroupID := pshGroupID req\<rparr>),
     prAuthor = tRecipient author, prTimestamp = timestamp\<rparr>"

definition scanLimit :: "int \<Rightarrow> int" where
  "scanLimit n = (if n = 0 then DefaultScanLimit else n)"

text \<open>A panic of the reduction is its result None; it does not happen (\<open>ReducePoll_spec\<close>).\<close>

definition PollShow :: "uuid_lib \<Rightarrow> 'c Client \<Rightarrow> (nat \<Rightarrow> err option) \<Rightarrow> PollShowRequest \<Rightarrow> ('c, PollState) action" where
  "PollShow U C ctx req = wrapping ''poll show''
    (andThen (ofCheck (PollShowRequest_Check U req)) (\<lambda>_.
     andThen (ofCheck (ctx 0)) (\<lambda>_.
     andThen (ofRes (ParseTarget U (pshTarget req))) (\<lambda>(author, timestamp).
       let ref = showReference req author timestamp in
       if pshDurable req then call (clPollProjection C ref)
       else let limit = scanLimit (pshScanLimit req) in
         andThen (wrapping ''inbox'' (call (clInboxList C
           (allEntries\<lparr>iqChat := Chat_Key (prChat ref), iqNewest := True, iqLimit := limit + 1\<rparr>)))) (\<lambda>entries.
         let (es, truncated) = bounded entries limit in
         andThen (ofRes (checked_loop ctx 1 (\<lambda>e evs. evs @ [ieEvent e]) es [])) (\<lambda>events.
           case ReducePoll U ref events of
             None \<Rightarrow> fail panic
           | Some st \<Rightarrow> ret (st\<lparr>psScanned := length es, psFirstEntryID := firstID es, psLastEntryID := lastID es,
               psTruncated := truncated\<rparr>)))))))"

section \<open>Pins (pin\_list.go, pin\_types.go)\<close>

record PinListRequest =
  plChat :: string
  plScanLimit :: int

record PinObservation =
  poTargetAuthor :: Recipient
  poSender :: Recipient
  poTargetTimestamp :: u64
  poTimestamp :: u64
  poOperation :: string
  poEntryID :: int
  poReceivedAt :: time
  poExpiresAt :: time
  poDurationSeconds :: u32
  poForever :: bool
  poExpiryReached :: bool
  poTargetDeleted :: bool

record PinState =
  pnsChat :: Chat
  pnsObservations :: "PinObservation list"
  pnsCompleteness :: string
  pnsScanned :: nat
  pnsFirstEntryID :: int
  pnsLastEntryID :: int
  pnsTruncated :: bool
  pnsIgnoredInvalid :: nat
  pnsConflicts :: nat

definition canonicalPinACI :: "uuid_lib \<Rightarrow> string \<Rightarrow> bool" where
  "canonicalPinACI U aci = (case uuid_Parse U aci of
     None \<Rightarrow> False | Some parsed \<Rightarrow> parsed \<noteq> uuid_Nil \<and> uuid_String U parsed = aci)"

definition PinListRequest_Check :: "uuid_lib \<Rightarrow> PinListRequest \<Rightarrow> err option" where
  "PinListRequest_Check U req = (case ParseRecipient U (plChat req) of
     Inl e \<Rightarrow> Some e
   | Inr target \<Rightarrow>
       if Target_IsGroup target \<and> plChat req \<noteq> ''group:'' @ tGroupID target
       then Some (Wrap ''list requires a canonical chat'' [Sentinel ErrInvalidRecipient])
       else if \<not> Target_IsGroup target \<and> \<not> canonicalPinACI U (plChat req)
       then Some (Wrap ''list requires a canonical non-nil ACI'' [Sentinel ErrInvalidRecipient])
       else if plScanLimit req < 0 \<or> plScanLimit req > MaxScanLimit
       then Some (Wrap ''scan limit'' [Sentinel ErrInvalidPin]) else None)"

type_synonym pinReference = "string \<times> u64"
type_synonym pinIdentity = "string \<times> u64"

record pinPayload =
  ppReference :: pinReference
  ppOperation :: string
  ppDuration :: u32
  ppForever :: bool

text \<open>The maps of the reducer are association lists with one entry per key.\<close>

record pinReducer =
  rdState :: PinState
  rdNow :: time
  rdObservations :: "(pinReference \<times> PinObservation) list"
  rdIdentities :: "(pinIdentity \<times> pinPayload) list"
  rdDeleted :: "pinReference list"

definition ignoreInvalid :: "pinReducer \<Rightarrow> pinReducer" where
  "ignoreInvalid r = r\<lparr>rdState := (rdState r)\<lparr>pnsIgnoredInvalid := pnsIgnoredInvalid (rdState r) + 1\<rparr>\<rparr>"

definition observeDelete :: "uuid_lib \<Rightarrow> Delete \<Rightarrow> time \<Rightarrow> pinReducer \<Rightarrow> pinReducer" where
  "observeDelete U evt received r =
    (if \<not> canonicalPinACI U (rACI (eSender (delEnv evt))) \<or> eTimestamp (delEnv evt) = 0
        \<or> delTargetTimestamp evt = 0 \<or> IsZero received
     then ignoreInvalid r
     else r\<lparr>rdDeleted := (rACI (eSender (delEnv evt)), delTargetTimestamp evt) # rdDeleted r\<rparr>)"

definition pinObservation :: "InboxEntry \<Rightarrow> PinObservation option" where
  "pinObservation entry = (case ieEvent entry of
     EvPin p \<Rightarrow> Some \<lparr>poTargetAuthor = pinTargetAuthor (pinPin p), poSender = eSender (pinEnv p),
       poTargetTimestamp = pinTargetTimestamp (pinPin p), poTimestamp = eTimestamp (pinEnv p),
       poOperation = ''pin'', poEntryID = ieID entry, poReceivedAt = ieReceivedAt entry, poExpiresAt = time_zero,
       poDurationSeconds = pinDurationSeconds (pinPin p), poForever = pinForever (pinPin p),
       poExpiryReached = False, poTargetDeleted = False\<rparr>
   | EvUnpin p \<Rightarrow> Some \<lparr>poTargetAuthor = unpinTargetAuthor (unpinUnpin p), poSender = eSender (unpinEnv p),
       poTargetTimestamp = unpinTargetTimestamp (unpinUnpin p), poTimestamp = eTimestamp (unpinEnv p),
       poOperation = ''unpin'', poEntryID = ieID entry, poReceivedAt = ieReceivedAt entry, poExpiresAt = time_zero,
       poDurationSeconds = 0, poForever = False, poExpiryReached = False, poTargetDeleted = False\<rparr>
   | _ \<Rightarrow> None)"

definition validPinObservation :: "uuid_lib \<Rightarrow> PinObservation \<Rightarrow> bool" where
  "validPinObservation U obs \<longleftrightarrow>
     canonicalPinACI U (rACI (poSender obs)) \<and> canonicalPinACI U (rACI (poTargetAuthor obs))
     \<and> poTimestamp obs \<noteq> 0 \<and> \<not> IsZero (poReceivedAt obs)
     \<and> (if poOperation obs = ''pin''
        then Pin_Check U \<lparr>pinTargetAuthor = poTargetAuthor obs, pinTargetTimestamp = poTargetTimestamp obs,
               pinDurationSeconds = poDurationSeconds obs, pinForever = poForever obs\<rparr> = None
        else Unpin_Check U \<lparr>unpinTargetAuthor = poTargetAuthor obs, unpinTargetTimestamp = poTargetTimestamp obs\<rparr> = None)"

definition pinRef :: "PinObservation \<Rightarrow> pinReference" where
  "pinRef obs = (rACI (poTargetAuthor obs), poTargetTimestamp obs)"

definition pinIdent :: "PinObservation \<Rightarrow> pinIdentity" where
  "pinIdent obs = (rACI (poSender obs), poTimestamp obs)"

definition pinPay :: "PinObservation \<Rightarrow> pinPayload" where
  "pinPay obs = \<lparr>ppReference = pinRef obs, ppOperation = poOperation obs,
     ppDuration = poDurationSeconds obs, ppForever = poForever obs\<rparr>"

text \<open>The expiry counts from when the pin was received.\<close>

definition withExpiry :: "time \<Rightarrow> PinObservation \<Rightarrow> PinObservation" where
  "withExpiry now obs =
    (if poOperation obs = ''pin'' \<and> \<not> poForever obs
     then let expires = poReceivedAt obs + uint (poDurationSeconds obs) * 1000000000
          in obs\<lparr>poExpiresAt := expires, poExpiryReached := (expires \<le> now)\<rparr>
     else obs)"

definition observeValid :: "uuid_lib \<Rightarrow> PinObservation \<Rightarrow> pinReducer \<Rightarrow> pinReducer" where
  "observeValid U obs r =
    (if \<not> validPinObservation U obs then ignoreInvalid r
     else case map_of (rdIdentities r) (pinIdent obs) of
       Some first \<Rightarrow> if first \<noteq> pinPay obs
         then r\<lparr>rdState := (rdState r)\<lparr>pnsConflicts := pnsConflicts (rdState r) + 1\<rparr>\<rparr> else r
     | None \<Rightarrow> r\<lparr>rdIdentities := (pinIdent obs, pinPay obs) # rdIdentities r,
         rdObservations := AList.update (pinRef obs) (withExpiry (rdNow r) obs) (rdObservations r)\<rparr>)"

definition pinReducer_observe :: "uuid_lib \<Rightarrow> InboxEntry \<Rightarrow> pinReducer \<Rightarrow> pinReducer" where
  "pinReducer_observe U entry r = (case envelopeOf (ieEvent entry) of
     None \<Rightarrow> r
   | Some env \<Rightarrow>
       if Chat_Key (eChat env) \<noteq> Chat_Key (pnsChat (rdState r)) \<or> Chat_Key (ieChat entry) \<noteq> Chat_Key (pnsChat (rdState r)) then r
       else (case ieEvent entry of
           EvUnsupported evt \<Rightarrow> if unType evt = ''invalidPin'' then ignoreInvalid r else r
         | EvDelete evt \<Rightarrow> observeDelete U evt (ieReceivedAt entry) r
         | _ \<Rightarrow> (case pinObservation entry of None \<Rightarrow> r | Some obs \<Rightarrow> observeValid U obs r)))"

text \<open>The order in which Go goes through the map does not matter: the references are distinct and
  the result is sorted by them.\<close>

definition finalize :: "pinReducer \<Rightarrow> PinState" where
  "finalize r = (rdState r)\<lparr>pnsObservations := sort_key (\<lambda>o1. (rACI (poTargetAuthor o1), poTargetTimestamp o1))
     (pnsObservations (rdState r) @ map (\<lambda>(ref, obs). obs\<lparr>poTargetDeleted := ref \<in> set (rdDeleted r)\<rparr>) (rdObservations r))\<rparr>"

definition PinList :: "uuid_lib \<Rightarrow> 'c Client \<Rightarrow> (nat \<Rightarrow> err option) \<Rightarrow> PinListRequest \<Rightarrow> ('c, PinState) action" where
  "PinList U C ctx req = wrapping ''pins list''
    (andThen (ofCheck (PinListRequest_Check U req)) (\<lambda>_.
     andThen (ofCheck (ctx 0)) (\<lambda>_.
     andThen (ofRes (ParseRecipient U (plChat req))) (\<lambda>target.
     andThen (callNow C) (\<lambda>now.
       let limit = scanLimit (plScanLimit req) in
       andThen (wrapping ''inbox'' (call (clInboxList C
         (allEntries\<lparr>iqChat := plChat req, iqNewest := True, iqLimit := limit + 1\<rparr>)))) (\<lambda>entries.
       let (es, truncated) = bounded entries limit;
           state = \<lparr>pnsChat = \<lparr>cGroupID = tGroupID target, cRecipient = tRecipient target\<rparr>, pnsObservations = [],
             pnsCompleteness = ''unknown'', pnsScanned = length es, pnsFirstEntryID = firstID es,
             pnsLastEntryID = lastID es, pnsTruncated = truncated, pnsIgnoredInvalid = 0, pnsConflicts = 0\<rparr>;
           reducer = \<lparr>rdState = state, rdNow = now, rdObservations = [], rdIdentities = [], rdDeleted = []\<rparr>
       in andThen (ofRes (checked_loop ctx 1 (pinReducer_observe U) es reducer)) (\<lambda>r.
          andThen (ofCheck (ctx (Suc (length es)))) (\<lambda>_. ret (finalize r)))))))))"

section \<open>What a snapshot holds\<close>

definition chatRows :: "string \<Rightarrow> gosignal_inbox \<Rightarrow> inbox_row list" where
  "chatRows chat t = filter (\<lambda>r. rowChat r = chat) (ibRows t)"

definition newest :: "nat \<Rightarrow> 'a list \<Rightarrow> 'a list" where
  "newest n xs = drop (length xs - n) xs"

lemma newest_map: "newest n (map f xs) = map f (newest n xs)"
  by (simp add: newest_def drop_map)

lemma newest_newest: "n \<le> k \<Longrightarrow> newest n (newest k xs) = newest n xs"
proof -
  assume "n \<le> k"
  then have "length xs - (length xs - k + n) + (length xs - k) = length xs - n" by linarith
  then show ?thesis by (simp add: newest_def)
qed

lemma length_newest [simp]: "length (newest n xs) = min n (length xs)"
  by (simp add: newest_def)

lemma newest_all: "length xs \<le> n \<Longrightarrow> newest n xs = xs"
  by (simp add: newest_def)

lemma bounded_sorted:
  assumes "sorted_wrt (<) (map ieID es)"
  shows "bounded es limit = (newest (nat limit) es, nat limit < length es)"
proof -
  have "sorted (map ieID es)" using assms by (simp add: strict_sorted_iff)
  then have "sort_key ieID es = es" by (rule sort_key_id_if_sorted)
  then show ?thesis by (auto simp: bounded_def Let_def newest_def)
qed

lemma scanLimit_pos: "0 \<le> n \<Longrightarrow> 0 < scanLimit n"
  by (simp add: scanLimit_def DefaultScanLimit_def)

context inbox_api
begin

lemma snapshot_D:
  assumes inv: "inbox_inv (table w)" and chat: "chat \<noteq> []" and pos: "0 < limit"
    and l: "clInboxList C (allEntries\<lparr>iqChat := chat, iqNewest := True, iqLimit := limit + 1\<rparr>) w = (Inr entries, w')"
  shows "bounded entries limit = (map (entry \<circ> scanInboxRecord) (newest (nat limit) (chatRows chat (table w))),
      nat limit < length (chatRows chat (table w))) \<and> table w' = table w"
proof -
  let ?q = "allEntries\<lparr>iqChat := chat, iqNewest := True, iqLimit := limit + 1\<rparr>" and ?M = "chatRows chat (table w)"
  have m: "filter (matches (queryFilter ?q)) (ibRows (table w)) = ?M"
    unfolding chatRows_def using chat
    by (intro filter_cong) (auto simp: matches_def queryFilter_def allEntries_def IsZero_def)
  obtain recs where recs: "InboxRecords None (queryFilter ?q) (table w) = Inr recs" "entries = map entry recs"
    using list_ok [of ?q w entries] l by auto
  have n: "nat (limit + 1) = Suc (nat limit)" "0 < limit + 1" using pos by simp_all
  have f: "ifLimit (queryFilter ?q) = limit + 1" "ifNewest (queryFilter ?q)"
    by (simp_all add: queryFilter_def allEntries_def)
  have "recs = map scanInboxRecord (newest (Suc (nat limit)) ?M)"
    using recs(1) n unfolding InboxRecords_eq [OF inv] m f newest_def by (simp add: f Let_def)
  then have e: "entries = map (entry \<circ> scanInboxRecord) (newest (Suc (nat limit)) ?M)" using recs(2) by simp
  have "sorted_wrt (<) (map rowID ?M)" unfolding chatRows_def by (rule sorted_filter_rows [OF inv_sorted [OF inv]])
  then have "sorted_wrt (<) (map ieID entries)"
    by (auto simp: e sorted_wrt_map entry_id newest_def intro: sorted_wrt_drop)
  from bounded_sorted [OF this, of limit] show ?thesis
    using list_keeps [of ?q w] l by (simp add: e newest_map newest_newest)
qed

end

lemma checked_loop_fold:
  "checked_loop ctx n f es a = Inr b \<Longrightarrow> b = fold f es a"
  by (induction es arbitrary: n a) (auto split: option.splits)

lemma checked_loop_ok:
  "(\<And>i. ctx i = None) \<Longrightarrow> checked_loop ctx n f es a = Inr (fold f es a)"
  by (induction es arbitrary: n a) auto

section \<open>The reduction of pins\<close>

definition inChat :: "Chat \<Rightarrow> InboxEntry \<Rightarrow> bool" where
  "inChat chat e = (case envelopeOf (ieEvent e) of None \<Rightarrow> False
     | Some env \<Rightarrow> Chat_Key (eChat env) = Chat_Key chat \<and> Chat_Key (ieChat e) = Chat_Key chat)"

text \<open>The valid pins and unpins of a chat, those that count (the first of each sender and
  timestamp), and the messages deleted.\<close>

definition validPins :: "uuid_lib \<Rightarrow> Chat \<Rightarrow> InboxEntry list \<Rightarrow> PinObservation list" where
  "validPins U chat es = filter (validPinObservation U) (List.map_filter pinObservation (filter (inChat chat) es))"

definition countedPins :: "uuid_lib \<Rightarrow> Chat \<Rightarrow> InboxEntry list \<Rightarrow> PinObservation list" where
  "countedPins U chat es = firsts pinIdent (validPins U chat es) []"

definition deletedIn :: "uuid_lib \<Rightarrow> Chat \<Rightarrow> InboxEntry list \<Rightarrow> pinReference \<Rightarrow> bool" where
  "deletedIn U chat es ref \<longleftrightarrow> (\<exists>e\<in>set es. \<exists>d. inChat chat e \<and> ieEvent e = EvDelete d \<and> \<not> IsZero (ieReceivedAt e)
     \<and> canonicalPinACI U (rACI (eSender (delEnv d))) \<and> eTimestamp (delEnv d) \<noteq> 0 \<and> delTargetTimestamp d \<noteq> 0
     \<and> ref = (rACI (eSender (delEnv d)), delTargetTimestamp d))"

definition conflicting :: "PinObservation list \<Rightarrow> PinObservation \<Rightarrow> bool" where
  "conflicting V x \<longleftrightarrow> pinPay (hd (filter (\<lambda>y. pinIdent y = pinIdent x) V)) \<noteq> pinPay x"

lemma firsts_snoc:
  "firsts k (xs @ [x]) seen = firsts k xs seen @ (if k x \<in> set seen \<union> k ` set xs then [] else [x])"
  by (induction xs arbitrary: seen) auto

text \<open>What the reducer holds after the entries \<open>es\<close> of a chat.\<close>

definition reduced :: "uuid_lib \<Rightarrow> pinReducer \<Rightarrow> InboxEntry list \<Rightarrow> pinReducer \<Rightarrow> bool" where
  "reduced U r0 es r \<longleftrightarrow> (let chat = pnsChat (rdState r0); V = validPins U chat es; A = countedPins U chat es in
     rdNow r = rdNow r0 \<and> pnsChat (rdState r) = chat \<and> distinct (map fst (rdObservations r))
     \<and> (\<forall>i. map_of (rdIdentities r) i = (case filter (\<lambda>y. pinIdent y = i) V of [] \<Rightarrow> None | y # _ \<Rightarrow> Some (pinPay y)))
     \<and> (\<forall>ref. map_of (rdObservations r) ref = (if ref \<in> pinRef ` set A
           then Some (withExpiry (rdNow r0) (last (filter (\<lambda>y. pinRef y = ref) A))) else None))
     \<and> set (rdDeleted r) = {ref. deletedIn U chat es ref}
     \<and> pnsConflicts (rdState r) = length (filter (conflicting V) V)
     \<and> (rdState r)\<lparr>pnsIgnoredInvalid := 0, pnsConflicts := 0\<rparr> = (rdState r0)\<lparr>pnsIgnoredInvalid := 0, pnsConflicts := 0\<rparr>)"

lemma validPins_snoc:
  "validPins U chat (es @ [e]) = validPins U chat es @ (if inChat chat e then
     (case pinObservation e of Some obs \<Rightarrow> if validPinObservation U obs then [obs] else [] | None \<Rightarrow> []) else [])"
  by (auto simp: validPins_def map_filter_simps List.map_filter_def split: option.splits)

lemma deletedIn_snoc:
  "deletedIn U chat (es @ [e]) ref \<longleftrightarrow> deletedIn U chat es ref \<or> deletedIn U chat [e] ref"
  by (auto simp: deletedIn_def)

lemma deletedIn_other: "(\<And>d. ieEvent e \<noteq> EvDelete d) \<Longrightarrow> \<not> deletedIn U chat [e] ref"
  by (auto simp: deletedIn_def)

lemma conflicts_snoc:
  "length (filter (conflicting (V @ [x])) (V @ [x])) = length (filter (conflicting V) V)
     + (case filter (\<lambda>y. pinIdent y = pinIdent x) V of [] \<Rightarrow> 0 | y # _ \<Rightarrow> if pinPay y \<noteq> pinPay x then 1 else 0)"
proof -
  have "filter (\<lambda>y. pinIdent y = pinIdent v) (V @ [x]) \<noteq> []
      \<and> hd (filter (\<lambda>y. pinIdent y = pinIdent v) (V @ [x])) = hd (filter (\<lambda>y. pinIdent y = pinIdent v) V)" if "v \<in> set V" for v
  proof -
    have "filter (\<lambda>y. pinIdent y = pinIdent v) V \<noteq> []" using that by (auto simp: filter_empty_conv)
    then show ?thesis by simp
  qed
  then have "filter (conflicting (V @ [x])) V = filter (conflicting V) V"
    by (intro filter_cong) (auto simp: conflicting_def)
  then show ?thesis by (auto simp: conflicting_def split: list.splits)
qed

lemma observeValid_reduced:
  assumes R: "reduced U r0 es r" and e: "inChat (pnsChat (rdState r0)) e" "pinObservation e = Some obs"
  shows "reduced U r0 (es @ [e]) (observeValid U obs r)"
proof -
  let ?c = "pnsChat (rdState r0)"
  let ?V = "validPins U ?c es" and ?A = "countedPins U ?c es"
  have del: "\<And>ref. deletedIn U ?c (es @ [e]) ref = deletedIn U ?c es ref"
    using e(2) deletedIn_other [of e] by (auto simp: deletedIn_snoc pinObservation_def split: Event.splits)
  show ?thesis
  proof (cases "validPinObservation U obs")
    case False
    then have V: "validPins U ?c (es @ [e]) = ?V" using e by (simp add: validPins_snoc)
    then have A: "countedPins U ?c (es @ [e]) = ?A" by (simp add: countedPins_def)
    show ?thesis using R False unfolding reduced_def Let_def V A del
      by (auto simp: observeValid_def ignoreInvalid_def)
  next
    case True
    have V: "validPins U ?c (es @ [e]) = ?V @ [obs]" using e True by (simp add: validPins_snoc)
    have ids: "map_of (rdIdentities r) (pinIdent obs) = (case filter (\<lambda>y. pinIdent y = pinIdent obs) ?V of [] \<Rightarrow> None | y # _ \<Rightarrow> Some (pinPay y))"
      using R unfolding reduced_def Let_def by blast
    show ?thesis
    proof (cases "filter (\<lambda>y. pinIdent y = pinIdent obs) ?V")
      case (Cons y ys)
      have "y \<in> set (filter (\<lambda>y. pinIdent y = pinIdent obs) ?V)" unfolding Cons by simp
      then have "pinIdent obs \<in> pinIdent ` set ?V" by (metis (mono_tags, lifting) filter_is_subset imageI mem_Collect_eq set_filter subsetD)
      then have A: "countedPins U ?c (es @ [e]) = ?A" by (simp add: countedPins_def V firsts_snoc)
      have o: "observeValid U obs r = (if pinPay y \<noteq> pinPay obs
          then r\<lparr>rdState := (rdState r)\<lparr>pnsConflicts := pnsConflicts (rdState r) + 1\<rparr>\<rparr> else r)"
        using ids True Cons by (simp add: observeValid_def)
      have idm: "(case filter (\<lambda>z. pinIdent z = i) (?V @ [obs]) of [] \<Rightarrow> None | y # _ \<Rightarrow> Some (pinPay y))
          = (case filter (\<lambda>z. pinIdent z = i) ?V of [] \<Rightarrow> None | y # _ \<Rightarrow> Some (pinPay y))" for i
        using Cons by (cases "pinIdent obs = i") (auto split: list.splits)
      show ?thesis using R unfolding reduced_def Let_def V A del idm conflicts_snoc Cons o by auto
    next
      case Nil
      then have new: "pinIdent obs \<notin> pinIdent ` set ?V" by (metis (mono_tags, lifting) filter_empty_conv imageE)
      then have A: "countedPins U ?c (es @ [e]) = ?A @ [obs]" by (simp add: countedPins_def V firsts_snoc)
      have o: "observeValid U obs r = r\<lparr>rdIdentities := (pinIdent obs, pinPay obs) # rdIdentities r,
         rdObservations := AList.update (pinRef obs) (withExpiry (rdNow r) obs) (rdObservations r)\<rparr>"
        using ids True Nil by (simp add: observeValid_def)
      have idm: "(case filter (\<lambda>z. pinIdent z = i) (?V @ [obs]) of [] \<Rightarrow> None | y # _ \<Rightarrow> Some (pinPay y))
          = (if i = pinIdent obs then Some (pinPay obs)
             else (case filter (\<lambda>z. pinIdent z = i) ?V of [] \<Rightarrow> None | y # _ \<Rightarrow> Some (pinPay y)))" for i
        using Nil by (cases "i = pinIdent obs") simp_all
      show ?thesis using R unfolding reduced_def Let_def V A del conflicts_snoc Nil o idm
        by (auto simp: update_conv' distinct_update)
    qed
  qed
qed

lemma reduced_same:
  assumes "reduced U r0 es r" "validPins U (pnsChat (rdState r0)) (es @ [e]) = validPins U (pnsChat (rdState r0)) es"
    "\<And>ref. \<not> deletedIn U (pnsChat (rdState r0)) [e] ref"
  shows "reduced U r0 (es @ [e]) r" "reduced U r0 (es @ [e]) (ignoreInvalid r)"
proof -
  have A: "countedPins U (pnsChat (rdState r0)) (es @ [e]) = countedPins U (pnsChat (rdState r0)) es"
    by (simp add: countedPins_def assms(2))
  have del: "\<And>ref. deletedIn U (pnsChat (rdState r0)) (es @ [e]) ref = deletedIn U (pnsChat (rdState r0)) es ref"
    using assms(3) by (simp add: deletedIn_snoc)
  show "reduced U r0 (es @ [e]) r" "reduced U r0 (es @ [e]) (ignoreInvalid r)"
    using assms(1) unfolding reduced_def Let_def A del assms(2) ignoreInvalid_def by auto
qed

lemma observeDelete_reduced:
  assumes R: "reduced U r0 es r" and e: "inChat (pnsChat (rdState r0)) e" "ieEvent e = EvDelete d"
  shows "reduced U r0 (es @ [e]) (observeDelete U d (ieReceivedAt e) r)"
proof -
  let ?c = "pnsChat (rdState r0)"
  have V: "validPins U ?c (es @ [e]) = validPins U ?c es" using e by (simp add: validPins_snoc pinObservation_def)
  show ?thesis
  proof (cases "canonicalPinACI U (rACI (eSender (delEnv d))) \<and> eTimestamp (delEnv d) \<noteq> 0 \<and> delTargetTimestamp d \<noteq> 0
      \<and> \<not> IsZero (ieReceivedAt e)")
    case False
    then have "\<not> deletedIn U ?c [e] ref" for ref using e by (auto simp: deletedIn_def)
    from reduced_same(2) [OF R V this] False show ?thesis by (simp add: observeDelete_def)
  next
    case True
    then have del: "deletedIn U ?c (es @ [e]) ref \<longleftrightarrow> deletedIn U ?c es ref \<or> ref = (rACI (eSender (delEnv d)), delTargetTimestamp d)" for ref
      using e by (auto simp: deletedIn_snoc deletedIn_def)
    have A: "countedPins U ?c (es @ [e]) = countedPins U ?c es" by (simp add: countedPins_def V)
    have o: "observeDelete U d (ieReceivedAt e) r = r\<lparr>rdDeleted := (rACI (eSender (delEnv d)), delTargetTimestamp d) # rdDeleted r\<rparr>"
      using True by (simp add: observeDelete_def)
    show ?thesis using R unfolding reduced_def Let_def A V del o by auto
  qed
qed

lemma observe_reduced:
  assumes R: "reduced U r0 es r" shows "reduced U r0 (es @ [e]) (pinReducer_observe U e r)"
proof -
  let ?c = "pnsChat (rdState r0)"
  have c: "pnsChat (rdState r) = ?c" using R by (simp add: reduced_def Let_def)
  show ?thesis
  proof (cases "inChat ?c e")
    case False
    have V: "validPins U ?c (es @ [e]) = validPins U ?c es" using False by (simp add: validPins_snoc)
    have d: "\<not> deletedIn U ?c [e] ref" for ref using False by (auto simp: deletedIn_def)
    have "pinReducer_observe U e r = r"
      using False c by (auto simp: pinReducer_observe_def inChat_def split: option.splits)
    then show ?thesis using reduced_same(1) [OF R V d] by simp
  next
    case True
    have o: "pinReducer_observe U e r = (case ieEvent e of
           EvUnsupported evt \<Rightarrow> if unType evt = ''invalidPin'' then ignoreInvalid r else r
         | EvDelete evt \<Rightarrow> observeDelete U evt (ieReceivedAt e) r
         | _ \<Rightarrow> (case pinObservation e of None \<Rightarrow> r | Some obs \<Rightarrow> observeValid U obs r))"
      using True c by (auto simp: pinReducer_observe_def inChat_def split: option.splits)
    show ?thesis
    proof (cases "\<exists>d. ieEvent e = EvDelete d")
      case isDel: True
      then obtain d where d: "ieEvent e = EvDelete d" by blast
      then show ?thesis using observeDelete_reduced [OF R True d] o by simp
    next
      case False
      show ?thesis
      proof (cases "pinObservation e")
        case None
        have V: "validPins U ?c (es @ [e]) = validPins U ?c es" using None by (simp add: validPins_snoc)
        have d: "\<not> deletedIn U ?c [e] ref" for ref using False by (intro deletedIn_other) auto
        have "pinReducer_observe U e r \<in> {r, ignoreInvalid r}"
          using o None False by (auto split: Event.splits)
        then show ?thesis using reduced_same [OF R V d] by auto
      next
        case (Some obs)
        then have "pinReducer_observe U e r = observeValid U obs r"
          using o by (auto simp: pinObservation_def split: Event.splits)
        then show ?thesis using observeValid_reduced [OF R True Some] by simp
      qed
    qed
  qed
qed

lemma fold_reduced:
  assumes "reduced U r0 [] r0" shows "reduced U r0 es (fold (pinReducer_observe U) es r0)"
proof (induction es rule: rev_induct)
  case (snoc e es)
  then show ?case using observe_reduced by simp
qed (simp add: assms)

text \<open>What is shown of the observation \<open>y\<close>: a pin that is not forever ends its duration after it was
  received, and has ended when that is not after \<open>now\<close>; nothing else differs but the deletion.\<close>

definition shownAs :: "time \<Rightarrow> bool \<Rightarrow> PinObservation \<Rightarrow> PinObservation \<Rightarrow> bool" where
  "shownAs now deleted y x \<longleftrightarrow> poTargetDeleted x = deleted
     \<and> (if poOperation y = ''pin'' \<and> \<not> poForever y
        then poExpiresAt x = poReceivedAt y + uint (poDurationSeconds y) * 10 ^ 9
           \<and> (poExpiryReached x \<longleftrightarrow> poReceivedAt y + uint (poDurationSeconds y) * 10 ^ 9 \<le> now)
        else poExpiresAt x = poExpiresAt y \<and> poExpiryReached x = poExpiryReached y)
     \<and> x = y\<lparr>poTargetDeleted := poTargetDeleted x, poExpiresAt := poExpiresAt x, poExpiryReached := poExpiryReached x\<rparr>"

text \<open>The view that the reducer ends with.\<close>

definition pinView :: "uuid_lib \<Rightarrow> Chat \<Rightarrow> time \<Rightarrow> InboxEntry list \<Rightarrow> PinState \<Rightarrow> bool" where
  "pinView U chat now es st \<longleftrightarrow> (let V = validPins U chat es; A = countedPins U chat es in
     sorted_wrt (<) (map pinRef (pnsObservations st))
     \<and> pinRef ` set (pnsObservations st) = pinRef ` set A
     \<and> (\<forall>x\<in>set (pnsObservations st).
           shownAs now (deletedIn U chat es (pinRef x)) (last (filter (\<lambda>y. pinRef y = pinRef x) A)) x)
     \<and> pnsConflicts st = length (filter (conflicting V) V))"

lemma withExpiry_ref [simp]: "pinRef (withExpiry now x) = pinRef x" "pinRef (x\<lparr>poTargetDeleted := b\<rparr>) = pinRef x"
  by (simp_all add: pinRef_def withExpiry_def Let_def)

lemma withExpiry_shown: "shownAs now d y ((withExpiry now y)\<lparr>poTargetDeleted := d\<rparr>)"
  by (simp add: shownAs_def withExpiry_def Let_def)

lemma last_filter_ref: "ref \<in> pinRef ` set A \<Longrightarrow> pinRef (last (filter (\<lambda>y. pinRef y = ref) A)) = ref"
proof -
  assume "ref \<in> pinRef ` set A"
  then have "filter (\<lambda>y. pinRef y = ref) A \<noteq> []" by (auto simp: filter_empty_conv)
  from last_in_set [OF this] show ?thesis by simp
qed

lemma distinct_sort_key: "distinct (map f xs) \<Longrightarrow> distinct (map f (sort_key f xs))"
  by (simp add: distinct_map)

lemma finalize_view:
  assumes R: "reduced U r0 es r" and e: "pnsObservations (rdState r0) = []"
  shows "pinView U (pnsChat (rdState r0)) (rdNow r0) es (finalize r)
    \<and> (finalize r)\<lparr>pnsObservations := [], pnsIgnoredInvalid := 0, pnsConflicts := 0\<rparr>
      = (rdState r0)\<lparr>pnsIgnoredInvalid := 0, pnsConflicts := 0\<rparr>"
proof -
  let ?c = "pnsChat (rdState r0)"
  let ?A = "countedPins U ?c es" and ?V = "validPins U ?c es"
  let ?x = "\<lambda>(ref, obs). obs\<lparr>poTargetDeleted := ref \<in> set (rdDeleted r)\<rparr>" and ?O = "rdObservations r"
  have st: "(rdState r)\<lparr>pnsIgnoredInvalid := 0, pnsConflicts := 0\<rparr> = (rdState r0)\<lparr>pnsIgnoredInvalid := 0, pnsConflicts := 0\<rparr>"
    and dist: "distinct (map fst ?O)" and conf: "pnsConflicts (rdState r) = length (filter (conflicting ?V) ?V)"
    and del: "set (rdDeleted r) = {ref. deletedIn U ?c es ref}"
    and obs: "\<And>ref. map_of ?O ref = (if ref \<in> pinRef ` set ?A
           then Some (withExpiry (rdNow r0) (last (filter (\<lambda>y. pinRef y = ref) ?A))) else None)"
    using R unfolding reduced_def Let_def by blast+
  have o0: "pnsObservations (rdState r) = []"
    using arg_cong [OF st, of pnsObservations] e by simp
  have mem: "(ref, v) \<in> set ?O \<longleftrightarrow> ref \<in> pinRef ` set ?A \<and> v = withExpiry (rdNow r0) (last (filter (\<lambda>y. pinRef y = ref) ?A))" for ref v
    using map_of_eq_Some_iff [OF dist, of ref v] obs [of ref] by (auto split: if_splits)
  then have ref: "pinRef (?x p) = fst p" if "p \<in> set ?O" for p
    using that last_filter_ref by (cases p) auto
  have fin: "pnsObservations (finalize r) = sort_key pinRef (map ?x ?O)"
    by (simp add: finalize_def o0 pinRef_def [abs_def])
  have keys: "map pinRef (map ?x ?O) = map fst ?O" using ref by simp
  have set: "set (pnsObservations (finalize r)) = ?x ` set ?O" by (simp add: fin)
  have "distinct (map pinRef (sort_key pinRef (map ?x ?O)))"
    by (rule distinct_sort_key) (simp only: keys dist)
  then have "sorted_wrt (<) (map pinRef (pnsObservations (finalize r)))"
    unfolding fin by (simp add: strict_sorted_iff)
  moreover have "pinRef ` set (pnsObservations (finalize r)) = pinRef ` set ?A"
  proof -
    have "pinRef ` set (pnsObservations (finalize r)) = fst ` set ?O"
      using arg_cong [OF keys, of set] unfolding set set_map .
    also have "\<dots> = dom (map_of ?O)" by (simp add: dom_map_of_conv_image_fst)
    also have "\<dots> = pinRef ` set ?A" unfolding dom_def obs by auto
    finally show ?thesis .
  qed
  moreover have "shownAs (rdNow r0) (deletedIn U ?c es (pinRef x)) (last (filter (\<lambda>y. pinRef y = pinRef x) ?A)) x" if "x \<in> set (pnsObservations (finalize r))" for x
  proof -
    obtain ref v where p: "(ref, v) \<in> set ?O" "x = ?x (ref, v)" using \<open>x \<in> _\<close> set by auto
    then have "pinRef x = ref" using ref [OF p(1)] by simp
    moreover from this have "x = (withExpiry (rdNow r0) (last (filter (\<lambda>y. pinRef y = pinRef x) ?A)))
        \<lparr>poTargetDeleted := deletedIn U ?c es (pinRef x)\<rparr>"
      using p mem [of ref v] del by simp
    ultimately show ?thesis using withExpiry_shown by metis
  qed
  moreover have "pnsConflicts (finalize r) = length (filter (conflicting ?V) ?V)" by (simp add: finalize_def conf)
  ultimately have "pinView U ?c (rdNow r0) es (finalize r)" unfolding pinView_def Let_def by blast
  moreover have "(finalize r)\<lparr>pnsObservations := [], pnsIgnoredInvalid := 0, pnsConflicts := 0\<rparr>
      = (rdState r)\<lparr>pnsObservations := [], pnsIgnoredInvalid := 0, pnsConflicts := 0\<rparr>"
    by (simp add: finalize_def)
  moreover have "(rdState r)\<lparr>pnsObservations := [], pnsIgnoredInvalid := 0, pnsConflicts := 0\<rparr>
      = (rdState r0)\<lparr>pnsIgnoredInvalid := 0, pnsConflicts := 0\<rparr>"
    using st o0 e by (cases "rdState r"; cases "rdState r0") simp
  ultimately show ?thesis by simp
qed

section \<open>Properties of the views\<close>

lemma canonicalPinACI_Nil: "uuid_laws U \<Longrightarrow> \<not> canonicalPinACI U []"
  by (simp add: canonicalPinACI_def uuid_laws_def)

lemma PinListRequest_Check_D:
  assumes "uuid_laws U" "PinListRequest_Check U req = None"
  shows "plChat req \<noteq> [] \<and> 0 \<le> plScanLimit req \<and> (\<exists>target. ParseRecipient U (plChat req) = Inr target)"
  using assms canonicalPinACI_Nil [OF assms(1)]
  by (auto simp: PinListRequest_Check_def Target_IsGroup_def split: sum.splits if_splits)

text \<open>C36: The list of pins of a chat looks at the chat's newest entries, up to the limit, and says whether
  there were more. It shows one observation per message pinned or unpinned, ordered by author and
  timestamp of the message: the latest one that counts, where only the first valid pin or unpin of a
  sender with a timestamp counts, with its expiry, whether that is reached by the clock's time at the
  call, and whether the author deleted the message. The repeated ones that differ from the first are counted as conflicts. Nothing changes.\<close>

theorem PinList_spec:
  assumes "uuid_laws U" "inbox_inv (storeTable (world s))"
    "PinList U (meowStore U J C) ctx req s = (Inr st, s')"
  shows "\<exists>target now es. ParseRecipient U (plChat req) = Inr target
    \<and> es = map (inboxEntry (clJSON J) \<circ> scanInboxRecord)
        (newest (nat (scanLimit (plScanLimit req))) (chatRows (plChat req) (storeTable (world s))))
    \<and> pnsScanned st = length es
    \<and> (pnsTruncated st \<longleftrightarrow> nat (scanLimit (plScanLimit req)) < length (chatRows (plChat req) (storeTable (world s))))
    \<and> now = fst (clNow (meowStore U J C) (world s))
    \<and> pinView U \<lparr>cGroupID = tGroupID target, cRecipient = tRecipient target\<rparr> now es st
    \<and> storeTable (world s') = storeTable (world s)"
proof -
  let ?C = "meowStore U J C" and ?limit = "scanLimit (plScanLimit req)"
  let ?q = "allEntries\<lparr>iqChat := plChat req, iqNewest := True, iqLimit := ?limit + 1\<rparr>"
  have chk: "PinListRequest_Check U req = None" using assms(3)
    by (cases "PinListRequest_Check U req") (auto simp: PinList_def action_defs)
  obtain target where target: "ParseRecipient U (plChat req) = Inr target" and ne: "plChat req \<noteq> []" "0 < ?limit"
    using PinListRequest_Check_D [OF assms(1) chk] scanLimit_pos by auto
  have c0: "ctx 0 = None" using assms(3) chk
    by (cases "ctx 0") (auto simp: PinList_def action_defs)
  obtain now w1 where now: "clNow ?C (world s) = (now, w1)" by (metis surj_pair)
  have w1: "storeTable w1 = storeTable (world s)" using meow_api.now_keeps [of U J C "world s"] now by simp
  obtain entries w2 where l: "clInboxList ?C ?q w1 = (Inr entries, w2)"
    using assms(3) chk c0 target now
    by (cases "clInboxList ?C ?q w1"; cases "fst (clInboxList ?C ?q w1)") (auto simp: PinList_def action_defs Let_def)
  define es where "es = map (inboxEntry (clJSON J) \<circ> scanInboxRecord)
        (newest (nat ?limit) (chatRows (plChat req) (storeTable (world s))))"
  let ?more = "nat ?limit < length (chatRows (plChat req) (storeTable (world s)))"
  have b: "bounded entries ?limit = (es, ?more)" "storeTable w2 = storeTable (world s)"
    using meow_api.snapshot_D [OF _ ne l] assms(2) w1 by (simp_all add: es_def)
  define r0 where "r0 = \<lparr>rdState = \<lparr>pnsChat = \<lparr>cGroupID = tGroupID target, cRecipient = tRecipient target\<rparr>, pnsObservations = [],
             pnsCompleteness = ''unknown'', pnsScanned = length es, pnsFirstEntryID = firstID es,
             pnsLastEntryID = lastID es, pnsTruncated = ?more, pnsIgnoredInvalid = 0, pnsConflicts = 0\<rparr>,
           rdNow = now, rdObservations = [], rdIdentities = [], rdDeleted = []\<rparr>"
  have run: "wrapping ''pins list'' (andThen (ofRes (checked_loop ctx 1 (pinReducer_observe U) es r0))
      (\<lambda>r. andThen (ofCheck (ctx (Suc (length es)))) (\<lambda>_. ret (finalize r)))) (s\<lparr>world := w2\<rparr>) = (Inr st, s')"
    using assms(3) chk c0 target now l b(1) unfolding r0_def
    by (simp add: PinList_def wrapping_def andThen_def ofCheck_def ofRes_def callNow_def call_def ret_def Let_def)
  obtain r where r: "checked_loop ctx 1 (pinReducer_observe U) es r0 = Inr r" "st = finalize r" "s' = s\<lparr>world := w2\<rparr>"
    using run by (auto simp: action_defs split: sum.splits option.splits prod.splits)
  have "reduced U r0 [] r0" by (simp add: reduced_def Let_def r0_def validPins_def countedPins_def deletedIn_def List.map_filter_def)
  from fold_reduced [OF this] have "reduced U r0 es r" using checked_loop_fold [OF r(1)] by simp
  from finalize_view [OF this] have v: "pinView U (pnsChat (rdState r0)) now es st"
    and eq: "st\<lparr>pnsObservations := [], pnsIgnoredInvalid := 0, pnsConflicts := 0\<rparr> = (rdState r0)\<lparr>pnsIgnoredInvalid := 0, pnsConflicts := 0\<rparr>"
    by (simp_all add: r0_def r(2))
  have "pnsScanned st = length es" "pnsTruncated st = ?more"
    using arg_cong [OF eq, of pnsScanned] arg_cong [OF eq, of pnsTruncated] by (simp_all add: r0_def)
  then show ?thesis using v target b(2) r(3)
    by (intro exI [of _ target] exI [of _ now] exI [of _ es]) (simp add: r0_def es_def now)
qed

lemma demoUser_canonical: "canonicalPinACI plain_uuid (demoUser n)"
proof -
  have p: "uuid_Parse plain_uuid (demoUser n) = Some (replicate 15 (CHR 0x01) @ [char_of n])"
    unfolding demoUser_def using plain_uuid_laws by (simp add: uuid_laws_def)
  have "hd (replicate 15 (CHR 0x01) @ [char_of n :: char]) \<noteq> hd uuid_Nil"
    by (simp add: hd_append uuid_Nil_def char_of_def)
  then have "replicate 15 (CHR 0x01) @ [char_of n] \<noteq> uuid_Nil" by metis
  then show ?thesis unfolding canonicalPinACI_def p option.case by (simp add: demoUser_def)
qed

lemma demoUser_other: "demoUser n \<noteq> ''c''"
proof -
  have "length (demoUser n) = 36" unfolding demoUser_def using plain_uuid_laws by (simp add: uuid_laws_def)
  then show ?thesis by auto
qed

text \<open>A chat with one stored event, whatever it decodes to.\<close>

definition chatStore :: store_world where
  "chatStore = demoStore\<lparr>swDB := demoDB\<lparr>dbInbox := \<lparr>ibRows = [(demoRow 1)\<lparr>rowChat := demoUser 2\<rparr>, demoRow 2], ibSeq = 3\<rparr>\<rparr>\<rparr>"

theorem PinList_spec_witness:
  "\<exists>st s'. PinList plain_uuid (meowStore plain_uuid demoLib demoBase) (\<lambda>_. None)
      \<lparr>plChat = demoUser 2, plScanLimit = 1\<rparr> (storeApp chatStore) = (Inr st, s') \<and> pnsScanned st = 1 \<and> \<not> pnsTruncated st"
proof -
  let ?C = "meowStore plain_uuid demoLib demoBase" and ?r = "\<lparr>plChat = demoUser 2, plScanLimit = 1\<rparr>" and ?s = "storeApp chatStore"
  have p: "ParseRecipient plain_uuid (demoUser 2) = Inr (noTarget\<lparr>tRecipient := aciRecipient (demoUser 2)\<rparr>)"
    unfolding demoUser_def by (rule parse_aci_text [OF plain_uuid_laws]) simp
  have chk: "PinListRequest_Check plain_uuid ?r = None"
    using demoUser_canonical [of 2] by (simp add: PinListRequest_Check_def p Target_IsGroup_def noTarget_def MaxScanLimit_def)
  have t: "storeTable (world ?s) = \<lparr>ibRows = [(demoRow 1)\<lparr>rowChat := demoUser 2\<rparr>, demoRow 2], ibSeq = 3\<rparr>"
    by (simp add: storeTable_def storeApp_def chatStore_def)
  have inv: "inbox_inv (storeTable (world ?s))" unfolding t by (simp add: inbox_inv_def)
  have h: "healthy (snd (clNow ?C (world ?s)))"
    by (simp add: healthy_def storeApp_def chatStore_def demoStore_def meowStore_def meow_Now_def)
  obtain now w1 where now: "clNow ?C (world ?s) = (now, w1)" by (metis surj_pair)
  obtain es w2 where l: "clInboxList ?C (allEntries\<lparr>iqChat := demoUser 2, iqNewest := True, iqLimit := scanLimit 1 + 1\<rparr>) w1 = (Inr es, w2)"
    using healthy_list [of w1 plain_uuid demoLib demoBase] h now by fastforce
  obtain b tr where b: "bounded es (scanLimit 1) = (b, tr)" by (metis surj_pair)
  obtain st s' where run: "PinList plain_uuid ?C (\<lambda>_. None) ?r ?s = (Inr st, s')"
    using chk p now l b
    by (simp add: PinList_def wrapping_def andThen_def ofCheck_def ofRes_def callNow_def call_def ret_def Let_def checked_loop_ok)
  have rows: "chatRows (demoUser 2) (storeTable (world ?s)) = [(demoRow 1)\<lparr>rowChat := demoUser 2\<rparr>]"
    unfolding t using demoUser_other [of 2] by (simp add: chatRows_def demoRow_def)
  from PinList_spec [OF plain_uuid_laws inv run] show ?thesis
    using run rows by (auto simp: scanLimit_def newest_def)
qed

text \<open>The view of a poll that is not durable is the reduction of the chat's newest entries.\<close>

lemma PollShow_view:
  assumes "inbox_inv (storeTable (world s))" "PollShow U (meowStore U J C) ctx req s = (Inr st, s')" "\<not> pshDurable req"
    "ParseTarget U (pshTarget req) = Inr (author, timestamp)" "Chat_Key (prChat (showReference req author timestamp)) \<noteq> []"
  shows "\<exists>st0. ReducePoll U (showReference req author timestamp)
        (map (ieEvent \<circ> inboxEntry (clJSON J) \<circ> scanInboxRecord)
          (newest (nat (scanLimit (pshScanLimit req))) (chatRows (Chat_Key (prChat (showReference req author timestamp))) (storeTable (world s)))))
        = Some st0
      \<and> psVotes st = psVotes st0 \<and> psTally st = psTally st0 \<and> psCreation st = psCreation st0
      \<and> storeTable (world s') = storeTable (world s)"
proof -
  let ?C = "meowStore U J C" and ?limit = "scanLimit (pshScanLimit req)" and ?ref = "showReference req author timestamp"
  let ?q = "allEntries\<lparr>iqChat := Chat_Key (prChat ?ref), iqNewest := True, iqLimit := ?limit + 1\<rparr>"
  have chk: "PollShowRequest_Check U req = None" using assms(2)
    by (cases "PollShowRequest_Check U req") (auto simp: PollShow_def action_defs)
  have "0 \<le> pshScanLimit req"
    using chk by (auto simp: PollShowRequest_Check_def checkScan_def split: option.splits sum.splits prod.splits if_splits)
  then have pos: "0 < ?limit" by (rule scanLimit_pos)
  have c0: "ctx 0 = None" using assms(2) chk by (cases "ctx 0") (auto simp: PollShow_def action_defs)
  obtain entries w2 where l: "clInboxList ?C ?q (world s) = (Inr entries, w2)"
    using assms(2-4) chk c0
    by (cases "clInboxList ?C ?q (world s)"; cases "fst (clInboxList ?C ?q (world s))") (auto simp: PollShow_def action_defs Let_def)
  define es where "es = map (inboxEntry (clJSON J) \<circ> scanInboxRecord)
        (newest (nat ?limit) (chatRows (Chat_Key (prChat ?ref)) (storeTable (world s))))"
  obtain more where b: "bounded entries ?limit = (es, more)" "storeTable w2 = storeTable (world s)"
    using meow_api.snapshot_D [OF assms(1,5) pos l] by (simp add: es_def)
  obtain events where ev: "checked_loop ctx 1 (\<lambda>e evs. evs @ [ieEvent e]) es [] = Inr events"
    using assms(2-4) chk c0 l b(1)
    by (cases "checked_loop ctx 1 (\<lambda>e evs. evs @ [ieEvent e]) es []") (auto simp: PollShow_def action_defs Let_def)
  have collect: "fold (\<lambda>e evs. evs @ [ieEvent e]) xs acc = acc @ map ieEvent xs" for xs acc
    by (induction xs arbitrary: acc) auto
  have events: "events = map ieEvent es" using checked_loop_fold [OF ev] by (simp only: collect append_Nil)
  obtain st0 where st0: "ReducePoll U ?ref events = Some st0"
    using assms(2-4) chk c0 l b(1) ev by (cases "ReducePoll U ?ref events") (auto simp: PollShow_def action_defs Let_def)
  have "st = st0\<lparr>psScanned := length es, psFirstEntryID := firstID es, psLastEntryID := lastID es, psTruncated := more\<rparr>"
    "s' = s\<lparr>world := w2\<rparr>"
    using assms(2-4) chk c0 l b(1) ev st0 by (auto simp: PollShow_def action_defs Let_def)
  then show ?thesis using st0 b(2) events by (simp add: es_def comp_assoc)
qed

end
