(* ===== verification/Supervisor.thy ===== *)
theory Supervisor
  imports SignalTypes GoText "HOL-Library.Sublist"
begin

text \<open>
  The supervisor of the receive loops (internal/signal/reconnect.go): the backoff between restarts
  and \<open>run\<close> with \<open>restart\<close>, as a state machine. Its inputs are what the environment does: a context that
  is cancelled, a status of the loops or their end, a timer that fires with the result of starting
  the loops anew. When a status and a cancelled context are both ready, Go picks either, so both are
  inputs; a cancellation while the loops are being stopped is part of the status input. An input
  that the supervisor is not waiting for changes nothing. What the supervisor only logs is left out.
\<close>

section \<open>Backoff\<close>

text \<open>Durations are 64-bit nanoseconds; doubling wraps around.\<close>

definition wrap64 :: "int \<Rightarrow> int" where
  "wrap64 x = (x + 2 ^ 63) mod 2 ^ 64 - 2 ^ 63"

record ReconnectPolicy =
  rpMaxAttempts :: int
  rpInitialBackoff :: int
  rpMaxBackoff :: int

definition defaultPolicy :: ReconnectPolicy where
  "defaultPolicy = \<lparr>rpMaxAttempts = 5, rpInitialBackoff = 2000000000, rpMaxBackoff = 60000000000\<rparr>"

text \<open>The loop with \<open>k\<close> doublings left.\<close>

fun backoff_loop :: "ReconnectPolicy \<Rightarrow> nat \<Rightarrow> int \<Rightarrow> int" where
  "backoff_loop P 0 delay = delay"
| "backoff_loop P (Suc k) delay = (if delay < rpMaxBackoff P then backoff_loop P k (wrap64 (delay * 2)) else delay)"

definition backoff :: "ReconnectPolicy \<Rightarrow> int \<Rightarrow> int" where
  "backoff P n = min (backoff_loop P (nat (n - 1)) (rpInitialBackoff P)) (rpMaxBackoff P)"

section \<open>The supervisor\<close>

record loopStatus =
  lsState :: "ConnectionState option"
  lsErr :: "err option"
  lsStopped :: bool

text \<open>What the receive loops of signalmeow report, and its conversion (convert.go). The text of an error
  is the argument \<open>txt_of\<close>.\<close>

datatype ws_event = EventNone | EventConnected | EventDisconnected | EventLoggedOut | EventError
  | EventFatalError | CleanShutdown

record SignalConnectionStatus =
  wsEvent :: ws_event
  wsErr :: "err option"

definition websocketUnauthorized :: string where
  "websocketUnauthorized = ''opening websocket: 401''"

definition isUnauthorized :: "(err \<Rightarrow> string) \<Rightarrow> err option \<Rightarrow> bool" where
  "isUnauthorized txt_of e = (case e of None \<Rightarrow> False | Some x \<Rightarrow> sublist websocketUnauthorized (txt_of x))"

definition convertStatus :: "(err \<Rightarrow> string) \<Rightarrow> SignalConnectionStatus \<Rightarrow> Connection option" where
  "convertStatus txt_of status = (case wsEvent status of
     EventConnected \<Rightarrow> Some \<lparr>connState = StateConnected, connErr = None\<rparr>
   | EventDisconnected \<Rightarrow> Some \<lparr>connState = StateDisconnected, connErr = wsErr status\<rparr>
   | EventLoggedOut \<Rightarrow> Some \<lparr>connState = StateLoggedOut, connErr = wsErr status\<rparr>
   | EventFatalError \<Rightarrow> if isUnauthorized txt_of (wsErr status)
       then Some \<lparr>connState = StateLoggedOut, connErr = wsErr status\<rparr>
       else Some \<lparr>connState = StateError, connErr = wsErr status\<rparr>
   | EventError \<Rightarrow> Some \<lparr>connState = StateError, connErr = wsErr status\<rparr>
   | EventNone \<Rightarrow> None | CleanShutdown \<Rightarrow> None)"

definition convertLoopStatus :: "(err \<Rightarrow> string) \<Rightarrow> SignalConnectionStatus \<Rightarrow> loopStatus" where
  "convertLoopStatus txt_of status = (case convertStatus txt_of status of
     Some conn \<Rightarrow> \<lparr>lsState = Some (connState conn), lsErr = connErr conn, lsStopped = (wsEvent status = EventFatalError)\<rparr>
   | None \<Rightarrow> \<lparr>lsState = None, lsErr = None, lsStopped = (wsEvent status = EventFatalError)\<rparr>)"

datatype phase = Listening | Backing "err option" | Ended

text \<open>\<open>suRunning\<close> says whether the loops run; \<open>suStarts\<close> counts the restarts since the last successful
  connection, \<open>suDelays\<close> their backoffs.\<close>

record supervisor =
  suPolicy :: ReconnectPolicy
  suPhase :: phase
  suAttempts :: int
  suState :: "ConnectionState option"
  suEvents :: "Connection list"
  suCancelled :: bool
  suRunning :: bool
  suStarts :: nat
  suDelays :: "int list"

datatype sup_input =
    Cancel
  | PickDone
  | Got SignalConnectionStatus bool
  | GotClosed bool
  | TimerFired "err option"

definition transition :: "Connection \<Rightarrow> supervisor \<Rightarrow> supervisor" where
  "transition conn s =
    (if Some (connState conn) = suState s then s
     else s\<lparr>suState := Some (connState conn), suEvents := (if suCancelled s then suEvents s else suEvents s @ [conn])\<rparr>)"

definition stopLoops :: "bool \<Rightarrow> supervisor \<Rightarrow> supervisor" where
  "stopLoops cancels s = s\<lparr>suRunning := False, suCancelled := suCancelled s \<or> cancels\<rparr>"

definition gaveUp :: "err option \<Rightarrow> err" where
  "gaveUp cause = (let e = Wrap ''gave up'' [Sentinel ErrConnectionFailed] in
     case cause of None \<Rightarrow> e | Some x \<Rightarrow> Wrap '''' [e, x])"

text \<open>One round of the loop of \<open>restart\<close>, up to waiting for its timer.\<close>

definition restart :: "err option \<Rightarrow> supervisor \<Rightarrow> supervisor" where
  "restart cause s = (let s1 = s\<lparr>suAttempts := suAttempts s + 1\<rparr> in
     if suAttempts s1 > rpMaxAttempts (suPolicy s)
     then (transition \<lparr>connState = StateFailed, connErr = Some (gaveUp cause)\<rparr> s1)\<lparr>suPhase := Ended\<rparr>
     else s1\<lparr>suPhase := Backing cause, suDelays := suDelays s @ [backoff (suPolicy s) (suAttempts s1)]\<rparr>)"

definition handle :: "(err option \<Rightarrow> err) \<Rightarrow> loopStatus \<Rightarrow> bool \<Rightarrow> supervisor \<Rightarrow> supervisor" where
  "handle loggedOut status cancels s =
    (if lsState status = Some StateLoggedOut
     then (transition \<lparr>connState = StateLoggedOut, connErr = Some (loggedOut (lsErr status))\<rparr> (stopLoops cancels s))\<lparr>suPhase := Ended\<rparr>
     else if lsStopped status
     then (let s1 = stopLoops cancels s in
       if suCancelled s1 then s1\<lparr>suPhase := Ended\<rparr>
       else restart (lsErr status) (transition \<lparr>connState = StateDisconnected, connErr = lsErr status\<rparr> s1))
     else if lsState status = Some StateConnected
     then transition \<lparr>connState = StateConnected, connErr = None\<rparr> (s\<lparr>suAttempts := 0, suStarts := 0, suDelays := []\<rparr>)
     else case lsState status of
       Some st \<Rightarrow> transition \<lparr>connState = st, connErr = lsErr status\<rparr> s
     | None \<Rightarrow> s)"

definition sup_step :: "(err \<Rightarrow> string) \<Rightarrow> (err option \<Rightarrow> err) \<Rightarrow> sup_input \<Rightarrow> supervisor \<Rightarrow> supervisor" where
  "sup_step txt_of loggedOut inp s = (case inp of
     Cancel \<Rightarrow> s\<lparr>suCancelled := True\<rparr>
   | PickDone \<Rightarrow> if suCancelled s then s\<lparr>suPhase := Ended\<rparr> else s
   | Got status cancels \<Rightarrow> if suPhase s = Listening then handle loggedOut (convertLoopStatus txt_of status) cancels s else s
   | GotClosed cancels \<Rightarrow>
       if suPhase s \<noteq> Listening then s
       else if suCancelled s then s\<lparr>suPhase := Ended\<rparr>
       else handle loggedOut \<lparr>lsState = Some StateDisconnected, lsErr = None, lsStopped = True\<rparr> cancels s
   | TimerFired result \<Rightarrow> (case suPhase s of
       Backing cause \<Rightarrow> (case result of
           None \<Rightarrow> s\<lparr>suPhase := Listening, suRunning := True, suStarts := suStarts s + 1\<rparr>
         | Some e \<Rightarrow> restart (Some e) (s\<lparr>suStarts := suStarts s + 1\<rparr>))
     | _ \<Rightarrow> s))"

definition sup_start :: "ReconnectPolicy \<Rightarrow> supervisor" where
  "sup_start P = \<lparr>suPolicy = P, suPhase = Listening, suAttempts = 0, suState = None, suEvents = [],
     suCancelled = False, suRunning = True, suStarts = 0, suDelays = []\<rparr>"

section \<open>Backoffs\<close>

lemma wrap64_small: "- (2 ^ 63) \<le> x \<Longrightarrow> x < 2 ^ 63 \<Longrightarrow> wrap64 x = x"
  by (simp add: wrap64_def)

lemma backoff_loop_min:
  assumes "0 < d" "rpMaxBackoff P \<le> 2 ^ 62"
  shows "min (backoff_loop P k d) (rpMaxBackoff P) = min (d * 2 ^ k) (rpMaxBackoff P)"
  using assms(1)
proof (induction k arbitrary: d)
  case (Suc k)
  show ?case
  proof (cases "d < rpMaxBackoff P")
    case True
    then have "wrap64 (d * 2) = d * 2" using Suc.prems assms(2) by (intro wrap64_small) auto
    then show ?thesis using True Suc.IH [of "d * 2"] Suc.prems by (simp add: mult.assoc)
  next
    case False
    have "d \<le> d * 2 ^ Suc k" using Suc.prems one_le_power [of "2 :: int" "Suc k"] by simp
    then show ?thesis using False by simp
  qed
qed simp

lemma backoff_eq:
  "0 < rpInitialBackoff P \<Longrightarrow> rpMaxBackoff P \<le> 2 ^ 62 \<Longrightarrow>
   backoff P n = min (rpInitialBackoff P * 2 ^ nat (n - 1)) (rpMaxBackoff P)"
  by (simp add: backoff_def backoff_loop_min)

section \<open>Invariant\<close>

definition final :: "ConnectionState \<Rightarrow> bool" where
  "final st \<longleftrightarrow> st = StateLoggedOut \<or> st = StateFailed"

text \<open>The events so far: two in a row differ in their state, only the last can be final, and it is only
  once the supervisor has ended. Until it is cancelled, the last event has the current state.\<close>

definition events_inv :: "supervisor \<Rightarrow> bool" where
  "events_inv s \<longleftrightarrow> successively (\<lambda>a b. connState a \<noteq> connState b) (suEvents s)
     \<and> list_all (\<lambda>c. \<not> final (connState c)) (butlast (suEvents s))
     \<and> (suPhase s \<noteq> Ended \<longrightarrow> list_all (\<lambda>c. \<not> final (connState c)) (suEvents s)
          \<and> (\<forall>st. suState s = Some st \<longrightarrow> \<not> final st))
     \<and> (\<not> suCancelled s \<longrightarrow> suState s = (if suEvents s = [] then None else Some (connState (last (suEvents s)))))"

definition delays_ok :: "ReconnectPolicy \<Rightarrow> int list \<Rightarrow> bool" where
  "delays_ok P ds \<longleftrightarrow> ds = map (\<lambda>i. backoff P (int i + 1)) [0..<length ds]"

lemma delays_ok_simps [simp]:
  "delays_ok P []" "delays_ok P ds \<Longrightarrow> delays_ok P (ds @ [backoff P (int (length ds) + 1)])"
  by (simp_all add: delays_ok_def)

text \<open>The restarts since the last connection, and whether the loops run.\<close>

definition loops_inv :: "supervisor \<Rightarrow> bool" where
  "loops_inv s \<longleftrightarrow> 0 \<le> suAttempts s
     \<and> (case suPhase s of
          Listening \<Rightarrow> suRunning s \<and> suAttempts s = int (suStarts s) \<and> int (length (suDelays s)) = suAttempts s
            \<and> suAttempts s \<le> max 0 (rpMaxAttempts (suPolicy s))
        | Backing _ \<Rightarrow> \<not> suRunning s \<and> suAttempts s = int (suStarts s) + 1 \<and> int (length (suDelays s)) = suAttempts s
            \<and> suAttempts s \<le> max 0 (rpMaxAttempts (suPolicy s))
        | Ended \<Rightarrow> (suRunning s \<longrightarrow> suCancelled s) \<and> int (suStarts s) \<le> max 0 (rpMaxAttempts (suPolicy s))
            \<and> (\<not> suCancelled s \<longrightarrow> (\<exists>st. suState s = Some st \<and> final st)))
     \<and> delays_ok (suPolicy s) (suDelays s)"

definition sup_inv :: "ReconnectPolicy \<Rightarrow> supervisor \<Rightarrow> bool" where
  "sup_inv P s \<longleftrightarrow> suPolicy s = P \<and> events_inv s \<and> loops_inv s"

lemma convert_not_failed: "lsState (convertLoopStatus f st) \<noteq> Some StateFailed"
  by (auto simp: convertLoopStatus_def convertStatus_def split: ws_event.splits option.splits)

lemma successively_snoc:
  "successively P (xs @ [x]) \<longleftrightarrow> successively P xs \<and> (xs \<noteq> [] \<longrightarrow> P (last xs) x)"
  by (auto simp: successively_append_iff)

lemma transition_simps [simp]:
  "suPolicy (transition c s) = suPolicy s" "suPhase (transition c s) = suPhase s"
  "suAttempts (transition c s) = suAttempts s" "suCancelled (transition c s) = suCancelled s"
  "suRunning (transition c s) = suRunning s" "suStarts (transition c s) = suStarts s"
  "suDelays (transition c s) = suDelays s" "suState (transition c s) = Some (connState c)"
  by (auto simp: transition_def)

lemma transition_events:
  assumes "events_inv s" "suPhase s \<noteq> Ended" "final (connState c) \<longrightarrow> ph = Ended"
  shows "events_inv ((transition c s)\<lparr>suPhase := ph\<rparr>)"
  using assms
  by (auto simp: events_inv_def transition_def successively_snoc butlast_append list_all_iff dest: in_set_butlastD split: if_splits)

lemma restart_inv:
  assumes "events_inv s" "suPhase s \<noteq> Ended" "\<not> suRunning s" "suAttempts s = int (suStarts s)"
    "int (length (suDelays s)) = suAttempts s" "suAttempts s \<le> max 0 (rpMaxAttempts (suPolicy s))"
    "delays_ok (suPolicy s) (suDelays s)"
  shows "events_inv (restart cause s) \<and> loops_inv (restart cause s) \<and> suPolicy (restart cause s) = suPolicy s"
proof -
  let ?s = "s\<lparr>suAttempts := suAttempts s + 1\<rparr>"
  have e: "events_inv ?s" "suPhase ?s \<noteq> Ended" using assms(1,2) by (simp_all add: events_inv_def)
  show ?thesis
  proof (cases "rpMaxAttempts (suPolicy s) < suAttempts s + 1")
    case True
    let ?c = "\<lparr>connState = StateFailed, connErr = Some (gaveUp cause)\<rparr>"
    have r: "restart cause s = (transition ?c ?s)\<lparr>suPhase := Ended\<rparr>"
      using True by (simp add: restart_def Let_def)
    have "loops_inv (restart cause s)"
      unfolding r using assms(3-7) by (simp add: loops_inv_def final_def)
    then show ?thesis using transition_events [OF e, of ?c Ended] by (simp add: r)
  next
    case False
    let ?r = "?s\<lparr>suPhase := Backing cause, suDelays := suDelays s @ [backoff (suPolicy s) (suAttempts s + 1)]\<rparr>"
    have r: "restart cause s = ?r" using False by (simp add: restart_def Let_def)
    have "delays_ok (suPolicy s) (suDelays s @ [backoff (suPolicy s) (suAttempts s + 1)])"
      using delays_ok_simps(2) [OF assms(7)] assms(5) by simp
    then have "loops_inv ?r" using assms(3-6) False by (simp add: loops_inv_def)
    moreover have "events_inv ?r" using e by (simp add: events_inv_def)
    ultimately show ?thesis by (simp add: r)
  qed
qed

lemma stop_inv:
  assumes "events_inv s" "loops_inv s" "suPhase s = Listening"
  shows "events_inv (stopLoops b s)" "suPhase (stopLoops b s) = Listening" "\<not> suRunning (stopLoops b s)"
    "suAttempts (stopLoops b s) = int (suStarts (stopLoops b s))"
    "int (length (suDelays (stopLoops b s))) = suAttempts (stopLoops b s)"
    "suAttempts (stopLoops b s) \<le> max 0 (rpMaxAttempts (suPolicy (stopLoops b s)))"
    "delays_ok (suPolicy (stopLoops b s)) (suDelays (stopLoops b s))"
  using assms by (auto simp: stopLoops_def events_inv_def loops_inv_def)

lemma handle_inv:
  assumes inv: "sup_inv P s" "suPhase s = Listening" and st: "lsState status \<noteq> Some StateFailed"
  shows "sup_inv P (handle lo status b s)"
proof -
  have E: "events_inv s" and L: "loops_inv s" and P: "suPolicy s = P" using inv(1) by (simp_all add: sup_inv_def)
  note S = stop_inv [OF E L inv(2), of b]
  have Sp: "suPolicy (stopLoops b s) = P" using P by (simp add: stopLoops_def)
  consider (out) "lsState status = Some StateLoggedOut" | (stopped) "lsState status \<noteq> Some StateLoggedOut" "lsStopped status"
    | (up) "lsState status = Some StateConnected" "\<not> lsStopped status"
    | (other) x where "lsState status = Some x" "x \<noteq> StateLoggedOut" "x \<noteq> StateConnected" "\<not> lsStopped status"
    | (same) "lsState status = None" "\<not> lsStopped status"
    by (cases "lsState status") auto
  then show ?thesis
  proof cases
    case out
    let ?c = "\<lparr>connState = StateLoggedOut, connErr = Some (lo (lsErr status))\<rparr>" and ?s = "stopLoops b s"
    have h: "handle lo status b s = (transition ?c ?s)\<lparr>suPhase := Ended\<rparr>" using out by (simp add: handle_def)
    have "loops_inv ((transition ?c ?s)\<lparr>suPhase := Ended\<rparr>)"
      using S by (simp add: loops_inv_def final_def)
    then show ?thesis using transition_events [OF S(1), of ?c Ended] S(2) Sp h by (simp add: sup_inv_def)
  next
    case stopped
    let ?s = "stopLoops b s" and ?c = "\<lparr>connState = StateDisconnected, connErr = lsErr status\<rparr>"
    show ?thesis
    proof (cases "suCancelled ?s")
      case True
      then have h: "handle lo status b s = ?s\<lparr>suPhase := Ended\<rparr>" using stopped by (simp add: handle_def Let_def)
      have "events_inv (?s\<lparr>suPhase := Ended\<rparr>)" using S(1,2) by (auto simp: events_inv_def)
      moreover have "loops_inv (?s\<lparr>suPhase := Ended\<rparr>)" using S True by (simp add: loops_inv_def)
      ultimately show ?thesis using h Sp by (simp add: sup_inv_def)
    next
      case False
      then have h: "handle lo status b s = restart (lsErr status) (transition ?c ?s)" using stopped by (simp add: handle_def Let_def)
      have "events_inv (transition ?c ?s)"
        using transition_events [OF S(1), of ?c Listening] S(2) by (simp add: final_def events_inv_def)
      from restart_inv [OF this, of "lsErr status"] S Sp h show ?thesis by (simp add: sup_inv_def)
    qed
  next
    case up
    let ?s = "s\<lparr>suAttempts := 0, suStarts := 0, suDelays := []\<rparr>" and ?c = "\<lparr>connState = StateConnected, connErr = None\<rparr>"
    have h: "handle lo status b s = transition ?c ?s" using up by (simp add: handle_def)
    have "events_inv ?s" "suPhase ?s = Listening" using E inv(2) by (simp_all add: events_inv_def)
    then have "events_inv (transition ?c ?s)"
      using transition_events [of ?s ?c Listening] by (simp add: final_def events_inv_def)
    moreover have "loops_inv (transition ?c ?s)" using L inv(2) by (simp add: loops_inv_def)
    ultimately show ?thesis using h P by (simp add: sup_inv_def)
  next
    case (other x)
    let ?c = "\<lparr>connState = x, connErr = lsErr status\<rparr>"
    have h: "handle lo status b s = transition ?c s" using other by (simp add: handle_def)
    have "\<not> final x" using other st by (simp add: final_def)
    then have "events_inv (transition ?c s)"
      using transition_events [OF E, of ?c Listening] inv(2) by (simp add: events_inv_def)
    moreover have "loops_inv (transition ?c s)" using L inv(2) by (simp add: loops_inv_def)
    ultimately show ?thesis using h P by (simp add: sup_inv_def)
  next
    case same
    then have "handle lo status b s = s" by (simp add: handle_def)
    then show ?thesis using inv by simp
  qed
qed

lemma cancel_inv: "sup_inv P s \<Longrightarrow> sup_inv P (s\<lparr>suCancelled := True\<rparr>)"
  by (auto simp: sup_inv_def events_inv_def loops_inv_def split: phase.splits)

lemma end_inv: "sup_inv P s \<Longrightarrow> suCancelled s \<Longrightarrow> sup_inv P (s\<lparr>suPhase := Ended\<rparr>)"
  by (auto simp: sup_inv_def events_inv_def loops_inv_def split: phase.splits)

lemma timer_inv:
  assumes "sup_inv P s" "suPhase s = Backing cause"
  shows "sup_inv P (s\<lparr>suPhase := Listening, suRunning := True, suStarts := suStarts s + 1\<rparr>)"
    "sup_inv P (restart (Some e) (s\<lparr>suStarts := suStarts s + 1\<rparr>))"
proof -
  have E: "events_inv s" and L: "loops_inv s" and P: "suPolicy s = P" using assms(1) by (simp_all add: sup_inv_def)
  show "sup_inv P (s\<lparr>suPhase := Listening, suRunning := True, suStarts := suStarts s + 1\<rparr>)"
    using assms by (auto simp: sup_inv_def events_inv_def loops_inv_def)
  let ?s = "s\<lparr>suStarts := suStarts s + 1\<rparr>"
  have "events_inv ?s" using E by (simp add: events_inv_def)
  moreover have "suPhase ?s \<noteq> Ended" "\<not> suRunning ?s" "suAttempts ?s = int (suStarts ?s)"
    "int (length (suDelays ?s)) = suAttempts ?s" "suAttempts ?s \<le> max 0 (rpMaxAttempts (suPolicy ?s))"
    "delays_ok (suPolicy ?s) (suDelays ?s)"
    using L assms(2) by (simp_all add: loops_inv_def)
  ultimately have "events_inv (restart (Some e) ?s) \<and> loops_inv (restart (Some e) ?s) \<and> suPolicy (restart (Some e) ?s) = suPolicy ?s"
    by (rule restart_inv)
  then show "sup_inv P (restart (Some e) ?s)" using P by (simp add: sup_inv_def)
qed

lemma sup_step_inv: "sup_inv P s \<Longrightarrow> sup_inv P (sup_step f lo inp s)"
  using cancel_inv [of P s] end_inv [of P s] timer_inv [of P s] handle_inv [of P s] convert_not_failed
  by (auto simp: sup_step_def split: sup_input.split phase.split option.split)

interpretation sup_ops: step_system "sup_step f lo" "sup_inv P" for f lo P
  by unfold_locales (rule sup_step_inv)

section \<open>Properties\<close>

lemma sup_start_inv: "sup_inv P (sup_start P)"
  by (simp add: sup_inv_def sup_start_def events_inv_def loops_inv_def)

lemma events_last_final:
  assumes "events_inv s" "c \<in> set (suEvents s)" "final (connState c)" shows "c = last (suEvents s) \<and> suPhase s = Ended"
proof
  have "suEvents s \<noteq> []" using assms(2) by auto
  then have "c \<in> set (butlast (suEvents s)) \<or> c = last (suEvents s)"
    using assms(2) by (metis append_butlast_last_id in_set_conv_decomp set_ConsD rotate1.simps(2) set_rotate1 append_Nil2 in_set_butlast_appendI empty_iff list.set(1) Un_iff set_append)
  then show "c = last (suEvents s)" using assms(1,3) by (auto simp: events_inv_def list_all_iff)
  show "suPhase s = Ended" using assms by (auto simp: events_inv_def list_all_iff)
qed

text \<open>C37: Whatever the receive loops, the server and the caller do, in any order: the supervisor never
  starts the loops while they run; since the last successful connection it restarts them at most as
  often as the policy allows, the n-th time after the n-th backoff; the events it reports change the
  state each time, and a final one (logged out, failed) is the last. When it ends without having been
  cancelled, the loops are stopped and the last event is a final one.\<close>

theorem supervisor_safe:
  "let s = fold (sup_step f lo) inputs (sup_start P) in
    successively (\<lambda>a b. connState a \<noteq> connState b) (suEvents s)
    \<and> (\<forall>c\<in>set (suEvents s). final (connState c) \<longrightarrow> c = last (suEvents s) \<and> suPhase s = Ended)
    \<and> int (suStarts s) \<le> max 0 (rpMaxAttempts P)
    \<and> suDelays s = map (\<lambda>i. backoff P (int i + 1)) [0..<length (suDelays s)]
    \<and> (\<forall>cause. suPhase s = Backing cause \<longrightarrow> \<not> suRunning s)
    \<and> (suPhase s = Ended \<and> \<not> suCancelled s \<longrightarrow> \<not> suRunning s \<and> suEvents s \<noteq> [] \<and> final (connState (last (suEvents s))))"
proof -
  define s where "s = fold (sup_step f lo) inputs (sup_start P)"
  have inv: "sup_inv P s" unfolding s_def by (rule sup_ops.run_inv [OF sup_start_inv])
  then have E: "events_inv s" and L: "loops_inv s" and P: "suPolicy s = P" by (simp_all add: sup_inv_def)
  have "int (suStarts s) \<le> max 0 (rpMaxAttempts P)" using L P by (cases "suPhase s") (simp_all add: loops_inv_def)
  moreover have "\<not> suRunning s \<and> suEvents s \<noteq> [] \<and> final (connState (last (suEvents s)))"
    if "suPhase s = Ended" "\<not> suCancelled s"
    using that E L by (auto simp: events_inv_def loops_inv_def split: if_splits)
  moreover have "suDelays s = map (\<lambda>i. backoff P (int i + 1)) [0..<length (suDelays s)]"
    using L P by (simp add: loops_inv_def delays_ok_def)
  moreover have "\<not> suRunning s" if "suPhase s = Backing cause" for cause using that L by (simp add: loops_inv_def)
  moreover have "successively (\<lambda>a b. connState a \<noteq> connState b) (suEvents s)" using E by (simp add: events_inv_def)
  ultimately show ?thesis using events_last_final [OF E] unfolding Let_def s_def [symmetric] by blast
qed

theorem supervisor_safe_witness:
  "suEvents (fold (sup_step (\<lambda>_. []) (\<lambda>_. Sentinel ErrDeviceUnlinked))
      [Got \<lparr>wsEvent = EventConnected, wsErr = None\<rparr> False, Got \<lparr>wsEvent = EventLoggedOut, wsErr = None\<rparr> False] (sup_start defaultPolicy))
    = [\<lparr>connState = StateConnected, connErr = None\<rparr>, \<lparr>connState = StateLoggedOut, connErr = Some (Sentinel ErrDeviceUnlinked)\<rparr>]
   \<and> suPhase (fold (sup_step (\<lambda>_. []) (\<lambda>_. Sentinel ErrDeviceUnlinked))
      [Got \<lparr>wsEvent = EventConnected, wsErr = None\<rparr> False, Got \<lparr>wsEvent = EventLoggedOut, wsErr = None\<rparr> False] (sup_start defaultPolicy)) = Ended"
proof -
  let ?s = "fold (sup_step (\<lambda>_. []) (\<lambda>_. Sentinel ErrDeviceUnlinked))
      [Got \<lparr>wsEvent = EventConnected, wsErr = None\<rparr> False, Got \<lparr>wsEvent = EventLoggedOut, wsErr = None\<rparr> False] (sup_start defaultPolicy)"
  have e: "suEvents ?s = [\<lparr>connState = StateConnected, connErr = None\<rparr>, \<lparr>connState = StateLoggedOut, connErr = Some (Sentinel ErrDeviceUnlinked)\<rparr>]"
    by (simp add: sup_step_def sup_start_def handle_def convertLoopStatus_def convertStatus_def transition_def stopLoops_def)
  have "final (connState (last (suEvents ?s)))" unfolding e by (simp add: final_def)
  then have "suPhase ?s = Ended"
    using supervisor_safe [of "\<lambda>_. []" "\<lambda>_. Sentinel ErrDeviceUnlinked"
      "[Got \<lparr>wsEvent = EventConnected, wsErr = None\<rparr> False, Got \<lparr>wsEvent = EventLoggedOut, wsErr = None\<rparr> False]" defaultPolicy,
      unfolded Let_def] e
    by (metis last_in_set list.distinct(1))
  then show ?thesis using e by simp
qed

text \<open>Failing restarts, one after the other.\<close>

lemma failed_restart:
  assumes "suPhase s = Backing cause" "suPolicy s = P" "suState s \<noteq> Some StateFailed"
  shows "sup_step f lo (TimerFired (Some e)) s =
    (if rpMaxAttempts P \<le> suAttempts s
     then s\<lparr>suStarts := suStarts s + 1, suAttempts := suAttempts s + 1, suPhase := Ended, suState := Some StateFailed,
       suEvents := suEvents s @ (if suCancelled s then [] else [\<lparr>connState = StateFailed, connErr = Some (gaveUp (Some e))\<rparr>])\<rparr>
     else s\<lparr>suStarts := suStarts s + 1, suAttempts := suAttempts s + 1, suPhase := Backing (Some e),
       suDelays := suDelays s @ [backoff P (suAttempts s + 1)]\<rparr>)"
  using assms by (simp add: sup_step_def restart_def transition_def Let_def)

lemma failing_restarts:
  assumes "suPhase s = Backing cause" "\<not> suCancelled s" "suPolicy s = P" "suState s \<noteq> Some StateFailed"
    "int (length es) = rpMaxAttempts P - suAttempts s + 1" "es \<noteq> []"
    "s' = fold (\<lambda>e. sup_step f lo (TimerFired (Some e))) es s"
  shows "suPhase s' = Ended \<and> suRunning s' = suRunning s \<and> suStarts s' = suStarts s + length es
    \<and> suEvents s' = suEvents s @ [\<lparr>connState = StateFailed, connErr = Some (gaveUp (Some (last es)))\<rparr>]
    \<and> suDelays s' = suDelays s @ map (\<lambda>i. backoff P (suAttempts s + int i + 1)) [0..<length es - 1]"
  using assms
proof (induction es arbitrary: s cause)
  case (Cons e es)
  note one = failed_restart [OF Cons.prems(1,3,4), where f = f and lo = lo and e = e]
  show ?case
  proof (cases "es = []")
    case True
    then have "rpMaxAttempts P \<le> suAttempts s" using Cons.prems(5) by simp
    then show ?thesis using True Cons.prems(2,7) one by simp
  next
    case False
    then have lt: "\<not> rpMaxAttempts P \<le> suAttempts s" using Cons.prems(5) by (cases es) auto
    define s1 where "s1 = s\<lparr>suStarts := suStarts s + 1, suAttempts := suAttempts s + 1, suPhase := Backing (Some e),
        suDelays := suDelays s @ [backoff P (suAttempts s + 1)]\<rparr>"
    have run: "s' = fold (\<lambda>e. sup_step f lo (TimerFired (Some e))) es s1"
      using Cons.prems(7) one lt by (simp add: s1_def)
    have IH: "suPhase s' = Ended \<and> suRunning s' = suRunning s1 \<and> suStarts s' = suStarts s1 + length es
      \<and> suEvents s' = suEvents s1 @ [\<lparr>connState = StateFailed, connErr = Some (gaveUp (Some (last es)))\<rparr>]
      \<and> suDelays s' = suDelays s1 @ map (\<lambda>i. backoff P (suAttempts s1 + int i + 1)) [0..<length es - 1]"
      by (rule Cons.IH [where cause = "Some e", OF _ _ _ _ _ False run]) (use Cons.prems in \<open>simp_all add: s1_def\<close>)
    have "[0..<length (e # es) - 1] = 0 # map Suc [0..<length es - 1]"
      using False by (cases es) (simp_all add: upt_conv_Cons map_Suc_upt del: upt_Suc)
    then have "map (\<lambda>i. backoff P (suAttempts s + int i + 1)) [0..<length (e # es) - 1]
        = backoff P (suAttempts s + 1) # map (\<lambda>i. backoff P (suAttempts s1 + int i + 1)) [0..<length es - 1]"
      by (simp add: comp_def algebra_simps s1_def)
    then show ?thesis using IH False by (simp add: s1_def)
  qed
qed simp

lemma gaveUp_errors: "errors_Is (gaveUp cause) ErrConnectionFailed"
  "errors_Is e t \<Longrightarrow> errors_Is (gaveUp (Some e)) t"
  by (cases cause) (simp_all add: gaveUp_def Let_def)

lemma loops_stop:
  assumes "1 \<le> rpMaxAttempts P"
  shows "sup_step f lo (GotClosed False) (sup_start P) = (sup_start P)\<lparr>suPhase := Backing None, suAttempts := 1,
    suState := Some StateDisconnected, suEvents := [\<lparr>connState = StateDisconnected, connErr = None\<rparr>],
    suRunning := False, suDelays := [backoff P 1]\<rparr>"
  using assms by (simp add: sup_step_def sup_start_def handle_def stopLoops_def transition_def restart_def Let_def)

text \<open>C38: When the loops stop and no restart ever succeeds, the supervisor gives up after exactly as many
  restarts as the policy allows, waiting before the n-th the initial backoff doubled n - 1 times, at
  most the largest backoff, and reports one disconnect and then the failure, with the last
  restart's error as its cause.\<close>

theorem supervisor_gives_up:
  assumes "rpMaxAttempts P = int (length es)" "es \<noteq> []" "0 < rpInitialBackoff P" "rpMaxBackoff P \<le> 2 ^ 62"
  shows "let s = fold (sup_step f lo) (GotClosed False # map (\<lambda>e. TimerFired (Some e)) es) (sup_start P) in
    suPhase s = Ended \<and> \<not> suRunning s \<and> suStarts s = length es
    \<and> suDelays s = map (\<lambda>i. min (rpInitialBackoff P * 2 ^ i) (rpMaxBackoff P)) [0..<length es]
    \<and> (\<exists>e. suEvents s = [\<lparr>connState = StateDisconnected, connErr = None\<rparr>, \<lparr>connState = StateFailed, connErr = Some e\<rparr>]
         \<and> errors_Is e ErrConnectionFailed \<and> (\<forall>t. errors_Is (last es) t \<longrightarrow> errors_Is e t))"
proof -
  have pos: "1 \<le> rpMaxAttempts P" using assms(1,2) by (cases es) auto
  define s1 where "s1 = sup_step f lo (GotClosed False) (sup_start P)"
  define s where "s = fold (\<lambda>e. sup_step f lo (TimerFired (Some e))) es s1"
  have whole: "fold (sup_step f lo) (GotClosed False # map (\<lambda>e. TimerFired (Some e)) es) (sup_start P) = s"
    unfolding s_def s1_def by (simp only: fold_simps fold_map comp_def)
  have s1: "suPhase s1 = Backing None" "\<not> suCancelled s1" "suPolicy s1 = P" "suState s1 \<noteq> Some StateFailed"
    "suAttempts s1 = 1" "\<not> suRunning s1" "suStarts s1 = 0" "suDelays s1 = [backoff P 1]"
    "suEvents s1 = [\<lparr>connState = StateDisconnected, connErr = None\<rparr>]"
    unfolding s1_def loops_stop [OF pos] by (simp_all add: sup_start_def)
  note F = failing_restarts [OF s1(1-4) _ assms(2) s_def, unfolded s1, simplified assms(1), simplified]
  have "[0..<length es] = 0 # map Suc [0..<length es - 1]"
    using assms(2) by (cases es) (simp_all add: upt_conv_Cons map_Suc_upt del: upt_Suc)
  then have "suDelays s = map (\<lambda>i. backoff P (int i + 1)) [0..<length es]" using F by (simp add: comp_def algebra_simps)
  also have "\<dots> = map (\<lambda>i. min (rpInitialBackoff P * 2 ^ i) (rpMaxBackoff P)) [0..<length es]"
    by (simp add: backoff_eq [OF assms(3,4)])
  finally have delays: "suDelays s = map (\<lambda>i. min (rpInitialBackoff P * 2 ^ i) (rpMaxBackoff P)) [0..<length es]" .
  show ?thesis unfolding whole Let_def
    using F s1(6) delays gaveUp_errors(1) gaveUp_errors(2) by simp
qed

theorem supervisor_gives_up_witness:
  "let s = fold (sup_step (\<lambda>_. []) (\<lambda>_. Sentinel ErrDeviceUnlinked))
        (GotClosed False # map (\<lambda>e. TimerFired (Some e)) (replicate 5 (Sentinel ErrClosed))) (sup_start defaultPolicy) in
   suPhase s = Ended \<and> suStarts s = 5
   \<and> suDelays s = map (\<lambda>i. min (rpInitialBackoff defaultPolicy * 2 ^ i) (rpMaxBackoff defaultPolicy)) [0..<5]"
  using supervisor_gives_up [of defaultPolicy "replicate 5 (Sentinel ErrClosed)" "\<lambda>_. []" "\<lambda>_. Sentinel ErrDeviceUnlinked"]
  unfolding Let_def by (simp add: defaultPolicy_def del: fold_simps)

end
