(* ===== verification/FileSystem.thy ===== *)
theory FileSystem
  imports SignalTypes "HOL-Library.Sublist"
begin

text \<open>
  The data directory's file system as far as internal/store uses it: a tree of files and
  directories, the calls of Go's package os on it, and what can go wrong. Every call can fail, and
  the process can die in it; the calls are atomic except for writing a file and removing a tree,
  which an error or a crash can leave half done. A program over these calls is a state transformer
  whose outcome is a value, an error or the death of the process, and the predicate \<open>runs\<close> is a
  Hoare triple with a condition for each of the three outcomes.

  Permissions and the texts of the operating system's errors are not modelled. A crash is the death
  of the process: what it had written stays. What a loss of power does to data that was not yet
  synchronized is not modelled, so that synchronizing is a call that can fail and changes nothing.
\<close>

section \<open>Trees\<close>

text \<open>A path is the list of the names below the data directory, which is itself the empty path.\<close>

type_synonym path = "string list"

datatype node = FileNode bytes | DirNode

type_synonym tree = "(path \<times> node) list"

definition get :: "tree \<Rightarrow> path \<Rightarrow> node option" where
  "get t p = map_of t p"

definition put :: "path \<Rightarrow> node \<Rightarrow> tree \<Rightarrow> tree" where
  "put p n t = AList.update p n t"

definition deltree :: "path \<Rightarrow> tree \<Rightarrow> tree" where
  "deltree p t = filter (\<lambda>(q, _). \<not> prefix p q) t"

text \<open>What an interrupted removal has removed: of the entries it had reached those that were empty by
  then.\<close>

definition tornDel :: "(path \<Rightarrow> bool) \<Rightarrow> path \<Rightarrow> tree \<Rightarrow> tree" where
  "tornDel reached p t =
    filter (\<lambda>(q, _). \<not> (prefix p q \<and> list_all (\<lambda>(r, _). prefix q r \<longrightarrow> reached r) t)) t"

text \<open>Moving the tree at \<open>a\<close> to \<open>b\<close>, where nothing is, or a file that it replaces.\<close>

definition move :: "path \<Rightarrow> path \<Rightarrow> tree \<Rightarrow> tree" where
  "move a b t = map (\<lambda>(q, n). (b @ drop (length a) q, n)) (filter (\<lambda>(q, _). prefix a q) t)
     @ deltree a (deltree b t)"

definition children :: "path \<Rightarrow> tree \<Rightarrow> string list" where
  "children p t = sort (remdups (map last (filter (\<lambda>q. q \<noteq> [] \<and> butlast q = p) (map fst t))))"

lemma get_put [simp]: "get (put p n t) q = (if q = p then Some n else get t q)"
  by (simp add: get_def put_def)

lemma map_of_filter_key: "map_of (filter (\<lambda>(k, _). P k) al) k = (if P k then map_of al k else None)"
  by (induction al) auto

lemma get_deltree [simp]: "get (deltree p t) q = (if prefix p q then None else get t q)"
  using map_of_filter_key [of "\<lambda>q. \<not> prefix p q" t q] by (simp add: get_def deltree_def)

lemma get_tornDel_cases: "get (tornDel f p t) q = get t q \<or> prefix p q \<and> get (tornDel f p t) q = None"
  using map_of_filter_key [of "\<lambda>q. \<not> (prefix p q \<and> list_all (\<lambda>(r, _). prefix q r \<longrightarrow> f r) t)" t q]
  by (auto simp: get_def tornDel_def)

lemma get_tornDel_outside [simp]: "\<not> prefix p q \<Longrightarrow> get (tornDel f p t) q = get t q"
  using get_tornDel_cases by blast

lemma map_of_moved:
  "map_of (map (\<lambda>(q, n). (b @ drop (length a) q, n)) (filter (\<lambda>(q, _). prefix a q) t)) (b @ r) = map_of t (a @ r)"
proof (induction t)
  case (Cons x t)
  obtain k n where x: "x = (k, n)" by fastforce
  show ?case
  proof (cases "prefix a k")
    case True
    then have "b @ drop (length a) k = b @ r \<longleftrightarrow> k = a @ r" by (auto simp: prefix_def)
    then show ?thesis using Cons True by (auto simp: x)
  next
    case False
    then have "k \<noteq> a @ r" by auto
    then show ?thesis using Cons False by (simp add: x)
  qed
qed simp

lemma map_of_moved_outside:
  "\<not> prefix b q \<Longrightarrow> map_of (map (\<lambda>(q, n). (b @ drop (length a) q, n)) (filter (\<lambda>(q, _). prefix a q) t)) q = None"
  by (induction t) (auto simp: prefix_def)

lemma get_move: "get (move a b t) q =
  (if prefix b q \<and> get t (a @ drop (length b) q) \<noteq> None then get t (a @ drop (length b) q)
   else if prefix a q \<or> prefix b q then None else get t q)"
proof (cases "prefix b q")
  case True
  then obtain r where q: "q = b @ r" by (auto simp: prefix_def)
  show ?thesis
    using map_of_moved [of b a t r] map_of_filter_key [of "\<lambda>q. \<not> prefix a q" "deltree b t" q] get_deltree [of b t q] True
    by (auto simp: q get_def move_def map_add_def deltree_def [of a] split: option.split)
next
  case False
  then show ?thesis
    using map_of_moved_outside [of b q a t] map_of_filter_key [of "\<lambda>q. \<not> prefix a q" "deltree b t" q] get_deltree [of b t q]
    by (auto simp: get_def move_def map_add_def deltree_def [of a] split: option.split)
qed

lemma get_move_to: "get (move a b t) (b @ r) = (if get t (a @ r) \<noteq> None then get t (a @ r) else None)"
  by (simp add: get_move)

lemma get_move_from: "\<not> prefix b q \<Longrightarrow> prefix a q \<Longrightarrow> get (move a b t) q = None"
  by (simp add: get_move)

lemma get_move_other: "\<not> prefix b q \<Longrightarrow> \<not> prefix a q \<Longrightarrow> get (move a b t) q = get t q"
  by (simp add: get_move)

lemma set_children: "set (children p t) = {n. get t (p @ [n]) \<noteq> None}"
proof -
  have "n \<in> set (children p t) \<longleftrightarrow> p @ [n] \<in> fst ` set t" for n
  proof -
    have "n \<in> set (children p t) \<longleftrightarrow> (\<exists>q\<in>fst ` set t. q \<noteq> [] \<and> butlast q = p \<and> n = last q)"
      by (auto simp: children_def)
    also have "\<dots> \<longleftrightarrow> p @ [n] \<in> fst ` set t"
      by (metis append_butlast_last_id butlast_snoc last_snoc snoc_eq_iff_butlast)
    finally show ?thesis .
  qed
  then show ?thesis by (auto simp: get_def map_of_eq_None_iff)
qed

lemma children_distinct: "distinct (children p t)"
  by (simp add: children_def)

section \<open>Programs\<close>

text \<open>The script of a run: what happens in its n-th call, what an interrupted removal had reached, how
  much an interrupted write had written, the random texts and bytes it gets, and which locks other
  processes hold.\<close>

datatype io_fault = Fine | Fails string | Crash

record io_script =
  ioFault :: "nat \<Rightarrow> io_fault"
  ioReached :: "nat \<Rightarrow> path \<Rightarrow> bool"
  ioWritten :: "nat \<Rightarrow> nat"
  ioRandom :: "nat \<Rightarrow> string"
  ioBytes :: "nat \<Rightarrow> bytes"
  ioHeld :: "path \<Rightarrow> bool"

record disk =
  dkTree :: tree
  dkStep :: nat

datatype 'a out = Done 'a | Failed err | Crashed

type_synonym 'a io = "disk \<Rightarrow> 'a out \<times> disk"

definition io_ret :: "'a \<Rightarrow> 'a io" where
  "io_ret x d = (Done x, d)"

definition io_fail :: "err \<Rightarrow> 'a io" where
  "io_fail e d = (Failed e, d)"

definition io_bind :: "'a io \<Rightarrow> ('a \<Rightarrow> 'b io) \<Rightarrow> 'b io" where
  "io_bind m f d = (case m d of (Done x, d') \<Rightarrow> f x d' | (Failed e, d') \<Rightarrow> (Failed e, d') | (Crashed, d') \<Rightarrow> (Crashed, d'))"

definition io_then :: "unit io \<Rightarrow> 'b io \<Rightarrow> 'b io" where
  "io_then m k = io_bind m (\<lambda>_. k)"

text \<open>The error of a call as a value.\<close>

definition attempt :: "'a io \<Rightarrow> 'a res io" where
  "attempt m d = (case m d of (Done x, d') \<Rightarrow> (Done (Inr x), d') | (Failed e, d') \<Rightarrow> (Done (Inl e), d') | (Crashed, d') \<Rightarrow> (Crashed, d'))"

definition io_of :: "'a res \<Rightarrow> 'a io" where
  "io_of r = (case r of Inl e \<Rightarrow> io_fail e | Inr x \<Rightarrow> io_ret x)"

definition io_wrap :: "(err \<Rightarrow> err) \<Rightarrow> 'a io \<Rightarrow> 'a io" where
  "io_wrap w m = io_bind (attempt m) (\<lambda>r. case r of Inl e \<Rightarrow> io_fail (w e) | Inr x \<Rightarrow> io_ret x)"

definition isNotExist :: "err \<Rightarrow> bool" where
  "isNotExist e = errors_Is e ErrNotExist"

definition syscall :: "io_script \<Rightarrow> (tree \<Rightarrow> 'a res \<times> tree) \<Rightarrow> (nat \<Rightarrow> tree \<Rightarrow> tree) \<Rightarrow> 'a io" where
  "syscall F act torn d = (let n = dkStep d; d1 = d\<lparr>dkStep := Suc n\<rparr> in
     case ioFault F n of
       Fine \<Rightarrow> (case act (dkTree d) of
           (Inl e, t) \<Rightarrow> (Failed e, d1\<lparr>dkTree := t\<rparr>)
         | (Inr x, t) \<Rightarrow> (Done x, d1\<lparr>dkTree := t\<rparr>))
     | Fails msg \<Rightarrow> (Failed (Opaque msg), d1\<lparr>dkTree := torn n (dkTree d)\<rparr>)
     | Crash \<Rightarrow> (Crashed, d1\<lparr>dkTree := torn n (dkTree d)\<rparr>))"

abbreviation atomic :: "nat \<Rightarrow> tree \<Rightarrow> tree" where
  "atomic \<equiv> \<lambda>_ t. t"

section \<open>Calls of package os\<close>

definition notExist :: err where
  "notExist = Sentinel ErrNotExist"

definition Lstat :: "io_script \<Rightarrow> path \<Rightarrow> node io" where
  "Lstat F p = syscall F (\<lambda>t. (case get t p of None \<Rightarrow> Inl notExist | Some n \<Rightarrow> Inr n, t)) atomic"

definition ReadFile :: "io_script \<Rightarrow> path \<Rightarrow> bytes io" where
  "ReadFile F p = syscall F (\<lambda>t. (case get t p of
     None \<Rightarrow> Inl notExist | Some DirNode \<Rightarrow> Inl (Opaque ''is a directory'') | Some (FileNode b) \<Rightarrow> Inr b, t)) atomic"

definition ReadDir :: "io_script \<Rightarrow> path \<Rightarrow> string list io" where
  "ReadDir F p = syscall F (\<lambda>t. (case get t p of
     None \<Rightarrow> Inl notExist | Some (FileNode _) \<Rightarrow> Inl (Opaque ''not a directory'') | Some DirNode \<Rightarrow> Inr (children p t), t)) atomic"

text \<open>A new entry: \<open>os.Mkdir\<close>, or \<open>os.OpenFile\<close> with \<open>O_CREATE|O_EXCL\<close>.\<close>

definition addNode :: "node \<Rightarrow> path \<Rightarrow> tree \<Rightarrow> unit res \<times> tree" where
  "addNode n p t = (if get t p \<noteq> None then (Inl (Opaque ''file exists''), t)
     else if get t (butlast p) \<noteq> Some DirNode then (Inl notExist, t) else (Inr (), put p n t))"

definition Mkdir :: "io_script \<Rightarrow> path \<Rightarrow> unit io" where
  "Mkdir F p = syscall F (addNode DirNode p) atomic"

definition CreateExcl :: "io_script \<Rightarrow> path \<Rightarrow> unit io" where
  "CreateExcl F p = syscall F (addNode (FileNode []) p) atomic"

text \<open>\<open>os.MkdirAll\<close> of a name in the data directory.\<close>

definition MkdirAll :: "io_script \<Rightarrow> path \<Rightarrow> unit io" where
  "MkdirAll F p = syscall F (\<lambda>t. case get t p of
     Some DirNode \<Rightarrow> (Inr (), t) | Some (FileNode _) \<Rightarrow> (Inl (Opaque ''not a directory''), t) | None \<Rightarrow> addNode DirNode p t) atomic"

text \<open>\<open>os.OpenFile\<close> with \<open>O_RDWR|O_CREATE\<close>, and without \<open>O_CREATE\<close>.\<close>

definition OpenCreate :: "io_script \<Rightarrow> path \<Rightarrow> unit io" where
  "OpenCreate F p = syscall F (\<lambda>t. case get t p of
     Some (FileNode _) \<Rightarrow> (Inr (), t) | Some DirNode \<Rightarrow> (Inl (Opaque ''is a directory''), t)
   | None \<Rightarrow> addNode (FileNode []) p t) atomic"

definition OpenFile :: "io_script \<Rightarrow> path \<Rightarrow> unit io" where
  "OpenFile F p = syscall F (\<lambda>t. (case get t p of
     None \<Rightarrow> Inl notExist | Some DirNode \<Rightarrow> Inl (Opaque ''is a directory'') | Some (FileNode _) \<Rightarrow> Inr (), t)) atomic"

text \<open>\<open>os.CreateTemp\<close> with the pattern \<open>base.*\<close>: a new file; its name is the random text of the call.\<close>

definition CreateTemp :: "io_script \<Rightarrow> path \<Rightarrow> string \<Rightarrow> path io" where
  "CreateTemp F dir base d = (let p = dir @ [base @ ''.'' @ ioRandom F (dkStep d)] in
     syscall F (\<lambda>t. case addNode (FileNode []) p t of (Inl e, t') \<Rightarrow> (Inl e, t') | (Inr _, t') \<Rightarrow> (Inr p, t')) atomic d)"

definition Write :: "io_script \<Rightarrow> path \<Rightarrow> bytes \<Rightarrow> unit io" where
  "Write F p data = syscall F (\<lambda>t. (Inr (), put p (FileNode data) t)) (\<lambda>n. put p (FileNode (take (ioWritten F n) data)))"

text \<open>Synchronizing a file or directory that is open, and closing it.\<close>

definition Sync :: "io_script \<Rightarrow> unit io" where
  "Sync F = syscall F (\<lambda>t. (Inr (), t)) atomic"

definition CloseFile :: "io_script \<Rightarrow> unit io" where
  "CloseFile F = syscall F (\<lambda>t. (Inr (), t)) atomic"

definition Remove :: "io_script \<Rightarrow> path \<Rightarrow> unit io" where
  "Remove F p = syscall F (\<lambda>t. if get t p = None then (Inl notExist, t)
     else if get t p = Some DirNode \<and> children p t \<noteq> [] then (Inl (Opaque ''directory not empty''), t) else (Inr (), deltree p t)) atomic"

definition RemoveAll :: "io_script \<Rightarrow> path \<Rightarrow> unit io" where
  "RemoveAll F p = syscall F (\<lambda>t. (Inr (), deltree p t)) (\<lambda>n. tornDel (ioReached F n) p)"

text \<open>\<open>os.Rename\<close>, of a file onto a file or nothing and of a directory onto nothing, and
  \<open>renameNoReplace\<close>.\<close>

definition Rename :: "io_script \<Rightarrow> path \<Rightarrow> path \<Rightarrow> unit io" where
  "Rename F a b = syscall F (\<lambda>t. if get t a = None \<or> get t (butlast b) \<noteq> Some DirNode then (Inl notExist, t)
     else if get t b \<noteq> None \<and> (get t a = Some DirNode \<or> get t b = Some DirNode) then (Inl (Opaque ''file exists''), t)
     else (Inr (), move a b t)) atomic"

definition renameNoReplace :: "io_script \<Rightarrow> path \<Rightarrow> path \<Rightarrow> unit io" where
  "renameNoReplace F a b = syscall F (\<lambda>t. if get t a = None \<or> get t (butlast b) \<noteq> Some DirNode then (Inl notExist, t)
     else if get t b \<noteq> None then (Inl (Opaque ''file exists''), t) else (Inr (), move a b t)) atomic"

text \<open>Locking an open file, without waiting.\<close>

definition tryLock :: "io_script \<Rightarrow> path \<Rightarrow> unit io" where
  "tryLock F p = syscall F (\<lambda>t. (if ioHeld F p then Inl (Sentinel ErrWouldBlock) else Inr (), t)) atomic"

text \<open>Random bytes.\<close>

definition randRead :: "io_script \<Rightarrow> bytes io" where
  "randRead F d = syscall F (\<lambda>t. (Inr (ioBytes F (dkStep d)), t)) atomic d"

section \<open>Triples\<close>

text \<open>From every tree with \<open>P\<close>, the program ends: with a value and \<open>Q\<close>, with an error and \<open>E\<close>, or by the
  death of the process in a tree with \<open>C\<close>.\<close>

definition runs :: "(tree \<Rightarrow> bool) \<Rightarrow> 'a io \<Rightarrow> ('a \<Rightarrow> tree \<Rightarrow> bool) \<Rightarrow> (err \<Rightarrow> tree \<Rightarrow> bool) \<Rightarrow> (tree \<Rightarrow> bool) \<Rightarrow> bool" where
  "runs P m Q E C \<longleftrightarrow> (\<forall>d. P (dkTree d) \<longrightarrow> (case m d of
     (Done x, d') \<Rightarrow> Q x (dkTree d') | (Failed e, d') \<Rightarrow> E e (dkTree d') | (Crashed, d') \<Rightarrow> C (dkTree d')))"

text \<open>Whether the script has an error or a crash at all.\<close>

definition faulty :: "io_script \<Rightarrow> bool" where
  "faulty F \<longleftrightarrow> (\<exists>n. ioFault F n \<noteq> Fine)"

lemma runs_conseq:
  assumes "runs P m Q E C" "\<And>t. P' t \<Longrightarrow> P t" "\<And>x t. Q x t \<Longrightarrow> Q' x t" "\<And>e t. E e t \<Longrightarrow> E' e t" "\<And>t. C t \<Longrightarrow> C' t"
  shows "runs P' m Q' E' C'"
  using assms unfolding runs_def by (fastforce split: out.split prod.split)

lemma runs_never: "(\<And>t. \<not> P t) \<Longrightarrow> runs P m Q E C"
  by (simp add: runs_def)

lemma runs_ret: "(\<And>t. P t \<Longrightarrow> Q x t) \<Longrightarrow> runs P (io_ret x) Q E C"
  by (simp add: runs_def io_ret_def)

lemma runs_fail: "(\<And>t. P t \<Longrightarrow> E e t) \<Longrightarrow> runs P (io_fail e) Q E C"
  by (simp add: runs_def io_fail_def)

lemma runs_of: "(\<And>x t. P t \<Longrightarrow> r = Inr x \<Longrightarrow> Q x t) \<Longrightarrow> (\<And>e t. P t \<Longrightarrow> r = Inl e \<Longrightarrow> E e t) \<Longrightarrow> runs P (io_of r) Q E C"
  by (cases r) (auto simp: io_of_def intro: runs_ret runs_fail)

lemma runs_bind:
  assumes "runs P m Q E C" "\<And>x. runs (Q x) (f x) R E C"
  shows "runs P (io_bind m f) R E C"
  unfolding runs_def
proof (intro allI impI)
  fix d :: disk
  assume P: "P (dkTree d)"
  obtain r d' where m: "m d = (r, d')" by fastforce
  have 1: "case r of Done x \<Rightarrow> Q x (dkTree d') | Failed e \<Rightarrow> E e (dkTree d') | Crashed \<Rightarrow> C (dkTree d')"
    using assms(1) [unfolded runs_def, rule_format, OF P] unfolding m by (simp split: out.splits)
  show "case io_bind m f d of (Done x, d') \<Rightarrow> R x (dkTree d') | (Failed e, d') \<Rightarrow> E e (dkTree d') | (Crashed, d') \<Rightarrow> C (dkTree d')"
  proof (cases r)
    case (Done x)
    then have "Q x (dkTree d')" using 1 by simp
    then show ?thesis using assms(2) [of x] Done m unfolding runs_def io_bind_def by simp
  qed (use 1 m in \<open>simp_all add: io_bind_def\<close>)
qed

lemma runs_then: "runs P m (\<lambda>_. Q) E C \<Longrightarrow> runs Q k R E C \<Longrightarrow> runs P (io_then m k) R E C"
  unfolding io_then_def by (rule runs_bind)

lemma runs_attempt:
  assumes "runs P m (\<lambda>x. Q (Inr x)) (\<lambda>e. Q (Inl e)) C"
  shows "runs P (attempt m) Q E C"
  using assms unfolding runs_def attempt_def by (auto split: out.splits prod.splits)

lemma runs_wrap:
  assumes "runs P m Q (\<lambda>e. E (w e)) C"
  shows "runs P (io_wrap w m) Q E C"
  unfolding io_wrap_def
  by (rule runs_bind [where Q = "\<lambda>r t. case r of Inl e \<Rightarrow> E (w e) t | Inr x \<Rightarrow> Q x t"], rule runs_attempt)
    (use assms in \<open>auto split: sum.split intro: runs_ret runs_fail\<close>)

lemma runs_syscall:
  assumes "\<And>t x t'. P t \<Longrightarrow> act t = (Inr x, t') \<Longrightarrow> Q x t'" "\<And>t e t'. P t \<Longrightarrow> act t = (Inl e, t') \<Longrightarrow> E e t'"
    "\<And>n t msg. faulty F \<Longrightarrow> P t \<Longrightarrow> E (Opaque msg) (torn n t) \<and> C (torn n t)"
  shows "runs P (syscall F act torn) Q E C"
  unfolding runs_def
proof (intro allI impI)
  fix d :: disk
  assume P: "P (dkTree d)"
  show "case syscall F act torn d of (Done x, d') \<Rightarrow> Q x (dkTree d') | (Failed e, d') \<Rightarrow> E e (dkTree d') | (Crashed, d') \<Rightarrow> C (dkTree d')"
  proof (cases "ioFault F (dkStep d)")
    case Fine
    then show ?thesis using assms(1,2) [OF P]
      by (cases "act (dkTree d)") (auto simp: syscall_def Let_def split: sum.split)
  next
    case (Fails msg)
    then have "faulty F" unfolding faulty_def by (metis io_fault.distinct(1))
    then show ?thesis using assms(3) [OF _ P] Fails by (simp add: syscall_def Let_def)
  next
    case Crash
    then have "faulty F" unfolding faulty_def by (metis io_fault.distinct(3))
    then show ?thesis using assms(3) [OF _ P] Crash by (simp add: syscall_def Let_def)
  qed
qed

text \<open>The same with the step number known to the call.\<close>

lemma runs_stepwise:
  assumes "\<And>n. runs P (m n) Q E C"
  shows "runs P (\<lambda>d. m (dkStep d) d) Q E C"
  unfolding runs_def
proof (intro allI impI)
  fix d :: disk
  assume "P (dkTree d)"
  then show "case m (dkStep d) d of (Done x, d') \<Rightarrow> Q x (dkTree d') | (Failed e, d') \<Rightarrow> E e (dkTree d') | (Crashed, d') \<Rightarrow> C (dkTree d')"
    using assms [of "dkStep d"] unfolding runs_def by simp
qed

section \<open>Programs that keep the tree recoverable\<close>

text \<open>The triples with one condition \<open>C\<close> for errors and crashes alike.\<close>

definition safe :: "(tree \<Rightarrow> bool) \<Rightarrow> 'a io \<Rightarrow> ('a \<Rightarrow> tree \<Rightarrow> bool) \<Rightarrow> (tree \<Rightarrow> bool) \<Rightarrow> bool" where
  "safe P m Q C \<longleftrightarrow> runs P m Q (\<lambda>_. C) C"

lemma safe_conseq:
  "safe P m Q C \<Longrightarrow> (\<And>t. P' t \<Longrightarrow> P t) \<Longrightarrow> (\<And>x t. Q x t \<Longrightarrow> Q' x t) \<Longrightarrow> safe P' m Q' C"
  unfolding safe_def by (erule runs_conseq) auto

lemma safe_pre: "safe P m Q C \<Longrightarrow> (\<And>t. P' t \<Longrightarrow> P t) \<Longrightarrow> safe P' m Q C"
  by (erule safe_conseq) auto

lemma safe_never: "(\<And>t. \<not> P t) \<Longrightarrow> safe P m Q C"
  unfolding safe_def by (rule runs_never)

lemma safe_ret: "(\<And>t. P t \<Longrightarrow> Q x t) \<Longrightarrow> safe P (io_ret x) Q C"
  unfolding safe_def by (rule runs_ret)

lemma safe_fail: "(\<And>t. P t \<Longrightarrow> C t) \<Longrightarrow> safe P (io_fail e) Q C"
  unfolding safe_def by (rule runs_fail)

lemma safe_of: "(\<And>x t. P t \<Longrightarrow> r = Inr x \<Longrightarrow> Q x t) \<Longrightarrow> (\<And>e t. P t \<Longrightarrow> r = Inl e \<Longrightarrow> C t) \<Longrightarrow> safe P (io_of r) Q C"
  unfolding safe_def by (rule runs_of)

lemma safe_bind: "safe P m Q C \<Longrightarrow> (\<And>x. safe (Q x) (f x) R C) \<Longrightarrow> safe P (io_bind m f) R C"
  unfolding safe_def by (rule runs_bind)

lemma safe_then: "safe P m (\<lambda>_. Q) C \<Longrightarrow> safe Q k R C \<Longrightarrow> safe P (io_then m k) R C"
  unfolding safe_def by (rule runs_then)

lemma safe_wrap: "safe P m Q C \<Longrightarrow> safe P (io_wrap w m) Q C"
  unfolding safe_def by (rule runs_wrap)

lemma safe_attempt: "safe P m Q C \<Longrightarrow> safe P (attempt m) (\<lambda>r t. case r of Inl _ \<Rightarrow> C t | Inr x \<Rightarrow> Q x t) C"
  unfolding safe_def by (rule runs_attempt) simp

lemma safe_or:
  assumes "safe P m Q C" "safe P' m Q C"
  shows "safe (\<lambda>t. P t \<or> P' t) m Q C"
  unfolding safe_def runs_def
proof (intro allI impI)
  fix d :: disk
  assume "P (dkTree d) \<or> P' (dkTree d)"
  then show "case m d of (Done x, d') \<Rightarrow> Q x (dkTree d') | (Failed e, d') \<Rightarrow> C (dkTree d') | (Crashed, d') \<Rightarrow> C (dkTree d')"
    by (elim disjE) (use assms in \<open>simp_all add: safe_def runs_def\<close>)
qed

text \<open>A precondition that does not depend on the tree.\<close>

lemma safe_fact: "(A \<Longrightarrow> safe P m Q C) \<Longrightarrow> safe (\<lambda>t. A \<and> P t) m Q C"
  by (cases A) (simp_all add: safe_def runs_def)

lemma safe_step: "(\<And>n. safe P (m n) Q C) \<Longrightarrow> safe P (\<lambda>d. m (dkStep d) d) Q C"
  unfolding safe_def by (rule runs_stepwise)

lemma safe_syscall:
  assumes "\<And>t x t'. P t \<Longrightarrow> act t = (Inr x, t') \<Longrightarrow> Q x t'" "\<And>t e t'. P t \<Longrightarrow> act t = (Inl e, t') \<Longrightarrow> C t'"
    "\<And>n t. faulty F \<Longrightarrow> P t \<Longrightarrow> C (torn n t)"
  shows "safe P (syscall F act torn) Q C"
  unfolding safe_def using assms by (intro runs_syscall) auto

lemma safe_try_syscall:
  assumes "\<And>t r t'. P t \<Longrightarrow> act t = (r, t') \<Longrightarrow> Q r t'" "\<And>n t msg. faulty F \<Longrightarrow> P t \<Longrightarrow> Q (Inl (Opaque msg)) (torn n t) \<and> C (torn n t)"
  shows "safe P (attempt (syscall F act torn)) Q C"
  unfolding safe_def using assms by (intro runs_attempt runs_syscall) auto

lemma notExist_simps [simp]: "isNotExist notExist" "\<not> isNotExist (Opaque msg)"
  by (simp_all add: isNotExist_def notExist_def)

text \<open>Calls that change nothing.\<close>

lemma safe_Lstat:
  assumes "\<And>t. faulty F \<Longrightarrow> P t \<Longrightarrow> C t"
  shows "safe P (attempt (Lstat F p)) (\<lambda>r t. P t \<and> (case r of
    Inl e \<Rightarrow> if isNotExist e then get t p = None else faulty F | Inr n \<Rightarrow> get t p = Some n)) C"
  unfolding Lstat_def by (rule safe_try_syscall) (use assms in \<open>auto split: option.splits sum.splits if_splits\<close>)

lemma safe_ReadFile:
  assumes "\<And>t. faulty F \<Longrightarrow> P t \<Longrightarrow> C t"
  shows "safe P (attempt (ReadFile F p)) (\<lambda>r t. P t \<and> (case r of
    Inl e \<Rightarrow> if isNotExist e then get t p = None else faulty F \<or> get t p = Some DirNode
  | Inr b \<Rightarrow> get t p = Some (FileNode b))) C"
  unfolding ReadFile_def by (rule safe_try_syscall) (use assms in \<open>auto split: option.splits node.splits sum.splits if_splits\<close>)

lemma safe_ReadFile':
  assumes "\<And>t. P t \<Longrightarrow> faulty F \<or> (\<nexists>b. get t p = Some (FileNode b)) \<Longrightarrow> C t"
  shows "safe P (ReadFile F p) (\<lambda>b t. P t \<and> get t p = Some (FileNode b)) C"
  unfolding ReadFile_def by (rule safe_syscall) (use assms in \<open>auto split: option.splits node.splits\<close>)

lemma safe_ReadDir:
  assumes "\<And>t. faulty F \<Longrightarrow> P t \<Longrightarrow> C t"
  shows "safe P (attempt (ReadDir F p)) (\<lambda>r t. P t \<and> (case r of
    Inl e \<Rightarrow> if isNotExist e then get t p = None else faulty F \<or> (\<exists>b. get t p = Some (FileNode b))
  | Inr ns \<Rightarrow> get t p = Some DirNode \<and> ns = children p t)) C"
  unfolding ReadDir_def by (rule safe_try_syscall) (use assms in \<open>auto split: option.splits node.splits sum.splits if_splits\<close>)

lemma safe_OpenFile:
  assumes "\<And>t. faulty F \<Longrightarrow> P t \<Longrightarrow> C t"
  shows "safe P (attempt (OpenFile F p)) (\<lambda>r t. P t \<and> (case r of
    Inl e \<Rightarrow> if isNotExist e then get t p = None else faulty F \<or> get t p = Some DirNode
  | Inr _ \<Rightarrow> \<exists>b. get t p = Some (FileNode b))) C"
  unfolding OpenFile_def by (rule safe_try_syscall) (use assms in \<open>auto split: option.splits node.splits sum.splits if_splits\<close>)

lemma safe_tryLock:
  assumes "\<And>t. faulty F \<Longrightarrow> P t \<Longrightarrow> C t"
  shows "safe P (attempt (tryLock F p)) (\<lambda>r t. P t \<and> (case r of
    Inl e \<Rightarrow> if errors_Is e ErrWouldBlock then ioHeld F p else faulty F | Inr _ \<Rightarrow> \<not> ioHeld F p)) C"
  unfolding tryLock_def by (rule safe_try_syscall) (use assms in \<open>auto split: sum.splits if_splits\<close>)

lemma safe_Sync:
  assumes "\<And>t. faulty F \<Longrightarrow> P t \<Longrightarrow> C t"
  shows "safe P (attempt (Sync F)) (\<lambda>r t. P t \<and> (\<forall>e. r = Inl e \<longrightarrow> faulty F)) C"
  unfolding Sync_def by (rule safe_try_syscall) (use assms in auto)

lemma safe_CloseFile:
  assumes "\<And>t. faulty F \<Longrightarrow> P t \<Longrightarrow> C t"
  shows "safe P (attempt (CloseFile F)) (\<lambda>r t. P t \<and> (\<forall>e. r = Inl e \<longrightarrow> faulty F)) C"
  unfolding CloseFile_def by (rule safe_try_syscall) (use assms in auto)

text \<open>Calls that change the tree.\<close>

lemma safe_Remove:
  assumes "\<And>t. faulty F \<Longrightarrow> P t \<Longrightarrow> C t" "\<And>t. P t \<Longrightarrow> Q (deltree p t)"
  shows "safe P (attempt (Remove F p)) (\<lambda>r t. case r of
    Inl e \<Rightarrow> P t \<and> (if isNotExist e then get t p = None else faulty F \<or> get t p = Some DirNode) | Inr _ \<Rightarrow> Q t) C"
  unfolding Remove_def by (rule safe_try_syscall) (use assms in \<open>auto split: sum.splits if_splits\<close>)

lemma safe_Remove':
  assumes "\<And>t. P t \<Longrightarrow> faulty F \<or> (\<nexists>b. get t p = Some (FileNode b)) \<Longrightarrow> C t" "\<And>t. P t \<Longrightarrow> Q (deltree p t)"
  shows "safe P (Remove F p) (\<lambda>_. Q) C"
  unfolding Remove_def by (rule safe_syscall) (use assms in \<open>auto split: if_splits\<close>)

lemma safe_RemoveAll:
  assumes "\<And>t. P t \<Longrightarrow> Q (deltree p t)" "\<And>f t. faulty F \<Longrightarrow> P t \<Longrightarrow> C (tornDel f p t)"
  shows "safe P (RemoveAll F p) (\<lambda>_. Q) C"
  unfolding RemoveAll_def by (rule safe_syscall) (use assms in auto)

end
