(* ===== verification/Registry.thy ===== *)
theory Registry
  imports FileSystem
begin

text \<open>
  The account registry of the data directory (internal/store accounts.go, registry.go, recovery.go
  and imports.go): accounts.json with one entry per linked account, a directory per account, and
  the publication of an imported account, which is staged privately, committed by an intent file,
  renamed into place, registered and retired, and which the next registry operation finishes when it
  was interrupted. encoding/json and SHA-256 are the parameter \<open>L\<close>; the random source, the locks that
  other processes hold and everything that can go wrong are the script \<open>F\<close> of a run. The test hook of
  a Dir is never set. Closing a file whose result is ignored and writing to the log are no calls;
  the retries for the registry lock are one call.
\<close>

section \<open>Data\<close>

record AccountEntry =
  aeNumber :: string
  aeACI :: string
  aePNI :: string
  aeDeviceID :: int
  aeDeviceName :: string
  aeLinkedAt :: time
  aeUnlinkedAt :: time

record accountsDoc =
  adVersion :: int
  adAccounts :: "AccountEntry list"

record importIntent =
  inVersion :: int
  inToken :: string
  inEntry :: AccountEntry
  inDigest :: string

record store_lib =
  slEncodeDoc :: "accountsDoc \<Rightarrow> bytes option"
  slDecodeDoc :: "bytes \<Rightarrow> accountsDoc option"
  slEncodeIntent :: "importIntent \<Rightarrow> bytes option"
  slDecodeIntent :: "bytes \<Rightarrow> importIntent option"
  slDigest :: "bytes \<Rightarrow> string"

text \<open>What is relied on: what was encoded decodes to the same value, white space at the end or not. This
  is encoding/json on values whose strings are valid UTF-8; it would replace malformed bytes by U+FFFD,
  which are not in the numbers, UUIDs, paths and names that the code encodes.\<close>

definition newline :: bytes where
  "newline = [CHR 0x0A]"

definition store_laws :: "store_lib \<Rightarrow> bool" where
  "store_laws L \<longleftrightarrow> (\<forall>doc raw. slEncodeDoc L doc = Some raw \<longrightarrow> slDecodeDoc L (raw @ newline) = Some doc)
   \<and> (\<forall>i raw. slEncodeIntent L i = Some raw \<longrightarrow> slDecodeIntent L raw = Some i)"

definition accountsVersion :: int where "accountsVersion = 1"
definition intentVersion :: int where "intentVersion = 1"
definition accountsFile :: string where "accountsFile = ''accounts.json''"
definition registryLockFile :: string where "registryLockFile = ''accounts.lock''"
definition dbFile :: string where "dbFile = ''account.db''"
definition importsDir :: string where "importsDir = ''.imports''"
definition removedDir :: string where "removedDir = ''.removed''"
definition intentFile :: string where "intentFile = ''intent.json''"
definition ownerLockFile :: string where "ownerLockFile = ''owner.lock''"
definition ownerMarker :: string where "ownerMarker = ''.import-owner''"

lemmas file_names = accountsFile_def registryLockFile_def dbFile_def importsDir_def removedDir_def
  intentFile_def ownerLockFile_def ownerMarker_def

definition stageOf :: "string \<Rightarrow> path" where
  "stageOf token = [importsDir, token]"

definition AccountDir :: "string \<Rightarrow> path" where
  "AccountDir aci = [aci]"

section \<open>Durable writes (registry.go, recovery.go)\<close>

definition firstErr :: "unit res \<Rightarrow> unit res \<Rightarrow> unit res" where
  "firstErr a b = (case a of Inl e \<Rightarrow> Inl e | Inr _ \<Rightarrow> b)"

definition openAny :: "io_script \<Rightarrow> path \<Rightarrow> unit io" where
  "openAny F p = syscall F (\<lambda>t. (if get t p = None then Inl notExist else Inr (), t)) atomic"

definition syncDir :: "io_script \<Rightarrow> path \<Rightarrow> unit io" where
  "syncDir F p = io_then (openAny F p) (io_bind (attempt (Sync F)) (\<lambda>r.
     io_bind (attempt (CloseFile F)) (\<lambda>c. io_of (firstErr r c))))"

text \<open>The same calls on a file.\<close>

definition syncFile :: "io_script \<Rightarrow> path \<Rightarrow> unit io" where
  "syncFile F p = syncDir F p"

text \<open>\<open>errors.Join\<close> of two synchronizations, both of which are done.\<close>

definition syncBoth :: "io_script \<Rightarrow> path \<Rightarrow> path \<Rightarrow> unit io" where
  "syncBoth F p q = io_bind (attempt (syncDir F p)) (\<lambda>a. io_bind (attempt (syncDir F q)) (\<lambda>b. io_of (firstErr a b)))"

text \<open>Replacing a file by a synchronized temporary one.\<close>

definition replaceFile :: "io_script \<Rightarrow> path \<Rightarrow> string \<Rightarrow> bytes \<Rightarrow> unit io" where
  "replaceFile F dir base data =
     io_bind (CreateTemp F dir base) (\<lambda>tmp.
     io_bind (attempt (io_then (Write F tmp data) (Sync F))) (\<lambda>r.
     io_bind (attempt (CloseFile F)) (\<lambda>c.
     io_bind (case firstErr r c of Inl e \<Rightarrow> io_ret (Inl e) | Inr _ \<Rightarrow> attempt (Rename F tmp (dir @ [base]))) (\<lambda>r'.
       case r' of
         Inl e \<Rightarrow> io_bind (attempt (Remove F tmp)) (\<lambda>_. io_fail e)
       | Inr _ \<Rightarrow> syncDir F dir))))"

definition writeDurable :: "io_script \<Rightarrow> path \<Rightarrow> string \<Rightarrow> bytes \<Rightarrow> unit io" where
  "writeDurable F dir base data = io_wrap (\<lambda>e. Wrap ''write'' [e]) (replaceFile F dir base data)"

definition newToken :: "io_script \<Rightarrow> string io" where
  "newToken F = io_bind (io_wrap (\<lambda>e. Wrap ''random token'' [e]) (randRead F)) (\<lambda>raw. io_ret (hex_bytes raw))"

definition isToken :: "string \<Rightarrow> bool" where
  "isToken name = (case HexDecode name of None \<Rightarrow> False | Some raw \<Rightarrow> length raw = 16 \<and> hex_bytes raw = name)"

text \<open>\<open>Dir.mkdir\<close>, without the check of permissions that only warns.\<close>

definition dir_mkdir :: "io_script \<Rightarrow> path \<Rightarrow> unit io" where
  "dir_mkdir F p = io_then (MkdirAll F p) (io_bind (Lstat F p) (\<lambda>_. io_ret ()))"

section \<open>The registry file (accounts.go)\<close>

definition parseAccounts :: "store_lib \<Rightarrow> bytes \<Rightarrow> AccountEntry list res" where
  "parseAccounts L raw = (case slDecodeDoc L raw of
     None \<Rightarrow> Inl (Opaque ''parse accounts.json'')
   | Some doc \<Rightarrow> if adVersion doc \<noteq> accountsVersion then Inl (Wrap '''' [Sentinel ErrAccountsVersion]) else Inr (adAccounts doc))"

definition accounts :: "store_lib \<Rightarrow> io_script \<Rightarrow> AccountEntry list io" where
  "accounts L F = io_bind (attempt (ReadFile F [accountsFile])) (\<lambda>r. case r of
     Inl e \<Rightarrow> if isNotExist e then io_ret [] else io_fail (Wrap ''read accounts.json'' [e])
   | Inr raw \<Rightarrow> io_bind (attempt (Lstat F [accountsFile])) (\<lambda>_. io_of (parseAccounts L raw)))"

definition registry_write :: "store_lib \<Rightarrow> io_script \<Rightarrow> AccountEntry list \<Rightarrow> unit io" where
  "registry_write L F accs = (case slEncodeDoc L \<lparr>adVersion = accountsVersion, adAccounts = accs\<rparr> of
     None \<Rightarrow> io_fail (Opaque ''encode accounts.json'')
   | Some raw \<Rightarrow> io_wrap (\<lambda>e. Wrap ''write accounts.json'' [e]) (replaceFile F [] accountsFile (raw @ newline)))"

section \<open>Recovery (recovery.go)\<close>

definition removeStage :: "io_script \<Rightarrow> path \<Rightarrow> unit io" where
  "removeStage F stage = io_then (io_wrap (\<lambda>e. Wrap ''remove import attempt'' [e]) (RemoveAll F stage)) (syncDir F (butlast stage))"

fun collision :: "AccountEntry list \<Rightarrow> AccountEntry \<Rightarrow> err option" where
  "collision [] entry = None"
| "collision (existing # accs) entry =
    (if aeACI existing = aeACI entry then Some (Wrap ''is registered'' [Sentinel ErrImportCollision])
     else if aeNumber entry \<noteq> [] \<and> aeNumber existing = aeNumber entry then Some (Wrap ''number'' [Sentinel ErrImportCollision])
     else if aePNI entry \<noteq> [] \<and> aePNI existing = aePNI entry then Some (Wrap ''PNI'' [Sentinel ErrImportCollision])
     else collision accs entry)"

definition evidence :: "err list \<Rightarrow> err" where
  "evidence es = Wrap '''' (Sentinel ErrEvidence # es)"

definition fileDigest :: "store_lib \<Rightarrow> io_script \<Rightarrow> path \<Rightarrow> string io" where
  "fileDigest L F p = io_bind (io_wrap (\<lambda>e. Wrap ''digest'' [e]) (ReadFile F p)) (\<lambda>raw. io_ret (slDigest L raw))"

definition checkStaged :: "store_lib \<Rightarrow> io_script \<Rightarrow> path \<Rightarrow> importIntent \<Rightarrow> unit io" where
  "checkStaged L F dir intent =
     io_bind (io_wrap (\<lambda>e. evidence [e]) (ReadFile F (dir @ [ownerMarker]))) (\<lambda>owner.
       if owner \<noteq> inToken intent then io_fail (evidence [])
       else io_bind (io_wrap (\<lambda>e. evidence [e]) (fileDigest L F (dir @ [dbFile]))) (\<lambda>digest.
         if digest \<noteq> inDigest intent then io_fail (evidence []) else io_ret ()))"

definition isDir :: "io_script \<Rightarrow> path \<Rightarrow> bool io" where
  "isDir F p = io_bind (attempt (Lstat F p)) (\<lambda>r. case r of
     Inl e \<Rightarrow> if isNotExist e then io_ret False else io_fail (Wrap ''inspect'' [e])
   | Inr n \<Rightarrow> if n \<noteq> DirNode then io_fail (evidence []) else io_ret True)"

definition locate :: "io_script \<Rightarrow> path \<Rightarrow> path \<Rightarrow> (bool \<times> bool) io" where
  "locate F staged fin = io_bind (isDir F staged) (\<lambda>stagedDir.
     io_bind (attempt (Lstat F fin)) (\<lambda>r. case r of
       Inl e \<Rightarrow> if isNotExist e then io_ret (stagedDir, True) else io_fail (Wrap ''inspect'' [e])
     | Inr _ \<Rightarrow> io_ret (stagedDir, False)))"

definition moveStaged :: "store_lib \<Rightarrow> io_script \<Rightarrow> path \<Rightarrow> path \<Rightarrow> path \<Rightarrow> importIntent \<Rightarrow> unit io" where
  "moveStaged L F stage staged fin intent =
     io_then (checkStaged L F staged intent) (io_then (renameNoReplace F staged fin) (syncBoth F stage []))"

definition publishAccount ::
  "store_lib \<Rightarrow> io_script \<Rightarrow> path \<Rightarrow> path \<Rightarrow> path \<Rightarrow> importIntent \<Rightarrow> AccountEntry list \<Rightarrow> unit io" where
  "publishAccount L F stage staged fin intent accs = (case collision accs (inEntry intent) of
     Some e \<Rightarrow> io_fail e
   | None \<Rightarrow> io_bind (locate F staged fin) (\<lambda>(stagedDir, finalMissing).
       io_then (if stagedDir \<and> finalMissing then moveStaged L F stage staged fin intent
                else if \<not> stagedDir \<and> \<not> finalMissing then checkStaged L F fin intent
                else io_fail (evidence []))
         (registry_write L F (accs @ [inEntry intent]))))"

definition retire :: "io_script \<Rightarrow> path \<Rightarrow> path \<Rightarrow> string \<Rightarrow> unit io" where
  "retire F stage fin token =
     io_bind (attempt (ReadFile F (fin @ [ownerMarker]))) (\<lambda>r.
     io_then (case r of
         Inl _ \<Rightarrow> io_ret ()
       | Inr owner \<Rightarrow> if owner = token then io_then (Remove F (fin @ [ownerMarker])) (syncDir F fin) else io_ret ())
     (io_bind (attempt (Remove F (stage @ [intentFile]))) (\<lambda>r'.
     io_then (case r' of
         Inl e \<Rightarrow> if isNotExist e then io_ret () else io_fail (Wrap ''retire import intent'' [e])
       | Inr _ \<Rightarrow> io_ret ())
     (io_then (syncDir F stage) (removeStage F stage)))))"

definition rollForward :: "store_lib \<Rightarrow> io_script \<Rightarrow> path \<Rightarrow> importIntent \<Rightarrow> unit io" where
  "rollForward L F stage intent = (let aci = aeACI (inEntry intent); fin = AccountDir aci in
     io_bind (accounts L F) (\<lambda>accs.
     io_then (if inEntry intent \<in> set accs then io_ret () else publishAccount L F stage (stage @ [aci]) fin intent accs)
       (retire F stage fin (inToken intent))))"

definition recoveryError :: "err \<Rightarrow> err" where
  "recoveryError e = Wrap '''' [Sentinel ErrRecoveryRequired, e]"

definition readIntent :: "store_lib \<Rightarrow> io_script \<Rightarrow> path \<Rightarrow> importIntent io" where
  "readIntent L F stage = io_bind (ReadFile F (stage @ [intentFile])) (\<lambda>raw. case slDecodeIntent L raw of
     None \<Rightarrow> io_fail (Opaque ''parse intent.json'') | Some intent \<Rightarrow> io_ret intent)"

definition lockOwner :: "io_script \<Rightarrow> path \<Rightarrow> unit io" where
  "lockOwner F stage = io_bind (attempt (OpenFile F (stage @ [ownerLockFile]))) (\<lambda>r. case r of
     Inl e \<Rightarrow> if isNotExist e then io_bind (attempt (Remove F stage)) (\<lambda>_. io_fail (Sentinel ErrNothingToRecover))
       else io_fail (recoveryError e)
   | Inr _ \<Rightarrow> io_bind (attempt (tryLock F (stage @ [ownerLockFile]))) (\<lambda>r'. case r' of
       Inl e \<Rightarrow> if errors_Is e ErrWouldBlock then io_fail e else io_fail (recoveryError e)
     | Inr _ \<Rightarrow> io_ret ()))"

definition recoverAttempt :: "store_lib \<Rightarrow> io_script \<Rightarrow> string \<Rightarrow> unit io" where
  "recoverAttempt L F name = (let stage = stageOf name in
     if \<not> isToken name then io_ret ()
     else io_bind (attempt (lockOwner F stage)) (\<lambda>r. case r of
       Inl e \<Rightarrow> if errors_Is e ErrWouldBlock \<or> errors_Is e ErrNothingToRecover then io_ret () else io_fail e
     | Inr _ \<Rightarrow> io_bind (attempt (readIntent L F stage)) (\<lambda>i. case i of
         Inl e \<Rightarrow> if isNotExist e then removeStage F stage else io_fail (recoveryError e)
       | Inr intent \<Rightarrow> if inVersion intent \<noteq> intentVersion \<or> inToken intent \<noteq> name then io_fail (recoveryError (evidence []))
           else io_wrap recoveryError (rollForward L F stage intent))))"

fun recover_loop :: "store_lib \<Rightarrow> io_script \<Rightarrow> string list \<Rightarrow> unit io" where
  "recover_loop L F [] = io_ret ()"
| "recover_loop L F (name # names) = io_then (recoverAttempt L F name) (recover_loop L F names)"

fun removeEach :: "io_script \<Rightarrow> path list \<Rightarrow> unit io" where
  "removeEach F [] = io_ret ()"
| "removeEach F (p # ps) = io_bind (attempt (RemoveAll F p)) (\<lambda>_. removeEach F ps)"

definition cleanRemoved :: "io_script \<Rightarrow> unit io" where
  "cleanRemoved F = io_bind (attempt (ReadDir F [removedDir])) (\<lambda>r. case r of
     Inl _ \<Rightarrow> io_ret () | Inr names \<Rightarrow> removeEach F (map (\<lambda>n. [removedDir, n]) names))"

definition recover :: "store_lib \<Rightarrow> io_script \<Rightarrow> unit io" where
  "recover L F = io_then (cleanRemoved F) (io_bind (attempt (ReadDir F [importsDir])) (\<lambda>r. case r of
     Inl e \<Rightarrow> if isNotExist e then io_ret () else io_fail (recoveryError e)
   | Inr names \<Rightarrow> recover_loop L F names))"

section \<open>Operations on the registry (registry.go, accounts.go)\<close>

definition lockRegistry :: "io_script \<Rightarrow> unit io" where
  "lockRegistry F = io_then (io_wrap (\<lambda>e. Wrap ''open registry lock'' [e]) (OpenCreate F [registryLockFile]))
     (io_wrap (\<lambda>e. if errors_Is e ErrWouldBlock then Wrap '''' [Sentinel ErrRegistryBusy] else Wrap ''lock registry'' [e])
       (tryLock F [registryLockFile]))"

definition withRegistry :: "store_lib \<Rightarrow> io_script \<Rightarrow> 'a io \<Rightarrow> 'a io" where
  "withRegistry L F locked = io_then (lockRegistry F) (io_then (recover L F) locked)"

definition Accounts :: "store_lib \<Rightarrow> io_script \<Rightarrow> AccountEntry list io" where
  "Accounts L F = withRegistry L F (accounts L F)"

definition putEntry :: "AccountEntry \<Rightarrow> AccountEntry list \<Rightarrow> AccountEntry list" where
  "putEntry entry accs = (if list_ex (\<lambda>a. aeACI a = aeACI entry) accs
     then map (\<lambda>a. if aeACI a = aeACI entry then entry else a) accs else accs @ [entry])"

definition PutAccount :: "store_lib \<Rightarrow> io_script \<Rightarrow> AccountEntry \<Rightarrow> unit io" where
  "PutAccount L F entry = withRegistry L F (io_bind (accounts L F) (\<lambda>accs. registry_write L F (putEntry entry accs)))"

fun markEntry :: "string \<Rightarrow> time \<Rightarrow> AccountEntry list \<Rightarrow> AccountEntry list option" where
  "markEntry aci at [] = None"
| "markEntry aci at (a # accs) = (if aeACI a \<noteq> aci \<or> \<not> IsZero (aeUnlinkedAt a)
     then map_option ((#) a) (markEntry aci at accs) else Some (a\<lparr>aeUnlinkedAt := at\<rparr> # accs))"

definition MarkUnlinked :: "store_lib \<Rightarrow> io_script \<Rightarrow> string \<Rightarrow> time \<Rightarrow> unit io" where
  "MarkUnlinked L F aci at = withRegistry L F (io_bind (accounts L F) (\<lambda>accs. case markEntry aci at accs of
     None \<Rightarrow> io_ret () | Some accs' \<Rightarrow> registry_write L F accs'))"

definition moveAside :: "io_script \<Rightarrow> path \<Rightarrow> path option io" where
  "moveAside F p = io_bind (attempt (Lstat F p)) (\<lambda>r. case r of
     Inl e \<Rightarrow> if isNotExist e then io_ret None else io_fail (Wrap ''remove account data'' [e])
   | Inr _ \<Rightarrow> io_bind (newToken F) (\<lambda>token.
       io_wrap (\<lambda>e. Wrap ''remove account data'' [e])
         (io_then (dir_mkdir F [removedDir]) (io_then (Rename F p [removedDir, token]) (io_then (syncDir F [])
           (io_ret (Some [removedDir, token])))))))"

definition RemoveAccount :: "store_lib \<Rightarrow> io_script \<Rightarrow> string \<Rightarrow> unit io" where
  "RemoveAccount L F aci = io_bind
     (withRegistry L F (io_bind (accounts L F) (\<lambda>accs.
       io_then (registry_write L F (filter (\<lambda>a. aeACI a \<noteq> aci) accs)) (moveAside F (AccountDir aci)))))
     (\<lambda>removed. case removed of
        None \<Rightarrow> io_ret () | Some p \<Rightarrow> io_wrap (\<lambda>e. Wrap ''remove account data'' [e]) (RemoveAll F p))"

section \<open>Import attempts (imports.go)\<close>

record Import =
  imToken :: string
  imOpen :: bool
  imACI :: string
  imDigest :: string
  imCommitted :: bool

definition allocateAttempt :: "io_script \<Rightarrow> Import io" where
  "allocateAttempt F =
     io_then (io_wrap (\<lambda>e. Wrap ''create imports dir'' [e]) (dir_mkdir F [importsDir]))
     (io_bind (newToken F) (\<lambda>token. let stage = stageOf token in
     io_then (io_wrap (\<lambda>e. Wrap ''create import attempt'' [e]) (Mkdir F stage))
     (io_bind (attempt (io_then (CreateExcl F (stage @ [ownerLockFile]))
         (io_then (tryLock F (stage @ [ownerLockFile])) (syncBoth F stage [importsDir])))) (\<lambda>r. case r of
       Inl e \<Rightarrow> io_bind (attempt (RemoveAll F stage)) (\<lambda>_. io_fail (Wrap ''create import attempt'' [e]))
     | Inr _ \<Rightarrow> io_ret \<lparr>imToken = token, imOpen = True, imACI = [], imDigest = [], imCommitted = False\<rparr>))))"

definition BeginImport :: "store_lib \<Rightarrow> bool \<Rightarrow> io_script \<Rightarrow> Import io" where
  "BeginImport L importSupported F =
    (if \<not> importSupported then io_fail (Sentinel ErrImportUnsupported) else withRegistry L F (allocateAttempt F))"

text \<open>What the callback and SQLite leave in the database file is the argument \<open>build\<close>, the check of the
  reopened database is \<open>check\<close>.\<close>

definition buildDB :: "io_script \<Rightarrow> path \<Rightarrow> bytes res \<Rightarrow> unit io" where
  "buildDB F p build = io_then (io_then (OpenCreate F p) (io_bind (Lstat F p) (\<lambda>_. io_ret ())))
     (io_wrap (\<lambda>e. Wrap ''build staged account'' [e]) (io_bind (io_of build) (Write F p)))"

definition checkBuilt :: "io_script \<Rightarrow> path \<Rightarrow> (bytes \<Rightarrow> err option) \<Rightarrow> unit io" where
  "checkBuilt F p check = io_wrap (\<lambda>e. Wrap ''check staged account'' [e])
     (io_bind (ReadFile F p) (\<lambda>raw. case check raw of None \<Rightarrow> io_ret () | Some e \<Rightarrow> io_fail e))"

definition syncIfThere :: "io_script \<Rightarrow> path \<Rightarrow> unit io" where
  "syncIfThere F p = io_bind (attempt (syncFile F p)) (\<lambda>r. case r of
     Inl e \<Rightarrow> if isNotExist e then io_ret () else io_fail e | Inr _ \<Rightarrow> io_ret ())"

definition syncStaged :: "io_script \<Rightarrow> path \<Rightarrow> path \<Rightarrow> unit io" where
  "syncStaged F dir stage = io_then (syncIfThere F (dir @ [dbFile])) (io_then (syncIfThere F (dir @ [dbFile @ ''-wal'']))
     (io_then (syncIfThere F (dir @ [dbFile @ ''-shm''])) (syncBoth F dir stage)))"

definition Import_Build ::
  "store_lib \<Rightarrow> uuid_lib \<Rightarrow> io_script \<Rightarrow> string \<Rightarrow> bytes res \<Rightarrow> (bytes \<Rightarrow> err option) \<Rightarrow> Import \<Rightarrow> Import io" where
  "Import_Build L U F aci build check im =
    (if imACI im \<noteq> [] then io_fail (Wrap ''account already built'' [Sentinel ErrImportState])
     else case uuid_Parse U aci of
       None \<Rightarrow> io_fail (Wrap ''invalid ACI'' [Sentinel ErrImportState])
     | Some u \<Rightarrow> if uuid_String U u \<noteq> aci then io_fail (Wrap ''invalid ACI'' [Sentinel ErrImportState])
       else (let dir = stageOf (imToken im) @ [aci]; p = dir @ [dbFile] in
         io_then (io_wrap (\<lambda>e. Wrap ''create staged account'' [e]) (Mkdir F dir))
         (io_then (buildDB F p build) (io_then (checkBuilt F p check) (io_then (syncStaged F dir (stageOf (imToken im)))
         (io_bind (fileDigest L F p) (\<lambda>digest. io_ret (im\<lparr>imACI := aci, imDigest := digest\<rparr>))))))))"

definition checkFree :: "store_lib \<Rightarrow> io_script \<Rightarrow> AccountEntry \<Rightarrow> unit io" where
  "checkFree L F entry = io_bind (accounts L F) (\<lambda>accs. case collision accs entry of
     Some e \<Rightarrow> io_fail e
   | None \<Rightarrow> io_bind (attempt (Lstat F (AccountDir (aeACI entry)))) (\<lambda>r. case r of
       Inl e \<Rightarrow> if isNotExist e then io_ret () else io_fail (Wrap ''exists'' [Sentinel ErrImportCollision, e])
     | Inr _ \<Rightarrow> io_fail (Wrap ''exists'' [Sentinel ErrImportCollision])))"

definition intentOf :: "AccountEntry \<Rightarrow> Import \<Rightarrow> importIntent" where
  "intentOf entry im = \<lparr>inVersion = intentVersion, inToken = imToken im, inEntry = entry, inDigest = imDigest im\<rparr>"

text \<open>Up to the commitment; the rest of \<open>commit\<close>.\<close>

definition prepareCommit :: "store_lib \<Rightarrow> io_script \<Rightarrow> AccountEntry \<Rightarrow> Import \<Rightarrow> unit io" where
  "prepareCommit L F entry im = io_then (checkFree L F entry)
     (writeDurable F (stageOf (imToken im) @ [aeACI entry]) ownerMarker (imToken im))"

definition Import_commit :: "store_lib \<Rightarrow> io_script \<Rightarrow> AccountEntry \<Rightarrow> Import \<Rightarrow> disk \<Rightarrow> unit out \<times> Import \<times> disk" where
  "Import_commit L F entry im d = (case slEncodeIntent L (intentOf entry im) of
     None \<Rightarrow> (Failed (Wrap '''' [Sentinel ErrRecoveryRequired, Opaque ''encode import intent'']), im, d)
   | Some raw \<Rightarrow> (case io_wrap recoveryError
         (io_then (writeDurable F (stageOf (imToken im)) intentFile raw)
           (rollForward L F (stageOf (imToken im)) (intentOf entry im))) d of
       (r, d') \<Rightarrow> (r, im\<lparr>imCommitted := True\<rparr>, d')))"

definition Import_Publish :: "store_lib \<Rightarrow> io_script \<Rightarrow> AccountEntry \<Rightarrow> Import \<Rightarrow> disk \<Rightarrow> unit out \<times> Import \<times> disk" where
  "Import_Publish L F entry im d =
    (if imACI im = [] \<or> aeACI entry \<noteq> imACI im \<or> imCommitted im then (Failed (Wrap ''publish'' [Sentinel ErrImportState]), im, d)
     else case withRegistry L F (prepareCommit L F entry im) d of
       (Done _, d') \<Rightarrow> Import_commit L F entry im d'
     | (Failed e, d') \<Rightarrow> (Failed e, im, d')
     | (Crashed, d') \<Rightarrow> (Crashed, im, d'))"

definition Import_Close :: "io_script \<Rightarrow> Import \<Rightarrow> unit io" where
  "Import_Close F im = (if \<not> imOpen im then io_ret ()
     else io_wrap (\<lambda>e. Wrap ''close import attempt'' [e])
       (if imCommitted im then CloseFile F
        else io_bind (attempt (removeStage F (stageOf (imToken im)))) (\<lambda>r.
          io_bind (attempt (CloseFile F)) (\<lambda>c. io_of (firstErr r c)))))"

end
