(* ===== verification/RegistryProofs.thy ===== *)
theory RegistryProofs
  imports Registry
begin

text \<open>
  What the account registry promises. Whatever fails in whatever operation, accounts.json never holds
  two entries for one account. An account import either never happens, or it happens completely: once
  the intent is on disk, however often the process dies in publishing or in recovering, the tree
  stays in one of four stages (staged, moved, registered, retired), from each of which the next
  undisturbed registry operation reaches the last.
\<close>

section \<open>Compound operations\<close>

lemma safe_openAny:
  assumes "\<And>t. P t \<Longrightarrow> faulty F \<or> get t p = None \<Longrightarrow> C t"
  shows "safe P (openAny F p) (\<lambda>_. P) C"
  unfolding openAny_def by (rule safe_syscall) (use assms in \<open>auto split: if_splits\<close>)

lemma firstErr_Inl: "firstErr r c = Inl e \<Longrightarrow> r = Inl e \<or> c = Inl e"
  by (auto simp: firstErr_def split: sum.splits)

lemma safe_syncDir:
  assumes "\<And>t. P t \<Longrightarrow> faulty F \<or> get t p = None \<Longrightarrow> C t"
  shows "safe P (syncDir F p) (\<lambda>_. P) C"
proof -
  have PC: "\<And>t. faulty F \<Longrightarrow> P t \<Longrightarrow> C t" using assms by blast
  show ?thesis unfolding syncDir_def
  proof (rule safe_then [OF safe_openAny], use assms in blast)
    show "safe P (io_bind (attempt (Sync F)) (\<lambda>r. io_bind (attempt (CloseFile F)) (\<lambda>c. io_of (firstErr r c)))) (\<lambda>_. P) C"
    proof (rule safe_bind [OF safe_Sync], use PC in blast)
      fix r :: "unit res"
      let ?P = "\<lambda>t. P t \<and> (\<forall>e. r = Inl e \<longrightarrow> faulty F)"
      show "safe ?P (io_bind (attempt (CloseFile F)) (\<lambda>c. io_of (firstErr r c))) (\<lambda>_. P) C"
        by (rule safe_bind [OF safe_CloseFile]) (auto intro!: safe_of dest: firstErr_Inl PC)
    qed
  qed
qed

lemma safe_syncDir_try:
  assumes "\<And>t. faulty F \<Longrightarrow> P t \<Longrightarrow> C t"
  shows "safe P (attempt (syncDir F p)) (\<lambda>r t. P t \<and> (\<forall>e. r = Inl e \<longrightarrow> faulty F \<or> get t p = None)) C"
proof -
  have 1: "runs P (syncDir F p) (\<lambda>_. P) (\<lambda>_ t. P t \<and> (faulty F \<or> get t p = None)) C"
    unfolding syncDir_def io_then_def openAny_def
  proof (rule runs_bind [where Q = "\<lambda>_. P"], rule runs_syscall)
    show "runs P (io_bind (attempt (Sync F)) (\<lambda>r. io_bind (attempt (CloseFile F)) (\<lambda>c. io_of (firstErr r c))))
      (\<lambda>_. P) (\<lambda>_ t. P t \<and> (faulty F \<or> get t p = None)) C"
    proof (rule runs_bind [where Q = "\<lambda>r t. P t \<and> (\<forall>e. r = Inl e \<longrightarrow> faulty F)"])
      show "runs P (attempt (Sync F)) (\<lambda>r t. P t \<and> (\<forall>e. r = Inl e \<longrightarrow> faulty F)) (\<lambda>_ t. P t \<and> (faulty F \<or> get t p = None)) C"
        unfolding Sync_def using assms by (intro runs_attempt runs_syscall) auto
      fix r :: "unit res"
      show "runs (\<lambda>t. P t \<and> (\<forall>e. r = Inl e \<longrightarrow> faulty F)) (io_bind (attempt (CloseFile F)) (\<lambda>c. io_of (firstErr r c)))
        (\<lambda>_. P) (\<lambda>_ t. P t \<and> (faulty F \<or> get t p = None)) C"
      proof (rule runs_bind [where Q = "\<lambda>c t. P t \<and> (\<forall>e. r = Inl e \<or> c = Inl e \<longrightarrow> faulty F)"])
        show "runs (\<lambda>t. P t \<and> (\<forall>e. r = Inl e \<longrightarrow> faulty F)) (attempt (CloseFile F))
          (\<lambda>c t. P t \<and> (\<forall>e. r = Inl e \<or> c = Inl e \<longrightarrow> faulty F)) (\<lambda>_ t. P t \<and> (faulty F \<or> get t p = None)) C"
          unfolding CloseFile_def using assms by (intro runs_attempt runs_syscall) auto
      qed (auto intro!: runs_of dest: firstErr_Inl)
    qed
  qed (use assms in \<open>auto split: if_splits\<close>)
  show ?thesis unfolding safe_def by (rule runs_attempt, rule runs_conseq [OF 1]) auto
qed

lemma safe_syncBoth:
  assumes "\<And>t. P t \<Longrightarrow> faulty F \<or> get t p = None \<or> get t q = None \<Longrightarrow> C t"
  shows "safe P (syncBoth F p q) (\<lambda>_. P) C"
  unfolding syncBoth_def
proof (rule safe_bind [OF safe_syncDir_try], use assms in blast)
  fix a :: "unit res"
  show "safe (\<lambda>t. P t \<and> (\<forall>e. a = Inl e \<longrightarrow> faulty F \<or> get t p = None))
     (io_bind (attempt (syncDir F q)) (\<lambda>b. io_of (firstErr a b))) (\<lambda>_. P) C"
    by (rule safe_bind [OF safe_syncDir_try]) (use assms in \<open>auto intro!: safe_of dest!: firstErr_Inl\<close>)
qed

text \<open>Replacing a file: \<open>P\<close> does not look at temporary files, and the renaming takes \<open>P\<close> to \<open>Q\<close>. A
  random name in use is an error.\<close>

lemma tmp_not_target: "dir @ [base @ ''.'' @ r] \<noteq> dir @ [base]"
  by simp

lemma safe_replaceFile:
  fixes dir base
  defines "tmp \<equiv> \<lambda>r. dir @ [base @ ''.'' @ r]"
  assumes P_tmp: "\<And>t r b. P t \<Longrightarrow> P (put (tmp r) (FileNode b) t)"
    and P_del: "\<And>t r. P t \<Longrightarrow> P (deltree (tmp r) t)"
    and P_ren: "\<And>t r. P t \<Longrightarrow> get t (tmp r) = Some (FileNode data) \<Longrightarrow> Q (move (tmp r) (dir @ [base]) t)"
    and PC: "\<And>t. P t \<Longrightarrow> faulty F \<Longrightarrow> C t" and QC: "\<And>t. Q t \<Longrightarrow> faulty F \<or> get t dir = None \<Longrightarrow> C t"
    and ok: "(\<forall>t. P t \<longrightarrow> C t) \<or> (\<forall>t. P t \<longrightarrow> get t dir = Some DirNode \<and> get t (dir @ [base]) \<noteq> Some DirNode)"
  shows "safe (\<lambda>t. P t \<and> ((\<forall>t. P t \<longrightarrow> C t) \<or> (\<forall>n. get t (tmp (ioRandom F n)) = None))) (replaceFile F dir base data) (\<lambda>_. Q) C"
  unfolding replaceFile_def
proof (rule safe_bind [where Q = "\<lambda>p t. P t \<and> (\<exists>r. p = tmp r)"])
  have tr: "dir @ base # r = dir @ [base] @ r" for r by simp
  show "safe (\<lambda>t. P t \<and> ((\<forall>t. P t \<longrightarrow> C t) \<or> (\<forall>n. get t (tmp (ioRandom F n)) = None))) (CreateTemp F dir base)
     (\<lambda>p t. P t \<and> (\<exists>r. p = tmp r)) C"
    unfolding CreateTemp_def Let_def
  proof (rule safe_step, rule safe_syscall, goal_cases)
    case (1 n t x t')
    then show ?case using P_tmp [of t "ioRandom F n" "[]"] by (auto simp: addNode_def tmp_def split: if_splits)
  next
    case (2 n t e t')
    then show ?case using ok by (auto simp: addNode_def tmp_def split: if_splits)
  next
    case (3 n m t)
    then show ?case using PC by auto
  qed
next
  fix p
  let ?w = "\<lambda>t. P t \<and> (\<exists>r. p = tmp r)"
  have del: "\<And>t. ?w t \<Longrightarrow> P (deltree p t)" using P_del by auto
  have w: "safe ?w (attempt (io_then (Write F p data) (Sync F))) (\<lambda>r t. ?w t \<and> (case r of Inl _ \<Rightarrow> faulty F
    | Inr _ \<Rightarrow> get t p = Some (FileNode data))) C"
    unfolding safe_def io_then_def
  proof (rule runs_attempt, rule runs_bind [where Q = "\<lambda>_ t. ?w t \<and> get t p = Some (FileNode data)"])
    show "runs ?w (Write F p data) (\<lambda>_ t. ?w t \<and> get t p = Some (FileNode data))
      (\<lambda>e t. ?w t \<and> (case Inl e of Inl _ \<Rightarrow> faulty F | Inr _ \<Rightarrow> get t p = Some (FileNode data))) C"
      unfolding Write_def by (rule runs_syscall) (use P_tmp PC in \<open>auto simp: tmp_def\<close>)
    show "runs (\<lambda>t. ?w t \<and> get t p = Some (FileNode data)) (Sync F) (\<lambda>x t. ?w t \<and> (case Inr x of Inl _ \<Rightarrow> faulty F | Inr _ \<Rightarrow> get t p = Some (FileNode data)))
      (\<lambda>e t. ?w t \<and> (case Inl e of Inl _ \<Rightarrow> faulty F | Inr _ \<Rightarrow> get t p = Some (FileNode data))) C" for x :: unit
      unfolding Sync_def by (rule runs_syscall) (use PC in auto)
  qed
  show "safe ?w (io_bind (attempt (io_then (Write F p data) (Sync F))) (\<lambda>r. io_bind (attempt (CloseFile F)) (\<lambda>c.
     io_bind (case firstErr r c of Inl e \<Rightarrow> io_ret (Inl e) | Inr _ \<Rightarrow> attempt (Rename F p (dir @ [base]))) (\<lambda>r'. case r' of
         Inl e \<Rightarrow> io_bind (attempt (Remove F p)) (\<lambda>_. io_fail e) | Inr _ \<Rightarrow> syncDir F dir)))) (\<lambda>_. Q) C"
  proof (rule safe_bind [OF w], rule safe_bind [OF safe_CloseFile])
    fix r :: "unit res" and t
    assume "faulty F" "?w t \<and> (case r of Inl _ \<Rightarrow> faulty F | Inr _ \<Rightarrow> get t p = Some (FileNode data))"
    then show "C t" using PC by blast
  next
    fix r c :: "unit res"
    let ?b = "\<lambda>t. ?w t \<and> ((\<forall>t. P t \<longrightarrow> C t) \<or> faulty F)"
    show "safe (\<lambda>t. (?w t \<and> (case r of Inl _ \<Rightarrow> faulty F | Inr _ \<Rightarrow> get t p = Some (FileNode data))) \<and> (\<forall>e. c = Inl e \<longrightarrow> faulty F))
       (io_bind (case firstErr r c of Inl e \<Rightarrow> io_ret (Inl e) | Inr _ \<Rightarrow> attempt (Rename F p (dir @ [base]))) (\<lambda>r'. case r' of
         Inl e \<Rightarrow> io_bind (attempt (Remove F p)) (\<lambda>_. io_fail e) | Inr _ \<Rightarrow> syncDir F dir)) (\<lambda>_. Q) C"
    proof (rule safe_bind [where Q = "\<lambda>r' t. case r' of Inl _ \<Rightarrow> ?b t | Inr _ \<Rightarrow> Q t"])
      show "safe (\<lambda>t. (?w t \<and> (case r of Inl _ \<Rightarrow> faulty F | Inr _ \<Rightarrow> get t p = Some (FileNode data))) \<and> (\<forall>e. c = Inl e \<longrightarrow> faulty F))
        (case firstErr r c of Inl e \<Rightarrow> io_ret (Inl e) | Inr _ \<Rightarrow> attempt (Rename F p (dir @ [base])))
        (\<lambda>r' t. case r' of Inl _ \<Rightarrow> ?b t | Inr _ \<Rightarrow> Q t) C"
      proof (cases "firstErr r c")
        case (Inl e)
        then have d: "(\<exists>x. r = Inl x) \<or> (\<exists>x. c = Inl x)" by (auto dest: firstErr_Inl)
        show ?thesis unfolding Inl sum.case by (rule safe_ret) (use d in auto)
      next
        case (Inr u)
        then have "r = Inr ()" by (cases r) (auto simp: firstErr_def)
        then show ?thesis unfolding Inr sum.case Rename_def
        proof (intro safe_try_syscall, goal_cases)
          case (1 t r t')
          then show ?case using ok P_ren by (auto simp: butlast_append split: if_splits)
        qed (use PC in auto)
      qed
      fix r' :: "unit res"
      show "safe (\<lambda>t. case r' of Inl _ \<Rightarrow> ?b t | Inr _ \<Rightarrow> Q t)
        (case r' of Inl e \<Rightarrow> io_bind (attempt (Remove F p)) (\<lambda>_. io_fail e) | Inr _ \<Rightarrow> syncDir F dir) (\<lambda>_. Q) C"
      proof (cases r')
        case (Inl e)
        have "safe ?b (attempt (Remove F p)) (\<lambda>_. C) C"
          by (rule safe_conseq [OF safe_Remove [where P = ?b and Q = C]]) (use PC del in \<open>auto split: sum.splits\<close>)
        then show ?thesis unfolding Inl sum.case by (rule safe_bind) (auto intro: safe_fail)
      next
        case (Inr u)
        then show ?thesis using QC by (auto intro!: safe_syncDir)
      qed
    qed
  qed
qed

section \<open>One entry per account\<close>

definition registry_ok :: "store_lib \<Rightarrow> tree \<Rightarrow> bool" where
  "registry_ok L t \<longleftrightarrow> (\<forall>raw accs. get t [accountsFile] = Some (FileNode raw) \<and> parseAccounts L raw = Inr accs
     \<longrightarrow> distinct (map aeACI accs))"

definition keeps :: "(tree \<Rightarrow> bool) \<Rightarrow> 'a io \<Rightarrow> bool" where
  "keeps I m \<longleftrightarrow> safe I m (\<lambda>_. I) I"

named_theorems keeps_intros \<open>programs that keep an invariant\<close>

lemma registry_ok_mono:
  "registry_ok L t \<Longrightarrow> get t' [accountsFile] = get t [accountsFile] \<or> get t' [accountsFile] = None \<or> get t' [accountsFile] = Some DirNode
   \<Longrightarrow> registry_ok L t'"
  by (auto simp: registry_ok_def)

lemma keeps_ret [keeps_intros]: "keeps I (io_ret x)"
  unfolding keeps_def by (rule safe_ret)

lemma keeps_fail [keeps_intros]: "keeps I (io_fail e)"
  unfolding keeps_def by (rule safe_fail)

lemma keeps_of [keeps_intros]: "keeps I (io_of r)"
  unfolding keeps_def by (rule safe_of)

lemma keeps_bind [keeps_intros]: "keeps I m \<Longrightarrow> (\<And>x. keeps I (f x)) \<Longrightarrow> keeps I (io_bind m f)"
  unfolding keeps_def by (rule safe_bind)

lemma keeps_then [keeps_intros]: "keeps I m \<Longrightarrow> keeps I k \<Longrightarrow> keeps I (io_then m k)"
  unfolding keeps_def by (rule safe_then)

lemma keeps_wrap [keeps_intros]: "keeps I m \<Longrightarrow> keeps I (io_wrap w m)"
  unfolding keeps_def by (rule safe_wrap)

lemma keeps_attempt [keeps_intros]:
  assumes "keeps I m"
  shows "keeps I (attempt m)"
  unfolding keeps_def
  by (rule safe_conseq [OF safe_attempt [OF assms [unfolded keeps_def]]]) (simp_all split: sum.splits)

lemma keeps_syscall:
  assumes "\<And>t. I t \<Longrightarrow> I (snd (act t))" "\<And>n t. I t \<Longrightarrow> I (torn n t)"
  shows "keeps I (syscall F act torn)"
  unfolding keeps_def
proof (rule safe_syscall)
  fix t x t' e
  assume I: "I t"
  show "I t'" if "act t = (Inr x, t')" using assms(1) [OF I] that by simp
  show "I t'" if "act t = (Inl e, t')" using assms(1) [OF I] that by simp
qed (rule assms(2))

lemma keeps_reads [keeps_intros]:
  "keeps I (Lstat F p)" "keeps I (ReadFile F p)" "keeps I (ReadDir F p)" "keeps I (OpenFile F p)"
  "keeps I (tryLock F p)" "keeps I (Sync F)" "keeps I (CloseFile F)" "keeps I (openAny F p)"
  unfolding Lstat_def ReadFile_def ReadDir_def OpenFile_def tryLock_def Sync_def CloseFile_def openAny_def
  by (rule keeps_syscall; simp)+

lemma keeps_randRead [keeps_intros]: "keeps I (randRead F)"
  unfolding keeps_def randRead_def by (rule safe_step, rule safe_syscall) auto

lemma registry_ok_tornDel: "registry_ok L t \<Longrightarrow> registry_ok L (tornDel f p t)"
  using get_tornDel_cases [of f p t "[accountsFile]"] by (elim registry_ok_mono) blast

lemma registry_ok_deltree: "registry_ok L t \<Longrightarrow> registry_ok L (deltree p t)"
  by (erule registry_ok_mono) simp

lemma keeps_removes [keeps_intros]: "keeps (registry_ok L) (Remove F p)" "keeps (registry_ok L) (RemoveAll F p)"
  unfolding Remove_def RemoveAll_def
  by (rule keeps_syscall; simp add: registry_ok_tornDel registry_ok_deltree)+

lemma keeps_dirs [keeps_intros]: "keeps (registry_ok L) (Mkdir F p)" "keeps (registry_ok L) (MkdirAll F p)"
  unfolding Mkdir_def MkdirAll_def
  by (rule keeps_syscall; auto elim!: registry_ok_mono simp: addNode_def split: option.split node.split)+

lemma keeps_files [keeps_intros]:
  "p \<noteq> [accountsFile] \<Longrightarrow> keeps (registry_ok L) (CreateExcl F p)"
  "p \<noteq> [accountsFile] \<Longrightarrow> keeps (registry_ok L) (OpenCreate F p)"
  "p \<noteq> [accountsFile] \<Longrightarrow> keeps (registry_ok L) (Write F p data)"
  "\<not> prefix p' [accountsFile] \<Longrightarrow> keeps (registry_ok L) (Rename F p p')"
  unfolding CreateExcl_def OpenCreate_def Write_def Rename_def
  by (rule keeps_syscall; auto elim!: registry_ok_mono simp: addNode_def get_move split: option.split node.split)+

lemma safe_replace_registry:
  assumes "dir @ [base] = [accountsFile] \<Longrightarrow>
    \<forall>accs. parseAccounts L data = Inr accs \<longrightarrow> distinct (map aeACI accs)"
    and base: "dir \<noteq> [] \<or> base = accountsFile"
  shows "keeps (registry_ok L) (replaceFile F dir base data)"
  unfolding keeps_def
proof (rule safe_pre [OF safe_replaceFile [where P = "registry_ok L" and Q = "registry_ok L" and C = "registry_ok L"]], goal_cases)
  case (1 t r b)
  then show ?case by (rule registry_ok_mono) (use base in \<open>auto simp: Cons_eq_append_conv\<close>)
next
  case (2 t r)
  then show ?case by (rule registry_ok_mono) auto
next
  case (3 t r)
  show ?case
  proof (cases "dir @ [base] = [accountsFile]")
    case True
    then have "dir = []" "base = accountsFile" by (auto simp: append_eq_Cons_conv)
    then have "get (move (dir @ [base @ ''.'' @ r]) (dir @ [base]) t) [accountsFile] = Some (FileNode data)"
      using 3 by (simp add: get_move)
    then show ?thesis using assms(1) [OF True] by (simp add: registry_ok_def)
  next
    case False
    show ?thesis by (rule registry_ok_mono [OF 3(1)])
      (use False base in \<open>auto simp: get_move append_eq_Cons_conv prefix_Cons Cons_eq_append_conv\<close>)
  qed
qed auto

lemma keeps_writeDurable [keeps_intros]: "dir \<noteq> [] \<Longrightarrow> keeps (registry_ok L) (writeDurable F dir base data)"
  unfolding writeDurable_def by (intro keeps_wrap safe_replace_registry) simp_all

lemma keeps_syncs [keeps_intros]: "keeps I (syncDir F p)" "keeps I (syncFile F p)" "keeps I (syncBoth F p q)"
  unfolding syncDir_def syncBoth_def syncFile_def by (intro keeps_intros)+

lemma keeps_newToken [keeps_intros]: "keeps I (newToken F)"
  unfolding newToken_def by (intro keeps_intros)

lemma keeps_registry_write:
  assumes "store_laws L" "distinct (map aeACI accs)"
  shows "keeps (registry_ok L) (registry_write L F accs)"
  using assms unfolding registry_write_def
  by (auto intro!: keeps_intros safe_replace_registry simp: store_laws_def parseAccounts_def split: option.split)

lemma safe_accounts:
  "safe (registry_ok L) (accounts L F) (\<lambda>accs t. registry_ok L t \<and> distinct (map aeACI accs)) (registry_ok L)"
  unfolding accounts_def
proof (rule safe_bind [OF safe_ReadFile])
  fix r
  let ?ok = "registry_ok L" and ?Q = "\<lambda>accs t. registry_ok L t \<and> distinct (map aeACI accs)"
  let ?P = "\<lambda>t. ?ok t \<and> (case r of Inl e \<Rightarrow> if isNotExist e then get t [accountsFile] = None else faulty F \<or> get t [accountsFile] = Some DirNode
    | Inr b \<Rightarrow> get t [accountsFile] = Some (FileNode b))"
  show "safe ?P (case r of Inl e \<Rightarrow> if isNotExist e then io_ret [] else io_fail (Wrap ''read accounts.json'' [e])
     | Inr raw \<Rightarrow> io_bind (attempt (Lstat F [accountsFile])) (\<lambda>_. io_of (parseAccounts L raw))) ?Q ?ok"
  proof (cases r)
    case (Inl e)
    then show ?thesis by (auto intro: safe_ret safe_fail)
  next
    case (Inr raw)
    have "safe ?P (attempt (Lstat F [accountsFile])) (\<lambda>_. ?P) ?ok"
      by (rule safe_conseq [OF safe_Lstat [where P = ?P]]) auto
    then show ?thesis unfolding Inr sum.case
      by (rule safe_bind) (auto intro!: safe_of simp: Inr registry_ok_def)
  qed
qed auto

text \<open>Reading the registry before a program that relies on what was read.\<close>

lemma keeps_with_accounts:
  assumes "\<And>accs. distinct (map aeACI accs) \<Longrightarrow> keeps (registry_ok L) (f accs)"
  shows "keeps (registry_ok L) (io_bind (accounts L F) f)"
  unfolding keeps_def
  by (rule safe_bind [OF safe_accounts])
    (use assms in \<open>auto simp: keeps_def conj_commute [of "registry_ok L _"] intro!: safe_fact\<close>)

lemma keeps_checks [keeps_intros]:
  "keeps I (fileDigest L F p)" "keeps I (checkStaged L F dir intent)" "keeps I (isDir F p)" "keeps I (locate F p q)"
  "keeps I (readIntent L F p)" "keeps I (accounts L F)"
  unfolding fileDigest_def checkStaged_def locate_def isDir_def readIntent_def accounts_def
  by (auto intro!: keeps_intros split: sum.split option.split)

lemma keeps_removals [keeps_intros]:
  "keeps (registry_ok L) (removeStage F p)" "keeps (registry_ok L) (retire F p q token)"
  "keeps (registry_ok L) (lockOwner F p)" "keeps (registry_ok L) (removeEach F ps)"
  unfolding removeStage_def retire_def lockOwner_def
  by ((induction ps)?, auto intro!: keeps_intros split: sum.split)+

lemma safe_locate_dir:
  "safe I (locate F staged fin) (\<lambda>(stagedDir, _) t. I t \<and> (stagedDir \<longrightarrow> get t staged = Some DirNode)) I"
proof -
  let ?D = "\<lambda>b t. I t \<and> (b \<longrightarrow> get t staged = Some DirNode)"
  have 1: "safe I (isDir F staged) ?D I"
    unfolding isDir_def by (rule safe_bind [OF safe_Lstat]) (auto intro!: safe_ret safe_fail split: sum.splits)
  show ?thesis unfolding locate_def
  proof (rule safe_bind [OF 1])
    fix b
    have 2: "safe (?D b) (attempt (Lstat F fin)) (\<lambda>_. ?D b) I"
      by (rule safe_conseq [OF safe_Lstat [where P = "?D b"]]) auto
    show "safe (?D b) (io_bind (attempt (Lstat F fin)) (\<lambda>r. case r of
       Inl e \<Rightarrow> if isNotExist e then io_ret (b, True) else io_fail (Wrap ''inspect'' [e]) | Inr _ \<Rightarrow> io_ret (b, False)))
       (\<lambda>(b, _). ?D b) I"
      by (rule safe_bind [OF 2]) (auto intro!: safe_ret safe_fail split: sum.splits)
  qed
qed

lemma safe_moveStaged:
  "safe (\<lambda>t. registry_ok L t \<and> get t staged = Some DirNode) (moveStaged L' F stage staged fin intent) (\<lambda>_. registry_ok L) (registry_ok L)"
proof -
  let ?D = "\<lambda>t. registry_ok L t \<and> get t staged = Some DirNode"
  have 1: "safe ?D (checkStaged L' F staged intent) (\<lambda>_. ?D) ?D" using keeps_checks(2) [of ?D] by (simp add: keeps_def)
  have 2: "safe ?D (renameNoReplace F staged fin) (\<lambda>_. registry_ok L) (registry_ok L)"
    unfolding renameNoReplace_def
  proof (rule safe_syscall)
    fix t x t'
    assume D: "?D t" and act: "(if get t staged = None \<or> get t (butlast fin) \<noteq> Some DirNode then (Inl notExist, t)
       else if get t fin \<noteq> None then (Inl (Opaque ''file exists''), t) else (Inr (), move staged fin t)) = (Inr x, t')"
    then have t': "t' = move staged fin t" "get t fin = None" "get t (butlast fin) = Some DirNode" by (auto split: if_splits)
    have "get t' [accountsFile] = get t [accountsFile] \<or> get t' [accountsFile] = None \<or> get t' [accountsFile] = Some DirNode"
    proof (cases "prefix fin [accountsFile]")
      case True
      then have "fin = [] \<or> fin = [accountsFile]" by (auto simp: prefix_Cons)
      then show ?thesis using D t' by (auto simp: get_move)
    qed (simp add: t' get_move)
    then show "registry_ok L t'" using D by (auto intro: registry_ok_mono)
  qed (auto split: if_splits)
  have 3: "safe (registry_ok L) (syncBoth F stage []) (\<lambda>_. registry_ok L) (registry_ok L)"
    using keeps_syncs(3) by (simp add: keeps_def)
  show ?thesis unfolding moveStaged_def
    by (rule safe_then [OF _ safe_then [OF 2 3]], use 1 in \<open>unfold safe_def\<close>, erule runs_conseq) auto
qed

lemma collision_new: "collision accs entry = None \<Longrightarrow> aeACI entry \<notin> aeACI ` set accs"
  by (induction accs) (auto split: if_splits)

lemma keeps_publishAccount:
  assumes "store_laws L" "distinct (map aeACI accs)"
  shows "keeps (registry_ok L) (publishAccount L F stage staged fin intent accs)"
proof (cases "collision accs (inEntry intent)")
  case None
  have w: "keeps (registry_ok L) (registry_write L F (accs @ [inEntry intent]))"
    using assms collision_new [OF None] by (intro keeps_registry_write) auto
  have m: "safe (\<lambda>t. case (b, c) of (stagedDir, _) \<Rightarrow> registry_ok L t \<and> (stagedDir \<longrightarrow> get t staged = Some DirNode))
      (if b \<and> c then moveStaged L F stage staged fin intent
       else if \<not> b \<and> \<not> c then checkStaged L F fin intent else io_fail (evidence []))
      (\<lambda>_. registry_ok L) (registry_ok L)" for b c
    using safe_moveStaged [of L staged L F stage fin intent]
      keeps_checks(2) [of "registry_ok L" L F fin intent]
    by (auto simp: keeps_def intro: safe_fail elim: safe_pre)
  show ?thesis unfolding publishAccount_def None option.case keeps_def
  proof (rule safe_bind [OF safe_locate_dir])
    fix x :: "bool \<times> bool"
    obtain b c where x: "x = (b, c)" by fastforce
    show "safe ((\<lambda>(stagedDir, _) t. registry_ok L t \<and> (stagedDir \<longrightarrow> get t staged = Some DirNode)) x)
      (case x of (stagedDir, finalMissing) \<Rightarrow> io_then (if stagedDir \<and> finalMissing then moveStaged L F stage staged fin intent
         else if \<not> stagedDir \<and> \<not> finalMissing then checkStaged L F fin intent else io_fail (evidence []))
         (registry_write L F (accs @ [inEntry intent]))) (\<lambda>_. registry_ok L) (registry_ok L)"
      unfolding x prod.case by (rule safe_then [OF m [unfolded prod.case] w [unfolded keeps_def]])
  qed
qed (simp add: publishAccount_def keeps_fail)

lemma keeps_recover [keeps_intros]:
  assumes "store_laws L"
  shows "keeps (registry_ok L) (rollForward L F stage intent)" "keeps (registry_ok L) (recoverAttempt L F name)"
    "keeps (registry_ok L) (recover_loop L F names)" "keeps (registry_ok L) (recover L F)"
proof -
  show 1: "keeps (registry_ok L) (rollForward L F stage intent)" for stage intent
    unfolding rollForward_def Let_def
    by (rule keeps_with_accounts) (use assms in \<open>auto intro!: keeps_intros keeps_publishAccount\<close>)
  show 2: "keeps (registry_ok L) (recoverAttempt L F name)" for name
    unfolding recoverAttempt_def Let_def using 1 by (auto intro!: keeps_intros split: sum.split)
  show 3: "keeps (registry_ok L) (recover_loop L F names)" for names
    by (induction names) (auto intro!: keeps_intros 2)
  show "keeps (registry_ok L) (recover L F)"
    unfolding recover_def cleanRemoved_def by (auto intro!: keeps_intros 3 split: sum.split)
qed

lemma keeps_withRegistry [keeps_intros]:
  assumes "store_laws L" "keeps (registry_ok L) m"
  shows "keeps (registry_ok L) (withRegistry L F m)"
  unfolding withRegistry_def lockRegistry_def
  by (intro keeps_intros assms) (simp add: accountsFile_def registryLockFile_def)

lemma replace_keys: "map aeACI (map (\<lambda>a. if aeACI a = aeACI entry then entry else a) accs) = map aeACI accs"
  by (induction accs) auto

lemma putEntry_distinct: "distinct (map aeACI accs) \<Longrightarrow> distinct (map aeACI (putEntry entry accs))"
  by (auto simp: putEntry_def list_ex_iff replace_keys simp del: map_map)

lemma markEntry_keys: "markEntry aci at accs = Some accs' \<Longrightarrow> map aeACI accs' = map aeACI accs"
  by (induction accs arbitrary: accs') (auto split: if_splits)

text \<open>The operations of a data directory, and of import attempts with any state.\<close>

datatype reg_op = OpPut AccountEntry | OpMark string time | OpRemove string | OpBegin bool
  | OpBuild string "bytes res" "bytes \<Rightarrow> err option" Import | OpPublish AccountEntry Import | OpClose Import

definition reg_step :: "store_lib \<Rightarrow> uuid_lib \<Rightarrow> io_script \<times> reg_op \<Rightarrow> disk \<Rightarrow> disk" where
  "reg_step L U x d = (case x of (F, op) \<Rightarrow> case op of
     OpPut entry \<Rightarrow> snd (PutAccount L F entry d)
   | OpMark aci at \<Rightarrow> snd (MarkUnlinked L F aci at d)
   | OpRemove aci \<Rightarrow> snd (RemoveAccount L F aci d)
   | OpBegin supported \<Rightarrow> snd (BeginImport L supported F d)
   | OpBuild aci build check im \<Rightarrow> snd (Import_Build L U F aci build check im d)
   | OpPublish entry im \<Rightarrow> snd (snd (Import_Publish L F entry im d))
   | OpClose im \<Rightarrow> snd (Import_Close F im d))"

lemma keeps_ops:
  assumes "store_laws L"
  shows "keeps (registry_ok L) (PutAccount L F entry)" "keeps (registry_ok L) (MarkUnlinked L F aci at)"
    "keeps (registry_ok L) (RemoveAccount L F aci)" "keeps (registry_ok L) (BeginImport L supported F)"
    "keeps (registry_ok L) (Import_Build L U F aci build check im)"
    "keeps (registry_ok L) (Import_Close F im)"
proof -
  show "keeps (registry_ok L) (PutAccount L F entry)" unfolding PutAccount_def
    by (intro keeps_withRegistry assms keeps_with_accounts keeps_registry_write putEntry_distinct)
  show "keeps (registry_ok L) (MarkUnlinked L F aci at)" unfolding MarkUnlinked_def
    by (intro keeps_withRegistry assms keeps_with_accounts)
      (auto intro!: keeps_intros keeps_registry_write assms simp: markEntry_keys split: option.split)
  have a: "keeps (registry_ok L) (moveAside F p)" for p unfolding moveAside_def dir_mkdir_def
    by (auto intro!: keeps_intros simp: accountsFile_def removedDir_def split: sum.split)
  show "keeps (registry_ok L) (RemoveAccount L F aci)" unfolding RemoveAccount_def
    by (rule keeps_bind, intro keeps_withRegistry assms keeps_with_accounts keeps_then a keeps_registry_write)
      (auto intro!: keeps_intros simp: distinct_map_filter split: option.split)
  have s: "stageOf t @ [x] \<noteq> [accountsFile]" "stageOf t @ [x, y] \<noteq> [accountsFile]" for t x y by (simp_all add: stageOf_def)
  show "keeps (registry_ok L) (BeginImport L supported F)" unfolding BeginImport_def allocateAttempt_def dir_mkdir_def Let_def
    by (auto intro!: keeps_intros keeps_withRegistry assms s split: sum.split)
  show "keeps (registry_ok L) (Import_Build L U F aci build check im)"
    unfolding Import_Build_def buildDB_def checkBuilt_def syncStaged_def syncIfThere_def Let_def
    by (auto intro!: keeps_intros s split: option.split sum.split)
  show "keeps (registry_ok L) (Import_Close F im)" unfolding Import_Close_def
    by (auto intro!: keeps_intros)
qed

lemma keepsD:
  assumes "keeps I m" "I (dkTree d)"
  shows "I (dkTree (snd (m d)))"
proof -
  obtain r d' where m: "m d = (r, d')" by fastforce
  show ?thesis using assms m unfolding keeps_def safe_def runs_def by (cases r) fastforce+
qed

lemma keeps_Publish:
  assumes "store_laws L" "registry_ok L (dkTree d)"
  shows "registry_ok L (dkTree (snd (snd (Import_Publish L F entry im d))))"
proof -
  have p: "keeps (registry_ok L) (withRegistry L F (prepareCommit L F entry im))"
    unfolding prepareCommit_def checkFree_def
    by (intro keeps_withRegistry assms) (auto intro!: keeps_intros simp: stageOf_def split: sum.split option.split)
  have c: "keeps (registry_ok L) (io_wrap recoveryError (io_then (writeDurable F (stageOf (imToken im)) intentFile raw)
      (rollForward L F (stageOf (imToken im)) (intentOf entry im))))" for raw
    by (intro keeps_wrap keeps_then keeps_writeDurable keeps_recover assms) (simp add: stageOf_def)
  obtain r d' where P: "withRegistry L F (prepareCommit L F entry im) d = (r, d')" by fastforce
  have d': "registry_ok L (dkTree d')" using keepsD [OF p assms(2)] by (simp add: P)
  have m: "registry_ok L (dkTree (snd (snd (Import_commit L F entry im d'))))"
    using keepsD [OF c d'] d' by (simp add: Import_commit_def case_prod_beta split: option.split)
  show ?thesis using assms(2) d' m by (cases r) (simp_all add: Import_Publish_def P)
qed

lemma reg_step_ok:
  assumes "store_laws L" "registry_ok L (dkTree d)"
  shows "registry_ok L (dkTree (reg_step L U x d))"
proof -
  obtain F op where x: "x = (F, op)" by fastforce
  note k = keeps_ops [OF assms(1), THEN keepsD, OF assms(2)] keeps_Publish [OF assms]
  show ?thesis unfolding x reg_step_def by (cases op) (simp_all add: k)
qed

interpretation reg_ops: step_system "reg_step L U" "\<lambda>d. store_laws L \<longrightarrow> registry_ok L (dkTree d)" for L U
  by unfold_locales (simp add: reg_step_ok)

lemma Accounts_distinct:
  assumes "store_laws L" "registry_ok L (dkTree d)" "fst (Accounts L F d) = Done accs"
  shows "distinct (map aeACI accs)"
proof -
  have "safe (registry_ok L) (Accounts L F) (\<lambda>accs t. registry_ok L t \<and> distinct (map aeACI accs)) (registry_ok L)"
    unfolding Accounts_def withRegistry_def
  proof (rule safe_then [OF _ safe_then [OF _ safe_accounts]])
    have "keeps (registry_ok L) (recover L F)" by (rule keeps_recover [OF assms(1)])
    then show "safe (registry_ok L) (recover L F) (\<lambda>_. registry_ok L) (registry_ok L)" by (simp add: keeps_def)
    have "[registryLockFile] \<noteq> [accountsFile]" by (simp add: file_names)
    then have "keeps (registry_ok L) (lockRegistry F)" unfolding lockRegistry_def by (intro keeps_intros)
    then show "safe (registry_ok L) (lockRegistry F) (\<lambda>_. registry_ok L) (registry_ok L)" by (simp add: keeps_def)
  qed
  moreover obtain d' where "Accounts L F d = (Done accs, d')" using assms(3) by (cases "Accounts L F d") auto
  ultimately show ?thesis using assms(2) unfolding safe_def runs_def by fastforce
qed

text \<open>C39: Starting without a registry file, after any operations (linking, unlinking, removing and
  importing accounts), each failing or dying anywhere and finishing or cleaning up interrupted imports
  first: the registry that is then listed has at most one entry for each account.\<close>

theorem accounts_unique:
  assumes "store_laws L" "get (dkTree d) [accountsFile] = None" "fst (Accounts L F (fold (reg_step L U) ops d)) = Done accs"
  shows "distinct (map aeACI accs)"
proof (rule Accounts_distinct [OF assms(1) _ assms(3)])
  have "registry_ok L (dkTree d)" using assms(2) by (simp add: registry_ok_def)
  then show "registry_ok L (dkTree (fold (reg_step L U) ops d))" using reg_ops.run_inv [of L d U ops] assms(1) by blast
qed

text \<open>A codec for a few given documents and intents, and undisturbed and disturbed scripts.\<close>

definition tableCode :: "'a list \<Rightarrow> 'a \<Rightarrow> bytes option" where
  "tableCode xs x = (if x \<in> set xs then Some (replicate (length (takeWhile (\<lambda>y. y \<noteq> x) xs)) CHR ''x'') else None)"

definition tableDecode :: "'a list \<Rightarrow> bytes \<Rightarrow> 'a option" where
  "tableDecode xs raw = (let n = length (takeWhile (\<lambda>c. c = CHR ''x'') raw) in if n < length xs then Some (xs ! n) else None)"

definition tableLib :: "accountsDoc list \<Rightarrow> importIntent list \<Rightarrow> store_lib" where
  "tableLib docs intents = \<lparr>slEncodeDoc = tableCode docs, slDecodeDoc = tableDecode docs,
     slEncodeIntent = tableCode intents, slDecodeIntent = tableDecode intents, slDigest = (\<lambda>raw. raw)\<rparr>"

lemma takeWhile_neq: "x \<in> set xs \<Longrightarrow> length (takeWhile (\<lambda>y. y \<noteq> x) xs) < length xs \<and> xs ! length (takeWhile (\<lambda>y. y \<noteq> x) xs) = x"
  by (induction xs) auto

lemma takeWhile_replicate_app: "takeWhile (\<lambda>c. c = a) (replicate n a) = replicate n a"
  "b \<noteq> a \<Longrightarrow> takeWhile (\<lambda>c. c = a) (replicate n a @ b # bs) = replicate n a"
  by (induction n) auto

lemma tableCode_decode: "tableCode xs x = Some raw \<Longrightarrow> tableDecode xs (raw @ newline) = Some x \<and> tableDecode xs raw = Some x"
  using takeWhile_neq [of x xs]
  by (auto simp: tableCode_def tableDecode_def newline_def Let_def takeWhile_replicate_app split: if_splits)

lemma tableLib_laws: "store_laws (tableLib docs intents)"
  by (simp add: store_laws_def tableLib_def tableCode_decode)

definition fineScript :: io_script where
  "fineScript = \<lparr>ioFault = (\<lambda>_. Fine), ioReached = (\<lambda>_ _. True), ioWritten = (\<lambda>_. 0), ioRandom = (\<lambda>_. ''1''),
     ioBytes = (\<lambda>_. replicate 16 CHR ''a''), ioHeld = (\<lambda>_. False)\<rparr>"

definition demoEntry :: AccountEntry where
  "demoEntry = \<lparr>aeNumber = ''+49'', aeACI = ''0a'', aePNI = [], aeDeviceID = 2, aeDeviceName = [], aeLinkedAt = 5, aeUnlinkedAt = time_zero\<rparr>"

definition demoStoreLib :: store_lib where
  "demoStoreLib = tableLib [\<lparr>adVersion = 1, adAccounts = []\<rparr>, \<lparr>adVersion = 1, adAccounts = [demoEntry]\<rparr>] []"

definition emptyDisk :: disk where
  "emptyDisk = \<lparr>dkTree = [([], DirNode)], dkStep = 0\<rparr>"

lemma demo_listing:
  "fst (Accounts demoStoreLib fineScript (fold (reg_step demoStoreLib plain_uuid)
     [(fineScript, OpPut demoEntry), (fineScript, OpPut demoEntry)] emptyDisk)) = Done [demoEntry]"
  by code_simp

theorem accounts_unique_witness:
  "\<exists>accs. fst (Accounts demoStoreLib fineScript (fold (reg_step demoStoreLib plain_uuid)
     [(fineScript, OpPut demoEntry), (fineScript, OpPut demoEntry)] emptyDisk)) = Done accs \<and> accs \<noteq> [] \<and> distinct (map aeACI accs)"
  using accounts_unique [OF _ _ demo_listing] demo_listing tableLib_laws
  by (simp add: demoStoreLib_def emptyDisk_def get_def accountsFile_def)

end
