(* ===== verification/Publication.thy ===== *)
theory Publication
  imports RegistryProofs
begin

text \<open>
  Publishing an import survives crashes (internal/store imports.go and recovery.go): the stages of a
  publication as predicates on the tree, what each step of \<open>Import_Publish\<close> and of \<open>recover\<close> does to
  them, and the theorem that a publication is all or nothing.
\<close>

section \<open>Stages of a publication\<close>

text \<open>A publication: the tree when it begins, the entry to register, the token and digest of the
  attempt and the registry's entries before.\<close>

record publication =
  pbTree :: tree
  pbEntry :: AccountEntry
  pbToken :: string
  pbDigest :: string
  pbAccounts :: "AccountEntry list"

definition pbStage :: "publication \<Rightarrow> path" where
  "pbStage B = stageOf (pbToken B)"

definition pbFinal :: "publication \<Rightarrow> path" where
  "pbFinal B = AccountDir (aeACI (pbEntry B))"

definition pbStaged :: "publication \<Rightarrow> path" where
  "pbStaged B = pbStage B @ [aeACI (pbEntry B)]"

definition pbIntent :: "publication \<Rightarrow> importIntent" where
  "pbIntent B = \<lparr>inVersion = intentVersion, inToken = pbToken B, inEntry = pbEntry B, inDigest = pbDigest B\<rparr>"

text \<open>Paths that registry operations use anyway, and those that the publication may change.\<close>

definition noise :: "path \<Rightarrow> bool" where
  "noise p \<longleftrightarrow> prefix [removedDir] p \<or> p = [registryLockFile] \<or> (\<exists>r. prefix [accountsFile @ ''.'' @ r] p)"

definition owned :: "publication \<Rightarrow> path \<Rightarrow> bool" where
  "owned B p \<longleftrightarrow> prefix (pbStage B) p \<or> prefix (pbFinal B) p \<or> prefix [accountsFile] p \<or> noise p"

definition framed :: "publication \<Rightarrow> tree \<Rightarrow> bool" where
  "framed B t \<longleftrightarrow> (\<forall>p. \<not> owned B p \<longrightarrow> get t p = get (pbTree B) p)"

definition stored :: "store_lib \<Rightarrow> AccountEntry list \<Rightarrow> tree \<Rightarrow> bool" where
  "stored L accs t \<longleftrightarrow> get t [accountsFile] = None \<and> accs = []
     \<or> (\<exists>raw. get t [accountsFile] = Some (FileNode raw) \<and> parseAccounts L raw = Inr accs)"

text \<open>The account's own files: all but the ownership marker, which publishing adds and removes.\<close>

definition ownFile :: "path \<Rightarrow> bool" where
  "ownFile q \<longleftrightarrow> \<not> prefix [ownerMarker] q \<and> (\<forall>r. \<not> prefix [ownerMarker @ ''.'' @ r] q)"

definition accountAt :: "publication \<Rightarrow> path \<Rightarrow> tree \<Rightarrow> bool" where
  "accountAt B dir t \<longleftrightarrow> (\<forall>q. ownFile q \<longrightarrow> get t (dir @ q) = get (pbTree B) (pbStaged B @ q))"

definition markedAt :: "publication \<Rightarrow> path \<Rightarrow> tree \<Rightarrow> bool" where
  "markedAt B dir t \<longleftrightarrow> get t (dir @ [ownerMarker]) = Some (FileNode (pbToken B))"

definition nothingAt :: "path \<Rightarrow> tree \<Rightarrow> bool" where
  "nothingAt p t \<longleftrightarrow> (\<forall>q. get t (p @ q) = None)"

definition intentAt :: "store_lib \<Rightarrow> publication \<Rightarrow> tree \<Rightarrow> bool" where
  "intentAt L B t \<longleftrightarrow> (\<exists>raw. get t (pbStage B @ [intentFile]) = Some (FileNode raw) \<and> slDecodeIntent L raw = Some (pbIntent B))"

definition attemptAt :: "publication \<Rightarrow> tree \<Rightarrow> bool" where
  "attemptAt B t \<longleftrightarrow> get t (pbStage B) = Some DirNode \<and> (\<exists>b. get t (pbStage B @ [ownerLockFile]) = Some (FileNode b))"

definition staged :: "store_lib \<Rightarrow> publication \<Rightarrow> tree \<Rightarrow> bool" where
  "staged L B t \<longleftrightarrow> framed B t \<and> attemptAt B t \<and> intentAt L B t \<and> stored L (pbAccounts B) t
     \<and> accountAt B (pbStaged B) t \<and> markedAt B (pbStaged B) t \<and> nothingAt (pbFinal B) t"

definition moved :: "store_lib \<Rightarrow> publication \<Rightarrow> tree \<Rightarrow> bool" where
  "moved L B t \<longleftrightarrow> framed B t \<and> attemptAt B t \<and> intentAt L B t \<and> stored L (pbAccounts B) t
     \<and> accountAt B (pbFinal B) t \<and> markedAt B (pbFinal B) t \<and> nothingAt (pbStaged B) t"

definition registered :: "store_lib \<Rightarrow> publication \<Rightarrow> tree \<Rightarrow> bool" where
  "registered L B t \<longleftrightarrow> framed B t \<and> attemptAt B t \<and> intentAt L B t \<and> stored L (pbAccounts B @ [pbEntry B]) t
     \<and> accountAt B (pbFinal B) t"

text \<open>No attempt is under way any more: there is no intent.\<close>

definition atRest :: "publication \<Rightarrow> tree \<Rightarrow> bool" where
  "atRest B t \<longleftrightarrow> get t (pbStage B @ [intentFile]) = None \<and> get t (pbStage B @ [ownerLockFile]) \<noteq> Some DirNode"

definition published :: "store_lib \<Rightarrow> publication \<Rightarrow> tree \<Rightarrow> bool" where
  "published L B t \<longleftrightarrow> framed B t \<and> atRest B t \<and> stored L (pbAccounts B @ [pbEntry B]) t \<and> accountAt B (pbFinal B) t"

definition untouched :: "store_lib \<Rightarrow> publication \<Rightarrow> tree \<Rightarrow> bool" where
  "untouched L B t \<longleftrightarrow> framed B t \<and> atRest B t \<and> stored L (pbAccounts B) t
     \<and> (\<forall>q. get t (pbFinal B @ q) = get (pbTree B) (pbFinal B @ q))"

definition pending :: "store_lib \<Rightarrow> publication \<Rightarrow> tree \<Rightarrow> bool" where
  "pending L B t \<longleftrightarrow> staged L B t \<or> moved L B t \<or> registered L B t"

definition committed :: "store_lib \<Rightarrow> publication \<Rightarrow> tree \<Rightarrow> bool" where
  "committed L B t \<longleftrightarrow> pending L B t \<or> published L B t"

text \<open>What is assumed of a publication: an account name without dots, as every UUID is, an attempt with a
  staged database of the digest, and a registry that can be read.\<close>

definition plain_name :: "string \<Rightarrow> bool" where
  "plain_name s \<longleftrightarrow> s \<noteq> [] \<and> CHR ''.'' \<notin> set s"

definition startable :: "store_lib \<Rightarrow> publication \<Rightarrow> bool" where
  "startable L B \<longleftrightarrow> plain_name (aeACI (pbEntry B)) \<and> isToken (pbToken B)
     \<and> get (pbTree B) [] = Some DirNode \<and> get (pbTree B) [importsDir] = Some DirNode
     \<and> attemptAt B (pbTree B) \<and> atRest B (pbTree B) \<and> stored L (pbAccounts B) (pbTree B)
     \<and> get (pbTree B) (pbStaged B) = Some DirNode \<and> get (pbTree B) (pbStaged B @ [ownerMarker]) \<noteq> Some DirNode
     \<and> (\<exists>db. get (pbTree B) (pbStaged B @ [dbFile]) = Some (FileNode db) \<and> slDigest L db = pbDigest B)
     \<and> (\<forall>p n. get (pbTree B) (p @ [n]) \<noteq> None \<longrightarrow> get (pbTree B) p = Some DirNode)"

section \<open>Paths\<close>

lemma plain_names:
  assumes "plain_name a"
  shows "a \<noteq> accountsFile" "a \<noteq> registryLockFile" "a \<noteq> importsDir" "a \<noteq> removedDir" "a \<noteq> ownerMarker"
    "a \<noteq> ownerLockFile" "a \<noteq> intentFile" "a \<noteq> accountsFile @ ''.'' @ r" "a \<noteq> intentFile @ ''.'' @ r" "a \<noteq> ownerMarker @ ''.'' @ r"
  using assms by (auto simp: plain_name_def file_names)

lemma paths: "pbStage B = [importsDir, pbToken B]" "pbFinal B = [aeACI (pbEntry B)]"
  "pbStaged B = [importsDir, pbToken B, aeACI (pbEntry B)]"
  by (simp_all add: pbStage_def stageOf_def pbFinal_def AccountDir_def pbStaged_def)

lemma file_name_distinct [simp]: "importsDir \<noteq> removedDir" "removedDir \<noteq> importsDir" "importsDir \<noteq> accountsFile"
  "importsDir \<noteq> registryLockFile" "accountsFile \<noteq> importsDir" "registryLockFile \<noteq> importsDir"
  "accountsFile \<noteq> removedDir" "removedDir \<noteq> accountsFile" "accountsFile \<noteq> registryLockFile" "registryLockFile \<noteq> accountsFile"
  "importsDir \<noteq> accountsFile @ CHR ''.'' # r" "removedDir \<noteq> accountsFile @ CHR ''.'' # r" "accountsFile @ CHR ''.'' # r \<noteq> importsDir"
  "accountsFile @ CHR ''.'' # r \<noteq> removedDir"
  "ownerMarker \<noteq> dbFile" "dbFile \<noteq> ownerMarker" "dbFile \<noteq> ownerMarker @ CHR ''.'' # r" "ownerMarker @ CHR ''.'' # r \<noteq> dbFile"
  "intentFile \<noteq> ownerLockFile" "ownerLockFile \<noteq> intentFile" "ownerLockFile \<noteq> intentFile @ CHR ''.'' # r" "intentFile @ CHR ''.'' # r \<noteq> ownerLockFile"
  by (simp_all add: file_names)

lemma noise_simps [simp]: "\<not> noise []" "\<not> noise [accountsFile]" "\<not> noise (importsDir # p)"
  by (auto simp: noise_def)

lemma noise_plain [simp]: "plain_name a \<Longrightarrow> \<not> noise (a # p)"
  by (auto simp: noise_def dest: plain_names)

lemma ownFile_simps [simp]: "ownFile []" "ownFile [dbFile]"
  by (auto simp: ownFile_def)

lemma ownFile_not_marker: "ownFile q \<Longrightarrow> \<not> prefix [ownerMarker] q" "ownFile q \<Longrightarrow> \<not> prefix [ownerMarker @ CHR ''.'' # r] q"
  by (auto simp: ownFile_def)

text \<open>All stages are about the paths that are not noise.\<close>

definition alike :: "tree \<Rightarrow> tree \<Rightarrow> bool" where
  "alike t t' \<longleftrightarrow> (\<forall>p. \<not> noise p \<longrightarrow> get t' p = get t p)"

lemmas stage_defs = framed_def stored_def accountAt_def markedAt_def nothingAt_def intentAt_def attemptAt_def atRest_def

lemma stages_alike:
  assumes "plain_name (aeACI (pbEntry B))" "alike t t'"
  shows "framed B t' = framed B t" "attemptAt B t' = attemptAt B t" "intentAt L B t' = intentAt L B t"
    "stored L accs t' = stored L accs t" "accountAt B (pbStaged B) t' = accountAt B (pbStaged B) t"
    "accountAt B (pbFinal B) t' = accountAt B (pbFinal B) t" "markedAt B (pbStaged B) t' = markedAt B (pbStaged B) t"
    "markedAt B (pbFinal B) t' = markedAt B (pbFinal B) t" "nothingAt (pbStaged B) t' = nothingAt (pbStaged B) t"
    "nothingAt (pbFinal B) t' = nothingAt (pbFinal B) t" "atRest B t' = atRest B t"
    "(\<forall>q. get t' (pbFinal B @ q) = get (pbTree B) (pbFinal B @ q)) \<longleftrightarrow> (\<forall>q. get t (pbFinal B @ q) = get (pbTree B) (pbFinal B @ q))"
proof -
  have g: "\<not> noise p \<Longrightarrow> get t' p = get t p" for p using assms(2) by (simp add: alike_def)
  show "framed B t' = framed B t" using g by (auto simp: framed_def owned_def)
qed (use assms in \<open>simp_all add: stage_defs paths alike_def\<close>)

lemma phases_alike:
  assumes "plain_name (aeACI (pbEntry B))" "alike t t'"
  shows "staged L B t' = staged L B t" "moved L B t' = moved L B t" "registered L B t' = registered L B t"
    "published L B t' = published L B t" "untouched L B t' = untouched L B t"
    "pending L B t' = pending L B t" "committed L B t' = committed L B t"
  by (simp_all add: staged_def moved_def registered_def published_def untouched_def pending_def committed_def
      stages_alike [OF assms])

section \<open>Steps between the stages\<close>

lemma staged_move:
  assumes "plain_name (aeACI (pbEntry B))" "staged L B t"
  shows "moved L B (move (pbStaged B) (pbFinal B) t)"
proof -
  let ?t = "move (pbStaged B) (pbFinal B) t"
  note n = plain_names [OF assms(1)]
  have to: "get ?t (pbFinal B @ q) = get t (pbStaged B @ q)" for q
    using assms(2) by (simp add: get_move_to staged_def nothingAt_def)
  have out: "\<not> prefix (pbFinal B) p \<Longrightarrow> \<not> prefix (pbStaged B) p \<Longrightarrow> get ?t p = get t p" for p by (rule get_move_other)
  have none: "get ?t (pbStaged B @ q) = None" for q
    by (rule get_move_from) (use n in \<open>auto simp: paths\<close>)
  have o1: "\<not> owned B p \<Longrightarrow> get ?t p = get t p" for p
    by (rule out) (auto simp: owned_def paths prefix_def)
  have o2: "get ?t [accountsFile] = get t [accountsFile]" "get ?t (pbStage B) = get t (pbStage B)"
    "get ?t (pbStage B @ [ownerLockFile]) = get t (pbStage B @ [ownerLockFile])"
    "get ?t (pbStage B @ [intentFile]) = get t (pbStage B @ [intentFile])"
    by (rule out; use n in \<open>force simp: paths\<close>)+
  show ?thesis using assms(2) unfolding staged_def moved_def
    by (simp add: stage_defs o1 o2 to none)
qed

lemma moved_register:
  assumes "plain_name (aeACI (pbEntry B))" "moved L B t" "parseAccounts L raw = Inr (pbAccounts B @ [pbEntry B])"
    "\<And>p. \<not> prefix [accountsFile] p \<Longrightarrow> \<not> noise p \<Longrightarrow> get t' p = get t p" "get t' [accountsFile] = Some (FileNode raw)"
  shows "registered L B t'"
proof -
  note n = plain_names [OF assms(1)]
  have g: "get t' (pbFinal B @ q) = get t (pbFinal B @ q)" "get t' (pbStage B @ q) = get t (pbStage B @ q)" for q
    by (rule assms(4); use n assms(1) in \<open>simp add: paths\<close>)+
  have g': "get t' (pbStage B) = get t (pbStage B)" using g(2) [of "[]"] by simp
  have "framed B t'" using assms(2,4) by (auto simp: moved_def framed_def owned_def)
  then show ?thesis using assms(2,3,5) unfolding moved_def registered_def
    by (simp add: attemptAt_def intentAt_def accountAt_def stored_def g g')
qed

text \<open>What happens below the stage directory doesn't matter to a publication at rest, and what
  happens to the marker doesn't matter to a registered one.\<close>

lemma rest_alike:
  assumes "\<And>p. \<not> prefix (pbStage B) p \<Longrightarrow> get t' p = get t p" "atRest B t'"
    and "plain_name (aeACI (pbEntry B))"
  shows "published L B t \<Longrightarrow> published L B t'" "untouched L B t \<Longrightarrow> untouched L B t'"
proof -
  note n = plain_names [OF assms(3)]
  have g: "get t' (pbFinal B @ q) = get t (pbFinal B @ q)" "get t' [accountsFile] = get t [accountsFile]" for q
    by (rule assms(1); use n in \<open>simp add: paths\<close>)+
  have f: "framed B t \<Longrightarrow> framed B t'" using assms(1) by (auto simp: framed_def owned_def)
  show "published L B t \<Longrightarrow> published L B t'" "untouched L B t \<Longrightarrow> untouched L B t'"
    using assms(2) f by (auto simp: published_def untouched_def stored_def accountAt_def g)
qed

lemma owned_below: "prefix (pbStage B @ q) p \<Longrightarrow> owned B p" "prefix (pbFinal B @ q) p \<Longrightarrow> owned B p"
  by (auto simp: owned_def dest: append_prefixD)

lemma registered_del_marker:
  assumes "plain_name (aeACI (pbEntry B))" "registered L B t"
  shows "registered L B (deltree (pbFinal B @ [ownerMarker]) t)"
proof -
  note n = plain_names [OF assms(1)]
  let ?t = "deltree (pbFinal B @ [ownerMarker]) t"
  have a: "accountAt B (pbFinal B) ?t" using assms(2) by (auto simp: registered_def accountAt_def ownFile_def)
  have f: "framed B ?t" using assms(2) by (auto simp: registered_def framed_def dest: owned_below)
  show ?thesis using assms(2) a f n
    by (auto simp: registered_def attemptAt_def intentAt_def stored_def paths)
qed

lemma registered_del_intent:
  assumes "plain_name (aeACI (pbEntry B))" "registered L B t"
  shows "published L B (deltree (pbStage B @ [intentFile]) t)"
proof -
  note n = plain_names [OF assms(1)]
  let ?t = "deltree (pbStage B @ [intentFile]) t"
  have f: "framed B ?t" using assms(2) by (auto simp: registered_def framed_def dest: owned_below)
  show ?thesis using assms(2) f n
    by (auto simp: published_def registered_def attemptAt_def stored_def atRest_def accountAt_def paths)
qed

section \<open>Operations on a publication\<close>

text \<open>Facts of a startable publication that every stage keeps.\<close>

lemma startable_plain: "startable L B \<Longrightarrow> plain_name (aeACI (pbEntry B))"
  by (simp add: startable_def)

lemma not_owned_dirs: "plain_name (aeACI (pbEntry B)) \<Longrightarrow> \<not> owned B [] \<and> \<not> owned B [importsDir]"
  by (auto simp: owned_def paths dest: plain_names)

lemma framed_dirs: "startable L B \<Longrightarrow> framed B t \<Longrightarrow> get t [] = Some DirNode \<and> get t [importsDir] = Some DirNode"
  using not_owned_dirs [of B] by (simp add: startable_def framed_def)

lemma phase_dirs:
  assumes "startable L B" "committed L B t \<or> untouched L B t"
  shows "get t [] = Some DirNode" "get t [importsDir] = Some DirNode"
proof -
  have "framed B t" using assms(2)
    by (auto simp: committed_def pending_def staged_def moved_def registered_def published_def untouched_def)
  then show "get t [] = Some DirNode" "get t [importsDir] = Some DirNode" using framed_dirs [OF assms(1)] by auto
qed

lemma accountAt_dir: "startable L B \<Longrightarrow> accountAt B dir t \<Longrightarrow> get t dir = Some DirNode"
  unfolding accountAt_def startable_def by (metis append_Nil2 ownFile_simps(1))

lemma stage_dir: "butlast (pbStage B) = [importsDir]"
  by (simp add: paths)

lemma atRest_deltree: "atRest B t \<Longrightarrow> atRest B (deltree p t)"
  by (simp add: atRest_def)

lemma atRest_tornDel: "atRest B t \<Longrightarrow> atRest B (tornDel f p t)"
  using get_tornDel_cases [of f p t "pbStage B @ [intentFile]"] get_tornDel_cases [of f p t "pbStage B @ [ownerLockFile]"]
  by (auto simp: atRest_def)

lemma rest_removals:
  assumes "startable L B" and R: "R = published L B \<or> R = untouched L B" "R t"
  shows "R (deltree (pbStage B) t)" "R (tornDel f (pbStage B) t)"
proof -
  have "atRest B t" using R by (auto simp: published_def untouched_def)
  then have a: "atRest B (deltree (pbStage B) t)" "atRest B (tornDel f (pbStage B) t)"
    by (simp_all add: atRest_deltree atRest_tornDel)
  note r = rest_alike [OF _ _ startable_plain [OF assms(1)]]
  show "R (deltree (pbStage B) t)" using R(1)
  proof
    assume "R = published L B"
    then show ?thesis using R(2) r(1) [where t' = "deltree (pbStage B) t" and t = t and L = L] a by simp
  next
    assume "R = untouched L B"
    then show ?thesis using R(2) r(2) [where t' = "deltree (pbStage B) t" and t = t and L = L] a by simp
  qed
  show "R (tornDel f (pbStage B) t)" using R(1)
  proof
    assume "R = published L B"
    then show ?thesis using R(2) r(1) [where t' = "tornDel f (pbStage B) t" and t = t and L = L] a by simp
  next
    assume "R = untouched L B"
    then show ?thesis using R(2) r(2) [where t' = "tornDel f (pbStage B) t" and t = t and L = L] a by simp
  qed
qed

lemma rest_importsDir:
  assumes "startable L B" "R = published L B \<or> R = untouched L B" "R t"
  shows "get t [importsDir] = Some DirNode"
  using phase_dirs(2) [OF assms(1)] assms(2,3) by (auto simp: committed_def)

lemma safe_removeStage:
  assumes "startable L B" and R: "R = published L B \<or> R = untouched L B" and C: "\<And>t. faulty F \<Longrightarrow> R t \<Longrightarrow> C t"
  shows "safe R (removeStage F (pbStage B)) (\<lambda>_. R) C"
  unfolding removeStage_def stage_dir
proof (rule safe_then [where Q = R])
  show "safe R (io_wrap (\<lambda>e. Wrap ''remove import attempt'' [e]) (RemoveAll F (pbStage B))) (\<lambda>_. R) C"
    by (rule safe_wrap, rule safe_RemoveAll) (use rest_removals [OF assms(1) R] C in auto)
  show "safe R (syncDir F [importsDir]) (\<lambda>_. R) C"
    by (rule safe_syncDir) (use C rest_importsDir [OF assms(1) R] in auto)
qed

lemma safe_retire:
  assumes B: "startable L B" and C: "\<And>t. faulty F \<Longrightarrow> registered L B t \<or> published L B t \<Longrightarrow> C t"
  shows "safe (registered L B) (retire F (pbStage B) (pbFinal B) (pbToken B)) (\<lambda>_. published L B) C"
  unfolding retire_def
proof (rule safe_bind [OF safe_ReadFile])
  let ?R = "registered L B" and ?P = "published L B" and ?m = "pbFinal B @ [ownerMarker]" and ?i = "pbStage B @ [intentFile]"
  let ?PS = "\<lambda>t. ?P t \<and> get t (pbStage B) = Some DirNode"
  note plain = startable_plain [OF B]
  have fin: "get t (pbFinal B) = Some DirNode" if "?R t" for t
    using that accountAt_dir [OF B] by (simp add: registered_def)
  have intent: "\<exists>b. get t ?i = Some (FileNode b)" if "?R t" for t using that by (auto simp: registered_def intentAt_def)
  fix r :: "bytes res"
  have m: "safe (\<lambda>t. ?R t \<and> (case r of Inl e \<Rightarrow> if isNotExist e then get t ?m = None else faulty F \<or> get t ?m = Some DirNode
      | Inr b \<Rightarrow> get t ?m = Some (FileNode b)))
    (case r of Inl _ \<Rightarrow> io_ret () | Inr owner \<Rightarrow> if owner = pbToken B then io_then (Remove F ?m) (syncDir F (pbFinal B)) else io_ret ())
    (\<lambda>_. ?R) C"
  proof (cases r)
    case (Inr owner)
    have "safe (\<lambda>t. ?R t \<and> get t ?m = Some (FileNode owner)) (io_then (Remove F ?m) (syncDir F (pbFinal B))) (\<lambda>_. ?R) C"
    proof (rule safe_then)
      show "safe (\<lambda>t. ?R t \<and> get t ?m = Some (FileNode owner)) (Remove F ?m) (\<lambda>_. ?R) C"
        by (rule safe_Remove') (use C registered_del_marker [OF plain] in auto)
      show "safe ?R (syncDir F (pbFinal B)) (\<lambda>_. ?R) C"
        by (rule safe_syncDir) (use C fin in auto)
    qed
    then show ?thesis using Inr by (auto intro: safe_ret)
  qed (auto intro: safe_ret)
  have i: "safe ?R (attempt (Remove F ?i)) (\<lambda>r' t. case r' of Inl e \<Rightarrow> \<not> isNotExist e \<and> faulty F \<and> ?R t | Inr _ \<Rightarrow> ?PS t) C"
  proof (rule safe_conseq [OF safe_Remove [where P = ?R and Q = ?PS]])
    fix t assume t: "?R t"
    have "get (deltree ?i t) (pbStage B) = Some DirNode" using t by (simp add: registered_def attemptAt_def paths)
    then show "?PS (deltree ?i t)" using registered_del_intent [OF plain t] by simp
  next
    fix x :: "unit res" and t
    assume "case x of Inl e \<Rightarrow> ?R t \<and> (if isNotExist e then get t ?i = None else faulty F \<or> get t ?i = Some DirNode) | Inr _ \<Rightarrow> ?PS t"
    then show "case x of Inl e \<Rightarrow> \<not> isNotExist e \<and> faulty F \<and> ?R t | Inr _ \<Rightarrow> ?PS t"
      using intent [of t] by (auto split: sum.splits if_splits)
  qed (use C in auto)
  have e: "safe ?PS (io_then (syncDir F (pbStage B)) (removeStage F (pbStage B))) (\<lambda>_. ?P) C"
  proof (rule safe_then)
    show "safe ?PS (syncDir F (pbStage B)) (\<lambda>_. ?P) C"
      by (rule safe_conseq [OF safe_syncDir [where P = ?PS]]) (use C in auto)
    show "safe ?P (removeStage F (pbStage B)) (\<lambda>_. ?P) C"
      by (rule safe_removeStage [OF B]) (use C in auto)
  qed
  show "safe (\<lambda>t. ?R t \<and> (case r of Inl e \<Rightarrow> if isNotExist e then get t ?m = None else faulty F \<or> get t ?m = Some DirNode
      | Inr b \<Rightarrow> get t ?m = Some (FileNode b)))
    (io_then (case r of Inl _ \<Rightarrow> io_ret () | Inr owner \<Rightarrow> if owner = pbToken B then io_then (Remove F ?m) (syncDir F (pbFinal B)) else io_ret ())
      (io_bind (attempt (Remove F ?i)) (\<lambda>r'. io_then (case r' of Inl e \<Rightarrow> if isNotExist e then io_ret () else io_fail (Wrap ''retire import intent'' [e])
         | Inr _ \<Rightarrow> io_ret ()) (io_then (syncDir F (pbStage B)) (removeStage F (pbStage B))))))
    (\<lambda>_. ?P) C"
  proof (rule safe_then [OF m], rule safe_bind [OF i], rule safe_then [OF _ e])
    fix r' :: "unit res"
    show "safe (\<lambda>t. case r' of Inl e \<Rightarrow> \<not> isNotExist e \<and> faulty F \<and> ?R t | Inr _ \<Rightarrow> ?PS t)
      (case r' of Inl e \<Rightarrow> if isNotExist e then io_ret () else io_fail (Wrap ''retire import intent'' [e]) | Inr _ \<Rightarrow> io_ret ()) (\<lambda>_. ?PS) C"
      by (cases r') (auto intro!: safe_ret safe_fail C)
  qed
qed (use C in auto)

lemma safe_accounts_stored:
  assumes "\<And>t. P t \<Longrightarrow> stored L accs0 t" "\<And>t. P t \<Longrightarrow> faulty F \<Longrightarrow> C t"
  shows "safe P (accounts L F) (\<lambda>accs t. P t \<and> accs = accs0) C"
  unfolding accounts_def
proof (rule safe_bind [OF safe_ReadFile])
  fix r :: "bytes res"
  let ?P = "\<lambda>t. P t \<and> (case r of Inl e \<Rightarrow> if isNotExist e then get t [accountsFile] = None else faulty F \<or> get t [accountsFile] = Some DirNode
    | Inr b \<Rightarrow> get t [accountsFile] = Some (FileNode b))"
  show "safe ?P (case r of Inl e \<Rightarrow> if isNotExist e then io_ret [] else io_fail (Wrap ''read accounts.json'' [e])
     | Inr raw \<Rightarrow> io_bind (attempt (Lstat F [accountsFile])) (\<lambda>_. io_of (parseAccounts L raw))) (\<lambda>accs t. P t \<and> accs = accs0) C"
  proof (cases r)
    case (Inl e)
    have "C t" if "P t" "get t [accountsFile] = Some DirNode" for t using assms(1) [OF that(1)] that(2) by (simp add: stored_def)
    moreover have "accs0 = []" if "P t" "get t [accountsFile] = None" for t using assms(1) [OF that(1)] that(2) by (simp add: stored_def)
    ultimately show ?thesis using Inl assms(2) by (auto intro!: safe_ret safe_fail)
  next
    case (Inr raw)
    have p: "P t \<Longrightarrow> get t [accountsFile] = Some (FileNode raw) \<Longrightarrow> parseAccounts L raw = Inr accs0" for t
      using assms(1) [of t] by (simp add: stored_def)
    have "safe ?P (attempt (Lstat F [accountsFile])) (\<lambda>_. ?P) C"
      by (rule safe_conseq [OF safe_Lstat [where P = ?P]]) (use assms(2) in auto)
    then show ?thesis unfolding Inr sum.case by (rule safe_bind) (auto intro!: safe_of simp: p)
  qed
qed (use assms(2) in auto)

lemma safe_ReadFile_known:
  assumes "\<And>t. P t \<Longrightarrow> get t p = Some (FileNode b)" "\<And>t. P t \<Longrightarrow> faulty F \<Longrightarrow> C t"
  shows "safe P (ReadFile F p) (\<lambda>raw t. P t \<and> raw = b) C"
  by (rule safe_conseq [OF safe_ReadFile' [where P = P]]) (use assms in fastforce)+

lemma safe_checkStaged:
  assumes "\<And>t. P t \<Longrightarrow> get t (dir @ [ownerMarker]) = Some (FileNode (inToken intent))"
    "\<And>t. P t \<Longrightarrow> get t (dir @ [dbFile]) = Some (FileNode db)" "slDigest L db = inDigest intent"
    "\<And>t. P t \<Longrightarrow> faulty F \<Longrightarrow> C t"
  shows "safe P (checkStaged L F dir intent) (\<lambda>_. P) C"
  unfolding checkStaged_def fileDigest_def
proof (rule safe_bind [OF safe_wrap [OF safe_ReadFile_known]])
  fix owner
  have 1: "safe P (io_bind (io_wrap (\<lambda>e. Wrap ''digest'' [e]) (ReadFile F (dir @ [dbFile]))) (\<lambda>raw. io_ret (slDigest L raw)))
    (\<lambda>digest t. P t \<and> digest = inDigest intent) C"
    by (rule safe_bind [OF safe_wrap [OF safe_ReadFile_known]]) (use assms in \<open>auto intro: safe_ret\<close>)
  have 2: "safe P (io_bind (io_wrap (\<lambda>e. evidence [e]) (io_bind (io_wrap (\<lambda>e. Wrap ''digest'' [e]) (ReadFile F (dir @ [dbFile])))
       (\<lambda>raw. io_ret (slDigest L raw)))) (\<lambda>digest. if digest \<noteq> inDigest intent then io_fail (evidence []) else io_ret ())) (\<lambda>_. P) C"
    by (rule safe_bind [OF safe_wrap [OF 1]]) (auto intro: safe_ret safe_fail)
  show "safe (\<lambda>t. P t \<and> owner = inToken intent)
    (if owner \<noteq> inToken intent then io_fail (evidence []) else io_bind (io_wrap (\<lambda>e. evidence [e]) (io_bind (io_wrap (\<lambda>e. Wrap ''digest'' [e])
       (ReadFile F (dir @ [dbFile]))) (\<lambda>raw. io_ret (slDigest L raw)))) (\<lambda>digest. if digest \<noteq> inDigest intent then io_fail (evidence []) else io_ret ()))
    (\<lambda>_. P) C"
    using 2 by (auto intro: safe_fail elim: safe_pre)
qed (use assms in auto)

lemma safe_locate_known:
  assumes "\<And>t. P t \<Longrightarrow> (if a then get t p = Some DirNode else get t p = None)"
    "\<And>t. P t \<Longrightarrow> get t q = None \<longleftrightarrow> b" "\<And>t. P t \<Longrightarrow> faulty F \<Longrightarrow> C t"
  shows "safe P (locate F p q) (\<lambda>r t. P t \<and> r = (a, b)) C"
proof -
  have 1: "safe P (isDir F p) (\<lambda>r t. P t \<and> r = a) C"
    unfolding isDir_def
  proof (rule safe_bind [OF safe_Lstat])
    fix r :: "node res"
    show "safe (\<lambda>t. P t \<and> (case r of Inl e \<Rightarrow> if isNotExist e then get t p = None else faulty F | Inr n \<Rightarrow> get t p = Some n))
      (case r of Inl e \<Rightarrow> if isNotExist e then io_ret False else io_fail (Wrap ''inspect'' [e])
       | Inr n \<Rightarrow> if n \<noteq> DirNode then io_fail (evidence []) else io_ret True) (\<lambda>r t. P t \<and> r = a) C"
      using assms(1,3) by (cases r) (fastforce intro!: safe_ret safe_fail split: if_splits)+
  qed (use assms(3) in auto)
  show ?thesis unfolding locate_def
  proof (rule safe_bind [OF 1])
    fix d
    show "safe (\<lambda>t. P t \<and> d = a) (io_bind (attempt (Lstat F q)) (\<lambda>r. case r of
       Inl e \<Rightarrow> if isNotExist e then io_ret (d, True) else io_fail (Wrap ''inspect'' [e]) | Inr _ \<Rightarrow> io_ret (d, False)))
       (\<lambda>r t. P t \<and> r = (a, b)) C"
    proof (rule safe_bind [OF safe_Lstat])
      fix r :: "node res"
      show "safe (\<lambda>t. (P t \<and> d = a) \<and> (case r of Inl e \<Rightarrow> if isNotExist e then get t q = None else faulty F | Inr n \<Rightarrow> get t q = Some n))
        (case r of Inl e \<Rightarrow> if isNotExist e then io_ret (d, True) else io_fail (Wrap ''inspect'' [e]) | Inr _ \<Rightarrow> io_ret (d, False))
        (\<lambda>r t. P t \<and> r = (a, b)) C"
        using assms(2,3) by (cases r) (fastforce intro!: safe_ret safe_fail split: if_splits)+
    qed (use assms(3) in auto)
  qed
qed

text \<open>What the random names of a run would be is not in use.\<close>

definition freshNames :: "io_script \<Rightarrow> tree \<Rightarrow> bool" where
  "freshNames F t \<longleftrightarrow> (\<forall>n. get t [accountsFile @ ''.'' @ ioRandom F n] = None)"

lemma alike_tmp: "alike t (put [accountsFile @ ''.'' @ r] n t)" "alike t (deltree [accountsFile @ ''.'' @ r] t)"
proof -
  have "noise p" if "prefix [accountsFile @ ''.'' @ r] p" for p using that unfolding noise_def by blast
  then show "alike t (put [accountsFile @ ''.'' @ r] n t)" "alike t (deltree [accountsFile @ ''.'' @ r] t)"
    unfolding alike_def by (metis get_put prefix_order.refl, metis get_deltree)
qed

lemma moved_tmp:
  assumes "plain_name (aeACI (pbEntry B))" "moved L B t"
  shows "moved L B (put [accountsFile @ ''.'' @ r] n t)" "moved L B (deltree [accountsFile @ ''.'' @ r] t)"
  using assms(2) by (simp_all only: phases_alike(2) [OF assms(1) alike_tmp(1)] phases_alike(2) [OF assms(1) alike_tmp(2)])

lemma moved_written:
  assumes "plain_name (aeACI (pbEntry B))" "moved L B t" "get t [accountsFile @ ''.'' @ r] = Some (FileNode raw)"
    "parseAccounts L raw = Inr (pbAccounts B @ [pbEntry B])"
  shows "registered L B (move [accountsFile @ ''.'' @ r] [accountsFile] t)"
proof (rule moved_register [OF assms(1,2,4)])
  fix p assume "\<not> prefix [accountsFile] p" "\<not> noise p"
  then show "get (move [accountsFile @ ''.'' @ r] [accountsFile] t) p = get t p"
    by (intro get_move_other) (auto simp: noise_def)
qed (use assms(3) in \<open>simp add: get_move\<close>)

text \<open>The scripts that cannot keep a pending publication from being finished: without errors, with unused
  random names and with an encoder that takes the new registry. Where \<open>C\<close> holds of every committed tree
  the script doesn't matter.\<close>

definition finishes :: "store_lib \<Rightarrow> publication \<Rightarrow> io_script \<Rightarrow> (tree \<Rightarrow> bool) \<Rightarrow> tree \<Rightarrow> bool" where
  "finishes L B F C t \<longleftrightarrow> (\<forall>t. committed L B t \<longrightarrow> C t)
     \<or> freshNames F t \<and> slEncodeDoc L \<lparr>adVersion = accountsVersion, adAccounts = pbAccounts B @ [pbEntry B]\<rparr> \<noteq> None"

lemma committedI: "staged L B t \<Longrightarrow> committed L B t" "moved L B t \<Longrightarrow> committed L B t"
  "registered L B t \<Longrightarrow> committed L B t" "published L B t \<Longrightarrow> committed L B t" "pending L B t \<Longrightarrow> committed L B t"
  by (simp_all add: committed_def pending_def)

lemma staged_facts:
  assumes "startable L B" "staged L B t"
  shows "get t (pbStaged B @ [ownerMarker]) = Some (FileNode (pbToken B))"
    "get t (pbStaged B @ [dbFile]) = get (pbTree B) (pbStaged B @ [dbFile])"
    "get t (pbStaged B) = Some DirNode" "get t (pbFinal B) = None" "stored L (pbAccounts B) t" "get t [] = Some DirNode"
  using assms(2) accountAt_dir [OF assms(1), of "pbStaged B" t] phase_dirs(1) [OF assms(1), of t] committedI(1) [OF assms(2)]
  by (auto simp: staged_def markedAt_def accountAt_def nothingAt_def dest: spec [of _ "[]"])

lemma moved_facts:
  assumes "startable L B" "moved L B t"
  shows "get t (pbFinal B @ [ownerMarker]) = Some (FileNode (pbToken B))"
    "get t (pbFinal B @ [dbFile]) = get (pbTree B) (pbStaged B @ [dbFile])"
    "get t (pbFinal B) = Some DirNode" "get t (pbStaged B) = None" "stored L (pbAccounts B) t" "get t [] = Some DirNode"
    "get t (pbStage B) = Some DirNode"
  using assms(2) accountAt_dir [OF assms(1), of "pbFinal B" t] phase_dirs(1) [OF assms(1), of t] committedI(2) [OF assms(2)]
  by (auto simp: moved_def markedAt_def accountAt_def nothingAt_def attemptAt_def dest: spec [of _ "[]"])

lemma safe_register:
  assumes B: "startable L B" and law: "store_laws L" and C: "\<And>t. faulty F \<Longrightarrow> committed L B t \<Longrightarrow> C t"
  shows "safe (\<lambda>t. moved L B t \<and> finishes L B F C t) (registry_write L F (pbAccounts B @ [pbEntry B])) (\<lambda>_. registered L B) C"
proof (cases "slEncodeDoc L \<lparr>adVersion = accountsVersion, adAccounts = pbAccounts B @ [pbEntry B]\<rparr>")
  case None
  then show ?thesis by (auto simp: registry_write_def finishes_def intro!: safe_fail dest: committedI)
next
  case (Some raw)
  have parse: "parseAccounts L (raw @ newline) = Inr (pbAccounts B @ [pbEntry B])"
    using law Some by (simp add: parseAccounts_def store_laws_def)
  note plain = startable_plain [OF B]
  note dirs = phase_dirs [OF B]
  have w: "safe (\<lambda>t. moved L B t \<and> ((\<forall>t. moved L B t \<longrightarrow> C t) \<or> (\<forall>n. get t ([] @ [accountsFile @ ''.'' @ ioRandom F n]) = None)))
      (replaceFile F [] accountsFile (raw @ newline)) (\<lambda>_. registered L B) C"
  proof (rule safe_replaceFile, goal_cases)
    case (1 t r b)
    then show ?case using moved_tmp(1) [OF plain] by simp
  next
    case (2 t r)
    then show ?case using moved_tmp(2) [OF plain] by simp
  next
    case (3 t r)
    then show ?case using moved_written [OF plain _ _ parse] by simp
  next
    case (4 t)
    then show ?case using C by (auto intro: committedI)
  next
    case (5 t)
    then show ?case using C dirs(1) [of t] committedI(3) [of L B t] by auto
  next
    case 6
    have "get t [accountsFile] \<noteq> Some DirNode" if "stored L (pbAccounts B) t" for t using that by (auto simp: stored_def)
    then show ?case using moved_facts(5,6) [OF B] by simp
  qed
  show ?thesis unfolding registry_write_def Some option.case
    by (rule safe_wrap, rule safe_pre [OF w]) (auto simp: finishes_def freshNames_def intro: committedI)
qed

lemma safe_moveStaged_pub:
  assumes B: "startable L B" and C: "\<And>t. faulty F \<Longrightarrow> committed L B t \<Longrightarrow> C t"
  shows "safe (\<lambda>t. staged L B t \<and> finishes L B F C t) (moveStaged L F (pbStage B) (pbStaged B) (pbFinal B) (pbIntent B))
    (\<lambda>_ t. moved L B t \<and> finishes L B F C t) C"
proof -
  let ?S = "\<lambda>t. staged L B t \<and> finishes L B F C t" and ?M = "\<lambda>t. moved L B t \<and> finishes L B F C t"
  note plain = startable_plain [OF B]
  obtain db where db: "get (pbTree B) (pbStaged B @ [dbFile]) = Some (FileNode db)" "slDigest L db = pbDigest B"
    using B by (auto simp: startable_def)
  have 1: "safe ?S (checkStaged L F (pbStaged B) (pbIntent B)) (\<lambda>_. ?S) C"
    by (rule safe_checkStaged [where db = db])
      (use C db staged_facts [OF B] in \<open>auto simp: pbIntent_def intro: committedI(1)\<close>)
  have fresh: "finishes L B F C (move (pbStaged B) (pbFinal B) t)" if "finishes L B F C t" for t
  proof -
    have "get (move (pbStaged B) (pbFinal B) t) [accountsFile @ ''.'' @ r] = get t [accountsFile @ ''.'' @ r]" for r
      by (rule get_move_other) (use plain_names [OF plain] in \<open>auto simp: paths\<close>)
    then show ?thesis using that by (simp add: finishes_def freshNames_def)
  qed
  have 2: "safe ?S (renameNoReplace F (pbStaged B) (pbFinal B)) (\<lambda>_. ?M) C"
    unfolding renameNoReplace_def
  proof (rule safe_syscall)
    fix t :: tree assume S: "?S t"
    have g: "get t (pbStaged B) = Some DirNode" "get t (pbFinal B) = None" "get t (butlast (pbFinal B)) = Some DirNode"
      using S staged_facts [OF B, of t] by (auto simp: paths)
    let ?act = "\<lambda>t. if get t (pbStaged B) = None \<or> get t (butlast (pbFinal B)) \<noteq> Some DirNode then (Inl notExist, t)
      else if get t (pbFinal B) \<noteq> None then (Inl (Opaque ''file exists''), t) else (Inr (), move (pbStaged B) (pbFinal B) t)"
    show "?M t'" if "?act t = (Inr x, t')" for x t'
      using that g S staged_move [OF plain] fresh by auto
    show "C t'" if "?act t = (Inl e, t')" for e t' using that g by auto
  qed (use C in \<open>auto intro: committedI(1)\<close>)
  have 3: "safe ?M (syncBoth F (pbStage B) []) (\<lambda>_. ?M) C"
    by (rule safe_syncBoth) (use C moved_facts [OF B] in \<open>auto intro: committedI(2)\<close>)
  show ?thesis unfolding moveStaged_def by (rule safe_then [OF 1 safe_then [OF 2 3]])
qed

lemma safe_publishAccount:
  assumes B: "startable L B" and law: "store_laws L" and C: "\<And>t. faulty F \<Longrightarrow> committed L B t \<Longrightarrow> C t"
    and new: "collision (pbAccounts B) (pbEntry B) = None"
  shows "safe (\<lambda>t. (staged L B t \<or> moved L B t) \<and> finishes L B F C t)
    (publishAccount L F (pbStage B) (pbStaged B) (pbFinal B) (pbIntent B) (pbAccounts B)) (\<lambda>_. registered L B) C"
proof -
  let ?S = "\<lambda>t. staged L B t \<and> finishes L B F C t" and ?M = "\<lambda>t. moved L B t \<and> finishes L B F C t"
  have E: "inEntry (pbIntent B) = pbEntry B" by (simp add: pbIntent_def)
  obtain db where db: "get (pbTree B) (pbStaged B @ [dbFile]) = Some (FileNode db)" "slDigest L db = pbDigest B"
    using B by (auto simp: startable_def)
  have S: "safe ?S (publishAccount L F (pbStage B) (pbStaged B) (pbFinal B) (pbIntent B) (pbAccounts B)) (\<lambda>_. registered L B) C"
    unfolding publishAccount_def E new option.case
  proof (rule safe_bind [OF safe_locate_known [where a = True and b = True]])
    fix x
    show "safe (\<lambda>t. ?S t \<and> x = (True, True)) (case x of (stagedDir, finalMissing) \<Rightarrow> io_then
       (if stagedDir \<and> finalMissing then moveStaged L F (pbStage B) (pbStaged B) (pbFinal B) (pbIntent B)
        else if \<not> stagedDir \<and> \<not> finalMissing then checkStaged L F (pbFinal B) (pbIntent B) else io_fail (evidence []))
       (registry_write L F (pbAccounts B @ [pbEntry B]))) (\<lambda>_. registered L B) C"
    proof (cases "x = (True, True)")
      case True
      show ?thesis using safe_then [OF safe_moveStaged_pub [OF B C] safe_register [OF B law C]] by (simp add: True)
    qed (simp add: safe_def runs_def)
  qed (use C staged_facts [OF B] in \<open>auto intro: committedI(1)\<close>)
  have c: "safe ?M (checkStaged L F (pbFinal B) (pbIntent B)) (\<lambda>_. ?M) C"
    by (rule safe_checkStaged [where db = db])
      (use C db moved_facts [OF B] in \<open>auto simp: pbIntent_def intro: committedI(2)\<close>)
  have M: "safe ?M (publishAccount L F (pbStage B) (pbStaged B) (pbFinal B) (pbIntent B) (pbAccounts B)) (\<lambda>_. registered L B) C"
    unfolding publishAccount_def E new option.case
  proof (rule safe_bind [OF safe_locate_known [where a = False and b = False]])
    fix x
    show "safe (\<lambda>t. ?M t \<and> x = (False, False)) (case x of (stagedDir, finalMissing) \<Rightarrow> io_then
       (if stagedDir \<and> finalMissing then moveStaged L F (pbStage B) (pbStaged B) (pbFinal B) (pbIntent B)
        else if \<not> stagedDir \<and> \<not> finalMissing then checkStaged L F (pbFinal B) (pbIntent B) else io_fail (evidence []))
       (registry_write L F (pbAccounts B @ [pbEntry B]))) (\<lambda>_. registered L B) C"
    proof (cases "x = (False, False)")
      case True
      show ?thesis using safe_then [OF c safe_register [OF B law C]] by (simp add: True)
    qed (simp add: safe_def runs_def)
  qed (use C moved_facts [OF B] in \<open>auto intro: committedI(2)\<close>)
  show ?thesis by (rule safe_pre [OF safe_or [OF S M]]) auto
qed

lemma safe_rollForward:
  assumes B: "startable L B" and law: "store_laws L" and C: "\<And>t. faulty F \<Longrightarrow> committed L B t \<Longrightarrow> C t"
    and new: "collision (pbAccounts B) (pbEntry B) = None"
  shows "safe (\<lambda>t. pending L B t \<and> finishes L B F C t) (rollForward L F (pbStage B) (pbIntent B)) (\<lambda>_. published L B) C"
proof -
  let ?N = "\<lambda>t. (staged L B t \<or> moved L B t) \<and> finishes L B F C t"
  have I: "inEntry (pbIntent B) = pbEntry B" "inToken (pbIntent B) = pbToken B" "AccountDir (aeACI (pbEntry B)) = pbFinal B"
    "pbStage B @ [aeACI (pbEntry B)] = pbStaged B" by (simp_all add: pbIntent_def pbFinal_def pbStaged_def)
  have out: "pbEntry B \<notin> set (pbAccounts B)" using collision_new [OF new] by auto
  have ret: "safe (registered L B) (retire F (pbStage B) (pbFinal B) (pbToken B)) (\<lambda>_. published L B) C"
    by (rule safe_retire [OF B]) (use C in \<open>auto intro: committedI\<close>)
  have 1: "safe ?N (rollForward L F (pbStage B) (pbIntent B)) (\<lambda>_. published L B) C"
    unfolding rollForward_def Let_def I
  proof (rule safe_bind [OF safe_accounts_stored [where ?accs0.0 = "pbAccounts B"]])
    fix accs
    show "safe (\<lambda>t. ?N t \<and> accs = pbAccounts B) (io_then (if pbEntry B \<in> set accs then io_ret ()
        else publishAccount L F (pbStage B) (pbStaged B) (pbFinal B) (pbIntent B) accs)
        (retire F (pbStage B) (pbFinal B) (pbToken B))) (\<lambda>_. published L B) C"
    proof (cases "accs = pbAccounts B")
      case True
      show ?thesis using safe_then [OF safe_publishAccount [OF B law C new] ret] out by (simp add: True)
    qed (simp add: safe_def runs_def)
  qed (use C staged_facts(5) [OF B] moved_facts(5) [OF B] in \<open>auto intro: committedI(1,2)\<close>)
  have 2: "safe (registered L B) (rollForward L F (pbStage B) (pbIntent B)) (\<lambda>_. published L B) C"
    unfolding rollForward_def Let_def I
  proof (rule safe_bind [OF safe_accounts_stored [where ?accs0.0 = "pbAccounts B @ [pbEntry B]"]])
    fix accs
    show "safe (\<lambda>t. registered L B t \<and> accs = pbAccounts B @ [pbEntry B]) (io_then (if pbEntry B \<in> set accs then io_ret ()
        else publishAccount L F (pbStage B) (pbStaged B) (pbFinal B) (pbIntent B) accs)
        (retire F (pbStage B) (pbFinal B) (pbToken B))) (\<lambda>_. published L B) C"
    proof (cases "accs = pbAccounts B @ [pbEntry B]")
      case True
      have "safe (registered L B) (io_then (io_ret ()) (retire F (pbStage B) (pbFinal B) (pbToken B))) (\<lambda>_. published L B) C"
        by (rule safe_then [OF safe_ret ret])
      then show ?thesis by (simp add: True)
    qed (simp add: safe_def runs_def)
  next
    show "\<And>t. registered L B t \<Longrightarrow> stored L (pbAccounts B @ [pbEntry B]) t" by (simp add: registered_def)
    show "\<And>t. registered L B t \<Longrightarrow> faulty F \<Longrightarrow> C t" using C by (simp add: committedI(3))
  qed
  show ?thesis by (rule safe_pre [OF safe_or [OF 1 2]]) (auto simp: pending_def)
qed

section \<open>Recovery\<close>

text \<open>The other entries of the imports directory are none of ours or belong to running attempts.\<close>

definition othersBusy :: "publication \<Rightarrow> io_script \<Rightarrow> bool" where
  "othersBusy B F \<longleftrightarrow> (\<forall>name. name \<noteq> pbToken B \<and> get (pbTree B) (stageOf name) \<noteq> None \<and> isToken name \<longrightarrow>
     (\<exists>b. get (pbTree B) (stageOf name @ [ownerLockFile]) = Some (FileNode b)) \<and> ioHeld F (stageOf name @ [ownerLockFile]))"

lemma not_owned_other: "plain_name (aeACI (pbEntry B)) \<Longrightarrow> name \<noteq> pbToken B \<Longrightarrow> \<not> owned B (stageOf name @ q)"
  by (auto simp: owned_def paths stageOf_def dest: plain_names)

lemma errors_Is_recoveryError [simp]: "errors_Is (recoveryError e) s \<longleftrightarrow> s = ErrRecoveryRequired \<or> errors_Is e s"
  by (auto simp: recoveryError_def)

lemma errors_Is_notExist [simp]: "errors_Is notExist s \<longleftrightarrow> s = ErrNotExist"
  by (auto simp: notExist_def)

text \<open>An attempt whose owner runs is left alone.\<close>

lemma safe_busy:
  assumes "\<And>t. P t \<Longrightarrow> \<exists>b. get t (stageOf name @ [ownerLockFile]) = Some (FileNode b)" "ioHeld F (stageOf name @ [ownerLockFile])"
    "\<And>t. faulty F \<Longrightarrow> P t \<Longrightarrow> C t"
  shows "safe P (recoverAttempt L F name) (\<lambda>_. P) C"
proof -
  let ?o = "stageOf name @ [ownerLockFile]"
  let ?E = "\<lambda>e t. P t \<and> (errors_Is e ErrWouldBlock \<or> faulty F)"
  have o: "runs P (lockOwner F (stageOf name)) (\<lambda>_ _. False) ?E C"
    unfolding lockOwner_def
  proof (rule runs_bind [where Q = "\<lambda>r t. P t \<and> (\<forall>e. r = Inl e \<longrightarrow> faulty F \<and> \<not> isNotExist e)"])
    show "runs P (attempt (OpenFile F ?o)) (\<lambda>r t. P t \<and> (\<forall>e. r = Inl e \<longrightarrow> faulty F \<and> \<not> isNotExist e)) ?E C"
      unfolding OpenFile_def by (intro runs_attempt runs_syscall) (use assms in \<open>fastforce split: option.splits node.splits\<close>)+
    fix r :: "unit res"
    show "runs (\<lambda>t. P t \<and> (\<forall>e. r = Inl e \<longrightarrow> faulty F \<and> \<not> isNotExist e)) (case r of
       Inl e \<Rightarrow> if isNotExist e then io_bind (attempt (Remove F (stageOf name))) (\<lambda>_. io_fail (Sentinel ErrNothingToRecover)) else io_fail (recoveryError e)
     | Inr _ \<Rightarrow> io_bind (attempt (tryLock F ?o)) (\<lambda>r'. case r' of
         Inl e \<Rightarrow> if errors_Is e ErrWouldBlock then io_fail e else io_fail (recoveryError e) | Inr _ \<Rightarrow> io_ret ())) (\<lambda>_ _. False) ?E C"
    proof (cases r)
      case (Inl e)
      then show ?thesis by (cases "isNotExist e") (auto intro: runs_fail runs_never)
    next
      case (Inr u)
      have "runs P (io_bind (attempt (tryLock F ?o)) (\<lambda>r'. case r' of
         Inl e \<Rightarrow> if errors_Is e ErrWouldBlock then io_fail e else io_fail (recoveryError e) | Inr _ \<Rightarrow> io_ret ())) (\<lambda>_ _. False) ?E C"
      proof (rule runs_bind [where Q = "\<lambda>r' t. case r' of Inl e \<Rightarrow> ?E e t | Inr _ \<Rightarrow> False"])
        show "runs P (attempt (tryLock F ?o)) (\<lambda>r' t. case r' of Inl e \<Rightarrow> ?E e t | Inr _ \<Rightarrow> False) ?E C"
          unfolding tryLock_def by (intro runs_attempt runs_syscall) (use assms in auto)
        show "runs (\<lambda>t. case r' of Inl e \<Rightarrow> ?E e t | Inr _ \<Rightarrow> False) (case r' of
           Inl e \<Rightarrow> if errors_Is e ErrWouldBlock then io_fail e else io_fail (recoveryError e) | Inr _ \<Rightarrow> io_ret ()) (\<lambda>_ _. False) ?E C" for r' :: "unit res"
          by (cases r') (auto intro: runs_fail runs_ret)
      qed
      then show ?thesis unfolding Inr sum.case by (rule runs_conseq) auto
    qed
  qed
  have a: "safe P (attempt (lockOwner F (stageOf name))) (\<lambda>r t. case r of Inl e \<Rightarrow> ?E e t | Inr _ \<Rightarrow> False) C"
    unfolding safe_def by (rule runs_attempt, rule runs_conseq [OF o]) auto
  show ?thesis
  proof (cases "isToken name")
    case True
    have tok: "(\<not> isToken name) = False" using True by simp
    show ?thesis unfolding recoverAttempt_def Let_def tok if_False
    proof (rule safe_bind [OF a], goal_cases)
      case (1 r)
      show ?case using assms(3) by (cases r) (auto intro: safe_ret safe_fail safe_never)
    qed
  qed (simp add: recoverAttempt_def safe_ret)
qed

text \<open>A pending attempt is finished, one at rest only cleaned up.\<close>

lemma lockOwner_pending:
  assumes "startable L B" "\<not> ioHeld F (pbStage B @ [ownerLockFile])" "\<And>t. faulty F \<Longrightarrow> committed L B t \<Longrightarrow> C t"
    and P: "\<And>t. P t \<Longrightarrow> pending L B t"
  shows "safe P (attempt (lockOwner F (pbStage B))) (\<lambda>r t. P t \<and> (case r of
     Inl e \<Rightarrow> faulty F \<and> \<not> errors_Is e ErrWouldBlock \<and> \<not> errors_Is e ErrNothingToRecover | Inr _ \<Rightarrow> True)) C"
proof -
  let ?o = "pbStage B @ [ownerLockFile]"
  let ?E = "\<lambda>e t. P t \<and> faulty F \<and> \<not> errors_Is e ErrWouldBlock \<and> \<not> errors_Is e ErrNothingToRecover"
  have own: "\<exists>b. get t ?o = Some (FileNode b)" if "P t" for t
    using P [OF that] by (auto simp: pending_def staged_def moved_def registered_def attemptAt_def)
  have C: "\<And>t. faulty F \<Longrightarrow> P t \<Longrightarrow> C t" using assms(3) P by (auto intro: committedI)
  have "runs P (lockOwner F (pbStage B)) (\<lambda>_. P) ?E C"
    unfolding lockOwner_def
  proof (rule runs_bind [where Q = "\<lambda>r t. P t \<and> (\<forall>e. r = Inl e \<longrightarrow> faulty F \<and> (\<forall>s. \<not> errors_Is e s))"])
    show "runs P (attempt (OpenFile F ?o)) (\<lambda>r t. P t \<and> (\<forall>e. r = Inl e \<longrightarrow> faulty F \<and> (\<forall>s. \<not> errors_Is e s))) ?E C"
      unfolding OpenFile_def by (intro runs_attempt runs_syscall) (use own C in \<open>fastforce split: option.splits node.splits\<close>)+
    fix r :: "unit res"
    show "runs (\<lambda>t. P t \<and> (\<forall>e. r = Inl e \<longrightarrow> faulty F \<and> (\<forall>s. \<not> errors_Is e s))) (case r of
       Inl e \<Rightarrow> if isNotExist e then io_bind (attempt (Remove F (pbStage B))) (\<lambda>_. io_fail (Sentinel ErrNothingToRecover)) else io_fail (recoveryError e)
     | Inr _ \<Rightarrow> io_bind (attempt (tryLock F ?o)) (\<lambda>r'. case r' of
         Inl e \<Rightarrow> if errors_Is e ErrWouldBlock then io_fail e else io_fail (recoveryError e) | Inr _ \<Rightarrow> io_ret ())) (\<lambda>_. P) ?E C"
    proof (cases r)
      case (Inl e)
      then show ?thesis by (cases "isNotExist e") (auto intro: runs_fail runs_never simp: isNotExist_def)
    next
      case (Inr u)
      have "runs P (io_bind (attempt (tryLock F ?o)) (\<lambda>r'. case r' of
         Inl e \<Rightarrow> if errors_Is e ErrWouldBlock then io_fail e else io_fail (recoveryError e) | Inr _ \<Rightarrow> io_ret ())) (\<lambda>_. P) ?E C"
      proof (rule runs_bind [where Q = "\<lambda>r' t. P t \<and> (\<forall>e. r' = Inl e \<longrightarrow> faulty F \<and> (\<forall>s. \<not> errors_Is e s))"])
        show "runs P (attempt (tryLock F ?o)) (\<lambda>r' t. P t \<and> (\<forall>e. r' = Inl e \<longrightarrow> faulty F \<and> (\<forall>s. \<not> errors_Is e s))) ?E C"
          unfolding tryLock_def by (intro runs_attempt runs_syscall) (use assms(2) C in auto)
        show "runs (\<lambda>t. P t \<and> (\<forall>e. r' = Inl e \<longrightarrow> faulty F \<and> (\<forall>s. \<not> errors_Is e s))) (case r' of
           Inl e \<Rightarrow> if errors_Is e ErrWouldBlock then io_fail e else io_fail (recoveryError e) | Inr _ \<Rightarrow> io_ret ()) (\<lambda>_. P) ?E C" for r' :: "unit res"
          by (cases r') (auto intro!: runs_fail runs_ret)
      qed
      then show ?thesis unfolding Inr sum.case by (rule runs_conseq) auto
    qed
  qed
  then show ?thesis unfolding safe_def by (intro runs_attempt) (erule runs_conseq; auto)
qed

lemma readIntent_pending:
  assumes "\<And>t. faulty F \<Longrightarrow> committed L B t \<Longrightarrow> C t" and P: "\<And>t. P t \<Longrightarrow> pending L B t"
  shows "safe P (attempt (readIntent L F (pbStage B))) (\<lambda>r t. P t \<and> (case r of Inl e \<Rightarrow> faulty F \<and> \<not> isNotExist e | Inr i \<Rightarrow> i = pbIntent B)) C"
proof -
  have int: "intentAt L B t" if "P t" for t using P [OF that] by (auto simp: pending_def staged_def moved_def registered_def)
  have C: "\<And>t. faulty F \<Longrightarrow> P t \<Longrightarrow> C t" using assms by (auto intro: committedI)
  let ?E = "\<lambda>e t. P t \<and> faulty F \<and> \<not> isNotExist e"
  have "runs P (readIntent L F (pbStage B)) (\<lambda>i t. P t \<and> i = pbIntent B) ?E C"
    unfolding readIntent_def
  proof (rule runs_bind [where Q = "\<lambda>raw t. P t \<and> slDecodeIntent L raw = Some (pbIntent B)"])
    show "runs P (ReadFile F (pbStage B @ [intentFile])) (\<lambda>raw t. P t \<and> slDecodeIntent L raw = Some (pbIntent B)) ?E C"
      unfolding ReadFile_def by (rule runs_syscall) (use int C in \<open>fastforce simp: intentAt_def split: option.splits node.splits\<close>)+
    show "runs (\<lambda>t. P t \<and> slDecodeIntent L raw = Some (pbIntent B))
      (case slDecodeIntent L raw of None \<Rightarrow> io_fail (Opaque ''parse intent.json'') | Some intent \<Rightarrow> io_ret intent)
      (\<lambda>i t. P t \<and> i = pbIntent B) ?E C" for raw
      by (cases "slDecodeIntent L raw") (auto intro: runs_ret runs_never)
  qed
  then show ?thesis unfolding safe_def by (intro runs_attempt) (erule runs_conseq; auto)
qed

lemma safe_recover_pending:
  assumes B: "startable L B" and law: "store_laws L" and C: "\<And>t. faulty F \<Longrightarrow> committed L B t \<Longrightarrow> C t"
    and new: "collision (pbAccounts B) (pbEntry B) = None" and free: "\<not> ioHeld F (pbStage B @ [ownerLockFile])"
  shows "safe (\<lambda>t. pending L B t \<and> finishes L B F C t) (recoverAttempt L F (pbToken B)) (\<lambda>_. published L B) C"
proof -
  let ?P = "\<lambda>t. pending L B t \<and> finishes L B F C t"
  have tok: "(\<not> isToken (pbToken B)) = False" using B by (simp add: startable_def)
  have I: "inVersion (pbIntent B) = intentVersion" "inToken (pbIntent B) = pbToken B" by (simp_all add: pbIntent_def)
  have CP: "\<And>t. ?P t \<Longrightarrow> faulty F \<Longrightarrow> C t" using C by (auto intro: committedI)
  have after: "safe (\<lambda>t. ?P t \<and> (case i of Inl e \<Rightarrow> faulty F \<and> \<not> isNotExist e | Inr i \<Rightarrow> i = pbIntent B)) (case i of
         Inl e \<Rightarrow> if isNotExist e then removeStage F (pbStage B) else io_fail (recoveryError e)
       | Inr intent \<Rightarrow> if inVersion intent \<noteq> intentVersion \<or> inToken intent \<noteq> pbToken B then io_fail (recoveryError (evidence []))
           else io_wrap recoveryError (rollForward L F (pbStage B) intent)) (\<lambda>_. published L B) C" for i
  proof (cases i)
    case (Inl e)
    then show ?thesis using CP by (cases "isNotExist e") (auto intro: safe_fail safe_never)
  next
    case (Inr intent)
    then show ?thesis using safe_wrap [OF safe_rollForward [OF B law C new]] I
      by (cases "intent = pbIntent B") (auto intro: safe_never)
  qed
  show ?thesis unfolding recoverAttempt_def Let_def pbStage_def [symmetric] tok if_False
  proof (rule safe_bind [OF lockOwner_pending [OF B free C, where P = ?P]])
    fix r :: "unit res"
    let ?rest = "io_bind (attempt (readIntent L F (pbStage B))) (\<lambda>i. case i of
         Inl e \<Rightarrow> if isNotExist e then removeStage F (pbStage B) else io_fail (recoveryError e)
       | Inr intent \<Rightarrow> if inVersion intent \<noteq> intentVersion \<or> inToken intent \<noteq> pbToken B then io_fail (recoveryError (evidence []))
           else io_wrap recoveryError (rollForward L F (pbStage B) intent))"
    show "safe (\<lambda>t. ?P t \<and> (case r of Inl e \<Rightarrow> faulty F \<and> \<not> errors_Is e ErrWouldBlock \<and> \<not> errors_Is e ErrNothingToRecover | Inr _ \<Rightarrow> True))
      (case r of Inl e \<Rightarrow> if errors_Is e ErrWouldBlock \<or> errors_Is e ErrNothingToRecover then io_ret () else io_fail e | Inr _ \<Rightarrow> ?rest)
      (\<lambda>_. published L B) C"
    proof (cases r)
      case (Inl e)
      then show ?thesis using CP
        by (cases "errors_Is e ErrWouldBlock \<or> errors_Is e ErrNothingToRecover") (auto intro: safe_fail safe_never)
    next
      case (Inr u)
      have "safe ?P ?rest (\<lambda>_. published L B) C"
        by (rule safe_bind [OF readIntent_pending [OF C, where P = ?P] after]) simp_all
      then show ?thesis unfolding Inr sum.case by (rule safe_pre) simp
    qed
  qed simp_all
qed

lemma rest_deltree_stage:
  assumes "startable L B" and R: "R = published L B \<or> R = untouched L B" "R t"
  shows "R (deltree (pbStage B) t)"
  by (rule rest_removals(1) [OF assms])

lemma safe_recover_rest:
  assumes B: "startable L B" and R: "R = published L B \<or> R = untouched L B" and C: "\<And>t. faulty F \<Longrightarrow> R t \<Longrightarrow> C t"
  shows "safe R (recoverAttempt L F (pbToken B)) (\<lambda>_. R) C"
proof -
  let ?o = "pbStage B @ [ownerLockFile]"
  let ?E = "\<lambda>e t. R t \<and> (faulty F \<or> errors_Is e ErrWouldBlock \<or> errors_Is e ErrNothingToRecover)"
  have tok: "(\<not> isToken (pbToken B)) = False" using B by (simp add: startable_def)
  have rest: "atRest B t" if "R t" for t using R that by (auto simp: published_def untouched_def)
  have o: "runs R (lockOwner F (pbStage B)) (\<lambda>_. R) ?E C"
    unfolding lockOwner_def
  proof (rule runs_bind [where Q = "\<lambda>r t. R t \<and> (\<forall>e. r = Inl e \<longrightarrow> isNotExist e \<or> faulty F)"])
    show "runs R (attempt (OpenFile F ?o)) (\<lambda>r t. R t \<and> (\<forall>e. r = Inl e \<longrightarrow> isNotExist e \<or> faulty F)) ?E C"
      unfolding OpenFile_def
      by (intro runs_attempt runs_syscall) (use rest C in \<open>fastforce simp: atRest_def split: option.splits node.splits\<close>)+
    fix r :: "unit res"
    show "runs (\<lambda>t. R t \<and> (\<forall>e. r = Inl e \<longrightarrow> isNotExist e \<or> faulty F)) (case r of
       Inl e \<Rightarrow> if isNotExist e then io_bind (attempt (Remove F (pbStage B))) (\<lambda>_. io_fail (Sentinel ErrNothingToRecover)) else io_fail (recoveryError e)
     | Inr _ \<Rightarrow> io_bind (attempt (tryLock F ?o)) (\<lambda>r'. case r' of
         Inl e \<Rightarrow> if errors_Is e ErrWouldBlock then io_fail e else io_fail (recoveryError e) | Inr _ \<Rightarrow> io_ret ())) (\<lambda>_. R) ?E C"
    proof (cases r)
      case (Inl e)
      have "runs R (io_bind (attempt (Remove F (pbStage B))) (\<lambda>_. io_fail (Sentinel ErrNothingToRecover))) (\<lambda>_. R) ?E C"
      proof (rule runs_bind [where Q = "\<lambda>_. R"])
        show "runs R (attempt (Remove F (pbStage B))) (\<lambda>_. R) ?E C" unfolding Remove_def
          by (intro runs_attempt runs_syscall) (use C rest_deltree_stage [OF B R] in \<open>auto split: if_splits\<close>)
      qed (auto intro: runs_fail)
      then show ?thesis using Inl
        by (cases "isNotExist e") (auto intro: runs_fail)
    next
      case (Inr u)
      have "runs R (io_bind (attempt (tryLock F ?o)) (\<lambda>r'. case r' of
         Inl e \<Rightarrow> if errors_Is e ErrWouldBlock then io_fail e else io_fail (recoveryError e) | Inr _ \<Rightarrow> io_ret ())) (\<lambda>_. R) ?E C"
      proof (rule runs_bind [where Q = "\<lambda>r' t. R t \<and> (\<forall>e. r' = Inl e \<longrightarrow> faulty F \<or> errors_Is e ErrWouldBlock)"])
        show "runs R (attempt (tryLock F ?o)) (\<lambda>r' t. R t \<and> (\<forall>e. r' = Inl e \<longrightarrow> faulty F \<or> errors_Is e ErrWouldBlock)) ?E C"
          unfolding tryLock_def by (intro runs_attempt runs_syscall) (use C in \<open>auto split: if_splits\<close>)
        show "runs (\<lambda>t. R t \<and> (\<forall>e. r' = Inl e \<longrightarrow> faulty F \<or> errors_Is e ErrWouldBlock)) (case r' of
           Inl e \<Rightarrow> if errors_Is e ErrWouldBlock then io_fail e else io_fail (recoveryError e) | Inr _ \<Rightarrow> io_ret ()) (\<lambda>_. R) ?E C" for r' :: "unit res"
          by (cases r') (auto intro!: runs_fail runs_ret)
      qed
      then show ?thesis unfolding Inr sum.case by (rule runs_conseq) auto
    qed
  qed
  have a: "safe R (attempt (lockOwner F (pbStage B))) (\<lambda>r t. case r of Inl e \<Rightarrow> ?E e t | Inr _ \<Rightarrow> R t) C"
    unfolding safe_def by (rule runs_attempt, rule runs_conseq [OF o]) auto
  have i: "safe R (attempt (readIntent L F (pbStage B))) (\<lambda>r t. R t \<and> (\<exists>e. r = Inl e \<and> (isNotExist e \<or> faulty F))) C"
  proof -
    have "runs R (readIntent L F (pbStage B)) (\<lambda>_ _. False) (\<lambda>e t. R t \<and> (isNotExist e \<or> faulty F)) C"
      unfolding readIntent_def
    proof (rule runs_bind [where Q = "\<lambda>_ _. False"])
      show "runs R (ReadFile F (pbStage B @ [intentFile])) (\<lambda>_ _. False) (\<lambda>e t. R t \<and> (isNotExist e \<or> faulty F)) C"
        unfolding ReadFile_def by (rule runs_syscall) (use rest C in \<open>fastforce simp: atRest_def split: option.splits\<close>)+
    qed (rule runs_never, simp)
    then show ?thesis unfolding safe_def by (intro runs_attempt) (erule runs_conseq; auto)
  qed
  show ?thesis unfolding recoverAttempt_def Let_def pbStage_def [symmetric] tok if_False
  proof (rule safe_bind [OF a])
    fix r :: "unit res"
    let ?rest = "io_bind (attempt (readIntent L F (pbStage B))) (\<lambda>i. case i of
         Inl e \<Rightarrow> if isNotExist e then removeStage F (pbStage B) else io_fail (recoveryError e)
       | Inr intent \<Rightarrow> if inVersion intent \<noteq> intentVersion \<or> inToken intent \<noteq> pbToken B then io_fail (recoveryError (evidence []))
           else io_wrap recoveryError (rollForward L F (pbStage B) intent))"
    show "safe (\<lambda>t. case r of Inl e \<Rightarrow> ?E e t | Inr _ \<Rightarrow> R t)
      (case r of Inl e \<Rightarrow> if errors_Is e ErrWouldBlock \<or> errors_Is e ErrNothingToRecover then io_ret () else io_fail e | Inr _ \<Rightarrow> ?rest) (\<lambda>_. R) C"
    proof (cases r)
      case (Inl e)
      then show ?thesis using C by (auto intro!: safe_ret safe_fail)
    next
      case (Inr u)
      have "safe R ?rest (\<lambda>_. R) C"
      proof (rule safe_bind [OF i])
        fix x :: "importIntent res"
        show "safe (\<lambda>t. R t \<and> (\<exists>e. x = Inl e \<and> (isNotExist e \<or> faulty F))) (case x of
            Inl e \<Rightarrow> if isNotExist e then removeStage F (pbStage B) else io_fail (recoveryError e)
          | Inr intent \<Rightarrow> if inVersion intent \<noteq> intentVersion \<or> inToken intent \<noteq> pbToken B then io_fail (recoveryError (evidence []))
              else io_wrap recoveryError (rollForward L F (pbStage B) intent)) (\<lambda>_. R) C"
        proof (cases x)
          case (Inl e)
          have rm: "safe R (removeStage F (pbStage B)) (\<lambda>_. R) C" by (rule safe_removeStage [OF B R C])
          show ?thesis unfolding Inl sum.case
            by (cases "isNotExist e") (auto intro: safe_pre [OF rm] safe_fail C)
        qed (auto intro: safe_never)
      qed
      then show ?thesis unfolding Inr sum.case .
    qed
  qed
qed

text \<open>The loop over all attempts: \<open>P\<close> until the attempt of the publication was looked at, \<open>Q\<close> afterwards.\<close>

lemma safe_recover_loop:
  assumes B: "startable L B" and busy: "othersBusy B F"
    and P: "\<And>t. P t \<Longrightarrow> framed B t" and Q: "\<And>t. Q t \<Longrightarrow> framed B t" and C: "\<And>t. faulty F \<Longrightarrow> P t \<or> Q t \<Longrightarrow> C t"
    and PQ: "safe P (recoverAttempt L F (pbToken B)) (\<lambda>_. Q) C" and QQ: "safe Q (recoverAttempt L F (pbToken B)) (\<lambda>_. Q) C"
    and names: "\<forall>name\<in>set names. name \<noteq> pbToken B \<longrightarrow> get (pbTree B) (stageOf name) \<noteq> None"
  shows "safe (\<lambda>t. (if pbToken B \<in> set names then P t else Q t)) (recover_loop L F names) (\<lambda>_. Q) C
    \<and> safe Q (recover_loop L F names) (\<lambda>_. Q) C"
  using names
proof (induction names)
  case Nil
  then show ?case by (auto intro: safe_ret)
next
  case (Cons name names)
  show ?case
  proof (cases "name = pbToken B")
    case True
    have "safe P (recover_loop L F (name # names)) (\<lambda>_. Q) C"
      using Cons safe_then [OF PQ] by (auto simp: True)
    moreover have "safe Q (recover_loop L F (name # names)) (\<lambda>_. Q) C"
      using Cons safe_then [OF QQ] by (auto simp: True)
    ultimately show ?thesis by (simp add: True)
  next
    case False
    have g: "get (pbTree B) (stageOf name) \<noteq> None" using Cons.prems False by simp
    have inert: "safe X (recoverAttempt L F name) (\<lambda>_. X) C" if X: "\<And>t. X t \<Longrightarrow> framed B t" "\<And>t. faulty F \<Longrightarrow> X t \<Longrightarrow> C t" for X
    proof (cases "isToken name")
      case True
      then obtain b where b: "get (pbTree B) (stageOf name @ [ownerLockFile]) = Some (FileNode b)" "ioHeld F (stageOf name @ [ownerLockFile])"
        using busy g False by (auto simp: othersBusy_def)
      have "get t (stageOf name @ [ownerLockFile]) = Some (FileNode b)" if "X t" for t
        using X(1) [OF that] not_owned_other [OF startable_plain [OF B] False] b(1) by (simp add: framed_def)
      then show ?thesis using b(2) X(2) by (intro safe_busy) auto
    qed (simp add: recoverAttempt_def safe_ret)
    have IH: "safe (\<lambda>t. if pbToken B \<in> set names then P t else Q t) (recover_loop L F names) (\<lambda>_. Q) C"
      "safe Q (recover_loop L F names) (\<lambda>_. Q) C" using Cons by auto
    have i: "safe (\<lambda>t. if pbToken B \<in> set names then P t else Q t) (recoverAttempt L F name)
        (\<lambda>_ t. if pbToken B \<in> set names then P t else Q t) C"
      by (rule inert) (use P Q C in \<open>auto split: if_splits\<close>)
    have "safe Q (recoverAttempt L F name) (\<lambda>_. Q) C" by (rule inert) (use Q C in auto)
    then show ?thesis using safe_then [OF i IH(1)] safe_then [OF _ IH(2)] False by auto
  qed
qed

lemma alike_removed: "alike t (deltree (removedDir # p) t)" "alike t (tornDel f (removedDir # p) t)"
proof -
  have n: "noise q" if "prefix (removedDir # p) q" for q using that by (cases q) (auto simp: noise_def)
  show "alike t (deltree (removedDir # p) t)" unfolding alike_def by (metis get_deltree n)
  show "alike t (tornDel f (removedDir # p) t)" unfolding alike_def by (metis get_tornDel_outside n)
qed

lemma fresh_removals: "freshNames F t \<Longrightarrow> freshNames F (deltree p t)" "freshNames F t \<Longrightarrow> freshNames F (tornDel f p t)"
  using get_tornDel_cases [of f p t] by (simp_all add: freshNames_def) metis

lemma safe_cleanRemoved:
  assumes "\<And>t p. P t \<Longrightarrow> P (deltree (removedDir # p) t)" "\<And>t f p. P t \<Longrightarrow> faulty F \<Longrightarrow> C (tornDel f (removedDir # p) t) \<and> P (tornDel f (removedDir # p) t)"
    and C: "\<And>t. P t \<Longrightarrow> faulty F \<Longrightarrow> C t"
  shows "safe P (cleanRemoved F) (\<lambda>_. P) C"
proof -
  have one: "safe P (attempt (RemoveAll F (removedDir # p))) (\<lambda>_. P) C" for p
    unfolding RemoveAll_def by (rule safe_try_syscall) (use assms in auto)
  have each: "safe P (removeEach F (map (\<lambda>n. [removedDir, n]) names)) (\<lambda>_. P) C" for names
    by (induction names) (auto intro!: safe_ret safe_bind [OF one])
  show ?thesis unfolding cleanRemoved_def
  proof (rule safe_bind [where Q = "\<lambda>_. P"])
    show "safe P (attempt (ReadDir F [removedDir])) (\<lambda>_. P) C" by (rule safe_conseq [OF safe_ReadDir [where P = P]]) (use C in auto)
    show "safe P (case r of Inl _ \<Rightarrow> io_ret () | Inr names \<Rightarrow> removeEach F (map (\<lambda>n. [removedDir, n]) names)) (\<lambda>_. P) C" for r :: "string list res"
      using each by (cases r) (auto intro: safe_ret)
  qed
qed

text \<open>Recovery as a whole, from \<open>P\<close> to \<open>Q\<close>, where a tree with \<open>P\<close> has the attempt's directory.\<close>

lemma safe_recover:
  assumes B: "startable L B" and busy: "othersBusy B F"
    and P: "\<And>t. P t \<Longrightarrow> framed B t \<and> (get t (pbStage B) \<noteq> None \<or> Q t)" and Q: "\<And>t. Q t \<Longrightarrow> framed B t" and C: "\<And>t. faulty F \<Longrightarrow> P t \<or> Q t \<Longrightarrow> C t"
    and PQ: "safe P (recoverAttempt L F (pbToken B)) (\<lambda>_. Q) C" and QQ: "safe Q (recoverAttempt L F (pbToken B)) (\<lambda>_. Q) C"
    and P_rem: "\<And>t p. P t \<Longrightarrow> P (deltree (removedDir # p) t)" "\<And>t f p. P t \<Longrightarrow> P (tornDel f (removedDir # p) t)"
  shows "safe P (recover L F) (\<lambda>_. Q) C"
  unfolding recover_def
proof (rule safe_then [where Q = P])
  show "safe P (cleanRemoved F) (\<lambda>_. P) C" by (rule safe_cleanRemoved) (use P_rem C in auto)
  show "safe P (io_bind (attempt (ReadDir F [importsDir])) (\<lambda>r. case r of
     Inl e \<Rightarrow> if isNotExist e then io_ret () else io_fail (recoveryError e) | Inr names \<Rightarrow> recover_loop L F names)) (\<lambda>_. Q) C"
  proof (rule safe_bind [OF safe_ReadDir])
    fix r :: "string list res"
    let ?D = "\<lambda>t. P t \<and> (case r of Inl e \<Rightarrow> if isNotExist e then get t [importsDir] = None else faulty F \<or> (\<exists>b. get t [importsDir] = Some (FileNode b))
        | Inr ns \<Rightarrow> get t [importsDir] = Some DirNode \<and> ns = children [importsDir] t)"
    have dir: "get t [importsDir] = Some DirNode" if "P t" for t using framed_dirs [OF B] P [OF that] by blast
    show "safe ?D (case r of Inl e \<Rightarrow> if isNotExist e then io_ret () else io_fail (recoveryError e) | Inr names \<Rightarrow> recover_loop L F names) (\<lambda>_. Q) C"
    proof (cases r)
      case (Inl e)
      have "\<not> (P t \<and> get t [importsDir] = None)" "P t \<Longrightarrow> faulty F \<or> (\<exists>b. get t [importsDir] = Some (FileNode b)) \<Longrightarrow> C t" for t
        using dir [of t] C [of t] by auto
      then show ?thesis unfolding Inl sum.case
        by (cases "isNotExist e") (simp_all only: if_True if_False, rule safe_never, blast, rule safe_fail, blast)
    next
      case (Inr names)
      show ?thesis
      proof (cases "\<exists>t. ?D t")
        case True
        then obtain t where t: "P t" "names = children [importsDir] t" by (auto simp: Inr)
        have f: "framed B t" using P [OF t(1)] by blast
        have g: "\<forall>name\<in>set names. name \<noteq> pbToken B \<longrightarrow> get (pbTree B) (stageOf name) \<noteq> None"
          using f not_owned_other [OF startable_plain [OF B], where q = "[]"]
          by (auto simp: t(2) set_children framed_def stageOf_def)
        note L = safe_recover_loop [OF B busy _ Q C PQ QQ g]
        have tok: "pbToken B \<in> set names \<longleftrightarrow> get t' (pbStage B) \<noteq> None" if "?D t'" for t'
          using that by (auto simp: Inr set_children paths)
        show ?thesis unfolding Inr sum.case
        proof (rule safe_pre [OF safe_or [OF L [THEN conjunct1] L [THEN conjunct2]]])
          fix t' assume "P t' \<and> get t' [importsDir] = Some DirNode \<and> names = children [importsDir] t'"
          then have "?D t'" by (simp add: Inr)
          then show "(if pbToken B \<in> set names then P t' else Q t') \<or> Q t'" using tok [of t'] P [of t'] by presburger
        qed (simp_all add: P)
      qed (auto intro: safe_never simp: Inr)
    qed
  qed (use C in auto)
qed

section \<open>Registry operations on a publication\<close>

lemma phase_framed: "committed L B t \<Longrightarrow> framed B t" "untouched L B t \<Longrightarrow> framed B t"
  by (auto simp: committed_def pending_def staged_def moved_def registered_def published_def untouched_def)

lemma pending_stage: "pending L B t \<Longrightarrow> get t (pbStage B) \<noteq> None"
  by (auto simp: pending_def staged_def moved_def registered_def attemptAt_def)

lemma finishes_mono: "(freshNames F t \<Longrightarrow> freshNames F t') \<Longrightarrow> finishes L B F C t \<Longrightarrow> finishes L B F C t'"
  by (auto simp: finishes_def)

lemma alike_lock: "alike t (put [registryLockFile] n t)"
  by (auto simp: alike_def noise_def)

lemma fresh_lock: "freshNames F t \<Longrightarrow> freshNames F (put [registryLockFile] n t)"
  by (simp add: freshNames_def file_names)

lemma safe_lockRegistry:
  assumes "\<And>t n. P t \<Longrightarrow> P (put [registryLockFile] n t)" "\<And>t. P t \<Longrightarrow> get t [] = Some DirNode"
    "\<And>t. P t \<Longrightarrow> faulty F \<or> ioHeld F [registryLockFile] \<Longrightarrow> C t"
  shows "safe (\<lambda>t. P t \<and> (get t [registryLockFile] \<noteq> Some DirNode \<or> (\<forall>t. P t \<longrightarrow> C t))) (lockRegistry F) (\<lambda>_. P) C"
  unfolding lockRegistry_def OpenCreate_def tryLock_def
  by (rule safe_then [where Q = P]; rule safe_wrap, rule safe_syscall)
    (use assms in \<open>auto simp: addNode_def split: option.splits node.splits if_splits\<close>)

definition active :: "store_lib \<Rightarrow> publication \<Rightarrow> io_script \<Rightarrow> (tree \<Rightarrow> bool) \<Rightarrow> tree \<Rightarrow> bool" where
  "active L B F C t \<longleftrightarrow> pending L B t \<and> finishes L B F C t \<or> published L B t"

lemma active_committed: "active L B F C t \<Longrightarrow> committed L B t"
  by (auto simp: active_def committed_def)

lemma active_alike:
  assumes "startable L B" "active L B F C t" "alike t t'" "freshNames F t \<Longrightarrow> freshNames F t'"
  shows "active L B F C t'"
  using assms(2,4) phases_alike [OF startable_plain [OF assms(1)] assms(3)]
  by (auto simp: active_def intro: finishes_mono)

text \<open>Listing the accounts finishes a publication that was committed.\<close>

lemma safe_Accounts_committed:
  assumes B: "startable L B" and law: "store_laws L" and new: "collision (pbAccounts B) (pbEntry B) = None"
    and busy: "othersBusy B F" and free: "\<not> ioHeld F (pbStage B @ [ownerLockFile])"
    and C: "\<And>t. faulty F \<or> ioHeld F [registryLockFile] \<Longrightarrow> committed L B t \<Longrightarrow> C t"
  shows "safe (\<lambda>t. active L B F C t \<and> (get t [registryLockFile] \<noteq> Some DirNode \<or> (\<forall>t. committed L B t \<longrightarrow> C t))) (Accounts L F)
    (\<lambda>accs t. published L B t \<and> accs = pbAccounts B @ [pbEntry B]) C"
  unfolding Accounts_def withRegistry_def
proof (rule safe_then [OF safe_pre [OF safe_lockRegistry [where P = "active L B F C"]] safe_then])
  have rest: "safe (published L B) (recoverAttempt L F (pbToken B)) (\<lambda>_. published L B) C"
    by (rule safe_recover_rest [OF B]) (use C in \<open>auto intro: committedI\<close>)
  show "safe (active L B F C) (recover L F) (\<lambda>_. published L B) C"
  proof (rule safe_recover [OF B busy])
    show "safe (active L B F C) (recoverAttempt L F (pbToken B)) (\<lambda>_. published L B) C"
      by (rule safe_pre [OF safe_or [OF safe_recover_pending [OF B law _ new free] rest]]) (use C in \<open>auto simp: active_def\<close>)
    show "safe (published L B) (recoverAttempt L F (pbToken B)) (\<lambda>_. published L B) C" by (rule rest)
    show "framed B t \<and> (get t (pbStage B) \<noteq> None \<or> published L B t)" if "active L B F C t" for t
      using that phase_framed(1) [OF active_committed [OF that]] pending_stage [of L B t] by (auto simp: active_def)
    show "framed B t" if "published L B t" for t by (rule phase_framed(1) [OF committedI(4) [OF that]])
    show "C t" if "faulty F" "active L B F C t \<or> published L B t" for t
      using C that by (auto dest: active_committed intro: committedI)
    show "active L B F C (deltree (removedDir # p) t)" if "active L B F C t" for t p
      by (rule active_alike [OF B that alike_removed(1) fresh_removals(1)])
    show "active L B F C (tornDel f (removedDir # p) t)" if "active L B F C t" for t f p
      by (rule active_alike [OF B that alike_removed(2) fresh_removals(2)])
  qed
  show "safe (published L B) (accounts L F) (\<lambda>accs t. published L B t \<and> accs = pbAccounts B @ [pbEntry B]) C"
  proof (rule safe_accounts_stored)
    show "stored L (pbAccounts B @ [pbEntry B]) t" if "published L B t" for t using that by (simp add: published_def)
    show "C t" if "published L B t" "faulty F" for t using C that by (auto intro: committedI(4))
  qed
  show "active L B F C (put [registryLockFile] n t)" if "active L B F C t" for t n
    by (rule active_alike [OF B that alike_lock fresh_lock])
  show "get t [] = Some DirNode" if "active L B F C t" for t
    using phase_dirs(1) [OF B] active_committed [OF that] by blast
  show "C t" if "active L B F C t" "faulty F \<or> ioHeld F [registryLockFile]" for t
    using C that by (auto dest: active_committed)
qed (auto dest: active_committed)

lemma untouched_alike: "startable L B \<Longrightarrow> untouched L B t \<Longrightarrow> alike t t' \<Longrightarrow> untouched L B t'"
  using phases_alike(5) startable_plain by blast

lemma safe_Accounts_untouched:
  assumes B: "startable L B" and busy: "othersBusy B F"
    and C: "\<And>t. faulty F \<or> ioHeld F [registryLockFile] \<Longrightarrow> untouched L B t \<Longrightarrow> C t"
  shows "safe (\<lambda>t. untouched L B t \<and> (get t [registryLockFile] \<noteq> Some DirNode \<or> (\<forall>t. untouched L B t \<longrightarrow> C t))) (Accounts L F)
    (\<lambda>accs t. untouched L B t \<and> accs = pbAccounts B) C"
  unfolding Accounts_def withRegistry_def
proof (rule safe_then [OF safe_lockRegistry [where P = "untouched L B"] safe_then])
  have rest: "safe (untouched L B) (recoverAttempt L F (pbToken B)) (\<lambda>_. untouched L B) C"
    by (rule safe_recover_rest [OF B]) (use C in auto)
  show "safe (untouched L B) (recover L F) (\<lambda>_. untouched L B) C"
    by (rule safe_recover [OF B busy _ _ _ rest rest])
      (use C phase_framed(2) untouched_alike [OF B _ alike_removed(1)] untouched_alike [OF B _ alike_removed(2)] in auto)
  show "safe (untouched L B) (accounts L F) (\<lambda>accs t. untouched L B t \<and> accs = pbAccounts B) C"
    by (rule safe_accounts_stored) (use C in \<open>auto simp: untouched_def\<close>)
qed (use C untouched_alike [OF B _ alike_lock] phase_dirs(1) [OF B] in auto)

section \<open>Publishing\<close>

text \<open>An attempt that is built and not committed.\<close>

definition ready :: "store_lib \<Rightarrow> publication \<Rightarrow> tree \<Rightarrow> bool" where
  "ready L B t \<longleftrightarrow> untouched L B t \<and> attemptAt B t \<and> accountAt B (pbStaged B) t \<and> get t (pbStaged B @ [ownerMarker]) \<noteq> Some DirNode"

definition marked :: "store_lib \<Rightarrow> publication \<Rightarrow> tree \<Rightarrow> bool" where
  "marked L B t \<longleftrightarrow> ready L B t \<and> nothingAt (pbFinal B) t \<and> markedAt B (pbStaged B) t"

lemma ready_alike: "startable L B \<Longrightarrow> ready L B t \<Longrightarrow> alike t t' \<Longrightarrow> ready L B t'"
  using stages_alike [OF startable_plain, of L B t t'] untouched_alike [of L B t t']
  by (simp add: ready_def alike_def paths)

lemma ready_below:
  assumes B: "startable L B" and t: "ready L B t" and eq: "\<And>p. \<not> prefix (pbStaged B @ [ownerMarker]) p \<Longrightarrow>
      \<not> prefix (pbStaged B @ [ownerMarker @ ''.'' @ r]) p \<Longrightarrow> get t' p = get t p"
    and m: "get t' (pbStaged B @ [ownerMarker]) \<noteq> Some DirNode"
  shows "ready L B t'" "nothingAt (pbFinal B) t \<Longrightarrow> nothingAt (pbFinal B) t'"
proof -
  note n = plain_names [OF startable_plain [OF B]]
  have g: "get t' (pbFinal B @ q) = get t (pbFinal B @ q)" "get t' [accountsFile] = get t [accountsFile]"
    "get t' (pbStage B) = get t (pbStage B)" "get t' (pbStage B @ [intentFile]) = get t (pbStage B @ [intentFile])"
    "get t' (pbStage B @ [ownerLockFile]) = get t (pbStage B @ [ownerLockFile])" for q
    by (rule eq; use n in \<open>force simp: paths\<close>)+
  have a: "ownFile q \<Longrightarrow> get t' (pbStaged B @ q) = get t (pbStaged B @ q)" for q
    by (rule eq) (auto simp: ownFile_def)
  have f: "framed B t'" unfolding framed_def
  proof (intro allI impI)
    fix p assume p: "\<not> owned B p"
    have "get t' p = get t p" by (rule eq) (use p in \<open>auto simp: owned_def pbStaged_def dest: append_prefixD\<close>)
    then show "get t' p = get (pbTree B) p" using t p by (simp add: ready_def untouched_def framed_def)
  qed
  show "ready L B t'" using t f m a g by (simp add: ready_def untouched_def atRest_def stored_def attemptAt_def accountAt_def)
  show "nothingAt (pbFinal B) t'" if "nothingAt (pbFinal B) t" using that g(1) by (simp add: nothingAt_def)
qed

lemma safe_mark:
  assumes B: "startable L B"
  shows "safe (\<lambda>t. ready L B t \<and> nothingAt (pbFinal B) t) (writeDurable F (pbStaged B) ownerMarker (pbToken B)) (\<lambda>_. marked L B) (untouched L B)"
  unfolding writeDurable_def
proof (rule safe_wrap)
  let ?P = "\<lambda>t. ready L B t \<and> nothingAt (pbFinal B) t" and ?tmp = "\<lambda>r. pbStaged B @ [ownerMarker @ ''.'' @ r]" and ?m = "pbStaged B @ [ownerMarker]"
  have keep: "?P t'" if "?P t" "\<And>p. \<not> prefix ?m p \<Longrightarrow> \<not> prefix (?tmp r) p \<Longrightarrow> get t' p = get t p" "get t' ?m \<noteq> Some DirNode" for t t' r
    using ready_below [OF B _ that(2,3)] that(1) by blast
  have m0: "get t ?m \<noteq> Some DirNode" if "?P t" for t using that by (simp add: ready_def)
  have ne: "?m \<noteq> ?tmp r" "\<not> prefix (?tmp r) ?m" for r by simp_all
  have 1: "?P (put (?tmp r) (FileNode b) t)" if "?P t" for t r b
    by (rule keep [OF that, where r = r]) (use m0 [OF that] ne in auto)
  have 2: "?P (deltree (?tmp r) t)" if "?P t" for t r
    by (rule keep [OF that, where r = r]) (use m0 [OF that] in auto)
  have 3: "marked L B (move (?tmp r) ?m t)" if "?P t" "get t (?tmp r) = Some (FileNode (pbToken B))" for t r
  proof -
    have m: "get (move (?tmp r) ?m t) ?m = Some (FileNode (pbToken B))"
      using that(2) get_move_to [of "?tmp r" ?m t "[]"] by simp
    have "?P (move (?tmp r) ?m t)" by (rule keep [OF that(1), where r = r]) (rule get_move_other, assumption+, simp only: m, simp)
    then show ?thesis using m by (simp add: marked_def markedAt_def)
  qed
  have U: "?P t \<Longrightarrow> untouched L B t" "marked L B t \<Longrightarrow> untouched L B t" for t by (simp_all add: ready_def marked_def)
  show "safe ?P (replaceFile F (pbStaged B) ownerMarker (pbToken B)) (\<lambda>_. marked L B) (untouched L B)"
    by (rule safe_pre [OF safe_replaceFile [where P = ?P and Q = "marked L B" and dir = "pbStaged B" and base = ownerMarker
        and data = "pbToken B" and C = "untouched L B" and F = F, OF 1 2 3]]) (use U in auto)
qed

lemma safe_checkFree:
  assumes B: "startable L B"
  shows "safe (ready L B) (checkFree L F (pbEntry B))
    (\<lambda>_ t. collision (pbAccounts B) (pbEntry B) = None \<and> ready L B t \<and> nothingAt (pbFinal B) t) (untouched L B)"
proof -
  have U: "ready L B t \<Longrightarrow> untouched L B t" for t by (simp add: ready_def)
  have none: "nothingAt (pbFinal B) t" if "ready L B t" "get t (pbFinal B) = None" for t
  proof -
    have g: "get t (pbFinal B @ q) = get (pbTree B) (pbFinal B @ q)" for q using that(1) by (simp add: ready_def untouched_def)
    have cl: "get (pbTree B) (p @ [n]) \<noteq> None \<Longrightarrow> get (pbTree B) p = Some DirNode" for p n
      using B unfolding startable_def by blast
    have "get (pbTree B) (pbFinal B @ q) = None" for q
    proof (induction q rule: rev_induct)
      case Nil
      then show ?case using g [of "[]"] that(2) by simp
    next
      case (snoc x q)
      have "get (pbTree B) ((pbFinal B @ q) @ [x]) = None" using snoc cl [of "pbFinal B @ q" x] by (metis option.distinct(1))
      then show ?case by simp
    qed
    then show ?thesis by (simp add: nothingAt_def g)
  qed
  have fin: "AccountDir (aeACI (pbEntry B)) = pbFinal B" by (simp add: pbFinal_def)
  show ?thesis unfolding checkFree_def fin
  proof (rule safe_bind [OF safe_accounts_stored [where ?accs0.0 = "pbAccounts B"]])
    fix accs
    show "safe (\<lambda>t. ready L B t \<and> accs = pbAccounts B) (case collision accs (pbEntry B) of Some e \<Rightarrow> io_fail e
       | None \<Rightarrow> io_bind (attempt (Lstat F (pbFinal B))) (\<lambda>r. case r of
           Inl e \<Rightarrow> if isNotExist e then io_ret () else io_fail (Wrap ''exists'' [Sentinel ErrImportCollision, e])
         | Inr _ \<Rightarrow> io_fail (Wrap ''exists'' [Sentinel ErrImportCollision])))
       (\<lambda>_ t. collision (pbAccounts B) (pbEntry B) = None \<and> ready L B t \<and> nothingAt (pbFinal B) t) (untouched L B)"
    proof (cases "collision accs (pbEntry B)")
      case None
      show ?thesis unfolding None option.case
      proof (rule safe_bind [OF safe_Lstat])
        fix r :: "node res"
        show "safe (\<lambda>t. (ready L B t \<and> accs = pbAccounts B) \<and> (case r of Inl e \<Rightarrow> if isNotExist e then get t (pbFinal B) = None else faulty F
            | Inr n \<Rightarrow> get t (pbFinal B) = Some n)) (case r of
             Inl e \<Rightarrow> if isNotExist e then io_ret () else io_fail (Wrap ''exists'' [Sentinel ErrImportCollision, e])
           | Inr _ \<Rightarrow> io_fail (Wrap ''exists'' [Sentinel ErrImportCollision]))
          (\<lambda>_ t. collision (pbAccounts B) (pbEntry B) = None \<and> ready L B t \<and> nothingAt (pbFinal B) t) (untouched L B)"
          using None U none by (cases r) (auto intro!: safe_ret safe_fail)
      qed (use U in auto)
    qed (use U in \<open>auto intro: safe_fail\<close>)
  qed (use U in \<open>auto simp: ready_def untouched_def\<close>)
qed

lemma marked_below:
  assumes B: "startable L B" and t: "marked L B t" and eq: "\<And>p. \<not> prefix (pbStage B @ [intentFile]) p \<Longrightarrow>
      \<not> prefix (pbStage B @ [intentFile @ ''.'' @ r]) p \<Longrightarrow> get t' p = get t p"
  shows "get t' (pbStage B @ [intentFile]) = None \<Longrightarrow> marked L B t'"
    "get t' (pbStage B @ [intentFile]) = Some (FileNode raw) \<Longrightarrow> slDecodeIntent L raw = Some (pbIntent B) \<Longrightarrow> staged L B t'"
proof -
  note n = plain_names [OF startable_plain [OF B]]
  have g: "get t' (pbFinal B @ q) = get t (pbFinal B @ q)" "get t' [accountsFile] = get t [accountsFile]"
    "get t' (pbStage B) = get t (pbStage B)" "get t' (pbStage B @ [ownerLockFile]) = get t (pbStage B @ [ownerLockFile])"
    "get t' (pbStaged B @ q) = get t (pbStaged B @ q)" for q
    by (rule eq; use n n [THEN not_sym] in \<open>force simp: paths\<close>)+
  have f: "framed B t'" unfolding framed_def
  proof (intro allI impI)
    fix p assume p: "\<not> owned B p"
    have "get t' p = get t p" by (rule eq) (use p in \<open>auto simp: owned_def dest: append_prefixD\<close>)
    then show "get t' p = get (pbTree B) p" using t p by (simp add: marked_def ready_def untouched_def framed_def)
  qed
  have z: "get (pbTree B) (pbFinal B @ q) = None" for q
    using t unfolding marked_def ready_def untouched_def nothingAt_def by metis
  show "get t' (pbStage B @ [intentFile]) = None \<Longrightarrow> marked L B t'"
    using t f g z by (simp add: marked_def ready_def untouched_def atRest_def stored_def attemptAt_def accountAt_def markedAt_def nothingAt_def)
  show "get t' (pbStage B @ [intentFile]) = Some (FileNode raw) \<Longrightarrow> slDecodeIntent L raw = Some (pbIntent B) \<Longrightarrow> staged L B t'"
    using t f g z by (simp add: marked_def ready_def untouched_def staged_def intentAt_def stored_def attemptAt_def accountAt_def markedAt_def nothingAt_def)
qed

lemma safe_writeIntent:
  assumes B: "startable L B" and raw: "slDecodeIntent L raw = Some (pbIntent B)"
    and C: "\<And>t. untouched L B t \<or> committed L B t \<Longrightarrow> C t"
  shows "safe (marked L B) (writeDurable F (pbStage B) intentFile raw) (\<lambda>_. staged L B) C"
  unfolding writeDurable_def
proof (rule safe_wrap)
  let ?tmp = "\<lambda>r. pbStage B @ [intentFile @ ''.'' @ r]" and ?i = "pbStage B @ [intentFile]"
  have i0: "get t ?i = None" if "marked L B t" for t using that by (simp add: marked_def ready_def untouched_def atRest_def)
  have 1: "marked L B (put (?tmp r) (FileNode b) t)" if "marked L B t" for t r b
    by (rule marked_below(1) [OF B that, where r = r]) (use i0 [OF that] in auto)
  have 2: "marked L B (deltree (?tmp r) t)" if "marked L B t" for t r
    by (rule marked_below(1) [OF B that, where r = r]) (use i0 [OF that] in auto)
  have 3: "staged L B (move (?tmp r) ?i t)" if "marked L B t" "get t (?tmp r) = Some (FileNode raw)" for t r
  proof (rule marked_below(2) [OF B that(1) _ _ raw])
    show "get (move (?tmp r) ?i t) ?i = Some (FileNode raw)" using that(2) get_move_to [of "?tmp r" ?i t "[]"] by simp
  qed (rule get_move_other)
  have U: "marked L B t \<Longrightarrow> C t" "staged L B t \<Longrightarrow> C t" for t
    using C by (auto simp: marked_def ready_def intro: committedI(1))
  show "safe (marked L B) (replaceFile F (pbStage B) intentFile raw) (\<lambda>_. staged L B) C"
    by (rule safe_pre [OF safe_replaceFile [where P = "marked L B" and Q = "staged L B" and dir = "pbStage B" and base = intentFile
        and data = raw and C = C and F = F, OF 1 2 3]]) (use U in auto)
qed

definition allOrNothing :: "store_lib \<Rightarrow> publication \<Rightarrow> tree \<Rightarrow> bool" where
  "allOrNothing L B t \<longleftrightarrow> untouched L B t \<or> committed L B t \<and> collision (pbAccounts B) (pbEntry B) = None"

lemma safeD:
  assumes "safe P m Q C" "P (dkTree d)" "m d = (r, d')"
  shows "case r of Done x \<Rightarrow> Q x (dkTree d') | _ \<Rightarrow> C (dkTree d')"
proof -
  have "case m d of (Done x, d') \<Rightarrow> Q x (dkTree d') | (Failed e, d') \<Rightarrow> C (dkTree d') | (Crashed, d') \<Rightarrow> C (dkTree d')"
    using assms(1,2) unfolding safe_def runs_def by simp
  then show ?thesis by (cases r) (simp_all add: assms(3))
qed

lemma safe_prepareCommit:
  assumes B: "startable L B" and im: "imToken im = pbToken B" and busy: "othersBusy B F" "ioHeld F (pbStage B @ [ownerLockFile])"
  shows "safe (ready L B) (withRegistry L F (prepareCommit L F (pbEntry B) im))
    (\<lambda>_ t. collision (pbAccounts B) (pbEntry B) = None \<and> marked L B t) (untouched L B)"
proof -
  have U: "ready L B t \<Longrightarrow> untouched L B t" for t by (simp add: ready_def)
  have own: "safe (ready L B) (recoverAttempt L F (pbToken B)) (\<lambda>_. ready L B) (untouched L B)"
    by (rule safe_busy) (use busy(2) U in \<open>auto simp: ready_def attemptAt_def pbStage_def\<close>)
  have lock: "safe (ready L B) (lockRegistry F) (\<lambda>_. ready L B) (untouched L B)"
    by (rule safe_pre [OF safe_lockRegistry [where P = "ready L B"]])
      (use U ready_alike [OF B _ alike_lock] phase_dirs(1) [OF B] in auto)
  have rec: "safe (ready L B) (recover L F) (\<lambda>_. ready L B) (untouched L B)"
    by (rule safe_recover [OF B busy(1) _ _ _ own own])
      (use U phase_framed(2) ready_alike [OF B _ alike_removed(1)] ready_alike [OF B _ alike_removed(2)] in auto)
  have staged: "stageOf (pbToken B) @ [aeACI (pbEntry B)] = pbStaged B" by (simp add: pbStaged_def pbStage_def)
  have prep: "safe (ready L B) (prepareCommit L F (pbEntry B) im)
    (\<lambda>_ t. collision (pbAccounts B) (pbEntry B) = None \<and> marked L B t) (untouched L B)"
    unfolding prepareCommit_def im staged
  proof (rule safe_then [OF safe_checkFree [OF B]], rule safe_fact)
    assume c: "collision (pbAccounts B) (pbEntry B) = None"
    show "safe (\<lambda>t. ready L B t \<and> nothingAt (pbFinal B) t) (writeDurable F (pbStaged B) ownerMarker (pbToken B))
      (\<lambda>_ t. collision (pbAccounts B) (pbEntry B) = None \<and> marked L B t) (untouched L B)"
      by (rule safe_conseq [OF safe_mark [OF B]]) (simp_all add: c)
  qed
  show ?thesis unfolding withRegistry_def by (rule safe_then [OF lock safe_then [OF rec prep]])
qed

lemma Publish_outcome:
  assumes B: "startable L B" and law: "store_laws L"
    and im: "imToken im = pbToken B" "imACI im = aeACI (pbEntry B)" "imDigest im = pbDigest B" "\<not> imCommitted im"
    and busy: "othersBusy B F" "ioHeld F (pbStage B @ [ownerLockFile])" and d: "dkTree d = pbTree B"
    and run: "Import_Publish L F (pbEntry B) im d = (r, im', d')"
  shows "allOrNothing L B (dkTree d') \<and> imToken im' = pbToken B \<and> (r = Done () \<longrightarrow> published L B (dkTree d'))
    \<and> (\<not> imCommitted im' \<longrightarrow> untouched L B (dkTree d'))"
proof -
  have ready0: "ready L B (dkTree d)" using B
    by (auto simp: d startable_def ready_def untouched_def framed_def accountAt_def)
  obtain r1 d1 where p: "withRegistry L F (prepareCommit L F (pbEntry B) im) d = (r1, d1)" by fastforce
  note P = safeD [OF safe_prepareCommit [OF B im(1) busy] ready0 p]
  have guard: "\<not> (imACI im = [] \<or> aeACI (pbEntry B) \<noteq> imACI im \<or> imCommitted im)"
    using im startable_plain [OF B] by (simp add: plain_name_def)
  show ?thesis
  proof (cases r1)
    case (Done u)
    then have c: "collision (pbAccounts B) (pbEntry B) = None" and m: "marked L B (dkTree d1)" using P by auto
    have run1: "Import_commit L F (pbEntry B) im d1 = (r, im', d')" using run guard p Done by (simp add: Import_Publish_def)
    have i: "intentOf (pbEntry B) im = pbIntent B" "stageOf (imToken im) = pbStage B" using im by (simp_all add: intentOf_def pbIntent_def pbStage_def)
    show ?thesis
    proof (cases "slEncodeIntent L (pbIntent B)")
      case None
      then show ?thesis using run1 m im by (auto simp: Import_commit_def i allOrNothing_def marked_def ready_def)
    next
      case (Some raw)
      have dec: "slDecodeIntent L raw = Some (pbIntent B)" using law Some by (simp add: store_laws_def)
      let ?C = "\<lambda>t. untouched L B t \<or> committed L B t"
      have w: "safe (marked L B) (writeDurable F (pbStage B) intentFile raw) (\<lambda>_. staged L B) ?C"
        by (rule safe_writeIntent [OF B dec])
      have f: "safe (staged L B) (rollForward L F (pbStage B) (pbIntent B)) (\<lambda>_. published L B) ?C"
        by (rule safe_pre [OF safe_rollForward [OF B law _ c]]) (auto simp: pending_def finishes_def)
      have all: "safe (marked L B) (io_wrap recoveryError (io_then (writeDurable F (pbStage B) intentFile raw)
          (rollForward L F (pbStage B) (pbIntent B)))) (\<lambda>_. published L B) ?C"
        by (rule safe_wrap, rule safe_then [OF w f])
      obtain r2 d2 where x: "io_wrap recoveryError (io_then (writeDurable F (pbStage B) intentFile raw)
          (rollForward L F (pbStage B) (pbIntent B))) d1 = (r2, d2)" by fastforce
      have e: "r = r2" "im' = im\<lparr>imCommitted := True\<rparr>" "d' = d2" using run1 Some by (auto simp: Import_commit_def i x)
      show ?thesis using safeD [OF all m x] im(1) c
        by (cases r2) (auto simp: e allOrNothing_def intro: committedI(4))
    qed
  next
    case (Failed e)
    then have u: "untouched L B (dkTree d1)" using P by simp
    have "r = Failed e" "im' = im" "d' = d1" using run guard p Failed by (auto simp: Import_Publish_def)
    then show ?thesis using u im by (simp add: allOrNothing_def)
  next
    case Crashed
    then have u: "untouched L B (dkTree d1)" using P by simp
    have "r = Crashed" "im' = im" "d' = d1" using run guard p Crashed by (auto simp: Import_Publish_def)
    then show ?thesis using u im by (simp add: allOrNothing_def)
  qed
qed

text \<open>Closing the attempt, which removes it if it was not committed, and listing the accounts, which
  recovers, keep it all or nothing.\<close>

lemma Close_outcome:
  assumes B: "startable L B" and im: "imToken im = pbToken B" and t: "allOrNothing L B (dkTree d)"
    "\<not> imCommitted im \<longrightarrow> untouched L B (dkTree d)"
  shows "allOrNothing L B (dkTree (snd (Import_Close F im d))) \<and> (published L B (dkTree d) \<longrightarrow> published L B (dkTree (snd (Import_Close F im d))) \<or> \<not> imCommitted im)
    \<and> (\<not> imCommitted im \<longrightarrow> untouched L B (dkTree (snd (Import_Close F im d))))"
proof (cases "imOpen im")
  case False
  then show ?thesis using t by (simp add: Import_Close_def io_ret_def)
next
  case True
  show ?thesis
  proof (cases "imCommitted im")
    case c: True
    have "keeps I (Import_Close F im)" for I unfolding Import_Close_def by (simp add: c keeps_intros)
    then have "dkTree (snd (Import_Close F im d)) = dkTree d"
      using keepsD [of "\<lambda>t. t = dkTree d" "Import_Close F im" d] by simp
    then show ?thesis using t c by simp
  next
    case False
    have s: "stageOf (imToken im) = pbStage B" by (simp add: im pbStage_def)
    have 1: "keeps (untouched L B) (removeStage F (pbStage B))"
      unfolding keeps_def by (rule safe_removeStage [OF B]) auto
    have "keeps (untouched L B) (Import_Close F im)" unfolding Import_Close_def s using False 1 by (auto intro!: keeps_intros)
    then have "untouched L B (dkTree (snd (Import_Close F im d)))" using keepsD t(2) False by blast
    then show ?thesis using False by (simp add: allOrNothing_def)
  qed
qed

lemma list_step:
  assumes B: "startable L B" and law: "store_laws L" and G: "othersBusy B G" "\<not> ioHeld G (pbStage B @ [ownerLockFile])"
  shows "untouched L B (dkTree d) \<Longrightarrow> untouched L B (dkTree (snd (Accounts L G d)))"
    "committed L B (dkTree d) \<Longrightarrow> collision (pbAccounts B) (pbEntry B) = None \<Longrightarrow> committed L B (dkTree (snd (Accounts L G d)))"
proof -
  obtain r d' where a: "Accounts L G d = (r, d')" by fastforce
  show "untouched L B (dkTree (snd (Accounts L G d)))" if "untouched L B (dkTree d)"
    using safeD [OF safe_Accounts_untouched [OF B G(1), where C = "untouched L B"] _ a] that by (cases r) (auto simp: a)
  show "committed L B (dkTree (snd (Accounts L G d)))" if "committed L B (dkTree d)" "collision (pbAccounts B) (pbEntry B) = None"
  proof -
    have "active L B G (committed L B) (dkTree d)" using that(1) by (auto simp: active_def committed_def finishes_def)
    then show ?thesis
      using safeD [OF safe_Accounts_committed [OF B law that(2) G, where C = "committed L B"] _ a]
      by (cases r) (auto simp: a intro: committedI(4))
  qed
qed

text \<open>An operation that nothing goes wrong in: no call fails, the registry lock is free, the random names
  are not in use and the new registry can be encoded.\<close>

definition undisturbed :: "store_lib \<Rightarrow> publication \<Rightarrow> io_script \<Rightarrow> tree \<Rightarrow> bool" where
  "undisturbed L B F t \<longleftrightarrow> \<not> faulty F \<and> \<not> ioHeld F [registryLockFile] \<and> get t [registryLockFile] \<noteq> Some DirNode
     \<and> freshNames F t \<and> slEncodeDoc L \<lparr>adVersion = accountsVersion, adAccounts = pbAccounts B @ [pbEntry B]\<rparr> \<noteq> None"

lemma list_undisturbed:
  assumes B: "startable L B" and law: "store_laws L" and G: "othersBusy B G" "\<not> ioHeld G (pbStage B @ [ownerLockFile])"
    and u: "undisturbed L B G (dkTree d)"
  shows "untouched L B (dkTree d) \<Longrightarrow> \<exists>d'. Accounts L G d = (Done (pbAccounts B), d') \<and> untouched L B (dkTree d')"
    "committed L B (dkTree d) \<Longrightarrow> collision (pbAccounts B) (pbEntry B) = None \<Longrightarrow>
      \<exists>d'. Accounts L G d = (Done (pbAccounts B @ [pbEntry B]), d') \<and> published L B (dkTree d')"
proof -
  obtain r d' where a: "Accounts L G d = (r, d')" by fastforce
  have F: "\<not> faulty G" "\<not> ioHeld G [registryLockFile]" "get (dkTree d) [registryLockFile] \<noteq> Some DirNode"
    using u by (simp_all add: undisturbed_def)
  show "\<exists>d'. Accounts L G d = (Done (pbAccounts B), d') \<and> untouched L B (dkTree d')" if "untouched L B (dkTree d)"
    using safeD [OF safe_Accounts_untouched [OF B G(1), where C = "\<lambda>_. False"] _ a] that F by (cases r) (auto simp: a)
  show "\<exists>d'. Accounts L G d = (Done (pbAccounts B @ [pbEntry B]), d') \<and> published L B (dkTree d')"
    if "committed L B (dkTree d)" "collision (pbAccounts B) (pbEntry B) = None"
  proof -
    have "active L B G (\<lambda>_. False) (dkTree d)" using that(1) u by (auto simp: active_def committed_def finishes_def undisturbed_def)
    then show ?thesis
      using safeD [OF safe_Accounts_committed [OF B law that(2) G, where C = "\<lambda>_. False"] _ a] F
      by (cases r) (auto simp: a)
  qed
qed

text \<open>C1: Publishing an import is all or nothing, whatever goes wrong. Publish may fail or die in any call,
  the attempt may be closed or its process be gone, and any number of registry operations may fail or
  die while they recover: the next undisturbed operation lists either the accounts before, with the
  account's place as it was, or these and the new one, with the account's files in place, and nothing
  else in the data directory has changed. It is the new one if Publish returned or if an intent to
  publish was on disk, and the old ones if the attempt was not committed.\<close>

theorem publish_all_or_nothing:
  assumes "startable L B" "store_laws L" "dkTree d = pbTree B"
    "imToken im = pbToken B" "imACI im = aeACI (pbEntry B)" "imDigest im = pbDigest B" "\<not> imCommitted im"
    "othersBusy B F" "ioHeld F (pbStage B @ [ownerLockFile])" "Import_Publish L F (pbEntry B) im d = (r, im', d1)"
    "d2 = fold (\<lambda>G d. snd (Accounts L G d)) Gs (if closed then snd (Import_Close F' im' d1) else d1)"
    "\<forall>G\<in>set (G # Gs). othersBusy B G \<and> \<not> ioHeld G (pbStage B @ [ownerLockFile])" "undisturbed L B G (dkTree d2)"
  shows "\<exists>accs d3. Accounts L G d2 = (Done accs, d3)
    \<and> (accs = pbAccounts B @ [pbEntry B] \<and> published L B (dkTree d3) \<or> accs = pbAccounts B \<and> untouched L B (dkTree d3))
    \<and> (r = Done () \<or> get (dkTree d1) (pbStage B @ [intentFile]) \<noteq> None \<longrightarrow> accs = pbAccounts B @ [pbEntry B])
    \<and> (\<not> imCommitted im' \<longrightarrow> accs = pbAccounts B)"
proof -
  note P = Publish_outcome [OF assms(1,2,4-9,3,10)]
  have disj: "\<not> (untouched L B t \<and> pending L B t)" for t
    by (auto simp: untouched_def atRest_def pending_def staged_def moved_def registered_def intentAt_def)
  have ne: "stored L accs t \<Longrightarrow> stored L accs' t \<Longrightarrow> accs = accs'" for accs accs' t by (auto simp: stored_def)
  have disj2: "\<not> (untouched L B t \<and> committed L B t)" for t
    using disj [of t] ne [of "pbAccounts B @ [pbEntry B]" t "pbAccounts B"] by (auto simp: untouched_def published_def committed_def)
  define e where "e = (if closed then snd (Import_Close F' im' d1) else d1)"
  have E: "allOrNothing L B (dkTree e)" "\<not> imCommitted im' \<longrightarrow> untouched L B (dkTree e)"
    "committed L B (dkTree d1) \<longrightarrow> committed L B (dkTree e)"
  proof -
    note cl = Close_outcome [OF assms(1), of im' d1 F']
    show 1: "allOrNothing L B (dkTree e)" "\<not> imCommitted im' \<longrightarrow> untouched L B (dkTree e)"
      using P cl by (simp_all add: e_def)
    have "keeps I (Import_Close F' im')" if "imCommitted im'" for I unfolding Import_Close_def using that by (auto intro: keeps_intros)
    then have "dkTree (snd (Import_Close F' im' d1)) = dkTree d1" if "imCommitted im'"
      using keepsD [of "\<lambda>t. t = dkTree d1" "Import_Close F' im'" d1] that by simp
    then show "committed L B (dkTree d1) \<longrightarrow> committed L B (dkTree e)" using P disj2 [of "dkTree d1"] by (auto simp: e_def)
  qed
  have run: "(untouched L B (dkTree x) \<longrightarrow> untouched L B (dkTree (fold (\<lambda>G d. snd (Accounts L G d)) Gs x)))
    \<and> (committed L B (dkTree x) \<and> collision (pbAccounts B) (pbEntry B) = None \<longrightarrow> committed L B (dkTree (fold (\<lambda>G d. snd (Accounts L G d)) Gs x)))" for x
    using assms(12) list_step [OF assms(1,2)] by (induction Gs arbitrary: x) simp_all
  note fin = list_undisturbed [OF assms(1,2) _ _ assms(13)]
  have G: "othersBusy B G" "\<not> ioHeld G (pbStage B @ [ownerLockFile])" using assms(12) by auto
  have intent: "committed L B (dkTree d1)" if "r = Done () \<or> get (dkTree d1) (pbStage B @ [intentFile]) \<noteq> None"
    using that P by (auto simp: allOrNothing_def untouched_def atRest_def intro: committedI(4))
  show ?thesis
  proof (cases "untouched L B (dkTree e)")
    case True
    then have "untouched L B (dkTree d2)" using run [of e] assms(11) by (simp add: e_def)
    moreover have "\<not> committed L B (dkTree d1)" using True E(3) disj2 [of "dkTree e"] by blast
    ultimately show ?thesis using fin(1) [OF G] intent by blast
  next
    case False
    then have c: "committed L B (dkTree e)" "collision (pbAccounts B) (pbEntry B) = None" using E(1) by (auto simp: allOrNothing_def)
    then have "committed L B (dkTree d2)" using run [of e] assms(11) by (simp add: e_def)
    then show ?thesis using fin(2) [OF G _ c(2)] E(2) False by blast
  qed
qed

section \<open>An import that dies\<close>

text \<open>What names an attempt, in a form that the simplifier computes: 32 lowercase hexadecimal digits.\<close>

definition lowerHex :: "char \<Rightarrow> bool" where "lowerHex c = (c \<in> set ''0123456789abcdef'')"
lemma hex_digits: "set ''0123456789abcdef'' = hex_digit ` {..<16}"
proof -
  have "{..<16::nat} = {0,1,2,3,4,5,6,7,8,9,10,11,12,13,14,15}" by (auto simp: numeral_eq_Suc less_Suc_eq)
  then show ?thesis by (simp add: hex_digit_def char_of_def bit_iff_odd)
qed
lemma lowerHex_iff: "lowerHex c \<longleftrightarrow> (\<exists>n<16. c = hex_digit n)"
  unfolding lowerHex_def hex_digits by auto
lemma byte_hex_pair: "x < 16 \<Longrightarrow> y < 16 \<Longrightarrow> byte (char_of (x * 16 + y)) = x * 16 + y"
  by (simp add: byte_def)
lemma HexDecode_lower: "(case HexDecode s of None \<Rightarrow> False | Some raw \<Rightarrow> length raw = k \<and> hex_bytes raw = s) \<longleftrightarrow>
  length s = 2 * k \<and> list_all lowerHex s"
proof (induction s arbitrary: k rule: HexDecode.induct)
  case (3 a b rest)
  show ?case
  proof (cases k)
    case 0
    then show ?thesis by (auto split: option.splits)
  next
    case (Suc j)
    note IH = 3 [of j]
    show ?thesis
    proof (cases "lowerHex a \<and> lowerHex b")
      case True
      then obtain x y where xy: "a = hex_digit x" "b = hex_digit y" "x < 16" "y < 16" by (auto simp: lowerHex_iff)
      then show ?thesis using IH Suc True by (auto simp: hex_val_digit byte_hex_pair hex_bytes_def split: option.splits)
    next
      case False
      have "a = hex_digit x \<Longrightarrow> x < 16 \<Longrightarrow> lowerHex a" "b = hex_digit x \<Longrightarrow> x < 16 \<Longrightarrow> lowerHex b" for x by (auto simp: lowerHex_iff)
      then show ?thesis using False byte_bound unfolding hex_bytes_def
        by (fastforce simp: less_mult_imp_div_less split: option.splits)
    qed
  qed
qed (auto simp: hex_bytes_def)
lemma isToken_code [code]: "isToken name \<longleftrightarrow> length name = 32 \<and> list_all lowerHex name"
  unfolding isToken_def HexDecode_lower by simp

text \<open>An import that dies in the call that makes the new registry durable, the fortieth after the first, in a
  data directory without accounts, and the operation that recovers it.\<close>

definition demoToken :: string where
  "demoToken = ''61616161616161616161616161616161''"

definition demoPublication :: publication where
  "demoPublication = \<lparr>pbTree = [([], DirNode), ([importsDir], DirNode), (stageOf demoToken, DirNode),
       (stageOf demoToken @ [ownerLockFile], FileNode []), (stageOf demoToken @ [''0a''], DirNode),
       (stageOf demoToken @ [''0a'', dbFile], FileNode ''keys'')],
     pbEntry = demoEntry, pbToken = demoToken, pbDigest = ''keys'', pbAccounts = []\<rparr>"

definition demoImport :: Import where
  "demoImport = \<lparr>imToken = demoToken, imOpen = True, imACI = ''0a'', imDigest = ''keys'', imCommitted = False\<rparr>"

definition demoImportLib :: store_lib where
  "demoImportLib = tableLib [\<lparr>adVersion = 1, adAccounts = []\<rparr>, \<lparr>adVersion = 1, adAccounts = [demoEntry]\<rparr>] [pbIntent demoPublication]"

definition dyingScript :: "nat \<Rightarrow> io_script" where
  "dyingScript k = fineScript\<lparr>ioFault := (\<lambda>n. if n = k then Crash else Fine), ioHeld := (\<lambda>p. p = pbStage demoPublication @ [ownerLockFile])\<rparr>"

definition demoRun :: "unit out \<times> Import \<times> disk" where
  "demoRun = Import_Publish demoImportLib (dyingScript 40) demoEntry demoImport \<lparr>dkTree = pbTree demoPublication, dkStep = 0\<rparr>"

definition recoveryScript :: io_script where
  "recoveryScript = fineScript\<lparr>ioRandom := (\<lambda>_. ''2'')\<rparr>"

lemma demo_dirs: "get (pbTree demoPublication) (p @ [n]) \<noteq> None \<Longrightarrow> get (pbTree demoPublication) p = Some DirNode"
  by (auto simp: demoPublication_def get_def stageOf_def Cons_eq_append_conv append_eq_Cons_conv file_names split: if_splits)

lemma demo_names: "get (pbTree demoPublication) (stageOf name) \<noteq> None \<Longrightarrow> name = demoToken"
  by (auto simp: demoPublication_def get_def stageOf_def split: if_splits)

lemma demo_startable: "startable demoImportLib demoPublication"
proof -
  have "plain_name (aeACI (pbEntry demoPublication))" "isToken (pbToken demoPublication)" by code_simp+
  moreover have "get (pbTree demoPublication) [] = Some DirNode" "get (pbTree demoPublication) [importsDir] = Some DirNode" 
   "get (pbTree demoPublication) (pbStaged demoPublication) = Some DirNode" by code_simp+
  moreover have "attemptAt demoPublication (pbTree demoPublication)" unfolding attemptAt_def 
    by (intro conjI exI [where x = "[]"]; code_simp)
  moreover have "atRest demoPublication (pbTree demoPublication)" by code_simp
  moreover have "stored demoImportLib (pbAccounts demoPublication) (pbTree demoPublication)" unfolding stored_def
    by (intro disjI1; code_simp)
  moreover have "get (pbTree demoPublication) (pbStaged demoPublication @ [ownerMarker]) = None" by code_simp
  moreover have "get (pbTree demoPublication) (pbStaged demoPublication @ [dbFile]) = Some (FileNode ''keys'')"
    "slDigest demoImportLib ''keys'' = pbDigest demoPublication" by code_simp+
  ultimately show ?thesis using demo_dirs unfolding startable_def by auto
qed

lemma demo_intent: "get (dkTree (snd (snd demoRun))) (pbStage demoPublication @ [intentFile]) \<noteq> None" by code_simp
lemma demo_undisturbed: "undisturbed demoImportLib demoPublication recoveryScript (dkTree (snd (snd demoRun)))"
proof -
  have 1: "get (dkTree (snd (snd demoRun))) [registryLockFile] \<noteq> Some DirNode" 
    "get (dkTree (snd (snd demoRun))) [accountsFile @ ''.'' @ ''2''] = None"
    "slEncodeDoc demoImportLib \<lparr>adVersion = accountsVersion, adAccounts = pbAccounts demoPublication @ [pbEntry demoPublication]\<rparr> \<noteq> None"
    by code_simp+
  then show ?thesis by (simp add: undisturbed_def freshNames_def recoveryScript_def fineScript_def faulty_def)
qed
lemma demo_busy: "othersBusy demoPublication F" using demo_names by (auto simp: othersBusy_def demoPublication_def)

theorem publish_all_or_nothing_witness:
  "\<exists>d3. Accounts demoImportLib recoveryScript (snd (snd demoRun)) = (Done [demoEntry], d3) \<and> published demoImportLib demoPublication (dkTree d3)"
proof -
  obtain r im' d1 where run: "demoRun = (r, im', d1)" by (cases demoRun) auto
  have "imToken demoImport = pbToken demoPublication" "imACI demoImport = aeACI (pbEntry demoPublication)" 
    "imDigest demoImport = pbDigest demoPublication" "\<not> imCommitted demoImport" "pbEntry demoPublication = demoEntry" "pbAccounts demoPublication = []"
    by (simp_all add: demoImport_def demoPublication_def demoEntry_def)
  note f = this
  show ?thesis
  using publish_all_or_nothing [OF demo_startable _ _ f(1-4) demo_busy, where F = "dyingScript 40" and Gs = "[]" and closed = False
    and d = "\<lparr>dkTree = pbTree demoPublication, dkStep = 0\<rparr>" and r = r and im' = im' and ?d1.0 = d1 and ?d2.0 = d1 and G = recoveryScript]
    demo_intent demo_undisturbed demo_busy [of recoveryScript] f run tableLib_laws
  by (auto simp: demoRun_def dyingScript_def demoImportLib_def recoveryScript_def fineScript_def)
qed
end
