(* ===== verification/Names.thy ===== *)
theory Names
  imports Recipients
begin

text \<open>
  Contacts and their names: the contact of internal/signal/contacts.go, the rest of the client
  interface (internal/signal/client.go), the resolution of group arguments
  (internal/app/groups.go), of names (internal/app/names.go) and the contact use cases
  (internal/app/contacts.go). The Unicode tables behind \<open>strings.EqualFold\<close> and \<open>strings.ToLower\<close>
  are the parameter \<open>T\<close>.
\<close>

section \<open>Contacts (contacts.go)\<close>

record Contact =
  ctRecipient :: Recipient
  ctContactName :: string
  ctProfileName :: string
  ctNickname :: string
  ctBlocked :: bool
  ctAccepted :: "bool option"

definition noContact :: Contact where
  "noContact = \<lparr>ctRecipient = noRecipient, ctContactName = [], ctProfileName = [], ctNickname = [],
     ctBlocked = False, ctAccepted = None\<rparr>"

definition Contact_Name :: "Contact \<Rightarrow> string" where
  "Contact_Name c =
    (if ctNickname c \<noteq> [] then ctNickname c
     else if ctContactName c \<noteq> [] then ctContactName c
     else ctProfileName c)"

definition DisplayName :: "Contact \<Rightarrow> string" where
  "DisplayName c =
    (if Contact_Name c \<noteq> [] then Contact_Name c
     else if rNumber (ctRecipient c) \<noteq> [] then rNumber (ctRecipient c)
     else Recipient_String (ctRecipient c))"

section \<open>The rest of the client interface (client.go)\<close>

text \<open>What the title cache knows about a group (groups.go).\<close>

record CachedGroup =
  cgTitle :: string
  cgLeftAt :: time

record LeaveResult =
  lvGroup :: Group
  lvRevision :: u32
  lvPromoted :: "Recipient list"

text \<open>Operations that return a partial result with an error return a pair.\<close>

record 'c FullClient = "'c Client" +
  clContacts :: "'c \<Rightarrow> Contact list res \<times> 'c"
  clContact :: "Recipient \<Rightarrow> 'c \<Rightarrow> Contact res \<times> 'c"
  clSetBlocked :: "Recipient list \<Rightarrow> bool \<Rightarrow> 'c \<Rightarrow> err option \<times> 'c"
  clGroups :: "'c \<Rightarrow> Group list res \<times> 'c"
  clGroupTitles :: "'c \<Rightarrow> (string \<times> CachedGroup) list res \<times> 'c"
  clCreateGroup :: "CreateGroupOptions \<Rightarrow> 'c \<Rightarrow> (Group \<times> err option) \<times> 'c"
  clLeaveGroup :: "string \<Rightarrow> Recipient list \<Rightarrow> 'c \<Rightarrow> LeaveResult res \<times> 'c"
  clRenameGroup :: "string \<Rightarrow> string \<Rightarrow> 'c \<Rightarrow> Group res \<times> 'c"
  clUpdateGroup :: "string \<Rightarrow> GroupUpdate \<Rightarrow> 'c \<Rightarrow> (Group \<times> err option) \<times> 'c"
  clAddGroupMembers :: "string \<Rightarrow> Recipient list \<Rightarrow> 'c \<Rightarrow> (Group \<times> err option) \<times> 'c"
  clRemoveGroupMembers :: "string \<Rightarrow> Recipient list \<Rightarrow> 'c \<Rightarrow> (Group \<times> err option) \<times> 'c"
  clSetGroupMemberRole :: "string \<Rightarrow> Recipient list \<Rightarrow> GroupRole \<Rightarrow> 'c \<Rightarrow> (Group \<times> err option) \<times> 'c"
  clSetGroupBanned :: "string \<Rightarrow> Recipient list \<Rightarrow> bool \<Rightarrow> 'c \<Rightarrow> (Group \<times> err option) \<times> 'c"
  clGroupLink :: "string \<Rightarrow> 'c \<Rightarrow> (GroupLink \<times> err option) \<times> 'c"
  clUpdateGroupLink :: "string \<Rightarrow> GroupLinkUpdate \<Rightarrow> 'c \<Rightarrow> (GroupLink \<times> err option) \<times> 'c"

abbreviation core :: "'c FullClient \<Rightarrow> 'c Client" where
  "core \<equiv> Client.truncate"

record text_lib =
  tlEqualFold :: "string \<Rightarrow> string \<Rightarrow> bool"
  tlToLower :: "string \<Rightarrow> string"

section \<open>Group arguments (groups.go)\<close>

definition unknownGroup :: err where
  "unknownGroup = Wrap ''unknown group'' [Sentinel ErrUnknownGroup]"

text \<open>Groups by title: those that match and are current, and those that match and were left.\<close>

fun titled :: "text_lib \<Rightarrow> string \<Rightarrow> (string \<times> CachedGroup) list \<Rightarrow> string list \<times> string list" where
  "titled T title [] = ([], [])"
| "titled T title ((groupID, g) # cached) = (case titled T title cached of (current, left) \<Rightarrow>
     if \<not> tlEqualFold T (TrimSpace (cgTitle g)) title then (current, left)
     else if IsZero (cgLeftAt g) then (groupID # current, left)
     else (current, groupID # left))"

definition groupByTitle :: "text_lib \<Rightarrow> 'c FullClient \<Rightarrow> string \<Rightarrow> ('c, string) action" where
  "groupByTitle T C title = andThen (wrapping ''group titles'' (call (clGroupTitles C))) (\<lambda>cached.
     case titled T title cached of (current, left) \<Rightarrow>
       (case (if current = [] then left else current) of
          [] \<Rightarrow> fail unknownGroup
        | [groupID] \<Rightarrow> ret groupID
        | _ \<Rightarrow> fail (Wrap ''several groups'' [Sentinel ErrAmbiguousGroup])))"

definition ResolveGroup :: "text_lib \<Rightarrow> 'c FullClient \<Rightarrow> string \<Rightarrow> ('c, string) action" where
  "ResolveGroup T C arg0 = (let arg = TrimSpace arg0 in
     if HasPrefix arg ''group:'' then
       (case parseGroup arg of Inl e \<Rightarrow> fail e | Inr target \<Rightarrow> ret (tGroupID target))
     else case decodeGroupKey arg of
       Some key \<Rightarrow> ret key
     | None \<Rightarrow> if arg = [] then fail unknownGroup else groupByTitle T C arg)"

text \<open>inbox.go: a chat argument is a user, a group or a group title.\<close>

definition targetChat :: "Target \<Rightarrow> Chat" where
  "targetChat t = (if Target_IsGroup t then noChat\<lparr>cGroupID := tGroupID t\<rparr> else noChat\<lparr>cRecipient := tRecipient t\<rparr>)"

definition ResolveChat :: "uuid_lib \<Rightarrow> text_lib \<Rightarrow> 'c FullClient \<Rightarrow> string \<Rightarrow> ('c, Chat) action" where
  "ResolveChat U T C arg = (case ParseRecipient U arg of
     Inl _ \<Rightarrow> andThen (wrapping ''chat'' (ResolveGroup T C arg)) (\<lambda>groupID. ret (noChat\<lparr>cGroupID := groupID\<rparr>))
   | Inr _ \<Rightarrow> andThen (ResolveRecipients U (core C) [arg]) (\<lambda>targets. case targets of
       [] \<Rightarrow> fail panic | t # _ \<Rightarrow> ret (targetChat t)))"

section \<open>Names (names.go)\<close>

definition NameReloadInterval :: duration where "NameReloadInterval = 30 * 1000000000"
definition shortACILen :: nat where "shortACILen = 8"

record nameEntry =
  neName :: string
  neLabel :: string

record NameBase =
  nmOwn :: string
  nmByACI :: "(string \<times> nameEntry) list"
  nmByNumber :: "(string \<times> nameEntry) list"
  nmGroups :: "(string \<times> string) list"

definition noNames :: NameBase where
  "noNames = \<lparr>nmOwn = [], nmByACI = [], nmByNumber = [], nmGroups = []\<rparr>"

definition distinguish :: "Contact \<Rightarrow> string" where
  "distinguish c =
    (if rNumber (ctRecipient c) \<noteq> [] \<and> rNumber (ctRecipient c) \<noteq> DisplayName c then rNumber (ctRecipient c)
     else if length (rACI (ctRecipient c)) > shortACILen then take shortACILen (rACI (ctRecipient c))
     else Recipient_String (ctRecipient c))"

definition entryOf :: "Contact list \<Rightarrow> Contact \<Rightarrow> nameEntry" where
  "entryOf contacts c = \<lparr>neName = Contact_Name c,
     neLabel = (if length (filter (\<lambda>x. DisplayName x = DisplayName c) contacts) > 1
       then DisplayName c @ '' ('' @ distinguish c @ '')'' else DisplayName c)\<rparr>"

definition addName :: "Contact list \<Rightarrow> Contact \<Rightarrow> NameBase \<Rightarrow> NameBase" where
  "addName contacts c names = (let entry = entryOf contacts c; r = ctRecipient c in
     names\<lparr>nmByACI := (if rACI r \<noteq> [] then AList.update (rACI r) entry (nmByACI names) else nmByACI names),
       nmByNumber := (if rNumber r \<noteq> [] then AList.update (rNumber r) entry (nmByNumber names) else nmByNumber names)\<rparr>)"

definition NewNames :: "string \<Rightarrow> Contact list \<Rightarrow> NameBase" where
  "NewNames own contacts = fold (addName contacts) contacts (noNames\<lparr>nmOwn := own\<rparr>)"

definition WithGroups :: "(string \<times> string) list \<Rightarrow> NameBase \<Rightarrow> NameBase" where
  "WithGroups titles n = n\<lparr>nmGroups := titles\<rparr>"

definition cachedTitles :: "(string \<times> CachedGroup) list \<Rightarrow> (string \<times> string) list" where
  "cachedTitles cached = map (\<lambda>(g, c). (g, cgTitle c)) (filter (\<lambda>(g, c). cgTitle c \<noteq> []) cached)"

definition GroupTitle :: "NameBase \<Rightarrow> string \<Rightarrow> string" where
  "GroupTitle n groupID = (case map_of (nmGroups n) groupID of Some title \<Rightarrow> title | None \<Rightarrow> [])"

definition App_Names :: "'c FullClient \<Rightarrow> ('c, NameBase) action" where
  "App_Names C = andThen (wrapping ''load names'' (call (clAccount (core C)))) (\<lambda>acc.
     andThen (wrapping ''load names'' (call (clContacts C))) (\<lambda>contacts s.
       case clGroupTitles C (world s) of (r, w) \<Rightarrow>
         (Inr (case r of Inl _ \<Rightarrow> NewNames (accACI acc) contacts
               | Inr cached \<Rightarrow> WithGroups (cachedTitles cached) (NewNames (accACI acc) contacts)), s\<lparr>world := w\<rparr>)))"

definition Names_lookup :: "NameBase \<Rightarrow> Recipient \<Rightarrow> nameEntry" where
  "Names_lookup n r = (let none = \<lparr>neName = [], neLabel = []\<rparr>;
       byNumber = (if rNumber r = [] then none else case map_of (nmByNumber n) (rNumber r) of Some e \<Rightarrow> e | None \<Rightarrow> none)
     in if rACI r = [] then byNumber
        else case map_of (nmByACI n) (rACI r) of Some e \<Rightarrow> e | None \<Rightarrow> byNumber)"

definition Names_Name :: "NameBase \<Rightarrow> Recipient \<Rightarrow> string" where
  "Names_Name n r = neName (Names_lookup n r)"

definition Names_Label :: "NameBase \<Rightarrow> Recipient \<Rightarrow> string" where
  "Names_Label n r = neLabel (Names_lookup n r)"

definition Names_IsSelf :: "NameBase \<Rightarrow> Recipient \<Rightarrow> bool" where
  "Names_IsSelf n r \<longleftrightarrow> nmOwn n \<noteq> [] \<and> rACI r = nmOwn n"

section \<open>The name book (names.go)\<close>

definition mentionRecipients :: "Mention list \<Rightarrow> Recipient list" where
  "mentionRecipients ms = map mRecipient ms"

definition envRecipients :: "Envelope \<Rightarrow> Recipient list \<Rightarrow> Recipient list" where
  "envRecipients env others = [eSender env, cRecipient (eChat env)] @ others"

definition EventRecipients :: "Event \<Rightarrow> Recipient list" where
  "EventRecipients evt = (case evt of
     EvStory e \<Rightarrow> envRecipients (storyEnv e) [] @ mentionRecipients (storyMentions e)
   | EvMessage e \<Rightarrow> envRecipients (msgEnv e) [] @ (case msgQuote e of Some q \<Rightarrow> [qAuthor q] | None \<Rightarrow> [])
       @ mentionRecipients (msgMentions e)
       @ (case msgQuote e of Some q \<Rightarrow> mentionRecipients (qMentions q) | None \<Rightarrow> [])
   | EvPollVote e \<Rightarrow> envRecipients (pvEnv e) [vTargetAuthor (pvVote e)]
   | EvPollClose e \<Rightarrow> envRecipients (pcEnv e) []
   | EvPin e \<Rightarrow> envRecipients (pinEnv e) [pinTargetAuthor (pinPin e)]
   | EvUnpin e \<Rightarrow> envRecipients (unpinEnv e) [unpinTargetAuthor (unpinUnpin e)]
   | EvEdit e \<Rightarrow> envRecipients (editEnv e) [] @ mentionRecipients (editMentions e)
   | EvDelete e \<Rightarrow> envRecipients (delEnv e) []
   | EvReaction e \<Rightarrow> envRecipients (reEnv e) [reTargetAuthor e]
   | EvTyping e \<Rightarrow> envRecipients (tyEnv e) []
   | EvUnsupported e \<Rightarrow> envRecipients (unEnv e) []
   | EvReceipt e \<Rightarrow> [rtSender e]
   | EvDecryptionFailure e \<Rightarrow> [dfSender e]
   | EvReadSync e \<Rightarrow> map rmSender (rsMessages e)
   | _ \<Rightarrow> [])"

record NameBook =
  nbNames :: NameBase
  nbLoaded :: time
  nbInterval :: duration

definition NameBook_reload :: "'c FullClient \<Rightarrow> NameBook \<Rightarrow> 'c App \<Rightarrow> (bool \<times> err option) \<times> NameBook \<times> 'c App" where
  "NameBook_reload C b s = (case callNow (core C) s of
     (Inr now, s1) \<Rightarrow> (let b1 = b\<lparr>nbLoaded := now\<rparr> in
       case App_Names C s1 of
         (Inl e, s2) \<Rightarrow> ((False, Some e), b1, s2)
       | (Inr names, s2) \<Rightarrow> ((True, None), b1\<lparr>nbNames := names\<rparr>, s2))
   | (Inl e, s1) \<Rightarrow> ((False, Some e), b, s1))"

definition App_NameBook :: "'c FullClient \<Rightarrow> 'c App \<Rightarrow> err option \<times> NameBook \<times> 'c App" where
  "App_NameBook C s = (case NameBook_reload C \<lparr>nbNames = noNames, nbLoaded = time_zero, nbInterval = NameReloadInterval\<rparr> s of
     ((_, e), b, s') \<Rightarrow> (e, b, s'))"

definition unnamed :: "NameBase \<Rightarrow> Recipient \<Rightarrow> bool" where
  "unnamed n r \<longleftrightarrow> rACI r \<noteq> [] \<and> \<not> Names_IsSelf n r \<and> Names_Name n r = []"

definition NameBook_Refresh :: "'c FullClient \<Rightarrow> Event \<Rightarrow> NameBook \<Rightarrow> 'c App \<Rightarrow> (bool \<times> err option) \<times> NameBook \<times> 'c App" where
  "NameBook_Refresh C evt b s = (case callNow (core C) s of
     (Inl e, s1) \<Rightarrow> ((False, Some e), b, s1)
   | (Inr now, s1) \<Rightarrow>
       if now - nbLoaded b < nbInterval b then ((False, None), b, s1)
       else if list_ex (unnamed (nbNames b)) (EventRecipients evt) then NameBook_reload C b s1
       else ((False, None), b, s1))"

end
