(* ===== verification/McpWrite.thy ===== *)
theory McpWrite
  imports Names SendFlow InboxService
begin

text \<open>
  The tools of the MCP server that send (internal/mcp write.go and polls.go) and the confirmation
  by the user that \<open>mcp serve --confirm\<close> asks for before each of their calls (confirm.go). The SDK
  decodes the arguments of a call; what it makes of them is the parameter \<open>D\<close>, the canonical form of
  a JSON text the parameter \<open>J\<close>. Go ranges over the responses of a call in any order: the list gives
  it. The texts that the tools return beside the result are not modelled.
\<close>

section \<open>Quoting (strconv)\<close>

text \<open>\<open>strconv.Quote\<close>, with the Unicode tables as parameter \<open>T\<close>.\<close>

definition hexRune :: "nat \<Rightarrow> nat \<Rightarrow> string" where
  "hexRune width r = map (\<lambda>i. hex_digit ((r div 16 ^ i) mod 16)) (rev [0..<width])"

definition escapes :: "(nat \<times> char) list" where
  "escapes = [(7, CHR ''a''), (8, CHR ''b''), (12, CHR ''f''), (10, CHR ''n''), (13, CHR ''r''), (9, CHR ''t''), (11, CHR ''v'')]"

definition quoteRune :: "unicode_lib \<Rightarrow> nat \<times> string \<Rightarrow> string" where
  "quoteRune T = (\<lambda>(r, bs).
     let slash = char_of (92 :: nat) in
     if r = runeError \<and> length bs = 1 then [slash, CHR ''x''] @ hexRune 2 (byte (hd bs))
     else if r = 34 \<or> r = 92 then slash # bs
     else if unicode_IsPrint T r then bs
     else case map_of escapes r of
       Some c \<Rightarrow> [slash, c]
     | None \<Rightarrow> if r < 32 \<or> r = 127 then [slash, CHR ''x''] @ hexRune 2 r
         else if r < 0x10000 then [slash, CHR ''u''] @ hexRune 4 r
         else [slash, CHR ''U''] @ hexRune 8 r)"

definition Quoted :: "unicode_lib \<Rightarrow> string \<Rightarrow> string" where
  "Quoted T s = [char_of (34 :: nat)] @ concat (map (quoteRune T) (segments s)) @ [char_of (34 :: nat)]"

definition joined :: "string \<Rightarrow> string list \<Rightarrow> string" where
  "joined sep xs = concat (map (\<lambda>(i, x). if i = (0::nat) then x else sep @ x) (enumerate 0 xs))"

definition boolText :: "bool \<Rightarrow> string" where
  "boolText b = (if b then ''true'' else ''false'')"

section \<open>Asking the user (confirm.go)\<close>

definition confirmTTL :: duration where "confirmTTL = 10 * 60 * 1000000000"

record pendingCall =
  pgCall :: string
  pgExpires :: time

type_synonym confirmer = "(string \<times> pendingCall) list"

text \<open>What the SDK hands over of a call: the tool's name, its arguments and the responses to earlier
  input requests, each the action of an elicitation result or something else.\<close>

record callParams =
  cpName :: string
  cpArguments :: bytes
  cpResponses :: "(string \<times> string option) list"

text \<open>What the session's client declared: nothing yet, no capabilities, or whether it can elicit.\<close>

record InitializeParams =
  ipElicitation :: "bool option"

definition canElicit :: "InitializeParams option option \<Rightarrow> bool" where
  "canElicit session = (case session of
     None \<Rightarrow> False | Some None \<Rightarrow> False | Some (Some p) \<Rightarrow> ipElicitation p = Some True)"

definition callKey :: "(bytes \<Rightarrow> string option) \<Rightarrow> callParams \<Rightarrow> string" where
  "callKey J params = cpName params @ '' '' @ (case J (cpArguments params) of
     None \<Rightarrow> cpArguments params | Some canonical \<Rightarrow> canonical)"

text \<open>\<open>text\<close> is what \<open>rand.Text\<close> returns.\<close>

definition confirmer_add :: "string \<Rightarrow> time \<Rightarrow> string \<Rightarrow> confirmer \<Rightarrow> string \<times> confirmer" where
  "confirmer_add key now random c = (let rid = ''confirm-'' @ random in
     (rid, AList.update rid \<lparr>pgCall = key, pgExpires = now + confirmTTL\<rparr> (filter (\<lambda>(_, p). \<not> pgExpires p < now) c)))"

definition confirmer_take :: "string \<Rightarrow> time \<Rightarrow> confirmer \<Rightarrow> pendingCall option \<times> confirmer" where
  "confirmer_take rid now c =
    ((case map_of c rid of None \<Rightarrow> None | Some p \<Rightarrow> if pgExpires p < now then None else Some p), AList.delete rid c)"

text \<open>The responses in order: whether one accepts this call.\<close>

fun check_responses :: "string \<Rightarrow> time \<Rightarrow> (string \<times> string option) list \<Rightarrow> confirmer \<Rightarrow> bool res \<times> confirmer" where
  "check_responses key now [] c = (Inr False, c)"
| "check_responses key now ((rid, action) # rs) c = (case confirmer_take rid now c of
     (None, c') \<Rightarrow> check_responses key now rs c'
   | (Some p, c') \<Rightarrow>
       (if pgCall p \<noteq> key then Inl (Sentinel ErrConfirmMismatch)
        else if action \<noteq> Some ''accept'' then Inl (Sentinel ErrNotConfirmed)
        else Inr True, c'))"

datatype decision = GoAhead | AskUser string string

text \<open>A call as the server sees it: when it is checked, what the random source gives, the session and
  the request.\<close>

record mcp_request =
  mqNow :: time
  mqRandom :: string
  mqSession :: "InitializeParams option option"
  mqParams :: callParams

definition confirmer_check ::
  "(bytes \<Rightarrow> string option) \<Rightarrow> mcp_request \<Rightarrow> string \<Rightarrow> confirmer \<Rightarrow> decision res \<times> confirmer" where
  "confirmer_check J req message c = (let key = callKey J (mqParams req) in
     case check_responses key (mqNow req) (cpResponses (mqParams req)) c of
       (Inl e, c') \<Rightarrow> (Inl e, c')
     | (Inr True, c') \<Rightarrow> (Inr GoAhead, c')
     | (Inr False, c') \<Rightarrow>
         if \<not> canElicit (mqSession req) then (Inl (Sentinel ErrNoElicitation), c')
         else (case confirmer_add key (mqNow req) (mqRandom req) c' of (rid, c'') \<Rightarrow> (Inr (AskUser rid message), c'')))"

definition chatLabel :: "NameBase \<Rightarrow> string \<Rightarrow> string" where
  "chatLabel names chat =
    (if HasPrefix chat ''group:'' then
       (let title = GroupTitle names (TrimPrefix chat ''group:'') in if title \<noteq> [] then ''group '' @ title else chat)
     else let rcpt = aciRecipient chat; label = Names_Label names rcpt in
       if Names_IsSelf names rcpt then ''yourself (note to self)''
       else if label \<noteq> [] then label else chat)"

definition chatLabels :: "NameBase \<Rightarrow> string list \<Rightarrow> string" where
  "chatLabels names chats = joined '', '' (map (chatLabel names) chats)"

section \<open>The server's tools (tools.go, server.go)\<close>

text \<open>The options of the tools that send: \<open>toConfirm\<close> says that there is a confirmer.\<close>

record tools =
  toAttachDir :: string
  toConfirm :: bool
  toReadOnly :: bool

record 'c Mcp =
  mApp :: "'c App"
  mPending :: confirmer

type_synonym ('c, 'a) tool = "'c Mcp \<Rightarrow> 'a res \<times> 'c Mcp"

definition tRet :: "'a \<Rightarrow> ('c, 'a) tool" where
  "tRet x = (\<lambda>s. (Inr x, s))"

definition tFail :: "err \<Rightarrow> ('c, 'a) tool" where
  "tFail e = (\<lambda>s. (Inl e, s))"

definition tThen :: "('c, 'a) tool \<Rightarrow> ('a \<Rightarrow> ('c, 'b) tool) \<Rightarrow> ('c, 'b) tool" where
  "tThen m f = (\<lambda>s. case m s of (Inl e, s') \<Rightarrow> (Inl e, s') | (Inr x, s') \<Rightarrow> f x s')"

definition tApp :: "('c, 'a) action \<Rightarrow> ('c, 'a) tool" where
  "tApp m = (\<lambda>s. case m (mApp s) of (r, a) \<Rightarrow> (r, s\<lparr>mApp := a\<rparr>))"

text \<open>\<open>tools.names\<close>: no names when they can't be loaded.\<close>

definition tools_names :: "'c FullClient \<Rightarrow> ('c, NameBase) tool" where
  "tools_names C = (\<lambda>s. case tApp (App_Names C) s of (r, s') \<Rightarrow>
     (Inr (case r of Inl _ \<Rightarrow> noNames | Inr names \<Rightarrow> names), s'))"

definition tools_confirm ::
  "uuid_lib \<Rightarrow> (bytes \<Rightarrow> string option) \<Rightarrow> 'c FullClient \<Rightarrow> tools \<Rightarrow> mcp_request \<Rightarrow> string list \<Rightarrow> NameBase \<Rightarrow> string
   \<Rightarrow> ('c, decision) tool" where
  "tools_confirm U J C t req chats names action =
    (if \<not> toConfirm t then tRet GoAhead
     else tThen (tApp (CheckRecipients U (core C) chats)) (\<lambda>_ s.
       case confirmer_check J req (action @ '' to '' @ chatLabels names chats @ ''?'') (mPending s) of
         (r, c) \<Rightarrow> (r, s\<lparr>mPending := c\<rparr>)))"

text \<open>What a tool returns: the question to the user, or the result of sending, marked as an error when
  it failed for some recipients.\<close>

datatype tool_result = ToolAsk string string | ToolSent SendResult bool

definition noSendResult :: SendResult where
  "noSendResult = \<lparr>srTimestamp = 0, srResults = []\<rparr>"

definition sendResult :: "('c, SendResult \<times> err option \<times> 'x) action \<Rightarrow> ('c, tool_result) tool" where
  "sendResult m = (\<lambda>s. case tApp m s of
     (Inl e, s') \<Rightarrow> (if errors_Is e ErrSendFailed then Inr (ToolSent noSendResult True) else Inl e, s')
   | (Inr (res, e, _), s') \<Rightarrow> (case e of
       None \<Rightarrow> Inr (ToolSent res False)
     | Some x \<Rightarrow> if errors_Is x ErrSendFailed then Inr (ToolSent res True) else Inl x, s'))"

text \<open>How every tool that sends ends: it asks or sends.\<close>

definition guarded :: "('c, decision) tool \<Rightarrow> ('c, SendResult \<times> err option \<times> 'x) action \<Rightarrow> ('c, tool_result) tool" where
  "guarded ask m = tThen ask (\<lambda>d. case d of AskUser rid message \<Rightarrow> tRet (ToolAsk rid message) | GoAhead \<Rightarrow> sendResult m)"

section \<open>Messages, reactions and deletes (write.go)\<close>

record sendMessageInput =
  wiRecipients :: "string list"
  wiText :: string
  wiAttachments :: "string list"
  wiQuote :: string
  wiQuoteText :: string
  wiEditTimestamp :: "u64 option"

record reactInput =
  wrMessage :: string
  wrChat :: string
  wrEmoji :: string
  wrRemove :: bool

record deleteMessageInput =
  wdChat :: string
  wdTimestamp :: u64

definition sendMessageInput_request :: "string \<Rightarrow> sendMessageInput \<Rightarrow> AppSendRequest res" where
  "sendMessageInput_request attachDir inp =
    (if wiAttachments inp \<noteq> [] \<and> attachDir = [] then Inl (Sentinel ErrNoAttachDir)
     else let send = \<lparr>asRecipients = [], asBody = wiText inp, asStyles = [], asAttachments = wiAttachments inp,
          asSticker = None, asAttachDir = attachDir, asQuote = [], asQuoteText = wiQuoteText inp, asEditTarget = 0\<rparr>
       in case wiEditTimestamp inp of
         None \<Rightarrow> Inr send
       | Some timestamp \<Rightarrow> if timestamp = 0 then Inl (Wrap ''editTimestamp must be nonzero'' [Sentinel ErrInvalidEdit])
           else Inr (send\<lparr>asEditTarget := timestamp\<rparr>))"

definition chatArg :: "Chat \<Rightarrow> string" where
  "chatArg chat =
    (if Chat_IsGroup chat then ''group:'' @ cGroupID chat
     else if rACI (cRecipient chat) \<noteq> [] then rACI (cRecipient chat)
     else Recipient_String (cRecipient chat))"

fun chatArgs :: "uuid_lib \<Rightarrow> text_lib \<Rightarrow> 'c FullClient \<Rightarrow> string list \<Rightarrow> ('c, string list) action" where
  "chatArgs U X C [] = ret []"
| "chatArgs U X C (arg # args) = andThen (ResolveChat U X C arg) (\<lambda>chat.
     andThen (chatArgs U X C args) (\<lambda>out. ret (chatArg chat # out)))"

definition messageRef :: "'c FullClient \<Rightarrow> string \<Rightarrow> ('c, string \<times> string) action" where
  "messageRef C ref0 = (let ref = TrimSpace ref0 in
     if CHR '':'' \<in> set ref then ret (ref, [])
     else case ParseInt64 ref of
       None \<Rightarrow> fail (Wrap ''message'' [Sentinel ErrMessageRef])
     | Some _ \<Rightarrow> andThen (Inbox_Message (core C) ref) (\<lambda>msg.
         let sender = eSender (msgEnv msg);
             author = (if rACI sender = [] then Recipient_String sender else rACI sender)
         in ret (author @ '':'' @ FormatNat (unat (eTimestamp (msgEnv msg))), chatArg (eChat (msgEnv msg)))))"

definition sendSummary :: "unicode_lib \<Rightarrow> sendMessageInput \<Rightarrow> string" where
  "sendSummary T inp =
    (case wiEditTimestamp inp of
       Some timestamp \<Rightarrow> ''Edit our message at '' @ FormatNat (unat timestamp) @ '' to'' | None \<Rightarrow> ''Send'')
    @ (if wiQuote inp \<noteq> [] then '' a reply'' else [])
    @ (if wiText inp \<noteq> [] then '' '' @ Quoted T (wiText inp) else [])
    @ (if wiAttachments inp \<noteq> [] then '' with the attachments '' @ joined '', '' (wiAttachments inp) else [])"

text \<open>The libraries that the tools use beside the client.\<close>

record mcp_lib =
  lbUUID :: uuid_lib
  lbFiles :: file_lib
  lbUnicode :: unicode_lib
  lbText :: text_lib
  lbJSON :: "bytes \<Rightarrow> string option"

definition ask :: "mcp_lib \<Rightarrow> 'c FullClient \<Rightarrow> tools \<Rightarrow> mcp_request \<Rightarrow> string list \<Rightarrow> NameBase \<Rightarrow> string \<Rightarrow> ('c, decision) tool" where
  "ask B C t req chats names action = tools_confirm (lbUUID B) (lbJSON B) C t req chats names action"

definition sendMessage :: "mcp_lib \<Rightarrow> 'c FullClient \<Rightarrow> tools \<Rightarrow> mcp_request \<Rightarrow> sendMessageInput \<Rightarrow> ('c, tool_result) tool" where
  "sendMessage B C t req inp = (case sendMessageInput_request (toAttachDir t) inp of
     Inl e \<Rightarrow> tFail e
   | Inr send \<Rightarrow>
       tThen (tools_names C) (\<lambda>names.
       tThen (tApp (chatArgs (lbUUID B) (lbText B) C (wiRecipients inp))) (\<lambda>chats.
       tThen (if wiQuote inp \<noteq> [] then tApp (wrapping ''quote'' (messageRef C (wiQuote inp))) else tRet ([], [])) (\<lambda>(quote, _).
       guarded (ask B C t req chats names (sendSummary (lbUnicode B) inp))
         (Send (lbUUID B) (lbFiles B) (core C) (send\<lparr>asRecipients := chats, asQuote := quote\<rparr>))))))"

definition reactAction :: "reactInput \<Rightarrow> string \<Rightarrow> string" where
  "reactAction inp target = (if wrRemove inp then ''Take back the reaction '' @ wrEmoji inp @ '' on message '' @ target
     else ''React with '' @ wrEmoji inp @ '' to message '' @ target)"

definition tools_react :: "mcp_lib \<Rightarrow> 'c FullClient \<Rightarrow> tools \<Rightarrow> mcp_request \<Rightarrow> reactInput \<Rightarrow> ('c, tool_result) tool" where
  "tools_react B C t req inp =
     tThen (tApp (wrapping ''message'' (messageRef C (wrMessage inp)))) (\<lambda>(target, chat0).
     tThen (if wrChat inp \<noteq> [] then tApp (andThen (ResolveChat (lbUUID B) (lbText B) C (wrChat inp)) (\<lambda>c. ret (chatArg c)))
            else tRet chat0) (\<lambda>chat.
       if chat = [] then tFail (Sentinel ErrNoChat)
       else tThen (tools_names C) (\<lambda>names.
         guarded (ask B C t req [chat] names (reactAction inp target))
           (React (lbUUID B) (lbUnicode B) (core C)
             \<lparr>rcRecipients = [chat], rcTarget = target, rcEmoji = wrEmoji inp, rcRemove = wrRemove inp\<rparr>))))"

definition deleteMessage :: "mcp_lib \<Rightarrow> 'c FullClient \<Rightarrow> tools \<Rightarrow> mcp_request \<Rightarrow> deleteMessageInput \<Rightarrow> ('c, tool_result) tool" where
  "deleteMessage B C t req inp =
     tThen (tApp (chatArgs (lbUUID B) (lbText B) C [wdChat inp])) (\<lambda>chats.
     tThen (tools_names C) (\<lambda>names.
       guarded (ask B C t req chats names (''Delete our message '' @ FormatNat (unat (wdTimestamp inp)) @ '' for everyone''))
         (App_Delete (lbUUID B) (core C) \<lparr>dqRecipients = chats, dqTarget = wdTimestamp inp\<rparr>)))"

section \<open>Polls (polls.go)\<close>

record pollCreateInput =
  wpGroupID :: string
  wpRecipient :: string
  wpQuestion :: string
  wpOptions :: "string list"
  wpSingleChoice :: bool

record pollVoteInput =
  wvGroupID :: string
  wvRecipient :: string
  wvTarget :: string
  wvOptionIndexes :: "u32 list"
  wvVoteCount :: "u32 option"
  wvClear :: bool

record pollCloseInput =
  wcGroupID :: string
  wcRecipient :: string
  wcTimestamp :: u64

definition confirmPoll ::
  "mcp_lib \<Rightarrow> 'c FullClient \<Rightarrow> tools \<Rightarrow> mcp_request \<Rightarrow> string \<Rightarrow> string \<Rightarrow> string \<Rightarrow> ('c, decision) tool" where
  "confirmPoll B C t req groupID recipient action = tThen (tools_names C) (\<lambda>names.
     ask B C t req [if groupID \<noteq> [] then ''group:'' @ groupID else recipient] names action)"

definition pollCreateAction :: "unicode_lib \<Rightarrow> pollCreateInput \<Rightarrow> string" where
  "pollCreateAction T inp = ''Create poll '' @ Quoted T (wpQuestion inp) @ '' with options [''
     @ joined '' '' (map (Quoted T) (wpOptions inp)) @ ''] (single choice: '' @ boolText (wpSingleChoice inp) @ '')''"

definition pollCreate :: "mcp_lib \<Rightarrow> 'c FullClient \<Rightarrow> tools \<Rightarrow> mcp_request \<Rightarrow> pollCreateInput \<Rightarrow> ('c, tool_result) tool" where
  "pollCreate B C t req inp = (let request = \<lparr>pcrGroupID = wpGroupID inp, pcrRecipient = wpRecipient inp,
       pcrQuestion = wpQuestion inp, pcrOptions = wpOptions inp, pcrSingleChoice = wpSingleChoice inp\<rparr> in
     case PollCreate_Check (lbUUID B) request of
       Some e \<Rightarrow> tFail e
     | None \<Rightarrow> guarded (confirmPoll B C t req (wpGroupID inp) (wpRecipient inp) (pollCreateAction (lbUnicode B) inp))
         (PollCreate (lbUUID B) (core C) request))"

definition pollVoteAction :: "pollVoteInput \<Rightarrow> string" where
  "pollVoteAction inp = ''Vote on poll '' @ wvTarget inp @ '' with options [''
     @ joined '' '' (map (\<lambda>i. FormatNat (unat i)) (wvOptionIndexes inp)) @ ''] (clear: '' @ boolText (wvClear inp)
     @ '', counter: '' @ (case wvVoteCount inp of None \<Rightarrow> ''automatic'' | Some n \<Rightarrow> FormatNat (unat n)) @ '')''"

definition pollVote :: "mcp_lib \<Rightarrow> 'c FullClient \<Rightarrow> tools \<Rightarrow> mcp_request \<Rightarrow> pollVoteInput \<Rightarrow> ('c, tool_result) tool" where
  "pollVote B C t req inp =
    (if wvVoteCount inp = Some 0 then tFail (Wrap ''voteCount must be positive'' [Sentinel ErrInvalidPoll])
     else let request = \<lparr>pvrGroupID = wvGroupID inp, pvrRecipient = wvRecipient inp, pvrTarget = wvTarget inp,
         pvrOptionIndexes = wvOptionIndexes inp, pvrVoteCount = (case wvVoteCount inp of None \<Rightarrow> 0 | Some n \<Rightarrow> n),
         pvrClear = wvClear inp\<rparr> in
       case PollVote_Check (lbUUID B) request of
         Some e \<Rightarrow> tFail e
       | None \<Rightarrow> guarded (confirmPoll B C t req (wvGroupID inp) (wvRecipient inp) (pollVoteAction inp))
           (App_PollVote (lbUUID B) (core C) request))"

definition pollClose :: "mcp_lib \<Rightarrow> 'c FullClient \<Rightarrow> tools \<Rightarrow> mcp_request \<Rightarrow> pollCloseInput \<Rightarrow> ('c, tool_result) tool" where
  "pollClose B C t req inp = (let request = \<lparr>pclGroupID = wcGroupID inp, pclRecipient = wcRecipient inp,
       pclTarget = wcTimestamp inp\<rparr> in
     case PollCloseRequest_Check (lbUUID B) request of
       Some e \<Rightarrow> tFail e
     | None \<Rightarrow> guarded (confirmPoll B C t req (wcGroupID inp) (wcRecipient inp) (''Close our poll at '' @ FormatNat (unat (wcTimestamp inp))))
         (App_PollClose (lbUUID B) (core C) request))"

section \<open>The server\<close>

datatype tool_input =
    InSendMessage sendMessageInput | InReact reactInput | InDeleteMessage deleteMessageInput
  | InPollCreate pollCreateInput | InPollVote pollVoteInput | InPollClose pollCloseInput

definition call_tool :: "mcp_lib \<Rightarrow> 'c FullClient \<Rightarrow> tools \<Rightarrow> mcp_request \<Rightarrow> tool_input \<Rightarrow> ('c, tool_result) tool" where
  "call_tool B C t req inp = (case inp of
     InSendMessage i \<Rightarrow> sendMessage B C t req i
   | InReact i \<Rightarrow> tools_react B C t req i
   | InDeleteMessage i \<Rightarrow> deleteMessage B C t req i
   | InPollCreate i \<Rightarrow> pollCreate B C t req i
   | InPollVote i \<Rightarrow> pollVote B C t req i
   | InPollClose i \<Rightarrow> pollClose B C t req i)"

text \<open>A read-only server has none of these tools; the SDK refuses calls that it can't decode.\<close>

definition serve_call ::
  "mcp_lib \<Rightarrow> (string \<Rightarrow> bytes \<Rightarrow> tool_input option) \<Rightarrow> 'c FullClient \<Rightarrow> tools \<Rightarrow> mcp_request \<Rightarrow> ('c, tool_result) tool" where
  "serve_call B D C t req = (case D (cpName (mqParams req)) (cpArguments (mqParams req)) of
     None \<Rightarrow> tFail (Opaque ''invalid call'')
   | Some inp \<Rightarrow> if toReadOnly t then tFail (Opaque ''unknown tool'') else call_tool B C t req inp)"

end
