(* ===== verification/Confirmation.thy ===== *)
theory Confirmation
  imports McpWrite
begin

text \<open>
  With --confirm, the MCP server sends only what the user accepted: every call of a tool that sends
  anything answers a question about the same call that the server asked before and that did not
  expire, and no question is used twice.
\<close>

section \<open>Runs of the server\<close>

text \<open>The client with a log of what it was given to send, as a client of the whole interface.\<close>

definition loggingFull :: "'c FullClient \<Rightarrow> ('c \<times> sent list) FullClient" where
  "loggingFull C = Client.extend (logging (core C)) (FullClient.fields (onFst (clContacts C)) (\<lambda>r. onFst (clContact C r))
     (\<lambda>rs b. onFst (clSetBlocked C rs b)) (onFst (clGroups C)) (onFst (clGroupTitles C)) (\<lambda>o'. onFst (clCreateGroup C o'))
     (\<lambda>g rs. onFst (clLeaveGroup C g rs)) (\<lambda>g n. onFst (clRenameGroup C g n)) (\<lambda>g u. onFst (clUpdateGroup C g u))
     (\<lambda>g rs. onFst (clAddGroupMembers C g rs)) (\<lambda>g rs. onFst (clRemoveGroupMembers C g rs))
     (\<lambda>g rs r. onFst (clSetGroupMemberRole C g rs r)) (\<lambda>g rs b. onFst (clSetGroupBanned C g rs b))
     (\<lambda>g. onFst (clGroupLink C g)) (\<lambda>g u. onFst (clUpdateGroupLink C g u)))"

lemma core_loggingFull [simp]: "core (loggingFull C) = logging (core C)"
  by (simp add: loggingFull_def Client.defs)

abbreviation sentLog :: "('c \<times> sent list) Mcp \<Rightarrow> sent list" where
  "sentLog s \<equiv> snd (world (mApp s))"

text \<open>A call with its result and whether anything was sent.\<close>

record call_event =
  evRequest :: mcp_request
  evResult :: "tool_result res"
  evSent :: bool

fun mcp_run ::
  "(mcp_request \<Rightarrow> ('c \<times> sent list, tool_result) tool) \<Rightarrow> mcp_request list \<Rightarrow> ('c \<times> sent list) Mcp \<Rightarrow> call_event list" where
  "mcp_run f [] s = []"
| "mcp_run f (req # reqs) s = (case f req s of (r, s') \<Rightarrow>
     \<lparr>evRequest = req, evResult = r, evSent = (sentLog s' \<noteq> sentLog s)\<rparr> # mcp_run f reqs s')"

text \<open>The call \<open>a\<close> asked, and \<open>b\<close>, the same call in time, carries the user's acceptance.\<close>

definition confirms :: "(bytes \<Rightarrow> string option) \<Rightarrow> call_event \<Rightarrow> call_event \<Rightarrow> bool" where
  "confirms J a b \<longleftrightarrow> (\<not> evSent a \<and> (\<exists>rid message. evResult a = Inr (ToolAsk rid message)
     \<and> (rid, Some ''accept'') \<in> set (cpResponses (mqParams (evRequest b)))
     \<and> callKey J (mqParams (evRequest a)) = callKey J (mqParams (evRequest b))
     \<and> mqNow (evRequest b) \<le> mqNow (evRequest a) + confirmTTL))"

section \<open>Calls that send nothing\<close>

definition quiet :: "('c \<times> sent list, 'a) action \<Rightarrow> bool" where
  "quiet m \<longleftrightarrow> (\<forall>s. snd (world (snd (m s))) = snd (world s))"

definition quietT :: "('c \<times> sent list, 'a) tool \<Rightarrow> bool" where
  "quietT m \<longleftrightarrow> (\<forall>s. sentLog (snd (m s)) = sentLog s \<and> mPending (snd (m s)) = mPending s)"

named_theorems quiet_intros \<open>rules for calls that send nothing\<close>

lemma quiet_frames: "(\<And>L. frames (\<lambda>w. snd w = L) m) \<Longrightarrow> quiet m"
  unfolding quiet_def frames_def by blast

lemma quiet_ret [quiet_intros]: "quiet (ret x)" "quiet (fail e)"
  by (simp_all add: quiet_def ret_def fail_def)

lemma quiet_andThen [quiet_intros]: "quiet m \<Longrightarrow> (\<And>x. quiet (f x)) \<Longrightarrow> quiet (andThen m f)"
  unfolding quiet_def andThen_def by (auto split: prod.splits sum.splits) (metis snd_conv)+

lemma quiet_wrapping [quiet_intros]: "quiet m \<Longrightarrow> quiet (wrapping ctx m)"
  unfolding quiet_def wrapping_def by (auto split: prod.splits sum.splits) (metis snd_conv)+

lemma quiet_onFst [quiet_intros]: "quiet (call (onFst f))"
  by (simp add: quiet_def call_def onFst_def split: prod.splits)

lemma quiet_client [quiet_intros]: "quiet (call (clAccount (logging K)))" "quiet (call (clInboxList (logging K) q))"
  "quiet (call (clContacts (loggingFull C)))" "quiet (call (clGroupTitles (loggingFull C)))"
  by (simp_all add: logging_def loggingFull_def Client.defs FullClient.defs quiet_intros)

lemma quiet_ResolveRecipients [quiet_intros]: "quiet (ResolveRecipients U (logging K) args)"
  by (intro quiet_frames log_inv.frames_ResolveRecipients)

lemma quiet_CheckRecipients [quiet_intros]: "quiet (CheckRecipients U (logging K) args)"
  unfolding CheckRecipients_def
proof (intro quiet_andThen quiet_ResolveRecipients)
  show "quiet (checkAllowed (logging K) ts)" for ts
    unfolding quiet_def using log_inv.checkAllowed_world [OF refl] by (metis surjective_pairing)
qed

lemma quiet_groupByTitle [quiet_intros]: "quiet (groupByTitle X (loggingFull C) title)"
  unfolding groupByTitle_def by (auto intro!: quiet_intros split: prod.split list.split)

lemma quiet_ResolveGroup [quiet_intros]: "quiet (ResolveGroup X (loggingFull C) arg)"
  unfolding ResolveGroup_def Let_def by (auto intro!: quiet_intros split: sum.split option.split)

lemma quiet_ResolveChat [quiet_intros]: "quiet (ResolveChat U X (loggingFull C) arg)"
  unfolding ResolveChat_def by (auto intro!: quiet_intros split: sum.split list.split)

lemma quiet_chatArgs [quiet_intros]: "quiet (chatArgs U X (loggingFull C) args)"
  by (induction args) (auto intro!: quiet_intros)

lemma quiet_Message [quiet_intros]: "quiet (Inbox_Message (logging K) ref)"
  unfolding Inbox_Message_def by (auto intro!: quiet_intros split: sum.split list.split Event.split)

lemma quiet_messageRef [quiet_intros]: "quiet (messageRef (loggingFull C) ref)"
  unfolding messageRef_def Let_def by (auto intro!: quiet_intros split: option.split)

lemma quiet_Names [quiet_intros]: "quiet (App_Names (loggingFull C))"
proof -
  have "quiet (\<lambda>s. case clGroupTitles (loggingFull C) (world s) of (r, w) \<Rightarrow> (g r, s\<lparr>world := w\<rparr>))" for g
    by (simp add: quiet_def loggingFull_def Client.defs FullClient.defs onFst_def split: prod.splits)
  then show ?thesis unfolding App_Names_def by (auto intro!: quiet_intros)
qed

lemma quietT_basic [quiet_intros]: "quietT (tRet x)" "quietT (tFail e)"
  by (simp_all add: quietT_def tRet_def tFail_def)

lemma quietT_App [quiet_intros]: "quiet m \<Longrightarrow> quietT (tApp m)"
  unfolding quietT_def quiet_def tApp_def by (auto split: prod.splits) (metis snd_conv)

lemma quietT_Then [quiet_intros]: "quietT m \<Longrightarrow> (\<And>x. quietT (g x)) \<Longrightarrow> quietT (tThen m g)"
  unfolding quietT_def tThen_def by (auto split: prod.splits sum.splits) (metis snd_conv)+

lemma quietT_names [quiet_intros]: "quietT (tools_names (loggingFull C))"
proof -
  have "snd (tools_names (loggingFull C) s) = snd (tApp (App_Names (loggingFull C)) s)" for s
    by (simp add: tools_names_def split: prod.split)
  then show ?thesis using quietT_App [OF quiet_Names, of C] by (simp add: quietT_def)
qed

section \<open>One call\<close>

text \<open>What a tool does about the confirmation: nothing is sent and the pending questions only get fewer,
  or it asks and remembers the question, or the request accepts a pending question, which is then
  gone.\<close>

definition behaves :: "(bytes \<Rightarrow> string option) \<Rightarrow> mcp_request \<Rightarrow> ('c \<times> sent list, tool_result) tool \<Rightarrow> bool" where
  "behaves J req m \<longleftrightarrow> (\<forall>s r s'. m s = (r, s') \<longrightarrow> distinct (map fst (mPending s)) \<longrightarrow>
     distinct (map fst (mPending s'))
   \<and> (sentLog s' = sentLog s \<and> map_of (mPending s') \<subseteq>\<^sub>m map_of (mPending s) \<and> (\<forall>rid message. r \<noteq> Inr (ToolAsk rid message))
    \<or> sentLog s' = sentLog s \<and> (\<exists>rid message c. r = Inr (ToolAsk rid message) \<and> map_of c \<subseteq>\<^sub>m map_of (mPending s)
        \<and> map_of (mPending s') = (map_of c)(rid \<mapsto> \<lparr>pgCall = callKey J (mqParams req), pgExpires = mqNow req + confirmTTL\<rparr>))
    \<or> (\<exists>rid p. (rid, Some ''accept'') \<in> set (cpResponses (mqParams req)) \<and> map_of (mPending s) rid = Some p
        \<and> pgCall p = callKey J (mqParams req) \<and> mqNow req \<le> pgExpires p
        \<and> map_of (mPending s') \<subseteq>\<^sub>m (map_of (mPending s))(rid := None) \<and> (\<forall>rid message. r \<noteq> Inr (ToolAsk rid message)))))"

lemma behaves_Then:
  assumes "quietT m" "\<And>x. behaves J req (f x)"
  shows "behaves J req (tThen m f)"
  unfolding behaves_def
proof (intro allI impI, goal_cases)
  case (1 s r s')
  obtain q s1 where q: "m s = (q, s1)" by (metis surj_pair)
  have s1: "sentLog s1 = sentLog s" "mPending s1 = mPending s" using assms(1) q unfolding quietT_def by (metis snd_conv)+
  show ?case
  proof (cases q)
    case (Inl e)
    then show ?thesis using 1 q s1 by (auto simp: tThen_def)
  next
    case (Inr x)
    then have "f x s1 = (r, s')" using 1(1) q by (simp add: tThen_def)
    from assms(2) [unfolded behaves_def, rule_format, OF this] 1(2) show ?thesis unfolding s1 by blast
  qed
qed

lemma behaves_fail: "behaves J req (tFail e)"
  by (simp add: behaves_def tFail_def)

lemma take_props:
  assumes "confirmer_take rid now c = (p, c')" "distinct (map fst c)"
  shows "distinct (map fst c')" "map_of c' = (map_of c)(rid := None)"
    "p = Some x \<Longrightarrow> map_of c rid = Some x \<and> now \<le> pgExpires x"
  using assms by (auto simp: confirmer_take_def distinct_delete delete_conv' split: option.splits if_splits)

lemma check_responses_props:
  assumes "check_responses key now rs c = (r, c')" "distinct (map fst c)"
  shows "distinct (map fst c') \<and> map_of c' \<subseteq>\<^sub>m map_of c
    \<and> (r = Inr True \<longrightarrow> (\<exists>rid p. (rid, Some ''accept'') \<in> set rs \<and> map_of c rid = Some p \<and> pgCall p = key \<and> now \<le> pgExpires p
         \<and> map_of c' \<subseteq>\<^sub>m (map_of c)(rid := None)))"
  using assms
proof (induction key now rs c rule: check_responses.induct)
  case (2 key now rid action rs c)
  obtain p c1 where t: "confirmer_take rid now c = (p, c1)" by fastforce
  note T = take_props [OF t 2(3)]
  show ?case
  proof (cases p)
    case None
    then have IH: "distinct (map fst c') \<and> map_of c' \<subseteq>\<^sub>m map_of c1
      \<and> (r = Inr True \<longrightarrow> (\<exists>rid p. (rid, Some ''accept'') \<in> set rs \<and> map_of c1 rid = Some p \<and> pgCall p = key \<and> now \<le> pgExpires p
           \<and> map_of c' \<subseteq>\<^sub>m (map_of c1)(rid := None)))"
      using 2(1) [OF t [symmetric] None _ T(1)] 2(2) t None by (simp add: fun_upd_def)
    have sub: "map_of c1 \<subseteq>\<^sub>m map_of c" by (simp add: T(2) map_le_def)
    have lift: "map_of c rid' = Some p \<and> map_of c' \<subseteq>\<^sub>m (map_of c)(rid' := None)"
      if "map_of c1 rid' = Some p" "map_of c' \<subseteq>\<^sub>m (map_of c1)(rid' := None)" for rid' p
    proof -
      have "(map_of c1)(rid' := None) \<subseteq>\<^sub>m (map_of c)(rid' := None)" by (auto simp: T(2) map_le_def)
      then have "map_of c' \<subseteq>\<^sub>m (map_of c)(rid' := None)" using that(2) by (rule map_le_trans [rotated])
      then show ?thesis using that(1) T(2) by (auto split: if_splits)
    qed
    have "map_of c' \<subseteq>\<^sub>m map_of c" using IH sub map_le_trans by blast
    moreover have "\<exists>rid' p. (rid', Some ''accept'') \<in> set ((rid, action) # rs) \<and> map_of c rid' = Some p \<and> pgCall p = key
      \<and> now \<le> pgExpires p \<and> map_of c' \<subseteq>\<^sub>m (map_of c)(rid' := None)" if "r = Inr True"
    proof -
      from IH that obtain rid' p where "(rid', Some ''accept'') \<in> set rs" "map_of c1 rid' = Some p" "pgCall p = key"
        "now \<le> pgExpires p" "map_of c' \<subseteq>\<^sub>m (map_of c1)(rid' := None)" by blast
      then show ?thesis using lift by (intro exI [of _ rid'] exI [of _ p]) auto
    qed
    ultimately show ?thesis using IH by blast
  next
    case (Some x)
    then show ?thesis using 2(2) t T by (auto simp: map_le_def split: if_splits)
  qed
qed auto

lemma add_props:
  assumes "confirmer_add key now random c = (rid, c')" "distinct (map fst c)"
  shows "distinct (map fst c')" "\<exists>c0. map_of c0 \<subseteq>\<^sub>m map_of c \<and> map_of c' = (map_of c0)(rid \<mapsto> \<lparr>pgCall = key, pgExpires = now + confirmTTL\<rparr>)"
proof -
  let ?c0 = "filter (\<lambda>(_, p). \<not> pgExpires p < now) c"
  have d: "distinct (map fst ?c0)" using assms(2) by (rule distinct_map_filter)
  have "map_of ?c0 \<subseteq>\<^sub>m map_of c" unfolding map_le_def dom_def
    using assms(2) d by (auto dest!: map_of_SomeD)
  then show "\<exists>c0. map_of c0 \<subseteq>\<^sub>m map_of c \<and> map_of c' = (map_of c0)(rid \<mapsto> \<lparr>pgCall = key, pgExpires = now + confirmTTL\<rparr>)"
    using assms(1) by (auto simp: confirmer_add_def Let_def)
  show "distinct (map fst c')" using assms(1) d by (auto simp: confirmer_add_def Let_def distinct_update)
qed

lemma behaves_guarded:
  assumes "toConfirm t"
  shows "behaves (lbJSON B) req (guarded (ask B (loggingFull C) t req chats names action) m)"
  unfolding behaves_def
proof (intro allI impI, goal_cases)
  case (1 s r s')
  let ?message = "action @ '' to '' @ chatLabels names chats @ ''?''"
  define key where "key = callKey (lbJSON B) (mqParams req)"
  obtain q s1 where q: "tApp (CheckRecipients (lbUUID B) (core (loggingFull C)) chats) s = (q, s1)" by (metis surj_pair)
  have s1: "sentLog s1 = sentLog s" "mPending s1 = mPending s"
    using quietT_App [OF quiet_CheckRecipients] q unfolding quietT_def core_loggingFull by (metis snd_conv)+
  obtain v c1 where v: "check_responses key (mqNow req) (cpResponses (mqParams req)) (mPending s) = (v, c1)" by fastforce
  note V = check_responses_props [OF v 1(2)]
  obtain rid c2 where a: "confirmer_add key (mqNow req) (mqRandom req) c1 = (rid, c2)" by fastforce
  note A = add_props [OF a V [THEN conjunct1]]
  note defs = guarded_def ask_def tools_confirm_def tThen_def tRet_def confirmer_check_def key_def [symmetric]
  consider e where "q = Inl e" | e where "q = Inr ()" "v = Inl e" | "q = Inr ()" "v = Inr True"
    | "q = Inr ()" "v = Inr False" "\<not> canElicit (mqSession req)" | "q = Inr ()" "v = Inr False" "canElicit (mqSession req)"
    by (cases q; cases v) auto
  then show ?case
  proof cases
    case 5
    then have "r = Inr (ToolAsk rid ?message)" "s' = s1\<lparr>mPending := c2\<rparr>"
      using 1(1) assms q v a s1 by (simp_all add: defs)
    moreover obtain c0 where "map_of c0 \<subseteq>\<^sub>m map_of c1"
      "map_of c2 = (map_of c0)(rid \<mapsto> \<lparr>pgCall = key, pgExpires = mqNow req + confirmTTL\<rparr>)" using A(2) by blast
    ultimately show ?thesis using A(1) V s1 unfolding key_def by (auto intro: map_le_trans)
  next
    case 3
    then have "\<exists>s2. sendResult m (s1\<lparr>mPending := c1\<rparr>) = (r, s2) \<and> s' = s2"
      using 1(1) assms q v s1 by (simp add: defs)
    then have "mPending s' = c1" "\<forall>rid message. r \<noteq> Inr (ToolAsk rid message)"
      by (auto simp: sendResult_def tApp_def split: prod.splits sum.splits option.splits if_splits)
    then show ?thesis using V 3 unfolding key_def by blast
  qed (use 1 assms q v s1 V in \<open>auto simp: defs\<close>)
qed

lemma behaves_confirmPoll:
  assumes "toConfirm t"
  shows "behaves (lbJSON B) req (guarded (confirmPoll B (loggingFull C) t req g r action) m)"
proof -
  have "guarded (tThen n h) m = tThen n (\<lambda>x. guarded (h x) m)" for n :: "('a \<times> sent list, NameBase) tool" and h
    by (simp add: guarded_def tThen_def fun_eq_iff split: prod.split sum.split)
  from this [of "tools_names (loggingFull C)"] show ?thesis unfolding confirmPoll_def
    by (simp only:) (rule behaves_Then [OF quietT_names behaves_guarded [OF assms]])
qed

lemma behaves_serve_call:
  assumes "toConfirm t"
  shows "behaves (lbJSON B) req (serve_call B D (loggingFull C) t req)"
proof -
  note rules = behaves_Then behaves_fail behaves_guarded [OF assms] behaves_confirmPoll [OF assms] quiet_intros
  have "behaves (lbJSON B) req (call_tool B (loggingFull C) t req inp)" for inp
    unfolding call_tool_def sendMessage_def tools_react_def deleteMessage_def pollCreate_def pollVote_def pollClose_def Let_def
    by (auto intro!: rules split: tool_input.split sum.split option.split prod.split)
  then show ?thesis unfolding serve_call_def by (auto intro: behaves_fail split: option.split)
qed

section \<open>A run\<close>

text \<open>What holds between the calls of a run: \<open>A\<close> gives the question that a call that sent used, and every
  pending question was asked and is unused.\<close>

definition accounted :: "(bytes \<Rightarrow> string option) \<Rightarrow> call_event list \<Rightarrow> (nat \<rightharpoonup> nat) \<Rightarrow> confirmer \<Rightarrow> bool" where
  "accounted J h A c \<longleftrightarrow> distinct (map fst c)
     \<and> dom A = {i. i < length h \<and> evSent (h ! i)} \<and> inj_on A (dom A)
     \<and> (\<forall>i j. A i = Some j \<longrightarrow> j < i \<and> confirms J (h ! j) (h ! i))
     \<and> (\<forall>rid p. map_of c rid = Some p \<longrightarrow> (\<exists>j<length h. Some j \<notin> range A \<and> \<not> evSent (h ! j) \<and> (\<exists>message. evResult (h ! j) = Inr (ToolAsk rid message))
          \<and> callKey J (mqParams (evRequest (h ! j))) = pgCall p \<and> pgExpires p = mqNow (evRequest (h ! j)) + confirmTTL))"

lemma accounted_less:
  assumes "accounted J h A c" "distinct (map fst c')" "map_of c' \<subseteq>\<^sub>m map_of c" "\<not> evSent e"
  shows "accounted J (h @ [e]) A c'"
proof -
  have old: "i < length h \<Longrightarrow> (h @ [e]) ! i = h ! i" for i by (simp add: nth_append)
  have "dom A = {i. i < length (h @ [e]) \<and> evSent ((h @ [e]) ! i)}"
    using assms(1,4) by (auto simp: accounted_def nth_append less_Suc_eq)
  moreover have "A i = Some j \<Longrightarrow> j < i \<and> confirms J ((h @ [e]) ! j) ((h @ [e]) ! i)" for i j
  proof -
    assume a: "A i = Some j"
    then have "i < length h" "j < i" "confirms J (h ! j) (h ! i)" using assms(1) by (auto simp: accounted_def dom_def)
    then show ?thesis by (simp add: nth_append)
  qed
  moreover have "\<exists>j<length (h @ [e]). Some j \<notin> range A \<and> \<not> evSent ((h @ [e]) ! j) \<and> (\<exists>message. evResult ((h @ [e]) ! j) = Inr (ToolAsk rid message))
      \<and> callKey J (mqParams (evRequest ((h @ [e]) ! j))) = pgCall p
      \<and> pgExpires p = mqNow (evRequest ((h @ [e]) ! j)) + confirmTTL" if "map_of c' rid = Some p" for rid p
  proof -
    have "map_of c rid = Some p" using assms(3) that by (metis domI map_le_def)
    then obtain j where "j < length h" "Some j \<notin> range A" "\<not> evSent (h ! j)" "\<exists>message. evResult (h ! j) = Inr (ToolAsk rid message)"
      "callKey J (mqParams (evRequest (h ! j))) = pgCall p" "pgExpires p = mqNow (evRequest (h ! j)) + confirmTTL"
      using assms(1) unfolding accounted_def by blast
    then show ?thesis using old by (intro exI [of _ j]) simp
  qed
  ultimately show ?thesis using assms(1,2) unfolding accounted_def by blast
qed

lemma accounted_step:
  assumes b: "behaves J req m" and run: "m s = (r, s')" and h: "accounted J h A (mPending s)"
  defines "e \<equiv> \<lparr>evRequest = req, evResult = r, evSent = (sentLog s' \<noteq> sentLog s)\<rparr>"
  shows "\<exists>A'. accounted J (h @ [e]) A' (mPending s')"
proof -
  have d: "distinct (map fst (mPending s))" using h by (simp add: accounted_def)
  note B = b [unfolded behaves_def, rule_format, OF run d]
  have dom: "A i = Some j \<Longrightarrow> i < length h" for i j using h by (auto simp: accounted_def dom_def)
  have unused: "Some (length h) \<notin> range A" using h dom unfolding accounted_def by (metis less_trans nat_neq_iff rangeE)
  consider (less) "sentLog s' = sentLog s" "map_of (mPending s') \<subseteq>\<^sub>m map_of (mPending s)"
    | (asks) rid message c where "sentLog s' = sentLog s" "r = Inr (ToolAsk rid message)" "map_of c \<subseteq>\<^sub>m map_of (mPending s)"
        "map_of (mPending s') = (map_of c)(rid \<mapsto> \<lparr>pgCall = callKey J (mqParams req), pgExpires = mqNow req + confirmTTL\<rparr>)"
    | (accepts) rid p where "(rid, Some ''accept'') \<in> set (cpResponses (mqParams req))" "map_of (mPending s) rid = Some p"
        "pgCall p = callKey J (mqParams req)" "mqNow req \<le> pgExpires p"
        "map_of (mPending s') \<subseteq>\<^sub>m (map_of (mPending s))(rid := None)"
    using B by blast
  then show ?thesis
  proof cases
    case less
    then show ?thesis using accounted_less [OF h, of "mPending s'" e] B by (auto simp: e_def)
  next
    case asks
    have "\<exists>j<length (h @ [e]). Some j \<notin> range A \<and> \<not> evSent ((h @ [e]) ! j) \<and> (\<exists>message. evResult ((h @ [e]) ! j) = Inr (ToolAsk rid' message))
      \<and> callKey J (mqParams (evRequest ((h @ [e]) ! j))) = pgCall p
      \<and> pgExpires p = mqNow (evRequest ((h @ [e]) ! j)) + confirmTTL" if "map_of (mPending s') rid' = Some p" for rid' p
    proof (cases "rid' = rid")
      case True
      then show ?thesis using that asks unused by (intro exI [of _ "length h"]) (auto simp: e_def)
    next
      case False
      then have "map_of c rid' = Some p" using that asks(4) by simp
      then have "map_of (mPending s) rid' = Some p" using asks(3) unfolding map_le_def by (metis domI)
      then obtain j where "j < length h" "Some j \<notin> range A" "\<not> evSent (h ! j)" "\<exists>message. evResult (h ! j) = Inr (ToolAsk rid' message)"
        "callKey J (mqParams (evRequest (h ! j))) = pgCall p" "pgExpires p = mqNow (evRequest (h ! j)) + confirmTTL"
        using h unfolding accounted_def by blast
      then show ?thesis by (intro exI [of _ j]) (simp add: nth_append)
    qed
    moreover have "accounted J (h @ [e]) A []" using accounted_less [OF h, of "[]" e] asks(1) by (simp add: e_def map_le_def)
    ultimately show ?thesis using B unfolding accounted_def by blast
  next
    case accepts
    then obtain j where j: "j < length h" "Some j \<notin> range A" "\<not> evSent (h ! j)" "\<exists>message. evResult (h ! j) = Inr (ToolAsk rid message)"
      "callKey J (mqParams (evRequest (h ! j))) = pgCall p" "pgExpires p = mqNow (evRequest (h ! j)) + confirmTTL"
      using h unfolding accounted_def by blast
    show ?thesis
    proof (cases "evSent e")
      case False
      have "map_of (mPending s') \<subseteq>\<^sub>m map_of (mPending s)" using accepts(5) by (rule map_le_trans) (auto simp: map_le_def)
      then show ?thesis using accounted_less [OF h _ _ False] B by blast
    next
      case True
      define A' where "A' = A(length h \<mapsto> j)"
      have "A (length h) = None" using dom [of "length h"] by (cases "A (length h)") auto
      then have rng: "Some k \<in> range A' \<longleftrightarrow> k = j \<or> Some k \<in> range A" for k by (auto simp: A'_def image_iff) (metis option.distinct(1))
      have "dom A' = {i. i < length (h @ [e]) \<and> evSent ((h @ [e]) ! i)}"
        using h True by (auto simp: accounted_def A'_def nth_append less_Suc_eq)
      moreover have "inj_on A' (dom A')"
        using h j(2) \<open>A (length h) = None\<close> by (auto simp: accounted_def A'_def inj_on_def split: if_splits) (metis rangeI)+
      moreover have "A' i = Some k \<Longrightarrow> k < i \<and> confirms J ((h @ [e]) ! k) ((h @ [e]) ! i)" for i k
      proof (cases "i = length h")
        case True
        moreover assume "A' i = Some k"
        ultimately have "k = j" by (simp add: A'_def)
        then show ?thesis using True j accepts(1,3,4) by (auto simp: confirms_def nth_append e_def)
      next
        case False
        moreover assume "A' i = Some k"
        ultimately have "A i = Some k" by (simp add: A'_def)
        then have "i < length h" "k < i" "confirms J (h ! k) (h ! i)" using h dom by (auto simp: accounted_def)
        then show ?thesis by (simp add: nth_append)
      qed
      moreover have "\<exists>k<length (h @ [e]). Some k \<notin> range A' \<and> \<not> evSent ((h @ [e]) ! k) \<and> (\<exists>message. evResult ((h @ [e]) ! k) = Inr (ToolAsk rid' message))
        \<and> callKey J (mqParams (evRequest ((h @ [e]) ! k))) = pgCall p
        \<and> pgExpires p = mqNow (evRequest ((h @ [e]) ! k)) + confirmTTL" if "map_of (mPending s') rid' = Some p" for rid' p
      proof -
        have "((map_of (mPending s))(rid := None)) rid' = Some p" using accepts(5) that unfolding map_le_def by (metis domI)
        then have r: "rid' \<noteq> rid" "map_of (mPending s) rid' = Some p" by (auto split: if_splits)
        then obtain k where k: "k < length h" "Some k \<notin> range A" "\<not> evSent (h ! k)" "\<exists>message. evResult (h ! k) = Inr (ToolAsk rid' message)"
          "callKey J (mqParams (evRequest (h ! k))) = pgCall p" "pgExpires p = mqNow (evRequest (h ! k)) + confirmTTL"
          using h unfolding accounted_def by blast
        then have "k \<noteq> j" using j(4) r(1) by auto
        then show ?thesis using k rng [of k] by (intro exI [of _ k]) (simp add: nth_append)
      qed
      ultimately show ?thesis using B unfolding accounted_def by blast
    qed
  qed
qed

lemma accounted_run:
  assumes "\<And>req. behaves J req (f req)" "accounted J h A (mPending s)"
  shows "\<exists>A' c. accounted J (h @ mcp_run f reqs s) A' c"
  using assms(2)
proof (induction reqs arbitrary: h A s)
  case (Cons req reqs)
  obtain r s' where run: "f req s = (r, s')" by fastforce
  obtain A' where "accounted J (h @ [\<lparr>evRequest = req, evResult = r, evSent = (sentLog s' \<noteq> sentLog s)\<rparr>]) A' (mPending s')"
    using accounted_step [OF assms(1) run Cons.prems] by blast
  from Cons.IH [OF this] show ?case by (simp add: run)
qed auto

text \<open>C2: With --confirm, whatever calls the clients make, every call of a tool (send_message, react,
  delete_message, poll_create, poll_vote, poll_close) after which anything was sent has an earlier call, of the same tool with the same arguments, that returned the question to
  the user instead; the later call comes within ten minutes of it and carries the acceptance of just
  this question; and no two such calls use the same question.\<close>

theorem sent_only_confirmed:
  assumes "toConfirm t" "mPending s = []" "calls = mcp_run (serve_call B D (loggingFull C) t) reqs s"
  shows "\<exists>asked. inj_on asked {i. i < length calls \<and> evSent (calls ! i)}
    \<and> (\<forall>i. i < length calls \<and> evSent (calls ! i) \<longrightarrow> asked i < i \<and> confirms (lbJSON B) (calls ! asked i) (calls ! i))"
proof -
  have "accounted (lbJSON B) [] Map.empty (mPending s)" by (simp add: accounted_def assms(2))
  from accounted_run [OF behaves_serve_call [OF assms(1), where B = B and D = D and C = C] this, where reqs = reqs]
  obtain A c where A: "accounted (lbJSON B) calls A c" by (auto simp: assms(3))
  then have "inj_on A (dom A)" "dom A = {i. i < length calls \<and> evSent (calls ! i)}"
    "\<forall>i j. A i = Some j \<longrightarrow> j < i \<and> confirms (lbJSON B) (calls ! j) (calls ! i)" unfolding accounted_def by blast+
  note A = this
  have "inj_on (\<lambda>i. the (A i)) (dom A)"
  proof (rule inj_onI)
    fix i i' assume "i \<in> dom A" "i' \<in> dom A" "the (A i) = the (A i')"
    then show "i = i'" using A(1) by (intro inj_onD [of A "dom A" i i']) auto
  qed
  moreover have "the (A i) < i \<and> confirms (lbJSON B) (calls ! the (A i)) (calls ! i)" if "i < length calls \<and> evSent (calls ! i)" for i
  proof -
    have "i \<in> dom A" using A(2) that by simp
    then show ?thesis using A(3) by auto
  qed
  ultimately show ?thesis unfolding A(2) by (intro exI [of _ "\<lambda>i. the (A i)"]) blast
qed

text \<open>A server with --confirm whose client asks to close a poll in the note to self, accepts the question
  and repeats the accepted call: the first and the third call ask, the second closes the poll.\<close>

definition demoLibs :: mcp_lib where
  "demoLibs = \<lparr>lbUUID = plain_uuid, lbFiles = demoFiles,
     lbUnicode = \<lparr>unicode_IsLetter = (\<lambda>_. False), unicode_IsPrint = (\<lambda>_. True)\<rparr>,
     lbText = \<lparr>tlEqualFold = (=), tlToLower = (\<lambda>s. s)\<rparr>, lbJSON = (\<lambda>raw. None)\<rparr>"

definition demoFull :: "unit FullClient" where
  "demoFull = Client.extend demoClient
     (FullClient.fields (\<lambda>w. (Inr [], w)) (\<lambda>r w. (Inl (Sentinel ErrUnknownContact), w)) (\<lambda>rs b w. (None, w))
       (\<lambda>w. (Inr [], w)) (\<lambda>w. (Inr [], w)) (\<lambda>opts w. ((demoGroup, None), w)) (\<lambda>g rs w. (Inl (Sentinel ErrNotAMember), w))
       (\<lambda>g n w. (Inr demoGroup, w)) (\<lambda>g u w. ((demoGroup, None), w)) (\<lambda>g rs w. ((demoGroup, None), w))
       (\<lambda>g rs w. ((demoGroup, None), w)) (\<lambda>g rs r w. ((demoGroup, None), w)) (\<lambda>g rs b w. ((demoGroup, None), w))
       (\<lambda>g w. ((\<lparr>glID = g, glRevision = 0, glState = [], glURL = []\<rparr>, None), w))
       (\<lambda>g u w. ((\<lparr>glID = g, glRevision = 0, glState = [], glURL = []\<rparr>, None), w)))"

definition demoTools :: tools where
  "demoTools = \<lparr>toAttachDir = [], toConfirm = True, toReadOnly = False\<rparr>"

definition demoInput :: pollCloseInput where
  "demoInput = \<lparr>wcGroupID = [], wcRecipient = ''self'', wcTimestamp = 5\<rparr>"

definition demoCall :: "(string \<times> string option) list \<Rightarrow> time \<Rightarrow> mcp_request" where
  "demoCall responses now = \<lparr>mqNow = now, mqRandom = ''r'', mqSession = Some (Some \<lparr>ipElicitation = Some True\<rparr>),
     mqParams = \<lparr>cpName = ''close_poll'', cpArguments = [], cpResponses = responses\<rparr>\<rparr>"

definition demoServer :: "(unit \<times> sent list) Mcp" where
  "demoServer = \<lparr>mApp = demoLogged, mPending = []\<rparr>"

abbreviation demoServe :: "mcp_request \<Rightarrow> (unit \<times> sent list, tool_result) tool" where
  "demoServe \<equiv> serve_call demoLibs (\<lambda>name args. Some (InPollClose demoInput)) (loggingFull demoFull) demoTools"

definition demoCalls :: "call_event list" where
  "demoCalls = mcp_run demoServe
     [demoCall [] 0, demoCall [(''confirm-r'', Some ''accept'')] 1, demoCall [(''confirm-r'', Some ''accept'')] 2] demoServer"

lemma demoFull_core: "core demoFull = demoClient"
  by (simp add: demoFull_def Client.defs)

lemma demo_account: "clAccount (logging demoClient) w = (Inr demoAccount, w)"
  by (cases w) (simp add: logging_def onFst_def demoClient_def)

lemma demo_own_names: "tools_names (loggingFull demoFull) s = (Inr (NewNames (accACI demoAccount) []), s)"
proof -
  have "clContacts (loggingFull demoFull) w = (Inr [], w)" "clGroupTitles (loggingFull demoFull) w = (Inr [], w)" for w
    by (cases w; simp add: loggingFull_def Client.defs FullClient.defs onFst_def demoFull_def)+
  then show ?thesis
    by (simp add: tools_names_def tApp_def App_Names_def action_defs demoFull_core demo_account
        WithGroups_def cachedTitles_def NewNames_def noNames_def)
qed

lemma demo_self:
  "ResolveRecipients plain_uuid (logging demoClient) [''self''] s = (Inr [selfTarget demoAccount], s)"
  by (simp add: ResolveRecipients_def parse_self resolveUsers_def markSelf_def action_defs noTarget_def
      Target_IsGroup_def isOwn_def demo_account dedupe_def errors_Join_def)

lemma demo_recipient: "pollRecipient plain_uuid [] ''self'' = Inr ''self''"
  by (simp add: pollRecipient_def parse_self noTarget_def noRecipient_def Target_IsGroup_def plain_uuid_def plain_uuid_String_def)

definition demoRequestClose :: PollCloseRequest where
  "demoRequestClose = \<lparr>pclGroupID = [], pclRecipient = ''self'', pclTarget = 5\<rparr>"

lemma demo_check: "PollCloseRequest_Check plain_uuid demoRequestClose = None"
  by (simp add: PollCloseRequest_Check_def demoRequestClose_def demo_recipient PollClose_Check_def wrap_err_def)

lemma demo_pollClose:
  assumes "allow (mApp s) = None"
  shows "\<exists>message. demoServe req s =
    (case confirmer_check (lbJSON demoLibs) req message (mPending s) of
       (Inl e, c) \<Rightarrow> (Inl e, s\<lparr>mPending := c\<rparr>)
     | (Inr (AskUser rid m), c) \<Rightarrow> (Inr (ToolAsk rid m), s\<lparr>mPending := c\<rparr>)
     | (Inr GoAhead, c) \<Rightarrow> sendResult (App_PollClose plain_uuid (logging demoClient) demoRequestClose) (s\<lparr>mPending := c\<rparr>))"
proof -
  have "CheckRecipients plain_uuid (logging demoClient) [''self''] (mApp s) = (Inr (), mApp s)"
    by (simp add: CheckRecipients_def andThen_def demo_self checkAllowed_def assms)
  then show ?thesis
    by (intro exI [of _ "(''Close our poll at '' @ FormatNat (unat (5::u64))) @ '' to '' @
          chatLabels (NewNames (accACI demoAccount) []) [''self''] @ ''?''"])
      (simp add: serve_call_def call_tool_def pollClose_def demoInput_def demo_check [unfolded demoRequestClose_def]
        demoRequestClose_def demoLibs_def demoTools_def guarded_def confirmPoll_def ask_def tThen_def demo_own_names
        tools_confirm_def demoFull_core tApp_def tRet_def split: prod.split sum.split decision.split)
qed

lemma demo_closes:
  "\<exists>res s'. sendResult (App_PollClose plain_uuid (logging demoClient) demoRequestClose)
      \<lparr>mApp = demoLogged, mPending = c\<rparr> = (Inr (ToolSent res False), s') \<and> length (sentLog s') = 1 \<and> mPending s' = c
    \<and> allow (mApp s') = None"
proof -
  have d: "destination plain_uuid [] ''self'' = ''self''" by (simp add: destination_def demo_recipient)
  have a: "connectSendOnly (logging demoClient) demoLogged = (Inr (), demoLogged)" "allow demoLogged = None"
    by (simp_all add: connectSendOnly_def logging_def onFst_def demoClient_def demoLogged_def)
  have run: "App_PollClose plain_uuid (logging demoClient) demoRequestClose demoLogged
      = andThen (nextTimestamp (logging demoClient)) (\<lambda>ts. andThen (dispatch (logging demoClient) ''poll close''
          (noContent\<lparr>cnPollClose := Some \<lparr>clTargetTimestamp = 5\<rparr>\<rparr>) [selfTarget demoAccount] ts)
          (\<lambda>(res, e). ret (res, e, aciRecipient (accACI demoAccount)))) demoLogged"
    by (simp add: App_PollClose_def demo_check)
      (simp add: demoRequestClose_def d sendContent_def sendPreparedContent_def checkAllowed_def a demo_self demo_account
        andThen_def wrapping_def ofCheck_def ofRes_def ret_def call_def)
  obtain res s' where "App_PollClose plain_uuid (logging demoClient) demoRequestClose demoLogged
      = (Inr (res, None, aciRecipient (accACI demoAccount)), s')" "length (snd (world s')) = 1" "allow s' = None"
    unfolding run
    by (simp add: action_defs logging_def onFst_def noting_def demoClient_def demoLogged_def Let_def nextTimestamp_def
        dispatch_def sendToUsers_def newResult_def sendToGroups_def selfTarget_def Target_IsGroup_def demoSent_def
        SendResult_err_def SendResult_Failed_def TargetResult_OK_def FailedMembers_def)
  then show ?thesis by (simp add: sendResult_def tApp_def)
qed

lemma demo_key: "callKey (lbJSON demoLibs) (mqParams (demoCall responses now)) = ''close_poll ''"
  by (simp add: callKey_def demoCall_def demoLibs_def)

lemma demo_asks:
  assumes "allow (mApp s) = None" "mPending s = []" "responses = [] \<or> responses = [(''confirm-r'', Some ''accept'')]"
  shows "\<exists>message. demoServe (demoCall responses now) s = (Inr (ToolAsk ''confirm-r'' message),
    s\<lparr>mPending := [(''confirm-r'', \<lparr>pgCall = ''close_poll '', pgExpires = now + confirmTTL\<rparr>)]\<rparr>)"
proof -
  have "confirmer_check (lbJSON demoLibs) (demoCall responses now) message [] = (Inr (AskUser ''confirm-r'' message),
      [(''confirm-r'', \<lparr>pgCall = ''close_poll '', pgExpires = now + confirmTTL\<rparr>)])" for message
    using assms(3) unfolding confirmer_check_def demo_key
    by (auto simp: demoCall_def Let_def confirmer_take_def confirmer_add_def canElicit_def)
  then show ?thesis using demo_pollClose [OF assms(1), of "demoCall responses now"] assms(2) by auto
qed

lemma demo_calls: "map evSent demoCalls = [False, True, False]"
proof -
  let ?c = "[(''confirm-r'', \<lparr>pgCall = ''close_poll '', pgExpires = confirmTTL\<rparr>)]"
  have l: "allow demoLogged = None" by (simp add: demoLogged_def)
  obtain m where one: "demoServe (demoCall [] 0) demoServer = (Inr (ToolAsk ''confirm-r'' m), \<lparr>mApp = demoLogged, mPending = ?c\<rparr>)"
    using demo_asks [of demoServer "[]" 0] l by (auto simp: demoServer_def)
  have "confirmer_check (lbJSON demoLibs) (demoCall [(''confirm-r'', Some ''accept'')] 1) message ?c = (Inr GoAhead, [])" for message
    unfolding confirmer_check_def demo_key by (simp add: demoCall_def Let_def confirmer_take_def confirmTTL_def)
  then obtain res s2 where two: "demoServe (demoCall [(''confirm-r'', Some ''accept'')] 1) \<lparr>mApp = demoLogged, mPending = ?c\<rparr>
      = (Inr (ToolSent res False), s2)" "length (sentLog s2) = 1" "mPending s2 = []" "allow (mApp s2) = None"
    using demo_pollClose [of "\<lparr>mApp = demoLogged, mPending = ?c\<rparr>" "demoCall [(''confirm-r'', Some ''accept'')] 1"]
      demo_closes [of "[]"] l by auto
  obtain m' where three: "demoServe (demoCall [(''confirm-r'', Some ''accept'')] 2) s2 = (Inr (ToolAsk ''confirm-r'' m'),
      s2\<lparr>mPending := [(''confirm-r'', \<lparr>pgCall = ''close_poll '', pgExpires = 2 + confirmTTL\<rparr>)]\<rparr>)"
    using demo_asks [OF two(4,3), of _ 2] by blast
  have "sentLog s2 \<noteq> []" "snd (world demoLogged) = []" using two(2) by (auto simp: demoLogged_def)
  then show ?thesis using two(1) by (simp add: demoCalls_def one three, simp add: demoServer_def)
qed

theorem sent_only_confirmed_witness:
  "evSent (demoCalls ! 1) \<and> confirms (lbJSON demoLibs) (demoCalls ! 0) (demoCalls ! 1) \<and> \<not> evSent (demoCalls ! 2)"
proof -
  obtain a b c where calls: "demoCalls = [a, b, c]" "evSent b" "\<not> evSent c"
    using demo_calls by (auto simp: map_eq_Cons_conv)
  have n: "length demoCalls = 3" and sent: "evSent (demoCalls ! 1)" "\<not> evSent (demoCalls ! 2)"
    unfolding calls(1) by (simp_all add: calls(2,3))
  obtain asked where "\<forall>i. i < length demoCalls \<and> evSent (demoCalls ! i) \<longrightarrow>
      asked i < i \<and> confirms (lbJSON demoLibs) (demoCalls ! asked i) (demoCalls ! i)"
    using sent_only_confirmed [OF _ _ demoCalls_def] by (auto simp: demoTools_def demoServer_def)
  from this [rule_format, of 1] n sent have "asked 1 = 0" "confirms (lbJSON demoLibs) (demoCalls ! asked 1) (demoCalls ! 1)"
    by auto
  then show ?thesis using sent by metis
qed

end
