(* ===== verification/GroupWire.thy ===== *)
theory GroupWire
  imports Names
begin

text \<open>
  Groups as the library signalmeow hands them over and the changes that are sent to the server
  (internal/signal meow\_groups.go and meow\_groups\_{add,remove,roles,bans,update,link,rename,
  create}.go): the conversion to the client's groups and the change that each operation asks for.
  Pointers in the library's lists may be nil: they are options.
\<close>

section \<open>The library's types\<close>

datatype WireRole = RoleUnknown | RoleDefault | RoleAdministrator

datatype AccessControl =
    AccessUnknown | AccessAny | AccessMember | AccessAdministrator | AccessUnsatisfiable

datatype ServiceIDType = ServiceIDTypeACI | ServiceIDTypePNI | ServiceIDTypeOther nat

record ServiceID =
  sidType :: ServiceIDType
  sidUUID :: uuid

definition aciServiceID :: "uuid \<Rightarrow> ServiceID" where
  "aciServiceID u = \<lparr>sidType = ServiceIDTypeACI, sidUUID = u\<rparr>"

definition pniServiceID :: "uuid \<Rightarrow> ServiceID" where
  "pniServiceID u = \<lparr>sidType = ServiceIDTypePNI, sidUUID = u\<rparr>"

record RawMember =
  rwACI :: uuid
  rwRole :: WireRole
  rwJoined :: u32

record RawPending =
  rpService :: ServiceID
  rpRole :: WireRole
  rpAddedBy :: uuid
  rpTimestamp :: u64

record RawRequesting =
  rrqACI :: uuid
  rrqTimestamp :: u64

record RawBanned =
  rbService :: ServiceID
  rbTimestamp :: u64

record RawAccess =
  raAttributes :: AccessControl
  raMembers :: AccessControl
  raInviteLink :: AccessControl

record RawGroup =
  rgID :: string
  rgMasterKey :: string
  rgTitle :: string
  rgDescription :: string
  rgAvatarPath :: string
  rgRevision :: u32
  rgTimer :: u32
  rgAnnouncementsOnly :: bool
  rgMembers :: "RawMember option list"
  rgPending :: "RawPending option list"
  rgRequesting :: "RawRequesting option list"
  rgBanned :: "RawBanned option list"
  rgAccess :: "RawAccess option"
  rgLinkPassword :: "string option"

record GroupChange =
  chTitle :: "string option"
  chDescription :: "string option"
  chAvatar :: "string option"
  chTimer :: "u32 option"
  chAnnouncementsOnly :: "bool option"
  chAttributesAccess :: "AccessControl option"
  chMemberAccess :: "AccessControl option"
  chLinkAccess :: "AccessControl option"
  chLinkPassword :: "string option"
  chAddMembers :: "RawMember list"
  chDeleteMembers :: "uuid list"
  chModifyRoles :: "(uuid \<times> WireRole) list"
  chDeletePending :: "ServiceID list"
  chDeleteRequesting :: "uuid list"
  chPromoteRequesting :: "(uuid \<times> WireRole) list"
  chAddBanned :: "RawBanned list"
  chDeleteBanned :: "ServiceID list"
  chMasterKey :: string
  chRevision :: u32

definition noChange :: GroupChange where
  "noChange = \<lparr>chTitle = None, chDescription = None, chAvatar = None, chTimer = None, chAnnouncementsOnly = None,
     chAttributesAccess = None, chMemberAccess = None, chLinkAccess = None, chLinkPassword = None, chAddMembers = [],
     chDeleteMembers = [], chModifyRoles = [], chDeletePending = [], chDeleteRequesting = [], chPromoteRequesting = [],
     chAddBanned = [], chDeleteBanned = [], chMasterKey = [], chRevision = 0\<rparr>"

section \<open>Conversion (meow\_groups.go, meow\_send.go)\<close>

definition somes :: "'a option list \<Rightarrow> 'a list" where
  "somes xs = map the (filter (\<lambda>x. x \<noteq> None) xs)"

definition serviceRecipient :: "uuid_lib \<Rightarrow> ServiceID \<Rightarrow> Recipient" where
  "serviceRecipient U sid = (if sidType sid = ServiceIDTypePNI then pniRecipient (uuid_String U (sidUUID sid))
     else aciRecipient (uuid_String U (sidUUID sid)))"

definition acceptServiceID :: "uuid_lib \<Rightarrow> Recipient \<Rightarrow> ServiceID" where
  "acceptServiceID U invited = (if rACI invited \<noteq> [] then aciServiceID (acceptIdentity U (rACI invited))
     else pniServiceID (acceptIdentity U (rPNI invited)))"

definition convertRole :: "WireRole \<Rightarrow> GroupRole" where
  "convertRole role = (case role of
     RoleAdministrator \<Rightarrow> GroupRoleAdmin | RoleDefault \<Rightarrow> GroupRoleMember | RoleUnknown \<Rightarrow> GroupRoleUnknown)"

definition msTime :: "u64 \<Rightarrow> time" where
  "msTime ms = (if ms = 0 then time_zero else fromUnixMilli (sint ms))"

definition convertGroupAccess :: "RawAccess option \<Rightarrow> bool \<times> bool" where
  "convertGroupAccess access = (case access of
     None \<Rightarrow> (False, False) | Some a \<Rightarrow> (raAttributes a = AccessMember, raMembers a = AccessMember))"

definition convertMember :: "uuid_lib \<Rightarrow> RawMember \<Rightarrow> GroupMember" where
  "convertMember U m = \<lparr>gmRecipient = aciRecipient (uuid_String U (rwACI m)), gmRole = convertRole (rwRole m),
     gmJoinedAtRevision = rwJoined m\<rparr>"

definition convertPending :: "uuid_lib \<Rightarrow> RawPending \<Rightarrow> PendingMember" where
  "convertPending U p = \<lparr>pmRecipient = serviceRecipient U (rpService p), pmRole = convertRole (rpRole p),
     pmAddedBy = (if rpAddedBy p \<noteq> uuid_Nil then aciRecipient (uuid_String U (rpAddedBy p)) else noRecipient),
     pmInvitedAt = msTime (rpTimestamp p)\<rparr>"

definition convertRequesting :: "uuid_lib \<Rightarrow> RawRequesting \<Rightarrow> RequestingMember" where
  "convertRequesting U r = \<lparr>rqRecipient = aciRecipient (uuid_String U (rrqACI r)), rqRequestedAt = msTime (rrqTimestamp r)\<rparr>"

definition convertBanned :: "uuid_lib \<Rightarrow> RawBanned \<Rightarrow> BannedMember" where
  "convertBanned U b = \<lparr>bnRecipient = serviceRecipient U (rbService b), bnBannedAt = msTime (rbTimestamp b)\<rparr>"

definition convertBannedMembers :: "uuid_lib \<Rightarrow> RawBanned option list \<Rightarrow> BannedMember list" where
  "convertBannedMembers U raw = map (convertBanned U) (somes raw)"

definition convertGroup :: "uuid_lib \<Rightarrow> RawGroup \<Rightarrow> Recipient \<Rightarrow> Group" where
  "convertGroup U raw self =
    (let g = \<lparr>gAvatarPath = rgAvatarPath raw, gID = rgID raw, gMasterKey = rgMasterKey raw, gTitle = rgTitle raw,
           gDescription = rgDescription raw, gRevision = rgRevision raw, gTimer = uint (rgTimer raw) * 1000000000,
           gAnnouncementsOnly = rgAnnouncementsOnly raw, gMembersCanEditAttributes = False, gMembersCanAddMembers = False,
           gMembers = map (convertMember U) (somes (rgMembers raw)), gPending = map (convertPending U) (somes (rgPending raw)),
           gRequesting = map (convertRequesting U) (somes (rgRequesting raw)),
           gBanned = convertBannedMembers U (rgBanned raw), gMembership = MembershipNone, gRole = GroupRoleUnknown,
           gLeftAt = time_zero, gErr = None\<rparr>;
         (membership, role) = SelfMembership U g self;
         (attributes, members) = convertGroupAccess (rgAccess raw)
     in g\<lparr>gMembership := membership, gRole := role, gMembersCanEditAttributes := attributes,
          gMembersCanAddMembers := members\<rparr>)"

section \<open>Results\<close>

text \<open>\<open>uuid.MustParse\<close> panics on a text that is no UUID.\<close>

definition mustParse :: "uuid_lib \<Rightarrow> string \<Rightarrow> uuid res" where
  "mustParse U s = (case uuid_Parse U s of None \<Rightarrow> Inl panic | Some u \<Rightarrow> Inr u)"

fun foldRes :: "('a \<Rightarrow> 'b \<Rightarrow> 'b res) \<Rightarrow> 'a list \<Rightarrow> 'b \<Rightarrow> 'b res" where
  "foldRes f [] acc = Inr acc"
| "foldRes f (x # xs) acc = (case f x acc of Inl e \<Rightarrow> Inl e | Inr acc' \<Rightarrow> foldRes f xs acc')"

section \<open>Adding members (meow\_groups\_add.go)\<close>

definition addMember :: "uuid_lib \<Rightarrow> RawGroup \<Rightarrow> Group \<Rightarrow> Recipient \<Rightarrow> GroupChange \<Rightarrow> GroupChange res" where
  "addMember U raw g target change = (case mustParse U (rACI target) of
     Inl e \<Rightarrow> Inl e
   | Inr aci \<Rightarrow>
       if list_ex (\<lambda>b. rbService b = aciServiceID aci) (somes (rgBanned raw))
       then Inl (Wrap ''is banned from the group'' [Sentinel ErrInvalidGroupMember])
       else if fst (MembershipOf g (rACI target)) = MembershipRequesting
       then Inr (change\<lparr>chPromoteRequesting := chPromoteRequesting change @ [(aci, RoleDefault)]\<rparr>)
       else Inr (change\<lparr>chAddMembers := chAddMembers change @ [\<lparr>rwACI = aci, rwRole = RoleDefault, rwJoined = 0\<rparr>]\<rparr>))"

definition addMembersChange :: "uuid_lib \<Rightarrow> RawGroup \<Rightarrow> string \<Rightarrow> Recipient list \<Rightarrow> GroupChange res" where
  "addMembersChange U raw self members = (let g = convertGroup U raw (aciRecipient self) in
     case CheckAddMembers U g self members of
       Inl e \<Rightarrow> Inl e
     | Inr targets \<Rightarrow> foldRes (addMember U raw g) targets noChange)"

section \<open>Removing members (meow\_groups\_remove.go)\<close>

definition removeMembersChangeAs ::
  "uuid_lib \<Rightarrow> Group \<Rightarrow> Recipient \<Rightarrow> Recipient list \<Rightarrow> (GroupChange \<times> Group) res" where
  "removeMembersChangeAs U g self members = (case removalTargets U g self members of
     Inl e \<Rightarrow> Inl e
   | Inr targets \<Rightarrow> Inr (noChange\<lparr>
       chDeleteMembers := map (\<lambda>m. acceptIdentity U (memberACI m))
         (filter (\<lambda>m. removalMatches U (aciRecipient (memberACI m)) targets) (gMembers g)),
       chDeletePending := map (\<lambda>p. acceptServiceID U (pmRecipient p))
         (filter (\<lambda>p. removalMatches U (pmRecipient p) targets) (gPending g)),
       chDeleteRequesting := map (\<lambda>r. acceptIdentity U (rACI (rqRecipient r)))
         (filter (\<lambda>r. removalMatches U (aciRecipient (rACI (rqRecipient r))) targets) (gRequesting g))\<rparr>,
       withRemovedTargets U g targets))"

section \<open>Roles (meow\_groups\_roles.go)\<close>

definition roleStep :: "uuid_lib \<Rightarrow> Group \<Rightarrow> GroupRole \<Rightarrow> Recipient \<Rightarrow> GroupChange \<Rightarrow> GroupChange res" where
  "roleStep U g role member change =
    (if snd (MembershipOf g (rACI member)) = role then Inr change
     else case mustParse U (rACI member) of
       Inl e \<Rightarrow> Inl e
     | Inr aci \<Rightarrow> Inr (change\<lparr>chModifyRoles := chModifyRoles change
         @ [(aci, if role = GroupRoleAdmin then RoleAdministrator else RoleDefault)]\<rparr>))"

text \<open>No change is None.\<close>

definition memberRoleChange ::
  "uuid_lib \<Rightarrow> RawGroup \<Rightarrow> string \<Rightarrow> Recipient list \<Rightarrow> GroupRole \<Rightarrow> GroupChange option res" where
  "memberRoleChange U raw self members role = (let g = convertGroup U raw (aciRecipient self) in
     case WithMemberRole U g self members role of
       Inl e \<Rightarrow> Inl e
     | Inr next \<Rightarrow>
         if gRevision next = gRevision g then Inr None
         else case foldRes (roleStep U g role)
             (case NormalizeGroupRoleMembers U members role of Inl _ \<Rightarrow> [] | Inr ms \<Rightarrow> ms) noChange of
           Inl e \<Rightarrow> Inl e | Inr change \<Rightarrow> Inr (Some change))"

section \<open>Bans (meow\_groups\_bans.go)\<close>

definition banStep :: "uuid_lib \<Rightarrow> Group \<Rightarrow> bool \<Rightarrow> time \<Rightarrow> Recipient \<Rightarrow> GroupChange \<Rightarrow> GroupChange res" where
  "banStep U g banned bannedAt member change = (case mustParse U (rACI member) of
     Inl e \<Rightarrow> Inl e
   | Inr aci \<Rightarrow> (let sid = aciServiceID aci in
       if \<not> banned
       then Inr (if bannedACI g (rACI member) then change\<lparr>chDeleteBanned := chDeleteBanned change @ [sid]\<rparr> else change)
       else Inr (change\<lparr>
         chDeleteMembers := chDeleteMembers change
           @ (if list_ex (\<lambda>m. memberACI m = rACI member) (gMembers g) then [aci] else []),
         chDeletePending := chDeletePending change
           @ (if list_ex (\<lambda>p. rACI (pmRecipient p) = rACI member) (gPending g) then [sid] else []),
         chDeleteRequesting := chDeleteRequesting change
           @ (if list_ex (\<lambda>r. rACI (rqRecipient r) = rACI member) (gRequesting g) then [aci] else []),
         chAddBanned := chAddBanned change
           @ (if bannedACI g (rACI member) then []
              else [\<lparr>rbService = sid, rbTimestamp = of_int (UnixMilli bannedAt)\<rparr>])\<rparr>)))"

definition bannedMembersChange ::
  "uuid_lib \<Rightarrow> RawGroup \<Rightarrow> string \<Rightarrow> Recipient list \<Rightarrow> bool \<Rightarrow> time \<Rightarrow> GroupChange option res" where
  "bannedMembersChange U raw self members banned bannedAt = (let g = convertGroup U raw (aciRecipient self) in
     case WithBannedMembers U g self members banned bannedAt of
       Inl e \<Rightarrow> Inl e
     | Inr next \<Rightarrow>
         if gRevision next = gRevision g then Inr None
         else case foldRes (banStep U g banned bannedAt)
             (case NormalizeGroupBanMembers U members of Inl _ \<Rightarrow> [] | Inr ms \<Rightarrow> ms) noChange of
           Inl e \<Rightarrow> Inl e | Inr change \<Rightarrow> Inr (Some change))"

section \<open>Settings (meow\_groups\_update.go)\<close>

definition settingsAccess :: "bool \<Rightarrow> AccessControl" where
  "settingsAccess members = (if members then AccessMember else AccessAdministrator)"

definition settingsAccessChanges :: "RawAccess option \<Rightarrow> GroupUpdate \<Rightarrow> GroupChange \<Rightarrow> GroupChange" where
  "settingsAccessChanges raw update change =
    (let (attributes, members) = (case raw of None \<Rightarrow> (AccessUnknown, AccessUnknown)
           | Some a \<Rightarrow> (raAttributes a, raMembers a));
         wanted = (\<lambda>current setting. case setting of
           None \<Rightarrow> None | Some b \<Rightarrow> if current \<noteq> settingsAccess b then Some (settingsAccess b) else None)
     in change\<lparr>
       chAttributesAccess := (case wanted attributes (guMembersCanEditAttributes update) of
          None \<Rightarrow> chAttributesAccess change | x \<Rightarrow> x),
       chMemberAccess := (case wanted members (guMembersCanAddMembers update) of
          None \<Rightarrow> chMemberAccess change | x \<Rightarrow> x)\<rparr>)"

text \<open>The timer only changes when the update names one; else Go would dereference nil.\<close>

definition settingsChange :: "uuid_lib \<Rightarrow> image_lib \<Rightarrow> RawGroup \<Rightarrow> string \<Rightarrow> GroupUpdate \<Rightarrow> GroupChange option res" where
  "settingsChange U I raw self update = (let g = convertGroup U raw (aciRecipient self) in
     case WithUpdate I g self update of
       Inl e \<Rightarrow> Inl e
     | Inr next \<Rightarrow>
         if gTimer next \<noteq> gTimer g \<and> guTimerSeconds update = None then Inl panic
         else let change = settingsAccessChanges (rgAccess raw) update (noChange\<lparr>
             chAvatar := (if gAvatarPath next \<noteq> gAvatarPath g then Some (gAvatarPath next) else None),
             chDescription := (if gDescription next \<noteq> gDescription g then Some (gDescription next) else None),
             chTimer := (if gTimer next \<noteq> gTimer g then guTimerSeconds update else None),
             chAnnouncementsOnly := (if gAnnouncementsOnly next \<noteq> gAnnouncementsOnly g
               then Some (gAnnouncementsOnly next) else None)\<rparr>)
           in if gRevision next = gRevision g \<and> chAttributesAccess change = None \<and> chMemberAccess change = None
              then Inr None
              else if rgRevision raw = - 1 then Inl errRevision
              else Inr (Some change))"

section \<open>Renaming and leaving (meow\_groups\_rename.go, meow\_groups.go)\<close>

definition renameChange :: "Group \<Rightarrow> string \<Rightarrow> string \<Rightarrow> GroupChange option res" where
  "renameChange g self title = (case CheckRename g self title of
     Some e \<Rightarrow> Inl e
   | None \<Rightarrow> if gTitle g = title then Inr None else Inr (Some (noChange\<lparr>chTitle := Some title\<rparr>)))"

definition containsACI :: "Recipient list \<Rightarrow> string \<Rightarrow> bool" where
  "containsACI recipients aci = list_ex (\<lambda>r. rACI r = aci) recipients"

definition declineInvitationsChange :: "uuid_lib \<Rightarrow> Group \<Rightarrow> Recipient \<Rightarrow> GroupChange" where
  "declineInvitationsChange U g self = noChange\<lparr>chDeletePending := map (\<lambda>p. acceptServiceID U (pmRecipient p))
     (filter (\<lambda>p. acceptSelfMatches U (pmRecipient p) self) (gPending g))\<rparr>"

definition promoteStep ::
  "uuid_lib \<Rightarrow> Recipient list \<Rightarrow> GroupMember \<Rightarrow> GroupChange \<times> Recipient list \<Rightarrow> (GroupChange \<times> Recipient list) res" where
  "promoteStep U promote m = (\<lambda>(change, promoted).
    (if gmRole m = GroupRoleAdmin \<or> \<not> containsACI promote (memberACI m) then Inr (change, promoted)
     else case uuid_Parse U (memberACI m) of
       None \<Rightarrow> Inl (Wrap ''invalid ACI'' [Sentinel ErrInvalidPromotion])
     | Some aci \<Rightarrow> Inr (change\<lparr>chModifyRoles := chModifyRoles change @ [(aci, RoleAdministrator)]\<rparr>,
         promoted @ [gmRecipient m])))"

definition leaveChange ::
  "uuid_lib \<Rightarrow> Group \<Rightarrow> Recipient \<Rightarrow> Recipient list \<Rightarrow> (GroupChange \<times> Recipient list) res" where
  "leaveChange U g0 self promote = (case PrepareLeave U g0 self promote of
     (_, Some e) \<Rightarrow> Inl e
   | (None, None) \<Rightarrow> Inl panic
   | (Some g, None) \<Rightarrow>
      (case uuid_Parse U (rACI self) of
         None \<Rightarrow> Inl (Wrap ''invalid own ACI'' [Sentinel ErrUnresolvable])
       | Some selfACI \<Rightarrow> (case gMembership g of
           MembershipPending \<Rightarrow> Inr (declineInvitationsChange U g self, [])
         | MembershipRequesting \<Rightarrow> Inr (noChange\<lparr>chDeleteRequesting := [selfACI]\<rparr>, [])
         | _ \<Rightarrow> foldRes (promoteStep U promote) (gMembers g) (noChange\<lparr>chDeleteMembers := [selfACI]\<rparr>, []))))"

section \<open>Invite links (meow\_groups\_link.go)\<close>

definition rawGroupLink :: "RawGroup \<Rightarrow> string \<times> string" where
  "rawGroupLink raw =
    ((case rgAccess raw of
        None \<Rightarrow> GroupLinkUnknown
      | Some a \<Rightarrow> (case raInviteLink a of
          AccessUnsatisfiable \<Rightarrow> GroupLinkDisabled | AccessAny \<Rightarrow> GroupLinkEnabled
        | AccessAdministrator \<Rightarrow> GroupLinkApproval | _ \<Rightarrow> GroupLinkUnknown)),
     (case rgLinkPassword raw of None \<Rightarrow> [] | Some p \<Rightarrow> p))"

definition groupLinkAccess :: "string \<Rightarrow> AccessControl" where
  "groupLinkAccess state =
    (if state = GroupLinkDisabled then AccessUnsatisfiable else if state = GroupLinkEnabled then AccessAny
     else if state = GroupLinkApproval then AccessAdministrator else AccessUnknown)"

definition groupLinkChange ::
  "uuid_lib \<Rightarrow> (bytes \<Rightarrow> bytes \<Rightarrow> bytes option) \<Rightarrow> bytes option \<Rightarrow> RawGroup \<Rightarrow> string \<Rightarrow> GroupLinkUpdate
   \<Rightarrow> GroupChange option res" where
  "groupLinkChange U enc random raw self update = (let g = convertGroup U raw (aciRecipient self) in
     case rawGroupLink raw of (state, password) \<Rightarrow>
     case WithLinkUpdate enc random g self state password update of
       Inl e \<Rightarrow> Inl e
     | Inr (next, nextPassword) \<Rightarrow>
         if glRevision next = gRevision g then Inr None
         else Inr (Some (noChange\<lparr>
           chLinkAccess := (case luState update of
              None \<Rightarrow> None
            | Some s \<Rightarrow> if (case rgAccess raw of None \<Rightarrow> True | Some a \<Rightarrow> raInviteLink a \<noteq> groupLinkAccess s)
                then Some (groupLinkAccess s) else None),
           chLinkPassword := (if nextPassword \<noteq> password then Some nextPassword else None)\<rparr>)))"

definition convertGroupLink ::
  "uuid_lib \<Rightarrow> (bytes \<Rightarrow> bytes \<Rightarrow> bytes option) \<Rightarrow> RawGroup \<Rightarrow> string \<Rightarrow> GroupLink res" where
  "convertGroupLink U enc raw self = (case rawGroupLink raw of (state, password) \<Rightarrow>
     Group_Link enc (convertGroup U raw (aciRecipient self)) self state password)"

section \<open>Creating a group (meow\_groups\_create.go)\<close>

definition newGroup :: "uuid_lib \<Rightarrow> CreateGroupOptions \<Rightarrow> uuid \<Rightarrow> RawGroup res" where
  "newGroup U opts self = (case UniqueMembers U opts (uuid_String U self) of
     None \<Rightarrow> Inl panic
   | Some members \<Rightarrow> (case foldRes (\<lambda>m out. case mustParse U (rACI m) of
         Inl e \<Rightarrow> Inl e | Inr u \<Rightarrow> Inr (out @ [Some \<lparr>rwACI = u, rwRole = RoleDefault, rwJoined = 0\<rparr>])) members
         [Some \<lparr>rwACI = self, rwRole = RoleAdministrator, rwJoined = 0\<rparr>] of
       Inl e \<Rightarrow> Inl e
     | Inr ms \<Rightarrow> Inr \<lparr>rgID = [], rgMasterKey = [], rgTitle = CreateGroupOptions.cgTitle opts, rgDescription = [], rgAvatarPath = [],
         rgRevision = 0, rgTimer = 0, rgAnnouncementsOnly = False, rgMembers = ms, rgPending = [], rgRequesting = [],
         rgBanned = [], rgAccess = Some \<lparr>raAttributes = AccessMember, raMembers = AccessMember,
           raInviteLink = AccessUnsatisfiable\<rparr>, rgLinkPassword = None\<rparr>))"

end
