(* ===== verification/GroupClient.thy ===== *)
theory GroupClient
  imports GroupWire
begin

text \<open>
  The client's group operations (internal/signal meow\_groups.go and meow\_groups\_{add,remove,
  roles,bans,update,avatar,link,rename,create}.go) on the library's client: which state they fetch,
  what they submit, and what they return when the library or the server fails at any point. The
  library, the account's store, the clock and the connection are the record \<open>meow\<close> of functions on
  a world; an operation is a state transformer on that world. Every field may answer differently
  each time, as the connection can be lost or the group change at any time. Of the library's errors
  the code tells some apart: they are \<open>Library\<close> sentinels. The text of an error, which the code
  searches for the server's status, is the parameter \<open>mlErrText\<close>.
\<close>

section \<open>The library and operations on it\<close>

text \<open>What the store's title cache keeps of a group (store/groups.go).\<close>

record GroupRecord =
  grID :: string
  grTitle :: string
  grRevision :: u32
  grLeftAt :: time
  grUpdatedAt :: time

text \<open>The server's answer to a change: the signed actions, and their encoding if it succeeds.\<close>

record GroupChangeResponse =
  gcrActions :: bytes
  gcrMarshalled :: "bytes res"

record GroupContext =
  gctxRevision :: u32
  gctxChange :: bytes
  gctxMasterKey :: bytes

record meow_lib =
  mlUUID :: uuid_lib
  mlImages :: image_lib
  mlToLower :: "string \<Rightarrow> string"
  mlDeriveID :: "bytes \<Rightarrow> string res"
  mlLink :: "bytes \<Rightarrow> bytes \<Rightarrow> bytes option"
  mlErrText :: "err \<Rightarrow> string"

text \<open>The patch may change the change it is given (\<open>AddMembers\<close> can become invitations).\<close>

record 'w meow =
  mwConnected :: "'w \<Rightarrow> bool \<times> 'w"
  mwBegin :: "'w \<Rightarrow> bool \<times> 'w"
  mwDone :: "'w \<Rightarrow> 'w"
  mwLost :: "'w \<Rightarrow> err option \<times> 'w"
  mwCtxErr :: "'w \<Rightarrow> err option \<times> 'w"
  mwNow :: "'w \<Rightarrow> time \<times> 'w"
  mwRandom :: "'w \<Rightarrow> bytes option \<times> 'w"
  mwStoreDevice :: "'w \<Rightarrow> err option \<times> 'w"
  mwMasterKey :: "string \<Rightarrow> 'w \<Rightarrow> string res \<times> 'w"
  mwGroupIDs :: "'w \<Rightarrow> string list res \<times> 'w"
  mwPutGroup :: "GroupRecord \<Rightarrow> 'w \<Rightarrow> err option \<times> 'w"
  mwGetGroup :: "string \<Rightarrow> 'w \<Rightarrow> GroupRecord option res \<times> 'w"
  mwGetGroups :: "'w \<Rightarrow> GroupRecord list res \<times> 'w"
  mwEvict :: "string \<Rightarrow> 'w \<Rightarrow> 'w"
  mwRetrieve :: "string \<Rightarrow> u32 \<Rightarrow> 'w \<Rightarrow> RawGroup option res \<times> 'w"
  mwPatch :: "GroupChange \<Rightarrow> 'w \<Rightarrow> (GroupChangeResponse res \<times> GroupChange) \<times> 'w"
  mwNotify :: "RawGroup \<Rightarrow> GroupContext \<Rightarrow> GroupChange \<Rightarrow> 'w \<Rightarrow> err option \<times> 'w"
  mwUpdate :: "GroupChange \<Rightarrow> string \<Rightarrow> 'w \<Rightarrow> u32 res \<times> 'w"
  mwUploadAvatar :: "bytes \<Rightarrow> string \<Rightarrow> string \<Rightarrow> 'w \<Rightarrow> string res \<times> 'w"
  mwCredential :: "uuid \<Rightarrow> 'w \<Rightarrow> err option \<times> 'w"
  mwPrepareCreation :: "RawGroup \<Rightarrow> 'w \<Rightarrow> RawGroup res \<times> 'w"
  mwCreate :: "RawGroup \<Rightarrow> 'w \<Rightarrow> RawGroup option res \<times> 'w"

type_synonym ('w, 'a) op = "'w \<Rightarrow> 'a res \<times> 'w"

definition opRet :: "'a \<Rightarrow> ('w, 'a) op" where
  "opRet x = (\<lambda>w. (Inr x, w))"

definition opFail :: "err \<Rightarrow> ('w, 'a) op" where
  "opFail e = (\<lambda>w. (Inl e, w))"

definition opThen :: "('w, 'a) op \<Rightarrow> ('a \<Rightarrow> ('w, 'b) op) \<Rightarrow> ('w, 'b) op" where
  "opThen m f = (\<lambda>w. case m w of (Inl e, w') \<Rightarrow> (Inl e, w') | (Inr x, w') \<Rightarrow> f x w')"

definition opOf :: "'a res \<Rightarrow> ('w, 'a) op" where
  "opOf r = (\<lambda>w. (r, w))"

definition opGet :: "('w \<Rightarrow> 'a \<times> 'w) \<Rightarrow> ('w, 'a) op" where
  "opGet f = (\<lambda>w. case f w of (x, w') \<Rightarrow> (Inr x, w'))"

definition opDo :: "('w \<Rightarrow> 'w) \<Rightarrow> ('w, unit) op" where
  "opDo f = (\<lambda>w. (Inr (), f w))"

definition opCheck :: "('w \<Rightarrow> err option \<times> 'w) \<Rightarrow> ('w, unit) op" where
  "opCheck f = (\<lambda>w. case f w of (None, w') \<Rightarrow> (Inr (), w') | (Some e, w') \<Rightarrow> (Inl e, w'))"

definition opWrap :: "string \<Rightarrow> ('w, 'a) op \<Rightarrow> ('w, 'a) op" where
  "opWrap ctx m = (\<lambda>w. case m w of (Inl e, w') \<Rightarrow> (Inl (Wrap ctx [e]), w') | (Inr x, w') \<Rightarrow> (Inr x, w'))"

text \<open>A deferred call: it runs however the operation ends.\<close>

definition opDefer :: "('w \<Rightarrow> 'w) \<Rightarrow> ('w, 'a) op \<Rightarrow> ('w, 'a) op" where
  "opDefer f m = (\<lambda>w. case m w of (r, w') \<Rightarrow> (r, f w'))"

text \<open>The identities of the selected account.\<close>

record own =
  ownACI :: uuid
  ownPNI :: uuid

section \<open>Common steps (meow\_groups.go)\<close>

definition groupClient :: "'w meow \<Rightarrow> string \<Rightarrow> ('w, unit) op" where
  "groupClient M action = opThen (opGet (mwConnected M)) (\<lambda>connected.
     if \<not> connected then opFail (Sentinel ErrNotConnected)
     else opThen (opGet (mwBegin M)) (\<lambda>begun.
       if \<not> begun then opFail (Sentinel ErrClosed)
       else opThen (opGet (mwLost M)) (\<lambda>lost. case lost of
         Some e \<Rightarrow> opThen (opDo (mwDone M)) (\<lambda>_. opFail (Wrap action [e]))
       | None \<Rightarrow> opRet ())))"

text \<open>An operation between \<open>groupClient\<close> and its end.\<close>

definition onGroups :: "'w meow \<Rightarrow> string \<Rightarrow> ('w, 'a) op \<Rightarrow> ('w, 'a) op" where
  "onGroups M action m = opThen (groupClient M action) (\<lambda>_. opDefer (mwDone M) m)"

definition lostOr :: "'w meow \<Rightarrow> err \<Rightarrow> 'w \<Rightarrow> err \<times> 'w" where
  "lostOr M e = (\<lambda>w. case mwLost M w of (Some lost, w') \<Rightarrow> (Wrap [] [lost, e], w') | (None, w') \<Rightarrow> (e, w'))"

definition orLost :: "'w meow \<Rightarrow> ('w, 'a) op \<Rightarrow> ('w, 'a) op" where
  "orLost M m = (\<lambda>w. case m w of
     (Inl e, w') \<Rightarrow> (case lostOr M e w' of (e', w'') \<Rightarrow> (Inl e', w'')) | (Inr x, w') \<Rightarrow> (Inr x, w'))"

definition knownGroup :: "'w meow \<Rightarrow> string \<Rightarrow> ('w, bool) op" where
  "knownGroup M gid = opThen (opWrap ''load group'' (mwMasterKey M gid)) (\<lambda>key. opRet (key \<noteq> []))"

definition groupIDFromMasterKey :: "meow_lib \<Rightarrow> bytes \<Rightarrow> string res" where
  "groupIDFromMasterKey L masterKey =
    (if length masterKey \<noteq> 32 then Inl (Wrap ''a master key has 32 bytes'' [Sentinel ErrUnknownGroup])
     else case mlDeriveID L masterKey of Inl e \<Rightarrow> Inl (Wrap ''derive group ID'' [e]) | Inr gid \<Rightarrow> Inr gid)"

definition resolveGroupRef :: "'w meow \<Rightarrow> meow_lib \<Rightarrow> string \<Rightarrow> ('w, string) op" where
  "resolveGroupRef M L ref = (case StdDecode ref of
     None \<Rightarrow> opFail (Wrap ''want a base64 group ID or master key'' [Sentinel ErrUnknownGroup])
   | Some raw \<Rightarrow>
       if length raw \<noteq> 32 then opFail (Wrap ''want a base64 group ID or master key'' [Sentinel ErrUnknownGroup])
       else opThen (knownGroup M ref) (\<lambda>known.
         if known then opRet ref
         else opThen (opOf (groupIDFromMasterKey L raw)) (\<lambda>derived.
           opThen (knownGroup M derived) (\<lambda>known'.
             if known' then opRet derived else opFail (Wrap ''no group with this ID or master key is known'' [Sentinel ErrUnknownGroup])))))"

definition updateGroupError :: "err \<Rightarrow> err" where
  "updateGroupError e =
    (if errors_Is e (Library ''ContactManifestMismatchError'') \<or> errors_Is e (Library ''ConflictError'')
     then Wrap [] [Sentinel ErrGroupChanged, e] else e)"

definition Contains :: "string \<Rightarrow> string \<Rightarrow> bool" where
  "Contains s t = list_ex (\<lambda>n. HasPrefix (drop n s) t) [0..<Suc (length s)]"

text \<open>Where the code formats an error without wrapping it, only the sentinel stays.\<close>

definition groupFetchError :: "meow_lib \<Rightarrow> err \<Rightarrow> err" where
  "groupFetchError L e =
    (if errors_Is e (Library ''ErrGroupMasterKeyNotFound'') then Wrap ''its master key is not known'' [Sentinel ErrUnknownGroup]
     else if Contains (mlErrText L e) ''unexpected response status: 403''
     then Wrap ''the server refused to show it'' [Sentinel ErrNotAMember]
     else if Contains (mlErrText L e) ''unexpected response status: 404''
     then Wrap ''the server does not know it'' [Sentinel ErrUnknownGroup]
     else Wrap ''fetch group'' [e])"

text \<open>A failure to cache is only logged.\<close>

definition cacheGroup :: "'w meow \<Rightarrow> Group \<Rightarrow> ('w, unit) op" where
  "cacheGroup M g = opThen (opGet (mwNow M)) (\<lambda>now.
     opThen (opGet (mwPutGroup M \<lparr>grID = gID g, grTitle = gTitle g, grRevision = gRevision g, grLeftAt = gLeftAt g,
       grUpdatedAt = now\<rparr>)) (\<lambda>_. opRet ()))"

definition emptyGroup :: Group where
  "emptyGroup = \<lparr>gAvatarPath = [], gID = [], gMasterKey = [], gTitle = [], gDescription = [], gRevision = 0, gTimer = 0,
     gAnnouncementsOnly = False, gMembersCanEditAttributes = False, gMembersCanAddMembers = False, gMembers = [],
     gPending = [], gRequesting = [], gBanned = [], gMembership = MembershipNone, gRole = GroupRoleUnknown,
     gLeftAt = time_zero, gErr = None\<rparr>"

text \<open>The account's own identities; \<open>convertGroup\<close> of the client.\<close>

definition ownSelf :: "meow_lib \<Rightarrow> own \<Rightarrow> Recipient" where
  "ownSelf L own = noRecipient\<lparr>rACI := uuid_String (mlUUID L) (ownACI own), rPNI := uuid_String (mlUUID L) (ownPNI own)\<rparr>"

definition ownID :: "meow_lib \<Rightarrow> own \<Rightarrow> string" where
  "ownID L own = uuid_String (mlUUID L) (ownACI own)"

definition ownGroup :: "meow_lib \<Rightarrow> own \<Rightarrow> RawGroup \<Rightarrow> Group" where
  "ownGroup L own raw = convertGroup (mlUUID L) raw (ownSelf L own)"

text \<open>Fetching for an operation: the errors of \<open>RetrieveGroupByID\<close>, and a panic on nil.\<close>

definition retrieve :: "'w meow \<Rightarrow> meow_lib \<Rightarrow> string \<Rightarrow> u32 \<Rightarrow> ('w, RawGroup) op" where
  "retrieve M L gid revision = (\<lambda>w. case mwRetrieve M gid revision w of
     (Inl e, w') \<Rightarrow> (Inl (groupFetchError L e), w')
   | (Inr None, w') \<Rightarrow> (Inl panic, w')
   | (Inr (Some raw), w') \<Rightarrow> (Inr raw, w'))"

definition fetchGroup :: "'w meow \<Rightarrow> meow_lib \<Rightarrow> own \<Rightarrow> string \<Rightarrow> ('w, Group) op" where
  "fetchGroup M L own gid = opThen (retrieve M L gid 0) (\<lambda>raw. let g = ownGroup L own raw in
     opThen (cacheGroup M g) (\<lambda>_. opRet g))"

section \<open>Reading groups (meow\_groups.go, groups.go)\<close>

definition SortGroups :: "meow_lib \<Rightarrow> Group list \<Rightarrow> Group list" where
  "SortGroups L groups = sort_key (\<lambda>g. gTitle g = []) (sort_key (\<lambda>g. mlToLower L (gTitle g)) (sort_key gID groups))"

definition unavailableGroup :: "'w meow \<Rightarrow> string \<Rightarrow> err \<Rightarrow> ('w, Group) op" where
  "unavailableGroup M gid e = opThen (opGet (mwGetGroup M gid)) (\<lambda>rec.
     let g = emptyGroup\<lparr>gID := gid, gErr := Some e\<rparr> in
     opRet (case rec of Inr (Some r) \<Rightarrow> g\<lparr>gTitle := grTitle r, gLeftAt := grLeftAt r\<rparr> | _ \<Rightarrow> g))"

fun groups_loop :: "'w meow \<Rightarrow> meow_lib \<Rightarrow> own \<Rightarrow> string list \<Rightarrow> ('w, Group list) op" where
  "groups_loop M L own [] = opRet []"
| "groups_loop M L own (gid # gids) = (\<lambda>w. case fetchGroup M L own gid w of
     (Inr g, w') \<Rightarrow> opThen (groups_loop M L own gids) (\<lambda>gs. opRet (g # gs)) w'
   | (Inl e, w') \<Rightarrow>
       if errors_Is e ErrNotAMember \<or> errors_Is e ErrUnknownGroup
       then opThen (unavailableGroup M gid e) (\<lambda>g. opThen (groups_loop M L own gids) (\<lambda>gs. opRet (g # gs))) w'
       else orLost M (opFail (Wrap ''group'' [e])) w')"

definition Groups :: "'w meow \<Rightarrow> meow_lib \<Rightarrow> own \<Rightarrow> ('w, Group list) op" where
  "Groups M L own = onGroups M ''groups'' (opThen (mwGroupIDs M) (\<lambda>gids.
     opThen (groups_loop M L own gids) (\<lambda>gs. opRet (SortGroups L gs))))"

definition meowGroup :: "'w meow \<Rightarrow> meow_lib \<Rightarrow> own \<Rightarrow> string \<Rightarrow> ('w, Group) op" where
  "meowGroup M L own ref = onGroups M ''group'' (opThen (resolveGroupRef M L ref) (\<lambda>gid.
     opThen (opDo (mwEvict M gid)) (\<lambda>_. orLost M (fetchGroup M L own gid))))"

definition GroupTitles :: "'w meow \<Rightarrow> ('w, (string \<times> CachedGroup) list) op" where
  "GroupTitles M = opThen (opGet (mwBegin M)) (\<lambda>begun.
     if \<not> begun then opFail (Sentinel ErrClosed)
     else opDefer (mwDone M) (opThen (opCheck (mwStoreDevice M)) (\<lambda>_. opThen (mwGetGroups M) (\<lambda>recs.
       opRet (fold (\<lambda>r titles. AList.update (grID r) \<lparr>CachedGroup.cgTitle = grTitle r, cgLeftAt = grLeftAt r\<rparr> titles) recs [])))))"

section \<open>One change, submitted once (meow\_groups\_remove.go, meow\_groups\_update.go)\<close>

text \<open>The error, whether the server accepted the change, and the change as the library left it.\<close>

definition changeGroupOnce ::
  "'w meow \<Rightarrow> string \<Rightarrow> RawGroup \<Rightarrow> GroupChange \<Rightarrow> 'w \<Rightarrow> (err option \<times> bool \<times> GroupChange) \<times> 'w" where
  "changeGroupOnce M gid raw change w =
    (case StdDecode (rgMasterKey raw) of
       None \<Rightarrow> ((Some (Wrap ''invalid group key or revision'' [Sentinel ErrUnknownGroup]), False, change), w)
     | Some masterKey \<Rightarrow>
         if length masterKey \<noteq> 32 \<or> rgRevision raw = - 1
         then ((Some (Wrap ''invalid group key or revision'' [Sentinel ErrUnknownGroup]), False, change), w)
         else case mwPatch M (change\<lparr>chMasterKey := rgMasterKey raw, chRevision := rgRevision raw + 1\<rparr>) w of
           ((Inl e, change'), w1) \<Rightarrow> ((Some (updateGroupError e), False, change'), w1)
         | ((Inr response, change'), w1) \<Rightarrow>
             let w2 = mwEvict M gid w1 in
             if gcrActions response = [] then ((Some (Sentinel ErrInvalidGroupChangeResponse), True, change'), w2)
             else case gcrMarshalled response of
               Inl e \<Rightarrow> ((Some (Wrap ''encode accepted group change'' [e]), True, change'), w2)
             | Inr encoded \<Rightarrow> (case mwNotify M raw \<lparr>gctxRevision = chRevision change', gctxChange = encoded,
                   gctxMasterKey = masterKey\<rparr> change' w2 of (_, w3) \<Rightarrow> ((None, True, change'), w3)))"

text \<open>What became of a change: the accepted state and the revision asked for, or an error with the ID and the revision that the
  server accepted, if it did.\<close>

datatype outcome = Accepted RawGroup u32 | Failed "(string \<times> u32) option" err

definition committed :: "RawGroup \<Rightarrow> bool \<Rightarrow> GroupChange \<Rightarrow> (string \<times> u32) option" where
  "committed raw accepted change = (if accepted then Some (rgID raw, chRevision change) else None)"

definition fetchAccepted :: "'w meow \<Rightarrow> meow_lib \<Rightarrow> string \<Rightarrow> RawGroup \<Rightarrow> GroupChange \<Rightarrow> 'w \<Rightarrow> outcome \<times> 'w" where
  "fetchAccepted M L gid raw change w =
    (case mwRetrieve M (rgID raw) (chRevision change) (mwEvict M gid w) of
       (Inl e, w1) \<Rightarrow> (Failed (committed raw True change)
         (Wrap ''change was accepted but fetching the group failed'' [groupFetchError L e]), w1)
     | (Inr None, w1) \<Rightarrow> (Failed (committed raw True change) (Wrap ''change was accepted but fetching the group returned invalid state''
         [Sentinel ErrInvalidGroupChangeResponse]), w1)
     | (Inr (Some accepted), w1) \<Rightarrow>
         if rgRevision accepted < chRevision change \<or> rgID accepted \<noteq> rgID raw
         then (Failed (committed raw True change) (Wrap ''change was accepted but fetching the group returned invalid state''
           [Sentinel ErrInvalidGroupChangeResponse]), w1)
         else (Accepted accepted (chRevision change), w1))"

definition groupPatchError :: "err \<Rightarrow> err" where
  "groupPatchError e =
    (if list_ex (errors_Is e) [ErrUnknownGroup, ErrGroupChanged, Library ''AuthorizationFailedError'', Library ''NotFoundError'',
         Library ''GroupPatchNotAcceptedError'', Library ''RateLimitError'', Library ''DeprecatedVersionError'']
     then e else Wrap ''group update'' [Sentinel ErrGroupUpdateUncertain, e])"

definition updateGroupAndFetchOnce ::
  "'w meow \<Rightarrow> meow_lib \<Rightarrow> string \<Rightarrow> RawGroup \<Rightarrow> GroupChange \<Rightarrow> 'w \<Rightarrow> outcome \<times> 'w" where
  "updateGroupAndFetchOnce M L gid raw change w = (case changeGroupOnce M gid raw change w of
     ((Some e, accepted, change'), w1) \<Rightarrow>
       (Failed (committed raw accepted change') (if accepted then e else groupPatchError e), w1)
   | ((None, _, change'), w1) \<Rightarrow> fetchAccepted M L gid raw change' w1)"

text \<open>How an operation returns: with what it cached, or with what is known to be accepted.\<close>

definition partialGroup :: "(string \<times> u32) option \<Rightarrow> Group" where
  "partialGroup c = (case c of None \<Rightarrow> emptyGroup | Some (gid, revision) \<Rightarrow> emptyGroup\<lparr>gID := gid, gRevision := revision\<rparr>)"

type_synonym partly = "Group \<times> err option"

definition keepGroup :: "'w meow \<Rightarrow> Group \<Rightarrow> ('w, partly) op" where
  "keepGroup M g = opThen (cacheGroup M g) (\<lambda>_. opRet (g, None))"

definition finish :: "'w meow \<Rightarrow> meow_lib \<Rightarrow> own \<Rightarrow> string \<Rightarrow> ('w \<Rightarrow> outcome \<times> 'w) \<Rightarrow> ('w, partly) op" where
  "finish M L own action m = (\<lambda>w. case m w of
     (Failed c e, w1) \<Rightarrow> (case lostOr M (Wrap action [e]) w1 of (e', w2) \<Rightarrow> (Inr (partialGroup c, Some e'), w2))
   | (Accepted raw _, w1) \<Rightarrow> keepGroup M (ownGroup L own raw) w1)"

text \<open>An error before anything is known comes with the empty group.\<close>

definition partlyOf :: "('w, partly) op \<Rightarrow> 'w \<Rightarrow> partly \<times> 'w" where
  "partlyOf m w = (case m w of (Inl e, w') \<Rightarrow> ((emptyGroup, Some e), w') | (Inr p, w') \<Rightarrow> (p, w'))"

text \<open>The fresh state of a group, whatever the library has cached of it.\<close>

definition freshGroup :: "'w meow \<Rightarrow> meow_lib \<Rightarrow> string \<Rightarrow> ('w, RawGroup) op" where
  "freshGroup M L gid = opThen (opDo (mwEvict M gid)) (\<lambda>_. orLost M (retrieve M L gid 0))"

section \<open>Adding members (meow\_groups\_add.go)\<close>

text \<open>Approved requesters get the update too: they are added to the group that is notified.\<close>

definition addGroupMembersOnce ::
  "'w meow \<Rightarrow> meow_lib \<Rightarrow> string \<Rightarrow> RawGroup \<Rightarrow> GroupChange \<Rightarrow> 'w \<Rightarrow> outcome \<times> 'w" where
  "addGroupMembersOnce M L gid raw change w =
    (let notify = raw\<lparr>rgMembers := rgMembers raw
           @ map (\<lambda>(aci, role). Some \<lparr>rwACI = aci, rwRole = role, rwJoined = 0\<rparr>) (chPromoteRequesting change)\<rparr>
     in case changeGroupOnce M gid notify change w of
       ((Some e, accepted, change'), w1) \<Rightarrow> (Failed (committed raw accepted change') e, w1)
     | ((None, _, change'), w1) \<Rightarrow> fetchAccepted M L gid raw change' w1)"

definition AddGroupMembers :: "'w meow \<Rightarrow> meow_lib \<Rightarrow> own \<Rightarrow> string \<Rightarrow> Recipient list \<Rightarrow> 'w \<Rightarrow> partly \<times> 'w" where
  "AddGroupMembers M L own ref members0 = partlyOf (opThen (opOf (normalizeGroupMembers (mlUUID L) members0)) (\<lambda>members.
     onGroups M ''add group members'' (opThen (resolveGroupRef M L ref) (\<lambda>gid.
       opThen (freshGroup M L gid) (\<lambda>raw.
       opThen (opWrap ''add group members'' (opOf (addMembersChange (mlUUID L) raw (ownID L own) members))) (\<lambda>change.
         if chAddMembers change = [] \<and> chPromoteRequesting change = [] then keepGroup M (ownGroup L own raw)
         else opDefer (mwEvict M gid) (finish M L own ''add group members'' (addGroupMembersOnce M L gid raw change))))))))"

section \<open>Removing members (meow\_groups\_remove.go)\<close>

definition RemoveGroupMembers :: "'w meow \<Rightarrow> meow_lib \<Rightarrow> own \<Rightarrow> string \<Rightarrow> Recipient list \<Rightarrow> 'w \<Rightarrow> partly \<times> 'w" where
  "RemoveGroupMembers M L own ref members0 = partlyOf (opThen (opOf (NormalizeGroupRemovalMembers (mlUUID L) members0)) (\<lambda>members.
     onGroups M ''remove group members'' (opThen (resolveGroupRef M L ref) (\<lambda>gid.
       opThen (freshGroup M L gid) (\<lambda>raw.
       opThen (opWrap ''remove group members'' (opOf (removeMembersChangeAs (mlUUID L) (ownGroup L own raw) (ownSelf L own) members)))
         (\<lambda>(change, next). opDefer (mwEvict M gid) (\<lambda>w. case changeGroupOnce M gid raw change w of
            ((Some e, _, _), w1) \<Rightarrow> (case lostOr M (Wrap ''remove group members'' [e]) w1 of (e', w2) \<Rightarrow> (Inl e', w2))
          | ((None, _, change'), w1) \<Rightarrow> keepGroup M (next\<lparr>gRevision := chRevision change'\<rparr>) w1)))))))"

section \<open>Roles and bans (meow\_groups\_roles.go, meow\_groups\_bans.go)\<close>

definition SetGroupMemberRole ::
  "'w meow \<Rightarrow> meow_lib \<Rightarrow> own \<Rightarrow> string \<Rightarrow> Recipient list \<Rightarrow> GroupRole \<Rightarrow> 'w \<Rightarrow> partly \<times> 'w" where
  "SetGroupMemberRole M L own ref members0 role = partlyOf
    (opThen (opOf (NormalizeGroupRoleMembers (mlUUID L) members0 role)) (\<lambda>members.
     onGroups M ''set group member role'' (opThen (opWrap ''set group member role'' (opCheck (mwCtxErr M))) (\<lambda>_.
       opThen (resolveGroupRef M L ref) (\<lambda>gid.
       opDefer (mwEvict M gid) (opThen (freshGroup M L gid) (\<lambda>raw.
       opThen (opWrap ''set group member role'' (opOf (memberRoleChange (mlUUID L) raw (ownID L own) members role))) (\<lambda>change.
         case change of
           None \<Rightarrow> keepGroup M (ownGroup L own raw)
         | Some ch \<Rightarrow> finish M L own ''set group member role'' (updateGroupAndFetchOnce M L gid raw ch)))))))))"

text \<open>Removed requesters get the update too.\<close>

definition banNotified :: "RawGroup \<Rightarrow> GroupChange \<Rightarrow> RawGroup" where
  "banNotified raw change = raw\<lparr>rgMembers := fold (\<lambda>aci members.
     if list_ex (\<lambda>m. rwACI m = aci) (somes members) then members
     else members @ [Some \<lparr>rwACI = aci, rwRole = RoleDefault, rwJoined = 0\<rparr>]) (chDeleteRequesting change) (rgMembers raw)\<rparr>"

definition SetGroupBanned ::
  "'w meow \<Rightarrow> meow_lib \<Rightarrow> own \<Rightarrow> string \<Rightarrow> Recipient list \<Rightarrow> bool \<Rightarrow> 'w \<Rightarrow> partly \<times> 'w" where
  "SetGroupBanned M L own ref members0 banned = partlyOf
    (opThen (opOf (NormalizeGroupBanMembers (mlUUID L) members0)) (\<lambda>members.
     onGroups M ''set group banned'' (opThen (opWrap ''set group banned'' (opCheck (mwCtxErr M))) (\<lambda>_.
       opThen (resolveGroupRef M L ref) (\<lambda>gid.
       opDefer (mwEvict M gid) (opThen (freshGroup M L gid) (\<lambda>raw.
       opThen (opGet (mwNow M)) (\<lambda>now.
       opThen (opWrap ''set group banned'' (opOf (bannedMembersChange (mlUUID L) raw (ownID L own) members banned
           (fromUnixMilli (UnixMilli now))))) (\<lambda>change.
         case change of
           None \<Rightarrow> keepGroup M (ownGroup L own raw)
         | Some ch \<Rightarrow> finish M L own ''set group banned'' (updateGroupAndFetchOnce M L gid (banNotified raw ch) ch))))))))))"

section \<open>Settings (meow\_groups\_update.go, meow\_groups\_avatar.go)\<close>

text \<open>\<open>unicode.IsControl\<close>: the C0 and C1 controls.\<close>

definition IsControl :: "nat \<Rightarrow> bool" where
  "IsControl r \<longleftrightarrow> r < 32 \<or> (127 \<le> r \<and> r < 160)"

definition uploadAvatarChange ::
  "'w meow \<Rightarrow> RawGroup \<Rightarrow> GroupChange \<Rightarrow> bytes \<Rightarrow> ('w, GroupChange) op" where
  "uploadAvatarChange M raw change data = (case StdDecode (rgMasterKey raw) of
     None \<Rightarrow> opFail (Wrap ''invalid group master key'' [Sentinel ErrUnknownGroup])
   | Some key \<Rightarrow>
       if length key \<noteq> 32 then opFail (Wrap ''invalid group master key'' [Sentinel ErrUnknownGroup])
       else opThen (opWrap ''upload group avatar'' (opCheck (mwCtxErr M))) (\<lambda>_.
         opThen (opWrap ''upload group avatar'' (mwUploadAvatar M data (rgID raw) (rgMasterKey raw))) (\<lambda>path.
           if \<not> ValidString path \<or> TrimSpace path = [] \<or> list_ex (\<lambda>(r, _). IsControl r) (segments path)
           then opFail (Wrap ''avatar upload returned an invalid path'' [Sentinel ErrInvalidGroupUpdate])
           else opRet (change\<lparr>chAvatar := Some path\<rparr>))))"

definition updateGroupWithAvatarOnce ::
  "'w meow \<Rightarrow> meow_lib \<Rightarrow> string \<Rightarrow> RawGroup \<Rightarrow> string \<Rightarrow> GroupUpdate \<Rightarrow> 'w \<Rightarrow> outcome \<times> 'w" where
  "updateGroupWithAvatarOnce M L gid raw self update w = (case settingsChange (mlUUID L) (mlImages L) raw self update of
     Inl e \<Rightarrow> (Failed None e, w)
   | Inr None \<Rightarrow> (Accepted raw (rgRevision raw), w)
   | Inr (Some change) \<Rightarrow>
       (case (case guAvatar update of
            Some a \<Rightarrow> if avRemove a then opRet change w else uploadAvatarChange M raw change (avData a) w
          | None \<Rightarrow> opRet change w) of
          (Inl e, w1) \<Rightarrow> (Failed None e, w1)
        | (Inr change', w1) \<Rightarrow> updateGroupAndFetchOnce M L gid raw change' w1))"

definition meowUpdateGroup :: "'w meow \<Rightarrow> meow_lib \<Rightarrow> own \<Rightarrow> string \<Rightarrow> GroupUpdate \<Rightarrow> 'w \<Rightarrow> partly \<times> 'w" where
  "meowUpdateGroup M L own ref update = partlyOf (opThen (opCheck (\<lambda>w. (GroupUpdate_Check (mlImages L) update, w))) (\<lambda>_.
     onGroups M ''update group'' (opThen (resolveGroupRef M L ref) (\<lambda>gid.
       opDefer (mwEvict M gid) (opThen (freshGroup M L gid) (\<lambda>raw.
         finish M L own ''update group'' (updateGroupWithAvatarOnce M L gid raw (ownID L own) update)))))))"

section \<open>Renaming and leaving (meow\_groups\_rename.go, meow\_groups.go)\<close>

definition RenameGroup :: "'w meow \<Rightarrow> meow_lib \<Rightarrow> own \<Rightarrow> string \<Rightarrow> string \<Rightarrow> ('w, Group) op" where
  "RenameGroup M L own ref title = opThen (opCheck (\<lambda>w. (ValidateGroupTitle title, w))) (\<lambda>_.
     onGroups M ''rename group'' (opThen (resolveGroupRef M L ref) (\<lambda>gid.
       opThen (opDo (mwEvict M gid)) (\<lambda>_.
       opThen (orLost M (fetchGroup M L own gid)) (\<lambda>g.
       opThen (opWrap ''rename group'' (opOf (renameChange g (ownID L own) title))) (\<lambda>change. case change of
           None \<Rightarrow> opRet g
         | Some ch \<Rightarrow> (\<lambda>w. case mwUpdate M ch gid w of
             (Inl e, w1) \<Rightarrow> orLost M (opFail (Wrap ''rename group'' [updateGroupError e])) (mwEvict M gid w1)
           | (Inr revision, w1) \<Rightarrow> (let g' = g\<lparr>gTitle := title, gRevision := revision\<rparr> in
               opThen (cacheGroup M g') (\<lambda>_. opRet g') w1))))))))"

definition LeaveGroup :: "'w meow \<Rightarrow> meow_lib \<Rightarrow> own \<Rightarrow> string \<Rightarrow> Recipient list \<Rightarrow> ('w, LeaveResult) op" where
  "LeaveGroup M L own ref promote = onGroups M ''leave group'' (opThen (resolveGroupRef M L ref) (\<lambda>gid.
     opThen (orLost M (fetchGroup M L own gid)) (\<lambda>g0.
     case PrepareLeave (mlUUID L) g0 (ownSelf L own) promote of
       (_, Some e) \<Rightarrow> opFail (Wrap ''leave group'' [e])
     | (None, None) \<Rightarrow> opFail panic
     | (Some g, None) \<Rightarrow>
         opThen (opWrap ''leave group'' (opOf (leaveChange (mlUUID L) g (ownSelf L own) promote))) (\<lambda>(change, promoted).
         opThen (orLost M (opWrap ''leave group'' (\<lambda>w. case mwUpdate M change gid w of
             (Inl e, w1) \<Rightarrow> (Inl (updateGroupError e), w1) | (Inr r, w1) \<Rightarrow> (Inr r, w1)))) (\<lambda>revision.
         opThen (opGet (mwNow M)) (\<lambda>now.
           let left = g\<lparr>gLeftAt := now div 1000000000 * 1000000000\<rparr> in
           opThen (cacheGroup M (left\<lparr>gRevision := revision\<rparr>)) (\<lambda>_.
             opRet \<lparr>lvGroup = left, lvRevision = revision, lvPromoted = promoted\<rparr>)))))))"

section \<open>Invite links (meow\_groups\_link.go)\<close>

definition emptyLink :: GroupLink where
  "emptyLink = \<lparr>glID = [], glRevision = 0, glState = [], glURL = []\<rparr>"

definition onGroupLink :: "'w meow \<Rightarrow> meow_lib \<Rightarrow> string \<Rightarrow> string \<Rightarrow> (RawGroup \<Rightarrow> ('w, 'a) op) \<Rightarrow> ('w, 'a) op" where
  "onGroupLink M L ref operation m = onGroups M operation (opThen (opWrap operation (opCheck (mwCtxErr M))) (\<lambda>_.
     opThen (resolveGroupRef M L ref) (\<lambda>gid.
     opDefer (mwEvict M gid) (opThen (opDo (mwEvict M gid)) (\<lambda>_ w. case mwRetrieve M gid 0 w of
         (Inl e, w1) \<Rightarrow> orLost M (opFail (groupFetchError L e)) w1
       | (Inr None, w1) \<Rightarrow> (Inl (Wrap ''missing group link state'' [Sentinel ErrUnknownGroup]), w1)
       | (Inr (Some raw), w1) \<Rightarrow> m raw w1)))))"

definition meowGroupLink :: "'w meow \<Rightarrow> meow_lib \<Rightarrow> own \<Rightarrow> string \<Rightarrow> ('w, GroupLink) op" where
  "meowGroupLink M L own ref = onGroupLink M L ref ''group link'' (\<lambda>raw.
     opThen (opOf (convertGroupLink (mlUUID L) (mlLink L) raw (ownID L own))) (\<lambda>link.
     opThen (cacheGroup M (ownGroup L own raw)) (\<lambda>_. opRet link)))"

definition verifiedGroupLink ::
  "meow_lib \<Rightarrow> RawGroup \<Rightarrow> string \<Rightarrow> u32 \<Rightarrow> GroupLink \<times> err option" where
  "verifiedGroupLink L raw self revision = (case convertGroupLink (mlUUID L) (mlLink L) raw self of
     Inl e \<Rightarrow> (emptyLink\<lparr>glID := rgID raw, glRevision := revision\<rparr>,
       Some (Wrap ''change was accepted but reading the link failed'' [e]))
   | Inr link \<Rightarrow> (link, None))"

text \<open>The random source is read only when a new password is needed; reading it changes nothing else.\<close>

definition UpdateGroupLink ::
  "'w meow \<Rightarrow> meow_lib \<Rightarrow> own \<Rightarrow> string \<Rightarrow> GroupLinkUpdate \<Rightarrow> ('w, GroupLink \<times> err option) op" where
  "UpdateGroupLink M L own ref update = opThen (opCheck (\<lambda>w. (GroupLinkUpdate_Check update, w))) (\<lambda>_.
     onGroupLink M L ref ''update group link'' (\<lambda>raw.
       opThen (opGet (mwRandom M)) (\<lambda>random.
       opThen (opOf (groupLinkChange (mlUUID L) (mlLink L) random raw (ownID L own) update)) (\<lambda>change. case change of
         None \<Rightarrow> opThen (opOf (convertGroupLink (mlUUID L) (mlLink L) raw (ownID L own))) (\<lambda>link.
           opThen (cacheGroup M (ownGroup L own raw)) (\<lambda>_. opRet (link, None)))
       | Some ch \<Rightarrow> (\<lambda>w. case updateGroupAndFetchOnce M L (rgID raw) raw ch w of
           (Failed c e, w1) \<Rightarrow> (case lostOr M (Wrap ''update group link'' [e]) w1 of (e', w2) \<Rightarrow>
             (Inr (case c of None \<Rightarrow> emptyLink | Some (gid, revision) \<Rightarrow> emptyLink\<lparr>glID := gid, glRevision := revision\<rparr>, Some e'), w2))
         | (Accepted accepted revision, w1) \<Rightarrow> (case verifiedGroupLink L accepted (ownID L own) revision of
             (link, Some e) \<Rightarrow> (Inr (link, Some e), w1)
           | (link, None) \<Rightarrow> opThen (cacheGroup M (ownGroup L own accepted)) (\<lambda>_. opRet (link, None)) w1))))))"

section \<open>Creating a group (meow\_groups\_create.go)\<close>

definition CreateGroup :: "'w meow \<Rightarrow> meow_lib \<Rightarrow> own \<Rightarrow> CreateGroupOptions \<Rightarrow> 'w \<Rightarrow> partly \<times> 'w" where
  "CreateGroup M L own opts = partlyOf (opThen (opCheck (\<lambda>w. (CreateGroup_Check (mlUUID L) opts, w))) (\<lambda>_.
     onGroups M ''create group'' (
       opThen (orLost M (opWrap ''fetch creator profile credential'' (opCheck (mwCredential M (ownACI own))))) (\<lambda>_.
       opThen (opOf (newGroup (mlUUID L) opts (ownACI own))) (\<lambda>raw0.
       opThen (opWrap ''prepare group'' (mwPrepareCreation M raw0)) (\<lambda>raw w. case mwCreate M raw w of
           (Inl e, w1) \<Rightarrow> (case lostOr M (Wrap ''create group'' [e]) w1 of
             (e', w2) \<Rightarrow> (Inr (emptyGroup\<lparr>gID := rgID raw\<rparr>, Some e'), w2))
         | (Inr None, w1) \<Rightarrow> (Inl panic, w1)
         | (Inr (Some created), w1) \<Rightarrow> keepGroup M (ownGroup L own created) w1))))))"

end
