(* ===== verification/GroupRefinement.thy ===== *)
theory GroupRefinement
  imports GroupClient
begin

text \<open>
  The changes that the client submits (GroupWire) do to the group what the rules of internal/signal
  groups\_roles.go, groups\_bans.go, groups\_remove.go and groups\_update.go promise (GroupRules). The
  server's side is the abstract specification \<open>serverApply\<close>; groups are compared as the client shows
  them (\<open>shown\<close>). The operations that submit the changes are in GroupOperations.
\<close>

section \<open>What a change does on the server\<close>

text \<open>The abstract specification: the state of a group after a change was accepted.\<close>

definition changedRole :: "GroupChange \<Rightarrow> RawMember \<Rightarrow> RawMember" where
  "changedRole c m = (case map_of (chModifyRoles c) (rwACI m) of None \<Rightarrow> m | Some role \<Rightarrow> m\<lparr>rwRole := role\<rparr>)"

definition keepSome :: "('a \<Rightarrow> bool) \<Rightarrow> 'a option list \<Rightarrow> 'a option list" where
  "keepSome P = filter (\<lambda>x. case x of None \<Rightarrow> True | Some y \<Rightarrow> P y)"

definition serverApply :: "GroupChange \<Rightarrow> RawGroup \<Rightarrow> RawGroup" where
  "serverApply c raw = raw\<lparr>
     rgTitle := (case chTitle c of None \<Rightarrow> rgTitle raw | Some x \<Rightarrow> x),
     rgDescription := (case chDescription c of None \<Rightarrow> rgDescription raw | Some x \<Rightarrow> x),
     rgAvatarPath := (case chAvatar c of None \<Rightarrow> rgAvatarPath raw | Some x \<Rightarrow> x),
     rgRevision := chRevision c,
     rgTimer := (case chTimer c of None \<Rightarrow> rgTimer raw | Some x \<Rightarrow> x),
     rgAnnouncementsOnly := (case chAnnouncementsOnly c of None \<Rightarrow> rgAnnouncementsOnly raw | Some x \<Rightarrow> x),
     rgMembers := map (map_option (changedRole c)) (keepSome (\<lambda>m. rwACI m \<notin> set (chDeleteMembers c)) (rgMembers raw))
       @ map Some (chAddMembers c) @ map (\<lambda>(aci, role). Some \<lparr>rwACI = aci, rwRole = role, rwJoined = chRevision c\<rparr>) (chPromoteRequesting c),
     rgPending := keepSome (\<lambda>p. rpService p \<notin> set (chDeletePending c)) (rgPending raw),
     rgRequesting := keepSome (\<lambda>r. rrqACI r \<notin> set (chDeleteRequesting c) \<union> fst ` set (chPromoteRequesting c)) (rgRequesting raw),
     rgBanned := keepSome (\<lambda>b. rbService b \<notin> set (chDeleteBanned c)) (rgBanned raw) @ map Some (chAddBanned c),
     rgAccess := (if chAttributesAccess c = None \<and> chMemberAccess c = None \<and> chLinkAccess c = None then rgAccess raw
       else let a = (case rgAccess raw of None \<Rightarrow> \<lparr>raAttributes = AccessUnknown, raMembers = AccessUnknown, raInviteLink = AccessUnknown\<rparr> | Some a \<Rightarrow> a)
         in Some \<lparr>raAttributes = (case chAttributesAccess c of None \<Rightarrow> raAttributes a | Some x \<Rightarrow> x),
              raMembers = (case chMemberAccess c of None \<Rightarrow> raMembers a | Some x \<Rightarrow> x),
              raInviteLink = (case chLinkAccess c of None \<Rightarrow> raInviteLink a | Some x \<Rightarrow> x)\<rparr>),
     rgLinkPassword := (case chLinkPassword c of None \<Rightarrow> rgLinkPassword raw | Some x \<Rightarrow> Some x)\<rparr>"

text \<open>A group as the server lists it: UUIDs have 16 bytes, identities are ACIs or PNIs, and nobody is
  listed twice as a member.\<close>

definition sidOk :: "ServiceID \<Rightarrow> bool" where
  "sidOk sid \<longleftrightarrow> length (sidUUID sid) = 16 \<and> (sidType sid = ServiceIDTypeACI \<or> sidType sid = ServiceIDTypePNI)"

definition rawOk :: "RawGroup \<Rightarrow> bool" where
  "rawOk raw \<longleftrightarrow> (\<forall>m\<in>set (somes (rgMembers raw)). length (rwACI m) = 16)
     \<and> distinct (map rwACI (somes (rgMembers raw)))
     \<and> (\<forall>p\<in>set (somes (rgPending raw)). sidOk (rpService p))
     \<and> (\<forall>r\<in>set (somes (rgRequesting raw)). length (rrqACI r) = 16)
     \<and> (\<forall>b\<in>set (somes (rgBanned raw)). sidOk (rbService b))"

text \<open>What a group shows beside its revision and our own membership; of a banned user the server keeps
  one identity.\<close>

definition banShown :: "BannedMember \<Rightarrow> BannedMember" where
  "banShown b = b\<lparr>bnRecipient := (if rACI (bnRecipient b) \<noteq> [] then aciRecipient (rACI (bnRecipient b)) else bnRecipient b)\<rparr>"

definition shown :: "Group \<Rightarrow> Group" where
  "shown g = g\<lparr>gRevision := 0, gMembership := MembershipNone, gRole := GroupRoleUnknown, gBanned := map banShown (gBanned g)\<rparr>"

lemma somes_simps [simp]:
  "somes [] = []" "somes (None # xs) = somes xs" "somes (Some x # xs) = x # somes xs"
  "somes (xs @ ys) = somes xs @ somes ys" "somes (map Some zs) = zs"
  by (induction zs) (simp_all add: somes_def)

lemma somes_keepSome [simp]: "somes (keepSome P xs) = filter P (somes xs)"
  by (induction xs) (auto simp: keepSome_def split: option.splits)

lemma somes_map_option [simp]: "somes (map (map_option f) xs) = map f (somes xs)"
proof (induction xs)
  case (Cons x xs)
  then show ?case by (cases x) simp_all
qed simp

lemma convertGroup_simps [simp]:
  "gAvatarPath (convertGroup U raw self) = rgAvatarPath raw" "gID (convertGroup U raw self) = rgID raw"
  "gMasterKey (convertGroup U raw self) = rgMasterKey raw" "gTitle (convertGroup U raw self) = rgTitle raw"
  "gDescription (convertGroup U raw self) = rgDescription raw" "gRevision (convertGroup U raw self) = rgRevision raw"
  "gTimer (convertGroup U raw self) = uint (rgTimer raw) * 1000000000"
  "gAnnouncementsOnly (convertGroup U raw self) = rgAnnouncementsOnly raw"
  "gMembersCanEditAttributes (convertGroup U raw self) = fst (convertGroupAccess (rgAccess raw))"
  "gMembersCanAddMembers (convertGroup U raw self) = snd (convertGroupAccess (rgAccess raw))"
  "gMembers (convertGroup U raw self) = map (convertMember U) (somes (rgMembers raw))"
  "gPending (convertGroup U raw self) = map (convertPending U) (somes (rgPending raw))"
  "gRequesting (convertGroup U raw self) = map (convertRequesting U) (somes (rgRequesting raw))"
  "gBanned (convertGroup U raw self) = map (convertBanned U) (somes (rgBanned raw))"
  "gLeftAt (convertGroup U raw self) = time_zero" "gErr (convertGroup U raw self) = None"
  by (simp_all add: convertGroup_def convertBannedMembers_def split: prod.split)

lemma shown_eqI:
  assumes "gAvatarPath g = gAvatarPath h" "gID g = gID h" "gMasterKey g = gMasterKey h" "gTitle g = gTitle h"
    "gDescription g = gDescription h" "gTimer g = gTimer h" "gAnnouncementsOnly g = gAnnouncementsOnly h"
    "gMembersCanEditAttributes g = gMembersCanEditAttributes h" "gMembersCanAddMembers g = gMembersCanAddMembers h"
    "gMembers g = gMembers h" "gPending g = gPending h" "gRequesting g = gRequesting h"
    "map banShown (gBanned g) = map banShown (gBanned h)" "gLeftAt g = gLeftAt h" "gErr g = gErr h"
  shows "shown g = shown h"
  using assms by (cases g, cases h) (simp add: shown_def)

lemma shown_simps [simp]: "shown (setOwn self g) = shown g" "shown (g\<lparr>gRevision := r\<rparr>) = shown g"
  by (simp_all add: shown_def setOwn_def split: prod.split)

lemma convertMember_simps [simp]:
  "memberACI (convertMember U m) = uuid_String U (rwACI m)" "gmRole (convertMember U m) = convertRole (rwRole m)"
  by (simp_all add: convertMember_def memberACI_def)

lemma String_eq_iff:
  assumes "uuid_laws U" "length u = 16" "length v = 16"
  shows "uuid_String U u = uuid_String U v \<longleftrightarrow> u = v"
  using assms by (metis acceptIdentity_String)

lemma mustParse_canon:
  assumes "uuid_laws U" "m \<in> set ms" "normalizeGroupMembers U ms0 = Inr ms"
  shows "mustParse U (rACI m) = Inr (acceptIdentity U (rACI m))" "rACI m = uuid_String U (acceptIdentity U (rACI m))"
    "length (acceptIdentity U (rACI m)) = 16" "rACI m \<in> canonACI U ` set ms0"
proof -
  have "rACI m \<in> canonACI U ` set ms0" using normalizeGroupMembers_D(1) [OF assms(1,3)] assms(2) by blast
  then obtain m0 :: Recipient where r: "rACI m = uuid_String U (acceptIdentity U (rACI m0))" by (auto simp: canonACI_def)
  have p: "uuid_Parse U (rACI m) = Some (acceptIdentity U (rACI m0))"
    unfolding r by (rule uuid_laws_parse [OF assms(1) acceptIdentity_length [OF assms(1)]])
  then show "mustParse U (rACI m) = Inr (acceptIdentity U (rACI m))"
    "rACI m = uuid_String U (acceptIdentity U (rACI m))" using r by (simp_all add: mustParse_def acceptIdentity_def)
  show "length (acceptIdentity U (rACI m)) = 16" by (rule acceptIdentity_length [OF assms(1)])
  show "rACI m \<in> canonACI U ` set ms0" by fact
qed

lemma target_iff:
  assumes "uuid_laws U" "normalizeGroupMembers U ms0 = Inr ms" "length u = 16"
  shows "uuid_String U u \<in> canonACI U ` set ms0 \<longleftrightarrow> u \<in> (\<lambda>m. acceptIdentity U (rACI m)) ` set ms"
proof -
  have "u = acceptIdentity U (rACI m) \<longleftrightarrow> uuid_String U u = rACI m" if "m \<in> set ms" for m
    using mustParse_canon(2,3) [OF assms(1) that assms(2)] String_eq_iff [OF assms(1,3)] by metis
  then show ?thesis unfolding normalizeGroupMembers_D(1) [OF assms(1,2), symmetric] by blast
qed

text \<open>The lists and settings of a group after a change.\<close>

lemma applied_members:
  "gMembers (convertGroup U (serverApply c raw) own) =
     map (\<lambda>m. convertMember U (changedRole c m)) (filter (\<lambda>m. rwACI m \<notin> set (chDeleteMembers c)) (somes (rgMembers raw)))
     @ map (convertMember U) (chAddMembers c)
     @ map (\<lambda>(aci, role). convertMember U \<lparr>rwACI = aci, rwRole = role, rwJoined = chRevision c\<rparr>) (chPromoteRequesting c)"
proof -
  have "somes (map (\<lambda>(aci, role). Some \<lparr>rwACI = aci, rwRole = role, rwJoined = x\<rparr>) ps)
      = map (\<lambda>(aci, role). \<lparr>rwACI = aci, rwRole = role, rwJoined = x\<rparr>) ps" for x ps
    by (induction ps) auto
  then show ?thesis by (simp add: serverApply_def split_def comp_def)
qed

lemma applied_lists:
  "gPending (convertGroup U (serverApply c raw) own) =
     map (convertPending U) (filter (\<lambda>p. rpService p \<notin> set (chDeletePending c)) (somes (rgPending raw)))"
  "gRequesting (convertGroup U (serverApply c raw) own) = map (convertRequesting U)
     (filter (\<lambda>r. rrqACI r \<notin> set (chDeleteRequesting c) \<union> fst ` set (chPromoteRequesting c)) (somes (rgRequesting raw)))"
  "gBanned (convertGroup U (serverApply c raw) own) =
     map (convertBanned U) (filter (\<lambda>b. rbService b \<notin> set (chDeleteBanned c)) (somes (rgBanned raw)) @ chAddBanned c)"
  by (simp_all add: serverApply_def)

lemma applied_settings:
  "gAvatarPath (convertGroup U (serverApply c raw) own) = (case chAvatar c of None \<Rightarrow> rgAvatarPath raw | Some x \<Rightarrow> x)"
  "gID (convertGroup U (serverApply c raw) own) = rgID raw"
  "gMasterKey (convertGroup U (serverApply c raw) own) = rgMasterKey raw"
  "gTitle (convertGroup U (serverApply c raw) own) = (case chTitle c of None \<Rightarrow> rgTitle raw | Some x \<Rightarrow> x)"
  "gDescription (convertGroup U (serverApply c raw) own) = (case chDescription c of None \<Rightarrow> rgDescription raw | Some x \<Rightarrow> x)"
  "gTimer (convertGroup U (serverApply c raw) own) = uint (case chTimer c of None \<Rightarrow> rgTimer raw | Some x \<Rightarrow> x) * 1000000000"
  "gAnnouncementsOnly (convertGroup U (serverApply c raw) own)
     = (case chAnnouncementsOnly c of None \<Rightarrow> rgAnnouncementsOnly raw | Some x \<Rightarrow> x)"
  "gMembersCanEditAttributes (convertGroup U (serverApply c raw) own) = (case chAttributesAccess c of
     None \<Rightarrow> fst (convertGroupAccess (rgAccess raw)) | Some x \<Rightarrow> x = AccessMember)"
  "gMembersCanAddMembers (convertGroup U (serverApply c raw) own) = (case chMemberAccess c of
     None \<Rightarrow> snd (convertGroupAccess (rgAccess raw)) | Some x \<Rightarrow> x = AccessMember)"
  by (auto simp: serverApply_def convertGroupAccess_def Let_def split: option.split)

lemma find_distinct:
  "distinct (map (\<lambda>x. k (f x)) xs) \<Longrightarrow> m \<in> set xs \<Longrightarrow> k (f m) = a \<Longrightarrow> find (\<lambda>x. k x = a) (map f xs) = Some (f m)"
  by (induction xs) auto

lemma map_of_const: "map_of (map (\<lambda>x. (f x, v)) xs) a = (if a \<in> f ` set xs then Some v else None)"
  by (induction xs) auto

section \<open>Roles\<close>

definition wireRole :: "GroupRole \<Rightarrow> WireRole" where
  "wireRole role = (if role = GroupRoleAdmin then RoleAdministrator else RoleDefault)"

lemma convert_wireRole [simp]: "role \<noteq> GroupRoleUnknown \<Longrightarrow> convertRole (wireRole role) = role"
  by (cases role) (simp_all add: wireRole_def convertRole_def)

lemma roleSteps:
  assumes "\<And>m. m \<in> set ms \<Longrightarrow> mustParse U (rACI m) = Inr (acceptIdentity U (rACI m))"
  shows "foldRes (roleStep U g role) ms c = Inr (c\<lparr>chModifyRoles := chModifyRoles c @
     map (\<lambda>m. (acceptIdentity U (rACI m), wireRole role)) (filter (\<lambda>m. snd (MembershipOf g (rACI m)) \<noteq> role) ms)\<rparr>)"
  using assms by (induction ms arbitrary: c) (auto simp: roleStep_def wireRole_def)

lemma role_refines:
  assumes U: "uuid_laws U" and raw: "rawOk raw"
    and c: "memberRoleChange U raw self ms role = Inr (Some c)"
  shows "\<exists>next. WithMemberRole U (convertGroup U raw (aciRecipient self)) self ms role = Inr next
    \<and> shown (convertGroup U (serverApply (c\<lparr>chMasterKey := k, chRevision := r\<rparr>) raw) own) = shown next"
proof -
  let ?g = "convertGroup U raw (aciRecipient self)"
  obtain "next" where n: "WithMemberRole U ?g self ms role = Inr next"
    using c by (auto simp: memberRoleChange_def Let_def split: sum.splits)
  then obtain ms' where ms': "normalizeGroupMembers U ms = Inr ms'" "NormalizeGroupRoleMembers U ms role = Inr ms'"
    "role \<noteq> GroupRoleUnknown"
    by (auto simp: WithMemberRole_def NormalizeGroupRoleMembers_def split: sum.splits if_splits)
  note P = mustParse_canon [OF U _ ms'(1)]
  have change: "c = noChange\<lparr>chModifyRoles := map (\<lambda>m. (acceptIdentity U (rACI m), wireRole role))
      (filter (\<lambda>m. snd (MembershipOf ?g (rACI m)) \<noteq> role) ms')\<rparr>"
    using c n ms'(2) roleSteps [OF P(1), where ms = ms' and g = ?g and role = role and c = noChange]
    by (auto simp: memberRoleChange_def Let_def noChange_def split: if_splits)
  have one: "convertMember U (changedRole (c\<lparr>chMasterKey := k, chRevision := r\<rparr>) m)
      = (if memberACI (convertMember U m) \<in> canonACI U ` set ms then (convertMember U m)\<lparr>gmRole := role\<rparr> else convertMember U m)"
    if m: "m \<in> set (somes (rgMembers raw))" for m
  proof -
    have len: "length (rwACI m) = 16" using raw m by (simp add: rawOk_def)
    have own: "MembershipOf ?g (uuid_String U (rwACI m)) = (MembershipMember, convertRole (rwRole m))"
    proof -
      have "find (\<lambda>x. memberACI x = uuid_String U (rwACI m)) (map (convertMember U) (somes (rgMembers raw))) = Some (convertMember U m)"
      proof -
        have "distinct (map (\<lambda>x. memberACI (convertMember U x)) (somes (rgMembers raw)))"
          using raw String_eq_iff [OF U] unfolding rawOk_def convertMember_simps
          by (simp add: distinct_map inj_on_def)
        then show ?thesis using m by (intro find_distinct) simp_all
      qed
      then show ?thesis using uuid_String_nonempty [OF U len] by (simp add: MembershipOf_def)
    qed
    have mem: "rwACI m \<in> acceptIdentity U ` rACI ` set ms' \<longleftrightarrow> uuid_String U (rwACI m) \<in> canonACI U ` set ms"
      using target_iff [OF U ms'(1) len] by (simp add: image_image)
    have "map_of (chModifyRoles c) (rwACI m) = (if rwACI m \<in> acceptIdentity U ` rACI ` set ms' \<and> convertRole (rwRole m) \<noteq> role
        then Some (wireRole role) else None)"
    proof -
      have "rwACI m \<in> (\<lambda>x. acceptIdentity U (rACI x)) ` set (filter (\<lambda>x. snd (MembershipOf ?g (rACI x)) \<noteq> role) ms')
          \<longleftrightarrow> rwACI m \<in> acceptIdentity U ` rACI ` set ms' \<and> convertRole (rwRole m) \<noteq> role"
      proof -
        have "snd (MembershipOf ?g (rACI x)) = convertRole (rwRole m)" if "x \<in> set ms'" "rwACI m = acceptIdentity U (rACI x)" for x
          using P(2) [OF that(1)] that(2) own by (metis snd_conv)
        then show ?thesis by auto
      qed
      then show ?thesis unfolding change by (simp add: noChange_def map_of_const)
    qed
    then show ?thesis using mem ms'(3) by (simp add: changedRole_def convertMember_def memberACI_def)
  qed
  have "shown next = shown (?g\<lparr>gMembers := roleAfter U ?g ms role\<rparr>)"
    using n by (simp add: WithMemberRole_cases [OF U])
  moreover have "shown (convertGroup U (serverApply (c\<lparr>chMasterKey := k, chRevision := r\<rparr>) raw) own)
      = shown (?g\<lparr>gMembers := roleAfter U ?g ms role\<rparr>)"
  proof (rule shown_eqI)
    have "gMembers (convertGroup U (serverApply (c\<lparr>chMasterKey := k, chRevision := r\<rparr>) raw) own)
        = map (\<lambda>m. convertMember U (changedRole (c\<lparr>chMasterKey := k, chRevision := r\<rparr>) m)) (somes (rgMembers raw))"
      unfolding applied_members by (simp add: change noChange_def)
    also have "\<dots> = gMembers (?g\<lparr>gMembers := roleAfter U ?g ms role\<rparr>)"
      using one by (simp add: roleAfter_def withRole_def)
    finally show "gMembers (convertGroup U (serverApply (c\<lparr>chMasterKey := k, chRevision := r\<rparr>) raw) own)
        = gMembers (?g\<lparr>gMembers := roleAfter U ?g ms role\<rparr>)" .
  qed (simp_all only: applied_lists applied_settings, simp_all add: change noChange_def)
  ultimately show ?thesis using n by simp
qed

section \<open>Bans\<close>

lemma serviceRecipient_ACI [simp]: "serviceRecipient U (aciServiceID u) = aciRecipient (uuid_String U u)"
  by (simp add: serviceRecipient_def aciServiceID_def)

lemma serviceRecipient_cases:
  assumes "sidOk sid"
  shows "sid = aciServiceID (sidUUID sid) \<and> serviceRecipient U sid = aciRecipient (uuid_String U (sidUUID sid))
    \<or> sid = pniServiceID (sidUUID sid) \<and> serviceRecipient U sid = pniRecipient (uuid_String U (sidUUID sid))"
  using assms by (cases sid) (auto simp: sidOk_def aciServiceID_def pniServiceID_def serviceRecipient_def)

text \<open>An identity of the server is a named user's ACI exactly when the change names it.\<close>

lemma sid_iff:
  assumes U: "uuid_laws U" "normalizeGroupMembers U ms0 = Inr ms" and ok: "sidOk sid"
  shows "rACI (serviceRecipient U sid) \<noteq> [] \<and> rACI (serviceRecipient U sid) \<in> canonACI U ` set ms0
    \<longleftrightarrow> sid \<in> (\<lambda>m. aciServiceID (acceptIdentity U (rACI m))) ` set ms"
  using serviceRecipient_cases [OF ok, of U]
proof (elim disjE conjE)
  assume s: "sid = aciServiceID (sidUUID sid)" "serviceRecipient U sid = aciRecipient (uuid_String U (sidUUID sid))"
  have "length (sidUUID sid) = 16" using ok by (simp add: sidOk_def)
  note T = target_iff [OF U this] uuid_String_nonempty [OF U(1) this]
  have "sid \<in> (\<lambda>m. aciServiceID (acceptIdentity U (rACI m))) ` set ms \<longleftrightarrow> sidUUID sid \<in> (\<lambda>m. acceptIdentity U (rACI m)) ` set ms"
    using s(1) by (auto simp: image_iff aciServiceID_def)
  then show ?thesis using T s(2) by simp
next
  assume s: "sid = pniServiceID (sidUUID sid)" "serviceRecipient U sid = pniRecipient (uuid_String U (sidUUID sid))"
  then have "sidType sid = ServiceIDTypePNI" by (metis ServiceID.select_convs(1) pniServiceID_def)
  then show ?thesis using s by (auto simp: aciServiceID_def pniServiceID_def)
qed

text \<open>The code names only the users that are listed.\<close>

lemma named_iff:
  assumes U: "uuid_laws U" "normalizeGroupMembers U ms0 = Inr ms" and u: "length u = 16" and P: "P (uuid_String U u)"
  shows "u \<in> (\<lambda>m. acceptIdentity U (rACI m)) ` {x \<in> set ms. P (rACI x)} \<longleftrightarrow> uuid_String U u \<in> canonACI U ` set ms0"
proof -
  have "P (rACI x)" if "x \<in> set ms" "u = acceptIdentity U (rACI x)" for x
    using mustParse_canon(2) [OF U(1) that(1) U(2)] that(2) P by simp
  then show ?thesis unfolding target_iff [OF U u] by blast
qed

lemma named_sid_iff:
  assumes U: "uuid_laws U" "normalizeGroupMembers U ms0 = Inr ms" and ok: "sidOk sid"
    and P: "rACI (serviceRecipient U sid) \<noteq> [] \<Longrightarrow> P (rACI (serviceRecipient U sid))"
  shows "sid \<in> (\<lambda>m. aciServiceID (acceptIdentity U (rACI m))) ` {x \<in> set ms. P (rACI x)}
    \<longleftrightarrow> rACI (serviceRecipient U sid) \<noteq> [] \<and> rACI (serviceRecipient U sid) \<in> canonACI U ` set ms0"
proof -
  have "P (rACI x)" if x: "x \<in> set ms" and sid: "sid = aciServiceID (acceptIdentity U (rACI x))" for x
  proof -
    have "rACI (serviceRecipient U sid) = rACI x"
      using mustParse_canon(2) [OF U(1) x U(2)] by (simp add: sid)
    moreover have "rACI x \<noteq> []"
      using mustParse_canon(2,3) [OF U(1) x U(2)] uuid_String_nonempty [OF U(1)] by metis
    ultimately show ?thesis using P by simp
  qed
  then show ?thesis unfolding sid_iff [OF U ok] by blast
qed

definition banChange :: "uuid_lib \<Rightarrow> Group \<Rightarrow> time \<Rightarrow> Recipient list \<Rightarrow> GroupChange" where
  "banChange U g t ms = noChange\<lparr>
     chDeleteMembers := map (\<lambda>m. acceptIdentity U (rACI m)) (filter (\<lambda>x. list_ex (\<lambda>m. memberACI m = rACI x) (gMembers g)) ms),
     chDeletePending := map (\<lambda>m. aciServiceID (acceptIdentity U (rACI m)))
       (filter (\<lambda>x. list_ex (\<lambda>p. rACI (pmRecipient p) = rACI x) (gPending g)) ms),
     chDeleteRequesting := map (\<lambda>m. acceptIdentity U (rACI m))
       (filter (\<lambda>x. list_ex (\<lambda>r. rACI (rqRecipient r) = rACI x) (gRequesting g)) ms),
     chAddBanned := map (\<lambda>m. \<lparr>rbService = aciServiceID (acceptIdentity U (rACI m)), rbTimestamp = of_int (UnixMilli t)\<rparr>)
       (filter (\<lambda>x. \<not> bannedACI g (rACI x)) ms)\<rparr>"

definition unbanChange :: "uuid_lib \<Rightarrow> Group \<Rightarrow> Recipient list \<Rightarrow> GroupChange" where
  "unbanChange U g ms = noChange\<lparr>
     chDeleteBanned := map (\<lambda>m. aciServiceID (acceptIdentity U (rACI m))) (filter (\<lambda>x. bannedACI g (rACI x)) ms)\<rparr>"

lemma banSteps:
  assumes "\<And>m. m \<in> set ms \<Longrightarrow> mustParse U (rACI m) = Inr (acceptIdentity U (rACI m))"
  shows "foldRes (banStep U g True t) ms c = Inr (c\<lparr>
      chDeleteMembers := chDeleteMembers c @ chDeleteMembers (banChange U g t ms),
      chDeletePending := chDeletePending c @ chDeletePending (banChange U g t ms),
      chDeleteRequesting := chDeleteRequesting c @ chDeleteRequesting (banChange U g t ms),
      chAddBanned := chAddBanned c @ chAddBanned (banChange U g t ms)\<rparr>)"
    and "foldRes (banStep U g False t) ms c = Inr (c\<lparr>chDeleteBanned := chDeleteBanned c @ chDeleteBanned (unbanChange U g ms)\<rparr>)"
  using assms by (induction ms arbitrary: c) (simp_all add: banStep_def banChange_def unbanChange_def Let_def noChange_def)

lemma msTime_of: "0 < UnixMilli t \<Longrightarrow> UnixMilli t < 2 ^ 63 \<Longrightarrow> msTime (of_int (UnixMilli t)) = fromUnixMilli (UnixMilli t)"
proof -
  assume a: "0 < UnixMilli t" "UnixMilli t < 2 ^ 63"
  have "sint (of_int (UnixMilli t) :: u64) = UnixMilli t" using a by (simp add: signed_of_int signed_take_bit_int_eq_self)
  moreover have "(of_int (UnixMilli t) :: u64) \<noteq> 0" using calculation a by (metis less_irrefl sint_0)
  ultimately show ?thesis by (simp add: msTime_def)
qed

lemma ban_refines:
  assumes U: "uuid_laws U" and raw: "rawOk raw" and t: "t = fromUnixMilli (UnixMilli t)" "0 < UnixMilli t" "UnixMilli t < 2 ^ 63"
    and c: "bannedMembersChange U raw self ms banned t = Inr (Some c)"
  shows "\<exists>next. WithBannedMembers U (convertGroup U raw (aciRecipient self)) self ms banned t = Inr next
    \<and> shown (convertGroup U (serverApply (c\<lparr>chMasterKey := k, chRevision := r\<rparr>) raw) own) = shown next"
proof -
  let ?g = "convertGroup U raw (aciRecipient self)"
  obtain "next" where n: "WithBannedMembers U ?g self ms banned t = Inr next"
    using c by (auto simp: bannedMembersChange_def Let_def split: sum.splits)
  then obtain ms' ts where ms': "normalizeGroupMembers U ms = Inr ms'" and ts: "banTargets ?g self ms' = Inr ts"
    and nx: "shown next = shown (applyBan ?g ms' ts banned t)"
    by (auto simp: WithBannedMembers_def NormalizeGroupBanMembers_def Let_def split: sum.splits if_splits)
  note P = mustParse_canon [OF U _ ms']
  have ts': "set ts = canonACI U ` set ms"
    using ts normalizeGroupMembers_D(1) [OF U ms'] by (auto simp: banTargets_iff)
  have change: "c = (if banned then banChange U ?g t ms' else unbanChange U ?g ms')"
    using c n ms' banSteps [OF P(1), where ms = ms' and g = ?g and c = noChange and t = t]
    by (auto simp: bannedMembersChange_def NormalizeGroupBanMembers_def Let_def noChange_def banChange_def unbanChange_def split: if_splits)
  have "shown (convertGroup U (serverApply (c\<lparr>chMasterKey := k, chRevision := r\<rparr>) raw) own) = shown (applyBan ?g ms' ts banned t)"
  proof (rule shown_eqI)
    note ok = raw [unfolded rawOk_def]
    have F: "chAddMembers c = []" "chPromoteRequesting c = []" "chModifyRoles c = []"
      by (simp_all add: change banChange_def unbanChange_def noChange_def)
    show "gMembers (convertGroup U (serverApply (c\<lparr>chMasterKey := k, chRevision := r\<rparr>) raw) own)
        = gMembers (applyBan ?g ms' ts banned t)"
    proof (cases banned)
      case True
      have "rwACI m \<in> set (chDeleteMembers c) \<longleftrightarrow> memberACI (convertMember U m) \<in> set ts" if m: "m \<in> set (somes (rgMembers raw))" for m
        using named_iff [OF U ms', of "rwACI m" "\<lambda>a. \<exists>m\<in>set (gMembers ?g). memberACI m = a"] m ok True
        by (simp add: change banChange_def list_ex_iff ts') blast
      then show ?thesis using True unfolding applied_members
        by (simp add: F changedRole_def applyBan_def removeBannedTargets_def filter_map comp_def cong: filter_cong)
    next
      case False
      then have "chDeleteMembers c = []" by (simp add: change unbanChange_def noChange_def)
      then show ?thesis using False unfolding applied_members by (simp add: F changedRole_def applyBan_def)
    qed
    show "gPending (convertGroup U (serverApply (c\<lparr>chMasterKey := k, chRevision := r\<rparr>) raw) own)
        = gPending (applyBan ?g ms' ts banned t)"
    proof (cases banned)
      case True
      have "rpService p \<in> set (chDeletePending c) \<longleftrightarrow> rACI (serviceRecipient U (rpService p)) \<noteq> []
          \<and> rACI (serviceRecipient U (rpService p)) \<in> set ts" if p: "p \<in> set (somes (rgPending raw))" for p
        using named_sid_iff [OF U ms', of "rpService p" "\<lambda>a. \<exists>p\<in>set (gPending ?g). rACI (pmRecipient p) = a"] p ok True
        by (simp add: change banChange_def list_ex_iff ts' convertPending_def) blast
      then show ?thesis using True unfolding applied_lists
        by (simp add: F applyBan_def removeBannedTargets_def filter_map comp_def convertPending_def cong: filter_cong)
    next
      case False
      then have "chDeletePending c = []" by (simp add: change unbanChange_def noChange_def)
      then show ?thesis using False unfolding applied_lists by (simp add: applyBan_def)
    qed
    show "gRequesting (convertGroup U (serverApply (c\<lparr>chMasterKey := k, chRevision := r\<rparr>) raw) own)
        = gRequesting (applyBan ?g ms' ts banned t)"
    proof (cases banned)
      case True
      have "rrqACI m \<in> set (chDeleteRequesting c) \<longleftrightarrow> uuid_String U (rrqACI m) \<in> set ts" if m: "m \<in> set (somes (rgRequesting raw))" for m
        using named_iff [OF U ms', of "rrqACI m" "\<lambda>a. \<exists>m\<in>set (gRequesting ?g). rACI (rqRecipient m) = a"] m ok True
        by (simp add: change banChange_def list_ex_iff ts' convertRequesting_def) blast
      then show ?thesis using True unfolding applied_lists
        by (simp add: F applyBan_def removeBannedTargets_def filter_map comp_def convertRequesting_def cong: filter_cong)
    next
      case False
      then have "chDeleteRequesting c = []" by (simp add: change unbanChange_def noChange_def)
      then show ?thesis using False unfolding applied_lists by (simp add: F applyBan_def)
    qed
    show "map banShown (gBanned (convertGroup U (serverApply (c\<lparr>chMasterKey := k, chRevision := r\<rparr>) raw) own))
        = map banShown (gBanned (applyBan ?g ms' ts banned t))"
    proof (cases banned)
      case True
      have "banShown (convertBanned U \<lparr>rbService = aciServiceID (acceptIdentity U (rACI m)), rbTimestamp = of_int (UnixMilli t)\<rparr>)
          = banShown \<lparr>bnRecipient = m, bnBannedAt = t\<rparr>" if m: "m \<in> set ms'" for m
        using P(2,3) [OF m] uuid_String_nonempty [OF U] msTime_of [OF t(2,3)] t(1)
        by (simp add: convertBanned_def banShown_def) metis
      moreover have "chDeleteBanned c = []" "chAddBanned c = chAddBanned (banChange U ?g t ms')"
        using True by (simp_all add: change banChange_def noChange_def)
      ultimately show ?thesis using True unfolding applied_lists
        by (simp add: banChange_def applyBan_def removeBannedTargets_def)
    next
      case False
      have "rbService b \<in> set (chDeleteBanned c) \<longleftrightarrow> rACI (serviceRecipient U (rbService b)) \<noteq> []
          \<and> rACI (serviceRecipient U (rbService b)) \<in> set ts" if b: "b \<in> set (somes (rgBanned raw))" for b
        using named_sid_iff [OF U ms', of "rbService b" "bannedACI ?g"] b ok False
        by (simp add: change unbanChange_def ts' bannedACI_def list_ex_iff convertBanned_def) blast
      moreover have "chAddBanned c = []" using False by (simp add: change unbanChange_def noChange_def)
      ultimately show ?thesis using False unfolding applied_lists
        by (simp add: applyBan_def filter_map comp_def convertBanned_def cong: filter_cong)
    qed
  qed (simp_all only: applied_settings,
      simp_all add: change banChange_def unbanChange_def noChange_def applyBan_def removeBannedTargets_def)
  then show ?thesis using n nx by simp
qed

section \<open>Removals\<close>

lemma remove_refines:
  assumes U: "uuid_laws U" and raw: "rawOk raw"
    and c: "removeMembersChangeAs U (convertGroup U raw self) self ms = Inr (c, next)"
  shows "WithRemovedMembersAs U (convertGroup U raw self) self ms = Inr next
    \<and> shown (convertGroup U (serverApply (c\<lparr>chMasterKey := k, chRevision := r\<rparr>) raw) own) = shown next"
proof -
  let ?g = "convertGroup U raw self"
  obtain ts where ts: "removalTargets U ?g self ms = Inr ts" "next = withRemovedTargets U ?g ts"
    using c by (auto simp: removeMembersChangeAs_def split: sum.splits)
  note c = c [unfolded removeMembersChangeAs_def ts(1), simplified, THEN conjunct1, symmetric]
  note ok = raw [unfolded rawOk_def]
  have "shown (convertGroup U (serverApply (c\<lparr>chMasterKey := k, chRevision := r\<rparr>) raw) own) = shown (withRemovedTargets U ?g ts)"
  proof (rule shown_eqI)
    have "rwACI m \<in> set (chDeleteMembers c) \<longleftrightarrow> removalMatches U (aciRecipient (uuid_String U (rwACI m))) ts"
      if m: "m \<in> set (somes (rgMembers raw))" for m
    proof -
      have "acceptIdentity U (uuid_String U (rwACI x)) = rwACI x" if "x \<in> set (somes (rgMembers raw))" for x
        using ok that by (intro acceptIdentity_String [OF U]) simp
      then show ?thesis using m unfolding c by (auto simp: image_iff)
    qed
    then show "gMembers (convertGroup U (serverApply (c\<lparr>chMasterKey := k, chRevision := r\<rparr>) raw) own)
        = gMembers (withRemovedTargets U ?g ts)"
      unfolding applied_members
      by (simp add: withRemovedTargets_def filter_map comp_def changedRole_def cong: filter_cong) (simp add: c noChange_def)
    have "rpService p \<in> set (chDeletePending c) \<longleftrightarrow> removalMatches U (serviceRecipient U (rpService p)) ts"
      if p: "p \<in> set (somes (rgPending raw))" for p
    proof -
      have "acceptServiceID U (serviceRecipient U sid) = sid" if "sidOk sid" for sid
      proof -
        have l: "length (sidUUID sid) = 16" using that by (simp add: sidOk_def)
        show ?thesis using serviceRecipient_cases [OF that, of U] uuid_String_nonempty [OF U l] acceptIdentity_String [OF U l]
          by (auto simp: acceptServiceID_def)
      qed
      then have "acceptServiceID U (serviceRecipient U (rpService x)) = rpService x" if "x \<in> set (somes (rgPending raw))" for x
        using ok that by simp
      moreover have "pmRecipient (convertPending U x) = serviceRecipient U (rpService x)" for x by (simp add: convertPending_def)
      ultimately show ?thesis using p unfolding c by (force simp: image_iff)
    qed
    then show "gPending (convertGroup U (serverApply (c\<lparr>chMasterKey := k, chRevision := r\<rparr>) raw) own)
        = gPending (withRemovedTargets U ?g ts)"
      unfolding applied_lists by (simp add: withRemovedTargets_def filter_map comp_def convertPending_def cong: filter_cong)
    have "rrqACI m \<in> set (chDeleteRequesting c) \<longleftrightarrow> removalMatches U (aciRecipient (uuid_String U (rrqACI m))) ts"
      if m: "m \<in> set (somes (rgRequesting raw))" for m
    proof -
      have "acceptIdentity U (uuid_String U (rrqACI x)) = rrqACI x" if "x \<in> set (somes (rgRequesting raw))" for x
        using ok that by (intro acceptIdentity_String [OF U]) simp
      then show ?thesis using m unfolding c by (auto simp: image_iff convertRequesting_def)
    qed
    then show "gRequesting (convertGroup U (serverApply (c\<lparr>chMasterKey := k, chRevision := r\<rparr>) raw) own)
        = gRequesting (withRemovedTargets U ?g ts)"
      unfolding applied_lists
      by (simp add: withRemovedTargets_def filter_map comp_def convertRequesting_def cong: filter_cong) (simp add: c noChange_def)
  qed (simp_all only: applied_settings applied_lists, simp_all add: c noChange_def withRemovedTargets_def)
  then show ?thesis using ts by (simp add: WithRemovedMembersAs_def)
qed

section \<open>Settings\<close>

text \<open>Where the avatar's path is not the rule's to say, it is what the upload gave.\<close>

definition uploads :: "GroupUpdate \<Rightarrow> bool" where
  "uploads u \<longleftrightarrow> (case guAvatar u of Some a \<Rightarrow> \<not> avRemove a | None \<Rightarrow> False)"

lemma settings_refines:
  assumes c: "settingsChange U I raw self u = Inr (Some c)"
    and c': "c' = (if uploads u then c\<lparr>chAvatar := Some path\<rparr> else c)"
  shows "\<exists>next. WithUpdate I (convertGroup U raw (aciRecipient self)) self u = Inr next
    \<and> shown (convertGroup U (serverApply (c'\<lparr>chMasterKey := k, chRevision := r\<rparr>) raw) own)
      = shown (if uploads u then next\<lparr>gAvatarPath := path\<rparr> else next)"
proof -
  let ?g = "convertGroup U raw (aciRecipient self)"
  obtain "next" where n: "WithUpdate I ?g self u = Inr next" and change: "c = settingsAccessChanges (rgAccess raw) u (noChange\<lparr>
             chAvatar := (if gAvatarPath next \<noteq> gAvatarPath ?g then Some (gAvatarPath next) else None),
             chDescription := (if gDescription next \<noteq> gDescription ?g then Some (gDescription next) else None),
             chTimer := (if gTimer next \<noteq> gTimer ?g then guTimerSeconds u else None),
             chAnnouncementsOnly := (if gAnnouncementsOnly next \<noteq> gAnnouncementsOnly ?g
               then Some (gAnnouncementsOnly next) else None)\<rparr>)"
    using c by (auto simp: settingsChange_def Let_def split: sum.splits if_splits)
  from n have "\<exists>x. next = (updatedSettings ?g u)\<lparr>gRevision := x\<rparr>"
    by (auto simp: WithUpdate_def Let_def split: option.splits if_splits) (metis Group.surjective Group.update_convs(6))+
  then obtain x where nx: "next = (updatedSettings ?g u)\<lparr>gRevision := x\<rparr>" by blast
  have fields: "chAvatar c' = (if uploads u then Some path else if gAvatarPath next \<noteq> rgAvatarPath raw then Some (gAvatarPath next) else None)"
    "chDescription c' = (if gDescription next \<noteq> rgDescription raw then Some (gDescription next) else None)"
    "chTimer c' = (if gTimer next \<noteq> uint (rgTimer raw) * 1000000000 then guTimerSeconds u else None)"
    "chAnnouncementsOnly c' = (if gAnnouncementsOnly next \<noteq> rgAnnouncementsOnly raw then Some (gAnnouncementsOnly next) else None)"
    "chTitle c' = None" "chAddMembers c' = []" "chDeleteMembers c' = []" "chModifyRoles c' = []" "chDeletePending c' = []"
    "chDeleteRequesting c' = []" "chPromoteRequesting c' = []" "chAddBanned c' = []" "chDeleteBanned c' = []"
    by (simp_all add: c' change settingsAccessChanges_def Let_def noChange_def split: prod.split)
  have access: "chAttributesAccess c' = (case guMembersCanEditAttributes u of None \<Rightarrow> None
      | Some b \<Rightarrow> if (case rgAccess raw of None \<Rightarrow> AccessUnknown | Some a \<Rightarrow> raAttributes a) \<noteq> settingsAccess b then Some (settingsAccess b) else None)"
    "chMemberAccess c' = (case guMembersCanAddMembers u of None \<Rightarrow> None
      | Some b \<Rightarrow> if (case rgAccess raw of None \<Rightarrow> AccessUnknown | Some a \<Rightarrow> raMembers a) \<noteq> settingsAccess b then Some (settingsAccess b) else None)"
    by (cases "rgAccess raw"; simp add: c' change settingsAccessChanges_def Let_def noChange_def split: option.split)+
  let ?new = "convertGroup U (serverApply (c'\<lparr>chMasterKey := k, chRevision := r\<rparr>) raw) own"
  let ?next = "if uploads u then next\<lparr>gAvatarPath := path\<rparr> else next"
  have "shown ?new = shown ?next"
  proof (rule shown_eqI)
    show "gAvatarPath ?new = gAvatarPath ?next" unfolding applied_settings by (simp add: fields)
    show "gDescription ?new = gDescription ?next" unfolding applied_settings by (simp add: fields)
    show "gTimer ?new = gTimer ?next" unfolding applied_settings
      by (simp add: fields nx updatedSettings_def split: option.split)
    show "gAnnouncementsOnly ?new = gAnnouncementsOnly ?next" unfolding applied_settings by (simp add: fields)
    show "gMembersCanEditAttributes ?new = gMembersCanEditAttributes ?next" unfolding applied_settings
      by (cases "rgAccess raw"; cases "guMembersCanEditAttributes u")
        (auto simp: access nx updatedSettings_def settingsAccess_def convertGroupAccess_def)
    show "gMembersCanAddMembers ?new = gMembersCanAddMembers ?next" unfolding applied_settings
      by (cases "rgAccess raw"; cases "guMembersCanAddMembers u")
        (auto simp: access nx updatedSettings_def settingsAccess_def convertGroupAccess_def)
    show "gMembers ?new = gMembers ?next" unfolding applied_members by (simp add: fields nx updatedSettings_def changedRole_def)
    show "map banShown (gBanned ?new) = map banShown (gBanned ?next)" unfolding applied_lists by (simp add: fields nx updatedSettings_def)
    show "gPending ?new = gPending ?next" "gRequesting ?new = gRequesting ?next"
      unfolding applied_lists by (simp_all add: fields nx updatedSettings_def)
    show "gTitle ?new = gTitle ?next" "gID ?new = gID ?next" "gMasterKey ?new = gMasterKey ?next"
      unfolding applied_settings by (simp_all add: fields nx updatedSettings_def)
  qed (simp_all add: nx updatedSettings_def)
  then show ?thesis using n by auto
qed

section \<open>Normalizing twice\<close>

lemma firsts_distinct_same: "distinct (map k xs) \<Longrightarrow> k ` set xs \<inter> set seen = {} \<Longrightarrow> firsts k xs seen = xs"
  by (induction xs arbitrary: seen) auto

lemma normalized_again:
  assumes "\<And>x. k (c x) = k x" "\<And>x. c (c x) = c x"
  shows "map c (firsts k (map c (firsts k xs [])) []) = map c (firsts k xs [])"
proof -
  have same: "map k (map c (firsts k xs [])) = map k (firsts k xs [])" by (simp add: assms(1))
  have "distinct (map k (map c (firsts k xs [])))" unfolding same by (rule firsts_distinct)
  then have "firsts k (map c (firsts k xs [])) [] = map c (firsts k xs [])"
    by (rule firsts_distinct_same) simp
  then show ?thesis by (simp add: assms(2))
qed

lemma normalizeGroupMembers_idem:
  assumes "uuid_laws U" "normalizeGroupMembers U ms = Inr ms'"
  shows "normalizeGroupMembers U ms' = Inr ms'"
proof -
  have "acceptIdentity U (rACI (canonMember U x)) = acceptIdentity U (rACI x)" for x
    using assms(1) by (simp add: canonACI_def)
  moreover from this have "canonMember U (canonMember U x) = canonMember U x" for x
    by (simp add: canonMember_def canonACI_def)
  ultimately show ?thesis
    using assms(2) normalized_again [of "\<lambda>r. acceptIdentity U (rACI r)" "canonMember U" ms]
      firsts_sub [of "\<lambda>r. acceptIdentity U (rACI r)" ms "[]"] firsts_keys [of "\<lambda>r. acceptIdentity U (rACI r)" ms "[]"]
    by (auto simp: normalizeGroupMembers_iff list_all_iff validACI_def)
qed

lemma NormalizeGroupRemovalMembers_idem:
  assumes "uuid_laws U" "NormalizeGroupRemovalMembers U ms = Inr ms'"
  shows "NormalizeGroupRemovalMembers U ms' = Inr ms'"
proof -
  have canon: "canonOf U (canonOf U v) = canonOf U v" "canonOf U v = [] \<longleftrightarrow> v = []" for v
    using uuid_String_nonempty [OF assms(1) acceptIdentity_length [OF assms(1)]] assms(1) by (auto simp: canonOf_def)
  have k: "targetKey U (canonTarget U x) = targetKey U x" "canonTarget U (canonTarget U x) = canonTarget U x"
    "validTarget U (canonTarget U x) = validTarget U x" for x
    using assms(1) canon by (simp_all add: targetKey_def canonTarget_def validTarget_def)
  show ?thesis
    using assms(2) normalized_again [of "targetKey U" "canonTarget U" ms, OF k(1,2)] k(3)
      firsts_sub [of "targetKey U" ms "[]"] firsts_keys [of "targetKey U" ms "[]"]
    by (auto simp: NormalizeGroupRemovalMembers_iff list_all_iff)
qed

end
