(* ===== verification/GroupOperations.thy ===== *)
theory GroupOperations
  imports GroupRefinement
begin

text \<open>
  The operations of the client on groups (GroupClient), run with a log of the groups they fetch and
  the changes they submit: every operation submits at most one change, built from the state that it
  fetched itself, and that change refines the rule of the operation.
\<close>

section \<open>A client with a log\<close>

datatype group_event = FetchedGroup RawGroup | Submitted GroupChange

type_synonym 'w logged = "'w \<times> group_event list"

definition onWorld :: "('w \<Rightarrow> 'a \<times> 'w) \<Rightarrow> 'w logged \<Rightarrow> 'a \<times> 'w logged" where
  "onWorld f s = (case f (fst s) of (x, w) \<Rightarrow> (x, (w, snd s)))"

definition logMeow :: "'w meow \<Rightarrow> 'w logged meow" where
  "logMeow M = \<lparr>mwConnected = onWorld (mwConnected M), mwBegin = onWorld (mwBegin M), mwDone = (\<lambda>s. (mwDone M (fst s), snd s)),
     mwLost = onWorld (mwLost M), mwCtxErr = onWorld (mwCtxErr M), mwNow = onWorld (mwNow M), mwRandom = onWorld (mwRandom M),
     mwStoreDevice = onWorld (mwStoreDevice M), mwMasterKey = (\<lambda>g. onWorld (mwMasterKey M g)), mwGroupIDs = onWorld (mwGroupIDs M),
     mwPutGroup = (\<lambda>r. onWorld (mwPutGroup M r)), mwGetGroup = (\<lambda>g. onWorld (mwGetGroup M g)), mwGetGroups = onWorld (mwGetGroups M),
     mwEvict = (\<lambda>g s. (mwEvict M g (fst s), snd s)),
     mwRetrieve = (\<lambda>g r s. case mwRetrieve M g r (fst s) of (x, w) \<Rightarrow>
       (x, (w, snd s @ (case x of Inr (Some raw) \<Rightarrow> [FetchedGroup raw] | _ \<Rightarrow> [])))),
     mwPatch = (\<lambda>c s. case mwPatch M c (fst s) of (x, w) \<Rightarrow> (x, (w, snd s @ [Submitted c]))),
     mwNotify = (\<lambda>g x c. onWorld (mwNotify M g x c)),
     mwUpdate = (\<lambda>c g s. case mwUpdate M c g (fst s) of (x, w) \<Rightarrow> (x, (w, snd s @ [Submitted c]))),
     mwUploadAvatar = (\<lambda>d g k. onWorld (mwUploadAvatar M d g k)), mwCredential = (\<lambda>u. onWorld (mwCredential M u)),
     mwPrepareCreation = (\<lambda>g. onWorld (mwPrepareCreation M g)), mwCreate = (\<lambda>g. onWorld (mwCreate M g))\<rparr>"

definition unsubmitted :: "group_event list \<Rightarrow> bool" where
  "unsubmitted es \<longleftrightarrow> (\<forall>c. Submitted c \<notin> set es)"

lemma unsubmitted_simps [simp]:
  "unsubmitted []" "unsubmitted (es @ es') \<longleftrightarrow> unsubmitted es \<and> unsubmitted es'"
  "unsubmitted (FetchedGroup raw # es) \<longleftrightarrow> unsubmitted es" "\<not> unsubmitted (Submitted c # es)"
  by (auto simp: unsubmitted_def)

text \<open>\<open>once Q m\<close>: whatever \<open>m\<close> does, it submits at most one change, which satisfies \<open>Q\<close>; \<open>silent m\<close>:
  it submits nothing.\<close>

definition oneChange :: "(GroupChange \<Rightarrow> bool) \<Rightarrow> group_event list \<Rightarrow> bool" where
  "oneChange Q es \<longleftrightarrow> unsubmitted es
     \<or> (\<exists>pre c post. es = pre @ Submitted c # post \<and> unsubmitted (pre @ post) \<and> Q c)"

definition once :: "(GroupChange \<Rightarrow> bool) \<Rightarrow> ('w logged \<Rightarrow> 'a \<times> 'w logged) \<Rightarrow> bool" where
  "once Q m \<longleftrightarrow> (\<forall>s. \<exists>es. snd (snd (m s)) = snd s @ es \<and> oneChange Q es)"

abbreviation silent :: "('w logged \<Rightarrow> 'a \<times> 'w logged) \<Rightarrow> bool" where
  "silent \<equiv> once (\<lambda>_. False)"

lemma onceD: "once Q m \<Longrightarrow> m s = (r, s') \<Longrightarrow> \<exists>es. snd s' = snd s @ es \<and> oneChange Q es"
  unfolding once_def by (metis snd_conv)

lemma oneChange_append:
  "unsubmitted es \<Longrightarrow> oneChange Q es' \<Longrightarrow> oneChange Q (es @ es')"
  "oneChange Q es \<Longrightarrow> unsubmitted es' \<Longrightarrow> oneChange Q (es @ es')"
proof -
  show "oneChange Q (es @ es')" if "unsubmitted es" "oneChange Q es'"
    using that unfolding oneChange_def by (elim disjE exE conjE) (auto, metis append.assoc unsubmitted_simps(2))
  show "oneChange Q (es @ es')" if "oneChange Q es" "unsubmitted es'"
    using that unfolding oneChange_def by (elim disjE exE conjE) (auto, metis unsubmitted_simps(2))
qed

lemma oneChange_False [simp]: "oneChange (\<lambda>_. False) es \<longleftrightarrow> unsubmitted es"
  by (simp add: oneChange_def)

named_theorems once_intros \<open>rules for operations that submit at most once\<close>

lemma once_basic [once_intros]: "once Q (\<lambda>s. (x, s))" "once Q (onWorld f)" "once Q (opRet x)" "once Q (opFail e)" "once Q (opOf r)"
  by (simp_all add: once_def onWorld_def opRet_def opFail_def opOf_def oneChange_def split: prod.split)

lemma once_bind [once_intros]:
  assumes "silent m" "\<And>x. once Q (k x)"
  shows "once Q (\<lambda>s. case m s of (x, s') \<Rightarrow> k x s')"
proof (unfold once_def, intro allI)
  fix s
  obtain x s' where m: "m s = (x, s')" by (cases "m s")
  obtain y s'' where k: "k x s' = (y, s'')" by (cases "k x s'")
  show "\<exists>es. snd (snd (case m s of (x, s') \<Rightarrow> k x s')) = snd s @ es \<and> oneChange Q es"
    using onceD [OF assms(1) m] onceD [OF assms(2) k] by (auto simp: m k intro: oneChange_append)
qed

lemma once_bind_silent:
  assumes "once Q m" "\<And>x. silent (k x)"
  shows "once Q (\<lambda>s. case m s of (x, s') \<Rightarrow> k x s')"
proof (unfold once_def, intro allI)
  fix s
  obtain x s' where m: "m s = (x, s')" by (cases "m s")
  obtain y s'' where k: "k x s' = (y, s'')" by (cases "k x s'")
  show "\<exists>es. snd (snd (case m s of (x, s') \<Rightarrow> k x s')) = snd s @ es \<and> oneChange Q es"
    using onceD [OF assms(1) m] onceD [OF assms(2) k] by (auto simp: m k intro: oneChange_append)
qed

lemma once_cases [once_intros]:
  "(\<And>e. once Q (f e)) \<Longrightarrow> (\<And>y. once Q (g y)) \<Longrightarrow> once Q (\<lambda>s. case x of Inl e \<Rightarrow> f e s | Inr y \<Rightarrow> g y s)"
  "once Q h \<Longrightarrow> (\<And>y. once Q (k y)) \<Longrightarrow> once Q (\<lambda>s. case z of None \<Rightarrow> h s | Some y \<Rightarrow> k y s)"
  "once Q l \<Longrightarrow> once Q l' \<Longrightarrow> once Q (\<lambda>s. if b then l s else l' s)"
  "(\<And>a b. once Q (p a b)) \<Longrightarrow> once Q (\<lambda>s. case q of (a, b) \<Rightarrow> p a b s)"
  "once Q l \<Longrightarrow> once Q l' \<Longrightarrow> once Q (if b then l else l')"
  "(\<And>e. once Q (f e)) \<Longrightarrow> (\<And>y. once Q (g y)) \<Longrightarrow> once Q (case x of Inl e \<Rightarrow> f e | Inr y \<Rightarrow> g y)"
  "once Q h \<Longrightarrow> (\<And>y. once Q (k y)) \<Longrightarrow> once Q (case z of None \<Rightarrow> h | Some y \<Rightarrow> k y)"
  "(\<And>a b. once Q (p a b)) \<Longrightarrow> once Q (case q of (a, b) \<Rightarrow> p a b)"
  by ((cases x; simp), (cases z; simp), (cases b; simp), (cases q; simp), (cases b; simp), (cases x; simp), (cases z; simp), (cases q; simp))

lemma opThen_bind: "opThen m f = (\<lambda>s. case m s of (x, s') \<Rightarrow> (case x of Inl e \<Rightarrow> (\<lambda>s. (Inl e, s)) | Inr y \<Rightarrow> f y) s')"
  by (rule ext) (simp add: opThen_def split: sum.split prod.split)

lemma once_then [once_intros]: "silent m \<Longrightarrow> (\<And>x. once Q (f x)) \<Longrightarrow> once Q (opThen m f)"
  unfolding opThen_bind by (intro once_bind once_intros)

text \<open>Operations that only change the result, and deferred calls that submit nothing.\<close>

lemma once_same: "once Q m \<Longrightarrow> (\<And>s. snd (n s) = snd (m s)) \<Longrightarrow> once Q n"
  unfolding once_def by simp

lemma once_maps [once_intros]:
  "once Q m \<Longrightarrow> once Q (opGet m)" "once Q n \<Longrightarrow> once Q (opWrap ctx n)" "once Q l \<Longrightarrow> once Q (opCheck l)"
  "once Q p \<Longrightarrow> once Q (partlyOf p)"
  by (erule once_same; simp add: opGet_def opWrap_def opCheck_def partlyOf_def split: prod.split sum.split option.split)+

lemma once_states [once_intros]:
  "(\<And>s. snd (f s) = snd s) \<Longrightarrow> once Q (opDo f)"
  "(\<And>s. snd (f s) = snd s) \<Longrightarrow> once Q m \<Longrightarrow> once Q (opDefer f m)"
  by (simp_all add: once_def opDo_def opDefer_def oneChange_def split: prod.split) (metis snd_conv surj_pair)+

lemma logMeow_simps [simp]:
  "snd (mwDone (logMeow M) s) = snd s" "snd (mwEvict (logMeow M) g s) = snd s"
  by (simp_all add: logMeow_def)

lemma once_log [once_intros]:
  "once Q (mwConnected (logMeow M))" "once Q (mwBegin (logMeow M))" "once Q (mwLost (logMeow M))"
  "once Q (mwCtxErr (logMeow M))" "once Q (mwNow (logMeow M))" "once Q (mwMasterKey (logMeow M) g)"
  "once Q (mwPutGroup (logMeow M) r)" "once Q (mwRetrieve (logMeow M) g v)" "once Q (mwNotify (logMeow M) x y c)"
  "once Q (mwUploadAvatar (logMeow M) d g k)" "Q c \<Longrightarrow> once Q (mwPatch (logMeow M) c)"
  by (simp_all add: logMeow_def once_intros)
    (auto simp: once_def oneChange_def split: prod.split sum.split option.split intro!: exI [of _ "[]"])

section \<open>Every step of an operation\<close>

lemma once_orLost [once_intros]: "once Q m \<Longrightarrow> once Q (orLost (logMeow M) m)"
  unfolding orLost_def lostOr_def by (intro once_bind_silent once_intros) (assumption | intro once_bind once_intros)+

lemma once_steps [once_intros]:
  "once Q (groupClient (logMeow M) action)" "once Q (knownGroup (logMeow M) g)" "once Q (cacheGroup (logMeow M) h)"
  unfolding groupClient_def knownGroup_def cacheGroup_def by (auto intro!: once_intros)

lemma once_keepGroup [once_intros]: "once Q (keepGroup (logMeow M) h)"
  unfolding keepGroup_def by (auto intro!: once_intros)

lemma once_retrieve [once_intros]: "once Q (retrieve (logMeow M) L g v)"
  unfolding retrieve_def by (auto intro!: once_intros)

lemma once_resolve [once_intros]: "once Q (resolveGroupRef (logMeow M) L ref)"
  unfolding resolveGroupRef_def by (auto intro!: once_intros)

lemma once_onGroups [once_intros]: "once Q m \<Longrightarrow> once Q (onGroups (logMeow M) action m)"
  unfolding onGroups_def by (auto intro!: once_intros)

lemma once_fresh [once_intros]: "once Q (freshGroup (logMeow M) L g)"
  unfolding freshGroup_def by (auto intro!: once_intros)

lemma once_after: "once Q m \<Longrightarrow> once Q (\<lambda>s. m (mwEvict (logMeow M) g s))"
  unfolding once_def by (metis logMeow_simps(2))

lemma once_changeGroupOnce:
  assumes "rgRevision raw \<noteq> - 1 \<Longrightarrow> Q (change\<lparr>chMasterKey := rgMasterKey raw, chRevision := rgRevision raw + 1\<rparr>)"
  shows "once Q (changeGroupOnce (logMeow M) g raw change)"
proof -
  let ?notify = "\<lambda>masterKey change' response. (\<lambda>s. if gcrActions response = [] then ((Some (Sentinel ErrInvalidGroupChangeResponse), True, change'), s)
     else case gcrMarshalled response of Inl e \<Rightarrow> ((Some (Wrap ''encode accepted group change'' [e]), True, change'), s)
       | Inr encoded \<Rightarrow> (case mwNotify (logMeow M) raw \<lparr>gctxRevision = chRevision change', gctxChange = encoded,
                   gctxMasterKey = masterKey\<rparr> change' s of (_, s') \<Rightarrow> ((None, True, change'), s')))"
  have n: "silent (?notify masterKey change' response)" for masterKey change' response
    by (intro once_intros)
  let ?rest = "\<lambda>masterKey (r, change'). case r of Inl e \<Rightarrow> (\<lambda>s. ((Some (updateGroupError e), False, change'), s))
     | Inr response \<Rightarrow> (\<lambda>s. ?notify masterKey change' response (mwEvict (logMeow M) g s))"
  have r: "silent (?rest masterKey x)" for masterKey x
    by (cases x; cases "fst x") (auto intro!: once_basic once_after n simp del: logMeow_simps)
  have "changeGroupOnce (logMeow M) g raw change = (case StdDecode (rgMasterKey raw) of
       None \<Rightarrow> (\<lambda>s. ((Some (Wrap ''invalid group key or revision'' [Sentinel ErrUnknownGroup]), False, change), s))
     | Some masterKey \<Rightarrow>
         if length masterKey \<noteq> 32 \<or> rgRevision raw = - 1
         then (\<lambda>s. ((Some (Wrap ''invalid group key or revision'' [Sentinel ErrUnknownGroup]), False, change), s))
         else (\<lambda>s. case mwPatch (logMeow M) (change\<lparr>chMasterKey := rgMasterKey raw, chRevision := rgRevision raw + 1\<rparr>) s of
           (x, s') \<Rightarrow> ?rest masterKey x s'))"
    by (rule ext) (auto simp: changeGroupOnce_def Let_def split: option.split sum.split prod.split)
  then show ?thesis using r assms
    by (auto intro!: once_basic once_bind_silent once_log split: option.split)
qed

lemma once_fetchAccepted [once_intros]: "once Q (fetchAccepted (logMeow M) L g raw c)"
proof -
  have "fetchAccepted (logMeow M) L g raw c = (\<lambda>s. (\<lambda>s. case mwRetrieve (logMeow M) (rgID raw) (chRevision c) s of
      (x, s') \<Rightarrow> (case x of Inl e \<Rightarrow> Failed (committed raw True c) (Wrap ''change was accepted but fetching the group failed'' [groupFetchError L e])
         | Inr None \<Rightarrow> Failed (committed raw True c) (Wrap ''change was accepted but fetching the group returned invalid state''
             [Sentinel ErrInvalidGroupChangeResponse])
         | Inr (Some accepted) \<Rightarrow> if rgRevision accepted < chRevision c \<or> rgID accepted \<noteq> rgID raw
             then Failed (committed raw True c) (Wrap ''change was accepted but fetching the group returned invalid state''
               [Sentinel ErrInvalidGroupChangeResponse]) else Accepted accepted (chRevision c), s')) (mwEvict (logMeow M) g s))"
    by (rule ext) (auto simp: fetchAccepted_def split: prod.split sum.split option.split)
  then show ?thesis by (auto intro!: once_after once_intros simp del: logMeow_simps)
qed

lemma once_updateGroupAndFetchOnce:
  assumes "rgRevision raw \<noteq> - 1 \<Longrightarrow> Q (change\<lparr>chMasterKey := rgMasterKey raw, chRevision := rgRevision raw + 1\<rparr>)"
  shows "once Q (updateGroupAndFetchOnce (logMeow M) L g raw change)"
  unfolding updateGroupAndFetchOnce_def
  by (intro once_bind_silent once_changeGroupOnce assms) (auto intro!: once_intros split: option.split prod.split)

lemma once_outcome [once_intros]:
  "(\<And>raw v. once Q (f raw v)) \<Longrightarrow> (\<And>c e. once Q (h c e)) \<Longrightarrow>
   once Q (\<lambda>s. case x of Accepted raw v \<Rightarrow> f raw v s | Failed c e \<Rightarrow> h c e s)"
  by (cases x) simp_all

lemma once_lostOr [once_intros]: "once Q (lostOr (logMeow M) e)"
  unfolding lostOr_def by (intro once_intros)

lemma once_finish:
  assumes "once Q m" shows "once Q (finish (logMeow M) L own action m)"
  unfolding finish_def by (intro once_bind_silent assms) (intro once_intros)

text \<open>An uploaded avatar only sets the path.\<close>

lemma once_bind_value:
  assumes "silent m" "\<And>x s s'. m s = (x, s') \<Longrightarrow> once Q (k x)"
  shows "once Q (\<lambda>s. case m s of (x, s') \<Rightarrow> k x s')"
proof (unfold once_def, intro allI)
  fix s
  obtain x s' where m: "m s = (x, s')" by (cases "m s")
  obtain y s'' where k: "k x s' = (y, s'')" by (cases "k x s'")
  show "\<exists>es. snd (snd (case m s of (x, s') \<Rightarrow> k x s')) = snd s @ es \<and> oneChange Q es"
    using onceD [OF assms(1) m] onceD [OF assms(2) k, OF m] by (auto simp: m k intro: oneChange_append)
qed

lemma once_uploadAvatarChange [once_intros]: "once Q (uploadAvatarChange (logMeow M) raw c data)"
  unfolding uploadAvatarChange_def by (auto intro!: once_intros)

lemma opThen_Inr: "opThen m f s = (Inr y, s') \<longleftrightarrow> (\<exists>x s1. m s = (Inr x, s1) \<and> f x s1 = (Inr y, s'))"
  by (auto simp: opThen_def split: prod.splits sum.splits)

lemma orLost_Inr: "orLost M m s = (Inr y, s') \<longleftrightarrow> m s = (Inr y, s')"
  by (auto simp: orLost_def split: prod.splits sum.splits)

lemma uploadAvatarChange_D:
  "uploadAvatarChange M raw c data s = (Inr c', s') \<Longrightarrow> \<exists>path. c' = c\<lparr>chAvatar := Some path\<rparr>"
  by (auto simp: uploadAvatarChange_def opThen_Inr opFail_def opRet_def split: option.splits if_splits)

lemma once_updateGroupWithAvatarOnce:
  assumes "\<And>c path. settingsChange (mlUUID L) (mlImages L) raw self u = Inr (Some c) \<Longrightarrow> rgRevision raw \<noteq> - 1
    \<Longrightarrow> Q ((if uploads u then c\<lparr>chAvatar := Some path\<rparr> else c)\<lparr>chMasterKey := rgMasterKey raw, chRevision := rgRevision raw + 1\<rparr>)"
  shows "once Q (updateGroupWithAvatarOnce (logMeow M) L g raw self u)"
proof (cases "settingsChange (mlUUID L) (mlImages L) raw self u")
  case (Inl e)
  then show ?thesis by (simp add: once_def oneChange_def updateGroupWithAvatarOnce_def)
next
  case (Inr change)
  show ?thesis
  proof (cases change)
    case None
    then show ?thesis using Inr by (simp add: once_def oneChange_def updateGroupWithAvatarOnce_def)
  next
    case (Some c)
    let ?m = "\<lambda>s. case guAvatar u of
            Some a \<Rightarrow> if avRemove a then opRet c s else uploadAvatarChange (logMeow M) raw c (avData a) s
          | None \<Rightarrow> opRet c s"
    have m: "silent ?m" by (intro once_intros)
    let ?k = "\<lambda>r s. case r of Inl e \<Rightarrow> (Failed None e, s) | Inr c' \<Rightarrow> updateGroupAndFetchOnce (logMeow M) L g raw c' s"
    have k: "once Q (?k r)" if "?m s = (r, s')" for r s s'
    proof (cases r)
      case (Inr c')
      then obtain path where "c' = (if uploads u then c\<lparr>chAvatar := Some path\<rparr> else c)"
      proof (cases "uploads u")
        case True
        then obtain a where "guAvatar u = Some a" "\<not> avRemove a" by (auto simp: uploads_def split: option.splits)
        then show ?thesis using \<open>?m s = (r, s')\<close> Inr True uploadAvatarChange_D [of "logMeow M" raw c "avData a" s c' s']
          by (auto intro: that)
      next
        case False
        then have "c' = c" using \<open>?m s = (r, s')\<close> Inr by (auto simp: uploads_def opRet_def split: option.splits if_splits)
        then show ?thesis using False that by simp
      qed
      then show ?thesis using assms [OF \<open>settingsChange _ _ _ _ _ = _\<close> [unfolded Some]] Inr
        by (auto intro!: once_updateGroupAndFetchOnce)
    qed (simp add: once_def oneChange_def)
    have "updateGroupWithAvatarOnce (logMeow M) L g raw self u = (\<lambda>s. case ?m s of (r, s') \<Rightarrow> ?k r s')"
      by (rule ext) (simp add: updateGroupWithAvatarOnce_def Inr Some split: prod.split sum.split)
    then show ?thesis using once_bind_value [OF m k] by simp
  qed
qed

section \<open>Changes to fetched groups\<close>

definition fetchedChange :: "(RawGroup \<Rightarrow> GroupChange \<Rightarrow> bool) \<Rightarrow> group_event list \<Rightarrow> bool" where
  "fetchedChange Q es \<longleftrightarrow> unsubmitted es
     \<or> (\<exists>pre raw mid c post. es = pre @ FetchedGroup raw # mid @ Submitted c # post \<and> unsubmitted (pre @ mid @ post) \<and> Q raw c)"

definition onFetched :: "(RawGroup \<Rightarrow> GroupChange \<Rightarrow> bool) \<Rightarrow> ('w logged \<Rightarrow> 'a \<times> 'w logged) \<Rightarrow> bool" where
  "onFetched Q m \<longleftrightarrow> (\<forall>s. \<exists>es. snd (snd (m s)) = snd s @ es \<and> fetchedChange Q es)"

lemma onFetchedD: "onFetched Q m \<Longrightarrow> m s = (r, s') \<Longrightarrow> \<exists>es. snd s' = snd s @ es \<and> fetchedChange Q es"
  unfolding onFetched_def by (metis snd_conv)

lemma fetchedChange_append:
  "unsubmitted es \<Longrightarrow> fetchedChange Q es' \<Longrightarrow> fetchedChange Q (es @ es')"
  unfolding fetchedChange_def by (elim disjE exE conjE) (auto, metis append.assoc unsubmitted_simps(2))

lemma retrieve_Inr: "retrieve M L g v s = (Inr raw, s') \<longleftrightarrow> mwRetrieve M g v s = (Inr (Some raw), s')"
  by (auto simp: retrieve_def split: prod.splits sum.splits option.splits)

lemma freshGroup_Inr:
  assumes "freshGroup (logMeow M) L g s = (Inr raw, s')"
  shows "\<exists>w. fst (mwRetrieve M g 0 w) = Inr (Some raw) \<and> snd s' = snd s @ [FetchedGroup raw]"
proof -
  have r: "mwRetrieve (logMeow M) g 0 (mwEvict (logMeow M) g s) = (Inr (Some raw), s')"
    using assms by (simp add: freshGroup_def opThen_Inr opDo_def orLost_Inr retrieve_Inr)
  obtain x w where x: "mwRetrieve M g 0 (mwEvict M g (fst s)) = (x, w)" by (cases "mwRetrieve M g 0 (mwEvict M g (fst s))")
  have "mwRetrieve (logMeow M) g 0 (mwEvict (logMeow M) g s)
      = (x, (w, snd s @ (case x of Inr (Some raw) \<Rightarrow> [FetchedGroup raw] | _ \<Rightarrow> [])))"
    by (simp add: logMeow_def x)
  with r have "x = Inr (Some raw)" "s' = (w, snd s @ [FetchedGroup raw])" by auto
  then show ?thesis using x by (intro exI [of _ "mwEvict M g (fst s)"]) simp
qed

lemma onFetched_fresh:
  assumes "\<And>raw w v. fst (mwRetrieve M g v w) = Inr (Some raw) \<Longrightarrow> once (Q raw) (k raw)"
  shows "onFetched Q (opThen (freshGroup (logMeow M) L g) k)"
proof (unfold onFetched_def, intro allI)
  fix s
  obtain r s' where f: "freshGroup (logMeow M) L g s = (r, s')" by (cases "freshGroup (logMeow M) L g s")
  show "\<exists>es. snd (snd (opThen (freshGroup (logMeow M) L g) k s)) = snd s @ es \<and> fetchedChange Q es"
  proof (cases r)
    case (Inl e)
    obtain es where "snd s' = snd s @ es" "unsubmitted es"
      using onceD [OF once_fresh [of "\<lambda>_. False"] f] by auto
    then show ?thesis using f Inl by (simp add: opThen_def fetchedChange_def)
  next
    case (Inr raw)
    then obtain w where "fst (mwRetrieve M g 0 w) = Inr (Some raw)" "snd s' = snd s @ [FetchedGroup raw]"
      using freshGroup_Inr f by blast
    moreover obtain y s'' where k: "k raw s' = (y, s'')" by (cases "k raw s'")
    ultimately obtain es where es: "snd s'' = snd s @ FetchedGroup raw # es" "oneChange (Q raw) es"
      using onceD [OF assms k] by fastforce
    have "fetchedChange Q (FetchedGroup raw # es)"
      using es(2) unfolding oneChange_def fetchedChange_def
      by (elim disjE exE conjE) (auto, metis append_Nil unsubmitted_simps(1))
    then show ?thesis using es(1) f Inr k by (auto simp: opThen_def)
  qed
qed

lemma onFetched_then:
  assumes "silent m" "\<And>x. onFetched Q (k x)" shows "onFetched Q (opThen m k)"
proof (unfold onFetched_def, intro allI)
  fix s
  obtain r s' where m: "m s = (r, s')" by (cases "m s")
  obtain es where es: "snd s' = snd s @ es" "unsubmitted es" using onceD [OF assms(1) m] by auto
  show "\<exists>es. snd (snd (opThen m k s)) = snd s @ es \<and> fetchedChange Q es"
  proof (cases r)
    case (Inr x)
    obtain y s'' where k: "k x s' = (y, s'')" by (cases "k x s'")
    show ?thesis using onFetchedD [OF assms(2) k] es m k Inr
      by (auto simp: opThen_def intro: fetchedChange_append)
  qed (use es m in \<open>auto simp: opThen_def fetchedChange_def\<close>)
qed

lemma onFetched_defer: "(\<And>s. snd (f s) = snd s) \<Longrightarrow> onFetched Q m \<Longrightarrow> onFetched Q (opDefer f m)"
  unfolding onFetched_def opDefer_def by (simp split: prod.split) (metis snd_conv surj_pair)

lemma onFetched_onGroups: "onFetched Q m \<Longrightarrow> onFetched Q (onGroups (logMeow M) action m)"
  unfolding onGroups_def by (intro onFetched_then once_steps onFetched_defer) simp_all

lemma onFetched_partlyOf: "onFetched Q m \<Longrightarrow> onFetched Q (partlyOf m)"
  unfolding onFetched_def partlyOf_def by (simp split: prod.split sum.split) (metis snd_conv)

lemmas onFetched_intros = onFetched_partlyOf onFetched_onGroups onFetched_defer onFetched_then onFetched_fresh

section \<open>The operations\<close>

datatype group_op =
    OpRole "Recipient list" GroupRole | OpBan "Recipient list" bool | OpRemove "Recipient list" | OpSettings GroupUpdate

definition run_group_op :: "'w meow \<Rightarrow> meow_lib \<Rightarrow> own \<Rightarrow> string \<Rightarrow> group_op \<Rightarrow> 'w \<Rightarrow> partly \<times> 'w" where
  "run_group_op M L own ref op = (case op of
     OpRole ms role \<Rightarrow> SetGroupMemberRole M L own ref ms role
   | OpBan ms banned \<Rightarrow> SetGroupBanned M L own ref ms banned
   | OpRemove ms \<Rightarrow> RemoveGroupMembers M L own ref ms
   | OpSettings u \<Rightarrow> meowUpdateGroup M L own ref u)"

text \<open>What the rules promise of an operation on a group, at a time.\<close>

definition promised :: "meow_lib \<Rightarrow> own \<Rightarrow> group_op \<Rightarrow> time \<Rightarrow> RawGroup \<Rightarrow> Group res" where
  "promised L own op t raw = (let U = mlUUID L; g = convertGroup U raw (aciRecipient (ownID L own)) in
     case op of
       OpRole ms role \<Rightarrow> WithMemberRole U g (ownID L own) ms role
     | OpBan ms banned \<Rightarrow> WithBannedMembers U g (ownID L own) ms banned t
     | OpRemove ms \<Rightarrow> WithRemovedMembersAs U (ownGroup L own raw) (ownSelf L own) ms
     | OpSettings u \<Rightarrow> WithUpdate (mlImages L) g (ownID L own) u)"

text \<open>The submitted change does to the fetched group what the rules promise; the path of an uploaded
  avatar is the change's.\<close>

definition fulfils :: "meow_lib \<Rightarrow> own \<Rightarrow> group_op \<Rightarrow> RawGroup \<Rightarrow> GroupChange \<Rightarrow> bool" where
  "fulfils L own op raw c \<longleftrightarrow> rgRevision raw \<noteq> - 1 \<and> chRevision c = rgRevision raw + 1 \<and> chMasterKey c = rgMasterKey raw
     \<and> (\<exists>t next. promised L own op t raw = Inr next
       \<and> shown (ownGroup L own (serverApply c raw)) = shown
           (case op of OpSettings u \<Rightarrow> if uploads u then next\<lparr>gAvatarPath := the (chAvatar c)\<rparr> else next | _ \<Rightarrow> next))"

text \<open>The library as documented: UUIDs have 16 bytes, identities are ACIs or PNIs and members are listed
  once; and a clock set after 1970.\<close>

definition libraryOk :: "'w meow \<Rightarrow> bool" where
  "libraryOk M \<longleftrightarrow> (\<forall>g v w raw. fst (mwRetrieve M g v w) = Inr (Some raw) \<longrightarrow> rawOk raw)
     \<and> (\<forall>w. 0 < UnixMilli (fst (mwNow M w)) \<and> UnixMilli (fst (mwNow M w)) < 2 ^ 63)"

lemma given:
  "(\<And>x. r = Inr x \<Longrightarrow> onFetched Q (k x)) \<Longrightarrow> onFetched Q (opThen (opOf r) k)"
  "(\<And>x. r = Inr x \<Longrightarrow> once P (f x)) \<Longrightarrow> once P (opThen (opWrap ctx (opOf r)) f)"
  "once P h \<Longrightarrow> (\<And>y. z = Some y \<Longrightarrow> once P (g y)) \<Longrightarrow> once P (case z of None \<Rightarrow> h | Some y \<Rightarrow> g y)"
  by (cases r; cases z; auto simp: opThen_def opOf_def opWrap_def onFetched_def fetchedChange_def once_def oneChange_def)+

lemma given_pair: "(\<And>a b. q = (a, b) \<Longrightarrow> once P (pq a b)) \<Longrightarrow> once P (case q of (a, b) \<Rightarrow> pq a b)"
  by (cases q) simp

lemma given_get:
  assumes "silent m" "\<And>y s s'. m s = (y, s') \<Longrightarrow> once P (f y)"
  shows "once P (opThen (opGet m) f)"
proof -
  have "opThen (opGet m) f = (\<lambda>s. case m s of (x, s') \<Rightarrow> f x s')"
    by (rule ext) (simp add: opThen_def opGet_def split: prod.split)
  then show ?thesis using once_bind_value [OF assms] by simp
qed

lemma logMeow_now: "mwNow (logMeow M) s = (t, s') \<Longrightarrow> \<exists>w. mwNow M (fst s) = (t, w)"
  by (auto simp: logMeow_def onWorld_def split: prod.splits)

lemma fulfils_Role:
  assumes "uuid_laws (mlUUID L)" "rawOk raw" "rgRevision raw \<noteq> - 1" "NormalizeGroupRoleMembers (mlUUID L) ms role = Inr ms'"
    "memberRoleChange (mlUUID L) raw (ownID L own) ms' role = Inr (Some c)"
  shows "fulfils L own (OpRole ms role) raw (c\<lparr>chMasterKey := rgMasterKey raw, chRevision := rgRevision raw + 1\<rparr>)"
proof -
  have "NormalizeGroupRoleMembers (mlUUID L) ms' role = Inr ms'"
    using assms(4) normalizeGroupMembers_idem [OF assms(1)] by (auto simp: NormalizeGroupRoleMembers_def split: if_splits)
  then have "WithMemberRole (mlUUID L) g self ms' role = WithMemberRole (mlUUID L) g self ms role" for g self
    by (simp add: WithMemberRole_def assms(4))
  then show ?thesis
    using role_refines [OF assms(1,2,5), where k = "rgMasterKey raw" and r = "rgRevision raw + 1" and own = "ownSelf L own"] assms(3)
    by (auto simp: fulfils_def promised_def Let_def ownGroup_def)
qed

lemma libraryOk_fetched: "libraryOk M \<Longrightarrow> fst (mwRetrieve M g v w) = Inr (Some raw) \<Longrightarrow> rawOk raw"
  unfolding libraryOk_def by blast

lemma libraryOk_clock: "libraryOk M \<Longrightarrow> mwNow M w = (t, w') \<Longrightarrow> 0 < UnixMilli t \<and> UnixMilli t < 2 ^ 63"
  unfolding libraryOk_def by (metis fst_conv)

lemma once_changed:
  assumes "rgRevision raw \<noteq> - 1 \<Longrightarrow> Q (change\<lparr>chMasterKey := rgMasterKey raw, chRevision := rgRevision raw + 1\<rparr>)"
    "\<And>x. silent (k x)"
  shows "once Q (\<lambda>s. case changeGroupOnce (logMeow M) g raw change s of (x, s') \<Rightarrow> k x s')"
  by (intro once_bind_silent once_changeGroupOnce assms)

lemmas operation_intros = onFetched_partlyOf given given_pair given_get onFetched_onGroups onFetched_fresh onFetched_then onFetched_defer once_finish
  once_updateGroupAndFetchOnce once_updateGroupWithAvatarOnce once_changed once_intros

lemma onFetched_Role:
  assumes U: "uuid_laws (mlUUID L)" and M: "libraryOk M"
  shows "onFetched (fulfils L own (OpRole ms role)) (SetGroupMemberRole (logMeow M) L own ref ms role)"
  unfolding SetGroupMemberRole_def
  by (intro operation_intros) (auto intro: fulfils_Role [OF U libraryOk_fetched [OF M]])

lemma fulfils_Settings:
  assumes "rgRevision raw \<noteq> - 1" "settingsChange (mlUUID L) (mlImages L) raw (ownID L own) u = Inr (Some c)"
  shows "fulfils L own (OpSettings u) raw ((if uploads u then c\<lparr>chAvatar := Some path\<rparr> else c)
    \<lparr>chMasterKey := rgMasterKey raw, chRevision := rgRevision raw + 1\<rparr>)"
  using settings_refines [OF assms(2) refl, where k = "rgMasterKey raw" and r = "rgRevision raw + 1" and own = "ownSelf L own" and path = path] assms(1)
  by (auto simp: fulfils_def promised_def Let_def ownGroup_def)

lemma onFetched_Settings:
  "onFetched (fulfils L own (OpSettings u)) (meowUpdateGroup (logMeow M) L own ref u)"
  unfolding meowUpdateGroup_def
  by (intro operation_intros) ((rule fulfils_Settings; assumption) | simp)+

lemma fulfils_Remove:
  assumes "uuid_laws (mlUUID L)" "rawOk raw" "rgRevision raw \<noteq> - 1" "NormalizeGroupRemovalMembers (mlUUID L) ms = Inr ms'"
    "removeMembersChangeAs (mlUUID L) (ownGroup L own raw) (ownSelf L own) ms' = Inr (c, next)"
  shows "fulfils L own (OpRemove ms) raw (c\<lparr>chMasterKey := rgMasterKey raw, chRevision := rgRevision raw + 1\<rparr>)"
proof -
  have "removalTargets (mlUUID L) g self ms' = removalTargets (mlUUID L) g self ms" for g self
    using NormalizeGroupRemovalMembers_idem [OF assms(1,4)] by (simp add: removalTargets_def assms(4))
  then show ?thesis
    using remove_refines [OF assms(1,2) assms(5) [unfolded ownGroup_def], where k = "rgMasterKey raw" and r = "rgRevision raw + 1" and own = "ownSelf L own"] assms(3)
    by (auto simp: fulfils_def promised_def Let_def ownGroup_def WithRemovedMembersAs_def)
qed

lemma onFetched_Remove:
  assumes U: "uuid_laws (mlUUID L)" and M: "libraryOk M"
  shows "onFetched (fulfils L own (OpRemove ms)) (RemoveGroupMembers (logMeow M) L own ref ms)"
  unfolding RemoveGroupMembers_def
  by (intro operation_intros) (auto intro: fulfils_Remove [OF U libraryOk_fetched [OF M]])

lemma fulfils_Ban:
  assumes "uuid_laws (mlUUID L)" "rawOk raw" "rgRevision raw \<noteq> - 1" "NormalizeGroupBanMembers (mlUUID L) ms = Inr ms'"
    "0 < UnixMilli now" "UnixMilli now < 2 ^ 63"
    "bannedMembersChange (mlUUID L) raw (ownID L own) ms' banned (fromUnixMilli (UnixMilli now)) = Inr (Some c)"
  shows "fulfils L own (OpBan ms banned) raw (c\<lparr>chMasterKey := rgMasterKey raw, chRevision := rgRevision raw + 1\<rparr>)"
proof -
  let ?t = "fromUnixMilli (UnixMilli now)"
  have t: "UnixMilli ?t = UnixMilli now" using assms(5) by (simp add: fromUnixMilli_def UnixMilli_def)
  have "NormalizeGroupBanMembers (mlUUID L) ms' = Inr ms'"
    using assms(4) normalizeGroupMembers_idem [OF assms(1)] by (simp add: NormalizeGroupBanMembers_def)
  then have "WithBannedMembers (mlUUID L) g self ms' banned t = WithBannedMembers (mlUUID L) g self ms banned t" for g self t
    by (simp add: WithBannedMembers_def assms(4))
  then show ?thesis
    using ban_refines [OF assms(1,2) _ _ _ assms(7), where k = "rgMasterKey raw" and r = "rgRevision raw + 1" and own = "ownSelf L own"]
      assms(3,5,6) t
    by (auto simp: fulfils_def promised_def Let_def ownGroup_def)
qed

lemma onFetched_Ban:
  assumes U: "uuid_laws (mlUUID L)" and M: "libraryOk M"
  shows "onFetched (fulfils L own (OpBan ms banned)) (SetGroupBanned (logMeow M) L own ref ms banned)"
proof -
  have 1: "fulfils L own (OpBan ms banned) raw (c\<lparr>chMasterKey := rgMasterKey (banNotified raw c), chRevision := rgRevision (banNotified raw c) + 1\<rparr>)"
    if "NormalizeGroupBanMembers (mlUUID L) ms = Inr ms'" "fst (mwRetrieve M g v w) = Inr (Some raw)" "mwNow (logMeow M) s = (now, s')"
      "bannedMembersChange (mlUUID L) raw (ownID L own) ms' banned (fromUnixMilli (UnixMilli now)) = Inr (Some c)"
      "rgRevision (banNotified raw c) \<noteq> - 1"
    for ms' g v w raw now c and s :: "'a logged" and s'
    using fulfils_Ban [OF U libraryOk_fetched [OF M that(2)] _ that(1) _ _ that(4)] libraryOk_clock [OF M] logMeow_now [OF that(3)] that(5)
    by (auto simp: banNotified_def)
  show ?thesis unfolding SetGroupBanned_def by (intro operation_intros) ((rule 1; assumption) | simp)+
qed

lemma onFetched_run:
  assumes "uuid_laws (mlUUID L)" and "libraryOk M"
  shows "onFetched (fulfils L own op) (run_group_op (logMeow M) L own ref op)"
  unfolding run_group_op_def
  by (cases op) (simp_all add: onFetched_Role onFetched_Ban onFetched_Remove onFetched_Settings assms)

text \<open>C4: roles, bans, removals and settings refine the rules of groups.go: each operation submits at
  most one change to the server, whatever the library answers in between; the change is built from the
  group fetched in that very operation, with its key and the revision after its own; and applied by
  the server to that group it gives, as the client shows groups, what the rule promises for it.\<close>

theorem group_operations_refine:
  assumes "uuid_laws (mlUUID L)" and "libraryOk M"
    and "run_group_op (logMeow M) L own ref op (w, []) = (res, (w', es))"
  shows "unsubmitted es
    \<or> (\<exists>pre raw mid c post. es = pre @ FetchedGroup raw # mid @ Submitted c # post
        \<and> unsubmitted (pre @ mid @ post) \<and> fulfils L own op raw c)"
  using onFetchedD [OF onFetched_run [OF assms(1,2)] assms(3)] by (auto simp: fetchedChange_def)

text \<open>A server with one group, before and after the change was accepted; the second member becomes an
  administrator.\<close>

definition demoUUID :: "nat \<Rightarrow> uuid" where
  "demoUUID n = replicate 15 (CHR 0x01) @ [char_of n]"

definition demoKey :: string where
  "demoKey = StdEncode (replicate 32 (CHR 0x01))"

definition demoRaw :: "bool \<Rightarrow> RawGroup" where
  "demoRaw after = \<lparr>rgID = demoKey, rgMasterKey = demoKey, rgTitle = ''t'', rgDescription = [], rgAvatarPath = [],
     rgRevision = (if after then 8 else 7), rgTimer = 0, rgAnnouncementsOnly = False,
     rgMembers = [Some \<lparr>rwACI = demoUUID 6, rwRole = RoleAdministrator, rwJoined = 0\<rparr>,
       Some \<lparr>rwACI = demoUUID 2, rwRole = (if after then RoleAdministrator else RoleDefault), rwJoined = 0\<rparr>],
     rgPending = [], rgRequesting = [], rgBanned = [], rgAccess = None, rgLinkPassword = None\<rparr>"

definition demoServer :: "bool meow" where
  "demoServer = \<lparr>mwConnected = Pair True, mwBegin = Pair True, mwDone = (\<lambda>w. w), mwLost = Pair None, mwCtxErr = Pair None,
     mwNow = Pair 1000000000, mwRandom = Pair None, mwStoreDevice = Pair None, mwMasterKey = (\<lambda>_. Pair (Inr demoKey)),
     mwGroupIDs = Pair (Inr [demoKey]), mwPutGroup = (\<lambda>_. Pair None), mwGetGroup = (\<lambda>_. Pair (Inr None)),
     mwGetGroups = Pair (Inr []), mwEvict = (\<lambda>_ w. w), mwRetrieve = (\<lambda>_ _ w. (Inr (Some (demoRaw w)), w)),
     mwPatch = (\<lambda>c _. ((Inr \<lparr>gcrActions = [CHR 0x01], gcrMarshalled = Inr [CHR 0x01]\<rparr>, c), True)),
     mwNotify = (\<lambda>_ _ _. Pair None), mwUpdate = (\<lambda>_ _. Pair (Inl panic)), mwUploadAvatar = (\<lambda>_ _ _. Pair (Inl panic)),
     mwCredential = (\<lambda>_. Pair None), mwPrepareCreation = (\<lambda>_. Pair (Inl panic)), mwCreate = (\<lambda>_. Pair (Inl panic))\<rparr>"

definition demoLib :: meow_lib where
  "demoLib = \<lparr>mlUUID = plain_uuid, mlImages = demoImages, mlToLower = (\<lambda>s. s), mlDeriveID = Inr, mlLink = (\<lambda>_ _. None),
     mlErrText = (\<lambda>_. [])\<rparr>"

definition demoOwn :: own where
  "demoOwn = \<lparr>ownACI = demoUUID 6, ownPNI = uuid_Nil\<rparr>"

abbreviation promotion :: group_op where
  "promotion \<equiv> OpRole [aciRecipient (demoUser 2)] GroupRoleAdmin"

lemma promoted_key: "StdDecode demoKey = Some (replicate 32 (CHR 0x01))"
  unfolding demoKey_def by (rule std64.dec_enc) simp

lemma demo_user: "uuid_String plain_uuid (demoUUID n) = demoUser n" "acceptIdentity plain_uuid (demoUser n) = demoUUID n"
  "mustParse plain_uuid (demoUser n) = Inr (demoUUID n)"
proof -
  show u: "uuid_String plain_uuid (demoUUID n) = demoUser n" by (simp add: demoUser_def demoUUID_def)
  show "acceptIdentity plain_uuid (demoUser n) = demoUUID n" by (simp add: demoUser_identity demoUUID_def)
  show "mustParse plain_uuid (demoUser n) = Inr (demoUUID n)"
    using uuid_laws_parse [OF plain_uuid_laws, of "demoUUID n"] by (simp add: mustParse_def u demoUUID_def del: u) (simp add: u demoUUID_def [symmetric])
qed

lemma promoted_self: "ownID demoLib demoOwn = demoUser 6"
  by (simp add: ownID_def demoLib_def demoOwn_def demo_user)

lemma demo_ok: "libraryOk demoServer"
proof -
  have "char_of 6 \<noteq> (char_of (2::nat) :: char)" by (simp add: char_of_def)
  then show ?thesis
    by (auto simp: libraryOk_def demoServer_def rawOk_def demoRaw_def somes_def demoUUID_def UnixMilli_def)
qed

definition demoPromotion :: GroupChange where
  "demoPromotion = noChange\<lparr>chModifyRoles := [(demoUUID 2, RoleAdministrator)]\<rparr>"

lemma demo_group:
  "gMembers (convertGroup plain_uuid (demoRaw after) self)
     = [demoMember 6 GroupRoleAdmin, demoMember 2 (if after then GroupRoleAdmin else GroupRoleMember)]"
  "gRevision (convertGroup plain_uuid (demoRaw after) self) = (if after then 8 else 7)"
  by (simp_all add: convertGroup_def Let_def demoRaw_def somes_def convertMember_def demoMember_def convertRole_def demo_user split: prod.split)

lemma demo_normal: "NormalizeGroupRoleMembers plain_uuid [aciRecipient (demoUser 2)] GroupRoleAdmin = Inr [aciRecipient (demoUser 2)]"
proof -
  have "canonMember plain_uuid (aciRecipient (demoUser 2)) = aciRecipient (demoUser 2)"
    by (simp add: canonMember_def demo_user)
  then have "normalizeGroupMembers plain_uuid [aciRecipient (demoUser 2)] = Inr [aciRecipient (demoUser 2)]"
    by (simp add: normalizeGroupMembers_iff)
  then show ?thesis by (simp add: NormalizeGroupRoleMembers_def)
qed

lemma demo_raw: "rgMasterKey (demoRaw b) = demoKey" "rgID (demoRaw b) = demoKey" "rgRevision (demoRaw b) = (if b then 8 else 7)"
  by (simp_all add: demoRaw_def)

lemma demo_change:
  "memberRoleChange plain_uuid (demoRaw False) (demoUser 6) [aciRecipient (demoUser 2)] GroupRoleAdmin = Inr (Some demoPromotion)"
proof -
  let ?g = "convertGroup plain_uuid (demoRaw False) (aciRecipient (demoUser 6))"
  have m: "MembershipOf ?g (demoUser 6) = (MembershipMember, GroupRoleAdmin)" "MembershipOf ?g (demoUser 2) = (MembershipMember, GroupRoleMember)"
    unfolding MembershipOf_def demo_group by simp_all
  obtain n where n: "WithMemberRole plain_uuid ?g (demoUser 6) [aciRecipient (demoUser 2)] GroupRoleAdmin = Inr n" "gRevision n = 8"
  proof -
    have "isOk (WithMemberRole plain_uuid ?g (demoUser 6) [aciRecipient (demoUser 2)] GroupRoleAdmin)"
      unfolding WithMemberRole_spec [OF plain_uuid_laws, THEN conjunct1] demo_group
      by (simp add: m withRole_def)
    then obtain n where n: "WithMemberRole plain_uuid ?g (demoUser 6) [aciRecipient (demoUser 2)] GroupRoleAdmin = Inr n"
      by (auto simp: isOk_def split: sum.splits)
    have "gRevision n = 8"
      using n unfolding WithMemberRole_cases [OF plain_uuid_laws] roleAfter_def demo_group
      by (simp add: withRole_def demoMember_def memberACI_def)
    then show thesis using n that by blast
  qed
  then show ?thesis
    by (simp add: memberRoleChange_def Let_def demo_normal roleStep_def m demo_user demo_group demoPromotion_def noChange_def demo_raw)
qed

lemma demo_server:
  "mwConnected (logMeow demoServer) (b, es) = (True, (b, es))" "mwBegin (logMeow demoServer) (b, es) = (True, (b, es))"
  "mwDone (logMeow demoServer) (b, es) = (b, es)" "mwLost (logMeow demoServer) (b, es) = (None, (b, es))"
  "mwCtxErr (logMeow demoServer) (b, es) = (None, (b, es))" "mwNow (logMeow demoServer) (b, es) = (1000000000, (b, es))"
  "mwMasterKey (logMeow demoServer) g (b, es) = (Inr demoKey, (b, es))"
  "mwPutGroup (logMeow demoServer) r (b, es) = (None, (b, es))" "mwEvict (logMeow demoServer) g (b, es) = (b, es)"
  "mwRetrieve (logMeow demoServer) g v (b, es) = (Inr (Some (demoRaw b)), (b, es @ [FetchedGroup (demoRaw b)]))"
  "mwPatch (logMeow demoServer) c (b, es) = ((Inr \<lparr>gcrActions = [CHR 0x01], gcrMarshalled = Inr [CHR 0x01]\<rparr>, c), (True, es @ [Submitted c]))"
  "mwNotify (logMeow demoServer) x y c (b, es) = (None, (b, es))"
  by (simp_all add: logMeow_def demoServer_def onWorld_def)

lemma demo_lib: "mlUUID demoLib = plain_uuid"
  by (simp add: demoLib_def)

lemma demo_key_nonempty: "demoKey \<noteq> []"
  unfolding demoKey_def by (rule StdEncode_nonempty) simp

lemma demo_once: "updateGroupAndFetchOnce (logMeow demoServer) demoLib demoKey (demoRaw False) demoPromotion (False, es)
    = (Accepted (demoRaw True) 8,
       (True, es @ [Submitted (demoPromotion\<lparr>chMasterKey := demoKey, chRevision := 8\<rparr>), FetchedGroup (demoRaw True)]))"
  by (simp add: updateGroupAndFetchOnce_def changeGroupOnce_def fetchAccepted_def promoted_key demo_raw demo_server Let_def)

lemma demo_run:
  "\<exists>p w' es. run_group_op (logMeow demoServer) demoLib demoOwn demoKey promotion (False, [])
     = ((p, None), (w', FetchedGroup (demoRaw False) # Submitted (demoPromotion\<lparr>chMasterKey := demoKey, chRevision := 8\<rparr>) # es))"
  by (simp add: run_group_op_def SetGroupMemberRole_def partlyOf_def onGroups_def groupClient_def resolveGroupRef_def knownGroup_def
      freshGroup_def retrieve_def orLost_def finish_def keepGroup_def cacheGroup_def opThen_def opGet_def opDo_def opCheck_def opWrap_def
      opOf_def opRet_def opFail_def opDefer_def demo_server demo_once demo_lib demo_normal promoted_key demo_key_nonempty demo_change promoted_self) blast

theorem group_operations_refine_witness:
  "\<exists>res w' es. run_group_op (logMeow demoServer) demoLib demoOwn demoKey promotion (False, []) = (res, (w', es))
    \<and> (\<exists>pre raw mid c post. es = pre @ FetchedGroup raw # mid @ Submitted c # post
        \<and> unsubmitted (pre @ mid @ post) \<and> fulfils demoLib demoOwn promotion raw c)"
proof -
  obtain p w' es where run: "run_group_op (logMeow demoServer) demoLib demoOwn demoKey promotion (False, [])
      = ((p, None), (w', FetchedGroup (demoRaw False) # Submitted (demoPromotion\<lparr>chMasterKey := demoKey, chRevision := 8\<rparr>) # es))"
    using demo_run by blast
  moreover have "uuid_laws (mlUUID demoLib)" by (simp add: demoLib_def plain_uuid_laws)
  ultimately show ?thesis using group_operations_refine [OF _ demo_ok run] by auto
qed

end
