(* ===== verification/GroupInvite.thy ===== *)
theory GroupInvite
  imports GroupClient
begin

text \<open>
  Invite links (internal/signal/groupinvite) and the references of groups that accepting an invitation
  takes (groups\_accept.go). \<open>url.Parse\<close> and the protobuf wire reader are parameters; case folding is
  against ASCII words.
\<close>

section \<open>Text\<close>

text \<open>\<open>strings.Cut\<close> at a byte: what is before and after it, and whether it is there.\<close>

fun CutByte :: "char \<Rightarrow> string \<Rightarrow> string \<times> string \<times> bool" where
  "CutByte c [] = ([], [], False)"
| "CutByte c (x # xs) = (if x = c then ([], xs, True) else case CutByte c xs of (a, b, ok) \<Rightarrow> (x # a, b, ok))"

text \<open>\<open>Encoding.Strict\<close>: the unused trailing bits are zero, so that encoding gives the text back.\<close>

definition StrictDecode :: "string \<Rightarrow> bool \<Rightarrow> string \<Rightarrow> bytes option" where
  "StrictDecode al pad s = (case b64_decode al pad s of
     None \<Rightarrow> None
   | Some raw \<Rightarrow> if b64_encode al pad raw = filter (\<lambda>c. byte c \<noteq> 10 \<and> byte c \<noteq> 13) s then Some raw else None)"

section \<open>Invite links (groupinvite/parser.go)\<close>

record url =
  urlScheme :: string
  urlHost :: string
  urlUser :: bool
  urlRawQuery :: string
  urlForceQuery :: bool
  urlPath :: string
  urlRawPath :: string
  urlFragment :: string
  urlRawFragment :: string

text \<open>A tag gives its number, whether its type is bytes, and the rest; bytes give their value and the
  rest. None is a reading error.\<close>

record link_lib =
  llURL :: "string \<Rightarrow> url option"
  llTag :: "bytes \<Rightarrow> (nat \<times> bool \<times> bytes) option"
  llBytes :: "bytes \<Rightarrow> (bytes \<times> bytes) option"

record Invite =
  ivMasterKey :: bytes
  ivPassword :: bytes

definition inviteFragment :: "link_lib \<Rightarrow> string \<Rightarrow> string option" where
  "inviteFragment K input =
    (if list_ex IsSpace (runes input) then None
     else case llURL K input of
       None \<Rightarrow> None
     | Some u \<Rightarrow>
         if \<not> EqualFoldASCII (urlScheme u) ''https'' \<and> \<not> EqualFoldASCII (urlScheme u) ''sgnl'' then None
         else if \<not> EqualFoldASCII (urlHost u) ''signal.group'' \<or> urlUser u then None
         else if urlRawQuery u \<noteq> [] \<or> urlForceQuery u \<or> (urlPath u \<noteq> [] \<and> urlPath u \<noteq> ''/'') then None
         else if urlRawPath u \<noteq> [] \<or> urlFragment u = [] \<or> urlRawFragment u \<noteq> [] then None
         else Some (urlFragment u))"

text \<open>A field may be set once and there are two, so that three rounds always end the loop.\<close>

fun parse_contents_loop :: "nat \<Rightarrow> link_lib \<Rightarrow> bytes \<Rightarrow> bytes option \<times> bytes option \<Rightarrow> (bytes option \<times> bytes option) option" where
  "parse_contents_loop fuel K contents (key, password) =
    (if contents = [] then Some (key, password)
     else case fuel of 0 \<Rightarrow> None
     | Suc fuel' \<Rightarrow> (case llTag K contents of
         None \<Rightarrow> None
       | Some (number, isBytes, rest) \<Rightarrow>
           if \<not> isBytes \<or> number < 1 \<or> number > 2 then None
           else case llBytes K rest of
             None \<Rightarrow> None
           | Some (val, rest') \<Rightarrow>
               if (if number = 1 then key else password) \<noteq> None then None
               else parse_contents_loop fuel' K rest'
                 (if number = 1 then (Some val, password) else (key, Some val))))"

definition parseContents :: "link_lib \<Rightarrow> bytes \<Rightarrow> Invite option" where
  "parseContents K contents = (case parse_contents_loop 3 K contents (None, None) of
     None \<Rightarrow> None
   | Some (key, password) \<Rightarrow>
      (let k = (case key of None \<Rightarrow> [] | Some x \<Rightarrow> x); p = (case password of None \<Rightarrow> [] | Some x \<Rightarrow> x)
       in if length k \<noteq> 32 \<or> length p \<noteq> 16 then None else Some \<lparr>ivMasterKey = k, ivPassword = p\<rparr>))"

definition field :: "link_lib \<Rightarrow> bytes \<Rightarrow> nat \<Rightarrow> (bytes \<times> bytes) option" where
  "field K raw want = (case llTag K raw of
     None \<Rightarrow> None
   | Some (number, isBytes, rest) \<Rightarrow> if number \<noteq> want \<or> \<not> isBytes then None else llBytes K rest)"

definition parseInvite :: "link_lib \<Rightarrow> string \<Rightarrow> Invite option" where
  "parseInvite K input =
    (if length input > 4096 then None
     else case inviteFragment K (TrimSpace input) of
       None \<Rightarrow> None
     | Some fragment \<Rightarrow>
        (case (case StrictDecode b64_url False fragment of
            Some raw \<Rightarrow> Some raw | None \<Rightarrow> StrictDecode b64_url True fragment) of
          None \<Rightarrow> None
        | Some raw \<Rightarrow> (case field K raw 1 of
            None \<Rightarrow> None
          | Some (contents, rest) \<Rightarrow> if rest \<noteq> [] then None else parseContents K contents)))"

lemma parse_contents_fuel:
  "(if key = None then 1 else 0) + (if password = None then 1 else 0) < fuel \<Longrightarrow> fuel \<le> fuel' \<Longrightarrow>
   parse_contents_loop fuel' K contents (key, password) = parse_contents_loop fuel K contents (key, password)"
proof (induction fuel arbitrary: fuel' contents key password)
  case (Suc fuel)
  obtain n where n: "fuel' = Suc n" "fuel \<le> n" using Suc.prems(2) by (cases fuel') auto
  show ?case
  proof (cases "llTag K contents")
    case (Some t)
    obtain number isBytes rest where t: "t = (number, isBytes, rest)" by (cases t)
    show ?thesis
    proof (cases "\<not> isBytes \<or> number < 1 \<or> number > 2 \<or> llBytes K rest = None")
      case True then show ?thesis using Some t n by (auto split: option.split)
    next
      case False
      then obtain val rest' where b: "llBytes K rest = Some (val, rest')" and num: "number = 1 \<or> number = 2" "isBytes"
        by fastforce
      show ?thesis
        using Suc.IH [of "Some val" password n rest'] Suc.IH [of key "Some val" n rest'] Suc.prems n b num Some t
        by (auto split: if_splits)
    qed
  qed (use n in simp)
qed simp

text \<open>More rounds than three give nothing else.\<close>

lemma parseContents_fuel:
  "3 \<le> fuel \<Longrightarrow> parse_contents_loop fuel K contents (None, None) = parse_contents_loop 3 K contents (None, None)"
  by (rule parse_contents_fuel) simp_all

lemma parseInvite_lengths:
  "parseInvite K link = Some invite \<Longrightarrow> length (ivMasterKey invite) = 32 \<and> length (ivPassword invite) = 16"
  by (auto simp: parseInvite_def parseContents_def Let_def split: if_splits option.splits)

definition CheckGroupInviteLink :: "link_lib \<Rightarrow> string \<Rightarrow> err option" where
  "CheckGroupInviteLink K link =
    (case parseInvite K link of None \<Rightarrow> Some (Sentinel ErrInvalidGroupInviteLink) | Some _ \<Rightarrow> None)"

section \<open>References (groups\_accept.go)\<close>

definition groupAcceptReferenceLimit :: nat where
  "groupAcceptReferenceLimit = 4096"

definition acceptReferenceBytes :: "string \<Rightarrow> bytes option" where
  "acceptReferenceBytes val = find (\<lambda>raw. length raw = 32)
     (map the (filter (\<lambda>r. r \<noteq> None)
       [b64_decode b64_std True val, b64_decode b64_std False val, b64_decode b64_url True val, b64_decode b64_url False val]))"

definition acceptGroupID :: "string \<Rightarrow> bool" where
  "acceptGroupID val \<longleftrightarrow> acceptReferenceBytes val \<noteq> None"

text \<open>The host of \<open>//authority/...\<close>, without user and port.\<close>

definition forbiddenGroupAcceptURL :: "string \<Rightarrow> bool" where
  "forbiddenGroupAcceptURL ref = (case CutByte (CHR '':'') ref of (scheme, remainder, hasScheme) \<Rightarrow>
     if \<not> hasScheme then False
     else if EqualFoldASCII scheme ''sgnl'' then True
     else if \<not> EqualFoldASCII scheme ''https'' \<or> \<not> HasPrefix remainder ''//'' then False
     else (let authority = takeWhile (\<lambda>c. c \<notin> set ''/?#'') (TrimPrefix remainder ''//'');
               authority' = (case LastIndexByte authority (CHR 0x40) of None \<Rightarrow> authority | Some i \<Rightarrow> drop (Suc i) authority);
               host = fst (CutByte (CHR '':'') authority');
               trim = dropWhile (\<lambda>c. c \<in> set ''[]'')
           in EqualFoldASCII (rev (trim (rev (trim host)))) ''signal.group''))"

definition CheckGroupAcceptReference :: "string \<Rightarrow> err option" where
  "CheckGroupAcceptReference ref0 =
    (if length ref0 > groupAcceptReferenceLimit then Some (Sentinel ErrUnknownGroup)
     else let ref = TrimSpace ref0 in
       if ref = [] then Some (Sentinel ErrUnknownGroup)
       else if forbiddenGroupAcceptURL ref then Some (Sentinel ErrUnknownGroup)
       else if HasPrefix ref ''group:'' \<and> \<not> acceptGroupID (TrimPrefix ref ''group:'') then Some (Sentinel ErrUnknownGroup)
       else None)"

definition NormalizeGroupAcceptReference :: "string \<Rightarrow> string" where
  "NormalizeGroupAcceptReference ref0 = (let ref = TrimPrefix (TrimSpace ref0) ''group:'' in
     case acceptReferenceBytes ref of None \<Rightarrow> ref | Some raw \<Rightarrow> StdEncode raw)"

section \<open>A shown link is read back\<close>

text \<open>The protobuf and URL libraries as documented: \<open>wire n v\<close> is the field \<open>n\<close> with the bytes \<open>v\<close>, which the
  reader gives back with what follows; a link is one field with the key and the password as its two
  fields; and the URL of the site with a base64 fragment parses into its parts.\<close>

definition link_prefix :: string where
  "link_prefix = ''https://signal.group/#''"

definition link_laws :: "link_lib \<Rightarrow> (nat \<Rightarrow> bytes \<Rightarrow> bytes) \<Rightarrow> (bytes \<Rightarrow> bytes \<Rightarrow> bytes option) \<Rightarrow> bool" where
  "link_laws K wire enc \<longleftrightarrow>
     (\<forall>f. f \<noteq> [] \<and> set f \<subseteq> set b64_url \<longrightarrow> llURL K (link_prefix @ f) =
        Some \<lparr>urlScheme = ''https'', urlHost = ''signal.group'', urlUser = False, urlRawQuery = [], urlForceQuery = False,
          urlPath = ''/'', urlRawPath = [], urlFragment = f, urlRawFragment = []\<rparr>)
   \<and> (\<forall>n v rest. (n = 1 \<or> n = 2) \<and> length v < 128 \<longrightarrow>
        (\<exists>r. llTag K (wire n v @ rest) = Some (n, True, r) \<and> llBytes K r = Some (v, rest)))
   \<and> (\<forall>n v. wire n v \<noteq> [] \<and> length (wire n v) \<le> length v + 20)
   \<and> (\<forall>key secret data. enc key secret = Some data \<longrightarrow> data = wire 1 (wire 1 key @ wire 2 secret))"

lemma b64_url_ascii: "c \<in> set b64_url \<Longrightarrow> byte c < 0x80 \<and> \<not> IsSpace (byte c)"
  by (auto simp: b64_url_def byte_def IsSpace_def)

lemma RawURLEncode_set: "set (RawURLEncode bs) \<subseteq> set b64_url"
proof -
  have n: "b64_url ! i \<in> set b64_url" if "i < 64" for i using that by simp
  have "c \<in> set (b64_encode b64_url False bs) \<Longrightarrow> c \<in> set b64_url" for c
    using n by (induction b64_url False bs rule: b64_encode.induct) (auto simp del: nth_mem)
  then show ?thesis by (auto simp: RawURLEncode_def)
qed

lemma length_b64_encode: "length (b64_encode al False bs) \<le> 2 * length bs"
  by (induction al False bs rule: b64_encode.induct) auto

lemma b64_encode_Nil_iff: "b64_encode al pad bs = [] \<longleftrightarrow> bs = []"
  by (cases "(al, pad, bs)" rule: b64_encode.cases) simp_all

lemma StrictDecode_RawURL: "StrictDecode b64_url False (RawURLEncode bs) = Some bs"
  using b64_encode_no_newline [OF b64_alphabets(2), of _ False bs]
  by (simp add: StrictDecode_def RawURLEncode_def b64_decode_encode b64_alphabets)

lemma prefix_ascii: "\<forall>c\<in>set link_prefix. byte c < 0x80 \<and> \<not> IsSpace (byte c)"
  by (simp add: link_prefix_def byte_def IsSpace_def)

lemma site_parts: "EqualFoldASCII ''https'' ''https''" "EqualFoldASCII ''signal.group'' ''signal.group''"
  by (simp_all add: EqualFoldASCII_def byte_def fold_ascii_def ascii_lower_def)

lemma parseInvite_link:
  assumes L: "link_laws K wire enc" and "enc key secret = Some data" "length key = 32" "length secret = 16"
  shows "parseInvite K (link_prefix @ RawURLEncode data) = Some \<lparr>ivMasterKey = key, ivPassword = secret\<rparr>"
proof -
  let ?inner = "wire 1 key @ wire 2 secret"
  let ?link = "link_prefix @ RawURLEncode data"
  note laws = L [unfolded link_laws_def]
  have data: "data = wire 1 ?inner" using laws assms(2) by blast
  have wire: "length (wire n v) \<le> length v + 20" "wire n v \<noteq> []" for n v using laws by blast+
  have read: "\<exists>r. llTag K (wire n v @ rest) = Some (n, True, r) \<and> llBytes K r = Some (v, rest)"
    if "n = 1 \<or> n = 2" "length v < 128" for n v rest using laws that by blast
  have inner: "length ?inner \<le> 88" using wire(1) [of 1 key] wire(1) [of 2 secret] assms(3,4) by simp
  have len: "length data \<le> 108" "data \<noteq> []" using inner wire [of 1 ?inner] by (simp_all add: data)
  have frag: "RawURLEncode data \<noteq> []" "set (RawURLEncode data) \<subseteq> set b64_url" "length (RawURLEncode data) \<le> 216"
    using len RawURLEncode_set [of data] length_b64_encode [of b64_url data]
    by (simp_all add: RawURLEncode_def b64_encode_Nil_iff)
  have ascii: "\<forall>c\<in>set ?link. byte c < 0x80 \<and> \<not> IsSpace (byte c)"
    using prefix_ascii frag(2) b64_url_ascii by auto
  have trim: "TrimSpace ?link = ?link"
    using ascii frag(1) by (intro TrimSpace_ascii) (simp_all add: link_prefix_def IsSpace_def byte_def)
  have "\<not> list_ex IsSpace (runes ?link)"
    using ascii by (auto simp: runes_all_ascii list_ex_iff)
  then have fragment: "inviteFragment K ?link = Some (RawURLEncode data)"
    using laws frag site_parts by (simp add: inviteFragment_def)
  have outer: "field K data 1 = Some (?inner, [])"
  proof -
    obtain r where "llTag K (wire 1 ?inner @ []) = Some (1, True, r)" "llBytes K r = Some (?inner, [])"
      using read [of 1 ?inner "[]"] inner by auto
    then show ?thesis by (simp add: field_def data)
  qed
  obtain r1 where r1: "llTag K ?inner = Some (1, True, r1)" "llBytes K r1 = Some (key, wire 2 secret)"
    using read [of 1 key "wire 2 secret"] assms(3) by auto
  obtain r2 where r2: "llTag K (wire 2 secret @ []) = Some (2, True, r2)" "llBytes K r2 = Some (secret, [])"
    using read [of 2 secret "[]"] assms(4) by auto
  have loop: "parse_contents_loop 3 K ?inner (None, None) = Some (Some key, Some secret)"
    using r1 r2 wire(2) by (simp add: numeral_3_eq_3)
  have contents: "parseContents K ?inner = Some \<lparr>ivMasterKey = key, ivPassword = secret\<rparr>"
    using assms(3,4) unfolding parseContents_def loop by simp
  have "length ?link \<le> 4096" using frag(3) by (simp add: link_prefix_def)
  then show ?thesis
    by (simp add: parseInvite_def trim fragment StrictDecode_RawURL outer [simplified] contents [simplified])
qed

text \<open>C40: Every active invite link that is shown is accepted by the parser of links to join, which reads
  back the group's master key and the link's password; and no link is shown for a disabled one.\<close>

theorem Group_Link_roundtrip:
  assumes "link_laws K wire enc" and "Group_Link enc g self state password = Inr link"
  shows "if state = GroupLinkEnabled \<or> state = GroupLinkApproval
    then CheckGroupInviteLink K (glURL link) = None
      \<and> (\<exists>invite. parseInvite K (glURL link) = Some invite
          \<and> StdDecode (gMasterKey g) = Some (ivMasterKey invite) \<and> StdDecode password = Some (ivPassword invite))
    else glURL link = []"
proof (cases "state = GroupLinkEnabled \<or> state = GroupLinkApproval")
  case True
  then obtain key secret data where l: "StdDecode (gMasterKey g) = Some key" "length key = 32"
      "StdDecode password = Some secret" "length secret = 16" "enc key secret = Some data"
      "glURL link = link_prefix @ RawURLEncode data"
    using assms(2)
    by (auto simp: Group_Link_def decodeGroupLinkSecret_def link_prefix_def Let_def split: option.splits if_splits sum.splits)
  then show ?thesis
    using True parseInvite_link [OF assms(1) l(5,2,4)] by (simp add: CheckGroupInviteLink_def)
next
  case False
  then show ?thesis using assms(2) by (auto simp: Group_Link_def Let_def split: option.splits if_splits)
qed

text \<open>An instance: tags and lengths of one byte, as protobuf has them for short fields.\<close>

definition plain_wire :: "nat \<Rightarrow> bytes \<Rightarrow> bytes" where
  "plain_wire n v = char_of (n * 8 + 2) # char_of (length v) # v"

definition plain_enc :: "bytes \<Rightarrow> bytes \<Rightarrow> bytes option" where
  "plain_enc key secret = Some (plain_wire 1 (plain_wire 1 key @ plain_wire 2 secret))"

definition plain_links :: link_lib where
  "plain_links = \<lparr>
     llURL = (\<lambda>s. if HasPrefix s link_prefix then Some \<lparr>urlScheme = ''https'', urlHost = ''signal.group'', urlUser = False,
        urlRawQuery = [], urlForceQuery = False, urlPath = ''/'', urlRawPath = [], urlFragment = drop (length link_prefix) s,
        urlRawFragment = []\<rparr> else None),
     llTag = (\<lambda>raw. case raw of [] \<Rightarrow> None | c # r \<Rightarrow> Some (byte c div 8, byte c mod 8 = 2, r)),
     llBytes = (\<lambda>raw. case raw of [] \<Rightarrow> None | c # r \<Rightarrow>
        if byte c < 128 \<and> byte c \<le> length r then Some (take (byte c) r, drop (byte c) r) else None)\<rparr>"

lemma plain_link_laws: "link_laws plain_links plain_wire plain_enc"
proof -
  have "byte (char_of (n * 8 + 2)) = n * 8 + 2" if "n = 1 \<or> n = 2" for n using that by (auto simp: byte_char_of)
  moreover have "byte (char_of (length v)) = length v" if "length v < 128" for v :: bytes using that by (simp add: byte_char_of)
  ultimately show ?thesis
    by (auto simp: link_laws_def plain_links_def plain_wire_def plain_enc_def HasPrefix_def)
qed

definition linkedGroup :: Group where
  "linkedGroup = demoGroup\<lparr>gMasterKey := StdEncode (replicate 32 (CHR 0x01))\<rparr>"

theorem Group_Link_roundtrip_witness:
  "\<exists>link. Group_Link plain_enc linkedGroup (demoUser 2) GroupLinkEnabled (StdEncode (replicate 16 (CHR 0x02))) = Inr link
     \<and> parseInvite plain_links (glURL link) = Some \<lparr>ivMasterKey = replicate 32 (CHR 0x01), ivPassword = replicate 16 (CHR 0x02)\<rparr>"
proof -
  have m: "MembershipOf linkedGroup (demoUser 2) = (MembershipMember, GroupRoleMember)"
    using demoGroup_self(2) by (simp add: linkedGroup_def MembershipOf_def)
  have chk: "checkGroupLink linkedGroup (demoUser 2) False = None" by (simp add: checkGroupLink_def m)
  have key: "gMasterKey linkedGroup = StdEncode (replicate 32 (CHR 0x01))" by (simp add: linkedGroup_def)
  have secret: "decodeGroupLinkSecret (StdEncode bs) (length bs) = Inr bs" for bs
    using std64.dec_enc [of bs] by (simp add: decodeGroupLinkSecret_def)
  have "isOk (Group_Link plain_enc linkedGroup (demoUser 2) GroupLinkEnabled (StdEncode (replicate 16 (CHR 0x02))))"
    using secret [of "replicate 32 (CHR 0x01)"] secret [of "replicate 16 (CHR 0x02)"]
    by (simp add: Group_Link_def chk key plain_enc_def Let_def isOk_def)
  then obtain link where link: "Group_Link plain_enc linkedGroup (demoUser 2) GroupLinkEnabled (StdEncode (replicate 16 (CHR 0x02))) = Inr link"
    by (auto simp: isOk_def split: sum.splits)
  then obtain invite where "parseInvite plain_links (glURL link) = Some invite"
      "StdDecode (gMasterKey linkedGroup) = Some (ivMasterKey invite)"
      "StdDecode (StdEncode (replicate 16 (CHR 0x02))) = Some (ivPassword invite)"
    using Group_Link_roundtrip [OF plain_link_laws link] by auto
  moreover have "StdDecode (gMasterKey linkedGroup) = Some (replicate 32 (CHR 0x01))"
    using std64.dec_enc [of "replicate 32 (CHR 0x01)"] by (simp add: key)
  moreover have "StdDecode (StdEncode (replicate 16 (CHR 0x02))) = Some (replicate 16 (CHR 0x02))"
    using std64.dec_enc by simp
  ultimately show ?thesis using link by (intro exI [of _ link]) (cases invite, simp)
qed

end
