(* ===== verification/GroupJoin.thy ===== *)
theory GroupJoin
  imports GroupInvite
begin

text \<open>
  Joining by an invite link, accepting an invitation and cancelling a request to join (internal/signal
  groups\_{join,accept,cancel\_request}.go and their meow\_ counterparts). Each is a sequence of calls of
  the library, guarded by checks for cancellation, that carries a partial result: what is known when a
  call fails is returned beside the error. The calls are the record \<open>invite_lib\<close> beside the client's
  \<open>meow\<close>; what the library notes of a change (its context and the signed change) is opaque.
\<close>

section \<open>Results and errors\<close>

datatype GroupJoinStatus = GroupJoinNone | GroupJoinMember | GroupJoinRequesting

record GroupJoinResult =
  gjID :: string
  gjTitle :: string
  gjRevision :: u32
  gjStatus :: GroupJoinStatus
  gjChanged :: bool
  gjAccepted :: bool
  gjVerified :: bool

record GroupAcceptResult =
  gaID :: string
  gaTitle :: string
  gaRevision :: u32
  gaChanged :: bool
  gaAccepted :: bool
  gaVerified :: bool

type_synonym GroupCancelRequestResult = GroupAcceptResult

definition noJoin :: GroupJoinResult where
  "noJoin = \<lparr>gjID = [], gjTitle = [], gjRevision = 0, gjStatus = GroupJoinNone, gjChanged = False, gjAccepted = False,
     gjVerified = False\<rparr>"

definition noAccept :: GroupAcceptResult where
  "noAccept = \<lparr>gaID = [], gaTitle = [], gaRevision = 0, gaChanged = False, gaAccepted = False, gaVerified = False\<rparr>"

text \<open>The errors of these operations show only their own message; their cause stays visible to
  \<open>errors.Is\<close>.\<close>

definition inspectHint :: string where
  "inspectHint = ''; inspect groups show or ask your phone or an administrator before retrying''"

definition GroupJoinOperationError :: "err \<Rightarrow> GroupJoinResult \<Rightarrow> err" where
  "GroupJoinOperationError e result =
    (let inspect = ''; inspect groups show or ask an administrator or your phone before retrying ''
           @ ''(show may be unavailable until approval)'';
         message = (if gjAccepted result
             then ''join accepted; group '' @ gjID result @ '' revision '' @ FormatNat (unat (gjRevision result)) @ ''; follow-up failed'' @ inspect
           else if errors_Is e ErrGroupUpdateUncertain
             then ''join of group '' @ gjID result @ '' is uncertain at attempted revision '' @ FormatNat (unat (gjRevision result)) @ inspect
           else if errors_Is e ErrGroupInvitationRequiresAcceptance then ''existing group invitation requires acceptance''
           else if errors_Is e ErrGroupTerminated then ''group is terminated''
           else if errors_Is e ErrGroupLinkInactive then ''group invite link is unavailable, disabled, reset or banned''
           else if errors_Is e ErrGroupChanged then ''group changed before joining; inspect before retrying''
           else if errors_Is e ErrInvalidGroupInviteLink then ''invalid group invite link''
           else ''group join failed'')
     in Wrap message [e])"

definition acceptIdentityText :: "GroupAcceptResult \<Rightarrow> string" where
  "acceptIdentityText result = (if acceptGroupID (gaID result)
     then ''; group '' @ gaID result @ '' revision '' @ FormatNat (unat (gaRevision result)) else [])"

definition GroupAcceptOperationError :: "err \<Rightarrow> GroupAcceptResult \<Rightarrow> err" where
  "GroupAcceptOperationError e result =
    (let identity = acceptIdentityText result;
         message = (if gaAccepted result then ''invitation accepted'' @ identity @ ''; follow-up failed'' @ inspectHint
           else if errors_Is e ErrGroupUpdateUncertain
             then (if identity = [] then ''group invitation acceptance is uncertain''
               else ''acceptance of group '' @ gaID result @ '' is uncertain at attempted revision '' @ FormatNat (unat (gaRevision result)))
               @ inspectHint
           else if errors_Is e ErrGroupInvitationNotFound then ''no group invitation for this account''
           else if errors_Is e ErrGroupTerminated then ''group is terminated''
           else if errors_Is e ErrGroupChanged then ''group changed before accepting; inspect groups show before retrying''
           else if errors_Is e ErrUnknownGroup then ''group is not known to this account''
           else ''group invitation acceptance failed'')
     in Wrap message [e])"

definition GroupCancelRequestOperationError :: "err \<Rightarrow> GroupCancelRequestResult \<Rightarrow> err" where
  "GroupCancelRequestOperationError e result =
    (let identity = acceptIdentityText result;
         message = (if gaAccepted result then ''join request cancellation accepted'' @ identity @ ''; operation failed'' @ inspectHint
           else if errors_Is e ErrGroupUpdateUncertain then ''group join request cancellation is uncertain'' @ identity @ inspectHint
           else if errors_Is e ErrGroupTerminated then ''group is terminated''
           else if errors_Is e ErrGroupChanged
             then ''group changed before cancelling the join request; inspect groups show before retrying''
           else if errors_Is e ErrUnknownGroup then ''group is not known to this account''
           else ''group join request cancellation failed'')
     in Wrap message [e])"

definition anyError :: "err \<Rightarrow> string list \<Rightarrow> bool" where
  "anyError e names = list_ex (\<lambda>n. errors_Is e (Library n)) names"

definition groupJoinForkError :: "err \<Rightarrow> err" where
  "groupJoinForkError e =
    (if anyError e [''ErrGroupJoinUncertain''] then Wrap [] [Sentinel ErrGroupUpdateUncertain, e]
     else if anyError e [''ConflictError'', ''ContactManifestMismatchError''] then Wrap [] [Sentinel ErrGroupChanged, e]
     else if anyError e [''ErrGroupJoinTerminated''] then Wrap [] [Sentinel ErrGroupTerminated, e]
     else if anyError e [''ErrGroupJoinInactive'', ''AuthorizationFailedError'', ''NotFoundError'']
     then Wrap [] [Sentinel ErrGroupLinkInactive, e]
     else e)"

definition groupAcceptForkError :: "err \<Rightarrow> err" where
  "groupAcceptForkError e =
    (if anyError e [''ErrGroupAcceptanceUncertain''] then Wrap [] [Sentinel ErrGroupUpdateUncertain, e]
     else if anyError e [''ErrGroupAcceptanceInvalid''] then Wrap [] [Sentinel ErrInvalidGroupChangeResponse, e]
     else if anyError e [''ErrGroupAcceptanceTerminated''] then Wrap [] [Sentinel ErrGroupTerminated, e]
     else if anyError e [''ConflictError'', ''ContactManifestMismatchError''] then Wrap [] [Sentinel ErrGroupChanged, e]
     else if anyError e [''AuthorizationFailedError''] then Wrap [] [Sentinel ErrNotAMember, e]
     else if anyError e [''NotFoundError'', ''ErrGroupMasterKeyNotFound''] then Wrap [] [Sentinel ErrUnknownGroup, e]
     else e)"

definition groupCancelRequestForkError :: "err \<Rightarrow> err" where
  "groupCancelRequestForkError e =
    (if anyError e [''ErrGroupCancellationUncertain''] then Wrap [] [Sentinel ErrGroupUpdateUncertain, e]
     else if anyError e [''ErrGroupCancellationInvalid''] then Wrap [] [Sentinel ErrInvalidGroupChangeResponse, e]
     else if anyError e [''ErrGroupCancellationTerminated''] then Wrap [] [Sentinel ErrGroupTerminated, e]
     else groupAcceptForkError e)"

section \<open>The calls\<close>

record GroupJoinPreview =
  jpTitle :: string
  jpRevision :: u32
  jpAccess :: AccessControl
  jpPendingAdminApproval :: bool

text \<open>What the library says of a change that it asked for; \<open>icRequesting\<close> is only told of a join.\<close>

record InviteOutcome =
  icAttempted :: bool
  icAccepted :: bool
  icVerified :: bool
  icRequesting :: bool
  icRevision :: u32
  icContext :: "GroupContext option"
  icChange :: "GroupChange option"

text \<open>A notification is nil, or the errors (maybe nil) of the recipients it failed for.\<close>

type_synonym notification = "err option list option"

record 'w invite_lib =
  ilClosing :: "'w \<Rightarrow> bool \<times> 'w"
  ilPersist :: "string \<Rightarrow> string \<Rightarrow> 'w \<Rightarrow> err option \<times> 'w"
  ilPreview :: "string \<Rightarrow> bytes \<Rightarrow> 'w \<Rightarrow> GroupJoinPreview res \<times> 'w"
  ilJoin :: "string \<Rightarrow> bytes \<Rightarrow> GroupJoinPreview \<Rightarrow> 'w \<Rightarrow> (InviteOutcome \<times> err option) \<times> 'w"
  ilNotify :: "RawGroup \<Rightarrow> GroupContext \<Rightarrow> GroupChange \<Rightarrow> 'w \<Rightarrow> notification res \<times> 'w"
  ilFetch :: "string \<Rightarrow> 'w \<Rightarrow> RawGroup option res \<times> 'w"
  ilAccept :: "string \<Rightarrow> u32 \<Rightarrow> ServiceID \<Rightarrow> 'w \<Rightarrow> (InviteOutcome \<times> err option) \<times> 'w"
  ilPreviewRequest :: "string \<Rightarrow> 'w \<Rightarrow> GroupJoinPreview res \<times> 'w"
  ilCancel :: "string \<Rightarrow> u32 \<Rightarrow> 'w \<Rightarrow> (InviteOutcome \<times> err option) \<times> 'w"

text \<open>An operation with a partial result; \<open>try\<close> goes on with the value of a call or ends with its error
  and the result so far.\<close>

type_synonym ('w, 'r) staged = "'w \<Rightarrow> ('r \<times> err option) \<times> 'w"

definition ending :: "'r \<Rightarrow> err option \<Rightarrow> ('w, 'r) staged" where
  "ending r e = (\<lambda>w. ((r, e), w))"

definition trying :: "'r \<Rightarrow> ('w, 'a) op \<Rightarrow> ('a \<Rightarrow> ('w, 'r) staged) \<Rightarrow> ('w, 'r) staged" where
  "trying r m k = (\<lambda>w. case m w of (Inl e, w') \<Rightarrow> ((r, Some e), w') | (Inr x, w') \<Rightarrow> k x w')"

text \<open>What the deferred function makes of an error.\<close>

definition redacted :: "(err \<Rightarrow> 'r \<Rightarrow> err) \<Rightarrow> ('w, 'r) staged \<Rightarrow> ('w, 'r) staged" where
  "redacted f m = (\<lambda>w. case m w of ((r, e), w') \<Rightarrow> ((r, map_option (\<lambda>x. f x r) e), w'))"

definition deferring :: "('w \<Rightarrow> 'w) \<Rightarrow> ('w, 'r) staged \<Rightarrow> ('w, 'r) staged" where
  "deferring f m = (\<lambda>w. case m w of (x, w') \<Rightarrow> (x, f w'))"

text \<open>The client around such an operation: \<open>groupClient\<close>, and a lost connection joined to an error.\<close>

definition staged_client ::
  "'w meow \<Rightarrow> 'w invite_lib \<Rightarrow> string \<Rightarrow> (err \<Rightarrow> 'r \<Rightarrow> err) \<Rightarrow> 'r \<Rightarrow> ('w, 'r) staged \<Rightarrow> ('w, 'r) staged" where
  "staged_client M J action f r0 m = (\<lambda>w. case ilClosing J w of
     (True, w1) \<Rightarrow> ((r0, Some (f (Sentinel ErrClosed) r0)), w1)
   | (False, w1) \<Rightarrow> (case groupClient M action w1 of
       (Inl e, w2) \<Rightarrow> ((r0, Some (f e r0)), w2)
     | (Inr _, w2) \<Rightarrow> deferring (mwDone M) (\<lambda>w. case m w of
         ((r, None), w3) \<Rightarrow> ((r, None), w3)
       | ((r, Some e), w3) \<Rightarrow> (case lostOr M e w3 of (e', w4) \<Rightarrow> ((r, Some (f e' r)), w4))) w2))"

definition invalidResponse :: err where
  "invalidResponse = Sentinel ErrInvalidGroupChangeResponse"

definition groupJoinNotificationError :: "notification \<Rightarrow> err option" where
  "groupJoinNotificationError n = (case n of
     None \<Rightarrow> Some invalidResponse
   | Some failed \<Rightarrow> errors_Join (map (\<lambda>e. case e of None \<Rightarrow> invalidResponse | Some x \<Rightarrow> x) failed))"

section \<open>Joining (meow\_groups\_join.go)\<close>

definition joinContextError :: "'w meow \<Rightarrow> ('w, unit) op" where
  "joinContextError M = opWrap ''group join'' (opCheck (mwCtxErr M))"

definition joinCache :: "'w meow \<Rightarrow> Group \<Rightarrow> ('w, unit) op" where
  "joinCache M g = opThen (opGet (mwNow M)) (\<lambda>now. opCheck (mwPutGroup M
     \<lparr>grID = gID g, grTitle = gTitle g, grRevision = gRevision g, grLeftAt = gLeftAt g, grUpdatedAt = now\<rparr>))"

definition joinFetch :: "'w meow \<Rightarrow> meow_lib \<Rightarrow> string \<Rightarrow> u32 \<Rightarrow> ('w, RawGroup option) op" where
  "joinFetch M L gid revision = (\<lambda>w. case mwRetrieve M gid revision w of
     (Inl e, w') \<Rightarrow> (Inl (groupFetchError L e), w') | (Inr raw, w') \<Rightarrow> (Inr raw, w'))"

definition knownGroupJoin :: "'w meow \<Rightarrow> meow_lib \<Rightarrow> own \<Rightarrow> string \<Rightarrow> ('w, GroupJoinResult) staged" where
  "knownGroupJoin M L own gid = trying noJoin (knownGroup M gid) (\<lambda>known.
     if \<not> known then ending noJoin None
     else (\<lambda>w. case joinFetch M L gid 0 w of
       (Inl e, w1) \<Rightarrow> ((noJoin, if errors_Is e ErrNotAMember \<or> errors_Is e ErrUnknownGroup then None else Some e), w1)
     | (Inr None, w1) \<Rightarrow> ((noJoin, Some invalidResponse), w1)
     | (Inr (Some raw), w1) \<Rightarrow>
         if rgID raw \<noteq> gid then ((noJoin, Some invalidResponse), w1)
         else let g = ownGroup L own raw in
           if gMembership g = MembershipPending then ((noJoin, Some (Sentinel ErrGroupInvitationRequiresAcceptance)), w1)
           else if gMembership g \<noteq> MembershipMember then ((noJoin, None), w1)
           else trying noJoin (joinContextError M) (\<lambda>_. (\<lambda>result. trying result (joinCache M g) (\<lambda>_. ending result None))
             (noJoin\<lparr>gjID := gID g, gjTitle := gTitle g, gjRevision := gRevision g, gjStatus := GroupJoinMember, gjVerified := True\<rparr>)) w1))"

definition verifyDirectGroupJoin ::
  "'w meow \<Rightarrow> 'w invite_lib \<Rightarrow> meow_lib \<Rightarrow> own \<Rightarrow> string \<Rightarrow> InviteOutcome \<Rightarrow> GroupContext \<Rightarrow> GroupChange
   \<Rightarrow> GroupJoinResult \<Rightarrow> ('w, GroupJoinResult) staged" where
  "verifyDirectGroupJoin M J L own gid outcome context change result =
     trying result (joinContextError M) (\<lambda>_.
     trying result (opThen (opDo (mwEvict M gid)) (\<lambda>_. joinFetch M L gid (icRevision outcome))) (\<lambda>fetched. case fetched of
       None \<Rightarrow> ending result (Some invalidResponse)
     | Some raw \<Rightarrow>
         if rgID raw \<noteq> gid \<or> rgRevision raw < icRevision outcome then ending result (Some invalidResponse)
         else let g = ownGroup L own raw in
           if gMembership g \<noteq> MembershipMember then ending result (Some (Sentinel ErrNotAMember))
           else trying result (joinContextError M) (\<lambda>_.
             (\<lambda>verified.
               trying verified (joinCache M g) (\<lambda>_.
               trying verified (joinContextError M) (\<lambda>_.
               trying verified (ilNotify J raw context change) (\<lambda>notification.
               ending verified (groupJoinNotificationError notification)))))
             (result\<lparr>gjTitle := gTitle g, gjStatus := GroupJoinMember, gjVerified := True, gjRevision := gRevision g\<rparr>))))"

definition completeGroupJoin ::
  "'w meow \<Rightarrow> 'w invite_lib \<Rightarrow> meow_lib \<Rightarrow> own \<Rightarrow> string \<Rightarrow> GroupJoinPreview \<Rightarrow> InviteOutcome
   \<Rightarrow> GroupJoinResult \<Rightarrow> ('w, GroupJoinResult) staged" where
  "completeGroupJoin M J L own gid preview outcome result =
    (if \<not> icAccepted outcome \<or> \<not> icVerified outcome then ending result (Some invalidResponse)
     else case (icContext outcome, icChange outcome) of
       (Some context, Some change) \<Rightarrow>
         if icRequesting outcome
         then (if jpAccess preview \<noteq> AccessAdministrator then ending result (Some invalidResponse)
               else ending (result\<lparr>gjTitle := jpTitle preview, gjStatus := GroupJoinRequesting, gjVerified := True\<rparr>) None)
         else if jpAccess preview \<noteq> AccessAny then ending result (Some invalidResponse)
         else verifyDirectGroupJoin M J L own gid outcome context change result
     | _ \<Rightarrow> ending result (Some invalidResponse))"

definition afterOutcome :: "InviteOutcome \<Rightarrow> GroupJoinResult \<Rightarrow> GroupJoinResult" where
  "afterOutcome outcome result = (if icAttempted outcome \<or> icAccepted outcome then result\<lparr>gjRevision := icRevision outcome\<rparr> else result)
     \<lparr>gjAccepted := icAccepted outcome, gjChanged := icAccepted outcome\<rparr>"

definition submitGroupJoin ::
  "'w meow \<Rightarrow> 'w invite_lib \<Rightarrow> meow_lib \<Rightarrow> own \<Rightarrow> string \<Rightarrow> string \<Rightarrow> bytes \<Rightarrow> GroupJoinResult \<Rightarrow> ('w, GroupJoinResult) staged" where
  "submitGroupJoin M J L own gid key password result0 =
     trying result0 (joinContextError M) (\<lambda>_ w. case ilPreview J key password w of
       (Inl e, w1) \<Rightarrow> ((result0, Some (groupJoinForkError e)), w1)
     | (Inr preview, w1) \<Rightarrow>
         (let result = result0\<lparr>gjRevision := jpRevision preview\<rparr> in
          if \<not> jpPendingAdminApproval preview \<and> jpAccess preview \<noteq> AccessAny \<and> jpAccess preview \<noteq> AccessAdministrator
          then ((result, Some (Sentinel ErrGroupLinkInactive)), w1)
          else if \<not> jpPendingAdminApproval preview \<and> jpRevision preview = - 1
          then ((result, Some (Sentinel ErrInvalidGroupInviteLink)), w1)
          else trying result (joinContextError M) (\<lambda>_.
            trying result (opCheck (ilPersist J gid key)) (\<lambda>_.
            if jpPendingAdminApproval preview
            then ending (result\<lparr>gjTitle := jpTitle preview, gjStatus := GroupJoinRequesting, gjVerified := True\<rparr>) None
            else trying result (joinContextError M) (\<lambda>_ w. case ilJoin J key password preview w of
                ((outcome, Some e), w2) \<Rightarrow> ((afterOutcome outcome result, Some (groupJoinForkError e)), w2)
              | ((outcome, None), w2) \<Rightarrow> completeGroupJoin M J L own gid preview outcome (afterOutcome outcome result) w2))) w1))"

definition joinGroupWithOperations ::
  "'w meow \<Rightarrow> 'w invite_lib \<Rightarrow> meow_lib \<Rightarrow> link_lib \<Rightarrow> own \<Rightarrow> string \<Rightarrow> ('w, GroupJoinResult) staged" where
  "joinGroupWithOperations M J L K own link = redacted GroupJoinOperationError (case parseInvite K link of
     None \<Rightarrow> ending noJoin (Some (Sentinel ErrInvalidGroupInviteLink))
   | Some invite \<Rightarrow>
       trying noJoin (joinContextError M) (\<lambda>_.
       trying noJoin (opOf (groupIDFromMasterKey L (ivMasterKey invite))) (\<lambda>gid w.
         (let result = noJoin\<lparr>gjID := gid\<rparr> in
          deferring (mwEvict M gid) (\<lambda>w. case knownGroupJoin M L own gid w of
              ((existing, e), w1) \<Rightarrow>
                if gjVerified existing then ((existing, e), w1)
                else (case e of Some x \<Rightarrow> ((result, Some x), w1)
                  | None \<Rightarrow> submitGroupJoin M J L own gid (StdEncode (ivMasterKey invite)) (ivPassword invite) result w1))
            (mwEvict M gid w)))))"

definition JoinGroup ::
  "'w meow \<Rightarrow> 'w invite_lib \<Rightarrow> meow_lib \<Rightarrow> link_lib \<Rightarrow> own \<Rightarrow> string \<Rightarrow> ('w, GroupJoinResult) staged" where
  "JoinGroup M J L K own link = (case CheckGroupInviteLink K link of
     Some e \<Rightarrow> ending noJoin (Some e)
   | None \<Rightarrow> staged_client M J ''join group'' GroupJoinOperationError noJoin (joinGroupWithOperations M J L K own link))"

section \<open>Accepting an invitation (meow\_groups\_accept.go)\<close>

definition groupAcceptContextError :: "'w meow \<Rightarrow> ('w, unit) op" where
  "groupAcceptContextError M = opWrap ''group acceptance'' (opCheck (mwCtxErr M))"

definition acceptValidServiceID :: "ServiceID \<Rightarrow> bool" where
  "acceptValidServiceID sid \<longleftrightarrow> sidUUID sid \<noteq> uuid_Nil \<and> (sidType sid = ServiceIDTypeACI \<or> sidType sid = ServiceIDTypePNI)"

definition whole :: "('a \<Rightarrow> bool) \<Rightarrow> 'a option list \<Rightarrow> bool" where
  "whole P = list_all (\<lambda>x. case x of None \<Rightarrow> False | Some y \<Rightarrow> P y)"

definition checkAcceptSnapshot :: "RawGroup option \<Rightarrow> string \<Rightarrow> string \<Rightarrow> RawGroup res" where
  "checkAcceptSnapshot fetched gid key = (case fetched of
     None \<Rightarrow> Inl invalidResponse
   | Some raw \<Rightarrow>
       if rgID raw = gid \<and> rgMasterKey raw = key
         \<and> whole (\<lambda>m. rwACI m \<noteq> uuid_Nil) (rgMembers raw) \<and> whole (\<lambda>p. acceptValidServiceID (rpService p)) (rgPending raw)
         \<and> whole (\<lambda>r. rrqACI r \<noteq> uuid_Nil) (rgRequesting raw) \<and> whole (\<lambda>b. acceptValidServiceID (rbService b)) (rgBanned raw)
       then Inr raw else Inl invalidResponse)"

definition resolveKnownKey :: "'w meow \<Rightarrow> meow_lib \<Rightarrow> string \<Rightarrow> string \<Rightarrow> ('w, string \<times> string) op" where
  "resolveKnownKey M L context ref = opThen (resolveGroupRef M L (NormalizeGroupAcceptReference ref)) (\<lambda>gid.
     opThen (opWrap context (mwMasterKey M gid)) (\<lambda>key. opRet (gid, key)))"

definition resolveAcceptanceKey :: "meow_lib \<Rightarrow> ('w, string \<times> string) op \<Rightarrow> ('w, string \<times> string) op" where
  "resolveAcceptanceKey L resolve = opThen resolve (\<lambda>(gid, key). case StdDecode key of
     None \<Rightarrow> opFail invalidResponse
   | Some master \<Rightarrow>
       if length master \<noteq> 32 then opFail invalidResponse
       else opThen (opOf (groupIDFromMasterKey L master)) (\<lambda>derived.
         if gid \<noteq> derived then opFail invalidResponse else opRet (gid, key)))"

text \<open>What is cached of a group never says that it was left.\<close>

definition acceptCache :: "'w meow \<Rightarrow> Group \<Rightarrow> ('w, unit) op" where
  "acceptCache M g = opThen (opGet (mwNow M)) (\<lambda>now. opCheck (mwPutGroup M
     \<lparr>grID = gID g, grTitle = gTitle g, grRevision = gRevision g, grLeftAt = time_zero, grUpdatedAt = now\<rparr>))"

definition acceptFetch :: "'w invite_lib \<Rightarrow> string \<Rightarrow> string \<Rightarrow> ('w, RawGroup) op" where
  "acceptFetch J gid key = (\<lambda>w. case ilFetch J key w of
     (Inl e, w') \<Rightarrow> (Inl (groupAcceptForkError e), w') | (Inr fetched, w') \<Rightarrow> (checkAcceptSnapshot fetched gid key, w'))"

definition completeGroupAcceptance ::
  "'w meow \<Rightarrow> 'w invite_lib \<Rightarrow> meow_lib \<Rightarrow> own \<Rightarrow> string \<Rightarrow> string \<Rightarrow> InviteOutcome \<Rightarrow> GroupContext \<Rightarrow> GroupChange
   \<Rightarrow> GroupAcceptResult \<Rightarrow> ('w, GroupAcceptResult) staged" where
  "completeGroupAcceptance M J L own gid key outcome context change result =
     trying result (groupAcceptContextError M) (\<lambda>_.
     trying result (opThen (opDo (mwEvict M gid)) (\<lambda>_. acceptFetch J gid key)) (\<lambda>raw.
     if rgRevision raw < icRevision outcome then ending result (Some invalidResponse)
     else let g = ownGroup L own raw in
       (case CheckAcceptInvitation (mlUUID L) g (ownSelf L own) of
          Inr (_, True) \<Rightarrow> (\<lambda>verified.
            trying verified (groupAcceptContextError M) (\<lambda>_.
            trying verified (acceptCache M g) (\<lambda>_.
            trying verified (groupAcceptContextError M) (\<lambda>_.
            trying verified (ilNotify J raw context change) (\<lambda>notification.
            ending verified (groupJoinNotificationError notification))))))
            (result\<lparr>gaTitle := gTitle g, gaRevision := gRevision g, gaVerified := True\<rparr>)
        | _ \<Rightarrow> ending result (Some (Sentinel ErrNotAMember)))))"

definition withOutcome :: "InviteOutcome \<Rightarrow> GroupAcceptResult \<Rightarrow> GroupAcceptResult" where
  "withOutcome outcome result = (if icAttempted outcome \<or> icAccepted outcome then result\<lparr>gaRevision := icRevision outcome\<rparr> else result)
     \<lparr>gaAccepted := icAccepted outcome, gaChanged := icAccepted outcome\<rparr>"

definition submitGroupAcceptance ::
  "'w meow \<Rightarrow> 'w invite_lib \<Rightarrow> meow_lib \<Rightarrow> own \<Rightarrow> string \<Rightarrow> string \<Rightarrow> Group \<Rightarrow> Recipient
   \<Rightarrow> GroupAcceptResult \<Rightarrow> ('w, GroupAcceptResult) staged" where
  "submitGroupAcceptance M J L own gid key g invited result0 = (\<lambda>w.
     case ilAccept J key (gRevision g) (acceptServiceID (mlUUID L) invited) w of
       ((outcome, Some e), w1) \<Rightarrow> ((withOutcome outcome result0, Some (groupAcceptForkError e)), w1)
     | ((outcome, None), w1) \<Rightarrow>
         if \<not> icAccepted outcome \<or> \<not> icVerified outcome \<or> icRevision outcome \<noteq> gRevision g + 1
         then ((withOutcome outcome result0, Some invalidResponse), w1)
         else case (icContext outcome, icChange outcome) of
           (Some context, Some change) \<Rightarrow>
             completeGroupAcceptance M J L own gid key outcome context change (withOutcome outcome result0) w1
         | _ \<Rightarrow> ((withOutcome outcome result0, Some invalidResponse), w1))"

definition acceptGroupWithOperations ::
  "'w meow \<Rightarrow> 'w invite_lib \<Rightarrow> meow_lib \<Rightarrow> own \<Rightarrow> string \<Rightarrow> ('w, GroupAcceptResult) staged" where
  "acceptGroupWithOperations M J L own ref = redacted GroupAcceptOperationError
     (trying noAccept (opCheck (\<lambda>w. (CheckGroupAcceptReference ref, w))) (\<lambda>_.
      trying noAccept (groupAcceptContextError M) (\<lambda>_.
      trying noAccept (resolveAcceptanceKey L (resolveKnownKey M L ''load invitation key'' ref)) (\<lambda>(gid, key) w.
        (let result = noAccept\<lparr>gaID := gid\<rparr> in
         deferring (mwEvict M gid)
           (trying result (groupAcceptContextError M) (\<lambda>_.
            trying result (acceptFetch J gid key) (\<lambda>raw.
              let g = ownGroup L own raw; result1 = result\<lparr>gaRevision := gRevision g\<rparr> in
              trying result1 (opOf (CheckAcceptInvitation (mlUUID L) g (ownSelf L own))) (\<lambda>(invited, noop).
              let result2 = (if noop then result1\<lparr>gaTitle := gTitle g, gaVerified := True\<rparr> else result1) in
              trying result2 (groupAcceptContextError M) (\<lambda>_.
                if noop then trying result2 (acceptCache M g) (\<lambda>_. ending result2 None)
                else submitGroupAcceptance M J L own gid key g invited result2)))))
           (mwEvict M gid w))))))"

definition AcceptGroupInvitation ::
  "'w meow \<Rightarrow> 'w invite_lib \<Rightarrow> meow_lib \<Rightarrow> own \<Rightarrow> string \<Rightarrow> ('w, GroupAcceptResult) staged" where
  "AcceptGroupInvitation M J L own ref = (\<lambda>w.
     case opThen (opCheck (\<lambda>w. (CheckGroupAcceptReference ref, w))) (\<lambda>_. groupAcceptContextError M) w of
       (Inl e, w1) \<Rightarrow> ((noAccept, Some (GroupAcceptOperationError e noAccept)), w1)
     | (Inr _, w1) \<Rightarrow> staged_client M J ''accept group invitation'' GroupAcceptOperationError noAccept
         (acceptGroupWithOperations M J L own ref) w1)"

section \<open>Cancelling a request to join (meow\_groups\_cancel\_request.go)\<close>

definition CheckGroupCancelRequestReference :: "string \<Rightarrow> err option" where
  "CheckGroupCancelRequestReference = CheckGroupAcceptReference"

definition groupCancelRequestBoundary :: "'w meow \<Rightarrow> ('w, unit) op" where
  "groupCancelRequestBoundary M = opThen (opWrap ''group request cancellation'' (opCheck (mwCtxErr M))) (\<lambda>_. opCheck (mwLost M))"

definition cancelGroupRequestWithOperations ::
  "'w meow \<Rightarrow> 'w invite_lib \<Rightarrow> meow_lib \<Rightarrow> string \<Rightarrow> ('w, GroupCancelRequestResult) staged" where
  "cancelGroupRequestWithOperations M J L ref = redacted GroupCancelRequestOperationError
     (trying noAccept (opCheck (\<lambda>w. (CheckGroupCancelRequestReference ref, w))) (\<lambda>_.
      trying noAccept (groupCancelRequestBoundary M) (\<lambda>_.
      trying noAccept (resolveAcceptanceKey L (resolveKnownKey M L ''load cancellation key'' ref)) (\<lambda>(gid, key) w.
        (let result = noAccept\<lparr>gaID := gid\<rparr> in
         deferring (mwEvict M gid)
           (trying result (groupCancelRequestBoundary M) (\<lambda>_ w. case ilPreviewRequest J key w of
              (Inl e, w1) \<Rightarrow> ((result, Some (groupCancelRequestForkError e)), w1)
            | (Inr preview, w1) \<Rightarrow>
               (let result1 = result\<lparr>gaTitle := jpTitle preview, gaRevision := jpRevision preview,
                      gaVerified := \<not> jpPendingAdminApproval preview\<rparr> in
                trying result1 (groupCancelRequestBoundary M) (\<lambda>_.
                  if gaVerified result1 then ending result1 None
                  else if jpRevision preview = - 1 then ending result1 (Some invalidResponse)
                  else (\<lambda>w. case ilCancel J key (jpRevision preview) w of
                    ((outcome, Some e), w2) \<Rightarrow> ((withOutcome outcome result1, Some (groupCancelRequestForkError e)), w2)
                  | ((outcome, None), w2) \<Rightarrow>
                      if \<not> icAttempted outcome \<or> \<not> icAccepted outcome \<or> \<not> icVerified outcome
                        \<or> icRevision outcome \<noteq> jpRevision preview + 1 \<or> icContext outcome = None \<or> icChange outcome = None
                      then ((withOutcome outcome result1, Some invalidResponse), w2)
                      else (\<lambda>verified. trying verified (groupCancelRequestBoundary M) (\<lambda>_. ending verified None))
                        ((withOutcome outcome result1)\<lparr>gaVerified := True\<rparr>) w2)) w1)))
           (mwEvict M gid w))))))"

definition CancelGroupJoinRequest ::
  "'w meow \<Rightarrow> 'w invite_lib \<Rightarrow> meow_lib \<Rightarrow> string \<Rightarrow> ('w, GroupCancelRequestResult) staged" where
  "CancelGroupJoinRequest M J L ref = (\<lambda>w.
     case opThen (opCheck (\<lambda>w. (CheckGroupCancelRequestReference ref, w))) (\<lambda>_. groupAcceptContextError M) w of
       (Inl e, w1) \<Rightarrow> ((noAccept, Some (GroupCancelRequestOperationError e noAccept)), w1)
     | (Inr _, w1) \<Rightarrow> staged_client M J ''cancel group join request'' GroupCancelRequestOperationError noAccept
         (cancelGroupRequestWithOperations M J L ref) w1)"

end
