(* ===== verification/GroupEvidence.thy ===== *)
theory GroupEvidence
  imports GroupJoin
begin

text \<open>
  What the results of joining, accepting and cancelling say is what the library answered in that very
  run: the operations run on a client that logs the groups fetched, the previews, the outcomes of the
  one change asked for, and what is put into the title cache.
\<close>

section \<open>A logging client\<close>

datatype invite_event = Fetched RawGroup | Previewed GroupJoinPreview | Asked InviteOutcome | Stored GroupRecord

type_synonym 'w noted = "'w \<times> invite_event list"

definition inWorld :: "('w \<Rightarrow> 'a \<times> 'w) \<Rightarrow> 'w noted \<Rightarrow> 'a \<times> 'w noted" where
  "inWorld f s = (case f (fst s) of (x, w) \<Rightarrow> (x, (w, snd s)))"

definition noteWorld :: "('a \<Rightarrow> invite_event list) \<Rightarrow> ('w \<Rightarrow> 'a \<times> 'w) \<Rightarrow> 'w noted \<Rightarrow> 'a \<times> 'w noted" where
  "noteWorld ev f s = (case f (fst s) of (x, w) \<Rightarrow> (x, (w, snd s @ ev x)))"

definition fetchedEvents :: "RawGroup option res \<Rightarrow> invite_event list" where
  "fetchedEvents x = (case x of Inr (Some raw) \<Rightarrow> [Fetched raw] | _ \<Rightarrow> [])"

definition previewEvents :: "GroupJoinPreview res \<Rightarrow> invite_event list" where
  "previewEvents x = (case x of Inr p \<Rightarrow> [Previewed p] | Inl _ \<Rightarrow> [])"

definition noteMeow :: "'w meow \<Rightarrow> 'w noted meow" where
  "noteMeow M = \<lparr>mwConnected = inWorld (mwConnected M), mwBegin = inWorld (mwBegin M), mwDone = (\<lambda>s. (mwDone M (fst s), snd s)),
     mwLost = inWorld (mwLost M), mwCtxErr = inWorld (mwCtxErr M), mwNow = inWorld (mwNow M), mwRandom = inWorld (mwRandom M),
     mwStoreDevice = inWorld (mwStoreDevice M), mwMasterKey = (\<lambda>g. inWorld (mwMasterKey M g)), mwGroupIDs = inWorld (mwGroupIDs M),
     mwPutGroup = (\<lambda>r. noteWorld (\<lambda>_. [Stored r]) (mwPutGroup M r)), mwGetGroup = (\<lambda>g. inWorld (mwGetGroup M g)),
     mwGetGroups = inWorld (mwGetGroups M), mwEvict = (\<lambda>g s. (mwEvict M g (fst s), snd s)),
     mwRetrieve = (\<lambda>g r. noteWorld fetchedEvents (mwRetrieve M g r)), mwPatch = (\<lambda>c. inWorld (mwPatch M c)),
     mwNotify = (\<lambda>g x c. inWorld (mwNotify M g x c)), mwUpdate = (\<lambda>c g. inWorld (mwUpdate M c g)),
     mwUploadAvatar = (\<lambda>d g k. inWorld (mwUploadAvatar M d g k)), mwCredential = (\<lambda>u. inWorld (mwCredential M u)),
     mwPrepareCreation = (\<lambda>g. inWorld (mwPrepareCreation M g)), mwCreate = (\<lambda>g. inWorld (mwCreate M g))\<rparr>"

definition noteInvites :: "'w invite_lib \<Rightarrow> 'w noted invite_lib" where
  "noteInvites J = \<lparr>ilClosing = inWorld (ilClosing J), ilPersist = (\<lambda>g k. inWorld (ilPersist J g k)),
     ilPreview = (\<lambda>k p. noteWorld previewEvents (ilPreview J k p)), ilJoin = (\<lambda>k p v. noteWorld (\<lambda>(out, _). [Asked out]) (ilJoin J k p v)),
     ilNotify = (\<lambda>g x c. inWorld (ilNotify J g x c)), ilFetch = (\<lambda>k. noteWorld fetchedEvents (ilFetch J k)),
     ilAccept = (\<lambda>k r sid. noteWorld (\<lambda>(out, _). [Asked out]) (ilAccept J k r sid)),
     ilPreviewRequest = (\<lambda>k. noteWorld previewEvents (ilPreviewRequest J k)),
     ilCancel = (\<lambda>k r. noteWorld (\<lambda>(out, _). [Asked out]) (ilCancel J k r))\<rparr>"

section \<open>The calculus\<close>

text \<open>\<open>leaves Q m\<close>: what a call answers and logs satisfies \<open>Q\<close>; \<open>ends P m\<close>: what an operation ends with (its
  result, whether it succeeded, and its log) satisfies \<open>P\<close>.\<close>

definition leaves :: "('a \<Rightarrow> invite_event list \<Rightarrow> bool) \<Rightarrow> ('w noted \<Rightarrow> 'a \<times> 'w noted) \<Rightarrow> bool" where
  "leaves Q m \<longleftrightarrow> (\<forall>s. \<exists>es. snd (snd (m s)) = snd s @ es \<and> Q (fst (m s)) es)"

abbreviation quiet_op :: "('w noted \<Rightarrow> 'a \<times> 'w noted) \<Rightarrow> bool" where
  "quiet_op \<equiv> leaves (\<lambda>_ es. es = [])"

definition ends :: "('r \<Rightarrow> bool \<Rightarrow> invite_event list \<Rightarrow> bool) \<Rightarrow> ('w noted, 'r) staged \<Rightarrow> bool" where
  "ends P m = leaves (\<lambda>(r, e). P r (e = None)) m"

lemma leavesD: "leaves Q m \<Longrightarrow> m s = (x, s') \<Longrightarrow> \<exists>es. snd s' = snd s @ es \<and> Q x es"
  unfolding leaves_def by (metis fst_conv snd_conv)

lemma leaves_mono: "leaves Q m \<Longrightarrow> (\<And>x es. Q x es \<Longrightarrow> Q' x es) \<Longrightarrow> leaves Q' m"
  unfolding leaves_def by blast

lemma leaves_ret: "Q x [] \<Longrightarrow> leaves Q (\<lambda>s. (x, s))"
  by (simp add: leaves_def)

lemma leaves_Pair [simp]: "leaves Q (Pair x) \<longleftrightarrow> Q x []"
  by (simp add: leaves_def)

lemma leaves_bind:
  assumes "leaves Q m" "\<And>x es. Q x es \<Longrightarrow> leaves (\<lambda>y es'. R y (es @ es')) (k x)"
  shows "leaves R (\<lambda>s. case m s of (x, s') \<Rightarrow> k x s')"
proof (unfold leaves_def, intro allI)
  fix s
  obtain x s' where m: "m s = (x, s')" by (cases "m s")
  obtain y s'' where k: "k x s' = (y, s'')" by (cases "k x s'")
  obtain es where es: "snd s' = snd s @ es" "Q x es" using leavesD [OF assms(1) m] by blast
  then obtain es' where "snd s'' = snd s' @ es'" "R y (es @ es')" using leavesD [OF assms(2) k] by blast
  then show "\<exists>es. snd (snd (case m s of (x, s') \<Rightarrow> k x s')) = snd s @ es \<and> R (fst (case m s of (x, s') \<Rightarrow> k x s')) es"
    using es by (auto simp: m k)
qed

lemma leaves_quiet_bind:
  "quiet_op m \<Longrightarrow> (\<And>x. leaves R (k x)) \<Longrightarrow> leaves R (\<lambda>s. case m s of (x, s') \<Rightarrow> k x s')"
  by (erule leaves_bind) simp

lemma leaves_after: "(\<And>s. snd (f s) = snd s) \<Longrightarrow> leaves Q m \<Longrightarrow> leaves Q (\<lambda>s. m (f s))"
  unfolding leaves_def by metis

lemma leaves_cases:
  "(\<And>e. x = Inl e \<Longrightarrow> leaves Q (f e)) \<Longrightarrow> (\<And>y. x = Inr y \<Longrightarrow> leaves Q (g y)) \<Longrightarrow>
    leaves Q (\<lambda>s. case x of Inl e \<Rightarrow> f e s | Inr y \<Rightarrow> g y s)"
  "leaves Q m \<Longrightarrow> leaves Q m' \<Longrightarrow> leaves Q (\<lambda>s. if b then m s else m' s)"
  "(z = None \<Longrightarrow> leaves Q m) \<Longrightarrow> (\<And>y. z = Some y \<Longrightarrow> leaves Q (k y)) \<Longrightarrow> leaves Q (\<lambda>s. case z of None \<Rightarrow> m s | Some y \<Rightarrow> k y s)"
  by ((cases x; simp), (cases b; simp), (cases z; simp))

section \<open>Quiet calls\<close>

lemma quiet_world [simp]: "quiet_op (inWorld f)"
  by (simp add: leaves_def inWorld_def split: prod.split)

lemma noted_world: "leaves (\<lambda>x es. es = ev x) (noteWorld ev f)"
  by (simp add: leaves_def noteWorld_def split: prod.split)

named_theorems quiets \<open>calls that log nothing\<close>

lemma quiet_fields [quiets]:
  "quiet_op (mwConnected (noteMeow M))" "quiet_op (mwBegin (noteMeow M))" "quiet_op (mwLost (noteMeow M))"
  "quiet_op (mwCtxErr (noteMeow M))" "quiet_op (mwNow (noteMeow M))" "quiet_op (mwMasterKey (noteMeow M) g)"
  "quiet_op (ilClosing (noteInvites J))" "quiet_op (ilPersist (noteInvites J) g k)" "quiet_op (ilNotify (noteInvites J) raw x c)"
  by (simp_all add: noteMeow_def noteInvites_def)

lemma note_states [simp]:
  "snd (mwDone (noteMeow M) s) = snd s" "snd (mwEvict (noteMeow M) g s) = snd s"
  by (simp_all add: noteMeow_def)

lemma quiet_ops [quiets]:
  "quiet_op (opRet x)" "quiet_op (opFail e)" "quiet_op (opOf r)"
  "quiet_op m \<Longrightarrow> quiet_op (opGet m)" "quiet_op n \<Longrightarrow> quiet_op (opWrap ctx n)" "quiet_op l \<Longrightarrow> quiet_op (opCheck l)"
  "(\<And>s. snd (f s) = snd s) \<Longrightarrow> quiet_op (opDo f)"
  by (simp_all add: leaves_def opRet_def opFail_def opOf_def opGet_def opWrap_def opCheck_def opDo_def split: prod.split sum.split option.split)
     (metis snd_conv)+

lemma opThen_case: "opThen m f = (\<lambda>s. case m s of (x, s') \<Rightarrow> (case x of Inl e \<Rightarrow> (\<lambda>s. (Inl e, s)) | Inr y \<Rightarrow> f y) s')"
  by (rule ext) (simp add: opThen_def split: sum.split prod.split)

lemma quiet_then [quiets]: "quiet_op m \<Longrightarrow> (\<And>x. quiet_op (f x)) \<Longrightarrow> quiet_op (opThen m f)"
  unfolding opThen_case by (rule leaves_quiet_bind) (auto intro: leaves_ret split: sum.split)

lemma leaves_then:
  "quiet_op m \<Longrightarrow> (\<And>e. Q (Inl e) []) \<Longrightarrow> (\<And>x. leaves Q (f x)) \<Longrightarrow> leaves Q (opThen m f)"
  unfolding opThen_case by (rule leaves_quiet_bind) (auto intro: leaves_ret split: sum.split)

lemma quiet_if [quiets]: "quiet_op m \<Longrightarrow> quiet_op m' \<Longrightarrow> quiet_op (if b then m else m')"
  by simp

lemma quiet_case [quiets]:
  "(\<And>e. quiet_op (f e)) \<Longrightarrow> (\<And>y. quiet_op (g y)) \<Longrightarrow> quiet_op (case x of Inl e \<Rightarrow> f e | Inr y \<Rightarrow> g y)"
  "quiet_op h \<Longrightarrow> (\<And>y. quiet_op (k y)) \<Longrightarrow> quiet_op (case z of None \<Rightarrow> h | Some y \<Rightarrow> k y)"
  "(\<And>a b. quiet_op (p a b)) \<Longrightarrow> quiet_op (case q of (a, b) \<Rightarrow> p a b)"
  by ((cases x; simp), (cases z; simp), (cases q; simp))

lemma quiet_steps [quiets]:
  "quiet_op (groupClient (noteMeow M) action)" "quiet_op (knownGroup (noteMeow M) gid)"
  "quiet_op (resolveGroupRef (noteMeow M) L ref)"
  "quiet_op (joinContextError (noteMeow M))" "quiet_op (groupAcceptContextError (noteMeow M))"
  "quiet_op (groupCancelRequestBoundary (noteMeow M))" "quiet_op (opOf r)" "quiet_op (opCheck (\<lambda>w. (e, w)))"
proof -
  show k: "quiet_op (knownGroup (noteMeow M) gid)" for gid unfolding knownGroup_def by (intro quiets)
  show "quiet_op (resolveGroupRef (noteMeow M) L ref)" unfolding resolveGroupRef_def by (intro quiets k)
  show "quiet_op (groupClient (noteMeow M) action)" unfolding groupClient_def by (intro quiets) simp
  show "quiet_op (joinContextError (noteMeow M))" unfolding joinContextError_def by (intro quiets)
  show "quiet_op (groupAcceptContextError (noteMeow M))" unfolding groupAcceptContextError_def by (intro quiets)
  show "quiet_op (groupCancelRequestBoundary (noteMeow M))" unfolding groupCancelRequestBoundary_def by (intro quiets)
  show "quiet_op (opOf r)" by (rule quiets)
  show "quiet_op (opCheck (\<lambda>w. (e, w)))" by (intro quiets leaves_ret) simp
qed

lemma quiet_key [quiets]:
  "quiet_op (resolveKnownKey (noteMeow M) L context ref)" "quiet_op r \<Longrightarrow> quiet_op (resolveAcceptanceKey L r)"
  unfolding resolveKnownKey_def resolveAcceptanceKey_def by (intro quiets; assumption)+

lemma quiet_lost: "quiet_op (lostOr (noteMeow M) e)"
  unfolding lostOr_def
proof (rule leaves_quiet_bind)
  show "quiet_op (\<lambda>s'. case x of None \<Rightarrow> (e, s') | Some lost \<Rightarrow> (Wrap [] [lost, e], s'))" for x
    by (cases x) simp_all
qed (intro quiets)

section \<open>Calls that log\<close>

lemma leaves_joinFetch:
  "leaves (\<lambda>x es. es = fetchedEvents x \<and> (\<forall>e. x \<noteq> Inl e) \<or> (\<exists>e. x = Inl e) \<and> es = []) (joinFetch (noteMeow M) L gid v)"
  unfolding joinFetch_def
proof (rule leaves_bind)
  show "leaves (\<lambda>x es. es = fetchedEvents x) (mwRetrieve (noteMeow M) gid v)"
    by (simp add: noteMeow_def noted_world)
qed (auto simp: fetchedEvents_def intro!: leaves_ret split: sum.split)

lemma leaves_acceptFetch:
  "leaves (\<lambda>x es. (\<exists>raw. x = Inr raw \<and> es = [Fetched raw] \<and> rgID raw = gid) \<or> (\<exists>e. x = Inl e) \<and> (es = [] \<or> (\<exists>raw. es = [Fetched raw])))
     (acceptFetch (noteInvites J) gid key)"
  unfolding acceptFetch_def
proof (rule leaves_bind)
  show "leaves (\<lambda>x es. es = fetchedEvents x) (ilFetch (noteInvites J) key)"
    by (simp add: noteInvites_def noted_world)
qed (auto simp: fetchedEvents_def checkAcceptSnapshot_def intro!: leaves_ret split: sum.split option.split)

definition storedOf :: "Group \<Rightarrow> GroupRecord \<Rightarrow> bool" where
  "storedOf g rec \<longleftrightarrow> grID rec = gID g \<and> grTitle rec = gTitle g \<and> grRevision rec = gRevision g"

lemma leaves_caches:
  "leaves (\<lambda>x es. \<exists>rec. es = [Stored rec] \<and> storedOf g rec) (joinCache (noteMeow M) g)"
  "leaves (\<lambda>x es. \<exists>rec. es = [Stored rec] \<and> storedOf g rec) (acceptCache (noteMeow M) g)"
proof -
  have put: "leaves (\<lambda>x es. es = [Stored rec]) (opCheck (mwPutGroup (noteMeow M) rec))" for rec
    by (simp add: leaves_def opCheck_def noteMeow_def noteWorld_def split: prod.split option.split)
  have "leaves (\<lambda>x es. \<exists>rec. es = [Stored rec] \<and> storedOf g rec) (opThen (opGet (mwNow (noteMeow M))) (\<lambda>now. opCheck (mwPutGroup (noteMeow M) (rec now))))"
    if "\<And>now. storedOf g (rec now)" for rec
  proof -
    have "opThen (opGet (mwNow (noteMeow M))) (\<lambda>now. opCheck (mwPutGroup (noteMeow M) (rec now)))
        = (\<lambda>s. case mwNow (noteMeow M) s of (now, s') \<Rightarrow> opCheck (mwPutGroup (noteMeow M) (rec now)) s')"
      by (rule ext) (simp add: opThen_def opGet_def split: prod.split)
    then show ?thesis using that by (auto intro: leaves_quiet_bind leaves_mono [OF put] quiets)
  qed
  then show "leaves (\<lambda>x es. \<exists>rec. es = [Stored rec] \<and> storedOf g rec) (joinCache (noteMeow M) g)"
    "leaves (\<lambda>x es. \<exists>rec. es = [Stored rec] \<and> storedOf g rec) (acceptCache (noteMeow M) g)"
    unfolding joinCache_def acceptCache_def by (simp_all add: storedOf_def)
qed

lemma leaves_asks:
  "leaves (\<lambda>(out, e) es. es = [Asked out]) (ilJoin (noteInvites J) k p v)"
  "leaves (\<lambda>(out, e) es. es = [Asked out]) (ilAccept (noteInvites J) k r sid)"
  "leaves (\<lambda>(out, e) es. es = [Asked out]) (ilCancel (noteInvites J) k r)"
  by (simp_all add: leaves_def noteInvites_def noteWorld_def split: prod.split)

lemma leaves_previews:
  "leaves (\<lambda>x es. es = previewEvents x) (ilPreview (noteInvites J) k p)"
  "leaves (\<lambda>x es. es = previewEvents x) (ilPreviewRequest (noteInvites J) k)"
  by (simp_all add: noteInvites_def noted_world)

lemma leaves_fetch_anew:
  "leaves (\<lambda>x es. es = fetchedEvents x \<and> (\<forall>e. x \<noteq> Inl e) \<or> (\<exists>e. x = Inl e) \<and> es = [])
     (opThen (opDo (mwEvict (noteMeow M) g)) (\<lambda>_. joinFetch (noteMeow M) L gid v))"
  "leaves (\<lambda>x es. (\<exists>raw. x = Inr raw \<and> es = [Fetched raw] \<and> rgID raw = gid) \<or> (\<exists>e. x = Inl e) \<and> (es = [] \<or> (\<exists>raw. es = [Fetched raw])))
     (opThen (opDo (mwEvict (noteMeow M) g)) (\<lambda>_. acceptFetch (noteInvites J) gid key))"
  by (intro leaves_then leaves_joinFetch leaves_acceptFetch quiets; simp)+

section \<open>Staged operations\<close>

lemma ends_ending: "P r (e = None) [] \<Longrightarrow> ends P (ending r e)"
  unfolding ends_def ending_def by (rule leaves_ret) simp

lemma ends_ret: "P r (e = None) [] \<Longrightarrow> ends P (\<lambda>s. ((r, e), s))"
  unfolding ends_def by (rule leaves_ret) simp

lemma ends_trying:
  assumes "leaves Q m" "\<And>e es. Q (Inl e) es \<Longrightarrow> P r False es" "\<And>x es. Q (Inr x) es \<Longrightarrow> ends (\<lambda>r ok es'. P r ok (es @ es')) (k x)"
  shows "ends P (trying r m k)"
proof -
  have t: "trying r m k = (\<lambda>s. case m s of (x, s') \<Rightarrow> (case x of Inl e \<Rightarrow> (\<lambda>s. ((r, Some e), s)) | Inr y \<Rightarrow> k y) s')"
    by (rule ext) (simp add: trying_def split: prod.split sum.split)
  show ?thesis unfolding ends_def t
    by (rule leaves_bind [OF assms(1)])
       (auto intro: leaves_ret assms(2) leaves_mono [OF assms(3) [unfolded ends_def]] split: sum.split)
qed

lemma ends_try:
  "quiet_op m \<Longrightarrow> P r False [] \<Longrightarrow> (\<And>x. ends P (k x)) \<Longrightarrow> ends P (trying r m k)"
  by (erule ends_trying) auto

lemma ends_try_of:
  "(\<And>e. x = Inl e \<Longrightarrow> P r False []) \<Longrightarrow> (\<And>y. x = Inr y \<Longrightarrow> ends P (k y)) \<Longrightarrow> ends P (trying r (opOf x) k)"
  by (cases x) (simp_all add: trying_def opOf_def ends_def)

lemma ends_bind:
  assumes "leaves Q m" "\<And>x es. Q x es \<Longrightarrow> ends (\<lambda>r ok es'. P r ok (es @ es')) (k x)"
  shows "ends P (\<lambda>s. case m s of (x, s') \<Rightarrow> k x s')"
  unfolding ends_def
  by (rule leaves_bind [OF assms(1)]) (auto intro: leaves_mono [OF assms(2) [unfolded ends_def]])

lemma ends_cases:
  "(\<And>e. x = Inl e \<Longrightarrow> ends P (f e)) \<Longrightarrow> (\<And>y. x = Inr y \<Longrightarrow> ends P (g y)) \<Longrightarrow> ends P (\<lambda>s. case x of Inl e \<Rightarrow> f e s | Inr y \<Rightarrow> g y s)"
  "(z = None \<Longrightarrow> ends P h) \<Longrightarrow> (\<And>y. z = Some y \<Longrightarrow> ends P (k y)) \<Longrightarrow> ends P (\<lambda>s. case z of None \<Rightarrow> h s | Some y \<Rightarrow> k y s)"
  "(\<And>a b. q = (a, b) \<Longrightarrow> ends P (p a b)) \<Longrightarrow> ends P (\<lambda>s. case q of (a, b) \<Rightarrow> p a b s)"
  "(c \<Longrightarrow> ends P l) \<Longrightarrow> (\<not> c \<Longrightarrow> ends P l') \<Longrightarrow> ends P (\<lambda>s. if c then l s else l' s)"
  "(z = None \<Longrightarrow> ends P h) \<Longrightarrow> (\<And>y. z = Some y \<Longrightarrow> ends P (k y)) \<Longrightarrow> ends P (case z of None \<Rightarrow> h | Some y \<Rightarrow> k y)"
  "(\<And>a b. q = (a, b) \<Longrightarrow> ends P (p a b)) \<Longrightarrow> ends P (case q of (a, b) \<Rightarrow> p a b)"
  "(c \<Longrightarrow> ends P l) \<Longrightarrow> (\<not> c \<Longrightarrow> ends P l') \<Longrightarrow> ends P (if c then l else l')"
  "(c \<Longrightarrow> ends P l) \<Longrightarrow> (\<not> c \<Longrightarrow> ends P l') \<Longrightarrow> ends P (case c of True \<Rightarrow> l | False \<Rightarrow> l')"
  "(\<And>e. x = Inl e \<Longrightarrow> ends P (f e)) \<Longrightarrow> (\<And>y. x = Inr y \<Longrightarrow> ends P (g y)) \<Longrightarrow> ends P (case x of Inl e \<Rightarrow> f e | Inr y \<Rightarrow> g y)"
  by ((cases x; simp), (cases z; simp), (cases q; simp), (cases c; simp), (cases z; simp), (cases q; simp), (cases c; simp), (cases c; simp), (cases x; simp))

lemmas ends_leaf = ends_ending ends_ret

lemma ends_deferring:
  assumes "\<And>s. snd (f s) = snd s" "ends P m" shows "ends P (deferring f m)"
proof (unfold ends_def leaves_def, intro allI)
  fix s
  obtain x s' where m: "m s = (x, s')" by (cases "m s")
  then show "\<exists>es. snd (snd (deferring f m s)) = snd s @ es \<and> (case fst (deferring f m s) of (r, e) \<Rightarrow> P r (e = None)) es"
    using leavesD [OF assms(2) [unfolded ends_def] m] assms(1) by (simp add: deferring_def)
qed

lemma ends_redacted:
  assumes "ends P m" shows "ends P (redacted f m)"
proof (unfold ends_def leaves_def, intro allI)
  fix s
  obtain r e s' where m: "m s = ((r, e), s')" by (metis surj_pair)
  then show "\<exists>es. snd (snd (redacted f m s)) = snd s @ es \<and> (case fst (redacted f m s) of (r, e) \<Rightarrow> P r (e = None)) es"
    using leavesD [OF assms [unfolded ends_def] m] by (simp add: redacted_def)
qed

lemma ends_evict: "ends P m \<Longrightarrow> ends P (\<lambda>s. m (mwEvict (noteMeow M) g s))"
  unfolding ends_def by (rule leaves_after) simp_all

lemma ends_client:
  assumes "ends P m" "P r0 False []"
  shows "ends P (staged_client (noteMeow M) (noteInvites J) action f r0 m)"
proof (unfold ends_def leaves_def, intro allI)
  fix s
  let ?run = "staged_client (noteMeow M) (noteInvites J) action f r0 m s"
  obtain c s1 where c: "ilClosing (noteInvites J) s = (c, s1)" "snd s1 = snd s"
    using leavesD [OF quiet_fields(7)] by (metis append_Nil2 surj_pair)
  show "\<exists>es. snd (snd ?run) = snd s @ es \<and> (case fst ?run of (r, e) \<Rightarrow> P r (e = None)) es"
  proof (cases c)
    case False
    obtain g s2 where g: "groupClient (noteMeow M) action s1 = (g, s2)" "snd s2 = snd s"
      using leavesD [OF quiet_steps(1)] c(2) by (metis append_Nil2 surj_pair)
    show ?thesis
    proof (cases g)
      case (Inr u)
      obtain r e s3 where m: "m s2 = ((r, e), s3)" by (metis surj_pair)
      obtain es where es: "snd s3 = snd s @ es" "P r (e = None) es"
        using leavesD [OF assms(1) [unfolded ends_def] m] g(2) by auto
      show ?thesis
      proof (cases e)
        case (Some x)
        obtain e' s4 where "lostOr (noteMeow M) x s3 = (e', s4)" "snd s4 = snd s3"
          using leavesD [OF quiet_lost] by (metis append_Nil2 surj_pair)
        then show ?thesis using es Some by (simp add: staged_client_def deferring_def c False g Inr m)
      qed (use es in \<open>simp add: staged_client_def deferring_def c False g Inr m\<close>)
    qed (use assms(2) in \<open>simp add: staged_client_def c False g\<close>)
  qed (use assms(2) in \<open>simp add: staged_client_def c\<close>)
qed

section \<open>Truthful results\<close>

datatype invite_op = OpJoin string | OpAccept string | OpCancel string

definition asJoin :: "GroupJoinStatus \<Rightarrow> GroupAcceptResult \<Rightarrow> GroupJoinResult" where
  "asJoin status r = \<lparr>gjID = gaID r, gjTitle = gaTitle r, gjRevision = gaRevision r, gjStatus = status,
     gjChanged = gaChanged r, gjAccepted = gaAccepted r, gjVerified = gaVerified r\<rparr>"

definition run_invite_op ::
  "'w meow \<Rightarrow> 'w invite_lib \<Rightarrow> meow_lib \<Rightarrow> link_lib \<Rightarrow> own \<Rightarrow> invite_op \<Rightarrow> ('w, GroupJoinResult) staged" where
  "run_invite_op M J L K own op = (case op of
     OpJoin link \<Rightarrow> JoinGroup M J L K own link
   | OpAccept ref \<Rightarrow> (\<lambda>w. case AcceptGroupInvitation M J L own ref w of ((r, e), w') \<Rightarrow> ((asJoin GroupJoinMember r, e), w'))
   | OpCancel ref \<Rightarrow> (\<lambda>w. case CancelGroupJoinRequest M J L ref w of ((r, e), w') \<Rightarrow> ((asJoin GroupJoinNone r, e), w')))"

definition asked :: "invite_event list \<Rightarrow> InviteOutcome list" where
  "asked es = concat (map (\<lambda>e. case e of Asked outcome \<Rightarrow> [outcome] | _ \<Rightarrow> []) es)"

lemma asked_simps [simp]:
  "asked [] = []" "asked (Fetched raw # es) = asked es" "asked (Previewed p # es) = asked es"
  "asked (Stored rec # es) = asked es" "asked (Asked out # es) = out # asked es" "asked (es @ es') = asked es @ asked es'"
  by (simp_all add: asked_def)

text \<open>The account's own ACI is one of the members.\<close>

definition ownMember :: "meow_lib \<Rightarrow> own \<Rightarrow> RawGroup \<Rightarrow> bool" where
  "ownMember L own raw \<longleftrightarrow> (\<exists>m\<in>set (somes (rgMembers raw)).
     acceptIdentity (mlUUID L) (uuid_String (mlUUID L) (rwACI m)) = acceptIdentity (mlUUID L) (ownID L own))"

text \<open>A membership is verified by a group fetched in this run, a request to join by the preview or by the
  outcome of asking, a cancelled request by the preview or by the outcome of asking.\<close>

definition memberVerified :: "meow_lib \<Rightarrow> own \<Rightarrow> GroupJoinResult \<Rightarrow> invite_event list \<Rightarrow> bool" where
  "memberVerified L own r es \<longleftrightarrow> (\<exists>raw. Fetched raw \<in> set es \<and> ownMember L own raw \<and> rgID raw = gjID r
     \<and> rgTitle raw = gjTitle r \<and> rgRevision raw = gjRevision r \<and> (\<forall>out\<in>set (asked es). icRevision out \<le> rgRevision raw))"

definition requestVerified :: "GroupJoinResult \<Rightarrow> invite_event list \<Rightarrow> bool" where
  "requestVerified r es \<longleftrightarrow> (\<exists>p. Previewed p \<in> set es \<and> jpTitle p = gjTitle r
     \<and> (asked es = [] \<and> jpPendingAdminApproval p \<and> jpRevision p = gjRevision r
        \<or> (\<exists>out. asked es = [out] \<and> icVerified out \<and> icRequesting out \<and> icRevision out = gjRevision r
            \<and> jpAccess p = AccessAdministrator)))"

definition cancelVerified :: "GroupJoinResult \<Rightarrow> invite_event list \<Rightarrow> bool" where
  "cancelVerified r es \<longleftrightarrow> (\<exists>p. Previewed p \<in> set es \<and> jpTitle p = gjTitle r
     \<and> (asked es = [] \<and> \<not> jpPendingAdminApproval p \<and> jpRevision p = gjRevision r
        \<or> (\<exists>out. asked es = [out] \<and> icVerified out \<and> icRevision out = jpRevision p + 1 \<and> icRevision out = gjRevision r)))"

definition verifiedBy :: "meow_lib \<Rightarrow> own \<Rightarrow> invite_op \<Rightarrow> GroupJoinResult \<Rightarrow> invite_event list \<Rightarrow> bool" where
  "verifiedBy L own op r es \<longleftrightarrow> (case op of
     OpJoin _ \<Rightarrow> (case gjStatus r of GroupJoinMember \<Rightarrow> memberVerified L own r es
       | GroupJoinRequesting \<Rightarrow> requestVerified r es | GroupJoinNone \<Rightarrow> False)
   | OpAccept _ \<Rightarrow> memberVerified L own r es
   | OpCancel _ \<Rightarrow> cancelVerified r es)"

definition truthful :: "meow_lib \<Rightarrow> own \<Rightarrow> invite_op \<Rightarrow> GroupJoinResult \<Rightarrow> bool \<Rightarrow> invite_event list \<Rightarrow> bool" where
  "truthful L own op r ok es \<longleftrightarrow> gjChanged r = gjAccepted r \<and> length (asked es) \<le> 1
     \<and> (gjAccepted r \<longleftrightarrow> (\<exists>out\<in>set (asked es). icAccepted out))
     \<and> (ok \<longrightarrow> gjVerified r) \<and> (gjVerified r \<longrightarrow> verifiedBy L own op r es)
     \<and> (\<forall>rec. Stored rec \<in> set es \<longrightarrow> (\<exists>raw. Fetched raw \<in> set es \<and> ownMember L own raw \<and> rgID raw = grID rec
          \<and> rgTitle raw = grTitle rec \<and> rgRevision raw = grRevision rec))"

lemma ownGroup_fields [simp]:
  "gID (ownGroup L own raw) = rgID raw" "gTitle (ownGroup L own raw) = rgTitle raw" "gRevision (ownGroup L own raw) = rgRevision raw"
  "gMembers (ownGroup L own raw) = map (convertMember (mlUUID L)) (somes (rgMembers raw))"
  by (simp_all add: ownGroup_def convertGroup_def Let_def split: prod.split)

lemma SelfMembership_Member:
  assumes "fst (SelfMembership U g self) = MembershipMember"
  shows "\<exists>m\<in>set (gMembers g). memberACI m = uuid_String U (acceptIdentity U (rACI self))"
proof -
  have "fst (MembershipOf (g\<lparr>gPending := []\<rparr>) (uuid_String U (acceptIdentity U (rACI self)))) = MembershipMember"
    using assms by (auto simp: SelfMembership_def Let_def split: if_splits option.splits prod.splits)
  then show ?thesis
    by (auto simp: MembershipOf_def find_Some_iff split: if_splits option.splits)
qed

lemma ownMember_membership:
  assumes "uuid_laws (mlUUID L)" "gMembership (ownGroup L own raw) = MembershipMember"
  shows "ownMember L own raw"
proof -
  let ?U = "mlUUID L"
  have "\<exists>m\<in>set (map (convertMember ?U) (somes (rgMembers raw))). memberACI m = uuid_String ?U (acceptIdentity ?U (rACI (ownSelf L own)))"
  proof -
    define g0 where "g0 = \<lparr>gAvatarPath = rgAvatarPath raw, gID = rgID raw, gMasterKey = rgMasterKey raw, gTitle = rgTitle raw,
      gDescription = rgDescription raw, gRevision = rgRevision raw, gTimer = uint (rgTimer raw) * 1000000000,
      gAnnouncementsOnly = rgAnnouncementsOnly raw, gMembersCanEditAttributes = False, gMembersCanAddMembers = False,
      gMembers = map (convertMember ?U) (somes (rgMembers raw)), gPending = map (convertPending ?U) (somes (rgPending raw)),
      gRequesting = map (convertRequesting ?U) (somes (rgRequesting raw)),
      gBanned = convertBannedMembers ?U (rgBanned raw), gMembership = MembershipNone, gRole = GroupRoleUnknown,
      gLeftAt = time_zero, gErr = None\<rparr>"
    have "gMembership (ownGroup L own raw) = fst (SelfMembership ?U g0 (ownSelf L own))"
      unfolding ownGroup_def convertGroup_def Let_def g0_def [symmetric] by (simp split: prod.split)
    then show ?thesis using assms(2) SelfMembership_Member [of ?U g0 "ownSelf L own"] by (simp add: g0_def)
  qed
  then obtain m where m: "m \<in> set (somes (rgMembers raw))"
    "uuid_String ?U (rwACI m) = uuid_String ?U (acceptIdentity ?U (rACI (ownSelf L own)))"
    by (auto simp: memberACI_def convertMember_def)
  have "acceptIdentity ?U (uuid_String ?U (rwACI m)) = acceptIdentity ?U (ownID L own)"
    unfolding m(2) using assms(1) by (simp add: ownSelf_def ownID_def)
  then show ?thesis using m(1) unfolding ownMember_def by blast
qed

lemma ownMember_invited:
  assumes "CheckAcceptInvitation (mlUUID L) (ownGroup L own raw) (ownSelf L own) = Inr (x, True)"
  shows "ownMember L own raw"
  using assms
  by (auto simp: CheckAcceptInvitation_def Let_def list_ex_iff ownMember_def memberACI_def convertMember_def ownSelf_def ownID_def
      split: if_splits sum.splits)

text \<open>What was logged before anything was asked or stored.\<close>

definition idle :: "invite_event list \<Rightarrow> bool" where
  "idle es \<longleftrightarrow> asked es = [] \<and> (\<forall>rec. Stored rec \<notin> set es)"

lemma idle_simps [simp]:
  "idle []" "idle (Fetched raw # es) \<longleftrightarrow> idle es" "idle (Previewed p # es) \<longleftrightarrow> idle es" "idle (es @ es') \<longleftrightarrow> idle es \<and> idle es'"
  "idle es \<Longrightarrow> asked es = []" "idle es \<Longrightarrow> Stored rec \<notin> set es" "\<not> idle (Asked out # es)" "\<not> idle (Stored rec # es)"
  by (auto simp: idle_def)

lemma idle_fetched [simp]: "idle (fetchedEvents x)" "idle (previewEvents y)"
  by (auto simp: fetchedEvents_def previewEvents_def split: sum.split option.split)

text \<open>Nothing is claimed before a change was asked for, and after one only what was accepted.\<close>

lemma truthful_unverified:
  "idle es \<Longrightarrow> \<not> gjVerified r \<Longrightarrow> \<not> gjAccepted r \<Longrightarrow> \<not> gjChanged r \<Longrightarrow> truthful L own op r False es"
  by (auto simp: truthful_def)

text \<open>Direct membership after the library said that it joined.\<close>

lemma ends_verifyDirect:
  assumes "uuid_laws (mlUUID L)" "idle pre" "icAccepted outcome" "gjAccepted result" "gjChanged result" "\<not> gjVerified result" "gjID result = gid"
  shows "ends (\<lambda>r ok es. truthful L own (OpJoin link) r ok (pre @ Previewed p # Asked outcome # es))
     (verifyDirectGroupJoin (noteMeow M) (noteInvites J) L own gid outcome context change result)"
proof -
  let ?P = "\<lambda>r ok es. truthful L own (OpJoin link) r ok (pre @ Previewed p # Asked outcome # es)"
  let ?v = "\<lambda>raw. result\<lparr>gjTitle := rgTitle raw, gjStatus := GroupJoinMember, gjVerified := True, gjRevision := rgRevision raw\<rparr>"
  let ?member = "\<lambda>raw. trying (?v raw) (joinCache (noteMeow M) (ownGroup L own raw)) (\<lambda>_. trying (?v raw) (joinContextError (noteMeow M)) (\<lambda>_.
     trying (?v raw) (ilNotify (noteInvites J) raw context change) (\<lambda>n. ending (?v raw) (groupJoinNotificationError n))))"
  have failed: "?P result False []" "?P result False [Fetched raw]" for raw
    using assms by (auto simp: truthful_def)
  have member: "ends (\<lambda>r ok es. ?P r ok (Fetched raw # es)) (?member raw)"
    if "gMembership (ownGroup L own raw) = MembershipMember" "rgID raw = gid" "\<not> rgRevision raw < icRevision outcome" for raw
  proof -
    have "?P (?v raw) ok [Fetched raw, Stored rec]" if "storedOf (ownGroup L own raw) rec" for rec ok
      using that assms(2-7) \<open>rgID raw = gid\<close> \<open>\<not> rgRevision raw < _\<close> ownMember_membership [OF assms(1) \<open>gMembership _ = _\<close>]
      by (auto simp: truthful_def verifiedBy_def memberVerified_def storedOf_def not_less)
    then show ?thesis
      by (intro ends_trying [OF leaves_caches(1)] ends_try ends_ending quiets) auto
  qed
  have fetched: "ends (\<lambda>r ok es'. ?P r ok (fetchedEvents (Inr x) @ es')) (case x of None \<Rightarrow> ending result (Some invalidResponse)
       | Some raw \<Rightarrow> if rgID raw \<noteq> gid \<or> rgRevision raw < icRevision outcome then ending result (Some invalidResponse)
           else if gMembership (ownGroup L own raw) \<noteq> MembershipMember then ending result (Some (Sentinel ErrNotAMember))
           else trying result (joinContextError (noteMeow M)) (\<lambda>_. ?member raw))" for x
    using failed member
    by (auto simp: fetchedEvents_def intro!: ends_ending ends_try [OF quiet_steps(4)] split: option.split)
  show ?thesis
    unfolding verifyDirectGroupJoin_def Let_def ownGroup_fields
    by (intro ends_try [OF quiet_steps(4)] ends_trying [OF leaves_fetch_anew(1)]) (use failed fetched in auto)
qed

lemma ends_complete:
  assumes "uuid_laws (mlUUID L)" "idle pre" "gjID r = gid" "\<not> gjVerified r"
  shows "ends (\<lambda>r ok es. truthful L own (OpJoin link) r ok (pre @ Previewed p # Asked outcome # es))
     (completeGroupJoin (noteMeow M) (noteInvites J) L own gid p outcome (afterOutcome outcome r))"
proof -
  let ?r = "afterOutcome outcome r"
  let ?P = "\<lambda>r ok es. truthful L own (OpJoin link) r ok (pre @ Previewed p # Asked outcome # es)"
  have r: "gjAccepted ?r = icAccepted outcome" "gjChanged ?r = icAccepted outcome" "\<not> gjVerified ?r" "gjID ?r = gid"
    "icAccepted outcome \<Longrightarrow> gjRevision ?r = icRevision outcome"
    using assms by (auto simp: afterOutcome_def)
  have failed: "?P ?r False []" using r assms(2) by (auto simp: truthful_def)
  have requesting: "?P (?r\<lparr>gjTitle := jpTitle p, gjStatus := GroupJoinRequesting, gjVerified := True\<rparr>) True []"
    if "icAccepted outcome" "icVerified outcome" "icRequesting outcome" "jpAccess p = AccessAdministrator"
    using that r assms(2) by (auto simp: truthful_def verifiedBy_def requestVerified_def)
  have direct: "ends ?P (verifyDirectGroupJoin (noteMeow M) (noteInvites J) L own gid outcome ctx change ?r)"
    if "icAccepted outcome" for ctx change
    by (rule ends_verifyDirect [OF assms(1,2)]) (use r that in simp_all)
  show ?thesis
    unfolding completeGroupJoin_def
    using failed requesting direct by (auto intro!: ends_ending split: option.split)
qed

lemma ends_submitJoin:
  assumes "uuid_laws (mlUUID L)" "idle pre" "gjID r0 = gid" "\<not> gjVerified r0" "\<not> gjAccepted r0" "\<not> gjChanged r0"
  shows "ends (\<lambda>r ok es. truthful L own (OpJoin link) r ok (pre @ es))
     (submitGroupJoin (noteMeow M) (noteInvites J) L own gid key password r0)"
proof -
  let ?P = "\<lambda>r ok es. truthful L own (OpJoin link) r ok (pre @ es)"
  have start: "?P r0 False []" using assms by (auto intro: truthful_unverified)
  have failed: "truthful L own (OpJoin link) (r0\<lparr>gjRevision := v\<rparr>) False (pre @ [Previewed p])" for p v
    using assms by (auto intro: truthful_unverified)
  have pending: "truthful L own (OpJoin link) (r0\<lparr>gjRevision := jpRevision p, gjTitle := jpTitle p, gjStatus := GroupJoinRequesting, gjVerified := True\<rparr>)
      True (pre @ [Previewed p])" if "jpPendingAdminApproval p" for p
    using that assms by (auto simp: truthful_def verifiedBy_def requestVerified_def)
  have refused: "truthful L own (OpJoin link) (afterOutcome out (r0\<lparr>gjRevision := jpRevision p\<rparr>)) False (pre @ [Previewed p, Asked out])" for p out
    using assms by (auto simp: truthful_def afterOutcome_def)
  have completed: "ends (\<lambda>r ok es. truthful L own (OpJoin link) r ok (pre @ Previewed p # Asked out # es))
      (completeGroupJoin (noteMeow M) (noteInvites J) L own gid p out (afterOutcome out (r0\<lparr>gjRevision := jpRevision p\<rparr>)))" for p out
    by (rule ends_complete [OF assms(1,2)]) (use assms in simp_all)
  show ?thesis
    unfolding submitGroupJoin_def Let_def
    by (intro ends_try ends_bind [OF leaves_previews(1)] ends_bind [OF leaves_asks(1)] ends_cases ends_leaf quiets)
       (use start failed pending refused completed in \<open>auto simp: previewEvents_def\<close>)
qed

text \<open>A known group: either it verifies the membership, or nothing was asked for or stored.\<close>

lemma ends_knownJoin:
  assumes "uuid_laws (mlUUID L)"
  shows "ends (\<lambda>r ok es. if gjVerified r then truthful L own (OpJoin link) r ok es else idle es)
     (knownGroupJoin (noteMeow M) L own gid)"
proof -
  let ?v = "\<lambda>raw. noJoin\<lparr>gjID := rgID raw, gjTitle := rgTitle raw, gjRevision := rgRevision raw, gjStatus := GroupJoinMember, gjVerified := True\<rparr>"
  have none: "\<not> gjVerified noJoin" by (simp add: noJoin_def)
  have member: "truthful L own (OpJoin link) (?v raw) ok [Fetched raw, Stored rec]"
    if "gMembership (ownGroup L own raw) = MembershipMember" "storedOf (ownGroup L own raw) rec" for raw rec ok
    using that ownMember_membership [OF assms that(1)]
    by (auto simp: truthful_def verifiedBy_def memberVerified_def storedOf_def noJoin_def)
  show ?thesis
    unfolding knownGroupJoin_def Let_def ownGroup_fields
    by (intro ends_try ends_bind [OF leaves_joinFetch] ends_trying [OF leaves_caches(1)] ends_cases ends_leaf quiets)
       (use none member in \<open>auto simp: fetchedEvents_def\<close>)
qed

lemma ends_join:
  assumes "uuid_laws (mlUUID L)"
  shows "ends (truthful L own (OpJoin link)) (JoinGroup (noteMeow M) (noteInvites J) L K own link)"
proof -
  have none: "truthful L own (OpJoin link) noJoin False []" "\<not> gjVerified noJoin"
    by (simp_all add: truthful_def noJoin_def)
  have failed: "truthful L own (OpJoin link) (noJoin\<lparr>gjID := gid\<rparr>) False es" if "idle es" for es gid
    using that by (auto intro: truthful_unverified simp: noJoin_def)
  have submit: "ends (\<lambda>r ok es'. truthful L own (OpJoin link) r ok (es @ es'))
      (submitGroupJoin (noteMeow M) (noteInvites J) L own gid key password (noJoin\<lparr>gjID := gid\<rparr>))" if "idle es" for es gid key password
    using that by (intro ends_submitJoin assms) (simp_all add: noJoin_def)
  show ?thesis
    unfolding JoinGroup_def joinGroupWithOperations_def Let_def
    by (intro ends_client ends_redacted ends_deferring ends_evict ends_try ends_bind [OF ends_knownJoin [OF assms, unfolded ends_def]]
          ends_cases ends_leaf quiets)
       (use none failed submit in \<open>auto split: if_splits\<close>)
qed

section \<open>Accepting and cancelling\<close>

abbreviation accepts :: "meow_lib \<Rightarrow> own \<Rightarrow> string \<Rightarrow> GroupAcceptResult \<Rightarrow> bool \<Rightarrow> invite_event list \<Rightarrow> bool" where
  "accepts L own ref r \<equiv> truthful L own (OpAccept ref) (asJoin GroupJoinMember r)"

abbreviation cancels :: "meow_lib \<Rightarrow> own \<Rightarrow> string \<Rightarrow> GroupAcceptResult \<Rightarrow> bool \<Rightarrow> invite_event list \<Rightarrow> bool" where
  "cancels L own ref r \<equiv> truthful L own (OpCancel ref) (asJoin GroupJoinNone r)"

lemma asJoin_simps [simp]:
  "gjID (asJoin st r) = gaID r" "gjTitle (asJoin st r) = gaTitle r" "gjRevision (asJoin st r) = gaRevision r" "gjStatus (asJoin st r) = st"
  "gjChanged (asJoin st r) = gaChanged r" "gjAccepted (asJoin st r) = gaAccepted r" "gjVerified (asJoin st r) = gaVerified r"
  by (simp_all add: asJoin_def)

lemma withOutcome_simps [simp]:
  "gaID (withOutcome out r) = gaID r" "gaTitle (withOutcome out r) = gaTitle r" "gaChanged (withOutcome out r) = icAccepted out"
  "gaAccepted (withOutcome out r) = icAccepted out" "gaVerified (withOutcome out r) = gaVerified r"
  "icAccepted out \<Longrightarrow> gaRevision (withOutcome out r) = icRevision out"
  by (simp_all add: withOutcome_def)

lemma ends_completeAcceptance:
  assumes "idle pre" "icAccepted out" "gaAccepted r" "gaChanged r" "\<not> gaVerified r" "gaID r = gid"
  shows "ends (\<lambda>r ok es. accepts L own ref r ok (pre @ Asked out # es))
     (completeGroupAcceptance (noteMeow M) (noteInvites J) L own gid key out ctx change r)"
proof -
  let ?v = "\<lambda>raw. r\<lparr>gaTitle := rgTitle raw, gaRevision := rgRevision raw, gaVerified := True\<rparr>"
  have failed: "accepts L own ref r False (pre @ [Asked out])" "accepts L own ref r False (pre @ [Asked out, Fetched raw])" for raw
    using assms by (auto simp: truthful_def)
  have member: "accepts L own ref (?v raw) ok (pre @ Asked out # Fetched raw # es)"
    if "CheckAcceptInvitation (mlUUID L) (ownGroup L own raw) (ownSelf L own) = Inr (x, True)" "rgID raw = gid"
      "\<not> rgRevision raw < icRevision out" "es = [] \<and> \<not> ok \<or> (\<exists>rec. es = [Stored rec] \<and> storedOf (ownGroup L own raw) rec)" for raw ok es x
    using that assms ownMember_invited [OF that(1)]
    by (auto simp: truthful_def verifiedBy_def memberVerified_def storedOf_def not_less)
  show ?thesis
    unfolding completeGroupAcceptance_def Let_def ownGroup_fields
    by (intro ends_try ends_trying [OF leaves_fetch_anew(2)] ends_trying [OF leaves_caches(2)] ends_cases ends_leaf quiets)
       (use failed member in auto)
qed

lemma ends_accept:
  "ends (accepts L own ref) (AcceptGroupInvitation (noteMeow M) (noteInvites J) L own ref)"
proof -
  let ?r = "\<lambda>gid. noAccept\<lparr>gaID := gid\<rparr>"
  have none: "accepts L own ref noAccept False []" by (simp add: truthful_def noAccept_def)
  have failed: "accepts L own ref (?r gid) False es" "accepts L own ref (?r gid\<lparr>gaRevision := v\<rparr>) False es" if "idle es" for es gid v
    using that by (auto intro: truthful_unverified simp: noAccept_def)
  have already: "accepts L own ref (?r gid\<lparr>gaRevision := rgRevision raw, gaTitle := rgTitle raw, gaVerified := True\<rparr>) ok (Fetched raw # es)"
    if "CheckAcceptInvitation (mlUUID L) (ownGroup L own raw) (ownSelf L own) = Inr (x, True)" "rgID raw = gid"
      "es = [] \<or> (\<exists>rec. es = [Stored rec] \<and> storedOf (ownGroup L own raw) rec)" for raw ok es x gid
    using that ownMember_invited [OF that(1)]
    by (auto simp: truthful_def verifiedBy_def memberVerified_def storedOf_def noAccept_def)
  have refused: "accepts L own ref (withOutcome out (?r gid\<lparr>gaRevision := v\<rparr>)) False [Fetched raw, Asked out]" for out gid v raw
    by (auto simp: truthful_def noAccept_def)
  have completed: "ends (\<lambda>r ok es. accepts L own ref r ok (Fetched raw # Asked out # es))
      (completeGroupAcceptance (noteMeow M) (noteInvites J) L own gid key out ctx change (withOutcome out (?r gid\<lparr>gaRevision := v\<rparr>)))"
    if "icAccepted out" for raw out gid key ctx change v
    using ends_completeAcceptance [of "[Fetched raw]" out "withOutcome out (?r gid\<lparr>gaRevision := v\<rparr>)" gid] that
    by (simp add: noAccept_def)
  show ?thesis
    unfolding AcceptGroupInvitation_def acceptGroupWithOperations_def submitGroupAcceptance_def Let_def ownGroup_fields
    by (intro ends_client ends_redacted ends_deferring ends_evict ends_bind [OF quiet_then] ends_bind [OF leaves_asks(2)]
          ends_trying [OF leaves_acceptFetch] ends_trying [OF leaves_caches(2)] ends_try_of ends_try ends_cases ends_leaf quiets)
       (use none failed already refused completed in auto)
qed

lemma ends_cancel:
  "ends (cancels L own ref) (CancelGroupJoinRequest (noteMeow M) (noteInvites J) L ref)"
proof -
  let ?r = "\<lambda>gid p v b. noAccept\<lparr>gaID := gid, gaTitle := jpTitle p, gaRevision := v, gaVerified := b\<rparr>"
  have none: "cancels L own ref noAccept False []" by (simp add: truthful_def noAccept_def)
  have failed: "cancels L own ref (noAccept\<lparr>gaID := gid\<rparr>) False []" for gid
    by (simp add: truthful_def noAccept_def)
  have previewed: "cancels L own ref (?r gid p v b) ok [Previewed p]"
    if "v = jpRevision p" "b \<longleftrightarrow> \<not> jpPendingAdminApproval p" "ok \<longrightarrow> b" for gid p v b ok
    using that by (auto simp: truthful_def verifiedBy_def cancelVerified_def noAccept_def)
  have refused: "cancels L own ref (withOutcome out (?r gid p v False)) False [Previewed p, Asked out]" for out gid p v
    by (auto simp: truthful_def noAccept_def)
  have cancelled: "cancels L own ref (withOutcome out (?r gid p v b)\<lparr>gaVerified := True\<rparr>) ok [Previewed p, Asked out]"
    if "icVerified out" "icRevision out = jpRevision p + 1" "icAccepted out" for out gid p v b ok
    using that by (auto simp: truthful_def verifiedBy_def cancelVerified_def)
  show ?thesis
    unfolding CancelGroupJoinRequest_def cancelGroupRequestWithOperations_def Let_def
    by (intro ends_client ends_redacted ends_deferring ends_evict ends_bind [OF quiet_then] ends_bind [OF leaves_asks(3)]
          ends_bind [OF leaves_previews(2)] ends_try_of ends_try ends_cases ends_leaf quiets)
       (use none failed refused cancelled in \<open>auto simp: previewEvents_def intro: previewed\<close>)
qed

lemma ends_invite_op:
  assumes "uuid_laws (mlUUID L)"
  shows "ends (truthful L own op) (run_invite_op (noteMeow M) (noteInvites J) L K own op)"
proof (cases op)
  case (OpAccept ref)
  have "ends (truthful L own op) (\<lambda>s. case AcceptGroupInvitation (noteMeow M) (noteInvites J) L own ref s of
      (x, s') \<Rightarrow> (case x of (r, e) \<Rightarrow> \<lambda>s'. ((asJoin GroupJoinMember r, e), s')) s')"
    by (rule ends_bind [OF ends_accept [unfolded ends_def]]) (auto simp: OpAccept intro: ends_ret)
  then show ?thesis by (simp add: run_invite_op_def OpAccept split_def)
next
  case (OpCancel ref)
  have "ends (truthful L own op) (\<lambda>s. case CancelGroupJoinRequest (noteMeow M) (noteInvites J) L ref s of
      (x, s') \<Rightarrow> (case x of (r, e) \<Rightarrow> \<lambda>s'. ((asJoin GroupJoinNone r, e), s')) s')"
    by (rule ends_bind [OF ends_cancel [unfolded ends_def]]) (auto simp: OpCancel intro: ends_ret)
  then show ?thesis by (simp add: run_invite_op_def OpCancel split_def)
qed (simp add: run_invite_op_def ends_join [OF assms])

text \<open>C5: What joining by a link, accepting an invitation and cancelling a request report is what the
  library answered in that very run, whatever it answers and wherever the run is cut off: at most one
  change is asked for, and it is reported as accepted exactly when the library said so; success means
  that the result is verified; a membership is only reported as verified by a group fetched in this
  run that has the account's own ACI as a member, at its title and revision and not before the
  accepted change, a pending request by the preview or by the verified outcome, a cancelled request by
  the preview or by the outcome at the next revision; and only groups fetched with the account as a
  member get into the title cache.\<close>

theorem invitations_truthful:
  assumes "uuid_laws (mlUUID L)"
    and "run_invite_op (noteMeow M) (noteInvites J) L K own op (w, []) = ((r, e), (w', es))"
  shows "truthful L own op r (e = None) es"
  using leavesD [OF ends_invite_op [OF assms(1), unfolded ends_def] assms(2)] by simp

text \<open>A join that is accepted: the group is not known, the link is open, and the group then fetched has the
  account as its member.\<close>

definition joinKey :: bytes where
  "joinKey = replicate 32 (CHR 0x01)"

definition joinLink :: string where
  "joinLink = link_prefix @ RawURLEncode (the (plain_enc joinKey (replicate 16 (CHR 0x02))))"

definition joinRaw :: RawGroup where
  "joinRaw = \<lparr>rgID = StdEncode joinKey, rgMasterKey = StdEncode joinKey, rgTitle = ''t'', rgDescription = [], rgAvatarPath = [],
     rgRevision = 8, rgTimer = 0, rgAnnouncementsOnly = False,
     rgMembers = [Some \<lparr>rwACI = replicate 15 (CHR 0x01) @ [char_of (6::nat)], rwRole = RoleDefault, rwJoined = 8\<rparr>],
     rgPending = [], rgRequesting = [], rgBanned = [], rgAccess = None, rgLinkPassword = None\<rparr>"

definition joinServer :: "unit meow" where
  "joinServer = \<lparr>mwConnected = Pair True, mwBegin = Pair True, mwDone = (\<lambda>w. w), mwLost = Pair None, mwCtxErr = Pair None,
     mwNow = Pair 0, mwRandom = Pair None, mwStoreDevice = Pair None, mwMasterKey = (\<lambda>_. Pair (Inr [])),
     mwGroupIDs = Pair (Inr []), mwPutGroup = (\<lambda>_. Pair None), mwGetGroup = (\<lambda>_. Pair (Inr None)),
     mwGetGroups = Pair (Inr []), mwEvict = (\<lambda>_ w. w), mwRetrieve = (\<lambda>_ _. Pair (Inr (Some joinRaw))),
     mwPatch = (\<lambda>c. Pair (Inl panic, c)), mwNotify = (\<lambda>_ _ _. Pair None), mwUpdate = (\<lambda>_ _. Pair (Inl panic)),
     mwUploadAvatar = (\<lambda>_ _ _. Pair (Inl panic)), mwCredential = (\<lambda>_. Pair None), mwPrepareCreation = (\<lambda>_. Pair (Inl panic)),
     mwCreate = (\<lambda>_. Pair (Inl panic))\<rparr>"

definition joinPreview :: GroupJoinPreview where
  "joinPreview = \<lparr>jpTitle = ''t'', jpRevision = 7, jpAccess = AccessAny, jpPendingAdminApproval = False\<rparr>"

definition joinOutcome :: InviteOutcome where
  "joinOutcome = \<lparr>icAttempted = True, icAccepted = True, icVerified = True, icRequesting = False, icRevision = 8,
     icContext = Some \<lparr>gctxRevision = 8, gctxChange = [], gctxMasterKey = []\<rparr>, icChange = Some noChange\<rparr>"

definition joinInvites :: "unit invite_lib" where
  "joinInvites = \<lparr>ilClosing = Pair False, ilPersist = (\<lambda>_ _. Pair None), ilPreview = (\<lambda>_ _. Pair (Inr joinPreview)),
     ilJoin = (\<lambda>_ _ _. Pair (joinOutcome, None)), ilNotify = (\<lambda>_ _ _. Pair (Inr (Some []))), ilFetch = (\<lambda>_. Pair (Inl panic)),
     ilAccept = (\<lambda>_ _ _. Pair (joinOutcome, None)), ilPreviewRequest = (\<lambda>_. Pair (Inl panic)), ilCancel = (\<lambda>_ _. Pair (joinOutcome, None))\<rparr>"

definition joinLib :: meow_lib where
  "joinLib = \<lparr>mlUUID = plain_uuid, mlImages = demoImages, mlToLower = (\<lambda>s. s), mlDeriveID = (\<lambda>k. Inr (StdEncode k)),
     mlLink = plain_enc, mlErrText = (\<lambda>_. [])\<rparr>"

definition joinOwn :: own where
  "joinOwn = \<lparr>ownACI = replicate 15 (CHR 0x01) @ [char_of (6::nat)], ownPNI = uuid_Nil\<rparr>"

lemma join_parsed: "parseInvite plain_links joinLink = Some \<lparr>ivMasterKey = joinKey, ivPassword = replicate 16 (CHR 0x02)\<rparr>"
proof -
  obtain data where d: "plain_enc joinKey (replicate 16 (CHR 0x02)) = Some data" by (simp add: plain_enc_def)
  have "length joinKey = 32" by (simp add: joinKey_def)
  then show ?thesis using parseInvite_link [OF plain_link_laws d] by (simp add: joinLink_def d)
qed

lemma join_member: "gMembership (ownGroup joinLib joinOwn joinRaw) = MembershipMember"
proof -
  have u: "uuid_String plain_uuid (replicate 15 (CHR 0x01) @ [char_of (6::nat)]) = demoUser 6" by (simp add: demoUser_def)
  have ne: "replicate 15 (CHR 0x01) @ [char_of (6::nat)] \<noteq> uuid_Nil"
    using demoUser_valid [of 6] unfolding validACI_def aciRecipient_simps demoUser_identity .
  have own: "uuid_String plain_uuid (acceptIdentity plain_uuid (demoUser 6)) = demoUser 6" "acceptIdentity plain_uuid (demoUser 6) \<noteq> uuid_Nil"
    using ne unfolding demoUser_identity by (simp_all add: u)
  show ?thesis
    by (simp add: ownGroup_def convertGroup_def Let_def SelfMembership_def MembershipOf_def joinRaw_def somes_def convertMember_def
        joinLib_def joinOwn_def ownSelf_def u own memberACI_def convertGroupAccess_def del: replicate.simps)
qed

lemma join_meow:
  "mwConnected (noteMeow joinServer) s = (True, s)" "mwBegin (noteMeow joinServer) s = (True, s)"
  "mwDone (noteMeow joinServer) s = s" "mwLost (noteMeow joinServer) s = (None, s)" "mwCtxErr (noteMeow joinServer) s = (None, s)"
  "mwNow (noteMeow joinServer) s = (0, s)" "mwMasterKey (noteMeow joinServer) g s = (Inr [], s)"
  "mwPutGroup (noteMeow joinServer) r s = (None, (fst s, snd s @ [Stored r]))" "mwEvict (noteMeow joinServer) g s = s"
  "mwRetrieve (noteMeow joinServer) g v s = (Inr (Some joinRaw), (fst s, snd s @ [Fetched joinRaw]))"
  "ilClosing (noteInvites joinInvites) s = (False, s)" "ilPersist (noteInvites joinInvites) g k s = (None, s)"
  "ilPreview (noteInvites joinInvites) k p s = (Inr joinPreview, (fst s, snd s @ [Previewed joinPreview]))"
  "ilJoin (noteInvites joinInvites) k p w s = ((joinOutcome, None), (fst s, snd s @ [Asked joinOutcome]))"
  "ilNotify (noteInvites joinInvites) raw x c s = (Inr (Some []), s)"
  by (simp_all add: noteMeow_def noteInvites_def joinServer_def joinInvites_def inWorld_def noteWorld_def fetchedEvents_def previewEvents_def prod_eq_iff)

lemma join_run:
  "\<exists>r es. run_invite_op (noteMeow joinServer) (noteInvites joinInvites) joinLib plain_links joinOwn (OpJoin joinLink) ((), [])
     = ((r, None), ((), es)) \<and> gjStatus r = GroupJoinMember \<and> gjAccepted r"
proof -
  have gid: "groupIDFromMasterKey joinLib joinKey = Inr (StdEncode joinKey)"
    by (simp add: groupIDFromMasterKey_def joinLib_def joinKey_def)
  have check: "CheckGroupInviteLink plain_links joinLink = None" by (simp add: CheckGroupInviteLink_def join_parsed)
  have raw: "rgID joinRaw = StdEncode joinKey" "rgRevision joinRaw = 8" by (simp_all add: joinRaw_def)
  show ?thesis
    by (simp add: run_invite_op_def JoinGroup_def check staged_client_def groupClient_def joinGroupWithOperations_def join_parsed
        redacted_def deferring_def trying_def ending_def joinContextError_def gid knownGroupJoin_def knownGroup_def submitGroupJoin_def
        completeGroupJoin_def verifyDirectGroupJoin_def joinFetch_def joinCache_def afterOutcome_def groupJoinNotificationError_def
        opThen_def opGet_def opDo_def opCheck_def opWrap_def opOf_def opRet_def join_meow joinPreview_def joinOutcome_def raw join_member
        noJoin_def Let_def)
qed

theorem invitations_truthful_witness:
  "\<exists>r es. run_invite_op (noteMeow joinServer) (noteInvites joinInvites) joinLib plain_links joinOwn (OpJoin joinLink) ((), [])
     = ((r, None), ((), es)) \<and> gjAccepted r \<and> memberVerified joinLib joinOwn r es"
proof -
  obtain r es where run: "run_invite_op (noteMeow joinServer) (noteInvites joinInvites) joinLib plain_links joinOwn (OpJoin joinLink) ((), [])
     = ((r, None), ((), es))" "gjStatus r = GroupJoinMember" "gjAccepted r"
    using join_run by blast
  have "uuid_laws (mlUUID joinLib)" by (simp add: joinLib_def plain_uuid_laws)
  then show ?thesis using invitations_truthful [OF _ run(1)] run by (auto simp: truthful_def verifiedBy_def)
qed

end
