(* ===== verification/Spec2Isabelle.thy ===== *)
theory Spec2Isabelle
  imports PollTables SendFlow Snapshots Supervisor Publication Confirmation GroupOperations GroupEvidence
begin

text \<open>
  A verification of go-signal, a Signal client in Go: a command line, an HTTP daemon and an MCP server
  over use cases (internal/app), a client interface with a backend on the library signalmeow
  (internal/signal), and a data directory with one SQLite database per linked account
  (internal/store). This theory imports all others and documents the development.

  \<^bold>\<open>The program and how its parts interact.\<close> A front end (cmd, internal/daemon, internal/mcp) calls a
  use case of internal/app. A use case parses its arguments, checks the allowlist, loads content,
  and calls \<open>signal.Client\<close>, which sends, reads and changes groups, and keeps the inbox. The receive
  loop stores every event through the client in the account's database, from which the inbox, the
  polls and the pins are read offline. The supervisor restarts the loops when the connection is
  lost. The account registry of the data directory holds the linked and imported accounts.

  \<^bold>\<open>Theories and code.\<close>

    \<^item> GoPrelude, GoText: errors and results, times, machine integers, list and map facts; UTF-8, UTF-16,
      decimal, base64 and hex as Go's standard library has them. Contracts \<open>codec\<close> (a printer with its
      parser) and \<open>step_system\<close> (a state machine with an invariant).

    \<^item> SignalTypes, SendChecks: the data of internal/signal (types.go, events.go, poll.go, pin.go,
      stories.go) as records and a sum of events, and every check of an outgoing request (send.go,
      styles.go, poll\_check.go, pin\_check.go, stories\_send.go, sticker.go).

    \<^item> PollReducer, PollTables: the reduction of the observations of a poll (poll\_reduce.go), and its
      durable evidence, projections and vote counters (internal/store poll\_projections.go and
      poll\_counters.go, meow\_poll\_projection.go, meow\_poll\_counters.go).

    \<^item> InboxTable, EventCodec, InboxClient, InboxService: the table of stored events (store/inbox.go),
      their stored form (signal/inbox.go), the client's operations (meow\_inbox.go) and the inbox of
      the application with its read receipts (app/inbox.go, app/receipts.go). Contracts \<open>paged_log\<close> and
      \<open>inbox_api\<close>.

    \<^item> AppCore, Recipients, Content, SendFlow: the frame of the use cases, recipient arguments and the
      allowlist (recipient.go, policy.go), content (content.go, styles.go), and the use cases that
      send (send.go, react.go, polls.go, pins.go, viewed\_receipts.go). Contracts \<open>world_inv\<close> and
      \<open>directory\<close>.

    \<^item> Snapshots: the offline views of a poll and of pins (poll\_show.go, pin\_list.go).

    \<^item> Names, McpWrite, Confirmation: names of contacts and groups, the MCP tools that send and their
      confirmation by the user (internal/mcp write.go, polls.go, confirm.go).

    \<^item> GroupRules: the rules of membership, roles, bans, settings, links and leaving (groups\_*.go), pure
      functions on a group. GroupWire: groups as the library hands them over and the change submitted
      for each operation. GroupClient: the operations of the client (meow\_groups\_*.go). GroupRefinement and
      GroupOperations: that the changes refine the rules, and that each operation submits one.
      GroupInvite, GroupJoin, GroupEvidence: invite links, and joining, accepting and cancelling with
      their partial results. Contracts \<open>admin_change\<close> and \<open>uuid_package\<close>.

    \<^item> Supervisor: the supervisor of the receive loops (reconnect.go) as a step function.

    \<^item> FileSystem, Registry, RegistryProofs, Publication: the files of the data directory with faults and
      crashes, the account registry, and the publication of imported accounts with its recovery
      (internal/store accounts.go, registry.go, imports.go, recovery.go).

  \<^bold>\<open>How code becomes definitions.\<close> A Go struct is a record and an interface with a closed set of
  implementations a datatype; a string or byte slice is a list of bytes; uint32 and uint64 are words
  that wrap; int lengths are naturals or integers where they cannot overflow. A function that returns
  an error is a function into \<open>err + 'a\<close>, and where Go returns a partial result beside an error, the
  pair of them. An error value keeps what \<open>errors.Is\<close> finds in it. A panic is the error \<open>panic\<close> or no
  result, so that its absence is provable. What reads the clock, the database, the file system or the
  library is a state transformer, and a fault of any call is possible at any time: by arguments for
  the statements of SQL, by the world for calls of the client and the library, by a script of
  outcomes for the file system. Concurrency is what the code makes of it: operations under a mutex or
  a registry lock are steps, in any order; the event loop is a list of events that may be cut off
  anywhere; the supervisor's inputs come in any order.

  \<^bold>\<open>What is shown.\<close> C1 and C39 are about files: publishing an import is all or nothing wherever it or
  its recovery fails or dies, and the registry names an account once. C2: with confirmation the MCP
  tools send only what the user accepted, once. C3, C30, C31 and C33: a use case sends only to what
  the allowlist permits and resolves its arguments as it says; a failed Send has sent nothing, and a
  successful one has sent the requested text, mentions, styles, quote, files or sticker to the targets
  of its arguments and reports what the client answered for each.
  C4, C11, C12 and C27 to C29: the rules of groups exactly as documented, an administrator always
  remains, and the client's operations submit at most one change that does what the rule promises
  to the group fetched in the same operation (the server's side is the abstract specification
  \<open>serverApply\<close>). C5 and C40: results of joining, accepting and cancelling are what the library
  answered, and links that are shown can be read back. C6 to C9, C16, C25 and C26: polls keep
  exactly one vote per voter, the latest valid one before the poll ended, the stored projections are the
  reductions of their evidence after any faults, and vote counters never repeat. C10, C17 to C24, C34
  and C35: the inbox lists, marks, prunes and pages exactly, and its IDs are never used again. C13 to
  C15: styles, polls and the other checked requests are accepted exactly when they should be. C32: the
  mentions that are found have their placeholder, their offset and their user; that every mention of
  the text is found is not stated. C36: the list of pins is that of a reference definition at the
  clock's time, expiries included. C37 and C38: the supervisor restarts within its
  policy and gives up. Each property that has a hypothesis is followed by a witness, the property
  applied at a concrete input.

  \<^bold>\<open>Bounds and fuel.\<close> Loops over lists are structural recursions. Three loops have fuel. The seeding of
  poll projections gets two rounds more than the inbox has rows, and C25 proves that it ends with a
  result for every inbox. Reading page after page needs more pages than there are entries, which C23
  and C34 assume of the fuel. \<open>parse_contents_loop\<close> has the fuel 3, which \<open>parseContents_fuel\<close> shows to be
  as good as any more, since each of the two fields is read at most once. Integers keep the width and
  the limits of the code: revisions and counters are 32 bits, timestamps 64.

  \<^bold>\<open>Parameters and what is assumed of them.\<close> Code that is not in the repository is a parameter:
  github.com/google/uuid (\<open>uuid_laws\<close>: what it prints parses back), signalmeow (the records \<open>meow\<close> and
  \<open>invite_lib\<close>, with \<open>libraryOk\<close>: UUIDs have sixteen bytes, a member is listed once, the clock is after
  1970), protobuf and \<open>url.Parse\<close> (\<open>link_laws\<close>), encoding/json, SHA-256 and SQLite's file format
  (\<open>store_laws\<close>), the MCP SDK, image decoders, MIME types and Unicode tables. SQL statements mean what
  SQL says and a transaction that fails leaves the tables alone. A death of the process keeps what
  the completed calls of the file system did; power loss with unsynced data has no model, so the
  syncs are calls that can fail or be the last. Between a crash and a recovery other registry
  operations may run; \<open>Dir.Lock\<close>, which makes the directory of an account, is not one of them. The
  calls of MCP tools are taken one at a time.

  \<^bold>\<open>Idealisations.\<close> The round trips assumed of encoding/json are for the values a property is about. For
  stored events (C24) they are asked of the payloads in question and of the envelope around bytes that
  the encoder made, which may come back compacted. For the registry and the import intents
  (\<open>store_laws\<close>) and for poll evidence (C26) they are asked of every value that is encoded, while
  encoding/json replaces malformed UTF-8 in a string by U+FFFD: these properties are about data whose
  strings are valid UTF-8, as the numbers, UUIDs and names are that the code puts there. Times are
  instants; \<open>slices.Contains\<close> in recovery.go compares \<open>time.Time\<close> structures, which is the same for
  the times that meow.go records, in UTC and whole seconds, once they are decoded from both files.

  \<^bold>\<open>Not modelled.\<close> The command line, the daemon's and the MCP server's plumbing, formatting of output:
  they decode, call what is modelled, and print. The texts of errors, except where a result depends on
  them. The backend's calls of signalmeow and libsignal for messages, profiles, contacts,
  identities, devices, stories and stickers: they translate between the library's messages and the
  types modelled here, and the library's source is not in the repository. Cryptography of
  profiles, usernames and linking. The use cases that are one call of the client (contacts,
  identities, profiles, stories, sticker packs, sync), downloads, the diagnosis of the set-up, and the
  waiting for new inbox entries, which is a timer around the modelled listing. The tables of the
  store that are single statements (devices, contacts, identities, timers). The fake client of the
  tests.
\<close>

end
